(* ===== verification/Prelude.thy ===== *)
theory Prelude imports Main "HOL-Library.Sublist" begin

text \<open>
  Shared vocabulary of the development: Go strings and the functions of package
  \<open>strings\<close> that the modelled code calls, the time values of package \<open>time\<close>, and the generic
  lemmas the component theories use.

  A Go string is a list of bytes, here \<open>char list\<close>. The Unicode-aware functions
  \<open>ToLower\<close>, \<open>TrimSpace\<close> and \<open>EqualFold\<close> are modelled on their ASCII part: bytes above 127
  are left as they are. A \<open>time.Time\<close> is \<open>None\<close> for the zero time and otherwise
  \<open>Some\<close> of the nanoseconds since an epoch; a \<open>time.Duration\<close> is an \<open>int\<close> of nanoseconds.
\<close>

named_theorems str_simps \<open>normal forms of the string operations\<close>
named_theorems str_char \<open>which characters the result of a string operation holds\<close>

type_synonym gostr = string
type_synonym gotime = "int option"
type_synonym duration = int

abbreviation ms :: "int \<Rightarrow> duration" where
  "ms n \<equiv> n * 1000000"

abbreviation seconds :: "int \<Rightarrow> duration" where
  "seconds n \<equiv> n * 1000000000"

section \<open>Characters\<close>

definition code :: "char \<Rightarrow> nat" where
  "code c = of_char c"

definition is_digit :: "char \<Rightarrow> bool" where
  "is_digit c \<longleftrightarrow> 48 \<le> code c \<and> code c \<le> 57"

definition is_upper :: "char \<Rightarrow> bool" where
  "is_upper c \<longleftrightarrow> 65 \<le> code c \<and> code c \<le> 90"

definition is_lower :: "char \<Rightarrow> bool" where
  "is_lower c \<longleftrightarrow> 97 \<le> code c \<and> code c \<le> 122"

definition is_space :: "char \<Rightarrow> bool" where
  "is_space c \<longleftrightarrow> code c = 32 \<or> (9 \<le> code c \<and> code c \<le> 13)"

definition lower_char :: "char \<Rightarrow> char" where
  "lower_char c = (if is_upper c then char_of (code c + 32) else c)"

lemma code_char_of [simp]: "n < 256 \<Longrightarrow> code (char_of n) = n"
  by (simp add: code_def)

lemma code_less [simp]: "code c < 256"
  by (simp add: code_def)

lemma code_inj: "code c = code d \<longleftrightarrow> c = d"
  by (simp add: code_def)

lemma lower_char_not_upper [simp]: "\<not> is_upper (lower_char c)"
  by (auto simp: lower_char_def is_upper_def)

lemma lower_char_idem [simp]: "lower_char (lower_char c) = lower_char c"
  by (simp add: lower_char_def [of "lower_char c"])

lemma is_space_lower [simp]: "is_space (lower_char c) = is_space c"
  by (auto simp: lower_char_def is_upper_def is_space_def)

lemma lower_char_id: "\<not> is_upper c \<Longrightarrow> lower_char c = c"
  by (simp add: lower_char_def)

lemma lower_char_eq_nonletter: "lower_char c = d \<Longrightarrow> \<not> is_lower d \<Longrightarrow> c = d"
  by (auto simp: lower_char_def is_upper_def is_lower_def split: if_splits)

section \<open>Strings\<close>

definition to_lower :: "gostr \<Rightarrow> gostr" where
  "to_lower s = map lower_char s"

definition trim_left :: "gostr \<Rightarrow> gostr" where
  "trim_left s = dropWhile is_space s"

definition trim_right :: "gostr \<Rightarrow> gostr" where
  "trim_right s = rev (dropWhile is_space (rev s))"

definition trim_space :: "gostr \<Rightarrow> gostr" where
  "trim_space s = trim_right (trim_left s)"

definition equal_fold :: "gostr \<Rightarrow> gostr \<Rightarrow> bool" where
  "equal_fold s t \<longleftrightarrow> to_lower s = to_lower t"

definition has_prefix :: "gostr \<Rightarrow> gostr \<Rightarrow> bool" where
  "has_prefix s p \<longleftrightarrow> take (length p) s = p"

definition trim_prefix :: "gostr \<Rightarrow> gostr \<Rightarrow> gostr" where
  "trim_prefix s p = (if has_prefix s p then drop (length p) s else s)"

definition has_suffix :: "gostr \<Rightarrow> gostr \<Rightarrow> bool" where
  "has_suffix s p \<longleftrightarrow> has_prefix (rev s) (rev p)"

fun contains :: "gostr \<Rightarrow> gostr \<Rightarrow> bool" where
  "contains [] w = has_prefix [] w"
| "contains (c # s) w = (has_prefix (c # s) w \<or> contains s w)"

text \<open>\<open>strings.Index\<close> of a one-character separator.\<close>

fun index_char :: "gostr \<Rightarrow> char \<Rightarrow> nat option" where
  "index_char [] c = None"
| "index_char (x # s) c = (if x = c then Some 0 else map_option Suc (index_char s c))"

text \<open>\<open>strings.SplitN\<close> with a one-character separator: at most \<open>n\<close> parts.\<close>

fun split_n :: "gostr \<Rightarrow> char \<Rightarrow> nat \<Rightarrow> gostr list" where
  "split_n s c 0 = []"
| "split_n s c (Suc 0) = [s]"
| "split_n s c (Suc (Suc n)) =
     (case index_char s c of
        None \<Rightarrow> [s]
      | Some i \<Rightarrow> take i s # split_n (drop (Suc i) s) c (Suc n))"

definition replace_char :: "char \<Rightarrow> char \<Rightarrow> gostr \<Rightarrow> gostr" where
  "replace_char a b s = map (\<lambda>c. if c = a then b else c) s"

subsection \<open>Lower case\<close>

lemma to_lower_Nil [simp]: "to_lower [] = []"
  by (simp add: to_lower_def)

lemma to_lower_Cons [simp]: "to_lower (c # s) = lower_char c # to_lower s"
  by (simp add: to_lower_def)

lemma to_lower_append [simp]: "to_lower (s @ t) = to_lower s @ to_lower t"
  by (simp add: to_lower_def)

lemma to_lower_idem [simp]: "to_lower (to_lower s) = to_lower s"
  by (simp add: to_lower_def)

lemma to_lower_eq_Nil [simp]: "to_lower s = [] \<longleftrightarrow> s = []"
  by (simp add: to_lower_def)

lemma length_to_lower [simp]: "length (to_lower s) = length s"
  by (simp add: to_lower_def)

lemma set_to_lower: "set (to_lower s) = lower_char ` set s"
  by (simp add: to_lower_def)

lemma to_lower_not_upper [str_char]: "c \<in> set (to_lower s) \<Longrightarrow> \<not> is_upper c"
  by (auto simp: set_to_lower)

lemma to_lower_id: "(\<And>c. c \<in> set s \<Longrightarrow> \<not> is_upper c) \<Longrightarrow> to_lower s = s"
  by (induction s) (auto simp: lower_char_id)

lemma nonletter_in_to_lower: "\<not> is_lower d \<Longrightarrow> d \<in> set (to_lower s) \<Longrightarrow> d \<in> set s"
  by (metis imageE lower_char_eq_nonletter set_to_lower)

subsection \<open>Trimming\<close>

lemma dropWhile_map_lower:
  "dropWhile is_space (map lower_char s) = map lower_char (dropWhile is_space s)"
  by (induction s) auto

lemma to_lower_trim_left: "to_lower (trim_left s) = trim_left (to_lower s)"
  by (simp add: to_lower_def trim_left_def dropWhile_map_lower)

lemma to_lower_trim_right: "to_lower (trim_right s) = trim_right (to_lower s)"
  by (simp add: to_lower_def trim_right_def rev_map dropWhile_map_lower)

lemma to_lower_trim_space: "to_lower (trim_space s) = trim_space (to_lower s)"
  by (simp add: trim_space_def to_lower_trim_left to_lower_trim_right)

lemma trim_space_Nil [simp]: "trim_space [] = []"
  by (simp add: trim_space_def trim_left_def trim_right_def)

text \<open>A string is trimmed when neither end is a space.\<close>

definition trimmed :: "gostr \<Rightarrow> bool" where
  "trimmed s \<longleftrightarrow> (s = [] \<or> (\<not> is_space (hd s) \<and> \<not> is_space (last s)))"

lemma trimmed_Nil [simp]: "trimmed []"
  by (simp add: trimmed_def)

lemma trim_space_trimmed: "trimmed s \<Longrightarrow> trim_space s = s"
proof (cases s)
  case (Cons c t)
  assume t: "trimmed s"
  with Cons have h: "\<not> is_space c" and l: "\<not> is_space (last s)"
    by (auto simp: trimmed_def)
  from h Cons have "trim_left s = s" by (simp add: trim_left_def)
  moreover have "trim_right s = s"
  proof -
    from Cons have "rev s = last s # rev (butlast s)"
      by (metis append_butlast_last_id list.distinct(1) rev.simps(2) rev_rev_ident)
    with l show ?thesis by (metis dropWhile.simps(2) rev_rev_ident trim_right_def)
  qed
  ultimately show ?thesis by (simp add: trim_space_def)
qed simp

lemma hd_rev_dropWhile_rev:
  "s \<noteq> [] \<Longrightarrow> \<not> P (hd s) \<Longrightarrow> hd (rev (dropWhile P (rev s))) = hd s"
proof -
  assume s: "s \<noteq> []" and "\<not> P (hd s)"
  then have "dropWhile P (rev s) \<noteq> []"
    by (auto simp: dropWhile_eq_Nil_conv)
  moreover obtain xs where "rev s = xs @ dropWhile P (rev s)"
    by (metis takeWhile_dropWhile_id)
  ultimately show ?thesis by (metis hd_append2 rev_append rev_is_Nil_conv rev_rev_ident)
qed

lemma trimmed_trim_space [simp]: "trimmed (trim_space s)"
proof (cases "trim_left s = []")
  case True
  then show ?thesis by (simp add: trim_space_def trim_right_def)
next
  case False
  then have h: "\<not> is_space (hd (trim_left s))"
    by (simp add: trim_left_def hd_dropWhile)
  let ?r = "trim_right (trim_left s)"
  have "?r = [] \<or> \<not> is_space (last ?r)"
    by (metis trim_right_def hd_dropWhile last_rev rev_is_Nil_conv dropWhile_eq_Nil_conv)
  moreover have "?r = [] \<or> hd ?r = hd (trim_left s)"
    using False h by (simp add: trim_right_def hd_rev_dropWhile_rev)
  ultimately show ?thesis using h by (auto simp: trimmed_def trim_space_def)
qed

lemma trimmed_iff: "trimmed s \<longleftrightarrow> trim_space s = s"
  by (metis trim_space_trimmed trimmed_trim_space)

lemma trim_space_idem [simp]: "trim_space (trim_space s) = trim_space s"
  by (simp add: trim_space_trimmed)

lemma set_trim_space: "set (trim_space s) \<subseteq> set s"
  by (auto simp: trim_space_def trim_right_def trim_left_def dest!: set_dropWhileD)

lemma trimmed_to_lower [simp]: "trimmed (to_lower s) = trimmed s"
  by (auto simp: trimmed_def to_lower_def hd_map last_map)

lemma trimmed_no_space: "(\<And>c. c \<in> set s \<Longrightarrow> \<not> is_space c) \<Longrightarrow> trimmed s"
  by (auto simp: trimmed_def)

lemma trimmed_append: "trimmed s \<Longrightarrow> trimmed t \<Longrightarrow> trimmed (s @ t)"
  by (auto simp: trimmed_def hd_append last_append)

lemma trimmed_appendI:
  "s \<noteq> [] \<Longrightarrow> t \<noteq> [] \<Longrightarrow> \<not> is_space (hd s) \<Longrightarrow> \<not> is_space (last t) \<Longrightarrow> trimmed (s @ t)"
  by (auto simp: trimmed_def)

subsection \<open>Prefixes, search, splitting\<close>

lemma has_prefix_iff: "has_prefix s p \<longleftrightarrow> prefix p s"
  by (metis append_take_drop_id has_prefix_def prefix_def append_eq_conv_conj)

lemma has_prefix_Nil2 [simp]: "has_prefix s []"
  by (simp add: has_prefix_def)

lemma has_prefix_Nil [simp]: "has_prefix [] p \<longleftrightarrow> p = []"
  by (auto simp: has_prefix_def)

lemma has_prefix_Cons [simp]:
  "has_prefix (c # s) (d # p) \<longleftrightarrow> c = d \<and> has_prefix s p"
  by (auto simp: has_prefix_def)

lemma contains_iff: "contains s w \<longleftrightarrow> (\<exists>u v. s = u @ w @ v)"
proof (induction s)
  case Nil
  then show ?case by auto
next
  case (Cons c s)
  show ?case
  proof
    assume "contains (c # s) w"
    then consider "has_prefix (c # s) w" | "contains s w" by auto
    then show "\<exists>u v. c # s = u @ w @ v"
    proof cases
      case 1
      then have "c # s = [] @ w @ drop (length w) (c # s)"
        by (metis append_Nil append_take_drop_id has_prefix_def)
      then show ?thesis by blast
    next
      case 2
      then show ?thesis using Cons.IH by (metis append_Cons)
    qed
  next
    assume "\<exists>u v. c # s = u @ w @ v"
    then obtain u v where e: "c # s = u @ w @ v" by blast
    show "contains (c # s) w"
    proof (cases u)
      case Nil
      with e have "has_prefix (c # s) w" by (simp add: has_prefix_def)
      then show ?thesis by simp
    next
      case (Cons d u')
      then show ?thesis using e Cons.IH by auto
    qed
  qed
qed

lemma index_char_None: "index_char s c = None \<longleftrightarrow> c \<notin> set s"
  by (induction s) auto

lemma index_char_append:
  "c \<notin> set s \<Longrightarrow> index_char (s @ c # t) c = Some (length s)"
  by (induction s) auto

lemma index_char_Some:
  "index_char s c = Some i \<Longrightarrow> s = take i s @ c # drop (Suc i) s \<and> c \<notin> set (take i s) \<and> i < length s"
proof (induction s arbitrary: i)
  case (Cons x s)
  then show ?case by (cases "x = c") auto
qed simp

lemma split_n_sep [str_simps]:
  "c \<notin> set s \<Longrightarrow> split_n (s @ c # t) c (Suc (Suc n)) = s # split_n t c (Suc n)"
  by (simp add: index_char_append)

lemma split_n_none [str_simps]: "c \<notin> set s \<Longrightarrow> split_n s c (Suc n) = [s]"
  by (cases n) (auto simp: index_char_None [THEN iffD2])

text \<open>Cutting at the first separator is unambiguous.\<close>

lemma append_sep_inj:
  "c \<notin> set a \<Longrightarrow> c \<notin> set b \<Longrightarrow> a @ c # x = b @ c # y \<longleftrightarrow> a = b \<and> x = y"
proof (induction a arbitrary: b)
  case Nil
  then show ?case by (cases b) auto
next
  case (Cons d a)
  then show ?case by (cases b) auto
qed

lemma set_replace_char: "a \<noteq> b \<Longrightarrow> a \<notin> set (replace_char a b s)"
  by (auto simp: replace_char_def)

section \<open>Lists\<close>

lemma find_Some_split:
  "List.find P xs = Some x \<Longrightarrow> \<exists>us vs. xs = us @ x # vs \<and> P x \<and> (\<forall>u\<in>set us. \<not> P u)"
proof (induction xs)
  case (Cons a xs)
  show ?case
  proof (cases "P a")
    case True
    with Cons.prems show ?thesis by (intro exI [of _ "[]"] exI [of _ xs]) auto
  next
    case False
    with Cons.prems have "List.find P xs = Some x" by simp
    with Cons.IH obtain us vs where "xs = us @ x # vs" "P x" "\<forall>u\<in>set us. \<not> P u" by blast
    with False show ?thesis by (intro exI [of _ "a # us"] exI [of _ vs]) auto
  qed
qed simp

lemma find_in_set: "List.find P xs = Some x \<Longrightarrow> x \<in> set xs \<and> P x"
  by (auto dest: find_Some_split)

text \<open>An order in which Go can visit the keys of a map: every key once.\<close>

definition visits :: "('a set \<Rightarrow> 'a list) \<Rightarrow> bool" where
  "visits ord \<longleftrightarrow> (\<forall>A. finite A \<longrightarrow> set (ord A) = A \<and> distinct (ord A))"

lemma visits_sorted: "visits (sorted_list_of_set :: 'a :: linorder set \<Rightarrow> 'a list)"
  by (simp add: visits_def)

lemma visits_empty: "visits ord \<Longrightarrow> ord {} = []"
  unfolding visits_def by (metis finite.emptyI set_empty)

lemma visits_single: "visits ord \<Longrightarrow> ord {k} = [k]"
proof -
  assume "visits ord"
  then have s: "set (ord {k}) = {k}" "distinct (ord {k})" by (auto simp: visits_def)
  with distinct_card [OF s(2)] have "length (ord {k}) = 1" by simp
  then obtain x where "ord {k} = [x]" by (auto simp: length_Suc_conv)
  with s(1) show ?thesis by simp
qed

section \<open>Channels that are not chat services\<close>

text \<open>\<open>IsInternalChannel\<close> of \<open>pkg/constants/channels.go\<close>.\<close>

definition internal_channel :: "gostr \<Rightarrow> bool" where
  "internal_channel c \<longleftrightarrow> c \<in> {''cli'', ''system'', ''subagent''}"

end
