(* ===== verification/Cooldown.thy ===== *)
theory Cooldown imports Prelude begin

text \<open>
  The per-provider cooldown tracker of \<open>pkg/providers/cooldown.go\<close>, and the interface the
  fallback chain relies on. The clock \<open>nowFunc\<close> is the argument \<open>now\<close>; the mutex makes each
  operation atomic, so an operation is a function on the tracker. \<open>FailureCounts\<close> is a total
  function because a missing key of a Go map of integers reads as 0.
\<close>

section \<open>Interface: provider health\<close>

text \<open>
  What a client of the tracker may rely on: a success makes a provider available, a failure
  makes it unavailable for at least \<open>min_cool\<close>, both leave other providers alone, and every
  provider becomes available again as time passes.
\<close>

locale provider_health =
  fixes available :: "'s \<Rightarrow> int \<Rightarrow> 'p \<Rightarrow> bool"
    and fail :: "'s \<Rightarrow> int \<Rightarrow> 'p \<Rightarrow> 'r \<Rightarrow> 's"
    and succeed :: "'s \<Rightarrow> 'p \<Rightarrow> 's"
    and min_cool :: int
  assumes succeed_available: "available (succeed s p) now p"
    and succeed_other: "q \<noteq> p \<Longrightarrow> available (succeed s p) now q = available s now q"
    and fail_blocks: "t \<le> now \<Longrightarrow> now < t + min_cool \<Longrightarrow> \<not> available (fail s t p r) now p"
    and fail_other: "q \<noteq> p \<Longrightarrow> available (fail s t p r) now q = available s now q"
    and recovers: "\<exists>T. \<forall>now \<ge> T. available s now p"
begin

text \<open>Failures of other providers never change the availability of a provider.\<close>

lemma fails_other:
  "q \<notin> (\<lambda>(t, p, r). p) ` set evs \<Longrightarrow>
     available (fold (\<lambda>(t, p, r) s. fail s t p r) evs s) now q = available s now q"
proof (induction evs arbitrary: s)
  case (Cons e evs)
  obtain t p r where e: "e = (t, p, r)" by (cases e)
  with Cons.prems have "q \<noteq> p" and "q \<notin> (\<lambda>(t, p, r). p) ` set evs" by auto
  with Cons.IH [of "fail s t p r"] show ?case by (simp add: e fail_other)
qed simp

text \<open>A failure keeps blocking its provider while only other providers fail.\<close>

lemma fail_blocks_run:
  "q \<notin> (\<lambda>(t, p, r). p) ` set evs \<Longrightarrow> t \<le> now \<Longrightarrow> now < t + min_cool \<Longrightarrow>
     \<not> available (fold (\<lambda>(t, p, r) s. fail s t p r) evs (fail s t q r)) now q"
  by (simp add: fails_other fail_blocks)

end

section \<open>Model\<close>

datatype failover_reason =
  FailoverAuth | FailoverRateLimit | FailoverBilling | FailoverTimeout
| FailoverFormat | FailoverOverloaded | FailoverUnknown

record cooldown_entry =
  ErrorCount :: int
  FailureCounts :: "failover_reason \<Rightarrow> int"
  CooldownEnd :: gotime
  DisabledUntil :: gotime
  DisabledReason :: "failover_reason option"
  LastFailure :: gotime

record cooldown_tracker =
  entries :: "gostr \<rightharpoonup> cooldown_entry"
  failure_window :: duration

definition default_failure_window :: duration where
  "default_failure_window = seconds (24 * 60 * 60)"

definition new_cooldown_tracker :: cooldown_tracker where
  "new_cooldown_tracker = \<lparr>entries = Map.empty, failure_window = default_failure_window\<rparr>"

definition zero_entry :: cooldown_entry where
  "zero_entry = \<lparr>ErrorCount = 0, FailureCounts = (\<lambda>_. 0), CooldownEnd = None,
     DisabledUntil = None, DisabledReason = None, LastFailure = None\<rparr>"

definition get_or_create :: "cooldown_tracker \<Rightarrow> gostr \<Rightarrow> cooldown_entry" where
  "get_or_create ct provider =
     (case entries ct provider of None \<Rightarrow> zero_entry | Some entry \<Rightarrow> entry)"

definition calculate_standard_cooldown :: "int \<Rightarrow> duration" where
  "calculate_standard_cooldown error_count =
     (let n = max 1 error_count;
          e = min (n - 1) 3;
          m = 60000 * 5 ^ nat e
      in ms (min 3600000 m))"

definition calculate_billing_cooldown :: "int \<Rightarrow> duration" where
  "calculate_billing_cooldown billing_error_count =
     (let base_ms = 5 * 60 * 60 * 1000;
          max_ms = 24 * 60 * 60 * 1000;
          n = max 1 billing_error_count;
          e = min (n - 1) 10;
          raw = base_ms * 2 ^ nat e
      in ms (min max_ms raw))"

definition window_reset :: "duration \<Rightarrow> int \<Rightarrow> cooldown_entry \<Rightarrow> cooldown_entry" where
  "window_reset window now entry =
     (case LastFailure entry of
        None \<Rightarrow> entry
      | Some prev \<Rightarrow>
          if now - prev > window
          then entry\<lparr>ErrorCount := 0, FailureCounts := (\<lambda>_. 0)\<rparr>
          else entry)"

definition mark_failure_entry ::
  "duration \<Rightarrow> int \<Rightarrow> failover_reason \<Rightarrow> cooldown_entry \<Rightarrow> cooldown_entry" where
  "mark_failure_entry window now reason e0 =
     (let e1 = window_reset window now e0;
          e2 = e1\<lparr>ErrorCount := ErrorCount e1 + 1,
                  FailureCounts := (FailureCounts e1)(reason := FailureCounts e1 reason + 1),
                  LastFailure := Some now\<rparr>
      in if reason = FailoverBilling
         then e2\<lparr>DisabledUntil :=
                   Some (now + calculate_billing_cooldown (FailureCounts e2 FailoverBilling)),
                 DisabledReason := Some FailoverBilling\<rparr>
         else e2\<lparr>CooldownEnd := Some (now + calculate_standard_cooldown (ErrorCount e2))\<rparr>)"

definition mark_failure ::
  "cooldown_tracker \<Rightarrow> int \<Rightarrow> gostr \<Rightarrow> failover_reason \<Rightarrow> cooldown_tracker" where
  "mark_failure ct now provider reason =
     ct\<lparr>entries := (entries ct)(provider \<mapsto>
          mark_failure_entry (failure_window ct) now reason (get_or_create ct provider))\<rparr>"

definition mark_success :: "cooldown_tracker \<Rightarrow> gostr \<Rightarrow> cooldown_tracker" where
  "mark_success ct provider =
     (case entries ct provider of
        None \<Rightarrow> ct
      | Some entry \<Rightarrow>
          ct\<lparr>entries := (entries ct)(provider \<mapsto>
               entry\<lparr>ErrorCount := 0, FailureCounts := (\<lambda>_. 0), CooldownEnd := None,
                     DisabledUntil := None, DisabledReason := None\<rparr>)\<rparr>)"

text \<open>\<open>!t.IsZero() && now.Before(t)\<close>.\<close>

definition pending :: "gotime \<Rightarrow> int \<Rightarrow> bool" where
  "pending t now = (case t of None \<Rightarrow> False | Some u \<Rightarrow> now < u)"

definition is_available :: "cooldown_tracker \<Rightarrow> int \<Rightarrow> gostr \<Rightarrow> bool" where
  "is_available ct now provider =
     (case entries ct provider of
        None \<Rightarrow> True
      | Some entry \<Rightarrow>
          if pending (DisabledUntil entry) now then False
          else if pending (CooldownEnd entry) now then False
          else True)"

definition raise_to :: "gotime \<Rightarrow> int \<Rightarrow> duration \<Rightarrow> duration" where
  "raise_to t now remaining =
     (case t of
        None \<Rightarrow> remaining
      | Some u \<Rightarrow> if now < u \<and> u - now > remaining then u - now else remaining)"

definition cooldown_remaining :: "cooldown_tracker \<Rightarrow> int \<Rightarrow> gostr \<Rightarrow> duration" where
  "cooldown_remaining ct now provider =
     (case entries ct provider of
        None \<Rightarrow> 0
      | Some entry \<Rightarrow> raise_to (CooldownEnd entry) now (raise_to (DisabledUntil entry) now 0))"

definition error_count :: "cooldown_tracker \<Rightarrow> gostr \<Rightarrow> int" where
  "error_count ct provider =
     (case entries ct provider of None \<Rightarrow> 0 | Some entry \<Rightarrow> ErrorCount entry)"

definition failure_count :: "cooldown_tracker \<Rightarrow> gostr \<Rightarrow> failover_reason \<Rightarrow> int" where
  "failure_count ct provider reason =
     (case entries ct provider of None \<Rightarrow> 0 | Some entry \<Rightarrow> FailureCounts entry reason)"

section \<open>Backoff durations\<close>

lemma standard_cooldown_values:
  "n \<le> 1 \<Longrightarrow> calculate_standard_cooldown n = seconds 60"
  "calculate_standard_cooldown 2 = seconds (5 * 60)"
  "calculate_standard_cooldown 3 = seconds (25 * 60)"
  "4 \<le> n \<Longrightarrow> calculate_standard_cooldown n = seconds (60 * 60)"
  by (auto simp: calculate_standard_cooldown_def Let_def max_def min_def)

lemma billing_cooldown_values:
  "n \<le> 1 \<Longrightarrow> calculate_billing_cooldown n = seconds (5 * 60 * 60)"
  "calculate_billing_cooldown 2 = seconds (10 * 60 * 60)"
  "calculate_billing_cooldown 3 = seconds (20 * 60 * 60)"
  by (auto simp: calculate_billing_cooldown_def Let_def max_def min_def)

lemma billing_cooldown_cap:
  assumes "4 \<le> n" shows "calculate_billing_cooldown n = seconds (24 * 60 * 60)"
proof -
  let ?k = "nat (min (n - 1) 10)"
  from assms have "(2::int) ^ 3 \<le> 2 ^ ?k" by (intro power_increasing) auto
  then have "24 * 60 * 60 * 1000 \<le> 5 * 60 * 60 * 1000 * (2::int) ^ ?k" by simp
  with assms show ?thesis by (simp add: calculate_billing_cooldown_def Let_def)
qed

lemma int_cases_cap: "(n::int) \<le> 1 \<or> n = 2 \<or> n = 3 \<or> 4 \<le> n"
  by arith

lemma standard_cooldown_bounds:
  "seconds 60 \<le> calculate_standard_cooldown n \<and> calculate_standard_cooldown n \<le> seconds 3600"
  using int_cases_cap [of n] by (auto simp: standard_cooldown_values)

lemma billing_cooldown_bounds:
  "seconds 18000 \<le> calculate_billing_cooldown n \<and> calculate_billing_cooldown n \<le> seconds 86400"
  using int_cases_cap [of n] by (auto simp: billing_cooldown_values billing_cooldown_cap)

lemma cooldown_lower:
  assumes "now < t + seconds 60"
  shows "now < t + calculate_standard_cooldown n" "now < t + calculate_billing_cooldown n"
  using assms standard_cooldown_bounds [of n] billing_cooldown_bounds [of n] by linarith+

section \<open>Availability\<close>

lemma pending_simps [simp]:
  "pending None now = False" "pending (Some u) now = (now < u)"
  by (simp_all add: pending_def)

lemma is_available_iff:
  "is_available ct now p \<longleftrightarrow>
     (\<forall>e. entries ct p = Some e \<longrightarrow> \<not> pending (DisabledUntil e) now \<and> \<not> pending (CooldownEnd e) now)"
  by (auto simp: is_available_def split: option.splits)

lemma raise_to_ge: "remaining \<le> raise_to t now remaining"
  by (auto simp: raise_to_def split: option.splits)

lemma raise_to_zero: "0 \<le> r \<Longrightarrow> raise_to t now r = 0 \<longleftrightarrow> r = 0 \<and> \<not> pending t now"
  by (auto simp: raise_to_def split: option.splits)

lemma cooldown_remaining_nonneg: "0 \<le> cooldown_remaining ct now p"
  by (auto simp: cooldown_remaining_def split: option.splits intro: order_trans [OF _ raise_to_ge])

lemma entries_mark_failure:
  "entries (mark_failure ct t p r) q =
     (if q = p then Some (mark_failure_entry (failure_window ct) t r (get_or_create ct p))
      else entries ct q)"
  by (simp add: mark_failure_def)

lemma entries_mark_success_other: "q \<noteq> p \<Longrightarrow> entries (mark_success ct p) q = entries ct q"
  by (auto simp: mark_success_def split: option.splits)

lemma window_mark [simp]:
  "failure_window (mark_failure ct t p r) = failure_window ct"
  "failure_window (mark_success ct p) = failure_window ct"
  by (auto simp: mark_failure_def mark_success_def split: option.splits)

lemma mark_success_available: "is_available (mark_success ct p) now p"
  by (auto simp: mark_success_def is_available_iff split: option.splits)

lemma mark_failure_blocks:
  assumes "t \<le> now" and "now < t + seconds 60"
  shows "\<not> is_available (mark_failure ct t p r) now p"
proof -
  let ?e = "mark_failure_entry (failure_window ct) t r (get_or_create ct p)"
  have "pending (DisabledUntil ?e) now \<or> pending (CooldownEnd ?e) now"
  proof (cases "r = FailoverBilling")
    case True
    with cooldown_lower(2) [OF assms(2)] show ?thesis
      by (simp add: mark_failure_entry_def Let_def)
  next
    case False
    with cooldown_lower(1) [OF assms(2)] show ?thesis
      by (simp add: mark_failure_entry_def Let_def)
  qed
  then show ?thesis by (auto simp: is_available_iff entries_mark_failure)
qed

lemma tracker_recovers: "\<exists>T. \<forall>now \<ge> T. is_available ct now p"
proof (cases "entries ct p")
  case None
  then show ?thesis by (simp add: is_available_iff)
next
  case (Some e)
  let ?T = "max (case DisabledUntil e of None \<Rightarrow> 0 | Some u \<Rightarrow> u)
                (case CooldownEnd e of None \<Rightarrow> 0 | Some u \<Rightarrow> u)"
  have "is_available ct now p" if "?T \<le> now" for now
    using that Some by (auto simp: is_available_iff pending_def split: option.splits)
  then show ?thesis by blast
qed

interpretation tracker: provider_health is_available mark_failure mark_success "seconds 60"
proof (unfold_locales, goal_cases)
  case 1 show ?case by (rule mark_success_available)
next
  case (2 q p s now) then show ?case by (simp add: is_available_iff entries_mark_success_other)
next
  case (3 t now s p r) then show ?case by (rule mark_failure_blocks)
next
  case (4 q p s t r now) then show ?case by (simp add: is_available_iff entries_mark_failure)
next
  case (5 s p) show ?case by (rule tracker_recovers)
qed

section \<open>Invariant\<close>

definition reasons :: "failover_reason list" where
  "reasons = [FailoverAuth, FailoverRateLimit, FailoverBilling, FailoverTimeout, FailoverFormat,
     FailoverOverloaded, FailoverUnknown]"

text \<open>
  The counters agree, a disable is always a billing disable, and an entry with errors
  remembers when the last one was.
\<close>

definition entry_ok :: "cooldown_entry \<Rightarrow> bool" where
  "entry_ok e \<longleftrightarrow>
     ErrorCount e = sum_list (map (FailureCounts e) reasons)
     \<and> (\<forall>r. 0 \<le> FailureCounts e r)
     \<and> (DisabledUntil e \<noteq> None \<longleftrightarrow> DisabledReason e = Some FailoverBilling)
     \<and> (0 < ErrorCount e \<longrightarrow> LastFailure e \<noteq> None)"

definition tracker_ok :: "cooldown_tracker \<Rightarrow> bool" where
  "tracker_ok ct \<longleftrightarrow> (\<forall>p e. entries ct p = Some e \<longrightarrow> entry_ok e)"

lemma tracker_ok_new: "tracker_ok new_cooldown_tracker"
  by (simp add: tracker_ok_def new_cooldown_tracker_def)

lemma entry_ok_zero: "entry_ok zero_entry"
  by (simp add: entry_ok_def zero_entry_def reasons_def)

lemma sum_bump:
  "sum_list (map (f(r := f r + 1)) reasons) = sum_list (map f reasons) + (1::int)"
  by (cases r) (simp_all add: reasons_def)

lemma entry_ok_window_reset: "entry_ok e \<Longrightarrow> entry_ok (window_reset w now e)"
  by (auto simp: entry_ok_def window_reset_def reasons_def split: option.splits)

lemma entry_ok_mark_failure: "entry_ok e \<Longrightarrow> entry_ok (mark_failure_entry w now r e)"
  using entry_ok_window_reset [of e w now]
  by (auto simp: mark_failure_entry_def Let_def entry_ok_def sum_bump add_nonneg_nonneg
      simp del: fun_upd_apply) (simp_all add: add_nonneg_nonneg)

lemma tracker_ok_mark_failure: "tracker_ok ct \<Longrightarrow> tracker_ok (mark_failure ct t p r)"
proof -
  assume ok: "tracker_ok ct"
  then have "entry_ok (get_or_create ct p)"
    by (auto simp: get_or_create_def tracker_ok_def entry_ok_zero split: option.splits)
  with ok show ?thesis
    by (auto simp: tracker_ok_def entries_mark_failure intro: entry_ok_mark_failure)
qed

lemma tracker_ok_mark_success: "tracker_ok ct \<Longrightarrow> tracker_ok (mark_success ct p)"
  by (auto simp: tracker_ok_def mark_success_def entry_ok_def reasons_def split: option.splits if_splits)

section \<open>Runs of failures\<close>

text \<open>Each failure comes within the failure window of the one before.\<close>

fun within_window :: "duration \<Rightarrow> int \<Rightarrow> int list \<Rightarrow> bool" where
  "within_window w prev [] = True"
| "within_window w prev (t # ts) = (t - prev \<le> w \<and> within_window w t ts)"

abbreviation fail_run :: "gostr \<Rightarrow> failover_reason \<Rightarrow> int list \<Rightarrow> cooldown_tracker \<Rightarrow> cooldown_tracker" where
  "fail_run p r ts ct \<equiv> fold (\<lambda>t ct. mark_failure ct t p r) ts ct"

lemma error_count_mark_failure:
  "entries ct p = Some e \<Longrightarrow> LastFailure e = Some prev \<Longrightarrow> t - prev \<le> failure_window ct \<Longrightarrow>
     error_count (mark_failure ct t p r) p = error_count ct p + 1"
  by (auto simp: error_count_def entries_mark_failure get_or_create_def mark_failure_entry_def
      window_reset_def Let_def)

lemma mark_failure_entry_exists:
  "\<exists>e. entries (mark_failure ct t p r) p = Some e \<and> LastFailure e = Some t"
  by (simp add: entries_mark_failure mark_failure_entry_def Let_def)

lemma error_count_fail_run:
  assumes "entries ct p = Some e" and "LastFailure e = Some prev"
    and "within_window (failure_window ct) prev ts"
  shows "error_count (fail_run p r ts ct) p = error_count ct p + int (length ts)"
  using assms
proof (induction ts arbitrary: ct e prev)
  case (Cons t ts)
  obtain e' where "entries (mark_failure ct t p r) p = Some e'" "LastFailure e' = Some t"
    using mark_failure_entry_exists by blast
  moreover have "within_window (failure_window (mark_failure ct t p r)) t ts"
    using Cons.prems by simp
  ultimately show ?case
    using Cons.IH [of "mark_failure ct t p r" e' t] Cons.prems
      error_count_mark_failure [of ct p e prev t r]
    by simp
qed simp

lemma cooldown_end_mark_failure:
  "r \<noteq> FailoverBilling \<Longrightarrow>
     map_option CooldownEnd (entries (mark_failure ct t p r) p) =
     Some (Some (t + calculate_standard_cooldown (error_count (mark_failure ct t p r) p)))"
  by (simp add: error_count_def entries_mark_failure mark_failure_entry_def Let_def)

text \<open>A failure after a longer quiet period counts as the first one.\<close>

lemma error_count_window_reset:
  "entries ct p = Some e \<Longrightarrow> LastFailure e = Some prev \<Longrightarrow> failure_window ct < t - prev \<Longrightarrow>
     error_count (mark_failure ct t p r) p = 1"
  by (auto simp: error_count_def entries_mark_failure get_or_create_def mark_failure_entry_def
      window_reset_def Let_def)

lemma error_count_first: "entries ct p = None \<Longrightarrow> error_count (mark_failure ct t p r) p = 1"
  by (simp add: error_count_def entries_mark_failure get_or_create_def mark_failure_entry_def
      window_reset_def Let_def zero_entry_def)

section \<open>Properties\<close>

text \<open>
  The two views of a cooldown agree: a provider is available exactly when no cooldown
  remains, it is available once the reported remaining time has passed, and at no moment before.
\<close>

theorem availability_agrees:
  assumes "now \<le> t"
  shows "(is_available ct now p \<longleftrightarrow> cooldown_remaining ct now p = 0) \<and>
     (is_available ct t p \<longleftrightarrow> now + cooldown_remaining ct now p \<le> t)"
proof (cases "entries ct p")
  case None
  with assms show ?thesis by (simp add: is_available_iff cooldown_remaining_def)
next
  case (Some e)
  with assms show ?thesis
    by (cases "DisabledUntil e"; cases "CooldownEnd e")
      (auto simp: is_available_iff cooldown_remaining_def raise_to_def)
qed

theorem availability_agrees_witness:
  "\<not> is_available (mark_failure new_cooldown_tracker 0 ''openai'' FailoverTimeout) 5 ''openai''"
proof -
  let ?ct = "mark_failure new_cooldown_tracker 0 ''openai'' FailoverTimeout"
  have "cooldown_remaining ?ct 0 ''openai'' = seconds 60" by code_simp
  with availability_agrees [of 0 5 ?ct "''openai''"] show ?thesis by simp
qed

text \<open>
  Consecutive failures for one reason other than billing, each within the failure window
  of the one before, are all counted, and the cooldown that follows the last of them lasts one
  minute, five minutes, twenty-five minutes and then one hour.
\<close>

theorem consecutive_failures_back_off:
  assumes "within_window default_failure_window t ts" "r \<noteq> FailoverBilling"
  shows "error_count (fail_run p r (t # ts) new_cooldown_tracker) p = 1 + int (length ts) \<and>
    map_option CooldownEnd (entries (fail_run p r (t # ts) new_cooldown_tracker) p) =
      Some (Some (last (t # ts) +
        seconds (if ts = [] then 60 else if length ts = 1 then 5 * 60
          else if length ts = 2 then 25 * 60 else 60 * 60)))"
proof -
  let ?run = "\<lambda>ts. fail_run p r ts new_cooldown_tracker"
  let ?ct = "mark_failure new_cooldown_tracker t p r"
  obtain e where "entries ?ct p = Some e" "LastFailure e = Some t"
    using mark_failure_entry_exists by blast
  moreover have "failure_window ?ct = default_failure_window"
    by (simp add: new_cooldown_tracker_def)
  ultimately have n: "error_count (?run (t # ts)) p = 1 + int (length ts)"
    using error_count_fail_run [of ?ct p e t ts r] assms(1)
      error_count_first [of new_cooldown_tracker p t r]
    by (simp add: new_cooldown_tracker_def)
  obtain us u where us: "t # ts = us @ [u]" by (metis append_butlast_last_id list.discI)
  have "?run (t # ts) = mark_failure (?run us) u p r" by (simp only: us fold_append comp_def fold.simps id_def)
  with cooldown_end_mark_failure [OF assms(2), of "?run us" u p] n
  have "map_option CooldownEnd (entries (?run (t # ts)) p) =
      Some (Some (u + calculate_standard_cooldown (1 + int (length ts))))" by simp
  moreover have "last (t # ts) = u" by (simp only: us last_snoc)
  moreover have "calculate_standard_cooldown (1 + int (length ts)) =
      seconds (if ts = [] then 60 else if length ts = 1 then 5 * 60
        else if length ts = 2 then 25 * 60 else 60 * 60)"
  proof -
    have "length ts = 0 \<or> length ts = 1 \<or> length ts = 2 \<or> 3 \<le> length ts" by arith
    then show ?thesis by (auto simp: standard_cooldown_values)
  qed
  ultimately show ?thesis using n by simp
qed

theorem consecutive_failures_back_off_witness:
  "map_option CooldownEnd (entries
     (fail_run ''openai'' FailoverTimeout [0, seconds 60] new_cooldown_tracker) ''openai'') =
   Some (Some (seconds 360))"
  using consecutive_failures_back_off [of 0 "[seconds 60]" FailoverTimeout "''openai''"]
  by (simp add: default_failure_window_def)

text \<open>The calls a tracker receives.\<close>

datatype tracker_event = Failure int gostr failover_reason | Success gostr

fun on_event :: "tracker_event \<Rightarrow> cooldown_tracker \<Rightarrow> cooldown_tracker" where
  "on_event (Failure t p r) ct = mark_failure ct t p r"
| "on_event (Success p) ct = mark_success ct p"

text \<open>
  After any sequence of failures and successes the entries are well formed: the error count
  of a provider is the sum of its counts by reason, none of which is negative, and a provider is
  disabled only for billing.
\<close>

theorem tracker_invariant: "tracker_ok (fold on_event evs new_cooldown_tracker)"
proof -
  have "tracker_ok ct \<Longrightarrow> tracker_ok (fold on_event evs ct)" for ct
  proof (induction evs arbitrary: ct)
    case (Cons e evs)
    then show ?case by (cases e) (simp_all add: tracker_ok_mark_failure tracker_ok_mark_success)
  qed simp
  then show ?thesis using tracker_ok_new .
qed

end
