(* ===== verification/Regex.thy ===== *)
theory Regex imports Prelude begin

text \<open>
  The part of Go's package \<open>regexp\<close> the modelled code uses: leftmost-first (Perl-like)
  matching with greedy repetition, word boundaries and one capturing group. The
  matcher returns the end states of all matches in order of preference, as a backtracking
  engine would visit them; a search takes the first match at the leftmost position.
\<close>

section \<open>Patterns\<close>

datatype rx =
  Cls "char \<Rightarrow> bool" \<comment> \<open>one character of a class\<close>
| Eps
| Seq rx rx
| Alt rx rx \<comment> \<open>the left alternative is preferred\<close>
| Star rx \<comment> \<open>greedy\<close>
| Grp rx \<comment> \<open>the capturing group\<close>
| WordB \<comment> \<open>the assertion for a word boundary\<close>

definition Opt :: "rx \<Rightarrow> rx" where
  "Opt r = Alt r Eps"

definition Plus :: "rx \<Rightarrow> rx" where
  "Plus r = Seq r (Star r)"

fun seqs :: "rx list \<Rightarrow> rx" where
  "seqs [] = Eps"
| "seqs [r] = r"
| "seqs (r # rs) = Seq r (seqs rs)"

definition lit :: "gostr \<Rightarrow> rx" where
  "lit w = seqs (map (\<lambda>c. Cls (\<lambda>d. d = c)) w)"

text \<open>A literal under the flag \<open>(?i)\<close>, written in lower case.\<close>

definition lit_i :: "gostr \<Rightarrow> rx" where
  "lit_i w = seqs (map (\<lambda>c. Cls (\<lambda>d. lower_char d = c)) w)"

definition any_of :: "gostr \<Rightarrow> rx" where
  "any_of w = Cls (\<lambda>d. d \<in> set w)"

definition digit :: rx where
  "digit = Cls is_digit"

definition re_space :: "char \<Rightarrow> bool" where
  "re_space c \<longleftrightarrow> code c = 32 \<or> code c = 9 \<or> code c = 10 \<or> code c = 12 \<or> code c = 13"

definition dot :: rx where
  "dot = Cls (\<lambda>c. code c \<noteq> 10)"

definition word_char :: "char \<Rightarrow> bool" where
  "word_char c \<longleftrightarrow> is_digit c \<or> is_upper c \<or> is_lower c \<or> code c = 95"

section \<open>Matching\<close>

text \<open>A state is the character before the position, the text after it and the captured group.\<close>

type_synonym rx_state = "char option \<times> gostr \<times> gostr option"

fun word_at :: "char option \<Rightarrow> bool" where
  "word_at None = False"
| "word_at (Some c) = word_char c"

fun first_char :: "gostr \<Rightarrow> char option" where
  "first_char [] = None"
| "first_char (c # s) = Some c"

text \<open>
  Iterations that consume nothing are dropped, so as many iterations as there are characters
  left are enough.
\<close>

fun star_iter :: "nat \<Rightarrow> (rx_state \<Rightarrow> rx_state list) \<Rightarrow> rx_state \<Rightarrow> rx_state list" where
  "star_iter 0 f st = [st]"
| "star_iter (Suc n) f st =
     concat (map (\<lambda>st'. if fst (snd st') = fst (snd st) then [] else star_iter n f st') (f st)) @ [st]"

fun rx_match :: "rx \<Rightarrow> rx_state \<Rightarrow> rx_state list" where
  "rx_match (Cls P) (p, s, g) =
     (case s of [] \<Rightarrow> [] | c # t \<Rightarrow> if P c then [(Some c, t, g)] else [])"
| "rx_match Eps st = [st]"
| "rx_match (Seq r1 r2) st = concat (map (rx_match r2) (rx_match r1 st))"
| "rx_match (Alt r1 r2) st = rx_match r1 st @ rx_match r2 st"
| "rx_match (Star r) st = star_iter (length (fst (snd st))) (rx_match r) st"
| "rx_match (Grp r) (p, s, g) =
     map (\<lambda>(p', s', g'). (p', s', Some (take (length s - length s') s))) (rx_match r (p, s, g))"
| "rx_match WordB (p, s, g) =
     (if word_at p = word_at (first_char s) then [] else [(p, s, g)])"

fun rx_search :: "rx \<Rightarrow> char option \<Rightarrow> gostr \<Rightarrow> rx_state option" where
  "rx_search r p [] = (case rx_match r (p, [], None) of [] \<Rightarrow> None | m # _ \<Rightarrow> Some m)"
| "rx_search r p (c # s) =
     (case rx_match r (p, c # s, None) of
        [] \<Rightarrow> rx_search r (Some c) s
      | m # _ \<Rightarrow> Some m)"

definition match_string :: "rx \<Rightarrow> gostr \<Rightarrow> bool" where
  "match_string r s \<longleftrightarrow> rx_search r None s \<noteq> None"

text \<open>\<open>FindStringSubmatch\<close>, as the text of the group.\<close>

definition find_submatch :: "rx \<Rightarrow> gostr \<Rightarrow> gostr option" where
  "find_submatch r s =
     (case rx_search r None s of None \<Rightarrow> None | Some (_, _, g) \<Rightarrow> g)"

section \<open>Facts\<close>

lemma rx_search_result:
  "rx_search r p s = Some m \<Longrightarrow> \<exists>p' u. suffix u s \<and> m \<in> set (rx_match r (p', u, None))"
proof (induction s arbitrary: p)
  case Nil
  then show ?case by (intro exI [of _ p] exI [of _ "[]"]) (auto split: list.splits)
next
  case (Cons c s)
  show ?case
  proof (cases "rx_match r (p, c # s, None)")
    case Nil
    with Cons.prems have "rx_search r (Some c) s = Some m" by simp
    from Cons.IH [OF this] show ?thesis by (blast intro: suffix_ConsI)
  next
    case (Cons a list)
    with Cons.prems show ?thesis
      by (intro exI [of _ p] exI [of _ "c # s"]) auto
  qed
qed

text \<open>A match leaves a suffix of the text.\<close>

lemma star_iter_suffix:
  assumes step: "\<And>st st'. st' \<in> set (f st) \<Longrightarrow> suffix (fst (snd st')) (fst (snd st))"
  shows "st' \<in> set (star_iter n f st) \<Longrightarrow> suffix (fst (snd st')) (fst (snd st))"
proof (induction n arbitrary: st)
  case (Suc n)
  then consider "st' = st"
    | st1 where "st1 \<in> set (f st)" "st' \<in> set (star_iter n f st1)"
    by (auto split: if_splits)
  then show ?case
  proof cases
    case 2
    with step Suc.IH suffix_order.trans show ?thesis by blast
  qed simp
qed simp

lemma rx_match_suffix: "st' \<in> set (rx_match r st) \<Longrightarrow> suffix (fst (snd st')) (fst (snd st))"
proof (induction r arbitrary: st st')
  case (Cls P)
  then show ?case by (cases st) (auto split: list.splits if_splits intro: suffix_ConsI)
next
  case (Seq r1 r2)
  then obtain st1 where "st1 \<in> set (rx_match r1 st)" "st' \<in> set (rx_match r2 st1)" by auto
  with Seq.IH suffix_order.trans show ?case by blast
next
  case (Star r)
  from Star.prems have "st' \<in> set (star_iter (length (fst (snd st))) (rx_match r) st)" by simp
  then show ?case by (rule star_iter_suffix [rotated]) (rule Star.IH)
next
  case (Grp r)
  then show ?case by (cases st) force
next
  case WordB
  then show ?case by (cases st) (auto split: if_splits)
qed auto

text \<open>A literal matches exactly where the text starts with it.\<close>

lemma rx_match_Eps_fun: "rx_match Eps = (\<lambda>st. [st])"
  by (rule ext) simp

lemma rx_match_seqs:
  "rx_match (seqs (r # rs)) st = concat (map (rx_match (seqs rs)) (rx_match r st))"
  by (cases rs) (simp_all add: rx_match_Eps_fun)

lemma lit_match:
  "rx_match (lit w) (p, s, g) \<noteq> [] \<longleftrightarrow> has_prefix s w"
proof (induction w arbitrary: p s)
  case Nil
  then show ?case by (simp add: lit_def)
next
  case (Cons c w)
  then show ?case
    by (cases s) (auto simp: lit_def rx_match_seqs has_prefix_def)
qed

lemma rx_search_lit: "rx_search (lit w) p s \<noteq> None \<longleftrightarrow> contains s w"
proof (induction s arbitrary: p)
  case Nil
  then show ?case using lit_match [of w p "[]" None] by (auto split: list.splits)
next
  case (Cons c s)
  then show ?case using lit_match [of w p "c # s" None] by (auto split: list.splits)
qed

lemma match_string_lit: "match_string (lit w) s \<longleftrightarrow> contains s w"
  unfolding match_string_def by (rule rx_search_lit)

end
