(* ===== verification/Error_Classifier.thy ===== *)
theory Error_Classifier imports Cooldown Regex begin

text \<open>
  Classification of provider errors for failover: \<open>pkg/providers/error_classifier.go\<close> and the
  error types of \<open>pkg/providers/types.go\<close>. A Go error is the context's cancellation or deadline
  (compared by identity in the code), or any other error, known by its text.
\<close>

section \<open>Errors\<close>

datatype go_error = Canceled | DeadlineExceeded | Errorf gostr

fun error_text :: "go_error \<Rightarrow> gostr" where
  "error_text Canceled = ''context canceled''"
| "error_text DeadlineExceeded = ''context deadline exceeded''"
| "error_text (Errorf s) = s"

record failover_error =
  fe_Reason :: failover_reason
  fe_Provider :: gostr
  fe_Model :: gostr
  fe_Status :: nat
  fe_Wrapped :: go_error

definition is_retriable :: "failover_error \<Rightarrow> bool" where
  "is_retriable e \<longleftrightarrow> fe_Reason e \<noteq> FailoverFormat"

section \<open>Patterns\<close>

datatype error_pattern = Substr gostr | Rxp rx

text \<open>\<open>status[:\s]+(\d{3})\<close>\<close>

definition status_parts :: "rx list" where
  "status_parts =
     [lit ''status'', Plus (Cls (\<lambda>c. c = CHR '':'' \<or> re_space c)), Grp (seqs [digit, digit, digit])]"

text \<open>\<open>http[/\s]+\d*\.?\d*\s+(\d{3})\<close>\<close>

definition http_parts :: "rx list" where
  "http_parts =
     [lit ''http'', Plus (Cls (\<lambda>c. c = CHR ''/'' \<or> re_space c)), Star digit,
      Opt (lit ''.''), Star digit, Plus (Cls re_space), Grp (seqs [digit, digit, digit])]"

text \<open>\<open>\b([3-5]\d{2})\b\<close>\<close>

definition bare_status :: rx where
  "bare_status =
     seqs [WordB, Grp (seqs [Cls (\<lambda>c. 51 \<le> code c \<and> code c \<le> 53), digit, digit]), WordB]"

definition http_status_patterns :: "rx list" where
  "http_status_patterns = [seqs status_parts, seqs http_parts, bare_status]"

definition rate_limit_patterns :: "error_pattern list" where
  "rate_limit_patterns =
     [Rxp (seqs [lit_i ''rate'', any_of ''_ '', lit_i ''limit'']),
      Substr ''too many requests'',
      Substr ''429'',
      Substr ''exceeded your current quota'',
      Rxp (seqs [lit_i ''exceeded'', Star dot, lit_i ''quota'']),
      Rxp (lit_i ''resource has been exhausted''),
      Rxp (seqs [lit_i ''resource'', Star dot, lit_i ''exhausted'']),
      Substr ''resource_exhausted'',
      Substr ''quota exceeded'',
      Substr ''usage limit'']"

definition overloaded_patterns :: "error_pattern list" where
  "overloaded_patterns =
     [Rxp (lit_i ''overloaded_error''),
      Rxp (seqs [lit_i [CHR 0x22], lit_i ''type'', lit_i [CHR 0x22], Star (Cls re_space), lit_i '':'',
                 Star (Cls re_space), lit_i [CHR 0x22], lit_i ''overloaded_error'', lit_i [CHR 0x22]]),
      Substr ''overloaded'']"

definition timeout_patterns :: "error_pattern list" where
  "timeout_patterns =
     [Substr ''timeout'', Substr ''timed out'', Substr ''deadline exceeded'',
      Substr ''context deadline exceeded'']"

definition billing_patterns :: "error_pattern list" where
  "billing_patterns =
     [Rxp (seqs [WordB, lit_i ''402'', WordB]),
      Substr ''payment required'',
      Substr ''insufficient credits'',
      Substr ''credit balance'',
      Substr ''plans & billing'',
      Substr ''insufficient balance'']"

definition auth_patterns :: "error_pattern list" where
  "auth_patterns =
     [Rxp (seqs [lit_i ''invalid'', Opt (any_of ''_ ''), lit_i ''api'', Opt (any_of ''_ ''), lit_i ''key'']),
      Substr ''incorrect api key'',
      Substr ''invalid token'',
      Substr ''authentication'',
      Substr ''re-authenticate'',
      Substr ''oauth token refresh failed'',
      Substr ''unauthorized'',
      Substr ''forbidden'',
      Substr ''access denied'',
      Substr ''expired'',
      Substr ''token has expired'',
      Rxp (seqs [WordB, lit_i ''401'', WordB]),
      Rxp (seqs [WordB, lit_i ''403'', WordB]),
      Substr ''no credentials found'',
      Substr ''no api key found'']"

definition format_patterns :: "error_pattern list" where
  "format_patterns =
     [Substr ''string should match pattern'',
      Substr ''tool_use.id'',
      Substr ''tool_use_id'',
      Substr ''messages.1.content.1.tool_use.id'',
      Substr ''invalid request format'']"

definition image_dimension_patterns :: "error_pattern list" where
  "image_dimension_patterns = [Rxp (lit_i ''image dimensions exceed max'')]"

definition image_size_patterns :: "error_pattern list" where
  "image_size_patterns = [Rxp (seqs [lit_i ''image exceeds'', Star dot, lit_i ''mb''])]"

definition transient_status_codes :: "nat list" where
  "transient_status_codes = [500, 502, 503, 521, 522, 523, 524, 529]"

section \<open>Classification\<close>

fun matches_any :: "gostr \<Rightarrow> error_pattern list \<Rightarrow> bool" where
  "matches_any msg [] = False"
| "matches_any msg (Rxp r # ps) = (if match_string r msg then True else matches_any msg ps)"
| "matches_any msg (Substr w # ps) =
     (if w \<noteq> [] \<and> contains msg w then True else matches_any msg ps)"

definition is_image_dimension_error :: "gostr \<Rightarrow> bool" where
  "is_image_dimension_error msg = matches_any msg image_dimension_patterns"

definition is_image_size_error :: "gostr \<Rightarrow> bool" where
  "is_image_size_error msg = matches_any msg image_size_patterns"

definition parse_digits :: "gostr \<Rightarrow> nat" where
  "parse_digits s = foldl (\<lambda>n c. if is_digit c then n * 10 + (code c - 48) else n) 0 s"

fun first_submatch :: "rx list \<Rightarrow> gostr \<Rightarrow> gostr option" where
  "first_submatch [] msg = None"
| "first_submatch (p # ps) msg =
     (case find_submatch p msg of None \<Rightarrow> first_submatch ps msg | Some g \<Rightarrow> Some g)"

definition extract_http_status :: "gostr \<Rightarrow> nat" where
  "extract_http_status msg =
     (case first_submatch http_status_patterns msg of None \<Rightarrow> 0 | Some g \<Rightarrow> parse_digits g)"

definition classify_by_status :: "nat \<Rightarrow> failover_reason option" where
  "classify_by_status status =
     (if status = 401 \<or> status = 403 then Some FailoverAuth
      else if status = 402 then Some FailoverBilling
      else if status = 408 then Some FailoverTimeout
      else if status = 429 then Some FailoverRateLimit
      else if status = 400 then Some FailoverFormat
      else if status \<in> set transient_status_codes then Some FailoverTimeout
      else None)"

definition classify_by_message :: "gostr \<Rightarrow> failover_reason option" where
  "classify_by_message msg =
     (if matches_any msg rate_limit_patterns then Some FailoverRateLimit
      else if matches_any msg overloaded_patterns then Some FailoverRateLimit
      else if matches_any msg billing_patterns then Some FailoverBilling
      else if matches_any msg timeout_patterns then Some FailoverTimeout
      else if matches_any msg auth_patterns then Some FailoverAuth
      else if matches_any msg format_patterns then Some FailoverFormat
      else None)"

definition mk_error :: "failover_reason \<Rightarrow> gostr \<Rightarrow> gostr \<Rightarrow> nat \<Rightarrow> go_error \<Rightarrow> failover_error" where
  "mk_error reason provider model status err =
     \<lparr>fe_Reason = reason, fe_Provider = provider, fe_Model = model, fe_Status = status,
      fe_Wrapped = err\<rparr>"

definition classify_text :: "go_error \<Rightarrow> gostr \<Rightarrow> gostr \<Rightarrow> failover_error option" where
  "classify_text err provider model =
     (let msg = to_lower (error_text err) in
      if is_image_dimension_error msg \<or> is_image_size_error msg
      then Some (mk_error FailoverFormat provider model 0 err)
      else
        let status = extract_http_status msg;
            by_status = (if status > 0 then classify_by_status status else None) in
        case by_status of
          Some reason \<Rightarrow> Some (mk_error reason provider model status err)
        | None \<Rightarrow>
            map_option (\<lambda>reason. mk_error reason provider model 0 err) (classify_by_message msg))"

definition classify_error :: "go_error option \<Rightarrow> gostr \<Rightarrow> gostr \<Rightarrow> failover_error option" where
  "classify_error err provider model =
     (case err of
        None \<Rightarrow> None
      | Some Canceled \<Rightarrow> None
      | Some DeadlineExceeded \<Rightarrow>
          Some (mk_error FailoverTimeout provider model 0 DeadlineExceeded)
      | Some e \<Rightarrow> classify_text e provider model)"

section \<open>Facts\<close>

lemma mk_error_simps [simp]:
  "fe_Reason (mk_error r p m n e) = r" "fe_Provider (mk_error r p m n e) = p"
  "fe_Model (mk_error r p m n e) = m" "fe_Status (mk_error r p m n e) = n"
  "fe_Wrapped (mk_error r p m n e) = e"
  by (simp_all add: mk_error_def)

lemma matches_any_Substr: "Substr w \<in> set ps \<Longrightarrow> w \<noteq> [] \<Longrightarrow> contains msg w \<Longrightarrow> matches_any msg ps"
  by (induction ps rule: matches_any.induct) auto

text \<open>The reasons the classifier hands out.\<close>

definition assigned_reasons :: "failover_reason list" where
  "assigned_reasons =
     [FailoverAuth, FailoverRateLimit, FailoverBilling, FailoverTimeout, FailoverFormat]"

lemma classify_by_status_assigned:
  "classify_by_status n = Some r \<Longrightarrow> r \<in> set assigned_reasons"
  by (auto simp: classify_by_status_def assigned_reasons_def split: if_splits)

lemma classify_by_message_assigned:
  "classify_by_message msg = Some r \<Longrightarrow> r \<in> set assigned_reasons"
  by (auto simp: classify_by_message_def assigned_reasons_def split: if_splits)

lemma classify_text_Some:
  assumes "classify_text e p m = Some f"
  shows "fe_Reason f \<in> set assigned_reasons" "fe_Provider f = p" "fe_Model f = m" "fe_Wrapped f = e"
  using assms
  by (auto simp: classify_text_def Let_def assigned_reasons_def split: if_splits option.splits
      dest: classify_by_status_assigned classify_by_message_assigned)

lemma classify_error_Some:
  assumes "classify_error (Some e) p m = Some f"
  shows "fe_Reason f \<in> set assigned_reasons \<and> fe_Provider f = p \<and> fe_Model f = m \<and> fe_Wrapped f = e"
  using assms classify_text_Some
  by (cases e) (auto simp: classify_error_def assigned_reasons_def)

subsection \<open>Extraction of the status\<close>

text \<open>The group of every status pattern is three digits.\<close>

definition three_digits :: "gostr \<Rightarrow> bool" where
  "three_digits g \<longleftrightarrow> length g = 3 \<and> (\<forall>c\<in>set g. is_digit c)"

lemma parse_digits_three: "three_digits g \<Longrightarrow> parse_digits g < 1000"
proof -
  assume t: "three_digits g"
  then obtain a b c where g: "g = [a, b, c]"
    unfolding three_digits_def by (metis length_0_conv length_Suc_conv numeral_3_eq_3)
  with t have "is_digit a" "is_digit b" "is_digit c" by (auto simp: three_digits_def)
  then show ?thesis by (auto simp: g parse_digits_def is_digit_def)
qed

lemma grp_digits:
  assumes P: "\<And>c. P c \<Longrightarrow> is_digit c"
    and m: "(p', s', g') \<in> set (rx_match (Grp (seqs [Cls P, digit, digit])) (p, s, g))"
  shows "\<exists>w. g' = Some w \<and> three_digits w"
  using m P
  by (cases s; cases "tl s"; cases "tl (tl s)")
     (auto simp: digit_def three_digits_def split: if_splits)

lemma seqs_last:
  "rs \<noteq> [] \<Longrightarrow> (p', s', g') \<in> set (rx_match (seqs rs) st) \<Longrightarrow>
     \<exists>st1. (p', s', g') \<in> set (rx_match (last rs) st1)"
proof (induction rs arbitrary: st)
  case (Cons a rs)
  show ?case
  proof (cases "rs = []")
    case True
    with Cons.prems show ?thesis by (intro exI [of _ st]) simp
  next
    case False
    from Cons.prems(2) obtain st1 where "(p', s', g') \<in> set (rx_match (seqs rs) st1)"
      unfolding rx_match_seqs by auto
    with False Cons.IH show ?thesis by simp
  qed
qed simp

lemma status_parts_last:
  "status_parts \<noteq> []" "last status_parts = Grp (seqs [Cls is_digit, digit, digit])"
  "http_parts \<noteq> []" "last http_parts = Grp (seqs [Cls is_digit, digit, digit])"
  by (simp_all add: status_parts_def http_parts_def flip: digit_def)

lemma seqs_group:
  assumes "rs \<noteq> []" "last rs = Grp (seqs [Cls is_digit, digit, digit])"
    and "(p', s', g') \<in> set (rx_match (seqs rs) st)"
  shows "\<exists>w. g' = Some w \<and> three_digits w"
proof -
  from seqs_last [OF assms(1,3)] obtain q s g where
    "(p', s', g') \<in> set (rx_match (Grp (seqs [Cls is_digit, digit, digit])) (q, s, g))"
    unfolding assms(2) by (metis prod_cases3)
  then show ?thesis by (rule grp_digits [rotated]) simp
qed

lemma word_bounded:
  "m \<in> set (rx_match (seqs [WordB, r, WordB]) st) \<Longrightarrow> m \<in> set (rx_match r st)"
  by (cases st) (auto split: if_splits)

lemma bare_status_group:
  assumes "(p', s', g') \<in> set (rx_match bare_status st)"
  shows "\<exists>w. g' = Some w \<and> three_digits w"
proof -
  obtain p s g where st: "st = (p, s, g)" by (cases st)
  show ?thesis
    by (rule grp_digits [OF _ word_bounded [OF assms [unfolded bare_status_def st]]])
      (simp add: is_digit_def)
qed

lemma status_group:
  assumes "r \<in> set http_status_patterns" and m: "(p', s', g') \<in> set (rx_match r st)"
  shows "\<exists>w. g' = Some w \<and> three_digits w"
proof -
  from assms(1) consider "r = seqs status_parts" | "r = seqs http_parts" | "r = bare_status"
    by (auto simp: http_status_patterns_def)
  then show ?thesis
  proof cases
    case 1 with m seqs_group [OF status_parts_last(1,2)] show ?thesis by blast
  next
    case 2 with m seqs_group [OF status_parts_last(3,4)] show ?thesis by blast
  next
    case 3 with m bare_status_group show ?thesis by blast
  qed
qed

lemma first_submatch_three:
  "set ps \<subseteq> set http_status_patterns \<Longrightarrow> first_submatch ps msg = Some g \<Longrightarrow> three_digits g"
proof (induction ps)
  case (Cons r ps)
  show ?case
  proof (cases "find_submatch r msg")
    case None
    with Cons show ?thesis by simp
  next
    case (Some w)
    then obtain p' s' where "rx_search r None msg = Some (p', s', Some w)"
      by (auto simp: find_submatch_def split: option.splits)
    with rx_search_result obtain q u where "(p', s', Some w) \<in> set (rx_match r (q, u, None))"
      by blast
    with Cons.prems(1) status_group have "three_digits w" by fastforce
    with Some Cons.prems(2) show ?thesis by simp
  qed
qed simp

lemma extract_http_status_bound: "extract_http_status msg < 1000"
  by (auto simp: extract_http_status_def split: option.splits
      intro: parse_digits_three first_submatch_three [OF subset_refl])

section \<open>Properties\<close>

text \<open>
  What the classifier hands out: never an unknown or overloaded reason, always the provider,
  the model and the error it was given, and a status below 1000. An error without a
  classification matched no message pattern.
\<close>

theorem classify_error_sound:
  "case classify_error (Some e) p m of
     Some f \<Rightarrow> fe_Reason f \<in> {FailoverAuth, FailoverRateLimit, FailoverBilling, FailoverTimeout, FailoverFormat}
       \<and> fe_Provider f = p \<and> fe_Model f = m \<and> fe_Wrapped f = e \<and> fe_Status f < 1000
   | None \<Rightarrow> e = Canceled \<or> classify_by_message (to_lower (error_text e)) = None"
proof (cases "classify_error (Some e) p m")
  case None
  then show ?thesis
    by (cases e) (auto simp: classify_error_def classify_text_def Let_def split: if_splits option.splits)
next
  case (Some f)
  have "fe_Status f < 1000"
    using Some by (cases e)
      (auto simp: classify_error_def classify_text_def Let_def extract_http_status_bound
        split: if_splits option.splits)
  with Some classify_error_Some [OF Some] show ?thesis
    by (auto simp: assigned_reasons_def is_retriable_def)
qed

text \<open>
  A status code in the message decides before its words: when the text carries a status the
  table knows and is no image error, the reason and the status are the table's, whatever else
  the message says.
\<close>

theorem status_decides:
  assumes "classify_by_status (extract_http_status (to_lower msg)) = Some r"
    "\<not> is_image_dimension_error (to_lower msg)" "\<not> is_image_size_error (to_lower msg)"
  shows "classify_error (Some (Errorf msg)) p m =
    Some (mk_error r p m (extract_http_status (to_lower msg)) (Errorf msg))"
proof -
  have "extract_http_status (to_lower msg) > 0"
    using assms(1) by (cases "extract_http_status (to_lower msg)") (auto simp: classify_by_status_def transient_status_codes_def)
  with assms show ?thesis by (simp add: classify_error_def classify_text_def Let_def)
qed

theorem status_decides_witness:
  "classify_error (Some (Errorf ''Status: 401 rate limit'')) ''p'' ''m'' =
     Some (mk_error FailoverAuth ''p'' ''m'' 401 (Errorf ''Status: 401 rate limit''))"
proof -
  have l: "to_lower ''Status: 401 rate limit'' = ''status: 401 rate limit''" by code_simp
  have s: "extract_http_status ''status: 401 rate limit'' = 401" by code_simp
  have i: "is_image_dimension_error ''status: 401 rate limit'' = False"
    "is_image_size_error ''status: 401 rate limit'' = False" by code_simp+
  show ?thesis
    using status_decides [of "''Status: 401 rate limit''" FailoverAuth "''p''" "''m''"]
    unfolding l s i by (simp add: classify_by_status_def)
qed

end
