(* ===== verification/Model_Ref.thy ===== *)
theory Model_Ref imports Prelude begin

text \<open>
  Model references and candidate lists: \<open>pkg/providers/model_ref.go\<close> and
  \<open>ResolveCandidatesWithLookup\<close> of \<open>pkg/providers/fallback.go\<close>.
\<close>

record model_ref =
  mr_Provider :: gostr
  mr_Model :: gostr

definition normalize_provider :: "gostr \<Rightarrow> gostr" where
  "normalize_provider provider =
     (let p = to_lower (trim_space provider) in
      if p = ''z.ai'' \<or> p = ''z-ai'' then ''zai''
      else if p = ''opencode-zen'' then ''opencode''
      else if p = ''qwen'' then ''qwen-portal''
      else if p = ''kimi-code'' then ''kimi-coding''
      else if p = ''gpt'' then ''openai''
      else if p = ''claude'' then ''anthropic''
      else if p = ''glm'' then ''zhipu''
      else if p = ''google'' then ''gemini''
      else p)"

definition parse_model_ref :: "gostr \<Rightarrow> gostr \<Rightarrow> model_ref option" where
  "parse_model_ref raw0 default_provider =
     (let raw = trim_space raw0 in
      if raw = [] then None
      else
        let by_default = Some \<lparr>mr_Provider = normalize_provider default_provider, mr_Model = raw\<rparr> in
        case index_char raw (CHR ''/'') of
          None \<Rightarrow> by_default
        | Some idx \<Rightarrow>
            if idx > 0 then
              let provider = normalize_provider (take idx raw);
                  model = trim_space (drop (idx + 1) raw) in
              if model = [] then None
              else Some \<lparr>mr_Provider = provider, mr_Model = model\<rparr>
            else by_default)"

definition model_key :: "gostr \<Rightarrow> gostr \<Rightarrow> gostr" where
  "model_key provider model = normalize_provider provider @ ''/'' @ to_lower (trim_space model)"

record model_config =
  Primary :: gostr
  Fallbacks :: "gostr list"

record fallback_candidate =
  fc_Provider :: gostr
  fc_Model :: gostr

text \<open>The closure \<open>addCandidate\<close>, over the set \<open>seen\<close> and the list of candidates so far.\<close>

definition add_candidate ::
  "gostr \<Rightarrow> (gostr \<Rightarrow> gostr option) option \<Rightarrow> gostr \<Rightarrow> gostr set \<times> fallback_candidate list
   \<Rightarrow> gostr set \<times> fallback_candidate list" where
  "add_candidate default_provider lookup raw st =
     (let raw1 = trim_space raw;
          candidate_raw =
            (case lookup of
               None \<Rightarrow> raw1
             | Some f \<Rightarrow> (case f raw1 of None \<Rightarrow> raw1 | Some resolved \<Rightarrow> resolved)) in
      case parse_model_ref candidate_raw default_provider of
        None \<Rightarrow> st
      | Some ref \<Rightarrow>
          let key = model_key (mr_Provider ref) (mr_Model ref) in
          if key \<in> fst st then st
          else (insert key (fst st),
                snd st @ [\<lparr>fc_Provider = mr_Provider ref, fc_Model = mr_Model ref\<rparr>]))"

definition resolve_candidates_with_lookup ::
  "model_config \<Rightarrow> gostr \<Rightarrow> (gostr \<Rightarrow> gostr option) option \<Rightarrow> fallback_candidate list" where
  "resolve_candidates_with_lookup cfg default_provider lookup =
     snd (fold (add_candidate default_provider lookup) (Primary cfg # Fallbacks cfg) ({}, []))"

definition resolve_candidates :: "model_config \<Rightarrow> gostr \<Rightarrow> fallback_candidate list" where
  "resolve_candidates cfg default_provider =
     resolve_candidates_with_lookup cfg default_provider None"

section \<open>Facts\<close>

lemma normalize_provider_lower_trim:
  "normalize_provider (to_lower (trim_space p)) = normalize_provider p"
  by (simp add: normalize_provider_def to_lower_trim_space [symmetric])

definition canonical_aliases :: "gostr set" where
  "canonical_aliases =
     {''zai'', ''opencode'', ''qwen-portal'', ''kimi-coding'', ''openai'', ''anthropic'', ''zhipu'',
      ''gemini''}"

lemma normalize_provider_alt:
  "normalize_provider p \<in> canonical_aliases \<or> normalize_provider p = to_lower (trim_space p)"
  by (simp add: normalize_provider_def canonical_aliases_def Let_def)

lemma normalize_provider_cases:
  obtains (known) "normalize_provider p \<in> canonical_aliases"
  | (other) "normalize_provider p = to_lower (trim_space p)"
  using normalize_provider_alt by blast

lemma closed_string_trim:
  "trim_space ''zai'' = ''zai''" "trim_space ''opencode'' = ''opencode''"
  "trim_space ''qwen-portal'' = ''qwen-portal''" "trim_space ''kimi-coding'' = ''kimi-coding''"
  "trim_space ''openai'' = ''openai''" "trim_space ''anthropic'' = ''anthropic''"
  "trim_space ''zhipu'' = ''zhipu''" "trim_space ''gemini'' = ''gemini''"
  by code_simp+

lemma closed_string_normalize:
  "normalize_provider ''zai'' = ''zai''" "normalize_provider ''opencode'' = ''opencode''"
  "normalize_provider ''qwen-portal'' = ''qwen-portal''"
  "normalize_provider ''kimi-coding'' = ''kimi-coding''"
  "normalize_provider ''openai'' = ''openai''" "normalize_provider ''anthropic'' = ''anthropic''"
  "normalize_provider ''zhipu'' = ''zhipu''" "normalize_provider ''gemini'' = ''gemini''"
  by code_simp+

lemma normalize_provider_idem [simp]:
  "normalize_provider (normalize_provider p) = normalize_provider p"
proof (cases p rule: normalize_provider_cases)
  case known
  then show ?thesis
    by (auto simp: canonical_aliases_def closed_string_normalize)
next
  case other
  then show ?thesis by (metis normalize_provider_lower_trim)
qed

lemma normalize_provider_no_slash:
  assumes "CHR ''/'' \<notin> set p" shows "CHR ''/'' \<notin> set (normalize_provider p)"
proof (cases p rule: normalize_provider_cases)
  case other
  moreover have "\<not> is_lower (CHR ''/'')" by code_simp
  ultimately show ?thesis
    using assms nonletter_in_to_lower set_trim_space by (metis subsetD)
qed (auto simp: canonical_aliases_def)

lemma normalize_provider_trimmed: "trimmed (normalize_provider p)"
proof (cases p rule: normalize_provider_cases)
  case known
  then show ?thesis by (auto simp: canonical_aliases_def trimmed_iff closed_string_trim)
next
  case other
  then show ?thesis by simp
qed

lemma normalize_provider_nonempty: "trim_space p \<noteq> [] \<Longrightarrow> normalize_provider p \<noteq> []"
  by (cases p rule: normalize_provider_cases) (auto simp: canonical_aliases_def)

lemma parse_model_ref_model:
  "parse_model_ref raw d = Some ref \<Longrightarrow> trimmed (mr_Model ref) \<and> mr_Model ref \<noteq> []"
  by (auto simp: parse_model_ref_def Let_def split: if_splits option.splits)

lemma parse_model_ref_provider:
  "parse_model_ref raw d = Some ref \<Longrightarrow> normalize_provider (mr_Provider ref) = mr_Provider ref"
  by (auto simp: parse_model_ref_def Let_def split: if_splits option.splits)

text \<open>Writing a reference as \<open>provider/model\<close> and parsing it again gives the reference back.\<close>

lemma parse_model_ref_format:
  assumes "p \<noteq> []" "CHR ''/'' \<notin> set p" "trimmed p" "m \<noteq> []" "trimmed m"
  shows "parse_model_ref (p @ ''/'' @ m) d = Some \<lparr>mr_Provider = normalize_provider p, mr_Model = m\<rparr>"
proof -
  have "trimmed (p @ CHR ''/'' # m)"
    using assms by (auto simp: trimmed_def)
  then have "trim_space (p @ CHR ''/'' # m) = p @ CHR ''/'' # m" by (rule trim_space_trimmed)
  with assms show ?thesis
    by (simp add: parse_model_ref_def Let_def index_char_append trim_space_trimmed)
qed

subsection \<open>Candidate lists\<close>

abbreviation cand_key :: "fallback_candidate \<Rightarrow> gostr" where
  "cand_key c \<equiv> model_key (fc_Provider c) (fc_Model c)"

definition cands_ok :: "gostr set \<times> fallback_candidate list \<Rightarrow> bool" where
  "cands_ok st \<longleftrightarrow> fst st = cand_key ` set (snd st) \<and> distinct (map cand_key (snd st))"

lemma add_candidate_ok: "cands_ok st \<Longrightarrow> cands_ok (add_candidate d lookup raw st)"
  by (auto simp: cands_ok_def add_candidate_def Let_def split: option.splits)

lemma fold_add_candidate_ok: "cands_ok st \<Longrightarrow> cands_ok (fold (add_candidate d lookup) raws st)"
  by (induction raws arbitrary: st) (simp_all add: add_candidate_ok del: split_paired_All)

lemma add_candidate_extends: "\<exists>cs. snd (add_candidate d lookup raw st) = snd st @ cs"
  by (auto simp: add_candidate_def Let_def split: option.splits)

lemma fold_add_candidate_extends: "\<exists>cs. snd (fold (add_candidate d lookup) raws st) = snd st @ cs"
proof (induction raws arbitrary: st)
  case (Cons r raws)
  obtain cs where "snd (add_candidate d lookup r st) = snd st @ cs" using add_candidate_extends by blast
  with Cons.IH [of "add_candidate d lookup r st"] show ?case by auto
qed simp

text \<open>Every reference that parses is represented in the candidate list.\<close>

lemma add_candidate_seen:
  "parse_model_ref raw d = Some ref \<Longrightarrow>
     model_key (mr_Provider ref) (mr_Model ref) \<in> fst (add_candidate d None raw st)"
proof -
  assume p: "parse_model_ref raw d = Some ref"
  have "parse_model_ref (trim_space raw) d = parse_model_ref raw d"
    by (simp add: parse_model_ref_def)
  with p show ?thesis by (auto simp: add_candidate_def Let_def)
qed

lemma fold_add_candidate_mono:
  "fst st \<subseteq> fst (fold (add_candidate d lookup) raws st)"
proof (induction raws arbitrary: st)
  case (Cons r raws)
  have "fst st \<subseteq> fst (add_candidate d lookup r st)"
    by (auto simp: add_candidate_def Let_def split: option.splits)
  also have "\<dots> \<subseteq> fst (fold (add_candidate d lookup) raws (add_candidate d lookup r st))"
    by (rule Cons.IH)
  finally show ?case by simp
qed simp

lemma fold_add_candidate_seen:
  "raw \<in> set raws \<Longrightarrow> parse_model_ref raw d = Some ref \<Longrightarrow>
     model_key (mr_Provider ref) (mr_Model ref) \<in> fst (fold (add_candidate d None) raws st)"
proof (induction raws arbitrary: st)
  case (Cons r raws)
  show ?case
  proof (cases "raw = r")
    case True
    then show ?thesis
      using subsetD [OF fold_add_candidate_mono add_candidate_seen [OF Cons.prems(2)]] by simp
  next
    case False
    with Cons.prems Cons.IH [of "add_candidate d None r st"] show ?thesis by simp
  qed
qed simp

section \<open>Properties\<close>

text \<open>
  C31 Parsing a model reference gives a canonical provider and a trimmed, nonempty model, and
  writing the result as \<open>provider/model\<close> and parsing that again gives the same reference,
  whatever the default provider is, as long as a provider was found and it holds no slash.
\<close>

theorem parse_model_ref_roundtrip:
  assumes "parse_model_ref raw d = Some ref" "mr_Provider ref \<noteq> []" "CHR ''/'' \<notin> set (mr_Provider ref)"
  shows "parse_model_ref (mr_Provider ref @ ''/'' @ mr_Model ref) d' = Some ref"
proof -
  note p = parse_model_ref_provider [OF assms(1)]
  have "trimmed (mr_Provider ref)" using normalize_provider_trimmed [of "mr_Provider ref"] p by simp
  with parse_model_ref_format [of "mr_Provider ref" "mr_Model ref" d'] parse_model_ref_model [OF assms(1)]
    assms(2,3) p
  show ?thesis by simp
qed

theorem parse_model_ref_roundtrip_witness:
  "parse_model_ref ''anthropic/a/b'' ''glm'' = Some \<lparr>mr_Provider = ''anthropic'', mr_Model = ''a/b''\<rparr>"
proof -
  have "parse_model_ref '' Claude/ a/b '' [] = Some \<lparr>mr_Provider = ''anthropic'', mr_Model = ''a/b''\<rparr>"
    by code_simp
  from parse_model_ref_roundtrip [OF this, of "''glm''"] show ?thesis by simp
qed

text \<open>
  The candidate list of a model configuration holds no two entries with the same key, starts
  with the primary model, and holds, for every configured reference that parses, an entry with
  its key.
\<close>

theorem resolve_candidates_complete:
  "distinct (map cand_key (resolve_candidates cfg d)) \<and>
   (\<forall>raw \<in> set (Primary cfg # Fallbacks cfg). \<forall>ref. parse_model_ref raw d = Some ref \<longrightarrow>
      model_key (mr_Provider ref) (mr_Model ref) \<in> set (map cand_key (resolve_candidates cfg d))) \<and>
   (\<forall>ref. parse_model_ref (Primary cfg) d = Some ref \<longrightarrow> resolve_candidates cfg d \<noteq> [] \<and>
      hd (resolve_candidates cfg d) = \<lparr>fc_Provider = mr_Provider ref, fc_Model = mr_Model ref\<rparr>)"
proof -
  let ?st = "fold (add_candidate d None) (Primary cfg # Fallbacks cfg) ({}, [])"
  have rc: "resolve_candidates cfg d = snd ?st"
    by (simp add: resolve_candidates_def resolve_candidates_with_lookup_def)
  have ok: "cands_ok ?st" by (rule fold_add_candidate_ok) (simp add: cands_ok_def)
  have first: "snd ?st \<noteq> [] \<and> hd (snd ?st) = \<lparr>fc_Provider = mr_Provider ref, fc_Model = mr_Model ref\<rparr>"
    if "parse_model_ref (Primary cfg) d = Some ref" for ref
  proof -
    have "parse_model_ref (trim_space (Primary cfg)) d = Some ref"
      using that by (simp add: parse_model_ref_def)
    then have "snd (add_candidate d None (Primary cfg) ({}, [])) =
        [\<lparr>fc_Provider = mr_Provider ref, fc_Model = mr_Model ref\<rparr>]"
      by (simp add: add_candidate_def Let_def)
    then show ?thesis
      using fold_add_candidate_extends [of d None "Fallbacks cfg" "add_candidate d None (Primary cfg) ({}, [])"]
      by auto
  qed
  have seen: "model_key (mr_Provider ref) (mr_Model ref) \<in> set (map cand_key (snd ?st))"
    if "raw \<in> set (Primary cfg # Fallbacks cfg)" "parse_model_ref raw d = Some ref" for raw ref
    using ok fold_add_candidate_seen [OF that, of "({}, [])"] by (simp only: cands_ok_def set_map)
  from ok have "distinct (map cand_key (snd ?st))" by (simp only: cands_ok_def)
  with first seen show ?thesis unfolding rc by blast
qed

theorem resolve_candidates_complete_witness:
  "hd (resolve_candidates (\<lparr>Primary = ''gpt/x'', Fallbacks = [''claude/y'', ''OpenAI/X'']\<rparr>) ''glm'') =
     \<lparr>fc_Provider = ''openai'', fc_Model = ''x''\<rparr>"
proof -
  have "parse_model_ref ''gpt/x'' ''glm'' = Some \<lparr>mr_Provider = ''openai'', mr_Model = ''x''\<rparr>"
    by code_simp
  with resolve_candidates_complete [of "\<lparr>Primary = ''gpt/x'', Fallbacks = [''claude/y'', ''OpenAI/X'']\<rparr>" "''glm''"]
  show ?thesis by simp
qed

end
