(* ===== verification/Fallback.thy ===== *)
theory Fallback imports Cooldown Error_Classifier Model_Ref begin

text \<open>
  The fallback chain of \<open>pkg/providers/fallback.go\<close>. What lies outside the chain is a parameter:
  the callback \<open>run\<close>, the context and the clock, all three reading and changing an opaque world
  \<open>'w\<close>. Time passes in \<open>run\<close> only; the chain's own steps take none. The callback returns
  either a response or an error.
\<close>

record ('w, 'r) chain_env =
  env_run :: "'w \<Rightarrow> gostr \<Rightarrow> gostr \<Rightarrow> 'w \<times> (go_error + 'r)"
  env_canceled :: "'w \<Rightarrow> bool" \<comment> \<open>\<open>ctx.Err() == context.Canceled\<close>\<close>
  env_now :: "'w \<Rightarrow> int"

datatype attempt_error =
  Raw go_error
| Classified failover_error
| InCooldown gostr duration

record fallback_attempt =
  fa_Provider :: gostr
  fa_Model :: gostr
  fa_Error :: attempt_error
  fa_Reason :: "failover_reason option"
  fa_Duration :: duration
  fa_Skipped :: bool

record 'r fallback_result =
  fr_Response :: 'r
  fr_Provider :: gostr
  fr_Model :: gostr
  fr_Attempts :: "fallback_attempt list"

datatype chain_error =
  NoCandidates
| ContextCanceled
| Unclassified gostr gostr go_error
| NonRetriable failover_error
| FallbackExhausted "fallback_attempt list"

text \<open>\<open>Duration.Round(time.Second)\<close>: to the nearest second, halfway away from zero.\<close>

definition round_second :: "duration \<Rightarrow> duration" where
  "round_second d =
     (let r = \<bar>d\<bar> mod seconds 1; down = \<bar>d\<bar> - r
      in sgn d * (if 2 * r < seconds 1 then down else down + seconds 1))"

definition skipped_attempt :: "cooldown_tracker \<Rightarrow> int \<Rightarrow> fallback_candidate \<Rightarrow> fallback_attempt" where
  "skipped_attempt ct now c =
     \<lparr>fa_Provider = fc_Provider c, fa_Model = fc_Model c,
      fa_Error = InCooldown (fc_Provider c) (round_second (cooldown_remaining ct now (fc_Provider c))),
      fa_Reason = Some FailoverRateLimit, fa_Duration = 0, fa_Skipped = True\<rparr>"

definition failed_attempt ::
  "fallback_candidate \<Rightarrow> attempt_error \<Rightarrow> failover_reason option \<Rightarrow> duration \<Rightarrow> fallback_attempt" where
  "failed_attempt c e reason d =
     \<lparr>fa_Provider = fc_Provider c, fa_Model = fc_Model c, fa_Error = e, fa_Reason = reason,
      fa_Duration = d, fa_Skipped = False\<rparr>"

text \<open>
  The loop of \<open>Execute\<close>, with the attempts recorded so far. The attempts recorded on the way to
  an immediate abort are dropped with the result in the code, too.
\<close>

fun execute_loop ::
  "('w, 'r) chain_env \<Rightarrow> fallback_candidate list \<Rightarrow> fallback_attempt list \<Rightarrow> cooldown_tracker \<Rightarrow> 'w
   \<Rightarrow> (chain_error + 'r fallback_result) \<times> cooldown_tracker \<times> 'w" where
  "execute_loop env [] atts ct w = (Inl (FallbackExhausted atts), ct, w)"
| "execute_loop env (c # cs) atts ct w =
     (if env_canceled env w then (Inl ContextCanceled, ct, w)
      else if \<not> is_available ct (env_now env w) (fc_Provider c) then
        execute_loop env cs (atts @ [skipped_attempt ct (env_now env w) c]) ct w
      else
        (case env_run env w (fc_Provider c) (fc_Model c) of
           (w', Inr resp) \<Rightarrow>
             (Inr \<lparr>fr_Response = resp, fr_Provider = fc_Provider c, fr_Model = fc_Model c,
                   fr_Attempts = atts\<rparr>,
              mark_success ct (fc_Provider c), w')
         | (w', Inl err) \<Rightarrow>
             if env_canceled env w' then (Inl ContextCanceled, ct, w')
             else
               (case classify_error (Some err) (fc_Provider c) (fc_Model c) of
                  None \<Rightarrow> (Inl (Unclassified (fc_Provider c) (fc_Model c) err), ct, w')
                | Some fail_err \<Rightarrow>
                    if \<not> is_retriable fail_err then (Inl (NonRetriable fail_err), ct, w')
                    else
                      let ct' = mark_failure ct (env_now env w') (fc_Provider c) (fe_Reason fail_err);
                          atts' = atts @ [failed_attempt c (Classified fail_err)
                                     (Some (fe_Reason fail_err)) (env_now env w' - env_now env w)]
                      in if cs = [] then (Inl (FallbackExhausted atts'), ct', w')
                         else execute_loop env cs atts' ct' w')))"

definition execute ::
  "('w, 'r) chain_env \<Rightarrow> fallback_candidate list \<Rightarrow> cooldown_tracker \<Rightarrow> 'w
   \<Rightarrow> (chain_error + 'r fallback_result) \<times> cooldown_tracker \<times> 'w" where
  "execute env candidates ct w =
     (if candidates = [] then (Inl NoCandidates, ct, w) else execute_loop env candidates [] ct w)"

fun execute_image_loop ::
  "('w, 'r) chain_env \<Rightarrow> fallback_candidate list \<Rightarrow> fallback_attempt list \<Rightarrow> 'w
   \<Rightarrow> (chain_error + 'r fallback_result) \<times> 'w" where
  "execute_image_loop env [] atts w = (Inl (FallbackExhausted atts), w)"
| "execute_image_loop env (c # cs) atts w =
     (if env_canceled env w then (Inl ContextCanceled, w)
      else
        (case env_run env w (fc_Provider c) (fc_Model c) of
           (w', Inr resp) \<Rightarrow>
             (Inr \<lparr>fr_Response = resp, fr_Provider = fc_Provider c, fr_Model = fc_Model c,
                   fr_Attempts = atts\<rparr>, w')
         | (w', Inl err) \<Rightarrow>
             if env_canceled env w' then (Inl ContextCanceled, w')
             else
               let msg = to_lower (error_text err) in
               if is_image_dimension_error msg \<or> is_image_size_error msg then
                 (Inl (NonRetriable (mk_error FailoverFormat (fc_Provider c) (fc_Model c) 0 err)), w')
               else
                 let atts' = atts @ [failed_attempt c (Raw err) None (env_now env w' - env_now env w)]
                 in if cs = [] then (Inl (FallbackExhausted atts'), w')
                    else execute_image_loop env cs atts' w'))"

definition execute_image ::
  "('w, 'r) chain_env \<Rightarrow> fallback_candidate list \<Rightarrow> 'w \<Rightarrow> (chain_error + 'r fallback_result) \<times> 'w" where
  "execute_image env candidates w =
     (if candidates = [] then (Inl NoCandidates, w) else execute_image_loop env candidates [] w)"

section \<open>What an attempt records\<close>

text \<open>
  An attempt on a candidate that did not end the chain: skipped in cooldown, or failed for a
  retriable reason.
\<close>

definition attempt_of :: "fallback_candidate \<Rightarrow> fallback_attempt \<Rightarrow> bool" where
  "attempt_of c a \<longleftrightarrow>
     fa_Provider a = fc_Provider c \<and> fa_Model a = fc_Model c
     \<and> (fa_Skipped a \<and> fa_Reason a = Some FailoverRateLimit
        \<or> \<not> fa_Skipped a \<and> (\<exists>f. fa_Error a = Classified f \<and> is_retriable f
             \<and> fa_Reason a = Some (fe_Reason f)
             \<and> classify_error (Some (fe_Wrapped f)) (fc_Provider c) (fc_Model c) = Some f))"

lemma attempt_of_skipped: "attempt_of c (skipped_attempt ct now c)"
  by (simp add: attempt_of_def skipped_attempt_def)

lemma attempt_of_failed:
  "classify_error (Some err) (fc_Provider c) (fc_Model c) = Some f \<Longrightarrow> is_retriable f \<Longrightarrow>
     attempt_of c (failed_attempt c (Classified f) (Some (fe_Reason f)) d)"
  by (auto simp: attempt_of_def failed_attempt_def dest: classify_error_Some)

text \<open>
  One step of the loop. A retriable failure of the last candidate ends the chain as the next
  turn of the loop would, so the two are one case.
\<close>

lemma execute_loop_step:
  assumes "execute_loop env (c # cs) atts ct w = out"
  obtains
    (canceled) "out = (Inl ContextCanceled, ct, w)"
  | (skip) "\<not> is_available ct (env_now env w) (fc_Provider c)"
      "execute_loop env cs (atts @ [skipped_attempt ct (env_now env w) c]) ct w = out"
  | (success) w1 resp where "is_available ct (env_now env w) (fc_Provider c)"
      "env_run env w (fc_Provider c) (fc_Model c) = (w1, Inr resp)"
      "out = (Inr \<lparr>fr_Response = resp, fr_Provider = fc_Provider c, fr_Model = fc_Model c,
                fr_Attempts = atts\<rparr>, mark_success ct (fc_Provider c), w1)"
  | (abort) w1 e where "out = (Inl e, ct, w1)" "\<And>xs. e \<noteq> FallbackExhausted xs"
  | (failed) w1 err f where "is_available ct (env_now env w) (fc_Provider c)"
      "env_run env w (fc_Provider c) (fc_Model c) = (w1, Inl err)"
      "classify_error (Some err) (fc_Provider c) (fc_Model c) = Some f" "is_retriable f"
      "execute_loop env cs
         (atts @ [failed_attempt c (Classified f) (Some (fe_Reason f)) (env_now env w1 - env_now env w)])
         (mark_failure ct (env_now env w1) (fc_Provider c) (fe_Reason f)) w1 = out"
proof (cases "env_canceled env w \<or> \<not> is_available ct (env_now env w) (fc_Provider c)")
  case True
  with assms canceled skip show ?thesis by (auto split: if_splits)
next
  case False
  obtain w1 r where run: "env_run env w (fc_Provider c) (fc_Model c) = (w1, r)"
    by (cases "env_run env w (fc_Provider c) (fc_Model c)")
  show ?thesis
  proof (cases r)
    case (Inr resp)
    with assms False run success show ?thesis by auto
  next
    case (Inl err)
    show ?thesis
    proof (cases "classify_error (Some err) (fc_Provider c) (fc_Model c)")
      case None
      with assms False run Inl abort show ?thesis by (auto split: if_splits)
    next
      case (Some f)
      with assms False run Inl abort failed show ?thesis
        by (cases "cs = []") (auto simp: Let_def split: if_splits)
    qed
  qed
qed

text \<open>
  How the loop ends: after a success, the attempts already recorded are followed by one per
  candidate before the successful one.
\<close>

lemma execute_loop_success:
  assumes "execute_loop env cs atts ct w = (Inr r, ct', w')"
  shows "\<exists>pre c post news. cs = pre @ c # post \<and> fr_Attempts r = atts @ news
           \<and> list_all2 attempt_of pre news
           \<and> fr_Provider r = fc_Provider c \<and> fr_Model r = fc_Model c
           \<and> (\<forall>now. is_available ct' now (fc_Provider c))"
  using assms
proof (induction cs arbitrary: atts ct w)
  case (Cons c cs)
  have passed: ?case if a: "attempt_of c a" and l: "execute_loop env cs (atts @ [a]) ct1 w1 = (Inr r, ct', w')"
    for a ct1 w1
  proof -
    from Cons.IH [OF l] obtain pre d post news where
      "cs = pre @ d # post" "fr_Attempts r = (atts @ [a]) @ news" "list_all2 attempt_of pre news"
      "fr_Provider r = fc_Provider d" "fr_Model r = fc_Model d"
      "\<forall>now. is_available ct' now (fc_Provider d)" by blast
    with a show ?thesis
      by (intro exI [of _ "c # pre"] exI [of _ d] exI [of _ post] exI [of _ "a # news"]) simp
  qed
  from Cons.prems show ?case
  proof (cases rule: execute_loop_step)
    case skip
    then show ?thesis using passed attempt_of_skipped by blast
  next
    case (success w1 resp)
    then show ?thesis
      by (intro exI [of _ "[]"] exI [of _ c] exI [of _ cs]) (auto simp: tracker.succeed_available)
  next
    case (failed w1 err f)
    then show ?thesis using passed attempt_of_failed by blast
  qed auto
qed simp

text \<open>When the candidates are exhausted, every one of them has an attempt.\<close>

lemma execute_loop_exhausted:
  assumes "execute_loop env cs atts ct w = (Inl (FallbackExhausted all), ct', w')"
  shows "\<exists>news. all = atts @ news \<and> list_all2 attempt_of cs news"
  using assms
proof (induction cs arbitrary: atts ct w)
  case (Cons c cs)
  have passed: ?case
    if a: "attempt_of c a"
      and l: "execute_loop env cs (atts @ [a]) ct1 w1 = (Inl (FallbackExhausted all), ct', w')"
    for a ct1 w1
  proof -
    from Cons.IH [OF l] obtain news where "all = (atts @ [a]) @ news" "list_all2 attempt_of cs news"
      by blast
    with a show ?thesis by (intro exI [of _ "a # news"]) simp
  qed
  from Cons.prems show ?case
  proof (cases rule: execute_loop_step)
    case skip
    then show ?thesis using passed attempt_of_skipped by blast
  next
    case (failed w1 err f)
    then show ?thesis using passed attempt_of_failed by blast
  qed auto
qed simp

section \<open>One call per provider\<close>

text \<open>
  While less than the shortest cooldown passes, a provider that failed is not called again: the
  providers that are in cooldown throughout stay out of the attempts.
\<close>

abbreviation called :: "fallback_attempt list \<Rightarrow> gostr list" where
  "called atts \<equiv> map fa_Provider (filter (\<lambda>a. \<not> fa_Skipped a) atts)"

definition cooling :: "cooldown_tracker \<Rightarrow> int \<Rightarrow> int \<Rightarrow> gostr list \<Rightarrow> bool" where
  "cooling ct from until ps \<longleftrightarrow>
     (\<forall>p\<in>set ps. \<forall>now. from \<le> now \<longrightarrow> now < until \<longrightarrow> \<not> is_available ct now p)"

lemma cooling_later: "cooling ct from until ps \<Longrightarrow> from \<le> from' \<Longrightarrow> cooling ct from' until ps"
  by (auto simp: cooling_def)

lemma cooling_mark_failure:
  assumes "cooling ct from until ps" and "from \<le> t" and "until \<le> t + seconds 60"
  shows "cooling (mark_failure ct t p r) t until (ps @ [p])"
  unfolding cooling_def
proof (intro ballI allI impI)
  fix q now assume q: "q \<in> set (ps @ [p])" and n: "t \<le> now" "now < until"
  show "\<not> is_available (mark_failure ct t p r) now q"
  proof (cases "q = p")
    case True
    with n assms(3) show ?thesis using tracker.fail_blocks [of t now ct p r] by simp
  next
    case False
    with q n assms show ?thesis by (auto simp: tracker.fail_other cooling_def)
  qed
qed

text \<open>A clock that never runs backwards across a call.\<close>

definition clock_mono :: "('w, 'r) chain_env \<Rightarrow> bool" where
  "clock_mono env \<longleftrightarrow> (\<forall>w p m. env_now env w \<le> env_now env (fst (env_run env w p m)))"

lemma clock_monoD: "clock_mono env \<Longrightarrow> env_run env w p m = (w1, r) \<Longrightarrow> env_now env w \<le> env_now env w1"
  by (metis clock_mono_def fst_conv)

lemma execute_loop_clock:
  assumes "clock_mono env" and "execute_loop env cs atts ct w = (res, ct', w')"
  shows "env_now env w \<le> env_now env w'"
  using assms(2)
proof (induction cs arbitrary: atts ct w)
  case (Cons c cs)
  show ?case
  proof (cases "env_run env w (fc_Provider c) (fc_Model c)")
    case (Pair w1 r)
    with assms(1) have "env_now env w \<le> env_now env w1" by (rule clock_monoD)
    with Cons Pair show ?thesis
      by (fastforce simp: Let_def split: if_splits sum.splits option.splits)
  qed
qed simp

text \<open>The attempts a chain reports, however it ends.\<close>

fun reported :: "chain_error + 'r fallback_result \<Rightarrow> fallback_attempt list" where
  "reported (Inr r) = fr_Attempts r"
| "reported (Inl (FallbackExhausted atts)) = atts"
| "reported (Inl _) = []"

lemma execute_loop_called:
  assumes mono: "clock_mono env"
    and run: "execute_loop env cs atts ct w = (res, ct', w')"
    and fast: "env_now env w' < until" "until \<le> env_now env w + seconds 60"
    and cool: "cooling ct (env_now env w) until (called atts)" "distinct (called atts)"
  shows "distinct (called (reported res))"
  using run fast cool
proof (induction cs arbitrary: atts ct w)
  case Nil
  then have "res = Inl (FallbackExhausted atts)" by simp
  with Nil show ?case by simp
next
  case (Cons c cs)
  note step = Cons.prems(1)
  from step show ?case
  proof (cases rule: execute_loop_step)
    case skip
    with Cons show ?thesis by (auto simp: skipped_attempt_def)
  next
    case (abort w1 e)
    then show ?thesis by (cases e) auto
  next
    case (failed w1 err f)
    let ?a = "failed_attempt c (Classified f) (Some (fe_Reason f)) (env_now env w1 - env_now env w)"
    let ?ct = "mark_failure ct (env_now env w1) (fc_Provider c) (fe_Reason f)"
    have t: "env_now env w \<le> env_now env w1"
      using mono failed(2) by (rule clock_monoD)
    have u: "until \<le> env_now env w1 + seconds 60" using Cons.prems(3) t by simp
    have called_a: "called (atts @ [?a]) = called atts @ [fc_Provider c]"
      by (simp add: failed_attempt_def)
    have w: "env_now env w < until"
      using execute_loop_clock [OF mono step] Cons.prems(2) by simp
    with Cons.prems(4) failed(1) have new: "fc_Provider c \<notin> set (called atts)"
      unfolding cooling_def by blast
    have "cooling ?ct (env_now env w1) until (called (atts @ [?a]))"
      unfolding called_a by (rule cooling_mark_failure [OF Cons.prems(4) t u])
    moreover have "distinct (called (atts @ [?a]))"
      unfolding called_a using new Cons.prems(5) by simp
    ultimately show ?thesis by (rule Cons.IH [OF failed(5) Cons.prems(2) u])
  qed (use Cons.prems in auto)
qed

section \<open>Properties\<close>

text \<open>A one-provider world for examples: each call takes one second and pops its result.\<close>

definition script_env :: "((go_error + gostr) list \<times> int, gostr) chain_env" where
  "script_env =
     \<lparr>env_run = (\<lambda>(rs, t) p m. case rs of [] \<Rightarrow> (([], t + seconds 1), Inl (Errorf ''boom''))
                                  | r # rs' \<Rightarrow> ((rs', t + seconds 1), r)),
      env_canceled = (\<lambda>_. False), env_now = snd\<rparr>"


abbreviation two_cands :: "fallback_candidate list" where
  "two_cands \<equiv> [\<lparr>fc_Provider = ''a'', fc_Model = ''m''\<rparr>, \<lparr>fc_Provider = ''b'', fc_Model = ''n''\<rparr>]"


text \<open>
  The chain reports exhaustion only after it has tried every candidate: the report holds one
  attempt per candidate, in order.
\<close>

theorem execute_exhausted:
  assumes "execute env cands ct w = (Inl (FallbackExhausted atts), ct', w')"
  shows "cands \<noteq> [] \<and> list_all2 attempt_of cands atts"
  using assms execute_loop_exhausted [of env cands "[]" ct w atts ct' w']
  by (auto simp: execute_def split: if_splits)

theorem execute_exhausted_witness:
  "\<exists>atts ct' w'. execute script_env two_cands new_cooldown_tracker
      ([Inl DeadlineExceeded, Inl DeadlineExceeded], 0) = (Inl (FallbackExhausted atts), ct', w') \<and>
    list_all2 attempt_of two_cands atts"
proof -
  let ?out = "execute script_env two_cands new_cooldown_tracker ([Inl DeadlineExceeded, Inl DeadlineExceeded], 0)"
  have "case fst ?out of Inl (FallbackExhausted atts) \<Rightarrow> True | _ \<Rightarrow> False" by code_simp
  then obtain atts ct' w' where "?out = (Inl (FallbackExhausted atts), ct', w')"
    by (cases ?out) (auto split: sum.splits chain_error.splits)
  with execute_exhausted [OF this] show ?thesis by blast
qed

text \<open>
  Within one run of the chain that takes less than a minute no provider is called twice, not
  even for its other models: after a failure the cooldown of the provider skips them.
\<close>

theorem execute_calls_provider_once:
  assumes "clock_mono env" "execute env cands ct w = (res, ct', w')"
    "env_now env w' < env_now env w + seconds 60"
  shows "distinct (called (reported res))"
proof (cases "cands = []")
  case True
  with assms(2) have "res = Inl NoCandidates" by (simp add: execute_def)
  then show ?thesis by simp
next
  case False
  with assms(2) have "execute_loop env cands [] ct w = (res, ct', w')" by (simp add: execute_def)
  then show ?thesis
    using execute_loop_called [OF assms(1) _ assms(3)] by (simp add: cooling_def)
qed

theorem execute_calls_provider_once_witness:
  "distinct (called (reported (fst
     (execute script_env two_cands new_cooldown_tracker ([Inl DeadlineExceeded, Inl DeadlineExceeded], 0)))))"
proof -
  let ?out = "execute script_env two_cands new_cooldown_tracker ([Inl DeadlineExceeded, Inl DeadlineExceeded], 0)"
  have mono: "clock_mono script_env"
    by (auto simp: clock_mono_def script_env_def split: list.splits)
  obtain res ct' w' where out: "?out = (res, ct', w')" by (cases ?out)
  have "env_now script_env (snd (snd ?out)) = seconds 2"
    by code_simp
  then have end_time: "env_now script_env w' = seconds 2" by (simp only: out snd_conv)
  have "distinct (called (reported res))"
    by (rule execute_calls_provider_once [OF mono out]) (simp only: end_time, simp add: script_env_def)
  then show ?thesis by (simp only: out fst_conv)
qed

end
