(* ===== verification/Agent_Id.thy ===== *)
theory Agent_Id imports Prelude begin

text \<open>
  Agent and account identifiers: \<open>pkg/routing/agent_id.go\<close>. The three regular expressions are
  the character class \<open>id_char\<close>, the predicate \<open>valid_id\<close> and the stripping of dashes.
\<close>

definition default_agent_id :: gostr where
  "default_agent_id = ''main''"

definition default_main_key :: gostr where
  "default_main_key = ''main''"

definition default_account_id :: gostr where
  "default_account_id = ''default''"

definition max_agent_id_length :: nat where
  "max_agent_id_length = 64"

text \<open>\<open>[a-z0-9_-]\<close>, and the first character \<open>[a-z0-9]\<close>.\<close>

definition id_start :: "char \<Rightarrow> bool" where
  "id_start c \<longleftrightarrow> is_lower c \<or> is_digit c"

definition id_char :: "char \<Rightarrow> bool" where
  "id_char c \<longleftrightarrow> id_start c \<or> c = CHR ''_'' \<or> c = CHR ''-''"

text \<open>\<open>^[a-z0-9][a-z0-9_-]{0,63}$\<close>\<close>

definition valid_id :: "gostr \<Rightarrow> bool" where
  "valid_id s \<longleftrightarrow>
     (case s of [] \<Rightarrow> False | c # t \<Rightarrow> id_start c \<and> length t \<le> 63 \<and> list_all id_char t)"

text \<open>
  \<open>invalidCharsRe.ReplaceAllString(s, "-")\<close>: each maximal run of other characters becomes one
  dash. The flag says that the previous character was in such a run.
\<close>

fun collapse_invalid :: "bool \<Rightarrow> gostr \<Rightarrow> gostr" where
  "collapse_invalid b [] = []"
| "collapse_invalid b (c # s) =
     (if id_char c then c # collapse_invalid False s
      else if b then collapse_invalid True s
      else CHR ''-'' # collapse_invalid True s)"

definition strip_leading_dash :: "gostr \<Rightarrow> gostr" where
  "strip_leading_dash s = dropWhile (\<lambda>c. c = CHR ''-'') s"

definition strip_trailing_dash :: "gostr \<Rightarrow> gostr" where
  "strip_trailing_dash s = rev (dropWhile (\<lambda>c. c = CHR ''-'') (rev s))"

text \<open>The common body of the two functions, with the value for an empty identifier.\<close>

definition normalize_id :: "gostr \<Rightarrow> gostr \<Rightarrow> gostr" where
  "normalize_id dflt s =
     (let trimmed = trim_space s in
      if trimmed = [] then dflt
      else
        let lower = to_lower trimmed in
        if valid_id lower then lower
        else
          let r1 = collapse_invalid False lower;
              r2 = strip_leading_dash r1;
              r3 = strip_trailing_dash r2;
              r4 = (if length r3 > max_agent_id_length then take max_agent_id_length r3 else r3)
          in if r4 = [] then dflt else r4)"

definition normalize_agent_id :: "gostr \<Rightarrow> gostr" where
  "normalize_agent_id s = normalize_id default_agent_id s"

definition normalize_account_id :: "gostr \<Rightarrow> gostr" where
  "normalize_account_id s = normalize_id default_account_id s"

section \<open>Facts\<close>

lemma dash_underscore_facts:
  "\<not> is_space (CHR ''_'') \<and> \<not> is_upper (CHR ''_'')" "\<not> is_space (CHR ''-'') \<and> \<not> is_upper (CHR ''-'')"
  "\<not> id_start (CHR '':'')" "\<not> id_start (CHR ''-'')" "\<not> id_start (CHR ''_'')"
  by code_simp+

lemma id_start_facts: "id_start c \<Longrightarrow> \<not> is_space c \<and> \<not> is_upper c"
  by (auto simp: id_start_def is_lower_def is_digit_def is_space_def is_upper_def)

lemma id_char_facts: "id_char c \<Longrightarrow> \<not> is_space c \<and> \<not> is_upper c \<and> c \<noteq> CHR '':''"
  unfolding id_char_def using id_start_facts dash_underscore_facts by blast

lemma id_start_char [simp]: "id_start c \<Longrightarrow> id_char c"
  by (simp add: id_char_def)

lemma collapse_invalid_chars: "c \<in> set (collapse_invalid b s) \<Longrightarrow> id_char c"
  by (induction b s rule: collapse_invalid.induct) (auto simp: id_char_def split: if_splits)

lemma valid_id_chars: "valid_id s \<Longrightarrow> c \<in> set s \<Longrightarrow> id_char c"
  by (auto simp: valid_id_def list_all_iff split: list.splits)

text \<open>What every identifier that comes out of the normalisation satisfies.\<close>

definition norm_id :: "gostr \<Rightarrow> bool" where
  "norm_id s \<longleftrightarrow> s \<noteq> [] \<and> length s \<le> 64 \<and> (\<forall>c\<in>set s. id_char c) \<and> hd s \<noteq> CHR ''-''"

lemma hd_strip_trailing: "s \<noteq> [] \<Longrightarrow> hd s \<noteq> CHR ''-'' \<Longrightarrow>
    strip_trailing_dash s \<noteq> [] \<and> hd (strip_trailing_dash s) = hd s"
proof -
  assume a: "s \<noteq> []" "hd s \<noteq> CHR ''-''"
  then have "dropWhile (\<lambda>c. c = CHR ''-'') (rev s) \<noteq> []"
    by (metis (mono_tags, lifting) dropWhile_eq_Nil_conv hd_in_set set_rev)
  with a show ?thesis by (simp add: strip_trailing_dash_def hd_rev_dropWhile_rev)
qed

lemma norm_id_normalize: "norm_id dflt \<Longrightarrow> norm_id (normalize_id dflt s)"
proof -
  assume d: "norm_id dflt"
  let ?l = "to_lower (trim_space s)"
  let ?r2 = "strip_leading_dash (collapse_invalid False ?l)"
  let ?r3 = "strip_trailing_dash ?r2"
  have sub: "set ?r3 \<subseteq> set (collapse_invalid False ?l)"
    by (auto simp: strip_trailing_dash_def strip_leading_dash_def dest!: set_dropWhileD)
  have "norm_id ?l" if v: "valid_id ?l"
  proof -
    from v have "?l \<noteq> []" "length ?l \<le> 64" "id_start (hd ?l)"
      by (auto simp: valid_id_def simp del: to_lower_eq_Nil length_to_lower split: list.splits)
    with valid_id_chars [OF v] dash_underscore_facts(4) show ?thesis by (auto simp: norm_id_def)
  qed
  moreover have "norm_id (take n ?r3)" if "?r3 \<noteq> []" "length (take n ?r3) \<le> 64" "n \<noteq> 0" for n
  proof -
    from that have "?r2 \<noteq> []" by (auto simp: strip_trailing_dash_def)
    then have h: "hd ?r2 \<noteq> CHR ''-''"
      using hd_dropWhile [of "\<lambda>c. c = CHR ''-''"] by (auto simp: strip_leading_dash_def)
    have "hd ?r3 = hd ?r2" using hd_strip_trailing [OF \<open>?r2 \<noteq> []\<close> h] by simp
    with that h sub collapse_invalid_chars show ?thesis
      by (auto simp: norm_id_def hd_take dest!: in_set_takeD)
  qed
  note taken = this
  moreover have "norm_id ?r3" if "?r3 \<noteq> []" "length ?r3 \<le> 64"
    using taken [of "length ?r3"] that by simp
  ultimately show ?thesis
    using d by (auto simp: normalize_id_def Let_def max_agent_id_length_def)
qed

lemma norm_id_defaults [simp]: "norm_id default_agent_id" "norm_id default_account_id"
  by code_simp+

lemma norm_id_agent [simp]: "norm_id (normalize_agent_id s)"
  by (simp add: normalize_agent_id_def norm_id_normalize)

lemma norm_id_account [simp]: "norm_id (normalize_account_id s)"
  by (simp add: normalize_account_id_def norm_id_normalize)

lemma norm_id_no_colon: "norm_id s \<Longrightarrow> CHR '':'' \<notin> set s"
  using id_char_facts by (auto simp: norm_id_def)

lemma norm_id_trimmed: "norm_id s \<Longrightarrow> trimmed s"
  using id_char_facts by (auto simp: norm_id_def intro: trimmed_no_space)

lemma norm_id_lower: "norm_id s \<Longrightarrow> to_lower s = s"
  using id_char_facts by (auto simp: norm_id_def intro: to_lower_id)

text \<open>
  Normalising twice is normalising once, unless the identifier starts with an underscore:
  that start is let through, and is not a valid one.
\<close>

lemma normalize_id_fixed:
  assumes "norm_id s" "hd s \<noteq> CHR ''_''"
  shows "normalize_id dflt s = s"
proof -
  from assms have "id_char (hd s)" by (simp add: norm_id_def)
  with assms have "id_start (hd s)" by (simp add: id_char_def norm_id_def)
  with assms(1) have "valid_id s"
    by (cases s) (auto simp: valid_id_def norm_id_def list_all_iff)
  moreover from assms(1) have "s \<noteq> []" by (simp add: norm_id_def)
  ultimately show ?thesis
    using assms(1) by (simp add: normalize_id_def norm_id_lower norm_id_trimmed trim_space_trimmed)
qed

lemma normalize_agent_id_fixed:
  "norm_id s \<Longrightarrow> hd s \<noteq> CHR ''_'' \<Longrightarrow> normalize_agent_id s = s"
  by (simp add: normalize_agent_id_def normalize_id_fixed)

section \<open>Properties\<close>

text \<open>
  A normalised agent identifier is nonempty, has at most 64 characters, all lower-case letters,
  digits, dashes or underscores, and does not start with a dash; unless it starts with an
  underscore, normalising it again changes nothing.
\<close>

theorem normalize_agent_id_sound:
  "normalize_agent_id s \<noteq> [] \<and> length (normalize_agent_id s) \<le> max_agent_id_length \<and>
   (\<forall>c\<in>set (normalize_agent_id s). is_lower c \<or> is_digit c \<or> c = CHR ''_'' \<or> c = CHR ''-'') \<and>
   hd (normalize_agent_id s) \<noteq> CHR ''-'' \<and>
   (hd (normalize_agent_id s) \<noteq> CHR ''_'' \<longrightarrow>
      valid_id (normalize_agent_id s) \<and> normalize_agent_id (normalize_agent_id s) = normalize_agent_id s)"
proof -
  let ?n = "normalize_agent_id s"
  have n: "norm_id ?n" by simp
  have "valid_id ?n" if "hd ?n \<noteq> CHR ''_''"
  proof -
    from n that have "id_start (hd ?n)" by (auto simp: norm_id_def id_char_def)
    with n show ?thesis by (cases ?n) (auto simp: valid_id_def norm_id_def list_all_iff)
  qed
  with n normalize_agent_id_fixed [OF n] show ?thesis
    by (auto simp: norm_id_def max_agent_id_length_def id_char_def id_start_def)
qed

theorem normalize_agent_id_sound_witness:
  "hd (normalize_agent_id '' Agent #7 '') \<noteq> CHR ''_'' \<and>
   normalize_agent_id (normalize_agent_id '' Agent #7 '') = normalize_agent_id '' Agent #7 ''"
proof -
  have "normalize_agent_id '' Agent #7 '' = ''agent-7''" by code_simp
  with normalize_agent_id_sound [of "'' Agent #7 ''"] show ?thesis by simp
qed

text \<open>
  The normalisation lets an identifier through that starts with an underscore, which the
  pattern it is documented to produce excludes, and is then not idempotent: cutting such an
  identifier to 64 characters can leave a dash at its end that the next pass removes.
\<close>

theorem normalize_agent_id_underscore:
  "\<not> valid_id (normalize_agent_id ''_ops'') \<and>
   normalize_agent_id (normalize_agent_id (''_'' @ replicate 62 (CHR ''a'') @ '' b''))
     \<noteq> normalize_agent_id (''_'' @ replicate 62 (CHR ''a'') @ '' b'')"
  by code_simp

end
