(* ===== verification/Session_Key.thy ===== *)
theory Session_Key imports Agent_Id begin

text \<open>
  Session keys: \<open>pkg/routing/session_key.go\<close>. The map of identity links is the list of its
  entries in the order in which Go's iteration visits them.
\<close>

definition DMScopeMain :: gostr where "DMScopeMain = ''main''"
definition DMScopePerPeer :: gostr where "DMScopePerPeer = ''per-peer''"
definition DMScopePerChannelPeer :: gostr where "DMScopePerChannelPeer = ''per-channel-peer''"
definition DMScopePerAccountChannelPeer :: gostr where
  "DMScopePerAccountChannelPeer = ''per-account-channel-peer''"

record route_peer =
  rp_Kind :: gostr
  rp_ID :: gostr

type_synonym identity_links = "(gostr \<times> gostr list) list"

record session_key_params =
  sk_AgentID :: gostr
  sk_Channel :: gostr
  sk_AccountID :: gostr
  sk_Peer :: "route_peer option"
  sk_DMScope :: gostr
  sk_IdentityLinks :: identity_links

record parsed_session_key =
  ps_AgentID :: gostr
  ps_Rest :: gostr

definition build_agent_main_session_key :: "gostr \<Rightarrow> gostr" where
  "build_agent_main_session_key agent_id =
     ''agent:'' @ normalize_agent_id agent_id @ '':'' @ default_main_key"

definition normalize_channel :: "gostr \<Rightarrow> gostr" where
  "normalize_channel channel =
     (let c = trim_space (to_lower channel) in if c = [] then ''unknown'' else c)"

definition link_candidates :: "gostr \<Rightarrow> gostr \<Rightarrow> gostr set" where
  "link_candidates channel peer_id =
     (let raw = to_lower peer_id;
          ch = to_lower (trim_space channel);
          scoped = (if ch \<noteq> [] then {ch @ '':'' @ to_lower peer_id} else {});
          bare = (case index_char raw (CHR '':'') of
                    None \<Rightarrow> {}
                  | Some idx \<Rightarrow>
                      if idx > 0 \<and> idx + 1 < length raw then {drop (idx + 1) raw} else {})
      in (if raw \<noteq> [] then {raw} else {}) \<union> scoped \<union> bare)"

definition resolve_linked_peer_id :: "identity_links \<Rightarrow> gostr \<Rightarrow> gostr \<Rightarrow> gostr" where
  "resolve_linked_peer_id links channel peer0 =
     (if links = [] then []
      else
        let peer_id = trim_space peer0 in
        if peer_id = [] then []
        else
          let candidates = link_candidates channel peer_id in
          case List.find
                 (\<lambda>(canonical, ids). trim_space canonical \<noteq> [] \<and>
                    list_ex (\<lambda>i. let n = to_lower (trim_space i) in n \<noteq> [] \<and> n \<in> candidates) ids)
                 links of
            None \<Rightarrow> []
          | Some (canonical, _) \<Rightarrow> trim_space canonical)"

text \<open>The branch of \<open>BuildAgentPeerSessionKey\<close> for direct peers: scope, peer and key.\<close>

definition effective_dm_scope :: "session_key_params \<Rightarrow> gostr" where
  "effective_dm_scope params =
     (if sk_DMScope params = [] then DMScopeMain else sk_DMScope params)"

definition direct_peer_id :: "session_key_params \<Rightarrow> route_peer \<Rightarrow> gostr" where
  "direct_peer_id params peer =
     (let peer_id = trim_space (rp_ID peer) in
      to_lower
        (if effective_dm_scope params \<noteq> DMScopeMain \<and> peer_id \<noteq> [] then
           let linked = resolve_linked_peer_id (sk_IdentityLinks params) (sk_Channel params) peer_id
           in if linked \<noteq> [] then linked else peer_id
         else peer_id))"

definition direct_session_key :: "session_key_params \<Rightarrow> gostr \<Rightarrow> route_peer \<Rightarrow> gostr" where
  "direct_session_key params agent_id peer =
     (let dm_scope = effective_dm_scope params;
          peer_id = direct_peer_id params peer in
      if dm_scope = DMScopePerAccountChannelPeer \<and> peer_id \<noteq> [] then
        ''agent:'' @ agent_id @ '':'' @ normalize_channel (sk_Channel params) @ '':'' @
        normalize_account_id (sk_AccountID params) @ '':direct:'' @ peer_id
      else if dm_scope = DMScopePerChannelPeer \<and> peer_id \<noteq> [] then
        ''agent:'' @ agent_id @ '':'' @ normalize_channel (sk_Channel params) @ '':direct:'' @ peer_id
      else if dm_scope = DMScopePerPeer \<and> peer_id \<noteq> [] then
        ''agent:'' @ agent_id @ '':direct:'' @ peer_id
      else build_agent_main_session_key agent_id)"

definition build_agent_peer_session_key :: "session_key_params \<Rightarrow> gostr" where
  "build_agent_peer_session_key params =
     (let agent_id = normalize_agent_id (sk_AgentID params);
          peer = (case sk_Peer params of
                    None \<Rightarrow> \<lparr>rp_Kind = ''direct'', rp_ID = []\<rparr>
                  | Some p \<Rightarrow> p);
          kind0 = trim_space (rp_Kind peer);
          peer_kind = (if kind0 = [] then ''direct'' else kind0) in
      if peer_kind = ''direct'' then direct_session_key params agent_id peer
      else
        let channel = normalize_channel (sk_Channel params);
            id0 = to_lower (trim_space (rp_ID peer));
            peer_id = (if id0 = [] then ''unknown'' else id0)
        in ''agent:'' @ agent_id @ '':'' @ channel @ '':'' @ peer_kind @ '':'' @ peer_id)"

definition parse_agent_session_key :: "gostr \<Rightarrow> parsed_session_key option" where
  "parse_agent_session_key session_key =
     (let raw = trim_space session_key in
      if raw = [] then None
      else
        case split_n raw (CHR '':'') 3 of
          [p0, p1, rest] \<Rightarrow>
            if p0 \<noteq> ''agent'' then None
            else
              let agent_id = trim_space p1 in
              if agent_id = [] \<or> rest = [] then None
              else Some \<lparr>ps_AgentID = agent_id, ps_Rest = rest\<rparr>
        | _ \<Rightarrow> None)"

definition is_subagent_session_key :: "gostr \<Rightarrow> bool" where
  "is_subagent_session_key session_key =
     (let raw = trim_space session_key in
      if raw = [] then False
      else if has_prefix (to_lower raw) ''subagent:'' then True
      else case parse_agent_session_key raw of
             None \<Rightarrow> False
           | Some p \<Rightarrow> has_prefix (to_lower (ps_Rest p)) ''subagent:'')"

section \<open>Facts\<close>

lemma normalize_agent_id_idem_main [simp]:
  "build_agent_main_session_key s = ''agent:'' @ normalize_agent_id s @ '':main''"
  by (simp add: build_agent_main_session_key_def default_main_key_def)

lemma normalize_channel_trimmed: "trimmed (normalize_channel c) \<and> normalize_channel c \<noteq> []"
proof -
  have "trimmed ''unknown''" by code_simp
  then show ?thesis by (simp add: normalize_channel_def Let_def)
qed

text \<open>A key is \<open>agent:\<close>, the agent, \<open>:\<close> and a rest that ends in no space.\<close>

lemma parse_agent_session_key_build:
  assumes "norm_id a" "rest \<noteq> []" "\<not> is_space (last rest)"
  shows "parse_agent_session_key (''agent:'' @ a @ '':'' @ rest) =
           Some \<lparr>ps_AgentID = a, ps_Rest = rest\<rparr>"
proof -
  let ?k = "''agent:'' @ a @ '':'' @ rest"
  have "\<not> is_space (CHR ''a'')" by code_simp
  with assms have "trimmed ?k" by (auto simp: trimmed_def)
  then have t: "trim_space ?k = ?k" by (rule trim_space_trimmed)
  have "CHR '':'' \<notin> set ''agent''" by simp
  then have "split_n (''agent'' @ CHR '':'' # (a @ CHR '':'' # rest)) (CHR '':'') (Suc (Suc (Suc 0))) =
          ''agent'' # split_n (a @ CHR '':'' # rest) (CHR '':'') (Suc (Suc 0))"
    by (rule split_n_sep)
  also have "\<dots> = [''agent'', a, rest]"
    using split_n_sep [OF norm_id_no_colon [OF assms(1)], of rest 0] by simp
  finally have s: "split_n ?k (CHR '':'') 3 = [''agent'', a, rest]"
    by (simp add: numeral_3_eq_3 del: split_n.simps)
  have "a \<noteq> []" "trim_space a = a"
    using assms(1) by (auto simp: norm_id_def norm_id_trimmed [OF assms(1)] trim_space_trimmed)
  with assms(2) show ?thesis
    unfolding parse_agent_session_key_def Let_def t s by simp
qed

lemma resolve_linked_trimmed: "trimmed (resolve_linked_peer_id links ch p)"
  by (auto simp: resolve_linked_peer_id_def Let_def split: option.splits)

lemma last_trimmed: "trimmed s \<Longrightarrow> s \<noteq> [] \<Longrightarrow> \<not> is_space (last s)"
  by (simp add: trimmed_def)

text \<open>A key of agent \<open>a\<close>: something that \<open>parse_agent_session_key\<close> reads back.\<close>

definition key_of :: "gostr \<Rightarrow> gostr \<Rightarrow> bool" where
  "key_of a k \<longleftrightarrow> (\<exists>rest. k = ''agent:'' @ a @ '':'' @ rest \<and> rest \<noteq> [] \<and> \<not> is_space (last rest))"

lemma key_ofI: "k = ''agent:'' @ a @ '':'' @ rest \<Longrightarrow> rest \<noteq> [] \<Longrightarrow> \<not> is_space (last rest) \<Longrightarrow> key_of a k"
  by (auto simp: key_of_def)

lemma parse_key_of:
  "norm_id a \<Longrightarrow> key_of a k \<Longrightarrow>
     \<exists>rest. rest \<noteq> [] \<and> parse_agent_session_key k = Some \<lparr>ps_AgentID = a, ps_Rest = rest\<rparr>"
  unfolding key_of_def using parse_agent_session_key_build by blast

lemma main_key_of: "key_of (normalize_agent_id a) (build_agent_main_session_key a)"
proof (rule key_ofI)
  show "build_agent_main_session_key a = ''agent:'' @ normalize_agent_id a @ '':'' @ ''main''" by simp
  show "\<not> is_space (last ''main'')" by code_simp
qed simp

text \<open>The three shapes of a direct key.\<close>

lemma direct_peer_id_trimmed: "trimmed (direct_peer_id params peer)"
  by (simp add: direct_peer_id_def Let_def resolve_linked_trimmed)

lemma direct_key_of:
  assumes "normalize_agent_id a = a" shows "key_of a (direct_session_key params a peer)"
proof -
  let ?p = "direct_peer_id params peer"
  have "key_of a (''agent:'' @ a @ '':'' @ pre @ ?p)" if "?p \<noteq> []" for pre
    using that by (intro key_ofI [OF refl]) (simp_all add: last_trimmed direct_peer_id_trimmed)
  from this [of "''direct:''"] this [of "normalize_channel (sk_Channel params) @ '':direct:''"]
    this [of "normalize_channel (sk_Channel params) @ '':'' @
       normalize_account_id (sk_AccountID params) @ '':direct:''"]
  show ?thesis
    using main_key_of [of a] assms by (auto simp: direct_session_key_def Let_def)
qed

lemma peer_key_of:
  assumes "hd (normalize_agent_id (sk_AgentID params)) \<noteq> CHR ''_''"
  shows "key_of (normalize_agent_id (sk_AgentID params)) (build_agent_peer_session_key params)"
proof -
  let ?a = "normalize_agent_id (sk_AgentID params)"
  have idem: "normalize_agent_id ?a = ?a" using assms by (simp add: normalize_agent_id_fixed)
  have unknown: "\<not> is_space (last ''unknown'')" by code_simp
  have "key_of ?a (''agent:'' @ ?a @ '':'' @ pre @ (if to_lower (trim_space i) = [] then ''unknown'' else to_lower (trim_space i)))"
    for pre i
    using unknown last_trimmed [of "to_lower (trim_space i)"]
    by (intro key_ofI [OF refl]) (simp_all del: to_lower_eq_Nil)
  from this [of "_ @ '':'' @ _ @ '':''"] show ?thesis
    using direct_key_of [OF idem]
    by (auto simp: build_agent_peer_session_key_def Let_def simp del: to_lower_eq_Nil split: option.splits)
qed

section \<open>Isolation of direct sessions\<close>

definition direct_peer :: "session_key_params \<Rightarrow> route_peer \<Rightarrow> bool" where
  "direct_peer params peer \<longleftrightarrow> sk_Peer params = Some peer \<and> trim_space (rp_Kind peer) = ''direct''"

lemma build_key_direct:
  "direct_peer params peer \<Longrightarrow>
     build_agent_peer_session_key params =
     direct_session_key params (normalize_agent_id (sk_AgentID params)) peer"
  by (simp add: build_agent_peer_session_key_def direct_peer_def Let_def)

lemma colon_notin_channel: "CHR '':'' \<notin> set c \<Longrightarrow> CHR '':'' \<notin> set (normalize_channel c)"
proof -
  assume "CHR '':'' \<notin> set c"
  moreover have "\<not> is_lower (CHR '':'')" by code_simp
  ultimately have "CHR '':'' \<notin> set (trim_space (to_lower c))"
    using nonletter_in_to_lower set_trim_space by (metis subsetD)
  then show ?thesis by (simp add: normalize_channel_def Let_def)
qed

definition isolating_scopes :: "gostr list" where
  "isolating_scopes = [DMScopePerPeer, DMScopePerChannelPeer, DMScopePerAccountChannelPeer]"

lemma scopes_distinct:
  "distinct (DMScopeMain # isolating_scopes)" "[] \<notin> set isolating_scopes"
  by code_simp+

text \<open>The key of an isolating scope, written with its separators.\<close>

fun scope_prefix :: "gostr \<Rightarrow> session_key_params \<Rightarrow> gostr list" where
  "scope_prefix s params =
     (if s = DMScopePerAccountChannelPeer
      then [normalize_channel (sk_Channel params), normalize_account_id (sk_AccountID params)]
      else if s = DMScopePerChannelPeer then [normalize_channel (sk_Channel params)]
      else [])"

fun join_colon :: "gostr list \<Rightarrow> gostr \<Rightarrow> gostr" where
  "join_colon [] t = t"
| "join_colon (x # xs) t = x @ CHR '':'' # join_colon xs t"

lemma join_colon_inj:
  "(\<forall>x\<in>set xs \<union> set ys. CHR '':'' \<notin> set x) \<Longrightarrow> length xs = length ys \<Longrightarrow>
     join_colon xs s = join_colon ys t \<Longrightarrow> xs = ys \<and> s = t"
proof (induction xs arbitrary: ys)
  case (Cons x xs)
  then obtain y ys' where "ys = y # ys'" by (cases ys) auto
  with Cons show ?case by (auto simp: append_sep_inj)
qed simp

lemma direct_key_join:
  assumes "sk_DMScope params \<in> set isolating_scopes" "direct_peer_id params peer \<noteq> []"
  shows "direct_session_key params a peer =
    join_colon (''agent'' # a # scope_prefix (sk_DMScope params) params @ [''direct''])
      (direct_peer_id params peer)"
  using assms scopes_distinct
  by (auto simp: direct_session_key_def effective_dm_scope_def isolating_scopes_def Let_def)

section \<open>Properties\<close>

text \<open>
  The session key built for any peer is read back as a key of the agent it was built for,
  with a nonempty rest, when the normalised agent identifier does not start with an underscore.
\<close>

theorem session_key_roundtrip:
  assumes "hd (normalize_agent_id (sk_AgentID params)) \<noteq> CHR ''_''"
  shows "\<exists>rest. rest \<noteq> [] \<and> parse_agent_session_key (build_agent_peer_session_key params) =
    Some \<lparr>ps_AgentID = normalize_agent_id (sk_AgentID params), ps_Rest = rest\<rparr>"
  by (rule parse_key_of [OF norm_id_agent peer_key_of [OF assms]])

abbreviation params_ex :: "gostr \<Rightarrow> gostr \<Rightarrow> session_key_params" where
  "params_ex ch i \<equiv> \<lparr>sk_AgentID = ''Main'', sk_Channel = ch, sk_AccountID = '''',
     sk_Peer = Some \<lparr>rp_Kind = ''direct'', rp_ID = i\<rparr>, sk_DMScope = DMScopePerChannelPeer,
     sk_IdentityLinks = []\<rparr>"

theorem session_key_roundtrip_witness:
  "\<exists>rest. rest \<noteq> [] \<and> parse_agent_session_key (build_agent_peer_session_key (params_ex ''telegram'' ''U1'')) =
    Some \<lparr>ps_AgentID = ''main'', ps_Rest = rest\<rparr>"
proof -
  have "normalize_agent_id ''Main'' = ''main''" by code_simp
  with session_key_roundtrip [of "params_ex ''telegram'' ''U1''"] show ?thesis by simp
qed

text \<open>
  C12 Isolation of direct messages: under an isolating scope, two direct conversations share a
  session key only if they have the same agent and the same peer after identity links, and, as
  far as the scope asks for it, the same channel and the same account. The channel names must
  be free of the separator.
\<close>

theorem direct_sessions_isolated:
  assumes "direct_peer params peer" "direct_peer params' peer'"
    and scope: "sk_DMScope params \<in> set isolating_scopes" "sk_DMScope params' = sk_DMScope params"
    and ids: "direct_peer_id params peer \<noteq> []" "direct_peer_id params' peer' \<noteq> []"
    and chan: "CHR '':'' \<notin> set (sk_Channel params)" "CHR '':'' \<notin> set (sk_Channel params')"
    and key: "build_agent_peer_session_key params = build_agent_peer_session_key params'"
  shows "normalize_agent_id (sk_AgentID params) = normalize_agent_id (sk_AgentID params')
    \<and> direct_peer_id params peer = direct_peer_id params' peer'
    \<and> (sk_DMScope params \<noteq> DMScopePerPeer \<longrightarrow>
         normalize_channel (sk_Channel params) = normalize_channel (sk_Channel params'))
    \<and> (sk_DMScope params = DMScopePerAccountChannelPeer \<longrightarrow>
         normalize_account_id (sk_AccountID params) = normalize_account_id (sk_AccountID params'))"
proof -
  let ?parts = "\<lambda>q. ''agent'' # normalize_agent_id (sk_AgentID q) # scope_prefix (sk_DMScope q) q @ [''direct'']"
  have k: "join_colon (?parts params) (direct_peer_id params peer) =
      join_colon (?parts params') (direct_peer_id params' peer')"
    using key direct_key_join [OF scope(1) ids(1)] direct_key_join [of params', unfolded scope(2), OF scope(1) ids(2)]
    by (simp only: build_key_direct [OF assms(1)] build_key_direct [OF assms(2)] scope(2))
  have len: "length (?parts params) = length (?parts params')" using scope(2) by simp
  have sep: "\<forall>x \<in> set (?parts params) \<union> set (?parts params'). CHR '':'' \<notin> set x"
    using colon_notin_channel [OF chan(1)] colon_notin_channel [OF chan(2)] norm_id_no_colon by auto
  from join_colon_inj [OF sep len k] show ?thesis
    using scope scopes_distinct by (auto simp: isolating_scopes_def split: if_splits)
qed

theorem direct_sessions_isolated_witness:
  "build_agent_peer_session_key (params_ex ''telegram'' ''1'') \<noteq>
   build_agent_peer_session_key (params_ex ''discord'' ''1'')"
proof
  let ?q = "params_ex ''telegram'' ''1''" and ?r = "params_ex ''discord'' ''1''"
  let ?p = "\<lparr>rp_Kind = ''direct'', rp_ID = ''1''\<rparr>"
  assume key: "build_agent_peer_session_key ?q = build_agent_peer_session_key ?r"
  have "trim_space ''direct'' = ''direct''" by code_simp
  then have d: "direct_peer ?q ?p" "direct_peer ?r ?p" by (simp_all add: direct_peer_def)
  have i: "direct_peer_id ?q ?p \<noteq> []" "direct_peer_id ?r ?p \<noteq> []" by code_simp+
  have s: "sk_DMScope ?q \<in> set isolating_scopes" "sk_DMScope ?r = sk_DMScope ?q"
    by (simp_all add: isolating_scopes_def)
  have "DMScopePerChannelPeer \<noteq> DMScopePerPeer" by code_simp
  moreover have "normalize_channel ''telegram'' \<noteq> normalize_channel ''discord''" by code_simp
  ultimately show False
    using direct_sessions_isolated [OF d s i _ _ key] by simp
qed

end
