(* ===== verification/Route.thy ===== *)
theory Route imports Session_Key begin

text \<open>
  Agent routing: \<open>pkg/routing/route.go\<close>, with the configuration types it reads
  (\<open>pkg/config/config.go\<close>) and the agent registry that looks the routed agent up
  (\<open>pkg/agent/registry.go\<close>). An agent instance is a parameter \<open>'i\<close> of the registry.
\<close>

record peer_match =
  pm_Kind :: gostr
  pm_ID :: gostr

record binding_match =
  bm_Channel :: gostr
  bm_AccountID :: gostr
  bm_Peer :: "peer_match option"
  bm_GuildID :: gostr
  bm_TeamID :: gostr

record agent_binding =
  ab_AgentID :: gostr
  ab_Match :: binding_match

record agent_config =
  ac_ID :: gostr
  ac_Default :: bool

record route_config =
  rc_Agents :: "agent_config list"
  rc_Bindings :: "agent_binding list"
  rc_DMScope :: gostr
  rc_IdentityLinks :: identity_links

record route_input =
  ri_Channel :: gostr
  ri_AccountID :: gostr
  ri_Peer :: "route_peer option"
  ri_ParentPeer :: "route_peer option"
  ri_GuildID :: gostr
  ri_TeamID :: gostr

record resolved_route =
  rr_AgentID :: gostr
  rr_Channel :: gostr
  rr_AccountID :: gostr
  rr_SessionKey :: gostr
  rr_MainSessionKey :: gostr
  rr_MatchedBy :: gostr

section \<open>Bindings\<close>

definition matches_account_id :: "gostr \<Rightarrow> gostr \<Rightarrow> bool" where
  "matches_account_id match_account_id actual =
     (let trimmed = trim_space match_account_id in
      if trimmed = [] then actual = default_account_id
      else if trimmed = ''*'' then True
      else to_lower trimmed = to_lower actual)"

definition binding_applies :: "gostr \<Rightarrow> gostr \<Rightarrow> agent_binding \<Rightarrow> bool" where
  "binding_applies channel account_id b =
     (let match_channel = to_lower (trim_space (bm_Channel (ab_Match b))) in
      if match_channel = [] \<or> match_channel \<noteq> channel then False
      else matches_account_id (bm_AccountID (ab_Match b)) account_id)"

definition filter_bindings :: "route_config \<Rightarrow> gostr \<Rightarrow> gostr \<Rightarrow> agent_binding list" where
  "filter_bindings cfg channel account_id =
     filter (binding_applies channel account_id) (rc_Bindings cfg)"

definition peer_matches :: "route_peer \<Rightarrow> agent_binding \<Rightarrow> bool" where
  "peer_matches peer b =
     (case bm_Peer (ab_Match b) of
        None \<Rightarrow> False
      | Some m \<Rightarrow>
          let peer_kind = to_lower (trim_space (pm_Kind m));
              peer_id = trim_space (pm_ID m) in
          if peer_kind = [] \<or> peer_id = [] then False
          else peer_kind = to_lower (rp_Kind peer) \<and> peer_id = rp_ID peer)"

definition guild_matches :: "gostr \<Rightarrow> agent_binding \<Rightarrow> bool" where
  "guild_matches guild_id b =
     (let match_guild = trim_space (bm_GuildID (ab_Match b))
      in match_guild \<noteq> [] \<and> match_guild = guild_id)"

definition team_matches :: "gostr \<Rightarrow> agent_binding \<Rightarrow> bool" where
  "team_matches team_id b =
     (let match_team = trim_space (bm_TeamID (ab_Match b))
      in match_team \<noteq> [] \<and> match_team = team_id)"

definition unscoped :: "agent_binding \<Rightarrow> bool" where
  "unscoped b \<longleftrightarrow>
     bm_Peer (ab_Match b) = None \<and> bm_GuildID (ab_Match b) = [] \<and> bm_TeamID (ab_Match b) = []"

definition account_matches :: "agent_binding \<Rightarrow> bool" where
  "account_matches b \<longleftrightarrow> trim_space (bm_AccountID (ab_Match b)) \<noteq> ''*'' \<and> unscoped b"

definition wildcard_matches :: "agent_binding \<Rightarrow> bool" where
  "wildcard_matches b \<longleftrightarrow> trim_space (bm_AccountID (ab_Match b)) = ''*'' \<and> unscoped b"

definition find_peer_match :: "agent_binding list \<Rightarrow> route_peer \<Rightarrow> agent_binding option" where
  "find_peer_match bindings peer = List.find (peer_matches peer) bindings"

definition find_guild_match :: "agent_binding list \<Rightarrow> gostr \<Rightarrow> agent_binding option" where
  "find_guild_match bindings guild_id = List.find (guild_matches guild_id) bindings"

definition find_team_match :: "agent_binding list \<Rightarrow> gostr \<Rightarrow> agent_binding option" where
  "find_team_match bindings team_id = List.find (team_matches team_id) bindings"

definition find_account_match :: "agent_binding list \<Rightarrow> agent_binding option" where
  "find_account_match bindings = List.find account_matches bindings"

definition find_channel_wildcard_match :: "agent_binding list \<Rightarrow> agent_binding option" where
  "find_channel_wildcard_match bindings = List.find wildcard_matches bindings"

section \<open>Agents\<close>

definition resolve_default_agent_id :: "route_config \<Rightarrow> gostr" where
  "resolve_default_agent_id cfg =
     (case rc_Agents cfg of
        [] \<Rightarrow> default_agent_id
      | a0 # _ \<Rightarrow>
          (case List.find (\<lambda>a. ac_Default a \<and> trim_space (ac_ID a) \<noteq> []) (rc_Agents cfg) of
             Some a \<Rightarrow> normalize_agent_id (trim_space (ac_ID a))
           | None \<Rightarrow>
               if trim_space (ac_ID a0) \<noteq> [] then normalize_agent_id (trim_space (ac_ID a0))
               else default_agent_id))"

definition pick_agent_id :: "route_config \<Rightarrow> gostr \<Rightarrow> gostr" where
  "pick_agent_id cfg agent_id =
     (let trimmed = trim_space agent_id in
      if trimmed = [] then normalize_agent_id (resolve_default_agent_id cfg)
      else
        let normalized = normalize_agent_id trimmed in
        if rc_Agents cfg = [] then normalized
        else if list_ex (\<lambda>a. normalize_agent_id (ac_ID a) = normalized) (rc_Agents cfg)
        then normalized
        else normalize_agent_id (resolve_default_agent_id cfg))"

section \<open>The cascade\<close>

definition choose_route :: "route_config \<Rightarrow> route_input \<Rightarrow> gostr \<Rightarrow> gostr \<Rightarrow> resolved_route" where
  "choose_route cfg inp agent_id matched_by =
     (let channel = to_lower (trim_space (ri_Channel inp));
          account_id = normalize_account_id (ri_AccountID inp);
          dm_scope = (if rc_DMScope cfg = [] then DMScopeMain else rc_DMScope cfg);
          resolved_agent_id = pick_agent_id cfg agent_id;
          session_key = to_lower (build_agent_peer_session_key (
            \<lparr>sk_AgentID = resolved_agent_id, sk_Channel = channel, sk_AccountID = account_id,
             sk_Peer = ri_Peer inp, sk_DMScope = dm_scope,
             sk_IdentityLinks = rc_IdentityLinks cfg\<rparr>));
          main_session_key = to_lower (build_agent_main_session_key resolved_agent_id)
      in \<lparr>rr_AgentID = resolved_agent_id, rr_Channel = channel, rr_AccountID = account_id,
          rr_SessionKey = session_key, rr_MainSessionKey = main_session_key,
          rr_MatchedBy = matched_by\<rparr>)"

definition peer_tier :: "agent_binding list \<Rightarrow> route_peer option \<Rightarrow> agent_binding option" where
  "peer_tier bindings p =
     (case p of
        None \<Rightarrow> None
      | Some peer \<Rightarrow>
          if trim_space (rp_ID peer) \<noteq> [] then find_peer_match bindings peer else None)"

definition resolve_route :: "route_config \<Rightarrow> route_input \<Rightarrow> resolved_route" where
  "resolve_route cfg inp =
     (let channel = to_lower (trim_space (ri_Channel inp));
          account_id = normalize_account_id (ri_AccountID inp);
          bindings = filter_bindings cfg channel account_id;
          guild_id = trim_space (ri_GuildID inp);
          team_id = trim_space (ri_TeamID inp) in
      case peer_tier bindings (ri_Peer inp) of
        Some b \<Rightarrow> choose_route cfg inp (ab_AgentID b) ''binding.peer''
      | None \<Rightarrow>
      (case peer_tier bindings (ri_ParentPeer inp) of
        Some b \<Rightarrow> choose_route cfg inp (ab_AgentID b) ''binding.peer.parent''
      | None \<Rightarrow>
      (case (if guild_id \<noteq> [] then find_guild_match bindings guild_id else None) of
        Some b \<Rightarrow> choose_route cfg inp (ab_AgentID b) ''binding.guild''
      | None \<Rightarrow>
      (case (if team_id \<noteq> [] then find_team_match bindings team_id else None) of
        Some b \<Rightarrow> choose_route cfg inp (ab_AgentID b) ''binding.team''
      | None \<Rightarrow>
      (case find_account_match bindings of
        Some b \<Rightarrow> choose_route cfg inp (ab_AgentID b) ''binding.account''
      | None \<Rightarrow>
      (case find_channel_wildcard_match bindings of
        Some b \<Rightarrow> choose_route cfg inp (ab_AgentID b) ''binding.channel''
      | None \<Rightarrow> choose_route cfg inp (resolve_default_agent_id cfg) ''default''))))))"

section \<open>The registry of agents\<close>

type_synonym 'i agent_registry = "gostr \<rightharpoonup> 'i"

definition new_agent_registry :: "(agent_config \<Rightarrow> 'i) \<Rightarrow> route_config \<Rightarrow> 'i agent_registry" where
  "new_agent_registry mk cfg =
     (if rc_Agents cfg = [] then [''main'' \<mapsto> mk (\<lparr>ac_ID = ''main'', ac_Default = True\<rparr>)]
      else fold (\<lambda>ac m. m(normalize_agent_id (ac_ID ac) \<mapsto> mk ac)) (rc_Agents cfg) Map.empty)"

definition get_agent :: "'i agent_registry \<Rightarrow> gostr \<Rightarrow> 'i option" where
  "get_agent r agent_id = r (normalize_agent_id agent_id)"

text \<open>\<open>CanSpawnSubagent\<close>, over the allow list of the parent (\<open>None\<close> for a nil list).\<close>

definition can_spawn_subagent ::
  "'i agent_registry \<Rightarrow> ('i \<Rightarrow> gostr list option) \<Rightarrow> gostr \<Rightarrow> gostr \<Rightarrow> bool" where
  "can_spawn_subagent r allow_agents parent_id target_id =
     (case get_agent r parent_id of
        None \<Rightarrow> False
      | Some parent \<Rightarrow>
          (case allow_agents parent of
             None \<Rightarrow> False
           | Some allowed \<Rightarrow>
               list_ex (\<lambda>a. a = ''*'' \<or> normalize_agent_id a = normalize_agent_id target_id) allowed))"

section \<open>Specification of the cascade\<close>

text \<open>
  Six levels of bindings, the most specific first. A binding applies at a level when it is for
  the channel and the account, and the level's own condition holds.
\<close>

datatype tier = TPeer | TParent | TGuild | TTeam | TAccount | TChannel

definition tiers :: "tier list" where
  "tiers = [TPeer, TParent, TGuild, TTeam, TAccount, TChannel]"

fun tier_name :: "tier \<Rightarrow> gostr" where
  "tier_name TPeer = ''binding.peer''"
| "tier_name TParent = ''binding.peer.parent''"
| "tier_name TGuild = ''binding.guild''"
| "tier_name TTeam = ''binding.team''"
| "tier_name TAccount = ''binding.account''"
| "tier_name TChannel = ''binding.channel''"

definition named_peer_matches :: "route_peer option \<Rightarrow> agent_binding \<Rightarrow> bool" where
  "named_peer_matches p b =
     (case p of None \<Rightarrow> False | Some peer \<Rightarrow> trim_space (rp_ID peer) \<noteq> [] \<and> peer_matches peer b)"

fun tier_condition :: "route_input \<Rightarrow> tier \<Rightarrow> agent_binding \<Rightarrow> bool" where
  "tier_condition inp TPeer b = named_peer_matches (ri_Peer inp) b"
| "tier_condition inp TParent b = named_peer_matches (ri_ParentPeer inp) b"
| "tier_condition inp TGuild b = guild_matches (trim_space (ri_GuildID inp)) b"
| "tier_condition inp TTeam b = team_matches (trim_space (ri_TeamID inp)) b"
| "tier_condition inp TAccount b = account_matches b"
| "tier_condition inp TChannel b = wildcard_matches b"

definition tier_applies :: "route_input \<Rightarrow> tier \<Rightarrow> agent_binding \<Rightarrow> bool" where
  "tier_applies inp t b \<longleftrightarrow>
     binding_applies (to_lower (trim_space (ri_Channel inp)))
       (normalize_account_id (ri_AccountID inp)) b
     \<and> tier_condition inp t b"

text \<open>The first level that has a binding, with its first binding.\<close>

definition best_binding :: "route_config \<Rightarrow> route_input \<Rightarrow> (tier \<times> agent_binding) option" where
  "best_binding cfg inp =
     List.find (\<lambda>(t, b). tier_applies inp t b) (List.product tiers (rc_Bindings cfg))"

section \<open>Facts\<close>

lemma find_filter: "List.find P (filter Q xs) = List.find (\<lambda>x. Q x \<and> P x) xs"
  by (induction xs) auto

lemma find_False: "(\<And>x. x \<in> set xs \<Longrightarrow> \<not> P x) \<Longrightarrow> List.find P xs = None"
  by (induction xs) auto

lemma find_append: "List.find P (xs @ ys) = (case List.find P xs of None \<Rightarrow> List.find P ys | Some x \<Rightarrow> Some x)"
  by (induction xs) auto

lemma find_map_pair:
  "List.find (\<lambda>(t, b). P t b) (map (Pair t) xs) = map_option (Pair t) (List.find (P t) xs)"
  by (induction xs) auto

lemma peer_tier_find:
  "peer_tier (filter Q bs) p = List.find (\<lambda>b. Q b \<and> named_peer_matches p b) bs"
proof (cases "\<exists>peer. p = Some peer \<and> trim_space (rp_ID peer) \<noteq> []")
  case True
  then show ?thesis by (auto simp: peer_tier_def find_peer_match_def find_filter named_peer_matches_def)
next
  case False
  then have "\<not> named_peer_matches p b" for b by (auto simp: named_peer_matches_def split: option.splits)
  with False show ?thesis by (auto simp: peer_tier_def find_False split: option.splits)
qed

lemma guild_tier_find:
  "(if g \<noteq> [] then find_guild_match (filter Q bs) g else None) =
     List.find (\<lambda>b. Q b \<and> guild_matches g b) bs"
  by (auto simp: find_guild_match_def find_filter guild_matches_def Let_def intro: find_False [symmetric])

lemma team_tier_find:
  "(if g \<noteq> [] then find_team_match (filter Q bs) g else None) =
     List.find (\<lambda>b. Q b \<and> team_matches g b) bs"
  by (auto simp: find_team_match_def find_filter team_matches_def Let_def intro: find_False [symmetric])

lemmas tier_finds =
  peer_tier_find guild_tier_find team_tier_find find_account_match_def find_channel_wildcard_match_def
  find_filter

lemma best_binding_first:
  "List.find (\<lambda>(t, b). P t b) (List.product (t # ts) bs) =
     (case List.find (P t) bs of
        Some b \<Rightarrow> Some (t, b)
      | None \<Rightarrow> List.find (\<lambda>(t, b). P t b) (List.product ts bs))"
  by (cases "List.find (P t) bs") (simp_all add: find_append find_map_pair)

lemma best_binding_last: "List.find P (List.product [] bs) = None"
  by simp

lemma resolve_route_best:
  "resolve_route cfg inp =
     (case best_binding cfg inp of
        None \<Rightarrow> choose_route cfg inp (resolve_default_agent_id cfg) ''default''
      | Some (t, b) \<Rightarrow> choose_route cfg inp (ab_AgentID b) (tier_name t))"
  unfolding best_binding_def tiers_def best_binding_first best_binding_last
    resolve_route_def Let_def filter_bindings_def tier_finds tier_applies_def tier_condition.simps
  by (simp only: option.case_distrib [of "case_option _ _"] option.case prod.case tier_name.simps
      split: option.split)

lemma best_binding_Some:
  assumes "best_binding cfg inp = Some (t, b)"
  shows "b \<in> set (rc_Bindings cfg)" "tier_applies inp t b"
  using find_in_set [OF assms [unfolded best_binding_def]] by auto

section \<open>The routed agent is registered\<close>

definition agent_ids :: "route_config \<Rightarrow> gostr set" where
  "agent_ids cfg = (\<lambda>a. normalize_agent_id (ac_ID a)) ` set (rc_Agents cfg)"

lemma dom_fold_upd: "dom (fold (\<lambda>x m. m(f x \<mapsto> g x)) xs m) = dom m \<union> f ` set xs"
  by (induction xs arbitrary: m) auto

lemma dom_new_agent_registry:
  "rc_Agents cfg \<noteq> [] \<Longrightarrow> dom (new_agent_registry mk cfg) = agent_ids cfg"
  by (simp add: new_agent_registry_def agent_ids_def dom_fold_upd)

lemma normalize_agent_id_trim [simp]: "normalize_agent_id (trim_space s) = normalize_agent_id s"
  by (simp add: normalize_agent_id_def normalize_id_def)

lemma normalize_agent_id_blank: "trim_space s = [] \<Longrightarrow> normalize_agent_id s = default_agent_id"
  by (simp add: normalize_agent_id_def normalize_id_def)

lemma default_agent_configured:
  assumes "rc_Agents cfg \<noteq> []" shows "resolve_default_agent_id cfg \<in> agent_ids cfg"
proof (cases "rc_Agents cfg")
  case Nil
  with assms show ?thesis by simp
next
  case (Cons a0 as)
  show ?thesis
  proof (cases "List.find (\<lambda>a. ac_Default a \<and> trim_space (ac_ID a) \<noteq> []) (rc_Agents cfg)")
    case None
    with Cons have "resolve_default_agent_id cfg = normalize_agent_id (ac_ID a0)"
      by (simp add: resolve_default_agent_id_def normalize_agent_id_blank)
    with Cons show ?thesis by (simp add: agent_ids_def)
  next
    case (Some a)
    with Cons have "resolve_default_agent_id cfg = normalize_agent_id (ac_ID a)"
      by (simp add: resolve_default_agent_id_def)
    moreover from Some have "a \<in> set (rc_Agents cfg)" by (auto dest: find_in_set)
    ultimately show ?thesis by (simp add: agent_ids_def)
  qed
qed

text \<open>
  Identifiers whose normal form does not start with an underscore are left alone by a second
  normalisation; then the agent that is picked is one of the configured ones.
\<close>

definition plain_ids :: "route_config \<Rightarrow> bool" where
  "plain_ids cfg \<longleftrightarrow> (\<forall>a\<in>set (rc_Agents cfg). hd (normalize_agent_id (ac_ID a)) \<noteq> CHR ''_'')"

lemma plain_ids_fixed: "plain_ids cfg \<Longrightarrow> i \<in> agent_ids cfg \<Longrightarrow> normalize_agent_id i = i"
  by (auto simp: plain_ids_def agent_ids_def normalize_agent_id_fixed)

lemma pick_agent_configured:
  assumes "rc_Agents cfg \<noteq> []" and "plain_ids cfg"
  shows "pick_agent_id cfg i \<in> agent_ids cfg"
proof -
  have d: "normalize_agent_id (resolve_default_agent_id cfg) \<in> agent_ids cfg"
    using default_agent_configured [OF assms(1)] plain_ids_fixed [OF assms(2)] by simp
  have "n \<in> agent_ids cfg"
    if "list_ex (\<lambda>a. normalize_agent_id (ac_ID a) = n) (rc_Agents cfg)" for n
    using that by (auto simp: list_ex_iff agent_ids_def)
  with d assms(1) show ?thesis by (simp add: pick_agent_id_def Let_def)
qed

lemma choose_route_fields [simp]:
  "rr_AgentID (choose_route cfg inp i m) = pick_agent_id cfg i"
  "rr_MatchedBy (choose_route cfg inp i m) = m"
  by (simp_all add: choose_route_def Let_def)

lemma resolve_route_agent:
  "\<exists>i. rr_AgentID (resolve_route cfg inp) = pick_agent_id cfg i"
  by (auto simp: resolve_route_best split: option.splits prod.splits)

section \<open>Properties\<close>

text \<open>
  C10 Routing follows the cascade: the route is that of the first binding of the most specific
  level at which any binding applies (peer, parent peer, guild, team, account, channel), named
  after that level, and the default agent's when none applies at any level.
\<close>

theorem resolve_route_cascade:
  "case best_binding cfg inp of
     None \<Rightarrow> rr_MatchedBy (resolve_route cfg inp) = ''default'' \<and>
       rr_AgentID (resolve_route cfg inp) = pick_agent_id cfg (resolve_default_agent_id cfg) \<and>
       (\<forall>t b. b \<in> set (rc_Bindings cfg) \<longrightarrow> \<not> tier_applies inp t b)
   | Some (t, b) \<Rightarrow> rr_MatchedBy (resolve_route cfg inp) = tier_name t \<and>
       rr_AgentID (resolve_route cfg inp) = pick_agent_id cfg (ab_AgentID b) \<and>
       b \<in> set (rc_Bindings cfg) \<and> tier_applies inp t b \<and>
       (\<exists>before after. List.product tiers (rc_Bindings cfg) = before @ (t, b) # after \<and>
          (\<forall>(u, c) \<in> set before. \<not> tier_applies inp u c))"
proof (cases "best_binding cfg inp")
  case None
  have "t \<in> set tiers" for t by (cases t) (simp_all add: tiers_def)
  with None have "\<not> tier_applies inp t b" if "b \<in> set (rc_Bindings cfg)" for t b
    using that by (fastforce simp: best_binding_def find_None_iff)
  with None show ?thesis by (simp add: resolve_route_best)
next
  case (Some tb)
  obtain t b where tb: "tb = (t, b)" by (cases tb)
  with Some have best: "best_binding cfg inp = Some (t, b)" by simp
  from find_Some_split [OF best [unfolded best_binding_def]] obtain before after where
    "List.product tiers (rc_Bindings cfg) = before @ (t, b) # after"
    "\<forall>y\<in>set before. \<not> (case y of (u, c) \<Rightarrow> tier_applies inp u c)" by auto
  then show ?thesis
    using best best_binding_Some [OF best] by (auto simp: resolve_route_best)
qed

abbreviation cfg_ex :: route_config where
  "cfg_ex \<equiv> \<lparr>rc_Agents = [\<lparr>ac_ID = ''Ops'', ac_Default = False\<rparr>], rc_Bindings =
     [\<lparr>ab_AgentID = ''ops'', ab_Match = \<lparr>bm_Channel = ''slack'', bm_AccountID = ''*'', bm_Peer = None,
        bm_GuildID = [], bm_TeamID = []\<rparr>\<rparr>], rc_DMScope = [], rc_IdentityLinks = []\<rparr>"

abbreviation inp_ex :: route_input where
  "inp_ex \<equiv> \<lparr>ri_Channel = ''Slack'', ri_AccountID = [], ri_Peer = None, ri_ParentPeer = None,
     ri_GuildID = [], ri_TeamID = []\<rparr>"

theorem resolve_route_cascade_witness:
  "rr_MatchedBy (resolve_route cfg_ex inp_ex) = ''binding.channel''"
proof -
  have "best_binding cfg_ex inp_ex = Some (TChannel, hd (rc_Bindings cfg_ex))" by code_simp
  with resolve_route_cascade [of cfg_ex inp_ex] show ?thesis by simp
qed

text \<open>
  Every message is routed to an agent that exists: the agent of a resolved route is in the
  registry built from the same configuration, with or without configured agents, as long as no
  configured identifier starts with an underscore.
\<close>

theorem routed_agent_registered:
  assumes "plain_ids cfg" "rc_Agents cfg \<noteq> []"
  shows "get_agent (new_agent_registry mk cfg) (rr_AgentID (resolve_route cfg inp)) \<noteq> None"
proof -
  obtain i where i: "rr_AgentID (resolve_route cfg inp) = pick_agent_id cfg i"
    using resolve_route_agent by blast
  have "pick_agent_id cfg i \<in> agent_ids cfg" by (rule pick_agent_configured [OF assms(2,1)])
  with plain_ids_fixed [OF assms(1)] dom_new_agent_registry [OF assms(2), of mk]
  show ?thesis by (auto simp: get_agent_def i dom_def)
qed

theorem routed_agent_registered_witness:
  "get_agent (new_agent_registry ac_ID cfg_ex) (rr_AgentID (resolve_route cfg_ex inp_ex)) \<noteq> None"
proof (rule routed_agent_registered)
  show "plain_ids cfg_ex" by code_simp
qed simp

end
