(* ===== verification/Float64.thy ===== *)
theory Float64 imports Complex_Main begin

text \<open>
  The part of \<open>float64\<close> arithmetic the code uses. A finite \<open>float64\<close> is the rational number it
  stands for, and an operation rounds its exact result to the nearest \<open>float64\<close>, ties to even.
\<close>

text \<open>The exponent \<open>e\<close> with \<open>2^e \<le> x < 2^(e+1)\<close>, for \<open>2^(-64) \<le> x < 2^64\<close>.\<close>

fun exp2_of :: "nat \<Rightarrow> rat \<Rightarrow> int" where
  "exp2_of 0 x = 0"
| "exp2_of (Suc n) x =
     (if x < 1 then exp2_of n (2 * x) - 1
      else if 2 \<le> x then exp2_of n (x / 2) + 1
      else 0)"

definition round_half_even :: "rat \<Rightarrow> int" where
  "round_half_even r =
     (let f = floor r; d = r - of_int f in
      if d < 1 / 2 then f else if 1 / 2 < d then f + 1 else if even f then f else f + 1)"

definition f64 :: "rat \<Rightarrow> rat" where
  "f64 x =
     (if x \<le> 0 then 0
      else let scale = 2 ^ nat (52 - exp2_of 64 x) in of_int (round_half_even (x * scale)) / scale)"

definition f64_add :: "rat \<Rightarrow> rat \<Rightarrow> rat" where
  "f64_add x y = f64 (x + y)"

lemma exp2_of_unfold:
  "exp2_of n x =
     (if n = 0 then 0 else if x < 1 then exp2_of (n - 1) (2 * x) - 1
      else if 2 \<le> x then exp2_of (n - 1) (x / 2) + 1 else 0)"
  by (cases n) simp_all

lemma floor_numerals: "\<lfloor>(numeral a / numeral b :: rat)\<rfloor> = numeral a div numeral b"
  using floor_divide_of_int_eq [of "numeral a" "numeral b", where ?'a = rat] by simp

lemmas f64_eval =
  f64_add_def f64_def round_half_even_def Let_def exp2_of_unfold [of "numeral k" for k] floor_numerals

text \<open>The weights as \<open>float64\<close>, and every sum the classifier can form.\<close>

lemma f64_nonneg: "0 \<le> f64 x"
  by (auto simp: f64_def Let_def round_half_even_def intro!: divide_nonneg_nonneg)

end
