(* ===== verification/Protocol.thy ===== *)
theory Protocol imports Prelude begin

text \<open>
  The message types every part of the system exchanges: \<open>pkg/providers/protocoltypes/types.go\<close>.
  The values of a Go \<open>map[string]any\<close> are of the parameter type \<open>'v\<close>; such a map is an
  association list with distinct keys, and \<open>None\<close> is the nil map.
\<close>

type_synonym 'v anymap = "(gostr \<times> 'v) list"

record function_call =
  fn_Name :: gostr
  fn_Arguments :: gostr
  fn_ThoughtSignature :: gostr

record 'v tool_call =
  tc_ID :: gostr
  tc_Type :: gostr
  tc_Function :: "function_call option"
  tc_Name :: gostr
  tc_Arguments :: "'v anymap option"
  tc_ThoughtSignature :: gostr
  tc_ExtraContent :: "gostr option"

record content_block =
  cb_Type :: gostr
  cb_Text :: gostr
  cb_CacheControl :: "gostr option"

record 'v message =
  msg_Role :: gostr
  msg_Content :: gostr
  msg_Media :: "gostr list"
  msg_ReasoningContent :: gostr
  msg_SystemParts :: "content_block list"
  msg_ToolCalls :: "'v tool_call list"
  msg_ToolCallID :: gostr

record 'v llm_response =
  resp_Content :: gostr
  resp_ReasoningContent :: gostr
  resp_ToolCalls :: "'v tool_call list"
  resp_FinishReason :: gostr

definition text_message :: "gostr \<Rightarrow> gostr \<Rightarrow> 'v message" where
  "text_message role content =
     \<lparr>msg_Role = role, msg_Content = content, msg_Media = [], msg_ReasoningContent = [],
      msg_SystemParts = [], msg_ToolCalls = [], msg_ToolCallID = []\<rparr>"

lemma text_message_simps [simp]:
  "msg_Role (text_message r c) = r" "msg_Content (text_message r c) = c"
  "msg_ToolCalls (text_message r c) = []" "msg_ToolCallID (text_message r c) = []"
  by (simp_all add: text_message_def)

end
