(* ===== verification/Complexity.thy ===== *)
theory Complexity imports Float64 Protocol begin

text \<open>
  Routing by complexity: \<open>pkg/routing/features.go\<close>, \<open>classifier.go\<close> and \<open>router.go\<close>. A message
  is the list of its runes (code points). Scores are \<open>float64\<close> values (theory \<open>Float64\<close>).
\<close>

section \<open>Features\<close>

type_synonym runes = "nat list"

record features =
  ft_TokenEstimate :: int
  ft_CodeBlockCount :: int
  ft_RecentToolCalls :: int
  ft_ConversationDepth :: int
  ft_HasAttachments :: bool

definition lookback_window :: nat where
  "lookback_window = 6"

definition is_cjk :: "nat \<Rightarrow> bool" where
  "is_cjk r \<longleftrightarrow> 0x2E80 \<le> r \<and> r \<le> 0x9FFF \<or> 0xF900 \<le> r \<and> r \<le> 0xFAFF \<or> 0xAC00 \<le> r \<and> r \<le> 0xD7AF"

definition estimate_tokens :: "runes \<Rightarrow> int" where
  "estimate_tokens msg =
     (let total = length msg in
      if total = 0 then 0
      else let cjk = length (filter is_cjk msg) in int (cjk + (total - cjk) div 4))"

text \<open>\<open>strings.Count(msg, "```")\<close>: occurrences that do not overlap, from the left.\<close>

fun count_fences :: "runes \<Rightarrow> nat" where
  "count_fences (a # b # c # s) =
     (if a = 96 \<and> b = 96 \<and> c = 96 then Suc (count_fences s) else count_fences (b # c # s))"
| "count_fences s = 0"

definition count_code_blocks :: "runes \<Rightarrow> int" where
  "count_code_blocks msg = int (count_fences msg div 2)"

definition count_recent_tool_calls :: "'v message list \<Rightarrow> int" where
  "count_recent_tool_calls history =
     (let start = length history - lookback_window in
      int (sum_list (map (\<lambda>m. length (msg_ToolCalls m)) (drop start history))))"

text \<open>
  \<open>strings.ToLower\<close>, as far as the ASCII patterns below can see it: besides the ASCII letters, the
  dotted capital I and the Kelvin sign become ASCII letters.
\<close>

definition lower_rune :: "nat \<Rightarrow> nat" where
  "lower_rune r =
     (if 65 \<le> r \<and> r \<le> 90 then r + 32
      else if r = 0x130 then 105 else if r = 0x212A then 107 else r)"

definition runes_of :: "gostr \<Rightarrow> runes" where
  "runes_of s = map code s"

definition rune_contains :: "runes \<Rightarrow> runes \<Rightarrow> bool" where
  "rune_contains s w = list_ex (\<lambda>t. take (length w) t = w) (suffixes s)"

definition media_markers :: "gostr list" where
  "media_markers = [''data:image/'', ''data:audio/'', ''data:video/'']"

definition media_exts :: "gostr list" where
  "media_exts =
     [''.jpg'', ''.jpeg'', ''.png'', ''.gif'', ''.webp'', ''.bmp'',
      ''.mp3'', ''.wav'', ''.ogg'', ''.m4a'', ''.flac'',
      ''.mp4'', ''.avi'', ''.mov'', ''.webm'']"

definition has_attachments :: "runes \<Rightarrow> bool" where
  "has_attachments msg =
     (let lower = map lower_rune msg in
      if list_ex (\<lambda>w. rune_contains lower (runes_of w)) media_markers then True
      else list_ex (\<lambda>w. rune_contains lower (runes_of w)) media_exts)"

definition extract_features :: "runes \<Rightarrow> 'v message list \<Rightarrow> features" where
  "extract_features msg history =
     \<lparr>ft_TokenEstimate = estimate_tokens msg, ft_CodeBlockCount = count_code_blocks msg,
      ft_RecentToolCalls = count_recent_tool_calls history,
      ft_ConversationDepth = int (length history), ft_HasAttachments = has_attachments msg\<rparr>"

section \<open>The rule classifier\<close>

definition token_score :: "features \<Rightarrow> rat \<Rightarrow> rat" where
  "token_score f score =
     (if ft_TokenEstimate f > 200 then f64_add score (f64 (35 / 100))
      else if ft_TokenEstimate f > 50 then f64_add score (f64 (15 / 100))
      else score)"

definition code_score :: "features \<Rightarrow> rat \<Rightarrow> rat" where
  "code_score f score =
     (if ft_CodeBlockCount f > 0 then f64_add score (f64 (40 / 100)) else score)"

definition tool_score :: "features \<Rightarrow> rat \<Rightarrow> rat" where
  "tool_score f score =
     (if ft_RecentToolCalls f > 3 then f64_add score (f64 (25 / 100))
      else if ft_RecentToolCalls f > 0 then f64_add score (f64 (10 / 100))
      else score)"

definition depth_score :: "features \<Rightarrow> rat \<Rightarrow> rat" where
  "depth_score f score =
     (if ft_ConversationDepth f > 10 then f64_add score (f64 (10 / 100)) else score)"

definition rule_score :: "features \<Rightarrow> rat" where
  "rule_score f =
     (if ft_HasAttachments f then 1
      else
        let score = depth_score f (tool_score f (code_score f (token_score f 0)))
        in if score > 1 then 1 else score)"

section \<open>The router\<close>

record router_config =
  rcf_LightModel :: gostr
  rcf_Threshold :: rat

record router =
  rt_cfg :: router_config
  rt_classifier :: "features \<Rightarrow> rat"

definition default_threshold :: rat where
  "default_threshold = f64 (35 / 100)"

definition new_with_classifier :: "router_config \<Rightarrow> (features \<Rightarrow> rat) \<Rightarrow> router" where
  "new_with_classifier cfg c =
     \<lparr>rt_cfg = (if rcf_Threshold cfg \<le> 0 then cfg\<lparr>rcf_Threshold := default_threshold\<rparr> else cfg),
      rt_classifier = c\<rparr>"

definition new_router :: "router_config \<Rightarrow> router" where
  "new_router cfg = new_with_classifier cfg rule_score"

definition select_model ::
  "router \<Rightarrow> runes \<Rightarrow> 'v message list \<Rightarrow> gostr \<Rightarrow> gostr \<times> bool \<times> rat" where
  "select_model r msg history primary_model =
     (let score = rt_classifier r (extract_features msg history) in
      if score < rcf_Threshold (rt_cfg r) then (rcf_LightModel (rt_cfg r), True, score)
      else (primary_model, False, score))"

section \<open>Interface: classifiers\<close>

text \<open>The contract of the Go interface \<open>Classifier\<close>: a score between 0 and 1.\<close>

locale classifier =
  fixes score :: "features \<Rightarrow> rat"
  assumes score_range: "0 \<le> score f \<and> score f \<le> 1"
begin

text \<open>A threshold above 1 sends everything to the light model.\<close>

lemma select_above_one:
  assumes "1 < rcf_Threshold cfg"
  shows "select_model (new_with_classifier cfg score) msg h m =
           (rcf_LightModel cfg, True, score (extract_features msg h))"
proof -
  have "score (extract_features msg h) < rcf_Threshold cfg"
    using score_range [of "extract_features msg h"] assms by linarith
  with assms show ?thesis by (simp add: select_model_def new_with_classifier_def Let_def)
qed

lemma select_score:
  "0 \<le> snd (snd (select_model (new_with_classifier cfg score) msg h m)) \<and>
   snd (snd (select_model (new_with_classifier cfg score) msg h m)) \<le> 1"
  using score_range by (simp add: select_model_def new_with_classifier_def Let_def)

end

text \<open>A classifier for which attachments are a hard gate.\<close>

locale gated_classifier = classifier +
  assumes gate: "ft_HasAttachments f \<Longrightarrow> score f = 1"
begin

lemma select_attachment:
  assumes "has_attachments msg" "rcf_Threshold cfg \<le> 1" "default_threshold \<le> 1"
  shows "select_model (new_with_classifier cfg score) msg h m = (m, False, 1)"
proof -
  have "score (extract_features msg h) = 1"
    using assms(1) by (intro gate) (simp add: extract_features_def)
  with assms(2,3) show ?thesis by (simp add: select_model_def new_with_classifier_def Let_def)
qed

end

section \<open>Evaluating the scores\<close>

lemma weights:
  "f64 (35 / 100) = 3152519739159347 / 9007199254740992"
  "f64 (40 / 100) = 3602879701896397 / 9007199254740992"
  "f64 (15 / 100) = 5404319552844595 / 36028797018963968"
  "f64 (10 / 100) = 3602879701896397 / 36028797018963968"
  "f64 (25 / 100) = 1 / 4"
  by (simp_all add: f64_eval)

lemma score_sums:
  "f64_add (0) (3602879701896397 / 36028797018963968) = 3602879701896397 / 36028797018963968"
  "f64_add (0) (5404319552844595 / 36028797018963968) = 5404319552844595 / 36028797018963968"
  "f64_add (0) (1 / 4) = 1 / 4"
  "f64_add (0) (3152519739159347 / 9007199254740992) = 3152519739159347 / 9007199254740992"
  "f64_add (0) (3602879701896397 / 9007199254740992) = 3602879701896397 / 9007199254740992"
  "f64_add (3602879701896397 / 36028797018963968) (3602879701896397 / 36028797018963968) = 3602879701896397 / 18014398509481984"
  "f64_add (5404319552844595 / 36028797018963968) (3602879701896397 / 36028797018963968) = 1 / 4"
  "f64_add (5404319552844595 / 36028797018963968) (1 / 4) = 3602879701896397 / 9007199254740992"
  "f64_add (5404319552844595 / 36028797018963968) (3602879701896397 / 9007199254740992) = 2476979795053773 / 4503599627370496"
  "f64_add (1 / 4) (3602879701896397 / 36028797018963968) = 3152519739159347 / 9007199254740992"
  "f64_add (3152519739159347 / 9007199254740992) (3602879701896397 / 36028797018963968) = 2026619832316723 / 4503599627370496"
  "f64_add (3152519739159347 / 9007199254740992) (1 / 4) = 5404319552844595 / 9007199254740992"
  "f64_add (3152519739159347 / 9007199254740992) (3602879701896397 / 9007199254740992) = 3 / 4"
  "f64_add (3602879701896397 / 9007199254740992) (3602879701896397 / 36028797018963968) = 1 / 2"
  "f64_add (3602879701896397 / 9007199254740992) (1 / 4) = 5854679515581645 / 9007199254740992"
  "f64_add (2026619832316723 / 4503599627370496) (3602879701896397 / 36028797018963968) = 4953959590107545 / 9007199254740992"
  "f64_add (1 / 2) (3602879701896397 / 36028797018963968) = 5404319552844595 / 9007199254740992"
  "f64_add (2476979795053773 / 4503599627370496) (3602879701896397 / 36028797018963968) = 5854679515581645 / 9007199254740992"
  "f64_add (2476979795053773 / 4503599627370496) (1 / 4) = 3602879701896397 / 4503599627370496"
  "f64_add (5404319552844595 / 9007199254740992) (3602879701896397 / 36028797018963968) = 3152519739159347 / 4503599627370496"
  "f64_add (5854679515581645 / 9007199254740992) (3602879701896397 / 36028797018963968) = 3 / 4"
  "f64_add (3 / 4) (3602879701896397 / 36028797018963968) = 7656119366529843 / 9007199254740992"
  "f64_add (3 / 4) (1 / 4) = 1"
  "f64_add (3602879701896397 / 4503599627370496) (3602879701896397 / 36028797018963968) = 8106479329266893 / 9007199254740992"
  "f64_add (7656119366529843 / 9007199254740992) (3602879701896397 / 36028797018963968) = 4278419646001971 / 4503599627370496"
  "f64_add (1) (3602879701896397 / 36028797018963968) = 2476979795053773 / 2251799813685248"
  by (simp_all add: f64_eval)

lemmas score_defs =
  rule_score_def token_score_def code_score_def tool_score_def depth_score_def weights

lemma default_threshold_value: "default_threshold = 3152519739159347 / 9007199254740992"
  by (simp only: default_threshold_def weights)

lemma rule_score_range: "0 \<le> rule_score f \<and> rule_score f \<le> 1"
  by (simp add: rule_score_def token_score_def code_score_def tool_score_def depth_score_def
      Let_def f64_add_def f64_nonneg)

interpretation rules: gated_classifier rule_score
  by unfold_locales (use rule_score_range in \<open>auto simp: rule_score_def\<close>)

text \<open>Which features are heavy at the default threshold.\<close>

definition heavy :: "features \<Rightarrow> bool" where
  "heavy f \<longleftrightarrow>
     ft_HasAttachments f \<or> ft_CodeBlockCount f > 0 \<or> ft_TokenEstimate f > 200 \<or>
     ft_TokenEstimate f > 50 \<and>
       (ft_RecentToolCalls f > 3 \<or> ft_RecentToolCalls f > 0 \<and> ft_ConversationDepth f > 10) \<or>
     ft_RecentToolCalls f > 3 \<and> ft_ConversationDepth f > 10"

lemma rule_score_heavy: "rule_score f < default_threshold \<longleftrightarrow> \<not> heavy f"
  unfolding heavy_def score_defs default_threshold_value Let_def
  by (simp add: score_sums)

section \<open>Token estimates\<close>

lemma estimate_tokens_latin:
  "(\<And>r. r \<in> set msg \<Longrightarrow> \<not> is_cjk r) \<Longrightarrow> estimate_tokens msg = int (length msg div 4)"
  by (auto simp: estimate_tokens_def Let_def filter_empty_conv)

lemma estimate_tokens_bounds:
  "int (length msg div 4) \<le> estimate_tokens msg \<and> estimate_tokens msg \<le> int (length msg)"
proof -
  let ?c = "length (filter is_cjk msg)"
  have "?c \<le> length msg" by simp
  then have "?c + (length msg - ?c) div 4 \<le> length msg" "length msg div 4 \<le> ?c + (length msg - ?c) div 4"
    by linarith+
  then show ?thesis by (simp add: estimate_tokens_def Let_def)
qed

lemmas has_attachments_eval =
  has_attachments_def media_markers_def media_exts_def rune_contains_def lower_rune_def runes_of_def
  code_def

lemma count_fences_none: "96 \<notin> set s \<Longrightarrow> count_fences s = 0"
  by (induction s rule: count_fences.induct) auto

section \<open>Properties\<close>

text \<open>
  C39 With the default threshold the light model is chosen exactly for the messages that are not
  heavy: no attachment, no code block, at most 200 tokens, and not two of the weaker signals that
  together reach the threshold; the sums are those of \<open>float64\<close> arithmetic.
\<close>

theorem default_router_light:
  assumes "rcf_Threshold cfg \<le> 0"
  shows "fst (snd (select_model (new_router cfg) msg h m)) = (\<not> heavy (extract_features msg h))
    \<and> fst (select_model (new_router cfg) msg h m) =
        (if heavy (extract_features msg h) then m else rcf_LightModel cfg)"
  using assms rule_score_heavy [of "extract_features msg h"]
  by (simp add: new_router_def select_model_def new_with_classifier_def Let_def)

theorem default_router_light_witness:
  "fst (select_model (new_router \<lparr>rcf_LightModel = ''mini'', rcf_Threshold = 0\<rparr>) (runes_of ''hi'')
     ([] :: nat message list) ''big'') = ''mini''"
proof -
  have "\<not> heavy (extract_features (runes_of ''hi'') ([] :: nat message list))"
    by (simp add: heavy_def extract_features_def has_attachments_eval estimate_tokens_def
        is_cjk_def count_code_blocks_def count_recent_tool_calls_def)
  with default_router_light [of "\<lparr>rcf_LightModel = ''mini'', rcf_Threshold = 0\<rparr>" "runes_of ''hi''" "[] :: nat message list" "''big''"]
  show ?thesis by simp
qed

text \<open>
  Whatever the message and the threshold, the score that is reported lies between 0 and 1, and
  a message with an attachment scores 1, so that it goes to the primary model for every
  threshold up to 1.
\<close>

theorem select_model_score:
  "0 \<le> snd (snd (select_model (new_router cfg) msg h m)) \<and>
   snd (snd (select_model (new_router cfg) msg h m)) \<le> 1 \<and>
   (has_attachments msg \<and> rcf_Threshold cfg \<le> 1 \<longrightarrow> select_model (new_router cfg) msg h m = (m, False, 1))"
  using rules.select_score [of cfg msg h m] rules.select_attachment [of msg cfg h m]
  by (simp add: new_router_def default_threshold_value)

theorem select_model_score_witness:
  "select_model (new_router \<lparr>rcf_LightModel = ''mini'', rcf_Threshold = 1\<rparr>) (runes_of ''see A.PNG'')
     ([] :: nat message list) ''big'' = (''big'', False, 1)"
proof -
  have "has_attachments (runes_of ''see A.PNG'')" by (simp add: has_attachments_eval)
  with select_model_score [of "\<lparr>rcf_LightModel = ''mini'', rcf_Threshold = 1\<rparr>" "runes_of ''see A.PNG''" "[] :: nat message list" "''big''"]
  show ?thesis by simp
qed

text \<open>
  A text without CJK runes passes the mark of 200 tokens only from 804 runes on (a comment
  puts it near 600): shorter ones with no code block, no attachment and no recent tool call go to
  the light model by default, whatever the length of the conversation.
\<close>

theorem latin_text_light:
  assumes "\<And>r. r \<in> set msg \<Longrightarrow> \<not> is_cjk r" "length msg < 804" "rcf_Threshold cfg \<le> 0"
    "count_code_blocks msg = 0" "\<not> has_attachments msg" "count_recent_tool_calls h = 0"
  shows "fst (select_model (new_router cfg) msg h m) = rcf_LightModel cfg"
proof -
  have "ft_TokenEstimate (extract_features msg h) \<le> 200"
    using assms(1,2) estimate_tokens_latin [of msg] by (simp add: extract_features_def)
  with assms(4-6) have "\<not> heavy (extract_features msg h)" by (simp add: heavy_def extract_features_def)
  with assms(3) rule_score_heavy [of "extract_features msg h"] show ?thesis
    by (simp add: new_router_def select_model_def new_with_classifier_def Let_def)
qed

theorem latin_text_light_witness:
  "fst (select_model (new_router \<lparr>rcf_LightModel = ''mini'', rcf_Threshold = 0\<rparr>)
     (replicate 700 97) ([] :: nat message list) ''big'') = ''mini''"
proof -
  have na: "\<not> has_attachments (replicate 700 97)"
  proof -
    have *: "rune_contains s w = False" if "set s \<subseteq> {97}" "length w > 1" "w ! 0 \<noteq> 97" for s w
    proof -
      have "take (length w) t \<noteq> w" if "t \<in> set (suffixes s)" for t
      proof
        assume e: "take (length w) t = w"
        from that have "set t \<subseteq> set s" by (auto simp: suffix_def)
        moreover have "w ! 0 \<in> set t"
          using e \<open>length w > 1\<close> by (metis in_set_takeD nth_mem less_trans zero_less_one)
        ultimately show False using \<open>set s \<subseteq> {97}\<close> \<open>w ! 0 \<noteq> 97\<close> by blast
      qed
      then show ?thesis by (auto simp: rune_contains_def list_ex_iff)
    qed
    have "list_all (\<lambda>w. length (runes_of w) > 1 \<and> runes_of w ! 0 \<noteq> 97) (media_markers @ media_exts)"
      by code_simp
    moreover have "set (map lower_rune (replicate 700 97)) \<subseteq> {97}" by (auto simp: lower_rune_def)
    ultimately show ?thesis using * by (auto simp: has_attachments_def Let_def list_ex_iff list_all_iff)
  qed
  show ?thesis
    using latin_text_light [of "replicate 700 97" "\<lparr>rcf_LightModel = ''mini'', rcf_Threshold = 0\<rparr>" "[] :: nat message list" "''big''"]
      na count_fences_none [of "replicate 700 97"]
    by (simp add: is_cjk_def count_code_blocks_def count_recent_tool_calls_def)
qed

end
