(* ===== verification/Message_Bus.thy ===== *)
theory Message_Bus imports Prelude begin

text \<open>
  The message bus: \<open>pkg/bus/bus.go\<close>. The bus has three bounded channels, one per topic, the
  channel \<open>done\<close> and the atomic flag \<open>closed\<close>. Its operations run concurrently, so each of them is
  a thread with a program counter, and one atomic action of the code (a load, a compare-and-swap,
  a close, one case of a \<open>select\<close>) is one step. A \<open>select\<close> may take any ready case: a thread has a
  list of possible steps, none when it is blocked. The messages are a parameter \<open>'m\<close>.
\<close>

section \<open>Model\<close>

datatype topic = Inbound | Outbound | OutboundMedia

datatype bus_error = ErrBusClosed | CtxErr

record 'm message_bus =
  mb_queue :: "topic \<Rightarrow> 'm list"
  mb_done :: bool
  mb_closed :: bool

definition default_bus_buffer_size :: nat where
  "default_bus_buffer_size = 64"

definition new_message_bus :: "'m message_bus" where
  "new_message_bus = \<lparr>mb_queue = (\<lambda>_. []), mb_done = False, mb_closed = False\<rparr>"

text \<open>
  A thread of each operation. \<open>Pub\<close> stands for the three publish methods, \<open>Con\<close> for
  \<open>ConsumeInbound\<close> and the two subscribe methods, \<open>Cl\<close> for \<open>Close\<close>, whose result is the number of
  drained messages, if it was the call that closed the bus. Closing \<open>done\<close> twice would panic.
\<close>

datatype 'm thread =
  PubStart topic 'm | PubCtx topic 'm | PubSelect topic 'm | PubRet topic 'm "bus_error option"
| ConSelect topic | ConRet topic "'m option"
| ClStart | ClClose | ClDrain topic nat | ClRet "nat option"
| Panicked

datatype 'm event = Sent topic 'm | Received topic 'm | Drained topic 'm | Silent

abbreviation enqueue :: "topic \<Rightarrow> 'm \<Rightarrow> 'm message_bus \<Rightarrow> 'm message_bus" where
  "enqueue t m b \<equiv> b\<lparr>mb_queue := (mb_queue b)(t := mb_queue b t @ [m])\<rparr>"

abbreviation dequeue :: "topic \<Rightarrow> 'm message_bus \<Rightarrow> 'm message_bus" where
  "dequeue t b \<equiv> b\<lparr>mb_queue := (mb_queue b)(t := tl (mb_queue b t))\<rparr>"

definition publish_select ::
  "'m message_bus \<Rightarrow> bool \<Rightarrow> topic \<Rightarrow> 'm \<Rightarrow> ('m message_bus \<times> 'm thread \<times> 'm event) list" where
  "publish_select b canceled t m =
     (if length (mb_queue b t) < default_bus_buffer_size
      then [(enqueue t m b, PubRet t m None, Sent t m)] else []) @
     (if mb_done b then [(b, PubRet t m (Some ErrBusClosed), Silent)] else []) @
     (if canceled then [(b, PubRet t m (Some CtxErr), Silent)] else [])"

definition consume_select ::
  "'m message_bus \<Rightarrow> bool \<Rightarrow> topic \<Rightarrow> ('m message_bus \<times> 'm thread \<times> 'm event) list" where
  "consume_select b canceled t =
     (case mb_queue b t of
        [] \<Rightarrow> []
      | m # _ \<Rightarrow> [(dequeue t b, ConRet t (Some m), Received t m)]) @
     (if mb_done b then [(b, ConRet t None, Silent)] else []) @
     (if canceled then [(b, ConRet t None, Silent)] else [])"

text \<open>The drain loops: all of \<open>inbound\<close>, then \<open>outbound\<close>, then \<open>outboundMedia\<close>.\<close>

fun after_drain :: "topic \<Rightarrow> nat \<Rightarrow> 'm thread" where
  "after_drain Inbound n = ClDrain Outbound n"
| "after_drain Outbound n = ClDrain OutboundMedia n"
| "after_drain OutboundMedia n = ClRet (Some n)"

definition drain_step ::
  "'m message_bus \<Rightarrow> topic \<Rightarrow> nat \<Rightarrow> 'm message_bus \<times> 'm thread \<times> 'm event" where
  "drain_step b t n =
     (case mb_queue b t of
        [] \<Rightarrow> (b, after_drain t n, Silent)
      | m # _ \<Rightarrow> (dequeue t b, ClDrain t (n + 1), Drained t m))"

fun thread_step ::
  "'m message_bus \<Rightarrow> bool \<Rightarrow> 'm thread \<Rightarrow> ('m message_bus \<times> 'm thread \<times> 'm event) list" where
  "thread_step b canceled (PubStart t m) =
     [(b, if mb_closed b then PubRet t m (Some ErrBusClosed) else PubCtx t m, Silent)]"
| "thread_step b canceled (PubCtx t m) =
     [(b, if canceled then PubRet t m (Some CtxErr) else PubSelect t m, Silent)]"
| "thread_step b canceled (PubSelect t m) = publish_select b canceled t m"
| "thread_step b canceled (ConSelect t) = consume_select b canceled t"
| "thread_step b canceled ClStart =
     [if mb_closed b then (b, ClRet None, Silent) else (b\<lparr>mb_closed := True\<rparr>, ClClose, Silent)]"
| "thread_step b canceled ClClose =
     [if mb_done b then (b, Panicked, Silent) else (b\<lparr>mb_done := True\<rparr>, ClDrain Inbound 0, Silent)]"
| "thread_step b canceled (ClDrain t n) = [drain_step b t n]"
| "thread_step b canceled (PubRet t m r) = []"
| "thread_step b canceled (ConRet t r) = []"
| "thread_step b canceled (ClRet r) = []"
| "thread_step b canceled Panicked = []"

text \<open>
  The system: the bus, the threads in flight, which of their contexts are cancelled, and the log
  of the channel operations so far, each with its thread.
\<close>

record 'm bus_system =
  sys_bus :: "'m message_bus"
  sys_threads :: "'m thread list"
  sys_canceled :: "nat \<Rightarrow> bool"
  sys_log :: "(nat \<times> 'm event) list"

fun starting :: "'m thread \<Rightarrow> bool" where
  "starting (PubStart t m) = True"
| "starting (ConSelect t) = True"
| "starting ClStart = True"
| "starting _ = False"

definition init_system :: "'m thread list \<Rightarrow> 'm bus_system" where
  "init_system ths = \<lparr>sys_bus = new_message_bus, sys_threads = ths, sys_canceled = (\<lambda>_. False), sys_log = []\<rparr>"

definition apply_step ::
  "'m bus_system \<Rightarrow> nat \<Rightarrow> 'm message_bus \<times> 'm thread \<times> 'm event \<Rightarrow> 'm bus_system" where
  "apply_step s i r =
     s\<lparr>sys_bus := fst r, sys_threads := (sys_threads s)[i := fst (snd r)],
       sys_log := sys_log s @ [(i, snd (snd r))]\<rparr>"

inductive bus_step :: "'m bus_system \<Rightarrow> 'm bus_system \<Rightarrow> bool" where
  act: "i < length (sys_threads s) \<Longrightarrow>
          r \<in> set (thread_step (sys_bus s) (sys_canceled s i) (sys_threads s ! i)) \<Longrightarrow>
          bus_step s (apply_step s i r)"
| cancel: "bus_step s (s\<lparr>sys_canceled := (sys_canceled s)(i := True)\<rparr>)"

inductive reachable :: "'m bus_system \<Rightarrow> bool" where
  init: "list_all starting ths \<Longrightarrow> reachable (init_system ths)"
| step: "reachable s \<Longrightarrow> bus_step s s' \<Longrightarrow> reachable s'"

inductive_cases bus_stepE: "bus_step s s'"

text \<open>A schedule names a thread and the index of one of its possible steps.\<close>

fun run_schedule :: "(nat \<times> nat) list \<Rightarrow> 'm bus_system \<Rightarrow> 'm bus_system option" where
  "run_schedule [] s = Some s"
| "run_schedule ((i, k) # sched) s =
     (if i < length (sys_threads s) then
        let rs = thread_step (sys_bus s) (sys_canceled s i) (sys_threads s ! i) in
        if k < length rs then run_schedule sched (apply_step s i (rs ! k)) else None
      else None)"

lemma run_schedule_reachable:
  "reachable s \<Longrightarrow> run_schedule sched s = Some s' \<Longrightarrow> reachable s'"
proof (induction sched arbitrary: s)
  case (Cons x sched)
  obtain i k where x: "x = (i, k)" by (cases x)
  with Cons.prems(2) have run: "i < length (sys_threads s)"
      "k < length (thread_step (sys_bus s) (sys_canceled s i) (sys_threads s ! i))"
      "run_schedule sched (apply_step s i (thread_step (sys_bus s) (sys_canceled s i) (sys_threads s ! i) ! k)) = Some s'"
    by (auto simp: Let_def split: if_splits)
  with Cons.prems(1) have "reachable (apply_step s i (thread_step (sys_bus s) (sys_canceled s i) (sys_threads s ! i) ! k))"
    by (meson act nth_mem reachable.step)
  with Cons.IH run(3) show ?case by blast
qed simp

section \<open>The channels\<close>

fun sent :: "topic \<Rightarrow> (nat \<times> 'm event) list \<Rightarrow> 'm list" where
  "sent t [] = []"
| "sent t ((i, Sent u m) # l) = (if u = t then m # sent t l else sent t l)"
| "sent t (_ # l) = sent t l"

fun taken :: "topic \<Rightarrow> (nat \<times> 'm event) list \<Rightarrow> 'm list" where
  "taken t [] = []"
| "taken t ((i, Received u m) # l) = (if u = t then m # taken t l else taken t l)"
| "taken t ((i, Drained u m) # l) = (if u = t then m # taken t l else taken t l)"
| "taken t (_ # l) = taken t l"

lemma sent_append [simp]: "sent t (l @ l') = sent t l @ sent t l'"
  by (induction t l rule: sent.induct) simp_all

lemma taken_append [simp]: "taken t (l @ l') = taken t l @ taken t l'"
  by (induction t l rule: taken.induct) simp_all

definition fifo :: "'m bus_system \<Rightarrow> bool" where
  "fifo s \<longleftrightarrow> (\<forall>t. sent t (sys_log s) = taken t (sys_log s) @ mb_queue (sys_bus s) t
                \<and> length (mb_queue (sys_bus s) t) \<le> default_bus_buffer_size)"

text \<open>What one step of a thread does to the queues.\<close>

lemma thread_step_queue:
  assumes "(b', th', ev) \<in> set (thread_step b c th)"
  shows "sent t [(i, ev)] = [] \<and> mb_queue b t = taken t [(i, ev)] @ mb_queue b' t
    \<or> taken t [(i, ev)] = [] \<and> mb_queue b' t = mb_queue b t @ sent t [(i, ev)]
      \<and> length (mb_queue b' t) \<le> default_bus_buffer_size"
  using assms
  by (cases th) (auto simp: publish_select_def consume_select_def drain_step_def
      split: if_splits list.splits dest!: sym [where s = "x # xs" for x xs])

lemma fifo_step: "fifo s \<Longrightarrow> bus_step s s' \<Longrightarrow> fifo s'"
proof (erule bus_stepE)
  fix i r
  assume f: "fifo s" and s': "s' = apply_step s i r"
    and r: "r \<in> set (thread_step (sys_bus s) (sys_canceled s i) (sys_threads s ! i))"
  obtain b' th' ev where rr: "r = (b', th', ev)" by (cases r)
  note q = thread_step_queue [OF r [unfolded rr], of _ i]
  show "fifo s'"
    unfolding fifo_def
  proof
    fix t
    from f have "sent t (sys_log s) = taken t (sys_log s) @ mb_queue (sys_bus s) t"
      "length (mb_queue (sys_bus s) t) \<le> default_bus_buffer_size" by (auto simp: fifo_def)
    with q [of t] show "sent t (sys_log s') = taken t (sys_log s') @ mb_queue (sys_bus s') t
        \<and> length (mb_queue (sys_bus s') t) \<le> default_bus_buffer_size"
      by (auto simp: s' rr apply_step_def simp del: sent.simps taken.simps)
  qed
qed (auto simp: fifo_def)

lemma fifo_reachable: "reachable s \<Longrightarrow> fifo s"
proof (induction rule: reachable.induct)
  case (init ths)
  then show ?case by (simp add: fifo_def init_system_def new_message_bus_def)
next
  case (step s s')
  then show ?case using fifo_step by blast
qed

section \<open>Closing\<close>

fun closer :: "'m thread \<Rightarrow> bool" where
  "closer ClClose = True"
| "closer (ClDrain t n) = True"
| "closer (ClRet (Some n)) = True"
| "closer _ = False"

lemma starting_facts: "starting th \<Longrightarrow> th \<noteq> Panicked \<and> th \<noteq> ClClose \<and> \<not> closer th"
  by (cases th) auto

text \<open>At most one call of \<open>Close\<close> gets past the compare-and-swap, and none ever panics.\<close>

definition closing_ok :: "'m bus_system \<Rightarrow> bool" where
  "closing_ok s \<longleftrightarrow>
     (mb_done (sys_bus s) \<longrightarrow> mb_closed (sys_bus s)) \<and>
     (\<forall>i < length (sys_threads s).
        sys_threads s ! i \<noteq> Panicked \<and>
        (sys_threads s ! i = ClClose \<longrightarrow> \<not> mb_done (sys_bus s)) \<and>
        (closer (sys_threads s ! i) \<longrightarrow> mb_closed (sys_bus s) \<and>
           (\<forall>j < length (sys_threads s). closer (sys_threads s ! j) \<longrightarrow> j = i)))"

lemma thread_step_closing:
  assumes "(b', th', ev) \<in> set (thread_step b c th)" "th = ClClose \<longrightarrow> \<not> mb_done b"
    "mb_done b \<longrightarrow> mb_closed b" "th = ClClose \<longrightarrow> mb_closed b"
  shows "th' \<noteq> Panicked" "th' = ClClose \<longrightarrow> \<not> mb_done b'" "mb_done b' \<longrightarrow> mb_closed b'"
    "closer th' \<longrightarrow> closer th \<or> \<not> mb_closed b" "mb_closed b \<longrightarrow> mb_closed b'"
    "mb_done b' \<longrightarrow> mb_done b \<or> th = ClClose"
    "closer th' \<longrightarrow> mb_closed b' \<or> closer th"
  using assms
  by (cases th; auto simp: publish_select_def consume_select_def drain_step_def
      split: if_splits list.splits elim: after_drain.elims)+

lemma closing_step:
  assumes ok: "closing_ok s" and "bus_step s s'" shows "closing_ok s'"
  using assms(2)
proof (cases rule: bus_step.cases)
  case (act i r)
  obtain b' th' ev where rr: "r = (b', th', ev)" by (cases r)
  let ?th = "sys_threads s ! i" and ?b = "sys_bus s"
  from ok act(2) have pre: "?th = ClClose \<longrightarrow> \<not> mb_done ?b" "mb_done ?b \<longrightarrow> mb_closed ?b"
      "?th = ClClose \<longrightarrow> mb_closed ?b"
    by (auto simp: closing_ok_def)
  note st = thread_step_closing [OF act(3) [unfolded rr] pre]
  let ?n = "length (sys_threads s)"
  from ok have np: "\<And>k. k < ?n \<Longrightarrow> sys_threads s ! k \<noteq> Panicked"
    and nd: "\<And>k. k < ?n \<Longrightarrow> sys_threads s ! k = ClClose \<Longrightarrow> \<not> mb_done ?b"
    and cl: "\<And>k. k < ?n \<Longrightarrow> closer (sys_threads s ! k) \<Longrightarrow> mb_closed ?b"
    and one: "\<And>k l. k < ?n \<Longrightarrow> l < ?n \<Longrightarrow> closer (sys_threads s ! k) \<Longrightarrow> closer (sys_threads s ! l) \<Longrightarrow> l = k"
    unfolding closing_ok_def by blast+
  have nth: "(sys_threads s)[i := th'] ! k = (if k = i then th' else sys_threads s ! k)" for k
    using act(2) by (simp add: nth_list_update)
  have s': "sys_bus s' = b'" "sys_threads s' = (sys_threads s)[i := th']"
    by (simp_all add: act(1) rr apply_step_def)
  show ?thesis
    unfolding closing_ok_def s' length_list_update nth
  proof (intro conjI allI impI)
    fix j assume j: "j < ?n"
    show "(if j = i then th' else sys_threads s ! j) \<noteq> Panicked"
      using np [OF j] st(1) by simp
    show "\<not> mb_done b'" if "(if j = i then th' else sys_threads s ! j) = ClClose"
    proof (cases "j = i")
      case True
      with that st(2) show ?thesis by simp
    next
      case False
      with that have "sys_threads s ! j = ClClose" by simp
      with one [OF act(2) j] False nd [OF j] st(6) show ?thesis by (metis closer.simps(1))
    qed
    show "mb_closed b'" if "closer (if j = i then th' else sys_threads s ! j)"
    proof (cases "j = i")
      case True
      with that st(5,7) cl [OF act(2)] show ?thesis by (metis (full_types))
    next
      case False
      with that cl [OF j] st(5) show ?thesis by simp
    qed
    show "k = j" if "closer (if j = i then th' else sys_threads s ! j)" "k < ?n"
        "closer (if k = i then th' else sys_threads s ! k)" for k
    proof -
      have old: "closer (sys_threads s ! i)" if "closer th'" "l < ?n" "closer (sys_threads s ! l)" for l
        using that st(4) cl by blast
      with that j one act(2) show ?thesis by (metis (full_types))
    qed
  qed (use st(3) in blast)
next
  case (cancel i)
  with ok show ?thesis by (simp add: closing_ok_def)
qed

lemma closing_reachable: "reachable s \<Longrightarrow> closing_ok s"
proof (induction rule: reachable.induct)
  case (init ths)
  then show ?case
    by (auto simp: closing_ok_def init_system_def new_message_bus_def list_all_length dest: starting_facts)
next
  case (step s s')
  then show ?case using closing_step by blast
qed

section \<open>Acknowledgements\<close>

text \<open>A publish has returned \<open>nil\<close> exactly when its message is in the log, and it is there once.\<close>

fun is_sent :: "nat \<times> 'm event \<Rightarrow> bool" where
  "is_sent (i, Sent t m) = True"
| "is_sent _ = False"

definition acked :: "'m bus_system \<Rightarrow> bool" where
  "acked s \<longleftrightarrow>
     distinct (map fst (filter is_sent (sys_log s))) \<and>
     (\<forall>i t m. (i, Sent t m) \<in> set (sys_log s) \<longleftrightarrow>
        i < length (sys_threads s) \<and> sys_threads s ! i = PubRet t m None)"

lemma thread_step_acked:
  assumes "(b', th', ev) \<in> set (thread_step b c th)"
  shows "ev = Sent t m \<longleftrightarrow> th' = PubRet t m None" "th \<noteq> PubRet t m None"
  using assms
  by (cases th; auto simp: publish_select_def consume_select_def drain_step_def
      split: if_splits list.splits elim: after_drain.elims)+

lemma is_sentE: "is_sent x \<Longrightarrow> (\<And>i t m. x = (i, Sent t m) \<Longrightarrow> P) \<Longrightarrow> P"
  by (cases x rule: is_sent.cases) auto

lemma acked_step:
  assumes ok: "acked s" and "bus_step s s'" shows "acked s'"
  using assms(2)
proof (cases rule: bus_step.cases)
  case (act i r)
  obtain b' th' ev where rr: "r = (b', th', ev)" by (cases r)
  note st = thread_step_acked [OF act(3) [unfolded rr]]
  have s': "sys_log s' = sys_log s @ [(i, ev)]" "sys_threads s' = (sys_threads s)[i := th']"
    by (simp_all add: act(1) rr apply_step_def)
  have new: "(i, Sent t m) \<notin> set (sys_log s)" for t m
    using ok st(2) by (auto simp: acked_def)
  then have "i \<notin> fst ` set (filter is_sent (sys_log s))"
    by (auto elim!: is_sentE)
  with ok have "distinct (map fst (filter is_sent (sys_log s')))"
    by (auto simp: acked_def s')
  moreover have "(j, Sent t m) \<in> set (sys_log s') \<longleftrightarrow>
      j < length (sys_threads s') \<and> sys_threads s' ! j = PubRet t m None" for j t m
    using ok new st(1) [of t m] act(2) by (cases "j = i") (auto simp: acked_def s' nth_list_update)
  ultimately show ?thesis unfolding acked_def by blast
next
  case (cancel i)
  with ok show ?thesis by (simp add: acked_def)
qed

lemma acked_reachable: "reachable s \<Longrightarrow> acked s"
proof (induction rule: reachable.induct)
  case (init ths)
  then have "starting (ths ! i)" if "i < length ths" for i using that by (simp add: list_all_length)
  then show ?case by (fastforce simp: acked_def init_system_def)
next
  case (step s s')
  then show ?case using acked_step by blast
qed

lemma sent_once:
  "distinct (map fst (filter is_sent l)) \<Longrightarrow> (i, Sent t m) \<in> set l \<Longrightarrow>
     length (filter (\<lambda>x. is_sent x \<and> fst x = i) l) = 1"
proof (induction l)
  case (Cons x l)
  show ?case
  proof (cases "is_sent x \<and> fst x = i")
    case True
    with Cons.prems(1) have "i \<notin> fst ` set (filter is_sent l)" by auto
    then have "filter (\<lambda>x. is_sent x \<and> fst x = i) l = []" by (auto simp: filter_empty_conv image_iff)
    with True show ?thesis by simp
  next
    case False
    with Cons.prems(2) have "(i, Sent t m) \<in> set l" by auto
    moreover have "distinct (map fst (filter is_sent l))"
      using Cons.prems(1) by (cases "is_sent x") auto
    ultimately show ?thesis using Cons.IH False by auto
  qed
qed simp

section \<open>Properties\<close>



text \<open>
  A publish that returns without error has put its message on the channel exactly once, and a
  publish that returns an error has not put it there at all.
\<close>

theorem publish_result:
  assumes "reachable s" "i < length (sys_threads s)" "sys_threads s ! i = PubRet t m r"
  shows "length (filter (\<lambda>x. is_sent x \<and> fst x = i) (sys_log s)) = (if r = None then 1 else 0) \<and>
    (r = None \<longrightarrow> (i, Sent t m) \<in> set (sys_log s))"
proof -
  have ok: "acked s" using acked_reachable [OF assms(1)] .
  then have mem: "\<And>u n. (i, Sent u n) \<in> set (sys_log s) \<longleftrightarrow> PubRet t m r = PubRet u n None"
    using assms(2,3) by (simp add: acked_def)
  have d: "distinct (map fst (filter is_sent (sys_log s)))" using ok by (simp add: acked_def)
  note count = sent_once
  show ?thesis
  proof (cases r)
    case None
    with mem count [OF d] show ?thesis by simp
  next
    case (Some e)
    with mem have "filter (\<lambda>x. is_sent x \<and> fst x = i) (sys_log s) = []"
      by (auto simp: filter_empty_conv elim!: is_sentE)
    with Some show ?thesis by simp
  qed
qed

theorem publish_result_witness:
  "\<exists>s. run_schedule [(0, 0), (1, 0)] (init_system [ClStart, PubStart Inbound (7::nat)]) = Some s \<and>
     length (filter (\<lambda>x. is_sent x \<and> fst x = 1) (sys_log s)) = 0"
proof -
  have r: "reachable (init_system [ClStart, PubStart Inbound (7::nat)])" by (rule reachable.init) simp
  have "\<exists>s. run_schedule [(0, 0), (1, 0)] (init_system [ClStart, PubStart Inbound (7::nat)]) = Some s
      \<and> 1 < length (sys_threads s) \<and> sys_threads s ! 1 = PubRet Inbound 7 (Some ErrBusClosed)"
    by (simp add: Let_def init_system_def new_message_bus_def apply_step_def)
  then obtain s where s: "run_schedule [(0, 0), (1, 0)] (init_system [ClStart, PubStart Inbound (7::nat)]) = Some s"
      and t: "1 < length (sys_threads s)" "sys_threads s ! 1 = PubRet Inbound 7 (Some ErrBusClosed)"
    by blast
  from publish_result [OF run_schedule_reachable [OF r s] t] s show ?thesis by auto
qed

text \<open>
  C30 Closing is safe under every interleaving of any number of calls: \<open>done\<close> is closed at most
  once, so no thread panics, only one call of \<open>Close\<close> drains the channels, and once \<open>done\<close> is
  closed no thread is blocked: every operation that has not returned can take a step.
\<close>

theorem close_safe:
  assumes "reachable s" "i < length (sys_threads s)"
  shows "sys_threads s ! i \<noteq> Panicked \<and>
    (closer (sys_threads s ! i) \<longrightarrow> mb_closed (sys_bus s) \<and>
       (\<forall>j < length (sys_threads s). closer (sys_threads s ! j) \<longrightarrow> j = i)) \<and>
    (mb_done (sys_bus s) \<and> thread_step (sys_bus s) (sys_canceled s i) (sys_threads s ! i) = [] \<longrightarrow>
       (\<exists>t m r. sys_threads s ! i = PubRet t m r) \<or> (\<exists>t r. sys_threads s ! i = ConRet t r) \<or>
       (\<exists>r. sys_threads s ! i = ClRet r))"
proof -
  have ok: "closing_ok s" using closing_reachable [OF assms(1)] .
  then have "sys_threads s ! i \<noteq> Panicked" using assms(2) by (simp add: closing_ok_def)
  moreover from this have "mb_done (sys_bus s) \<and>
       thread_step (sys_bus s) (sys_canceled s i) (sys_threads s ! i) = [] \<longrightarrow>
       (\<exists>t m r. sys_threads s ! i = PubRet t m r) \<or> (\<exists>t r. sys_threads s ! i = ConRet t r) \<or>
       (\<exists>r. sys_threads s ! i = ClRet r)"
    by (cases "sys_threads s ! i") (auto simp: publish_select_def consume_select_def)
  moreover have "closer (sys_threads s ! i) \<longrightarrow> mb_closed (sys_bus s) \<and>
       (\<forall>j < length (sys_threads s). closer (sys_threads s ! j) \<longrightarrow> j = i)"
    using ok assms(2) by (auto simp: closing_ok_def)
  ultimately show ?thesis by blast
qed

theorem close_safe_witness:
  "\<exists>s. run_schedule [(0, 0), (1, 0), (0, 0)] (init_system [ClStart, ClStart :: nat thread]) = Some s \<and>
     sys_threads s ! 1 \<noteq> Panicked"
proof -
  have r: "reachable (init_system [ClStart, ClStart :: nat thread])" by (rule reachable.init) simp
  have "\<exists>s. run_schedule [(0, 0), (1, 0), (0, 0)] (init_system [ClStart, ClStart :: nat thread]) = Some s
      \<and> 1 < length (sys_threads s)"
    by (simp add: Let_def init_system_def new_message_bus_def apply_step_def)
  then obtain s where s: "run_schedule [(0, 0), (1, 0), (0, 0)] (init_system [ClStart, ClStart :: nat thread]) = Some s"
      "1 < length (sys_threads s)" by blast
  with close_safe [OF run_schedule_reachable [OF r s(1)] s(2)] show ?thesis by blast
qed

definition late_publish :: "nat bus_system option" where
  "late_publish = run_schedule
     [(0, 0), (0, 0), (1, 0), (1, 0), (1, 0), (1, 0), (1, 0), (0, 0)]
     (init_system [PubStart Outbound 7, ClStart])"

text \<open>
  C33 Draining does not reach every message: a publish that passed its check of the flag before
  \<open>Close\<close> can return without error after \<open>Close\<close> has drained the channels and returned, and its
  message stays behind, neither drained nor counted.
\<close>

theorem close_misses_message:
  "\<exists>s. late_publish = Some s \<and> reachable s \<and>
     sys_threads s = [PubRet Outbound 7 None, ClRet (Some 0)] \<and> mb_queue (sys_bus s) Outbound = [7]"
proof -
  have r: "reachable (init_system [PubStart Outbound (7::nat), ClStart])" by (rule reachable.init) simp
  have "\<exists>s. late_publish = Some s \<and> sys_threads s = [PubRet Outbound 7 None, ClRet (Some 0)] \<and>
      mb_queue (sys_bus s) Outbound = [7]"
    by (simp add: late_publish_def Let_def init_system_def new_message_bus_def apply_step_def
        publish_select_def drain_step_def default_bus_buffer_size_def)
  then show ?thesis using run_schedule_reachable [OF r] unfolding late_publish_def by blast
qed

end
