(* ===== verification/Split_Message.thy ===== *)
theory Split_Message imports Prelude begin

text \<open>
  Splitting long messages: \<open>SplitMessage\<close> of \<open>pkg/channels/split.go\<close>. A text is the list of its
  runes. The loop may run forever, so it takes fuel: \<open>None\<close> means that the fuel did not
  suffice. A slice expression out of range panics.
\<close>

section \<open>Model\<close>

type_synonym runes = "nat list"

definition is_ws :: "nat \<Rightarrow> bool" where
  "is_ws r \<longleftrightarrow> r = 32 \<or> r = 9 \<or> r = 10 \<or> r = 13"

text \<open>\<open>unicode.IsSpace\<close>.\<close>

definition is_space_rune :: "nat \<Rightarrow> bool" where
  "is_space_rune r \<longleftrightarrow>
     9 \<le> r \<and> r \<le> 13 \<or> r = 32 \<or> r = 0x85 \<or> r = 0xA0 \<or> r = 0x1680 \<or> 0x2000 \<le> r \<and> r \<le> 0x200A
     \<or> r = 0x2028 \<or> r = 0x2029 \<or> r = 0x202F \<or> r = 0x205F \<or> r = 0x3000"

lemma is_space_rune_code [code]:
  "is_space_rune r =
     (let i = int r in
      9 \<le> i \<and> i \<le> 13 \<or> i = 32 \<or> i = 0x85 \<or> i = 0xA0 \<or> i = 0x1680 \<or> 0x2000 \<le> i \<and> i \<le> 0x200A
      \<or> i = 0x2028 \<or> i = 0x2029 \<or> i = 0x202F \<or> i = 0x205F \<or> i = 0x3000)"
  by (auto simp: is_space_rune_def Let_def)

definition trim_right_ws :: "runes \<Rightarrow> runes" where
  "trim_right_ws rs = rev (dropWhile is_ws (rev rs))"

definition trim_space_runes :: "runes \<Rightarrow> runes" where
  "trim_space_runes rs = rev (dropWhile is_space_rune (rev (dropWhile is_space_rune rs)))"

abbreviation total :: "runes \<Rightarrow> int" where
  "total rs \<equiv> int (length rs)"

definition sub :: "runes \<Rightarrow> int \<Rightarrow> int \<Rightarrow> runes" where
  "sub rs a b = take (nat b - nat a) (drop (nat a) rs)"

definition slice :: "runes \<Rightarrow> int \<Rightarrow> int \<Rightarrow> runes option" where
  "slice rs a b = (if 0 \<le> a \<and> a \<le> b \<and> b \<le> total rs then Some (sub rs a b) else None)"

definition find_last_in_range :: "(nat \<Rightarrow> bool) \<Rightarrow> runes \<Rightarrow> int \<Rightarrow> int \<Rightarrow> int \<Rightarrow> int" where
  "find_last_in_range P rs start stop window =
     (case List.find (\<lambda>i. P (rs ! nat i)) (rev [max (stop - window) start..stop - 1]) of
        Some i \<Rightarrow> i | None \<Rightarrow> start - 1)"

definition find_last_newline_in_range :: "runes \<Rightarrow> int \<Rightarrow> int \<Rightarrow> int \<Rightarrow> int" where
  "find_last_newline_in_range = find_last_in_range (\<lambda>r. r = 10)"

definition find_last_space_in_range :: "runes \<Rightarrow> int \<Rightarrow> int \<Rightarrow> int \<Rightarrow> int" where
  "find_last_space_in_range = find_last_in_range (\<lambda>r. r = 32 \<or> r = 9)"

definition find_newline_from :: "runes \<Rightarrow> int \<Rightarrow> int" where
  "find_newline_from rs from =
     (case List.find (\<lambda>i. rs ! nat i = 10) [from..total rs - 1] of Some i \<Rightarrow> i | None \<Rightarrow> -1)"

definition fence_at :: "runes \<Rightarrow> int \<Rightarrow> int \<Rightarrow> bool" where
  "fence_at rs i stop \<longleftrightarrow>
     i + 2 < stop \<and> rs ! nat i = 96 \<and> rs ! nat (i + 1) = 96 \<and> rs ! nat (i + 2) = 96"

function unclosed_loop :: "runes \<Rightarrow> int \<Rightarrow> int \<Rightarrow> bool \<Rightarrow> int \<Rightarrow> int" where
  "unclosed_loop rs i stop in_block last_open =
     (if i < stop then
        if fence_at rs i stop
        then unclosed_loop rs (i + 3) stop (\<not> in_block) (if in_block then last_open else i)
        else unclosed_loop rs (i + 1) stop in_block last_open
      else if in_block then last_open else -1)"
  by pat_completeness auto
termination by (relation "measure (\<lambda>(rs, i, stop, b, l). nat (stop - i))") auto

declare unclosed_loop.simps [simp del]

definition find_last_unclosed_code_block :: "runes \<Rightarrow> int \<Rightarrow> int \<Rightarrow> int" where
  "find_last_unclosed_code_block rs start stop = unclosed_loop rs start stop False (-1)"

definition find_next_closing_code_block :: "runes \<Rightarrow> int \<Rightarrow> int \<Rightarrow> int" where
  "find_next_closing_code_block rs start stop =
     (case List.find (\<lambda>i. fence_at rs i stop) [start..stop - 1] of Some i \<Rightarrow> i + 3 | None \<Rightarrow> -1)"

definition effective_limit :: "int \<Rightarrow> int" where
  "effective_limit max_len =
     (let b0 = max (max_len div 10) 50;
          buffer = (if b0 > max_len div 2 then max_len div 2 else b0)
      in max (max_len - buffer) (max_len div 2))"

text \<open>The state of the loop: the runes, \<open>start\<close> and the messages so far.\<close>

type_synonym split_state = "runes \<times> int \<times> runes list"

datatype split_outcome = More split_state | Finished "runes list" | Panic

definition closing_fence :: runes where
  "closing_fence = [10, 96, 96, 96]"

text \<open>Close the block at \<open>split_at\<close>, and restart on the rest behind a copy of the header.\<close>

definition inner_split :: "split_state \<Rightarrow> int \<Rightarrow> runes \<Rightarrow> split_outcome" where
  "inner_split st split_at header =
     (case st of (rs, start, msgs) \<Rightarrow>
        (case slice rs start split_at of
           None \<Rightarrow> Panic
         | Some head \<Rightarrow>
             (case slice rs split_at (total rs) of
                None \<Rightarrow> Panic
              | Some rest \<Rightarrow>
                  More (trim_space_runes (header @ [10] @ rest), 0,
                        msgs @ [trim_right_ws head @ closing_fence]))))"

text \<open>The tail of the loop body: emit up to \<open>msg_end\<close> and skip white space.\<close>

definition plain_split :: "int \<Rightarrow> split_state \<Rightarrow> int \<Rightarrow> split_outcome" where
  "plain_split max_len st msg_end =
     (case st of (rs, start, msgs) \<Rightarrow>
        let e = (if msg_end \<le> start then start + effective_limit max_len else msg_end) in
        case slice rs start e of
          None \<Rightarrow> Panic
        | Some chunk \<Rightarrow>
            More (rs, e + int (length (takeWhile is_ws (drop (nat e) rs))), msgs @ [chunk]))"

definition natural_end :: "int \<Rightarrow> runes \<Rightarrow> int \<Rightarrow> int" where
  "natural_end max_len rs start =
     (let stop = start + effective_limit max_len;
          e1 = find_last_newline_in_range rs start stop 200;
          e2 = (if e1 \<le> start then find_last_space_in_range rs start stop 100 else e1)
      in if e2 \<le> start then stop else e2)"

definition fence_header :: "runes \<Rightarrow> int \<Rightarrow> runes" where
  "fence_header rs unclosed =
     (let header_end = find_newline_from rs unclosed in
      trim_space_runes
        (if header_end = -1 then sub rs unclosed (unclosed + 3) else sub rs unclosed header_end))"

definition fence_header_end :: "runes \<Rightarrow> int \<Rightarrow> int" where
  "fence_header_end rs unclosed =
     (let header_end = find_newline_from rs unclosed in
      if header_end \<noteq> -1 then header_end else unclosed + total (fence_header rs unclosed))"

text \<open>The block does not fit: split inside it, before it, or, as a last resort, inside.\<close>

definition fence_split :: "int \<Rightarrow> split_state \<Rightarrow> int \<Rightarrow> int \<Rightarrow> split_outcome" where
  "fence_split max_len st msg_end unclosed =
     (case st of (rs, start, msgs) \<Rightarrow>
        let header = fence_header rs unclosed;
            header_end = fence_header_end rs unclosed;
            inner_limit = min (start + max_len - 5) (total rs) in
        if msg_end > header_end + 20 then
          let better_end = find_last_newline_in_range rs start inner_limit 200
          in inner_split st (if better_end > header_end then better_end else inner_limit) header
        else
          let e1 = find_last_newline_in_range rs start unclosed 200;
              new_end = (if e1 \<le> start then find_last_space_in_range rs start unclosed 100 else e1) in
          if new_end > start then plain_split max_len st new_end
          else if unclosed - start > 20 then plain_split max_len st unclosed
          else inner_split st inner_limit header)"

definition split_step :: "int \<Rightarrow> split_state \<Rightarrow> split_outcome" where
  "split_step max_len st =
     (case st of (rs, start, msgs) \<Rightarrow>
        if \<not> start < total rs then Finished msgs
        else if total rs - start \<le> max_len then
          (case slice rs start (total rs) of None \<Rightarrow> Panic | Some c \<Rightarrow> Finished (msgs @ [c]))
        else
          let msg_end = natural_end max_len rs start;
              unclosed = find_last_unclosed_code_block rs start msg_end in
          if unclosed \<ge> 0 \<and> total rs > msg_end then
            let closing = find_next_closing_code_block rs msg_end (total rs) in
            if closing > 0 \<and> closing - start \<le> max_len then plain_split max_len st closing
            else fence_split max_len st msg_end unclosed
          else plain_split max_len st msg_end)"

fun split_loop :: "nat \<Rightarrow> int \<Rightarrow> split_state \<Rightarrow> split_outcome option" where
  "split_loop 0 max_len st = None"
| "split_loop (Suc n) max_len st =
     (case split_step max_len st of
        More st' \<Rightarrow> split_loop n max_len st'
      | out \<Rightarrow> Some out)"

definition split_message :: "nat \<Rightarrow> runes \<Rightarrow> int \<Rightarrow> split_outcome option" where
  "split_message fuel content max_len =
     (if max_len \<le> 0 then Some (Finished (if content = [] then [] else [content]))
      else split_loop fuel max_len (content, 0, []))"

section \<open>Searches\<close>

lemma find_last_in_range_bounds:
  "find_last_in_range P rs start stop w = start - 1 \<or>
   start \<le> find_last_in_range P rs start stop w \<and> find_last_in_range P rs start stop w < stop
     \<and> P (rs ! nat (find_last_in_range P rs start stop w))"
proof (cases "List.find (\<lambda>i. P (rs ! nat i)) (rev [max (stop - w) start..stop - 1])")
  case (Some i)
  from find_in_set [OF Some] have "i \<in> set [max (stop - w) start..stop - 1]" "P (rs ! nat i)" by auto
  with Some show ?thesis by (auto simp: find_last_in_range_def)
qed (simp add: find_last_in_range_def)

lemma find_last_upper:
  "start < stop \<Longrightarrow> find_last_newline_in_range rs start stop w < stop"
  "start < stop \<Longrightarrow> find_last_space_in_range rs start stop w < stop"
  using find_last_in_range_bounds [of "\<lambda>r. r = 10" rs start stop w]
    find_last_in_range_bounds [of "\<lambda>r. r = 32 \<or> r = 9" rs start stop w]
  by (auto simp: find_last_newline_in_range_def find_last_space_in_range_def)

lemma effective_limit_bounds:
  "0 < max_len \<Longrightarrow> 0 < effective_limit max_len \<and> effective_limit max_len \<le> max_len"
  by (auto simp: effective_limit_def Let_def)

lemma natural_end_bounds:
  assumes "0 < max_len"
  shows "start < natural_end max_len rs start \<and> natural_end max_len rs start \<le> start + max_len"
proof -
  let ?stop = "start + effective_limit max_len"
  have s: "start < ?stop" "?stop \<le> start + max_len" using effective_limit_bounds [OF assms] by auto
  with find_last_upper [OF s(1)] show ?thesis
    by (smt (verit) natural_end_def)
qed

lemma unclosed_loop_bounds:
  "last_open < stop \<Longrightarrow> unclosed_loop rs i stop b last_open < stop \<or> unclosed_loop rs i stop b last_open = -1"
proof (induction rs i stop b last_open rule: unclosed_loop.induct)
  case (1 rs i stop b last_open)
  then show ?case by (subst (1 2) unclosed_loop.simps) auto
qed

lemma find_unclosed_bounds:
  "0 \<le> find_last_unclosed_code_block rs start stop \<Longrightarrow> 0 \<le> stop \<Longrightarrow>
     find_last_unclosed_code_block rs start stop < stop"
  using unclosed_loop_bounds [of "-1" stop rs start False] by (auto simp: find_last_unclosed_code_block_def)

section \<open>Chunks\<close>

lemma slice_Some: "slice rs a b = Some c \<Longrightarrow> 0 \<le> a \<and> a \<le> b \<and> b \<le> total rs \<and> c = sub rs a b"
  by (auto simp: slice_def split: if_splits)

lemma slice_length: "slice rs a b = Some c \<Longrightarrow> int (length c) = b - a"
  by (auto simp: slice_def sub_def split: if_splits)

lemma length_trim_right_ws: "length (trim_right_ws rs) \<le> length rs"
  using length_dropWhile_le [of is_ws "rev rs"] by (simp add: trim_right_ws_def)

text \<open>An outcome adds at most one chunk, which respects the limit.\<close>

definition adds_chunk :: "int \<Rightarrow> runes list \<Rightarrow> split_outcome \<Rightarrow> bool" where
  "adds_chunk max_len msgs out \<longleftrightarrow>
     (case out of
        More (rs, start, msgs') \<Rightarrow> \<exists>c. msgs' = msgs @ [c] \<and> total c \<le> max_len
      | Finished msgs' \<Rightarrow> msgs' = msgs \<or> (\<exists>c. msgs' = msgs @ [c] \<and> total c \<le> max_len)
      | Panic \<Rightarrow> True)"

lemma plain_split_chunk:
  assumes "0 < max_len" "msg_end \<le> start + max_len"
  shows "adds_chunk max_len msgs (plain_split max_len (rs, start, msgs) msg_end)"
  using assms effective_limit_bounds [OF assms(1)]
  by (auto simp: plain_split_def adds_chunk_def Let_def dest!: slice_length split: option.splits)

lemma inner_split_chunk:
  assumes "split_at \<le> start + max_len - 5"
  shows "adds_chunk max_len msgs (inner_split (rs, start, msgs) split_at header)"
proof (cases "slice rs start split_at")
  case (Some head)
  with assms slice_length [OF Some] length_trim_right_ws [of head]
  show ?thesis by (auto simp: inner_split_def adds_chunk_def closing_fence_def split: option.splits)
qed (simp add: inner_split_def adds_chunk_def)

lemma fence_split_chunk:
  assumes "0 < max_len" "msg_end \<le> start + max_len" "unclosed < msg_end"
  shows "adds_chunk max_len msgs (fence_split max_len (rs, start, msgs) msg_end unclosed)"
proof -
  let ?lim = "min (start + max_len - 5) (total rs)"
  have better: "find_last_newline_in_range rs start ?lim 200 \<le> start + max_len - 5 \<or>
      find_last_newline_in_range rs start ?lim 200 = start - 1"
    using find_last_in_range_bounds [of "\<lambda>r. r = 10" rs start ?lim 200]
    by (auto simp: find_last_newline_in_range_def)
  have upper: "e \<le> start + max_len"
    if "e = start - 1 \<or> start \<le> e \<and> e < unclosed" for e
    using that assms by auto
  have nl: "find_last_newline_in_range rs start unclosed 200 \<le> start + max_len"
    using find_last_in_range_bounds [of "\<lambda>r. r = 10" rs start unclosed 200]
    by (intro upper) (auto simp: find_last_newline_in_range_def)
  have sp: "find_last_space_in_range rs start unclosed 100 \<le> start + max_len"
    using find_last_in_range_bounds [of "\<lambda>r. r = 32 \<or> r = 9" rs start unclosed 100]
    by (intro upper) (auto simp: find_last_space_in_range_def)
  have lim: "?lim \<le> start + max_len - 5" by simp
  have inner: "adds_chunk max_len msgs (inner_split (rs, start, msgs) e h)"
    if "e = ?lim \<or> e = find_last_newline_in_range rs start ?lim 200 \<and> start + max_len - 5 \<ge> e" for e h
    using that lim by (intro inner_split_chunk) auto
  have panic: "adds_chunk max_len msgs (inner_split (rs, start, msgs) (start - 1) h)" for h
    by (simp add: inner_split_def slice_def adds_chunk_def)
  have better_split: "adds_chunk max_len msgs
      (inner_split (rs, start, msgs) (find_last_newline_in_range rs start ?lim 200) h)" for h
    using better inner panic by metis
  have last_resort: "adds_chunk max_len msgs (inner_split (rs, start, msgs) ?lim h)" for h
    by (rule inner) simp
  have "adds_chunk max_len msgs (plain_split max_len (rs, start, msgs) e)" if "e \<le> start + max_len" for e
    using assms(1) that by (rule plain_split_chunk)
  with nl sp assms better_split last_resort show ?thesis
    unfolding fence_split_def Let_def by (simp only: prod.case split: if_split) simp
qed

lemma split_step_chunk:
  assumes "0 < max_len" "0 \<le> start"
  shows "adds_chunk max_len msgs (split_step max_len (rs, start, msgs))"
proof -
  let ?e = "natural_end max_len rs start"
  let ?u = "find_last_unclosed_code_block rs start ?e"
  note e = natural_end_bounds [OF assms(1), of start rs]
  have plain: "adds_chunk max_len msgs (plain_split max_len (rs, start, msgs) x)" if "x \<le> start + max_len" for x
    using assms(1) that by (rule plain_split_chunk)
  have fence: "adds_chunk max_len msgs (fence_split max_len (rs, start, msgs) ?e ?u)" if "0 \<le> ?u"
    using find_unclosed_bounds [OF that] e assms by (intro fence_split_chunk) auto
  have last: "adds_chunk max_len msgs (case slice rs start (total rs) of None \<Rightarrow> Panic | Some c \<Rightarrow> Finished (msgs @ [c]))"
    if "total rs - start \<le> max_len"
    using that by (auto simp: adds_chunk_def dest: slice_length split: option.splits)
  have stop: "adds_chunk max_len msgs (Finished msgs)" by (simp add: adds_chunk_def)
  show ?thesis
    unfolding split_step_def Let_def prod.case
    using plain [of ?e] plain fence last stop e by (simp split: if_split)
qed

lemma adds_chunkD:
  "adds_chunk max_len msgs (More (rs, start, msgs')) \<Longrightarrow> \<exists>c. msgs' = msgs @ [c] \<and> total c \<le> max_len"
  by (simp add: adds_chunk_def)

lemma plain_split_start:
  "plain_split max_len (rs, start, msgs) e = More (rs', start', msgs') \<Longrightarrow> 0 \<le> start'"
  by (auto simp: plain_split_def Let_def dest!: slice_Some split: option.splits)

lemma inner_split_start:
  "inner_split (rs, start, msgs) e h = More (rs', start', msgs') \<Longrightarrow> 0 \<le> start'"
  by (auto simp: inner_split_def split: option.splits)

lemma fence_split_start:
  "fence_split max_len (rs, start, msgs) e u = More (rs', start', msgs') \<Longrightarrow> 0 \<le> start'"
  unfolding fence_split_def Let_def prod.case
  by (auto dest: plain_split_start inner_split_start split: if_splits)

lemma split_step_start:
  "split_step max_len (rs, start, msgs) = More (rs', start', msgs') \<Longrightarrow> 0 \<le> start'"
  unfolding split_step_def Let_def prod.case
  by (auto dest: plain_split_start fence_split_start split: if_splits option.splits)

lemma split_loop_chunks:
  assumes "0 < max_len"
  shows "0 \<le> start \<Longrightarrow> \<forall>c\<in>set msgs. total c \<le> max_len \<Longrightarrow>
    split_loop n max_len (rs, start, msgs) = Some (Finished out) \<Longrightarrow> \<forall>c\<in>set out. total c \<le> max_len"
proof (induction n arbitrary: rs start msgs)
  case (Suc n)
  note a = split_step_chunk [OF assms Suc.prems(1), of msgs rs]
  show ?case
  proof (cases "split_step max_len (rs, start, msgs)")
    case (More st)
    obtain rs' start' msgs' where st: "st = (rs', start', msgs')" by (cases st)
    obtain c where "msgs' = msgs @ [c]" "total c \<le> max_len"
      using adds_chunkD [OF a [unfolded More st]] by blast
    with Suc.IH [OF split_step_start [OF More [unfolded st]], of "msgs @ [c]" rs'] Suc.prems(2,3) More st
    show ?thesis by simp
  next
    case (Finished out')
    with Suc.prems(2,3) a show ?thesis by (auto simp: adds_chunk_def)
  qed (use Suc.prems(3) in simp)
qed simp

section \<open>Texts without code fences\<close>

definition no_fence :: "runes \<Rightarrow> bool" where
  "no_fence rs \<longleftrightarrow> (\<forall>i. 0 \<le> i \<longrightarrow> \<not> fence_at rs i (total rs))"

abbreviation non_ws :: "runes \<Rightarrow> runes" where
  "non_ws \<equiv> filter (\<lambda>r. \<not> is_ws r)"

lemma unclosed_loop_none:
  "\<forall>j. i \<le> j \<longrightarrow> \<not> fence_at rs j stop \<Longrightarrow> unclosed_loop rs i stop b l = (if b then l else -1)"
proof (induction rs i stop b l rule: unclosed_loop.induct)
  case (1 rs i stop b l)
  then show ?case by (subst unclosed_loop.simps) auto
qed

lemma unclosed_none:
  assumes "no_fence rs" "0 \<le> start" "stop \<le> total rs"
  shows "find_last_unclosed_code_block rs start stop = -1"
proof -
  have "\<forall>j. start \<le> j \<longrightarrow> \<not> fence_at rs j stop"
    using assms by (fastforce simp: no_fence_def fence_at_def)
  from unclosed_loop_none [OF this] show ?thesis by (simp add: find_last_unclosed_code_block_def)
qed

lemma split_step_plain:
  assumes "no_fence rs" "0 < max_len" "0 \<le> start" "max_len < total rs - start"
  obtains c start' where "split_step max_len (rs, start, msgs) = More (rs, start', msgs @ [c])"
    "start < start'" "start' \<le> total rs"
    "non_ws (drop (nat start) rs) = non_ws c @ non_ws (drop (nat start') rs)"
proof -
  let ?e = "natural_end max_len rs start"
  let ?ws = "takeWhile is_ws (drop (nat ?e) rs)"
  note e = natural_end_bounds [OF assms(2), of start rs]
  with assms have u: "find_last_unclosed_code_block rs start ?e = -1" by (intro unclosed_none) auto
  from e assms have s: "slice rs start ?e = Some (sub rs start ?e)" by (simp add: slice_def)
  have step: "split_step max_len (rs, start, msgs) =
      More (rs, ?e + int (length ?ws), msgs @ [sub rs start ?e])"
    using assms(4) e assms(3) u by (simp add: split_step_def Let_def plain_split_def s)
  have len: "length ?ws \<le> length rs - nat ?e" by (metis length_drop length_takeWhile_le)
  have "drop (nat (?e + int (length ?ws))) rs = drop (length ?ws) (drop (nat ?e) rs)"
    using e assms(3) by (simp add: nat_add_distrib add.commute)
  then have rest: "drop (nat ?e) rs = ?ws @ drop (nat (?e + int (length ?ws))) rs"
    by (metis append_take_drop_id takeWhile_eq_take)
  have "non_ws ?ws = []" by (auto simp: filter_empty_conv dest: set_takeWhileD)
  moreover have "drop (nat start) rs = sub rs start ?e @ drop (nat ?e) rs"
    using e assms(3) unfolding sub_def
    by (metis append_take_drop_id drop_drop le_add_diff_inverse2 less_imp_le nat_mono)
  ultimately have "non_ws (drop (nat start) rs) =
      non_ws (sub rs start ?e) @ non_ws (drop (nat (?e + int (length ?ws))) rs)"
    using rest by (metis append_Nil filter_append)
  moreover have "?e + int (length ?ws) \<le> total rs" using len e assms(2-4) by linarith
  ultimately show ?thesis using that [OF step] e by linarith
qed

lemma split_loop_plain:
  assumes "no_fence rs" "0 < max_len"
  shows "0 \<le> start \<Longrightarrow> start \<le> total rs \<Longrightarrow> total rs - start < int n \<Longrightarrow>
    \<exists>out. split_loop n max_len (rs, start, msgs) = Some (Finished (msgs @ out))
      \<and> non_ws (concat out) = non_ws (drop (nat start) rs)"
proof (induction n arbitrary: start msgs)
  case (Suc n)
  show ?case
  proof (cases "max_len < total rs - start")
    case True
    from split_step_plain [OF assms Suc.prems(1) True, of msgs] obtain c start' where
      s: "split_step max_len (rs, start, msgs) = More (rs, start', msgs @ [c])"
        "start < start'" "start' \<le> total rs"
        "non_ws (drop (nat start) rs) = non_ws c @ non_ws (drop (nat start') rs)" by blast
    with Suc.prems Suc.IH [of start' "msgs @ [c]"] obtain out where
      "split_loop n max_len (rs, start', msgs @ [c]) = Some (Finished ((msgs @ [c]) @ out))"
      "non_ws (concat out) = non_ws (drop (nat start') rs)" by auto
    with s show ?thesis by (intro exI [of _ "c # out"]) simp
  next
    case False
    show ?thesis
    proof (cases "start < total rs")
      case True
      with False Suc.prems show ?thesis
        by (intro exI [of _ "[drop (nat start) rs]"]) (simp add: split_step_def slice_def sub_def)
    next
      case False
      with Suc.prems show ?thesis by (intro exI [of _ "[]"]) (simp add: split_step_def)
    qed
  qed
qed simp

section \<open>A long first line of a block\<close>

text \<open>
  A block whose first line \<open>w\<close> is as long as the limit: the header is longer than a chunk, and
  every chunk that is split off puts the whole header back in front of the rest.
\<close>

definition long_line :: "int \<Rightarrow> runes \<Rightarrow> bool" where
  "long_line max_len w \<longleftrightarrow> max_len \<le> total w \<and> (\<forall>r\<in>set w. r \<noteq> 96 \<and> \<not> is_space_rune r)"

definition block :: "runes \<Rightarrow> runes \<Rightarrow> runes" where
  "block w rest = [96, 96, 96] @ w @ [10] @ rest"

lemma rune_facts: "\<not> is_space_rune 96" "is_space_rune 10" "is_space_rune 32" "is_space_rune 9"
  by (simp_all add: is_space_rune_def)

lemma block_nth:
  "block w rest ! 0 = 96" "block w rest ! 1 = 96" "block w rest ! 2 = 96"
  "i < length w \<Longrightarrow> block w rest ! (i + 3) = w ! i"
  "block w rest ! (length w + 3) = 10"
  by (simp_all add: block_def nth_append numeral_2_eq_2 numeral_3_eq_3)

text \<open>The runes of the first line, up to the line feed.\<close>

lemma block_first_line:
  assumes "long_line max_len w" "i < length w + 3"
  shows "\<not> is_space_rune (block w rest ! i)" "3 \<le> i \<Longrightarrow> block w rest ! i \<noteq> 96"
proof -
  have w: "\<not> is_space_rune (block w rest ! i) \<and> block w rest ! i \<noteq> 96" if "3 \<le> i"
    using assms that block_nth(4) [of "i - 3" w rest] by (auto simp: long_line_def)
  have "i < 3 \<Longrightarrow> i = 0 \<or> i = 1 \<or> i = 2" by arith
  with w block_nth(1-3) [of w rest] rune_facts(1) show "\<not> is_space_rune (block w rest ! i)"
    by (cases "i < 3") auto
  show "block w rest ! i \<noteq> 96" if "3 \<le> i" using w that by simp
qed

lemma find_last_none:
  "(\<And>i. start \<le> i \<Longrightarrow> i < stop \<Longrightarrow> \<not> P (rs ! nat i)) \<Longrightarrow> find_last_in_range P rs start stop w = start - 1"
  using find_last_in_range_bounds [of P rs start stop w] by auto

lemma find_upto_first:
  assumes "a \<le> k" "k \<le> b" "P k" "\<And>i. a \<le> i \<Longrightarrow> i < k \<Longrightarrow> \<not> P i"
  shows "List.find P [a..b] = Some k"
proof -
  have u: "[a..b] = [a..k - 1] @ k # [k + 1..b]" using assms(1,2) by (simp add: upto_split3)
  have "List.find P (xs @ k # ys) = Some k" if "\<forall>x\<in>set xs. \<not> P x" for xs ys
    using that assms(3) by (induction xs) auto
  from this [of "[a..k - 1]"] assms(4) have "List.find P ([a..k - 1] @ k # ys) = Some k" for ys by auto
  then show ?thesis by (simp add: u)
qed

lemma trim_space_runes_block:
  assumes "\<exists>r\<in>set b. \<not> is_space_rune r"
  shows "\<exists>b'. trim_space_runes ([96] @ a @ b) = [96] @ a @ b'"
proof -
  have "dropWhile is_space_rune (rev b @ rev a @ [96]) = dropWhile is_space_rune (rev b) @ rev a @ [96]"
    using assms by (induction b rule: rev_induct) auto
  then show ?thesis using rune_facts(1) by (simp add: trim_space_runes_def)
qed

lemma trim_space_runes_header:
  assumes "long_line max_len w" "w \<noteq> []"
  shows "trim_space_runes ([96, 96, 96] @ w) = [96, 96, 96] @ w"
proof -
  have "\<not> is_space_rune (hd (rev w))"
    using assms by (simp add: long_line_def hd_rev)
  with assms(2) have "dropWhile is_space_rune (rev w @ [96, 96, 96]) = rev w @ [96, 96, 96]"
    by (cases "rev w") auto
  then show ?thesis using rune_facts(1) by (simp add: trim_space_runes_def)
qed

lemma block_total:
  assumes len: "6 \<le> max_len" and long: "long_line max_len w" and rs: "rs = block w rest"
  shows "max_len < total rs" "int (length w) + 3 < total rs" "w \<noteq> []"
  using len long by (auto simp: rs block_def long_line_def)

lemma block_limit:
  assumes len: "6 \<le> max_len" and long: "long_line max_len w" and rs: "rs = block w rest"
  shows "3 \<le> effective_limit max_len" "effective_limit max_len \<le> int (length w)"
  using len long by (auto simp: effective_limit_def Let_def long_line_def)

lemma block_plain:
  assumes len: "6 \<le> max_len" and long: "long_line max_len w" and rs: "rs = block w rest"
  shows "0 \<le> i \<Longrightarrow> i < int (length w) + 3 \<Longrightarrow> \<not> is_space_rune (rs ! nat i)"
  using block_first_line(1) [OF long, of "nat i" rest] by (simp add: rs nat_less_iff)

lemma block_no_tick:
  assumes len: "6 \<le> max_len" and long: "long_line max_len w" and rs: "rs = block w rest"
  shows "3 \<le> i \<Longrightarrow> i < int (length w) + 4 \<Longrightarrow> rs ! nat i \<noteq> 96"
proof -
  assume i: "3 \<le> i" "i < int (length w) + 4"
  show ?thesis
  proof (cases "i = int (length w) + 3")
    case True
    then have "nat i = length w + 3" by simp
    with block_nth(5) [of w rest] show ?thesis by (simp only: rs)
  next
    case False
    with i show ?thesis using block_first_line(2) [OF long, of "nat i" rest] by (simp add: rs nat_less_iff le_nat_iff)
  qed
qed

lemma block_natural_end:
  assumes len: "6 \<le> max_len" and long: "long_line max_len w" and rs: "rs = block w rest"
  shows "natural_end max_len rs 0 = effective_limit max_len"
proof -
  have "\<not> is_space_rune (rs ! nat i)" if "0 \<le> i" "i < effective_limit max_len" for i
    using block_plain [OF len long rs, of i] that block_limit [OF len long rs] by simp
  then have "find_last_newline_in_range rs 0 (effective_limit max_len) 200 = 0 - 1"
    "find_last_space_in_range rs 0 (effective_limit max_len) 100 = 0 - 1"
    using rune_facts unfolding find_last_newline_in_range_def find_last_space_in_range_def
    by (intro find_last_none; metis)+
  then show ?thesis by (simp add: natural_end_def Let_def)
qed

lemma block_unclosed:
  assumes len: "6 \<le> max_len" and long: "long_line max_len w" and rs: "rs = block w rest"
  shows "find_last_unclosed_code_block rs 0 (effective_limit max_len) = 0"
proof -
  let ?e = "effective_limit max_len"
  have f: "fence_at rs 0 ?e"
    using block_limit [OF len long rs] block_nth(1-3) [of w rest] by (simp add: fence_at_def rs numeral_2_eq_2)
  have none: "\<forall>j. 3 \<le> j \<longrightarrow> \<not> fence_at rs j ?e"
    using block_no_tick [OF len long rs] block_limit [OF len long rs] by (auto simp: fence_at_def)
  have "unclosed_loop rs 0 ?e False (-1) = unclosed_loop rs 3 ?e True 0"
    using f block_limit [OF len long rs] by (subst unclosed_loop.simps) simp
  with unclosed_loop_none [OF none, of True 0] show ?thesis by (simp add: find_last_unclosed_code_block_def)
qed

lemma block_closing:
  assumes len: "6 \<le> max_len" and long: "long_line max_len w" and rs: "rs = block w rest"
  shows "0 < find_next_closing_code_block rs (effective_limit max_len) (total rs) \<Longrightarrow>
     max_len < find_next_closing_code_block rs (effective_limit max_len) (total rs)"
proof -
  let ?find = "List.find (\<lambda>i. fence_at rs i (total rs)) [effective_limit max_len..total rs - 1]"
  assume pos: "0 < find_next_closing_code_block rs (effective_limit max_len) (total rs)"
  then obtain i where i: "?find = Some i"
    by (cases ?find) (auto simp: find_next_closing_code_block_def)
  from find_in_set [OF i] have "effective_limit max_len \<le> i" "fence_at rs i (total rs)" by auto
  then have "rs ! nat i = 96" "3 \<le> i" using block_limit [OF len long rs] by (auto simp: fence_at_def)
  with block_no_tick [OF len long rs] have "int (length w) + 4 \<le> i" by force
  with i long show ?thesis by (simp add: find_next_closing_code_block_def long_line_def)
qed

lemma block_newline:
  assumes len: "6 \<le> max_len" and long: "long_line max_len w" and rs: "rs = block w rest"
  shows "find_newline_from rs 0 = int (length w) + 3"
proof -
  have n: "nat (int (length w) + 3) = length w + 3" by simp
  have "List.find (\<lambda>i. rs ! nat i = 10) [0..total rs - 1] = Some (int (length w) + 3)"
  proof (rule find_upto_first)
    show "rs ! nat (int (length w) + 3) = 10" using block_nth(5) [of w rest] by (simp only: n rs)
    show "rs ! nat i \<noteq> 10" if "0 \<le> i" "i < int (length w) + 3" for i
      using block_plain [OF len long rs, OF that] rune_facts(2) by metis
  qed (use block_total [OF len long rs] in auto)
  then show ?thesis by (simp add: find_newline_from_def)
qed

lemma block_header:
  assumes len: "6 \<le> max_len" and long: "long_line max_len w" and rs: "rs = block w rest"
  shows "fence_header rs 0 = [96, 96, 96] @ w"
proof -
  have "sub rs 0 (int (length w) + 3) = [96, 96, 96] @ w"
    by (simp add: sub_def rs block_def nat_add_distrib numeral_3_eq_3)
  moreover have "int (length w) + 3 \<noteq> -1" by simp
  ultimately show ?thesis
    using trim_space_runes_header [OF long block_total(3) [OF len long rs]] by (simp add: fence_header_def block_newline [OF len long rs] Let_def)
qed

lemma block_fence_split:
  assumes len: "6 \<le> max_len" and long: "long_line max_len w" and rs: "rs = block w rest"
  shows "fence_split max_len (rs, 0, msgs) (effective_limit max_len) 0 =
     inner_split (rs, 0, msgs) (max_len - 5) ([96, 96, 96] @ w)"
proof -
  have "fence_header_end rs 0 = int (length w) + 3" by (simp add: fence_header_end_def block_newline [OF len long rs] Let_def)
  moreover have "\<not> effective_limit max_len > int (length w) + 3 + 20" using block_limit [OF len long rs] by simp
  moreover have "find_last_newline_in_range rs 0 0 200 = 0 - 1" "find_last_space_in_range rs 0 0 100 = 0 - 1"
    unfolding find_last_newline_in_range_def find_last_space_in_range_def by (intro find_last_none; simp)+
  moreover have "min (0 + max_len - 5) (total rs) = max_len - 5" using block_total [OF len long rs] by simp
  ultimately show ?thesis unfolding fence_split_def Let_def prod.case block_header [OF len long rs] by simp
qed

lemma block_step:
  assumes len: "6 \<le> max_len" and long: "long_line max_len w" and rs: "rs = block w rest"
  shows "\<exists>rest' msgs'. split_step max_len (rs, 0, msgs) = More (block w rest', 0, msgs')"
proof -
  let ?tail = "drop (nat (max_len - 5)) rs"
  have "split_step max_len (rs, 0, msgs) = inner_split (rs, 0, msgs) (max_len - 5) ([96, 96, 96] @ w)"
    using block_total [OF len long rs] block_closing [OF len long rs] block_unclosed [OF len long rs] block_limit [OF len long rs] long
    by (auto simp: split_step_def Let_def block_natural_end [OF len long rs] block_fence_split [OF len long rs] long_line_def)
  also have "\<dots> = More (trim_space_runes (([96, 96, 96] @ w) @ [10] @ ?tail), 0,
      msgs @ [trim_right_ws (sub rs 0 (max_len - 5)) @ closing_fence])"
    using len block_total [OF len long rs] by (simp add: inner_split_def slice_def sub_def nat_diff_distrib)
  finally have step: "split_step max_len (rs, 0, msgs) = More (trim_space_runes (([96, 96, 96] @ w) @ [10] @ ?tail), 0,
      msgs @ [trim_right_ws (sub rs 0 (max_len - 5)) @ closing_fence])" .
  have at: "?tail ! 0 = rs ! nat (max_len - 5)" "?tail \<noteq> []" using block_total [OF len long rs] len by auto
  have "\<not> is_space_rune (?tail ! 0)"
    unfolding at using block_plain [OF len long rs, of "max_len - 5"] len long by (simp add: long_line_def)
  with at(2) have "\<exists>r\<in>set ?tail. \<not> is_space_rune r" by (metis length_greater_0_conv nth_mem)
  from trim_space_runes_block [OF this, of "[96, 96] @ w @ [10]"] obtain b where
    b: "trim_space_runes (([96, 96, 96] @ w) @ [10] @ ?tail) = block w b" by (auto simp: block_def)
  show ?thesis unfolding step b by blast
qed

lemma split_loop_stuck:
  assumes "6 \<le> max_len" "long_line max_len w"
  shows "split_loop n max_len (block w rest, 0, msgs) = None"
proof (induction n arbitrary: rest msgs)
  case (Suc n)
  from block_step [OF assms refl, of rest msgs] obtain rest' msgs' where
    "split_step max_len (block w rest, 0, msgs) = More (block w rest', 0, msgs')" by blast
  with Suc show ?case by simp
qed simp

lemma no_fence_ticks: "96 \<notin> set rs \<Longrightarrow> no_fence rs"
  unfolding no_fence_def
proof (intro allI impI)
  fix i :: int assume t: "96 \<notin> set rs" and i: "0 \<le> i"
  have "rs ! nat i \<in> set rs" if "i + 2 < total rs" using that i by (intro nth_mem) simp
  with t show "\<not> fence_at rs i (total rs)" by (metis fence_at_def)
qed

text \<open>An example text without fences, of two words.\<close>

definition two_words :: runes where
  "two_words = [97, 98, 99, 100, 32, 101, 102, 103, 104, 105, 106, 107]"

lemma two_words: "no_fence two_words" "non_ws two_words \<noteq> []" "length two_words = 12"
  by (rule no_fence_ticks) (simp_all add: two_words_def is_ws_def)

section \<open>Properties\<close>

text \<open>
  A text without a code fence is split in as many turns of the loop as it has runes at most:
  every chunk respects the limit, and together the chunks are the text up to white space.
\<close>

theorem split_message_plain:
  assumes "no_fence content" "0 < max_len"
  shows "\<exists>chunks. split_message (Suc (length content)) content max_len = Some (Finished chunks)
    \<and> (\<forall>c\<in>set chunks. total c \<le> max_len) \<and> non_ws (concat chunks) = non_ws content"
proof -
  from split_loop_plain [OF assms, of 0 "Suc (length content)" "[]"] obtain out where
    l: "split_loop (Suc (length content)) max_len (content, 0, []) = Some (Finished out)"
      "non_ws (concat out) = non_ws content" by auto
  from split_loop_chunks [OF assms(2) _ _ l(1)] l assms(2) show ?thesis
    by (auto simp: split_message_def simp del: split_loop.simps)
qed

theorem split_message_plain_witness:
  "\<exists>chunks. split_message (Suc (length two_words)) two_words 6 = Some (Finished chunks) \<and> concat chunks \<noteq> []"
proof -
  from split_message_plain [OF two_words(1), of 6] obtain chunks where
    c: "split_message (Suc (length two_words)) two_words 6 = Some (Finished chunks)"
      "non_ws (concat chunks) = non_ws two_words"
    by (auto simp del: split_loop.simps)
  with two_words(2) have "concat chunks \<noteq> []" by (metis filter.simps(1))
  with c(1) show ?thesis by blast
qed

text \<open>
  Whatever the text, when the splitter returns, no chunk is longer than the limit, the closing
  fences it adds included.
\<close>

theorem split_message_limit:
  assumes "0 < max_len" "split_message fuel content max_len = Some (Finished chunks)"
  shows "\<forall>c\<in>set chunks. total c \<le> max_len"
  using assms split_loop_chunks [OF assms(1), of 0 "[]" fuel content chunks]
  by (simp add: split_message_def)

theorem split_message_limit_witness:
  "\<exists>chunks. split_message (Suc (length two_words)) two_words 6 = Some (Finished chunks) \<and>
     (\<forall>c\<in>set chunks. total c \<le> 6)"
proof -
  from split_loop_plain [OF two_words(1), of 6 0 "Suc (length two_words)" "[]"] obtain chunks where
    c: "split_message (Suc (length two_words)) two_words 6 = Some (Finished chunks)"
    by (auto simp: split_message_def simp del: split_loop.simps)
  from split_message_limit [OF _ c] c show ?thesis by (simp del: split_loop.simps)
qed

text \<open>
  C38 The splitter does not return on a code block whose first line is as long as the limit: with
  any limit from 6 on, no number of turns suffices, because each turn puts the whole first line
  back in front of the rest, while splitting off less than it.
\<close>

theorem split_message_diverges:
  assumes "6 \<le> max_len" "long_line max_len w"
  shows "split_message fuel ([96, 96, 96] @ w @ [10] @ rest) max_len = None"
  using assms split_loop_stuck [OF assms, of fuel rest "[]"] by (simp add: split_message_def block_def)

theorem split_message_diverges_witness:
  "\<forall>fuel. split_message fuel ([96, 96, 96] @ replicate 2000 120 @ [10] @ [96, 96, 96]) 2000 = None"
proof
  fix fuel
  have "r \<noteq> 96 \<and> \<not> is_space_rune r" if "r \<in> set (replicate 2000 120)" for r
    using that by (simp only: in_set_replicate) (simp add: is_space_rune_def)
  then have "long_line 2000 (replicate 2000 120)" by (simp only: long_line_def length_replicate) simp
  then show "split_message fuel ([96, 96, 96] @ replicate 2000 120 @ [10] @ [96, 96, 96]) 2000 = None"
    by (rule split_message_diverges [rotated]) simp
qed

end
