(* ===== verification/Access.thy ===== *)
theory Access imports Regex begin

text \<open>
  Who may talk to the bot: sender identities (\<open>pkg/identity/identity.go\<close>, with the records of
  \<open>pkg/bus/types.go\<close>) and what the base channel does with an incoming message
  (\<open>pkg/channels/base.go\<close>): the allow list, the group trigger and \<open>HandleMessage\<close>. The optional
  capabilities of the concrete channel are parameters: what each of its calls returns.
\<close>

record sender_info =
  si_Platform :: gostr
  si_PlatformID :: gostr
  si_CanonicalID :: gostr
  si_Username :: gostr
  si_DisplayName :: gostr

record bus_peer =
  bp_Kind :: gostr
  bp_ID :: gostr

record inbound_message =
  im_Channel :: gostr
  im_SenderID :: gostr
  im_Sender :: sender_info
  im_ChatID :: gostr
  im_Content :: gostr
  im_Media :: "gostr list"
  im_Peer :: bus_peer
  im_MessageID :: gostr
  im_MediaScope :: gostr
  im_SessionKey :: gostr
  im_Metadata :: "(gostr \<rightharpoonup> gostr)"

section \<open>Identities\<close>

definition build_canonical_id :: "gostr \<Rightarrow> gostr \<Rightarrow> gostr" where
  "build_canonical_id platform platform_id =
     (let p = to_lower (trim_space platform);
          i = trim_space platform_id
      in if p = [] \<or> i = [] then [] else p @ '':'' @ i)"

definition parse_canonical_id :: "gostr \<Rightarrow> (gostr \<times> gostr) option" where
  "parse_canonical_id canonical0 =
     (let canonical = trim_space canonical0 in
      case index_char canonical (CHR '':'') of
        None \<Rightarrow> None
      | Some idx \<Rightarrow>
          if idx = 0 \<or> idx + 1 = length canonical then None
          else Some (take idx canonical, drop (idx + 1) canonical))"

definition is_numeric :: "gostr \<Rightarrow> bool" where
  "is_numeric s \<longleftrightarrow> s \<noteq> [] \<and> list_all is_digit s"

text \<open>The match of the legacy formats, on an entry that is already trimmed.\<close>

definition match_legacy :: "sender_info \<Rightarrow> gostr \<Rightarrow> bool" where
  "match_legacy sender allowed =
     (let is_at_username = has_prefix allowed ''@'';
          stripped = trim_prefix allowed ''@'';
          (allowed_id, allowed_user) =
            (case index_char stripped (CHR ''|'') of
               None \<Rightarrow> (stripped, [])
             | Some idx \<Rightarrow>
                 if idx > 0 then (take idx stripped, drop (idx + 1) stripped) else (stripped, []))
      in if si_PlatformID sender \<noteq> [] \<and> si_PlatformID sender = allowed_id then True
         else if is_at_username \<and> si_Username sender \<noteq> [] \<and> si_Username sender = stripped then True
         else if allowed_user \<noteq> [] \<and> si_PlatformID sender \<noteq> [] \<and> si_PlatformID sender = allowed_id
         then True
         else if allowed_user \<noteq> [] \<and> si_Username sender \<noteq> [] \<and> si_Username sender = allowed_user
         then True
         else False)"

definition match_allowed :: "sender_info \<Rightarrow> gostr \<Rightarrow> bool" where
  "match_allowed sender allowed0 =
     (let allowed = trim_space allowed0 in
      if allowed = [] then False
      else
        case parse_canonical_id allowed of
          None \<Rightarrow> match_legacy sender allowed
        | Some (platform, i) \<Rightarrow>
            if is_numeric platform then match_legacy sender allowed
            else
              let candidate = build_canonical_id platform i in
              if candidate \<noteq> [] \<and> si_CanonicalID sender \<noteq> []
              then equal_fold (si_CanonicalID sender) candidate
              else equal_fold platform (si_Platform sender) \<and> si_PlatformID sender = i)"

section \<open>The base channel\<close>

record group_trigger =
  gt_MentionOnly :: bool
  gt_Prefixes :: "gostr list"

record base_channel =
  bc_name :: gostr
  bc_allowList :: "gostr list"
  bc_groupTrigger :: group_trigger

definition should_respond_in_group :: "base_channel \<Rightarrow> bool \<Rightarrow> gostr \<Rightarrow> bool \<times> gostr" where
  "should_respond_in_group c is_mentioned content =
     (let gt = bc_groupTrigger c in
      if is_mentioned then (True, trim_space content)
      else if gt_MentionOnly gt then (False, content)
      else if gt_Prefixes gt \<noteq> [] then
        (case List.find (\<lambda>p. p \<noteq> [] \<and> has_prefix content p) (gt_Prefixes gt) of
           Some p \<Rightarrow> (True, trim_space (trim_prefix content p))
         | None \<Rightarrow> (False, content))
      else (True, trim_space content))"

text \<open>\<open>id|user\<close> at the first bar, unless it comes first.\<close>

definition split_compound :: "gostr \<Rightarrow> gostr \<times> gostr" where
  "split_compound s =
     (case index_char s (CHR ''|'') of
        None \<Rightarrow> (s, [])
      | Some idx \<Rightarrow> if idx > 0 then (take idx s, drop (idx + 1) s) else (s, []))"

definition entry_allows :: "gostr \<Rightarrow> gostr \<Rightarrow> bool" where
  "entry_allows sender_id allowed =
     (let (id_part, user_part) = split_compound sender_id;
          stripped = trim_prefix allowed ''@'';
          (allowed_id, allowed_user) = split_compound stripped
      in sender_id = allowed \<or> id_part = allowed \<or> sender_id = stripped \<or> id_part = stripped
         \<or> id_part = allowed_id \<or> (allowed_user \<noteq> [] \<and> sender_id = allowed_user)
         \<or> (user_part \<noteq> [] \<and>
              (user_part = allowed \<or> user_part = stripped \<or> user_part = allowed_user)))"

definition is_allowed :: "base_channel \<Rightarrow> gostr \<Rightarrow> bool" where
  "is_allowed c sender_id =
     (if bc_allowList c = [] then True else list_ex (entry_allows sender_id) (bc_allowList c))"

definition is_allowed_sender :: "base_channel \<Rightarrow> sender_info \<Rightarrow> bool" where
  "is_allowed_sender c sender =
     (if bc_allowList c = [] then True else list_ex (match_allowed sender) (bc_allowList c))"

text \<open>\<open>unique\<close> is the next process-unique identifier.\<close>

definition build_media_scope :: "gostr \<Rightarrow> gostr \<Rightarrow> gostr \<Rightarrow> gostr \<Rightarrow> gostr" where
  "build_media_scope unique channel chat_id message_id =
     (let i = (if message_id = [] then unique else message_id)
      in channel @ '':'' @ chat_id @ '':'' @ i)"

definition audio_annotation :: rx where
  "audio_annotation =
     seqs [lit ''['', Grp (Alt (lit ''voice'') (lit ''audio'')),
           Opt (seqs [lit '':'', Star (Cls (\<lambda>c. c \<noteq> CHR '']''))]), lit '']'']"

definition zero_sender :: sender_info where
  "zero_sender = \<lparr>si_Platform = [], si_PlatformID = [], si_CanonicalID = [], si_Username = [],
     si_DisplayName = []\<rparr>"

text \<open>
  What the owner of the channel can do: \<open>None\<close> for a capability it lacks, otherwise whether the
  call succeeds, with the identifier of the placeholder.
\<close>

record owner_caps =
  oc_typing :: "bool option"
  oc_reaction :: "bool option"
  oc_placeholder :: "gostr option option"

datatype channel_effect =
  RecordTypingStop gostr gostr
| RecordReactionUndo gostr gostr
| RecordPlaceholder gostr gostr gostr
| PublishInbound inbound_message

definition sender_admitted :: "base_channel \<Rightarrow> sender_info \<Rightarrow> gostr \<Rightarrow> bool" where
  "sender_admitted c sender sender_id =
     (if si_CanonicalID sender \<noteq> [] \<or> si_PlatformID sender \<noteq> [] then is_allowed_sender c sender
      else is_allowed c sender_id)"

text \<open>The effects of \<open>HandleMessage\<close>, in order; \<open>owner\<close> is \<open>None\<close> when no owner or recorder is set.\<close>

definition handle_message ::
  "base_channel \<Rightarrow> owner_caps option \<Rightarrow> gostr \<Rightarrow> bus_peer \<Rightarrow> gostr \<Rightarrow> gostr \<Rightarrow> gostr \<Rightarrow> gostr \<Rightarrow> gostr list
   \<Rightarrow> (gostr \<rightharpoonup> gostr) \<Rightarrow> sender_info option \<Rightarrow> channel_effect list" where
  "handle_message c owner unique peer message_id sender_id chat_id content media metadata sender_opt =
     (let sender = (case sender_opt of None \<Rightarrow> zero_sender | Some s \<Rightarrow> s) in
      if \<not> sender_admitted c sender sender_id then []
      else
        let resolved = (if si_CanonicalID sender \<noteq> [] then si_CanonicalID sender else sender_id);
            msg = \<lparr>im_Channel = bc_name c, im_SenderID = resolved, im_Sender = sender, im_ChatID = chat_id,
                   im_Content = content, im_Media = media, im_Peer = peer, im_MessageID = message_id,
                   im_MediaScope = build_media_scope unique (bc_name c) chat_id message_id,
                   im_SessionKey = [], im_Metadata = metadata\<rparr>;
            triggers =
              (case owner of
                 None \<Rightarrow> []
               | Some oc \<Rightarrow>
                   (if oc_typing oc = Some True then [RecordTypingStop (bc_name c) chat_id] else []) @
                   (if oc_reaction oc = Some True \<and> message_id \<noteq> []
                    then [RecordReactionUndo (bc_name c) chat_id] else []) @
                   (if match_string audio_annotation content then []
                    else case oc_placeholder oc of
                           Some (Some ph) \<Rightarrow>
                             if ph \<noteq> [] then [RecordPlaceholder (bc_name c) chat_id ph] else []
                         | _ \<Rightarrow> []))
        in triggers @ [PublishInbound msg])"

fun publishes :: "channel_effect \<Rightarrow> bool" where
  "publishes (PublishInbound m) = True"
| "publishes _ = False"

section \<open>Facts\<close>

lemma colon_nonspace [simp]: "\<not> is_space (CHR '':'')" "\<not> is_lower (CHR '':'')"
  by code_simp+

lemma parse_canonical_colon:
  assumes "trimmed (p @ CHR '':'' # i)" "CHR '':'' \<notin> set p" "p \<noteq> []" "i \<noteq> []"
  shows "parse_canonical_id (p @ CHR '':'' # i) = Some (p, i)"
  using assms by (simp add: parse_canonical_id_def trim_space_trimmed index_char_append)

lemma trimmed_join: "trimmed p \<Longrightarrow> trimmed i \<Longrightarrow> i \<noteq> [] \<Longrightarrow> trimmed (p @ CHR '':'' # i)"
  by (cases "p = []") (auto simp: trimmed_def)

lemma build_canonical_id_canonical:
  "trim_space p \<noteq> [] \<Longrightarrow> trim_space i \<noteq> [] \<Longrightarrow>
     build_canonical_id p i = to_lower (trim_space p) @ CHR '':'' # trim_space i"
  by (simp add: build_canonical_id_def Let_def)

section \<open>Properties\<close>

text \<open>
  A canonical identifier is read back as the lower-cased platform and the trimmed identifier,
  and building it again from these parts gives the same identifier.
\<close>

theorem canonical_id_roundtrip:
  assumes "trim_space p \<noteq> []" "trim_space i \<noteq> []" "CHR '':'' \<notin> set p"
  shows "parse_canonical_id (build_canonical_id p i) = Some (to_lower (trim_space p), trim_space i) \<and>
    build_canonical_id (to_lower (trim_space p)) (trim_space i) = build_canonical_id p i"
proof -
  let ?p = "to_lower (trim_space p)"
  have t: "trimmed ?p" "trimmed (trim_space i)" by simp_all
  have "CHR '':'' \<notin> set ?p"
    using assms(3) nonletter_in_to_lower [OF colon_nonspace(2)] set_trim_space by (metis subsetD)
  then have "parse_canonical_id (?p @ CHR '':'' # trim_space i) = Some (?p, trim_space i)"
    using assms(1,2) trimmed_join [OF t assms(2)] by (intro parse_canonical_colon) auto
  moreover have "trim_space ?p = ?p" using t(1) by (rule trim_space_trimmed)
  ultimately show ?thesis
    using assms by (simp add: build_canonical_id_canonical)
qed

theorem canonical_id_roundtrip_witness:
  "parse_canonical_id (build_canonical_id '' Telegram '' ''12 '') = Some (''telegram'', ''12'')"
proof -
  have t: "trim_space '' Telegram '' = ''Telegram''" "trim_space ''12 '' = ''12''"
    "to_lower ''Telegram'' = ''telegram''" by code_simp+
  show ?thesis using canonical_id_roundtrip [of "'' Telegram ''" "''12 ''"] unfolding t by simp
qed

text \<open>
  C40 An allow-list entry \<open>platform:id\<close> admits a sender that carries a canonical identifier only if
  that is the same identifier up to case, so never one of another platform; a sender without a
  canonical identifier must come from the platform and have exactly that identifier.
\<close>

theorem match_allowed_canonical:
  assumes "trimmed (p @ '':'' @ i)" "CHR '':'' \<notin> set p" "p \<noteq> []" "i \<noteq> []" "\<not> is_numeric p"
    "trimmed p" "trimmed i"
  shows "match_allowed sender (p @ '':'' @ i) \<longleftrightarrow>
    (if si_CanonicalID sender \<noteq> [] then to_lower (si_CanonicalID sender) = to_lower (p @ '':'' @ i)
     else to_lower p = to_lower (si_Platform sender) \<and> si_PlatformID sender = i)"
proof -
  have "parse_canonical_id (p @ CHR '':'' # i) = Some (p, i)"
    using assms(1-4) by (intro parse_canonical_colon) auto
  moreover have "trim_space (p @ CHR '':'' # i) = p @ CHR '':'' # i"
    using assms(1) by (simp add: trim_space_trimmed)
  moreover have "build_canonical_id p i = to_lower p @ CHR '':'' # i"
    using assms by (simp add: build_canonical_id_canonical trim_space_trimmed)
  ultimately show ?thesis
    using assms(3,5) by (simp add: match_allowed_def Let_def equal_fold_def)
qed

abbreviation alice :: sender_info where
  "alice \<equiv> \<lparr>si_Platform = ''telegram'', si_PlatformID = ''7'', si_CanonicalID = ''telegram:7'',
     si_Username = ''alice'', si_DisplayName = ''Alice''\<rparr>"

theorem match_allowed_canonical_witness:
  "match_allowed alice ''Telegram:7'' \<and> \<not> match_allowed alice ''discord:7''"
proof -
  have "trimmed ''Telegram:7''" "trimmed ''discord:7''" "trimmed ''Telegram''" "trimmed ''discord''" "trimmed ''7''"
    "\<not> is_numeric ''Telegram''" "\<not> is_numeric ''discord''" by code_simp+
  moreover have "to_lower ''telegram:7'' = to_lower ''Telegram:7''"
    "to_lower ''telegram:7'' \<noteq> to_lower ''discord:7''" by code_simp+
  ultimately show ?thesis
    using match_allowed_canonical [of "''Telegram''" "''7''" alice]
      match_allowed_canonical [of "''discord''" "''7''" alice] by simp
qed

text \<open>
  A plain allow-list entry, without separator, bar or at sign, admits exactly the senders with
  that platform identifier: a user name alone never matches it.
\<close>

theorem match_allowed_plain:
  assumes "trimmed e" "CHR '':'' \<notin> set e" "CHR ''|'' \<notin> set e" "CHR ''@'' \<notin> set e" "e \<noteq> []"
  shows "match_allowed sender e \<longleftrightarrow> si_PlatformID sender = e"
proof -
  have "parse_canonical_id e = None"
    using assms(1,2) by (simp add: parse_canonical_id_def trim_space_trimmed index_char_None [THEN iffD2])
  moreover have "\<not> has_prefix e ''@''" using assms(4) by (cases e) auto
  moreover have "index_char e (CHR ''|'') = None" using assms(3) by (simp add: index_char_None)
  ultimately show ?thesis
    using assms(1,5) by (auto simp: match_allowed_def match_legacy_def Let_def trim_space_trimmed trim_prefix_def)
qed

theorem match_allowed_plain_witness:
  "match_allowed alice ''7'' \<and> \<not> match_allowed alice ''alice''"
proof -
  have "trimmed ''7''" "trimmed ''alice''" by code_simp+
  then show ?thesis using match_allowed_plain [of "''7''" alice] match_allowed_plain [of "''alice''" alice] by simp
qed

text \<open>
  A message reaches the bus only if its sender is admitted, then exactly once and as the last
  effect, and an inadmissible one has no effect at all; the published message carries the
  canonical identifier of the sender when there is one, and the channel and chat in its scope.
\<close>

theorem handle_message_admission:
  "if sender_admitted c (case sender_opt of None \<Rightarrow> zero_sender | Some s \<Rightarrow> s) sid
   then \<exists>triggers m. handle_message c owner u peer mid sid chat content media md sender_opt =
          triggers @ [PublishInbound m] \<and> filter publishes triggers = [] \<and>
          im_Channel m = bc_name c \<and> im_ChatID m = chat \<and>
          has_prefix (im_MediaScope m) (bc_name c @ '':'' @ chat @ '':'') \<and>
          im_SenderID m = (case sender_opt of
            None \<Rightarrow> sid | Some s \<Rightarrow> if si_CanonicalID s \<noteq> [] then si_CanonicalID s else sid)
   else handle_message c owner u peer mid sid chat content media md sender_opt = []"
  by (auto simp: handle_message_def Let_def build_media_scope_def has_prefix_def zero_sender_def
      split: option.splits)

end
