(* ===== verification/Session_Store.thy ===== *)
theory Session_Store imports Protocol begin

text \<open>
  The contract of a session store, \<open>SessionStore\<close> of \<open>pkg/session/session_store.go\<close> and \<open>Store\<close> of
  \<open>pkg/memory/store.go\<close>: what the agent loop relies on, whichever back end holds the messages.
\<close>

section \<open>Keeping the last messages\<close>

definition keep_last :: "int \<Rightarrow> 'm list \<Rightarrow> 'm list" where
  "keep_last n h = (if n \<le> 0 then [] else drop (length h - nat n) h)"

lemma length_keep_last: "length (keep_last n h) = min (length h) (nat n)"
  by (simp add: keep_last_def) arith

lemma keep_last_suffix: "\<exists>old. h = old @ keep_last n h"
  by (metis append_take_drop_id append_Nil2 keep_last_def)

lemma keep_last_all: "int (length h) \<le> n \<Longrightarrow> keep_last n h = h"
  by (cases h) (auto simp: keep_last_def)

section \<open>Interface: session stores\<close>

text \<open>
  Two keys are \<open>near\<close> when the store may confuse them; \<open>good\<close> messages are those the store can
  hold. Replacing a history is only promised for a session that has messages.
\<close>

locale session_store =
  fixes ok :: "'s \<Rightarrow> bool"
    and near :: "'k \<Rightarrow> 'k \<Rightarrow> bool"
    and good :: "'m \<Rightarrow> bool"
    and history :: "'s \<Rightarrow> 'k \<Rightarrow> 'm list"
    and add :: "'s \<Rightarrow> 'k \<Rightarrow> 'm \<Rightarrow> 's"
    and replace :: "'s \<Rightarrow> 'k \<Rightarrow> 'm list \<Rightarrow> 's"
    and truncate :: "'s \<Rightarrow> 'k \<Rightarrow> int \<Rightarrow> 's"
    and save :: "'s \<Rightarrow> 'k \<Rightarrow> 's"
  assumes near_refl: "near k k"
    and add_ok: "ok s \<Longrightarrow> good m \<Longrightarrow> ok (add s k m)"
    and add_history: "ok s \<Longrightarrow> good m \<Longrightarrow> history (add s k m) k = history s k @ [m]"
    and add_other: "ok s \<Longrightarrow> \<not> near k k' \<Longrightarrow> history (add s k m) k' = history s k'"
    and replace_ok: "ok s \<Longrightarrow> (\<forall>m\<in>set h. good m) \<Longrightarrow> ok (replace s k h)"
    and replace_history: "ok s \<Longrightarrow> (\<forall>m\<in>set h. good m) \<Longrightarrow> history s k \<noteq> [] \<Longrightarrow> history (replace s k h) k = h"
    and replace_other: "ok s \<Longrightarrow> \<not> near k k' \<Longrightarrow> history (replace s k h) k' = history s k'"
    and truncate_ok: "ok s \<Longrightarrow> ok (truncate s k n)"
    and truncate_history: "ok s \<Longrightarrow> history (truncate s k n) k = keep_last n (history s k)"
    and truncate_other: "ok s \<Longrightarrow> \<not> near k k' \<Longrightarrow> history (truncate s k n) k' = history s k'"
    and save_ok: "ok s \<Longrightarrow> ok (save s k)"
    and save_history: "ok s \<Longrightarrow> history (save s k) k' = history s k'"
begin

text \<open>A conversation turn appends its messages in order.\<close>

lemma add_all:
  "ok s \<Longrightarrow> (\<forall>m\<in>set xs. good m) \<Longrightarrow>
     ok (fold (\<lambda>m s. add s k m) xs s) \<and> history (fold (\<lambda>m s. add s k m) xs s) k = history s k @ xs"
proof (induction xs arbitrary: s)
  case (Cons m xs)
  then show ?case using Cons.IH [of "add s k m"] by (simp add: add_ok add_history)
qed simp

text \<open>Turns of other sessions do not show.\<close>

lemma add_all_other:
  "ok s \<Longrightarrow> (\<forall>m\<in>set xs. good m) \<Longrightarrow> \<not> near k k' \<Longrightarrow>
     history (fold (\<lambda>m s. add s k m) xs s) k' = history s k'"
proof (induction xs arbitrary: s)
  case (Cons m xs)
  then show ?case using Cons.IH [of "add s k m"] by (simp add: add_ok add_other)
qed simp

text \<open>
  Truncating and saving between turns keeps the newest messages: with at most \<open>n\<close> kept, a turn of
  \<open>xs\<close> leaves at most \<open>n\<close> older messages in front of it.
\<close>

lemma truncate_save_add:
  assumes "ok s" "\<forall>m\<in>set xs. good m"
  shows "history (fold (\<lambda>m s. add s k m) xs (save (truncate s k n) k)) k = keep_last n (history s k) @ xs"
  using assms by (simp add: add_all truncate_ok save_ok save_history truncate_history)

lemma truncate_twice:
  assumes "ok s" "i \<le> j"
  shows "history (truncate (truncate s k j) k i) k = history (truncate s k i) k"
proof -
  have "keep_last i (keep_last j h) = keep_last i h" for h :: "'m list"
  proof -
    have "length h - (length h - nat j + nat i) + (length h - nat j) = length h - nat i"
      using assms(2) by arith
    with assms(2) show ?thesis by (simp add: keep_last_def)
  qed
  with assms(1) show ?thesis by (simp add: truncate_ok truncate_history)
qed

end

section \<open>The operations as a value\<close>

text \<open>
  A store as the agent loop holds it. \<open>AddMessage\<close> is \<open>AddFullMessage\<close> of a message with a role and a
  content in both implementations.
\<close>

record ('v, 's) session_ops =
  so_add :: "'s \<Rightarrow> gostr \<Rightarrow> 'v message \<Rightarrow> 's"
  so_history :: "'s \<Rightarrow> gostr \<Rightarrow> 'v message list"
  so_summary :: "'s \<Rightarrow> gostr \<Rightarrow> gostr"
  so_set_summary :: "'s \<Rightarrow> gostr \<Rightarrow> gostr \<Rightarrow> 's"
  so_set_history :: "'s \<Rightarrow> gostr \<Rightarrow> 'v message list \<Rightarrow> 's"
  so_truncate :: "'s \<Rightarrow> gostr \<Rightarrow> int \<Rightarrow> 's"
  so_save :: "'s \<Rightarrow> gostr \<Rightarrow> 's"

definition add_text :: "('v, 's) session_ops \<Rightarrow> 's \<Rightarrow> gostr \<Rightarrow> gostr \<Rightarrow> gostr \<Rightarrow> 's" where
  "add_text ops s key role content = so_add ops s key (text_message role content)"

end
