(* ===== verification/Jsonl_Store.thy ===== *)
theory Jsonl_Store imports Session_Store begin

text \<open>
  The JSONL store: \<open>pkg/memory/jsonl.go\<close>, and the adapter \<open>pkg/session/jsonl_backend.go\<close>. A session
  has two files, named after the sanitised key: the bytes of the \<open>.jsonl\<close> file, and the decoded
  contents of the \<open>.meta.json\<close> file, which is only ever replaced as a whole (\<open>None\<close> when it does not
  decode). Encoding and decoding a message is left to the parameters \<open>enc\<close> and \<open>dec\<close>. Each method
  holds the lock of its key; it is the list of the writes it makes, in order, so that a crash is
  a prefix of that list whose last append may be partial. The disk itself does not fail.
\<close>

section \<open>Model\<close>

record session_meta =
  sm_Key :: gostr
  sm_Summary :: gostr
  sm_Skip :: int
  sm_Count :: int
  sm_CreatedAt :: gotime
  sm_UpdatedAt :: gotime

record jsonl_files =
  jf_jsonl :: "gostr \<rightharpoonup> gostr"
  jf_meta :: "gostr \<rightharpoonup> session_meta option"

datatype store_error = DecodeMeta | LineTooLong

datatype disk_write =
  AppendJsonl gostr gostr
| RewriteJsonl gostr gostr
| WriteMeta gostr session_meta

fun disk_do :: "disk_write \<Rightarrow> jsonl_files \<Rightarrow> jsonl_files" where
  "disk_do (AppendJsonl f b) d =
     d\<lparr>jf_jsonl := (jf_jsonl d)(f \<mapsto> (case jf_jsonl d f of None \<Rightarrow> b | Some c \<Rightarrow> c @ b))\<rparr>"
| "disk_do (RewriteJsonl f b) d = d\<lparr>jf_jsonl := (jf_jsonl d)(f \<mapsto> b)\<rparr>"
| "disk_do (WriteMeta f m) d = d\<lparr>jf_meta := (jf_meta d)(f \<mapsto> Some m)\<rparr>"

definition max_line_size :: nat where
  "max_line_size = 10 * 1024 * 1024"

definition newline :: char where
  "newline = char_of (10 :: nat)"

definition sanitize_key :: "gostr \<Rightarrow> gostr" where
  "sanitize_key key =
     replace_char (CHR 0x5C) (CHR ''_'') (replace_char (CHR ''/'') (CHR ''_'') (replace_char (CHR '':'') (CHR ''_'') key))"

definition read_meta :: "jsonl_files \<Rightarrow> gostr \<Rightarrow> store_error + session_meta" where
  "read_meta d key =
     (case jf_meta d (sanitize_key key) of
        None \<Rightarrow> Inr \<lparr>sm_Key = key, sm_Summary = [], sm_Skip = 0, sm_Count = 0, sm_CreatedAt = None,
                     sm_UpdatedAt = None\<rparr>
      | Some None \<Rightarrow> Inl DecodeMeta
      | Some (Some meta) \<Rightarrow> Inr meta)"

text \<open>
  \<open>bufio.Scanner\<close> with \<open>ScanLines\<close>: the pieces between line feeds, without an empty last one and
  without a carriage return at the end; it stops with an error at the first piece that does not
  fit the buffer.
\<close>

fun raw_lines :: "gostr \<Rightarrow> gostr list" where
  "raw_lines [] = []"
| "raw_lines (c # s) =
     (if c = newline then [] # raw_lines s
      else case raw_lines s of [] \<Rightarrow> [[c]] | l # ls \<Rightarrow> (c # l) # ls)"

definition drop_cr :: "gostr \<Rightarrow> gostr" where
  "drop_cr l = (if l \<noteq> [] \<and> code (last l) = 13 then butlast l else l)"

definition line_fits :: "gostr \<Rightarrow> bool" where
  "line_fits l \<longleftrightarrow> length l < max_line_size"

definition scan_lines :: "gostr \<Rightarrow> gostr list \<times> bool" where
  "scan_lines s = (map drop_cr (takeWhile line_fits (raw_lines s)), list_all line_fits (raw_lines s))"

definition read_messages :: "(gostr \<Rightarrow> 'm option) \<Rightarrow> gostr option \<Rightarrow> int \<Rightarrow> store_error + 'm list" where
  "read_messages dec file skip =
     (case file of
        None \<Rightarrow> Inr []
      | Some s \<Rightarrow>
          let (ls, fine) = scan_lines s;
              lines = filter (\<lambda>l. l \<noteq> []) ls in
          if \<not> fine then Inl LineTooLong
          else Inr (List.map_filter dec (drop (nat skip) lines)))"

definition count_lines :: "gostr option \<Rightarrow> store_error + int" where
  "count_lines file =
     (case file of
        None \<Rightarrow> Inr 0
      | Some s \<Rightarrow>
          let (ls, fine) = scan_lines s in
          if \<not> fine then Inl LineTooLong else Inr (int (length (filter (\<lambda>l. l \<noteq> []) ls))))"

text \<open>The methods: an error, if any, and the writes made.\<close>

type_synonym store_op = "store_error option \<times> disk_write list"

definition add_msg :: "('m \<Rightarrow> gostr) \<Rightarrow> int \<Rightarrow> jsonl_files \<Rightarrow> gostr \<Rightarrow> 'm \<Rightarrow> store_op" where
  "add_msg enc now d key msg =
     (let f = sanitize_key key;
          append = AppendJsonl f (enc msg @ [newline]) in
      case read_meta d key of
        Inl e \<Rightarrow> (Some e, [append])
      | Inr meta \<Rightarrow>
          let meta1 = (if sm_Count meta = 0 \<and> sm_CreatedAt meta = None
                       then meta\<lparr>sm_CreatedAt := Some now\<rparr> else meta);
              meta2 = meta1\<lparr>sm_Count := sm_Count meta1 + 1, sm_UpdatedAt := Some now\<rparr>
          in (None, [append, WriteMeta f meta2]))"

definition add_message ::
  "('v message \<Rightarrow> gostr) \<Rightarrow> int \<Rightarrow> jsonl_files \<Rightarrow> gostr \<Rightarrow> gostr \<Rightarrow> gostr \<Rightarrow> store_op" where
  "add_message enc now d key role content = add_msg enc now d key (text_message role content)"

definition get_history :: "(gostr \<Rightarrow> 'm option) \<Rightarrow> jsonl_files \<Rightarrow> gostr \<Rightarrow> store_error + 'm list" where
  "get_history dec d key =
     (case read_meta d key of
        Inl e \<Rightarrow> Inl e
      | Inr meta \<Rightarrow> read_messages dec (jf_jsonl d (sanitize_key key)) (sm_Skip meta))"

definition get_summary :: "jsonl_files \<Rightarrow> gostr \<Rightarrow> store_error + gostr" where
  "get_summary d key = (case read_meta d key of Inl e \<Rightarrow> Inl e | Inr meta \<Rightarrow> Inr (sm_Summary meta))"

definition set_summary :: "int \<Rightarrow> jsonl_files \<Rightarrow> gostr \<Rightarrow> gostr \<Rightarrow> store_op" where
  "set_summary now d key summary =
     (case read_meta d key of
        Inl e \<Rightarrow> (Some e, [])
      | Inr meta \<Rightarrow>
          let meta1 = (if sm_CreatedAt meta = None then meta\<lparr>sm_CreatedAt := Some now\<rparr> else meta)
          in (None, [WriteMeta (sanitize_key key)
                (meta1\<lparr>sm_Summary := summary, sm_UpdatedAt := Some now\<rparr>)]))"

definition truncate_history :: "int \<Rightarrow> jsonl_files \<Rightarrow> gostr \<Rightarrow> int \<Rightarrow> store_op" where
  "truncate_history now d key keep =
     (case read_meta d key of
        Inl e \<Rightarrow> (Some e, [])
      | Inr meta \<Rightarrow>
          (case count_lines (jf_jsonl d (sanitize_key key)) of
             Inl e \<Rightarrow> (Some e, [])
           | Inr n \<Rightarrow>
               let meta1 = meta\<lparr>sm_Count := n\<rparr>;
                   meta2 =
                     (if keep \<le> 0 then meta1\<lparr>sm_Skip := sm_Count meta1\<rparr>
                      else if keep < sm_Count meta1 - sm_Skip meta1
                      then meta1\<lparr>sm_Skip := sm_Count meta1 - keep\<rparr> else meta1)
               in (None, [WriteMeta (sanitize_key key) (meta2\<lparr>sm_UpdatedAt := Some now\<rparr>)])))"

definition encode_lines :: "('m \<Rightarrow> gostr) \<Rightarrow> 'm list \<Rightarrow> gostr" where
  "encode_lines enc xs = concat (map (\<lambda>m. enc m @ [newline]) xs)"

definition set_history :: "('m \<Rightarrow> gostr) \<Rightarrow> int \<Rightarrow> jsonl_files \<Rightarrow> gostr \<Rightarrow> 'm list \<Rightarrow> store_op" where
  "set_history enc now d key history =
     (case read_meta d key of
        Inl e \<Rightarrow> (Some e, [])
      | Inr meta \<Rightarrow>
          let meta1 = (if sm_CreatedAt meta = None then meta\<lparr>sm_CreatedAt := Some now\<rparr> else meta);
              meta2 = meta1\<lparr>sm_Skip := 0, sm_Count := int (length history), sm_UpdatedAt := Some now\<rparr>
          in (None, [WriteMeta (sanitize_key key) meta2,
                     RewriteJsonl (sanitize_key key) (encode_lines enc history)]))"

definition compact_history ::
  "('m \<Rightarrow> gostr) \<Rightarrow> (gostr \<Rightarrow> 'm option) \<Rightarrow> int \<Rightarrow> jsonl_files \<Rightarrow> gostr \<Rightarrow> store_op" where
  "compact_history enc dec now d key =
     (case read_meta d key of
        Inl e \<Rightarrow> (Some e, [])
      | Inr meta \<Rightarrow>
          if sm_Skip meta = 0 then (None, [])
          else
            (case read_messages dec (jf_jsonl d (sanitize_key key)) (sm_Skip meta) of
               Inl e \<Rightarrow> (Some e, [])
             | Inr active \<Rightarrow>
                 (None, [WriteMeta (sanitize_key key)
                           (meta\<lparr>sm_Skip := 0, sm_Count := int (length active), sm_UpdatedAt := Some now\<rparr>),
                         RewriteJsonl (sanitize_key key) (encode_lines enc active)])))"

text \<open>Running a method to its end, and the adapter, which logs errors.\<close>

definition commit :: "store_op \<Rightarrow> jsonl_files \<Rightarrow> jsonl_files" where
  "commit op d = fold disk_do (snd op) d"

definition backend_history :: "(gostr \<Rightarrow> 'm option) \<Rightarrow> jsonl_files \<Rightarrow> gostr \<Rightarrow> 'm list" where
  "backend_history dec d key = (case get_history dec d key of Inl e \<Rightarrow> [] | Inr h \<Rightarrow> h)"

definition backend_summary :: "jsonl_files \<Rightarrow> gostr \<Rightarrow> gostr" where
  "backend_summary d key = (case get_summary d key of Inl e \<Rightarrow> [] | Inr s \<Rightarrow> s)"

definition backend_add :: "('m \<Rightarrow> gostr) \<Rightarrow> int \<Rightarrow> jsonl_files \<Rightarrow> gostr \<Rightarrow> 'm \<Rightarrow> jsonl_files" where
  "backend_add enc now d key m = commit (add_msg enc now d key m) d"

definition backend_set_history :: "('m \<Rightarrow> gostr) \<Rightarrow> int \<Rightarrow> jsonl_files \<Rightarrow> gostr \<Rightarrow> 'm list \<Rightarrow> jsonl_files" where
  "backend_set_history enc now d key h = commit (set_history enc now d key h) d"

definition backend_set_summary :: "int \<Rightarrow> jsonl_files \<Rightarrow> gostr \<Rightarrow> gostr \<Rightarrow> jsonl_files" where
  "backend_set_summary now d key s = commit (set_summary now d key s) d"

definition backend_truncate :: "int \<Rightarrow> jsonl_files \<Rightarrow> gostr \<Rightarrow> int \<Rightarrow> jsonl_files" where
  "backend_truncate now d key n = commit (truncate_history now d key n) d"

definition backend_save ::
  "('m \<Rightarrow> gostr) \<Rightarrow> (gostr \<Rightarrow> 'm option) \<Rightarrow> int \<Rightarrow> jsonl_files \<Rightarrow> gostr \<Rightarrow> jsonl_files" where
  "backend_save enc dec now d key = commit (compact_history enc dec now d key) d"

section \<open>Lines\<close>

text \<open>A message whose line is read back: what JSON encoding ensures, and the size limit.\<close>

definition line_ok :: "('m \<Rightarrow> gostr) \<Rightarrow> (gostr \<Rightarrow> 'm option) \<Rightarrow> 'm \<Rightarrow> bool" where
  "line_ok enc dec m \<longleftrightarrow>
     dec (enc m) = Some m \<and> newline \<notin> set (enc m) \<and> enc m \<noteq> [] \<and> code (last (enc m)) \<noteq> 13 \<and>
     line_fits (enc m)"

lemma raw_lines_line: "newline \<notin> set l \<Longrightarrow> raw_lines (l @ newline # s) = l # raw_lines s"
  by (induction l) auto

lemma raw_lines_last: "newline \<notin> set l \<Longrightarrow> l \<noteq> [] \<Longrightarrow> raw_lines l = [l]"
proof (induction l)
  case (Cons c l)
  then show ?case by (cases "l = []") auto
qed simp

lemma raw_lines_encode:
  "\<forall>m\<in>set xs. line_ok enc dec m \<Longrightarrow> raw_lines (encode_lines enc xs @ s) = map enc xs @ raw_lines s"
  by (induction xs) (simp_all add: encode_lines_def line_ok_def raw_lines_line)

lemma drop_cr_line_ok: "line_ok enc dec m \<Longrightarrow> drop_cr (enc m) = enc m"
  by (simp add: drop_cr_def line_ok_def)

lemma map_filter_enc: "\<forall>m\<in>set xs. line_ok enc dec m \<Longrightarrow> List.map_filter dec (map enc xs) = xs"
  by (induction xs) (auto simp: List.map_filter_def line_ok_def)

lemma map_filter_append: "List.map_filter f (xs @ ys) = List.map_filter f xs @ List.map_filter f ys"
  by (simp add: List.map_filter_def)

lemma scan_encode:
  assumes "\<forall>m\<in>set xs. line_ok enc dec m"
  shows "scan_lines (encode_lines enc xs @ s) =
    (map enc xs @ fst (scan_lines s), snd (scan_lines s))"
proof -
  have f: "\<forall>l\<in>set (map enc xs). line_fits l" using assms by (auto simp: line_ok_def)
  have "map drop_cr (map enc xs) = map enc xs" using assms drop_cr_line_ok by fastforce
  with f show ?thesis
    unfolding scan_lines_def raw_lines_encode [OF assms]
    by (simp add: takeWhile_append list_all_iff ball_Un)
qed

lemma filter_enc: "\<forall>m\<in>set xs. line_ok enc dec m \<Longrightarrow> filter (\<lambda>l. l \<noteq> []) (map enc xs) = map enc xs"
  by (auto simp: line_ok_def)

lemma read_encode:
  assumes "\<forall>m\<in>set xs. line_ok enc dec m"
  shows "read_messages dec (Some (encode_lines enc xs)) skip = Inr (drop (nat skip) xs)"
    "count_lines (Some (encode_lines enc xs)) = Inr (int (length xs))"
proof -
  have s: "scan_lines (encode_lines enc xs) = (map enc xs, True)"
    using scan_encode [OF assms, of "[]"] by (simp add: scan_lines_def)
  have "\<forall>m\<in>set (drop (nat skip) xs). line_ok enc dec m" using assms by (auto dest: in_set_dropD)
  from map_filter_enc [OF this] show "read_messages dec (Some (encode_lines enc xs)) skip = Inr (drop (nat skip) xs)"
    by (simp add: read_messages_def s filter_enc [OF assms] drop_map)
  show "count_lines (Some (encode_lines enc xs)) = Inr (int (length xs))"
    by (simp add: count_lines_def s filter_enc [OF assms])
qed

section \<open>Well-formed files\<close>

text \<open>The files of \<open>f\<close> hold the messages \<open>xs\<close>, of which the first \<open>skip\<close> are truncated.\<close>

definition holds ::
  "('m \<Rightarrow> gostr) \<Rightarrow> (gostr \<Rightarrow> 'm option) \<Rightarrow> jsonl_files \<Rightarrow> gostr \<Rightarrow> 'm list \<Rightarrow> int \<Rightarrow> bool" where
  "holds enc dec d f xs skip \<longleftrightarrow>
     (\<forall>m\<in>set xs. line_ok enc dec m) \<and>
     (jf_jsonl d f = Some (encode_lines enc xs) \<or> jf_jsonl d f = None \<and> xs = []) \<and>
     (jf_meta d f = None \<and> skip = 0 \<or> (\<exists>meta. jf_meta d f = Some (Some meta) \<and> sm_Skip meta = skip)) \<and>
     0 \<le> skip \<and> skip \<le> int (length xs)"

definition jsonl_ok :: "('m \<Rightarrow> gostr) \<Rightarrow> (gostr \<Rightarrow> 'm option) \<Rightarrow> jsonl_files \<Rightarrow> bool" where
  "jsonl_ok enc dec d \<longleftrightarrow> (\<forall>f. \<exists>xs skip. holds enc dec d f xs skip)"

definition same_file :: "gostr \<Rightarrow> gostr \<Rightarrow> bool" where
  "same_file k k' \<longleftrightarrow> sanitize_key k = sanitize_key k'"

lemma jsonl_okE:
  assumes "jsonl_ok enc dec d" obtains xs skip where "holds enc dec d f xs skip"
  using assms unfolding jsonl_ok_def by blast

lemma encode_lines_Nil [simp]: "encode_lines enc [] = []"
  by (simp add: encode_lines_def)

lemma encode_lines_snoc: "encode_lines enc (xs @ [m]) = encode_lines enc xs @ enc m @ [newline]"
  by (simp add: encode_lines_def)

lemma holds_meta:
  assumes "holds enc dec d (sanitize_key k) xs skip"
  obtains meta where "read_meta d k = Inr meta" "sm_Skip meta = skip"
  using assms by (auto simp: holds_def read_meta_def split: option.splits)

lemma holds_read:
  assumes "holds enc dec d f xs skip"
  shows "read_messages dec (jf_jsonl d f) n = Inr (drop (nat n) xs)"
    "count_lines (jf_jsonl d f) = Inr (int (length xs))"
  using assms read_encode [of xs enc dec]
  by (auto simp: holds_def read_messages_def count_lines_def)

lemma holds_history:
  assumes "holds enc dec d (sanitize_key k) xs skip"
  shows "get_history dec d k = Inr (drop (nat skip) xs)" "backend_history dec d k = drop (nat skip) xs"
proof -
  obtain meta where "read_meta d k = Inr meta" "sm_Skip meta = skip" using assms by (rule holds_meta)
  with holds_read(1) [OF assms] show "get_history dec d k = Inr (drop (nat skip) xs)"
    by (simp add: get_history_def)
  then show "backend_history dec d k = drop (nat skip) xs" by (simp add: backend_history_def)
qed

text \<open>Every method writes to the files of its key only.\<close>

fun write_file :: "disk_write \<Rightarrow> gostr" where
  "write_file (AppendJsonl f b) = f"
| "write_file (RewriteJsonl f b) = f"
| "write_file (WriteMeta f m) = f"

lemma disk_do_other:
  "write_file w \<noteq> f \<Longrightarrow> jf_jsonl (disk_do w d) f = jf_jsonl d f \<and> jf_meta (disk_do w d) f = jf_meta d f"
  by (cases w) auto

lemma fold_disk_other:
  "\<forall>w\<in>set ws. write_file w \<noteq> f \<Longrightarrow>
     jf_jsonl (fold disk_do ws d) f = jf_jsonl d f \<and> jf_meta (fold disk_do ws d) f = jf_meta d f"
  by (induction ws arbitrary: d) (auto simp: disk_do_other)

lemma op_writes:
  "w \<in> set (snd (add_msg enc now d k m)) \<Longrightarrow> write_file w = sanitize_key k"
  "w \<in> set (snd (set_history enc now d k h)) \<Longrightarrow> write_file w = sanitize_key k"
  "w \<in> set (snd (truncate_history now d k n)) \<Longrightarrow> write_file w = sanitize_key k"
  "w \<in> set (snd (compact_history enc dec now d k)) \<Longrightarrow> write_file w = sanitize_key k"
  "w \<in> set (snd (set_summary now d k s)) \<Longrightarrow> write_file w = sanitize_key k"
  by (auto simp: add_msg_def set_history_def truncate_history_def compact_history_def set_summary_def
      Let_def split: sum.splits if_splits)

lemma holds_cong:
  "jf_jsonl d' f = jf_jsonl d f \<Longrightarrow> jf_meta d' f = jf_meta d f \<Longrightarrow>
     holds enc dec d' f xs skip = holds enc dec d f xs skip"
  by (simp add: holds_def)

lemma holds_commit_other:
  assumes "\<And>w. w \<in> set (snd op) \<Longrightarrow> write_file w = g" "f \<noteq> g"
  shows "holds enc dec (commit op d) f xs skip = holds enc dec d f xs skip"
  using fold_disk_other [of "snd op" f d] assms unfolding commit_def by (intro holds_cong) auto

lemma jsonl_ok_commit:
  assumes "jsonl_ok enc dec d" "\<And>w. w \<in> set (snd op) \<Longrightarrow> write_file w = g"
    "\<exists>xs skip. holds enc dec (commit op d) g xs skip"
  shows "jsonl_ok enc dec (commit op d)"
  unfolding jsonl_ok_def
proof
  fix f
  from assms(1) obtain xs skip where h: "holds enc dec d f xs skip" by (meson jsonl_okE)
  show "\<exists>xs skip. holds enc dec (commit op d) f xs skip"
  proof (cases "f = g")
    case True
    with assms(3) show ?thesis by simp
  next
    case False
    with h holds_commit_other [of op g f enc dec d xs skip] assms(2) show ?thesis by blast
  qed
qed

lemma history_commit_other:
  assumes "\<And>w. w \<in> set (snd op) \<Longrightarrow> write_file w = sanitize_key k" "\<not> same_file k k'"
  shows "backend_history dec (commit op d) k' = backend_history dec d k'"
proof -
  have "\<forall>w\<in>set (snd op). write_file w \<noteq> sanitize_key k'" using assms by (auto simp: same_file_def)
  from fold_disk_other [OF this, of d] have
    same: "jf_jsonl (fold disk_do (snd op) d) (sanitize_key k') = jf_jsonl d (sanitize_key k')"
      "jf_meta (fold disk_do (snd op) d) (sanitize_key k') = jf_meta d (sanitize_key k')" by simp_all
  show ?thesis
    unfolding backend_history_def get_history_def read_meta_def commit_def same by (rule refl)
qed

text \<open>What each method does to the files of its key.\<close>

lemma add_holds:
  assumes "holds enc dec d (sanitize_key k) xs skip" "line_ok enc dec m"
  shows "holds enc dec (commit (add_msg enc now d k m) d) (sanitize_key k) (xs @ [m]) skip"
proof -
  obtain meta where "read_meta d k = Inr meta" "sm_Skip meta = skip" using assms(1) by (rule holds_meta)
  with assms show ?thesis
    by (auto simp: holds_def add_msg_def commit_def Let_def encode_lines_snoc)
qed

lemma set_holds:
  assumes "holds enc dec d (sanitize_key k) xs skip" "\<forall>m\<in>set h. line_ok enc dec m"
  shows "holds enc dec (commit (set_history enc now d k h) d) (sanitize_key k) h 0"
proof -
  obtain meta where "read_meta d k = Inr meta" using assms(1) by (rule holds_meta)
  with assms(2) show ?thesis by (simp add: holds_def set_history_def commit_def Let_def)
qed

definition new_skip :: "int \<Rightarrow> int \<Rightarrow> int \<Rightarrow> int" where
  "new_skip count skip keep =
     (if keep \<le> 0 then count else if keep < count - skip then count - keep else skip)"

lemma truncate_holds:
  assumes "holds enc dec d (sanitize_key k) xs skip"
  shows "holds enc dec (commit (truncate_history now d k n) d) (sanitize_key k) xs
    (new_skip (int (length xs)) skip n)"
proof -
  obtain meta where "read_meta d k = Inr meta" "sm_Skip meta = skip" using assms by (rule holds_meta)
  with assms holds_read(2) [OF assms] show ?thesis
    by (auto simp: holds_def truncate_history_def commit_def Let_def new_skip_def)
qed

lemma drop_new_skip:
  assumes "0 \<le> skip" "skip \<le> int (length xs)"
  shows "drop (nat (new_skip (int (length xs)) skip n)) xs = keep_last n (drop (nat skip) xs)"
proof -
  have "nat (int (length xs) - n) = length xs - nat skip - nat n + nat skip"
    if "0 < n" "n < int (length xs) - skip" using that assms by arith
  moreover have "length xs - nat skip - nat n = 0" if "\<not> n < int (length xs) - skip" using that assms by arith
  ultimately show ?thesis by (auto simp: new_skip_def keep_last_def)
qed

lemma compact_holds:
  assumes "holds enc dec d (sanitize_key k) xs skip"
  shows "holds enc dec (commit (compact_history enc dec now d k) d) (sanitize_key k)
    (drop (nat skip) xs) 0"
proof -
  obtain meta where m: "read_meta d k = Inr meta" "sm_Skip meta = skip" using assms by (rule holds_meta)
  show ?thesis
  proof (cases "skip = 0")
    case True
    with m assms show ?thesis by (simp add: compact_history_def commit_def)
  next
    case False
    moreover have "\<forall>m\<in>set (drop (nat skip) xs). line_ok enc dec m"
      using assms by (auto simp: holds_def dest: in_set_dropD)
    ultimately show ?thesis
      using m holds_read(1) [OF assms, of skip] by (simp add: holds_def compact_history_def commit_def Let_def)
  qed
qed

section \<open>The store keeps the contract\<close>

interpretation jsonl: session_store "jsonl_ok enc dec" same_file "line_ok enc dec" "backend_history dec"
  "backend_add enc now" "backend_set_history enc now" "backend_truncate now" "backend_save enc dec now"
  for enc :: "'m \<Rightarrow> gostr" and dec :: "gostr \<Rightarrow> 'm option" and now :: int
proof (unfold_locales, goal_cases)
  case 1 show ?case by (simp add: same_file_def)
next
  case (2 s m k)
  then obtain xs skip where "holds enc dec s (sanitize_key k) xs skip" by (meson jsonl_okE)
  note h = add_holds [OF this 2(2)]
  show ?case unfolding backend_add_def
    by (rule jsonl_ok_commit [OF 2(1)], erule op_writes(1), intro exI, rule h)
next
  case (3 s m k)
  then obtain xs skip where h: "holds enc dec s (sanitize_key k) xs skip" by (meson jsonl_okE)
  then have "nat skip \<le> length xs" by (auto simp: holds_def)
  then show ?case
    by (simp add: backend_add_def holds_history(2) [OF h] holds_history(2) [OF add_holds [OF h 3(2)]])
next
  case (4 s k k' m)
  then show ?case unfolding backend_add_def by (intro history_commit_other op_writes)
next
  case (5 s h k)
  then obtain xs skip where "holds enc dec s (sanitize_key k) xs skip" by (meson jsonl_okE)
  note h = set_holds [OF this 5(2)]
  show ?case unfolding backend_set_history_def
    by (rule jsonl_ok_commit [OF 5(1)], erule op_writes(2), intro exI, rule h)
next
  case (6 s h k)
  then obtain xs skip where "holds enc dec s (sanitize_key k) xs skip" by (meson jsonl_okE)
  from holds_history(2) [OF set_holds [OF this 6(2)]] show ?case by (simp add: backend_set_history_def)
next
  case (7 s k k' h)
  then show ?case unfolding backend_set_history_def by (intro history_commit_other op_writes)
next
  case (8 s k n)
  then obtain xs skip where "holds enc dec s (sanitize_key k) xs skip" by (meson jsonl_okE)
  note h = truncate_holds [OF this]
  show ?case unfolding backend_truncate_def
    by (rule jsonl_ok_commit [OF 8], erule op_writes(3), intro exI, rule h)
next
  case (9 s k n)
  then obtain xs skip where h: "holds enc dec s (sanitize_key k) xs skip" by (meson jsonl_okE)
  then have "0 \<le> skip" "skip \<le> int (length xs)" by (auto simp: holds_def)
  then show ?case
    by (simp add: backend_truncate_def holds_history(2) [OF h] holds_history(2) [OF truncate_holds [OF h]]
        drop_new_skip)
next
  case (10 s k k' n)
  then show ?case unfolding backend_truncate_def by (intro history_commit_other op_writes)
next
  case (11 s k)
  then obtain xs skip where "holds enc dec s (sanitize_key k) xs skip" by (meson jsonl_okE)
  note h = compact_holds [OF this]
  show ?case unfolding backend_save_def
    by (rule jsonl_ok_commit [OF 11], erule op_writes(4), intro exI, rule h)
next
  case (12 s k k')
  show ?case
  proof (cases "same_file k k'")
    case True
    from 12 obtain xs skip where h: "holds enc dec s (sanitize_key k) xs skip" by (meson jsonl_okE)
    have h': "holds enc dec s (sanitize_key k') xs skip"
      "holds enc dec (backend_save enc dec now s k) (sanitize_key k') (drop (nat skip) xs) 0"
      using h compact_holds [OF h, of now] True by (simp_all add: backend_save_def same_file_def)
    show ?thesis by (simp add: holds_history(2) [OF h'(1)] holds_history(2) [OF h'(2)])
  next
    case False
    then show ?thesis unfolding backend_save_def by (intro history_commit_other op_writes)
  qed
qed

section \<open>Properties\<close>

text \<open>The calls the agent makes on one session, and what they mean.\<close>

datatype 'm session_op = OpAdd 'm | OpReplace "'m list" | OpTruncate int | OpSave

fun run_op :: "('m \<Rightarrow> gostr) \<Rightarrow> (gostr \<Rightarrow> 'm option) \<Rightarrow> int \<Rightarrow> gostr \<Rightarrow> 'm session_op \<Rightarrow> jsonl_files \<Rightarrow> jsonl_files" where
  "run_op enc dec now k (OpAdd m) d = backend_add enc now d k m"
| "run_op enc dec now k (OpReplace h) d = backend_set_history enc now d k h"
| "run_op enc dec now k (OpTruncate n) d = backend_truncate now d k n"
| "run_op enc dec now k OpSave d = backend_save enc dec now d k"

fun mean_op :: "'m session_op \<Rightarrow> 'm list \<Rightarrow> 'm list" where
  "mean_op (OpAdd m) h = h @ [m]"
| "mean_op (OpReplace h') h = h'"
| "mean_op (OpTruncate n) h = keep_last n h"
| "mean_op OpSave h = h"

fun op_messages :: "'m session_op \<Rightarrow> 'm list" where
  "op_messages (OpAdd m) = [m]"
| "op_messages (OpReplace h) = h"
| "op_messages _ = []"

lemma run_op_step:
  assumes "jsonl_ok enc dec d" "\<forall>m\<in>set (op_messages op). line_ok enc dec m"
  shows "jsonl_ok enc dec (run_op enc dec now k op d)
    \<and> backend_history dec (run_op enc dec now k op d) k = mean_op op (backend_history dec d k)
    \<and> (\<not> same_file k k' \<longrightarrow> backend_history dec (run_op enc dec now k op d) k' = backend_history dec d k')"
proof (cases op)
  case (OpReplace h)
  obtain xs skip where "holds enc dec d (sanitize_key k) xs skip" using assms(1) by (meson jsonl_okE)
  moreover have "\<forall>m\<in>set h. line_ok enc dec m" using assms(2) OpReplace by simp
  ultimately have "holds enc dec (backend_set_history enc now d k h) (sanitize_key k) h 0"
    unfolding backend_set_history_def by (rule set_holds)
  from holds_history(2) [OF this] show ?thesis
    using OpReplace assms by (simp add: jsonl.replace_ok jsonl.replace_other)
qed (use assms in \<open>simp_all add: jsonl.add_ok jsonl.add_history jsonl.add_other jsonl.truncate_ok
       jsonl.truncate_history jsonl.truncate_other jsonl.save_ok jsonl.save_history\<close>)


text \<open>A codec for plain texts, for the examples: a text between quotation marks.\<close>

definition quote :: "gostr \<Rightarrow> gostr" where
  "quote s = CHR 0x22 # s @ [CHR 0x22]"

definition unquote :: "gostr \<Rightarrow> gostr option" where
  "unquote l =
     (if length l \<ge> 2 \<and> hd l = CHR 0x22 \<and> last l = CHR 0x22 \<and> CHR 0x22 \<notin> set (butlast (tl l))
      then Some (butlast (tl l)) else None)"

definition no_files :: jsonl_files where
  "no_files = \<lparr>jf_jsonl = Map.empty, jf_meta = Map.empty\<rparr>"

lemma no_files_holds: "holds enc dec no_files f [] 0"
  by (simp add: holds_def no_files_def)

lemma no_files_ok: "jsonl_ok enc dec no_files"
  unfolding jsonl_ok_def using no_files_holds by blast

lemma line_ok_quote:
  assumes "CHR 0x22 \<notin> set s" "newline \<notin> set s" "length s < 1000"
  shows "line_ok quote unquote s"
proof -
  have "newline \<noteq> CHR 0x22" "code (CHR 0x22) \<noteq> 13" by code_simp+
  with assms show ?thesis by (simp add: line_ok_def quote_def unquote_def line_fits_def max_line_size_def)
qed




lemma add_meta:
  assumes "read_meta d k = Inr meta"
  obtains meta2 where "read_meta (commit (add_msg enc now d k m) d) k = Inr meta2" "sm_Skip meta2 = sm_Skip meta"
proof -
  have "\<exists>meta2. jf_meta (commit (add_msg enc now d k m) d) (sanitize_key k) = Some (Some meta2)
      \<and> sm_Skip meta2 = sm_Skip meta"
    by (simp add: add_msg_def assms Let_def commit_def)
  then show ?thesis using that by (auto simp: read_meta_def)
qed

definition torn :: "jsonl_files \<Rightarrow> gostr \<Rightarrow> gostr \<Rightarrow> jsonl_files" where
  "torn d k piece = disk_do (AppendJsonl (sanitize_key k) piece) d"

lemma history_tail:
  assumes h: "holds enc dec d (sanitize_key k) xs skip"
    and t: "newline \<notin> set t" "t \<noteq> []" "dec (drop_cr t) = None" "line_fits t"
    and f: "jf_jsonl d' (sanitize_key k) = Some (encode_lines enc xs @ t @ tail)" "tail = [] \<or> tail = [newline]"
    and m: "read_meta d' k = Inr meta" "sm_Skip meta = skip"
  shows "get_history dec d' k = Inr (drop (nat skip) xs)"
proof -
  have ok: "\<forall>m\<in>set xs. line_ok enc dec m" "nat skip \<le> length xs" using h by (auto simp: holds_def)
  have "raw_lines (t @ tail) = [t]"
    using f(2) t raw_lines_line [OF t(1), of "[]"] raw_lines_last [OF t(1,2)] by auto
  then have "scan_lines (t @ tail) = ([drop_cr t], True)" using t(4) by (simp add: scan_lines_def)
  then have s: "scan_lines (encode_lines enc xs @ t @ tail) = (map enc xs @ [drop_cr t], True)"
    by (simp add: scan_encode [OF ok(1)])
  have o: "List.map_filter dec [drop_cr t] = []" using t(3) by (simp add: List.map_filter_def)
  have d: "\<forall>m\<in>set (drop (nat skip) xs). line_ok enc dec m" using ok(1) by (auto dest: in_set_dropD)
  have "List.map_filter dec (drop (nat skip) (filter (\<lambda>l. l \<noteq> []) (map enc xs @ [drop_cr t]))) = drop (nat skip) xs"
    using o ok(2) map_filter_enc [OF d]
    by (cases "drop_cr t = []") (simp_all add: filter_enc [OF ok(1)] map_filter_append drop_map)
  then show ?thesis
    by (simp add: get_history_def m f(1) read_messages_def s del: filter_append)
qed

text \<open>
  After a crash in the middle of an append, the torn line is skipped and the history is intact;
  but the next message is appended to the torn line, reported as stored, and lost: it never shows
  in the history.
\<close>

theorem add_after_torn_write_lost:
  assumes "jsonl_ok enc dec d"
    "newline \<notin> set piece" "piece \<noteq> []" "dec (drop_cr piece) = None" "line_fits (piece @ enc m)"
    "newline \<notin> set (enc m)" "dec (drop_cr (piece @ enc m)) = None"
  shows "get_history dec (torn d k piece) k = get_history dec d k \<and>
    fst (add_msg enc now (torn d k piece) k m) = None \<and>
    get_history dec (commit (add_msg enc now (torn d k piece) k m) (torn d k piece)) k = get_history dec d k"
proof -
  obtain xs skip where h: "holds enc dec d (sanitize_key k) xs skip" using assms(1) by (meson jsonl_okE)
  obtain meta where m: "read_meta d k = Inr meta" "sm_Skip meta = skip" using h by (rule holds_meta)
  let ?d = "torn d k piece"
  have fl: "jf_jsonl ?d (sanitize_key k) = Some (encode_lines enc xs @ piece)"
    using h by (auto simp: torn_def holds_def)
  have meta: "read_meta ?d k = Inr meta" using m(1) by (simp add: read_meta_def torn_def)
  have fits: "line_fits piece" using assms(5) by (simp add: line_fits_def)
  have g1: "get_history dec ?d k = Inr (drop (nat skip) xs)"
    using history_tail [OF h assms(2,3,4) fits _ _ meta m(2), of "[]"] fl by simp
  let ?d2 = "commit (add_msg enc now ?d k m) ?d"
  have fl2: "jf_jsonl ?d2 (sanitize_key k) = Some (encode_lines enc xs @ (piece @ enc m) @ [newline])"
    by (simp add: commit_def add_msg_def meta Let_def fl)
  obtain meta2 where meta2: "read_meta ?d2 k = Inr meta2" "sm_Skip meta2 = skip"
    using add_meta [OF meta, of enc now m] m(2) by metis
  have g2: "get_history dec ?d2 k = Inr (drop (nat skip) xs)"
    using history_tail [OF h _ _ assms(7,5) fl2 _ meta2] assms(2,3,6) by simp
  have "fst (add_msg enc now ?d k m) = None" by (simp add: add_msg_def meta Let_def)
  with g1 g2 holds_history(1) [OF h] show ?thesis by simp
qed

theorem add_after_torn_write_lost_witness:
  "get_history unquote (commit (add_msg quote 5 (torn no_files ''k'' (butlast (quote ''hi''))) ''k'' ''yo'')
     (torn no_files ''k'' (butlast (quote ''hi'')))) ''k'' = Inr []"
proof -
  let ?p = "butlast (quote ''hi'')"
  have "newline \<notin> set ?p" "?p \<noteq> []" "unquote (drop_cr ?p) = None"
    "newline \<notin> set (quote ''yo'')" "unquote (drop_cr (?p @ quote ''yo'')) = None" by code_simp+
  moreover have "line_fits (?p @ quote ''yo'')" by (simp add: line_fits_def max_line_size_def quote_def)
  ultimately show ?thesis
    using add_after_torn_write_lost [OF no_files_ok, of ?p unquote quote "''yo''" "''k''" 5]
      holds_history(1) [OF no_files_holds, of unquote "''k''"] by simp
qed

text \<open>
  A message whose line is as long as the scanner's buffer is stored without error, and from
  then on the history of the session cannot be read: the adapter shows an empty one.
\<close>

theorem oversized_message_hides_history:
  assumes "jsonl_ok enc dec d" "newline \<notin> set (enc m)" "max_line_size \<le> length (enc m)"
  shows "fst (add_msg enc now d k m) = None \<and>
    get_history dec (backend_add enc now d k m) k = Inl LineTooLong \<and>
    backend_history dec (backend_add enc now d k m) k = []"
proof -
  obtain xs skip where h: "holds enc dec d (sanitize_key k) xs skip" using assms(1) by (meson jsonl_okE)
  obtain meta where m: "read_meta d k = Inr meta" "sm_Skip meta = skip" using h by (rule holds_meta)
  let ?d = "backend_add enc now d k m"
  have fl: "jf_jsonl ?d (sanitize_key k) = Some (encode_lines enc xs @ enc m @ [newline])"
    using h by (auto simp: backend_add_def commit_def add_msg_def m Let_def holds_def)
  have "\<not> line_fits (enc m)" using assms(3) by (simp add: line_fits_def)
  then have "\<not> snd (scan_lines (enc m @ [newline]))"
    using raw_lines_line [OF assms(2), of "[]"] by (simp add: scan_lines_def)
  moreover have "\<forall>m\<in>set xs. line_ok enc dec m" using h by (simp add: holds_def)
  ultimately have "\<not> snd (scan_lines (encode_lines enc xs @ enc m @ [newline]))"
    by (simp add: scan_encode)
  then have "read_messages dec (jf_jsonl ?d (sanitize_key k)) n = Inl LineTooLong" for n
    unfolding fl by (auto simp: read_messages_def split: prod.splits)
  moreover obtain meta2 where "read_meta ?d k = Inr meta2"
    using add_meta [OF m(1), of enc now m] unfolding backend_add_def by metis
  ultimately have "get_history dec ?d k = Inl LineTooLong" by (simp add: get_history_def)
  then show ?thesis by (simp add: backend_history_def add_msg_def m Let_def)
qed

definition big_enc :: "gostr \<Rightarrow> gostr" where
  "big_enc m = (if m = ''big'' then replicate max_line_size (CHR ''x'') else quote m)"

theorem oversized_message_hides_history_witness:
  "backend_history unquote (backend_add big_enc 4 no_files ''k'' ''hello'') ''k'' = [''hello''] \<and>
   backend_history unquote (backend_add big_enc 5 (backend_add big_enc 4 no_files ''k'' ''hello'') ''k'' ''big'') ''k'' = []"
proof -
  have n: "newline \<noteq> CHR ''x''" "newline \<notin> set ''hello''" by code_simp+
  then have "line_ok quote unquote ''hello''" by (simp add: line_ok_quote)
  then have l: "line_ok big_enc unquote ''hello''" by (simp add: line_ok_def big_enc_def)
  have a: "jsonl_ok big_enc unquote (backend_add big_enc 4 no_files ''k'' ''hello'')"
    using no_files_ok l by (rule jsonl.add_ok)
  have b: "newline \<notin> set (big_enc ''big'')" using n(1) by (simp add: big_enc_def)
  have c: "max_line_size \<le> length (big_enc ''big'')" by (simp add: big_enc_def)
  have "backend_history unquote
      (backend_add big_enc 5 (backend_add big_enc 4 no_files ''k'' ''hello'') ''k'' ''big'') ''k'' = []"
    using oversized_message_hides_history [OF a b c, of 5 "''k''"] by simp
  then show ?thesis
    using jsonl.add_history [OF no_files_ok l, of 4 "''k''"]
      holds_history(2) [OF no_files_holds, of unquote "''k''"] by simp
qed

end
