(* ===== verification/Session_Manager.thy ===== *)
theory Session_Manager imports Jsonl_Store begin

text \<open>
  The older session store, \<open>pkg/session/manager.go\<close>: sessions in memory, saved as one JSON file per
  sanitised key; and the migration of such files into the JSONL store, \<open>pkg/memory/migration.go\<close>.
  The contents of a session file are what they decode to, \<open>None\<close> when they do not. A directory is
  the list of its files in the order of \<open>os.ReadDir\<close>.
\<close>

section \<open>Model\<close>

record 'm session =
  ss_Key :: gostr
  ss_Messages :: "'m list"
  ss_Summary :: gostr
  ss_Created :: gotime
  ss_Updated :: gotime

record 'm session_manager =
  sg_sessions :: "gostr \<rightharpoonup> 'm session"
  sg_storage :: gostr

type_synonym 'm session_dir = "(gostr \<times> 'm session option) list"

text \<open>\<open>loadSessions\<close>: files whose extension is \<open>.json\<close>, by the key they hold.\<close>

definition load_sessions :: "'m session_dir \<Rightarrow> (gostr \<rightharpoonup> 'm session) \<Rightarrow> (gostr \<rightharpoonup> 'm session)" where
  "load_sessions dir sessions =
     fold (\<lambda>(name, content) m.
             if \<not> has_suffix name ''.json'' then m
             else case content of None \<Rightarrow> m | Some s \<Rightarrow> m(ss_Key s \<mapsto> s)) dir sessions"

definition new_session_manager :: "gostr \<Rightarrow> 'm session_dir \<Rightarrow> 'm session_manager" where
  "new_session_manager storage dir =
     \<lparr>sg_sessions = (if storage \<noteq> [] then load_sessions dir Map.empty else Map.empty),
      sg_storage = storage\<rparr>"

definition sm_get_or_create :: "int \<Rightarrow> 'm session_manager \<Rightarrow> gostr \<Rightarrow> 'm session \<times> 'm session_manager" where
  "sm_get_or_create now sm key =
     (case sg_sessions sm key of
        Some s \<Rightarrow> (s, sm)
      | None \<Rightarrow>
          let s = \<lparr>ss_Key = key, ss_Messages = [], ss_Summary = [], ss_Created = Some now,
                   ss_Updated = Some now\<rparr>
          in (s, sm\<lparr>sg_sessions := (sg_sessions sm)(key \<mapsto> s)\<rparr>))"

definition add_full_message :: "int \<Rightarrow> 'm session_manager \<Rightarrow> gostr \<Rightarrow> 'm \<Rightarrow> 'm session_manager" where
  "add_full_message now sm key msg =
     (let s = (case sg_sessions sm key of
                 Some s \<Rightarrow> s
               | None \<Rightarrow> \<lparr>ss_Key = key, ss_Messages = [], ss_Summary = [], ss_Created = Some now,
                          ss_Updated = None\<rparr>)
      in sm\<lparr>sg_sessions := (sg_sessions sm)(key \<mapsto>
              s\<lparr>ss_Messages := ss_Messages s @ [msg], ss_Updated := Some now\<rparr>)\<rparr>)"

definition sm_add_message ::
  "int \<Rightarrow> 'v message session_manager \<Rightarrow> gostr \<Rightarrow> gostr \<Rightarrow> gostr \<Rightarrow> 'v message session_manager" where
  "sm_add_message now sm key role content = add_full_message now sm key (text_message role content)"

definition sm_get_history :: "'m session_manager \<Rightarrow> gostr \<Rightarrow> 'm list" where
  "sm_get_history sm key = (case sg_sessions sm key of None \<Rightarrow> [] | Some s \<Rightarrow> ss_Messages s)"

definition sm_get_summary :: "'m session_manager \<Rightarrow> gostr \<Rightarrow> gostr" where
  "sm_get_summary sm key = (case sg_sessions sm key of None \<Rightarrow> [] | Some s \<Rightarrow> ss_Summary s)"

definition sm_set_summary :: "int \<Rightarrow> 'm session_manager \<Rightarrow> gostr \<Rightarrow> gostr \<Rightarrow> 'm session_manager" where
  "sm_set_summary now sm key summary =
     (case sg_sessions sm key of
        None \<Rightarrow> sm
      | Some s \<Rightarrow> sm\<lparr>sg_sessions := (sg_sessions sm)(key \<mapsto>
                    s\<lparr>ss_Summary := summary, ss_Updated := Some now\<rparr>)\<rparr>)"

definition sm_truncate_history :: "int \<Rightarrow> 'm session_manager \<Rightarrow> gostr \<Rightarrow> int \<Rightarrow> 'm session_manager" where
  "sm_truncate_history now sm key keep =
     (case sg_sessions sm key of
        None \<Rightarrow> sm
      | Some s \<Rightarrow>
          if keep \<le> 0 then
            sm\<lparr>sg_sessions := (sg_sessions sm)(key \<mapsto> s\<lparr>ss_Messages := [], ss_Updated := Some now\<rparr>)\<rparr>
          else if int (length (ss_Messages s)) \<le> keep then sm
          else
            sm\<lparr>sg_sessions := (sg_sessions sm)(key \<mapsto>
              s\<lparr>ss_Messages := drop (length (ss_Messages s) - nat keep) (ss_Messages s),
                ss_Updated := Some now\<rparr>)\<rparr>)"

definition sm_set_history :: "int \<Rightarrow> 'm session_manager \<Rightarrow> gostr \<Rightarrow> 'm list \<Rightarrow> 'm session_manager" where
  "sm_set_history now sm key history =
     (case sg_sessions sm key of
        None \<Rightarrow> sm
      | Some s \<Rightarrow> sm\<lparr>sg_sessions := (sg_sessions sm)(key \<mapsto>
                    s\<lparr>ss_Messages := history, ss_Updated := Some now\<rparr>)\<rparr>)"

text \<open>\<open>sanitizeFilename\<close> is the same function as \<open>sanitizeKey\<close> of the JSONL store.\<close>

definition sanitize_filename :: "gostr \<Rightarrow> gostr" where
  "sanitize_filename key = sanitize_key key"

text \<open>
  \<open>Save\<close>: whether the name is refused, and the directory with the file replaced or added. A name
  without separators is local unless it is empty or \<open>..\<close>.
\<close>

fun put_file :: "gostr \<Rightarrow> 'c \<Rightarrow> (gostr \<times> 'c) list \<Rightarrow> (gostr \<times> 'c) list" where
  "put_file name c [] = [(name, c)]"
| "put_file name c ((n, d) # fs) = (if n = name then (name, c) # fs else (n, d) # put_file name c fs)"

definition sm_save :: "'m session_manager \<Rightarrow> gostr \<Rightarrow> 'm session_dir \<Rightarrow> bool \<times> 'm session_dir" where
  "sm_save sm key dir =
     (if sg_storage sm = [] then (True, dir)
      else
        let filename = sanitize_filename key in
        if filename = ''.'' \<or> filename = [] \<or> filename = ''..'' then (False, dir)
        else case sg_sessions sm key of
               None \<Rightarrow> (True, dir)
             | Some stored \<Rightarrow> (True, put_file (filename @ ''.json'') (Some stored) dir))"

section \<open>Migration\<close>

definition is_legacy :: "gostr \<Rightarrow> bool" where
  "is_legacy name \<longleftrightarrow>
     has_suffix name ''.json'' \<and> \<not> has_suffix name ''.meta.json'' \<and> \<not> has_suffix name ''.migrated''"

definition trim_suffix :: "gostr \<Rightarrow> gostr \<Rightarrow> gostr" where
  "trim_suffix s p = (if has_suffix s p then take (length s - length p) s else s)"

text \<open>The key of a migrated file.\<close>

definition legacy_key :: "gostr \<Rightarrow> 'm session \<Rightarrow> gostr" where
  "legacy_key name sess = (if ss_Key sess = [] then trim_suffix name ''.json'' else ss_Key sess)"

text \<open>
  The loop over the directory entries: the error that ends it, the number of migrated sessions,
  the store and the directory with the renamed files. \<open>renames\<close> says which renames succeed.
\<close>

fun migrate_loop ::
  "('m \<Rightarrow> gostr) \<Rightarrow> int \<Rightarrow> (gostr \<Rightarrow> bool) \<Rightarrow> 'm session_dir \<Rightarrow> nat \<Rightarrow> jsonl_files
   \<Rightarrow> store_error option \<times> nat \<times> jsonl_files \<times> 'm session_dir" where
  "migrate_loop enc now renames [] n d = (None, n, d, [])"
| "migrate_loop enc now renames ((name, content) # dir) n d =
     (if \<not> is_legacy name then
        (let (e, n', d', dir') = migrate_loop enc now renames dir n d in (e, n', d', (name, content) # dir'))
      else case content of
        None \<Rightarrow>
          (let (e, n', d', dir') = migrate_loop enc now renames dir n d in (e, n', d', (name, content) # dir'))
      | Some sess \<Rightarrow>
          let key = legacy_key name sess;
              op1 = set_history enc now d key (ss_Messages sess);
              d1 = commit op1 d in
          (case fst op1 of
             Some e \<Rightarrow> (Some e, n, d1, (name, content) # dir)
           | None \<Rightarrow>
               let op2 = (if ss_Summary sess \<noteq> [] then set_summary now d1 key (ss_Summary sess) else (None, []));
                   d2 = commit op2 d1 in
               (case fst op2 of
                  Some e \<Rightarrow> (Some e, n, d2, (name, content) # dir)
                | None \<Rightarrow>
                    let name' = (if renames name then name @ ''.migrated'' else name);
                        (e, n', d', dir') = migrate_loop enc now renames dir (n + 1) d2
                    in (e, n', d', (name', content) # dir'))))"

definition migrate_from_json ::
  "('m \<Rightarrow> gostr) \<Rightarrow> int \<Rightarrow> (gostr \<Rightarrow> bool) \<Rightarrow> 'm session_dir \<Rightarrow> jsonl_files
   \<Rightarrow> store_error option \<times> nat \<times> jsonl_files \<times> 'm session_dir" where
  "migrate_from_json enc now renames dir d = migrate_loop enc now renames dir 0 d"

section \<open>The manager keeps the contract\<close>

text \<open>Its history is in memory, one per key; saving leaves it alone.\<close>

interpretation manager: session_store "\<lambda>_. True" "(=)" "\<lambda>_. True" sm_get_history "add_full_message now"
  "sm_set_history now" "sm_truncate_history now" "\<lambda>sm key. sm"
  for now :: int
  by unfold_locales
    (auto simp: sm_get_history_def add_full_message_def sm_set_history_def sm_truncate_history_def
      keep_last_def Let_def split: option.splits)

section \<open>Saving and loading\<close>

lemma load_sessions_Nil [simp]: "load_sessions [] m = m"
  by (simp add: load_sessions_def)

lemma load_sessions_Cons [simp]:
  "load_sessions ((name, c) # dir) m =
     load_sessions dir (if has_suffix name ''.json'' then
        (case c of None \<Rightarrow> m | Some s \<Rightarrow> m(ss_Key s \<mapsto> s)) else m)"
  by (simp add: load_sessions_def split: option.splits)

lemma has_suffix_append [simp]: "has_suffix (s @ p) p"
  by (simp add: has_suffix_def has_prefix_def)

definition holds_key :: "gostr \<Rightarrow> gostr \<times> 'm session option \<Rightarrow> bool" where
  "holds_key key f \<longleftrightarrow> (case snd f of None \<Rightarrow> False | Some s \<Rightarrow> ss_Key s = key)"

lemma load_sessions_other:
  "\<not> list_ex (holds_key key) dir \<Longrightarrow> load_sessions dir m key = m key"
proof (induction dir arbitrary: m)
  case (Cons f dir)
  obtain name c where f: "f = (name, c)" by (cases f)
  from Cons.prems have nh: "\<not> list_ex (holds_key key) dir" and k: "\<not> holds_key key f" by simp_all
  from k show ?case by (simp add: f Cons.IH [OF nh] holds_key_def split: option.splits)
qed simp

text \<open>A directory in which at most the file \<open>name\<close> holds the key.\<close>

definition only_file :: "gostr \<Rightarrow> gostr \<Rightarrow> 'm session_dir \<Rightarrow> bool" where
  "only_file name key dir \<longleftrightarrow> (\<forall>f\<in>set dir. holds_key key f \<longrightarrow> fst f = name)"

lemma load_put_file:
  assumes "only_file (n @ ''.json'') (ss_Key s) dir" "distinct (map fst dir)"
  shows "load_sessions (put_file (n @ ''.json'') (Some s) dir) m (ss_Key s) = Some s"
  using assms
proof (induction dir arbitrary: m)
  case (Cons f dir)
  obtain name c where f: "f = (name, c)" by (cases f)
  show ?case
  proof (cases "name = n @ ''.json''")
    case True
    have "\<not> holds_key (ss_Key s) g" if "g \<in> set dir" for g
    proof -
      have "fst g \<noteq> n @ ''.json''" using Cons.prems(2) that f True by force
      with Cons.prems(1) that show ?thesis by (auto simp: only_file_def)
    qed
    then have "\<not> list_ex (holds_key (ss_Key s)) dir" by (auto simp: list_ex_iff)
    with True show ?thesis by (simp add: f load_sessions_other)
  next
    case False
    with Cons show ?thesis by (auto simp: f only_file_def)
  qed
qed simp

lemma put_file_twice: "put_file n c (put_file n d []) = [(n, c)]"
  by simp

section \<open>Migrated sessions\<close>

lemma set_summary_holds:
  assumes "holds enc dec d (sanitize_key k) xs skip"
  shows "holds enc dec (commit (set_summary now d k s) d) (sanitize_key k) xs skip"
proof -
  obtain meta where "read_meta d k = Inr meta" "sm_Skip meta = skip" using assms by (rule holds_meta)
  with assms show ?thesis by (auto simp: holds_def set_summary_def commit_def Let_def)
qed

definition migratable :: "'m session_dir \<Rightarrow> (gostr \<times> 'm session) list" where
  "migratable dir =
     concat (map (\<lambda>(name, c). case c of None \<Rightarrow> [] | Some s \<Rightarrow> if is_legacy name then [(name, s)] else []) dir)"

lemma migratable_Cons:
  "migratable ((name, c) # dir) =
     (case c of None \<Rightarrow> migratable dir
      | Some s \<Rightarrow> if is_legacy name then (name, s) # migratable dir else migratable dir)"
  by (simp add: migratable_def split: option.splits)

abbreviation file_of :: "gostr \<times> 'm session \<Rightarrow> gostr" where
  "file_of p \<equiv> sanitize_key (legacy_key (fst p) (snd p))"

text \<open>One file: the writes of its session end well and leave its messages as the history.\<close>

lemma migrate_one:
  fixes k :: gostr and now :: int
  assumes "jsonl_ok enc dec d" "\<forall>m\<in>set (ss_Messages s). line_ok enc dec m"
  defines "op1 \<equiv> set_history enc now d k (ss_Messages s)"
  defines "op2 \<equiv> (if ss_Summary s \<noteq> [] then set_summary now (commit op1 d) k (ss_Summary s) else (None, []))"
  shows "fst op1 = None" "fst op2 = None" "jsonl_ok enc dec (commit op2 (commit op1 d))"
    "holds enc dec (commit op2 (commit op1 d)) (sanitize_key k) (ss_Messages s) 0"
    "f \<noteq> sanitize_key k \<Longrightarrow> holds enc dec (commit op2 (commit op1 d)) f xs skip = holds enc dec d f xs skip"
proof -
  obtain xs skip where h: "holds enc dec d (sanitize_key k) xs skip" using assms(1) by (meson jsonl_okE)
  obtain meta where m: "read_meta d k = Inr meta" using h by (rule holds_meta)
  show "fst op1 = None" by (simp add: op1_def set_history_def m Let_def)
  have h1: "holds enc dec (commit op1 d) (sanitize_key k) (ss_Messages s) 0"
    unfolding op1_def using h assms(2) by (rule set_holds)
  obtain meta1 where m1: "read_meta (commit op1 d) k = Inr meta1" using h1 by (rule holds_meta)
  show "fst op2 = None" by (simp add: op2_def set_summary_def m1 Let_def)
  show h2: "holds enc dec (commit op2 (commit op1 d)) (sanitize_key k) (ss_Messages s) 0"
    using set_summary_holds [OF h1] h1 by (simp add: op2_def commit_def)
  have w1: "\<And>w. w \<in> set (snd op1) \<Longrightarrow> write_file w = sanitize_key k"
    unfolding op1_def by (rule op_writes(2))
  have w2: "\<And>w. w \<in> set (snd op2) \<Longrightarrow> write_file w = sanitize_key k"
    using op_writes(5) [of _ now "commit op1 d" k "ss_Summary s"] by (auto simp: op2_def split: if_splits)
  have ok1: "jsonl_ok enc dec (commit op1 d)"
    by (rule jsonl_ok_commit [OF assms(1)], erule w1, intro exI, rule h1)
  show "jsonl_ok enc dec (commit op2 (commit op1 d))"
    by (rule jsonl_ok_commit [OF ok1], erule w2, intro exI, rule h2)
  show "holds enc dec (commit op2 (commit op1 d)) f xs skip = holds enc dec d f xs skip"
    if "f \<noteq> sanitize_key k" for f xs skip
    using holds_commit_other [of op1 "sanitize_key k" f enc dec d xs skip, OF w1 that]
      holds_commit_other [of op2 "sanitize_key k" f enc dec "commit op1 d" xs skip, OF w2 that] by simp
qed

lemma is_legacy_migrated: "\<not> is_legacy (name @ ''.migrated'')"
  by (simp add: is_legacy_def)

lemma migrate_loop_result:
  assumes "jsonl_ok enc dec d" "distinct (map file_of (migratable dir))"
    "\<forall>p\<in>set (migratable dir). \<forall>m\<in>set (ss_Messages (snd p)). line_ok enc dec m"
  shows "\<exists>d' dir'. migrate_loop enc now renames dir n d = (None, n + length (migratable dir), d', dir')
    \<and> jsonl_ok enc dec d'
    \<and> (\<forall>p\<in>set (migratable dir). holds enc dec d' (file_of p) (ss_Messages (snd p)) 0)
    \<and> (\<forall>f xs skip. f \<notin> file_of ` set (migratable dir) \<longrightarrow> holds enc dec d' f xs skip = holds enc dec d f xs skip)
    \<and> ((\<forall>x. renames x) \<longrightarrow> migratable dir' = [])"
  using assms
proof (induction dir arbitrary: n d)
  case Nil
  then show ?case by (simp add: migratable_def)
next
  case (Cons f dir)
  obtain name c where f: "f = (name, c)" by (cases f)
  show ?case
  proof (cases "is_legacy name \<and> c \<noteq> None")
    case False
    then have same: "migratable (f # dir) = migratable dir" by (auto simp: f migratable_Cons split: option.splits)
    from Cons.IH [of d n] Cons.prems obtain d' dir' where
      r: "migrate_loop enc now renames dir n d = (None, n + length (migratable dir), d', dir')"
        "jsonl_ok enc dec d'"
        "\<forall>p\<in>set (migratable dir). holds enc dec d' (file_of p) (ss_Messages (snd p)) 0"
        "\<forall>f xs skip. f \<notin> file_of ` set (migratable dir) \<longrightarrow> holds enc dec d' f xs skip = holds enc dec d f xs skip"
        "(\<forall>x. renames x) \<longrightarrow> migratable dir' = []"
      unfolding same by blast
    have "migrate_loop enc now renames (f # dir) n d = (None, n + length (migratable dir), d', (name, c) # dir')"
      using False by (auto simp: f r(1) split: option.splits)
    moreover have "(\<forall>x. renames x) \<longrightarrow> migratable ((name, c) # dir') = []"
      using r(5) False by (auto simp: migratable_Cons split: option.splits)
    ultimately show ?thesis unfolding same using r by blast
  next
    case True
    then obtain s where c: "c = Some s" by blast
    let ?k = "legacy_key name s"
    let ?op1 = "set_history enc now d ?k (ss_Messages s)"
    let ?op2 = "if ss_Summary s \<noteq> [] then set_summary now (commit ?op1 d) ?k (ss_Summary s) else (None, [])"
    let ?d2 = "commit ?op2 (commit ?op1 d)"
    have mig: "migratable (f # dir) = (name, s) # migratable dir" using True by (simp add: f c migratable_Cons)
    have ok: "\<forall>m\<in>set (ss_Messages s). line_ok enc dec m" using Cons.prems(3) by (simp add: mig)
    note one = migrate_one [OF Cons.prems(1) ok, where k = ?k and now = now]
    from Cons.IH [OF one(3), of "n + 1"] Cons.prems(2,3) obtain d' dir' where
      r: "migrate_loop enc now renames dir (n + 1) ?d2 = (None, n + 1 + length (migratable dir), d', dir')"
        "jsonl_ok enc dec d'"
        "\<forall>p\<in>set (migratable dir). holds enc dec d' (file_of p) (ss_Messages (snd p)) 0"
        "\<forall>f xs skip. f \<notin> file_of ` set (migratable dir) \<longrightarrow> holds enc dec d' f xs skip = holds enc dec ?d2 f xs skip"
        "(\<forall>x. renames x) \<longrightarrow> migratable dir' = []"
      unfolding mig by auto
    let ?name = "if renames name then name @ ''.migrated'' else name"
    have "migrate_loop enc now renames (f # dir) n d =
        (None, n + length (migratable (f # dir)), d', (?name, c) # dir')"
      using True one(1,2) r(1) unfolding mig by (simp add: f c Let_def)
    moreover have "holds enc dec d' (file_of p) (ss_Messages (snd p)) 0" if "p \<in> set (migratable (f # dir))" for p
    proof (cases "p \<in> set (migratable dir)")
      case True
      with r(3) show ?thesis by blast
    next
      case False
      with that have p: "p = (name, s)" by (simp add: mig)
      have "file_of p \<notin> file_of ` set (migratable dir)" using Cons.prems(2) by (simp add: mig p)
      with r(4) one(4) show ?thesis by (simp add: p)
    qed
    moreover have "holds enc dec d' g xs skip = holds enc dec d g xs skip"
      if "g \<notin> file_of ` set (migratable (f # dir))" for g xs skip
      using that r(4) one(5) by (simp add: mig)
    moreover have "(\<forall>x. renames x) \<longrightarrow> migratable ((?name, c) # dir') = []"
      using r(5) is_legacy_migrated by (simp add: migratable_Cons c)
    ultimately show ?thesis using r(2) by blast
  qed
qed

section \<open>Properties\<close>

text \<open>
  Saving a session and starting again gives the session back: its history and its summary are
  the ones that were saved, as long as no other file of the directory claims the same key.
\<close>

theorem save_restart:
  assumes "sg_sessions sm key = Some s" "ss_Key s = key" "sg_storage sm \<noteq> []"
    "sanitize_filename key \<notin> {[], ''.'', ''..''}" "distinct (map fst dir)"
    "only_file (sanitize_filename key @ ''.json'') key dir"
  shows "fst (sm_save sm key dir) \<and>
    sm_get_history (new_session_manager (sg_storage sm) (snd (sm_save sm key dir))) key = sm_get_history sm key \<and>
    sm_get_summary (new_session_manager (sg_storage sm) (snd (sm_save sm key dir))) key = sm_get_summary sm key"
proof -
  have "sm_save sm key dir = (True, put_file (sanitize_filename key @ ''.json'') (Some s) dir)"
    using assms(1,3,4) by (simp add: sm_save_def Let_def)
  moreover have "load_sessions (put_file (sanitize_filename key @ ''.json'') (Some s) dir) Map.empty key = Some s"
    using load_put_file [of "sanitize_filename key" s dir] assms(2,5,6) by simp
  ultimately show ?thesis
    using assms(1,3) by (simp add: new_session_manager_def sm_get_history_def sm_get_summary_def)
qed

abbreviation sm_ex :: "gostr session_manager" where
  "sm_ex \<equiv> add_full_message 2 (add_full_message 1 (new_session_manager ''d'' []) ''agent:a'' ''hi'') ''agent_a'' ''yo''"

theorem save_restart_witness:
  "sm_get_history (new_session_manager ''d'' (snd (sm_save sm_ex ''agent:a'' []))) ''agent:a'' = [''hi'']"
proof -
  have n: "sanitize_filename ''agent:a'' = ''agent_a''" by code_simp
  have s: "sg_sessions sm_ex ''agent:a'' = Some \<lparr>ss_Key = ''agent:a'', ss_Messages = [''hi''], ss_Summary = [],
      ss_Created = Some 1, ss_Updated = Some 1\<rparr>" "sg_storage sm_ex = ''d''"
    by (simp_all add: add_full_message_def new_session_manager_def)
  show ?thesis
    using save_restart [OF s(1), of "[]"] s by (simp add: n only_file_def sm_get_history_def)
qed

text \<open>
  C35 Two sessions whose keys differ only in \<open>:\<close>, \<open>/\<close>, \<open>\\<close> and \<open>_\<close> share a file: saving the second
  overwrites the first, and after a restart the first session is gone.
\<close>

theorem save_collision:
  assumes "sg_sessions sm k1 = Some s1" "sg_sessions sm k2 = Some s2" "ss_Key s2 = k2" "k1 \<noteq> k2"
    "same_file k1 k2" "sg_storage sm \<noteq> []" "sanitize_filename k1 \<notin> {[], ''.'', ''..''}"
  shows "sm_get_history (new_session_manager (sg_storage sm)
      (snd (sm_save sm k2 (snd (sm_save sm k1 []))))) k1 = []"
proof -
  let ?n = "sanitize_filename k1"
  have n2: "sanitize_filename k2 = ?n" using assms(5) by (simp add: sanitize_filename_def same_file_def)
  have "snd (sm_save sm k1 []) = put_file (?n @ ''.json'') (Some s1) []"
    using assms(1,6,7) by (simp add: sm_save_def Let_def)
  then have "snd (sm_save sm k2 (snd (sm_save sm k1 []))) = [(?n @ ''.json'', Some s2)]"
    using assms(2,6,7) by (simp add: sm_save_def Let_def n2)
  then show ?thesis
    using assms(3,4,6) by (simp add: new_session_manager_def sm_get_history_def)
qed

theorem save_collision_witness:
  "sm_get_history sm_ex ''agent:a'' = [''hi''] \<and>
   sm_get_history (new_session_manager ''d'' (snd (sm_save sm_ex ''agent_a'' (snd (sm_save sm_ex ''agent:a'' []))))) ''agent:a'' = []"
proof -
  have n: "sanitize_filename ''agent:a'' = ''agent_a''" by code_simp
  have f: "same_file ''agent:a'' ''agent_a''" by (simp add: same_file_def) code_simp
  have s: "sg_sessions sm_ex ''agent:a'' = Some \<lparr>ss_Key = ''agent:a'', ss_Messages = [''hi''], ss_Summary = [],
      ss_Created = Some 1, ss_Updated = Some 1\<rparr>"
    "sg_sessions sm_ex ''agent_a'' = Some \<lparr>ss_Key = ''agent_a'', ss_Messages = [''yo''], ss_Summary = [],
      ss_Created = Some 2, ss_Updated = Some 2\<rparr>" "sg_storage sm_ex = ''d''"
    by (simp_all add: add_full_message_def new_session_manager_def)
  show ?thesis
    using save_collision [OF s(1,2) _ _ f] s by (simp add: n sm_get_history_def)
qed

text \<open>
  The two stores cannot be swapped freely: setting the history of a session that does not exist
  yet is ignored by the manager, while the JSONL store creates the session with that history.
\<close>

theorem set_history_stores_differ:
  assumes "sg_sessions sm k = None" "jsonl_ok enc dec d" "\<forall>m\<in>set h. line_ok enc dec m"
  shows "sm_get_history (sm_set_history now sm k h) k = [] \<and>
    backend_history dec (backend_set_history enc now d k h) k = h"
proof -
  obtain xs skip where "holds enc dec d (sanitize_key k) xs skip" using assms(2) by (meson jsonl_okE)
  from holds_history(2) [OF set_holds [OF this assms(3)]] assms(1) show ?thesis
    by (simp add: backend_set_history_def sm_get_history_def sm_set_history_def)
qed

theorem set_history_stores_differ_witness:
  "sm_get_history (sm_set_history 3 (new_session_manager [] []) ''k'' [''hi'']) ''k'' = [] \<and>
   backend_history unquote (backend_set_history quote 3 no_files ''k'' [''hi'']) ''k'' = [''hi'']"
proof -
  have "newline \<notin> set ''hi''" by code_simp
  then have "\<forall>m\<in>set [''hi'']. line_ok quote unquote m" by (simp add: line_ok_quote)
  from set_history_stores_differ [OF _ no_files_ok this, of "new_session_manager [] []" "''k''" 3]
  show ?thesis by (simp add: new_session_manager_def)
qed

text \<open>
  Migration moves every readable legacy session: when no two of them share a file, it ends
  without an error, counts them all, the store has the messages of each as its history, and, if
  the renames succeed, nothing is left for a second migration.
\<close>

theorem migrate_complete:
  assumes "jsonl_ok enc dec d" "distinct (map file_of (migratable dir))"
    "\<forall>p\<in>set (migratable dir). \<forall>m\<in>set (ss_Messages (snd p)). line_ok enc dec m"
  shows "case migrate_from_json enc now renames dir d of (e, n, d', dir') \<Rightarrow>
    e = None \<and> n = length (migratable dir) \<and>
    (\<forall>(name, s) \<in> set (migratable dir). backend_history dec d' (legacy_key name s) = ss_Messages s) \<and>
    ((\<forall>x. renames x) \<longrightarrow> migratable dir' = [])"
proof -
  from migrate_loop_result [OF assms, of now renames 0] obtain d' dir' where
    r: "migrate_from_json enc now renames dir d = (None, length (migratable dir), d', dir')"
      "\<forall>p\<in>set (migratable dir). holds enc dec d' (file_of p) (ss_Messages (snd p)) 0"
      "(\<forall>x. renames x) \<longrightarrow> migratable dir' = []"
    by (auto simp: migrate_from_json_def)
  have "backend_history dec d' (legacy_key name s) = ss_Messages s" if "(name, s) \<in> set (migratable dir)" for name s
    using bspec [OF r(2) that] holds_history(2) [of enc dec d' "legacy_key name s" "ss_Messages s" 0] by simp
  with r(1,3) show ?thesis by auto
qed

theorem migrate_complete_witness:
  "case migrate_from_json quote 9 (\<lambda>_. True)
      [(''a.json'', Some \<lparr>ss_Key = ''k:1'', ss_Messages = [''hi''], ss_Summary = ''s'', ss_Created = None, ss_Updated = None\<rparr>),
       (''b.meta.json'', None)] no_files of
     (e, n, d', dir') \<Rightarrow> n = 1 \<and> backend_history unquote d' ''k:1'' = [''hi'']"
proof -
  let ?s = "\<lparr>ss_Key = ''k:1'', ss_Messages = [''hi''], ss_Summary = ''s'', ss_Created = None, ss_Updated = None\<rparr>"
  let ?dir = "[(''a.json'', Some ?s), (''b.meta.json'', None)]"
  have "is_legacy ''a.json''" by code_simp
  then have m: "migratable ?dir = [(''a.json'', ?s)]" by (simp add: migratable_def)
  have "newline \<notin> set ''hi''" by code_simp
  then have l: "line_ok quote unquote ''hi''" by (simp add: line_ok_quote)
  show ?thesis
    using migrate_complete [OF no_files_ok, where dir = ?dir and enc = quote and dec = unquote and now = 9
        and renames = "\<lambda>_. True"] l
    by (simp add: m legacy_key_def split: prod.splits)
qed

end
