(* ===== verification/Media_Store.thy ===== *)
theory Media_Store imports Prelude "HOL-Library.List_Lexorder" "HOL-Library.Char_ord" begin

text \<open>
  The media store: \<open>pkg/media/store.go\<close>. The store is three maps under one mutex; the files are a
  set of paths on disk. The order in which Go visits a map or a set is the parameter \<open>ord\<close>; the
  random part of a reference and the clock are arguments. Removing a file always succeeds.
\<close>

section \<open>Interface: a registry of scoped references\<close>

locale media_registry =
  fixes ok :: "'s \<Rightarrow> bool"
    and path_of :: "'s \<Rightarrow> gostr \<Rightarrow> 'p option"
    and scope_of :: "'s \<Rightarrow> gostr \<Rightarrow> gostr option"
    and put :: "'s \<Rightarrow> gostr \<Rightarrow> 'p \<Rightarrow> gostr \<Rightarrow> 's"
    and release :: "'s \<Rightarrow> gostr \<Rightarrow> 's"
  assumes scope_known: "ok s \<Longrightarrow> scope_of s r = None \<longleftrightarrow> path_of s r = None"
    and put_ok: "ok s \<Longrightarrow> path_of s r = None \<Longrightarrow> ok (put s r p sc)"
    and put_path: "path_of (put s r p sc) r' = (if r' = r then Some p else path_of s r')"
    and put_scope: "scope_of (put s r p sc) r' = (if r' = r then Some sc else scope_of s r')"
    and release_ok: "ok s \<Longrightarrow> ok (release s sc)"
    and release_path: "ok s \<Longrightarrow> path_of (release s sc) r = (if scope_of s r = Some sc then None else path_of s r)"
begin

abbreviation put_all :: "(gostr \<times> 'p) list \<Rightarrow> gostr \<Rightarrow> 's \<Rightarrow> 's" where
  "put_all rs sc s \<equiv> fold (\<lambda>(r, p) s. put s r p sc) rs s"

lemma put_all_facts:
  "ok s \<Longrightarrow> distinct (map fst rs) \<Longrightarrow> (\<forall>r\<in>set (map fst rs). path_of s r = None) \<Longrightarrow>
     ok (put_all rs sc s) \<and>
     (\<forall>r. path_of (put_all rs sc s) r = (case map_of rs r of None \<Rightarrow> path_of s r | Some p \<Rightarrow> Some p)) \<and>
     (\<forall>r. scope_of (put_all rs sc s) r = (if r \<in> set (map fst rs) then Some sc else scope_of s r))"
proof (induction rs arbitrary: s)
  case (Cons x rs)
  obtain r p where x: "x = (r, p)" by (cases x)
  have "map_of rs r = None" using Cons.prems(2) by (simp add: x map_of_eq_None_iff)
  moreover have "\<forall>r'\<in>set (map fst rs). path_of (put s r p sc) r' = None"
    using Cons.prems(2,3) by (auto simp: x put_path)
  ultimately show ?case
    using Cons.IH [of "put s r p sc"] Cons.prems by (auto simp: x put_ok put_path put_scope split: option.splits)
qed simp

text \<open>Releasing a scope undoes what was stored in it since it was empty.\<close>

lemma put_all_release:
  assumes "ok s" "distinct (map fst rs)" "\<forall>r\<in>set (map fst rs). path_of s r = None"
    "\<forall>r. scope_of s r \<noteq> Some sc"
  shows "path_of (release (put_all rs sc s) sc) r = path_of s r"
proof (cases "r \<in> set (map fst rs)")
  case True
  then have "path_of s r = None" using assms(3) by blast
  with True put_all_facts [OF assms(1-3), of sc] show ?thesis by (simp add: release_path)
next
  case False
  then have "map_of rs r = None" by (simp add: map_of_eq_None_iff)
  with False assms(4) put_all_facts [OF assms(1-3), of sc] show ?thesis by (simp add: release_path)
qed

end

section \<open>Model\<close>

record media_meta =
  mm_Filename :: gostr
  mm_ContentType :: gostr
  mm_Source :: gostr

record media_entry =
  me_path :: gostr
  me_meta :: media_meta
  me_storedAt :: int

record media_cleaner_config =
  mc_Enabled :: bool
  mc_MaxAge :: duration
  mc_Interval :: duration

text \<open>\<open>fm_stop\<close> says whether there is a channel \<open>stop\<close>; the last two record the two \<open>sync.Once\<close>.\<close>

record file_media_store =
  fm_refs :: "gostr \<rightharpoonup> media_entry"
  fm_scopeToRefs :: "gostr \<rightharpoonup> gostr set"
  fm_refToScope :: "gostr \<rightharpoonup> gostr"
  fm_cleanerCfg :: media_cleaner_config
  fm_stop :: bool
  fm_started :: bool
  fm_stopped :: bool

definition new_file_media_store :: file_media_store where
  "new_file_media_store =
     \<lparr>fm_refs = Map.empty, fm_scopeToRefs = Map.empty, fm_refToScope = Map.empty,
      fm_cleanerCfg = \<lparr>mc_Enabled = False, mc_MaxAge = 0, mc_Interval = 0\<rparr>, fm_stop = False,
      fm_started = False, fm_stopped = False\<rparr>"

definition new_file_media_store_with_cleanup :: "media_cleaner_config \<Rightarrow> file_media_store" where
  "new_file_media_store_with_cleanup cfg =
     new_file_media_store\<lparr>fm_cleanerCfg := cfg, fm_stop := True\<rparr>"

text \<open>The part of \<open>Store\<close> under the lock.\<close>

definition put_entry :: "file_media_store \<Rightarrow> gostr \<Rightarrow> media_entry \<Rightarrow> gostr \<Rightarrow> file_media_store" where
  "put_entry s ref e scope =
     s\<lparr>fm_refs := (fm_refs s)(ref \<mapsto> e),
       fm_scopeToRefs := (fm_scopeToRefs s)(scope \<mapsto>
         insert ref (case fm_scopeToRefs s scope of None \<Rightarrow> {} | Some R \<Rightarrow> R)),
       fm_refToScope := (fm_refToScope s)(ref \<mapsto> scope)\<rparr>"

definition media_ref :: "gostr \<Rightarrow> gostr" where
  "media_ref uuid = ''media://'' @ uuid"

definition store_media ::
  "gostr set \<Rightarrow> gostr \<Rightarrow> int \<Rightarrow> file_media_store \<Rightarrow> gostr \<Rightarrow> media_meta \<Rightarrow> gostr
   \<Rightarrow> gostr option \<times> file_media_store" where
  "store_media files uuid now s local_path meta scope =
     (if local_path \<notin> files then (None, s)
      else
        let ref = media_ref uuid
        in (Some ref, put_entry s ref (\<lparr>me_path = local_path, me_meta = meta, me_storedAt = now\<rparr>) scope))"

definition resolve_media :: "file_media_store \<Rightarrow> gostr \<Rightarrow> gostr option" where
  "resolve_media s ref = map_option me_path (fm_refs s ref)"

definition resolve_with_meta :: "file_media_store \<Rightarrow> gostr \<Rightarrow> (gostr \<times> media_meta) option" where
  "resolve_with_meta s ref = map_option (\<lambda>e. (me_path e, me_meta e)) (fm_refs s ref)"

text \<open>Phase 1 of \<open>ReleaseAll\<close>: one reference, and then the loop; phase 2 removes the files.\<close>

definition release_one :: "gostr \<Rightarrow> file_media_store \<times> gostr list \<Rightarrow> file_media_store \<times> gostr list" where
  "release_one ref st =
     (case st of (s, paths) \<Rightarrow>
        (s\<lparr>fm_refs := (fm_refs s)(ref := None), fm_refToScope := (fm_refToScope s)(ref := None)\<rparr>,
         case fm_refs s ref of None \<Rightarrow> paths | Some e \<Rightarrow> paths @ [me_path e]))"

definition release_all ::
  "(gostr set \<Rightarrow> gostr list) \<Rightarrow> file_media_store \<Rightarrow> gostr \<Rightarrow> file_media_store \<times> gostr list" where
  "release_all ord s scope =
     (case fm_scopeToRefs s scope of
        None \<Rightarrow> (s, [])
      | Some refs \<Rightarrow>
          (case fold release_one (ord refs) (s, []) of
             (s', paths) \<Rightarrow> (s'\<lparr>fm_scopeToRefs := (fm_scopeToRefs s')(scope := None)\<rparr>, paths)))"

definition remove_files :: "gostr list \<Rightarrow> gostr set \<Rightarrow> gostr set" where
  "remove_files paths files = files - set paths"

definition unscope :: "gostr \<Rightarrow> file_media_store \<Rightarrow> file_media_store" where
  "unscope ref s =
     (case fm_refToScope s ref of
        None \<Rightarrow> s
      | Some scope \<Rightarrow>
          (case fm_scopeToRefs s scope of
             None \<Rightarrow> s
           | Some R \<Rightarrow>
               let R' = R - {ref}
               in s\<lparr>fm_scopeToRefs := (fm_scopeToRefs s)(scope := (if R' = {} then None else Some R'))\<rparr>))"

definition drop_ref :: "gostr \<Rightarrow> file_media_store \<Rightarrow> file_media_store" where
  "drop_ref ref s0 =
     (let s = unscope ref s0
      in s\<lparr>fm_refs := (fm_refs s)(ref := None), fm_refToScope := (fm_refToScope s)(ref := None)\<rparr>)"

definition clean_one :: "int \<Rightarrow> gostr \<Rightarrow> file_media_store \<times> gostr list \<Rightarrow> file_media_store \<times> gostr list" where
  "clean_one cutoff ref st =
     (case st of (s, paths) \<Rightarrow>
        (case fm_refs s ref of
           None \<Rightarrow> (s, paths)
         | Some e \<Rightarrow>
             if me_storedAt e < cutoff then (drop_ref ref s, paths @ [me_path e]) else (s, paths)))"

text \<open>\<open>CleanExpired\<close>: the new store and the paths removed; their number is the result.\<close>

definition clean_expired ::
  "(gostr set \<Rightarrow> gostr list) \<Rightarrow> int \<Rightarrow> file_media_store \<Rightarrow> file_media_store \<times> gostr list" where
  "clean_expired ord now s =
     (if mc_MaxAge (fm_cleanerCfg s) \<le> 0 then (s, [])
      else fold (clean_one (now - mc_MaxAge (fm_cleanerCfg s))) (ord (dom (fm_refs s))) (s, []))"

text \<open>\<open>Start\<close> and \<open>Stop\<close>: whether the cleaner goroutine is started, or the channel closed.\<close>

definition start_cleaner :: "file_media_store \<Rightarrow> bool \<times> file_media_store" where
  "start_cleaner s =
     (if \<not> mc_Enabled (fm_cleanerCfg s) \<or> \<not> fm_stop s then (False, s)
      else if mc_Interval (fm_cleanerCfg s) \<le> 0 \<or> mc_MaxAge (fm_cleanerCfg s) \<le> 0 then (False, s)
      else if fm_started s then (False, s)
      else (True, s\<lparr>fm_started := True\<rparr>))"

definition stop_cleaner :: "file_media_store \<Rightarrow> bool \<times> file_media_store" where
  "stop_cleaner s =
     (if \<not> fm_stop s \<or> fm_stopped s then (False, s) else (True, s\<lparr>fm_stopped := True\<rparr>))"

section \<open>Invariant\<close>

text \<open>The references of a scope, the empty set when it has none.\<close>

definition scope_refs :: "file_media_store \<Rightarrow> gostr \<Rightarrow> gostr set" where
  "scope_refs s sc = (case fm_scopeToRefs s sc of None \<Rightarrow> {} | Some R \<Rightarrow> R)"

definition media_ok :: "file_media_store \<Rightarrow> bool" where
  "media_ok s \<longleftrightarrow>
     (\<forall>r. fm_refs s r = None \<longleftrightarrow> fm_refToScope s r = None) \<and> finite (dom (fm_refs s)) \<and>
     (\<forall>sc. fm_scopeToRefs s sc \<noteq> Some {}) \<and>
     (\<forall>r sc. fm_refToScope s r = Some sc \<longleftrightarrow> r \<in> scope_refs s sc)"

lemma media_ok_new: "media_ok new_file_media_store" "media_ok (new_file_media_store_with_cleanup cfg)"
  by (simp_all add: media_ok_def scope_refs_def new_file_media_store_def new_file_media_store_with_cleanup_def)

lemma scope_refs_put:
  "scope_refs (put_entry s ref e scope) sc = (if sc = scope then insert ref (scope_refs s sc) else scope_refs s sc)"
  by (simp add: scope_refs_def put_entry_def)

lemma media_ok_put:
  assumes ok: "media_ok s" and new: "fm_refs s ref = None"
  shows "media_ok (put_entry s ref e scope)"
proof -
  from ok new have none: "fm_refToScope s ref = None" by (simp add: media_ok_def)
  with ok have "ref \<notin> scope_refs s sc" for sc unfolding media_ok_def by (metis option.distinct(1))
  with ok show ?thesis
    unfolding media_ok_def scope_refs_put by (auto simp: put_entry_def)
qed

lemma drop_ref_maps [simp]:
  "fm_refs (drop_ref ref s) = (fm_refs s)(ref := None)"
  "fm_refToScope (drop_ref ref s) = (fm_refToScope s)(ref := None)"
  "fm_cleanerCfg (drop_ref ref s) = fm_cleanerCfg s"
  by (auto simp: drop_ref_def unscope_def Let_def split: option.splits)

lemma scope_refs_drop:
  "scope_refs (drop_ref ref s) sc = (if fm_refToScope s ref = Some sc then scope_refs s sc - {ref} else scope_refs s sc)"
  by (auto simp: scope_refs_def drop_ref_def unscope_def Let_def split: option.splits)

lemma drop_ref_nonempty: "\<forall>sc. fm_scopeToRefs s sc \<noteq> Some {} \<Longrightarrow> fm_scopeToRefs (drop_ref ref s) sc \<noteq> Some {}"
  by (auto simp: drop_ref_def unscope_def Let_def split: option.splits)

lemma media_ok_drop: "media_ok s \<Longrightarrow> media_ok (drop_ref ref s)"
  unfolding media_ok_def
  by (intro conjI) (auto simp: drop_ref_nonempty scope_refs_drop)

text \<open>The loops.\<close>

lemma clean_one_media_ok: "media_ok s \<Longrightarrow> media_ok (fst (clean_one cutoff ref (s, paths)))"
  by (auto simp: clean_one_def media_ok_drop split: option.splits)

definition expired :: "int \<Rightarrow> file_media_store \<Rightarrow> gostr \<Rightarrow> bool" where
  "expired cutoff s ref \<longleftrightarrow> (\<exists>e. fm_refs s ref = Some e \<and> me_storedAt e < cutoff)"

lemma clean_one_cases:
  "expired cutoff s ref \<Longrightarrow>
     clean_one cutoff ref (s, paths) = (drop_ref ref s, paths @ [me_path (the (fm_refs s ref))])"
  "\<not> expired cutoff s ref \<Longrightarrow> clean_one cutoff ref (s, paths) = (s, paths)"
  by (auto simp: clean_one_def expired_def split: option.splits)

lemma clean_fold:
  assumes "distinct refs" "media_ok s"
  shows "\<exists>s'. fold (clean_one cutoff) refs (s, paths) =
      (s', paths @ map (\<lambda>r. me_path (the (fm_refs s r))) (filter (expired cutoff s) refs)) \<and>
    media_ok s' \<and> fm_cleanerCfg s' = fm_cleanerCfg s \<and>
    (\<forall>r. fm_refs s' r = (if r \<in> set refs \<and> expired cutoff s r then None else fm_refs s r)) \<and>
    (\<forall>r. fm_refToScope s' r = (if r \<in> set refs \<and> expired cutoff s r then None else fm_refToScope s r))"
  using assms
proof (induction refs arbitrary: s paths)
  case (Cons x refs)
  have d: "distinct refs" "x \<notin> set refs" using Cons.prems(1) by simp_all
  show ?case
  proof (cases "expired cutoff s x")
    case True
    let ?s = "drop_ref x s"
    have other: "r \<in> set refs \<Longrightarrow> fm_refs ?s r = fm_refs s r" for r using d(2) by auto
    then have exp: "r \<in> set refs \<Longrightarrow> expired cutoff ?s r = expired cutoff s r" for r
      by (simp add: expired_def)
    then have flt: "filter (expired cutoff ?s) refs = filter (expired cutoff s) refs"
      by (rule filter_cong [OF refl])
    have mp: "map (\<lambda>r. me_path (the (fm_refs ?s r))) (filter (expired cutoff ?s) refs) =
        map (\<lambda>r. me_path (the (fm_refs s r))) (filter (expired cutoff s) refs)"
      unfolding flt using other by (intro map_cong refl) simp
    from Cons.IH [OF d(1) media_ok_drop [OF Cons.prems(2)], of x "paths @ [me_path (the (fm_refs s x))]"]
    obtain s' where r: "fold (clean_one cutoff) refs (?s, paths @ [me_path (the (fm_refs s x))]) =
          (s', (paths @ [me_path (the (fm_refs s x))]) @
               map (\<lambda>r. me_path (the (fm_refs s r))) (filter (expired cutoff s) refs))"
        "media_ok s'" "fm_cleanerCfg s' = fm_cleanerCfg s"
        "\<forall>r. fm_refs s' r = (if r \<in> set refs \<and> expired cutoff ?s r then None else fm_refs ?s r)"
        "\<forall>r. fm_refToScope s' r = (if r \<in> set refs \<and> expired cutoff ?s r then None else fm_refToScope ?s r)"
      unfolding mp by auto
    show ?thesis
    proof (intro exI conjI allI)
      show "fold (clean_one cutoff) (x # refs) (s, paths) =
          (s', paths @ map (\<lambda>r. me_path (the (fm_refs s r))) (filter (expired cutoff s) (x # refs)))"
        using True by (simp add: clean_one_cases(1) r(1))
      show "fm_refs s' r = (if r \<in> set (x # refs) \<and> expired cutoff s r then None else fm_refs s r)" for r
        using r(4) exp [of r] True by auto
      show "fm_refToScope s' r = (if r \<in> set (x # refs) \<and> expired cutoff s r then None else fm_refToScope s r)" for r
        using r(5) exp [of r] True by auto
    qed (use r in simp_all)
  next
    case False
    with Cons.IH [OF d(1) Cons.prems(2), of paths] show ?thesis by (simp add: clean_one_cases(2)) auto
  qed
qed simp

lemma release_fold:
  "fold release_one refs (s, paths) =
     (s\<lparr>fm_refs := (\<lambda>r. if r \<in> set refs then None else fm_refs s r),
        fm_refToScope := (\<lambda>r. if r \<in> set refs then None else fm_refToScope s r)\<rparr>,
      paths @ map (\<lambda>r. me_path (the (fm_refs s r))) (filter (\<lambda>r. fm_refs s r \<noteq> None) refs))"
  if "distinct refs"
  using that
proof (induction refs arbitrary: s paths)
  case (Cons x refs)
  have "filter (\<lambda>r. ((fm_refs s)(x := None)) r \<noteq> None) refs = filter (\<lambda>r. fm_refs s r \<noteq> None) refs"
    using Cons.prems by (intro filter_cong) auto
  moreover have "map (\<lambda>r. me_path (the (((fm_refs s)(x := None)) r))) (filter (\<lambda>r. fm_refs s r \<noteq> None) refs) =
      map (\<lambda>r. me_path (the (fm_refs s r))) (filter (\<lambda>r. fm_refs s r \<noteq> None) refs)"
    using Cons.prems by (intro map_cong) auto
  ultimately show ?case
    using Cons by (simp add: release_one_def fun_eq_iff split: option.splits)
qed simp

section \<open>The store keeps the contract\<close>

lemma finite_scope_refs: "media_ok s \<Longrightarrow> finite (scope_refs s sc)"
proof -
  assume ok: "media_ok s"
  then have "scope_refs s sc \<subseteq> dom (fm_refs s)" by (auto simp: media_ok_def dom_def)
  with ok show ?thesis by (meson finite_subset media_ok_def)
qed

text \<open>What \<open>ReleaseAll\<close> leaves behind, and the files it removes.\<close>

lemma release_all_result:
  assumes "visits ord" "media_ok s"
  shows "fm_refs (fst (release_all ord s sc)) r = (if r \<in> scope_refs s sc then None else fm_refs s r)"
    "fm_refToScope (fst (release_all ord s sc)) r = (if r \<in> scope_refs s sc then None else fm_refToScope s r)"
    "scope_refs (fst (release_all ord s sc)) sc' = (if sc' = sc then {} else scope_refs s sc')"
    "\<forall>x. fm_scopeToRefs (fst (release_all ord s sc)) x \<noteq> Some {}"
    "set (snd (release_all ord s sc)) = me_path ` {e. \<exists>r \<in> scope_refs s sc. fm_refs s r = Some e}"
proof -
  show "set (snd (release_all ord s sc)) = me_path ` {e. \<exists>r \<in> scope_refs s sc. fm_refs s r = Some e}"
  proof (cases "fm_scopeToRefs s sc")
    case None
    then show ?thesis by (simp add: release_all_def scope_refs_def)
  next
    case (Some R)
    then have "finite R" using finite_scope_refs [OF assms(2), of sc] by (simp add: scope_refs_def)
    with assms(1) have o: "set (ord R) = R" "distinct (ord R)" by (auto simp: visits_def)
    show ?thesis by (force simp: release_all_def Some release_fold [OF o(2)] scope_refs_def o(1))
  qed
  show "fm_refs (fst (release_all ord s sc)) r = (if r \<in> scope_refs s sc then None else fm_refs s r)"
    "fm_refToScope (fst (release_all ord s sc)) r = (if r \<in> scope_refs s sc then None else fm_refToScope s r)"
    "scope_refs (fst (release_all ord s sc)) sc' = (if sc' = sc then {} else scope_refs s sc')"
    "\<forall>x. fm_scopeToRefs (fst (release_all ord s sc)) x \<noteq> Some {}"
  proof -
    have d: "distinct (ord R) \<and> set (ord R) = R" if "fm_scopeToRefs s sc = Some R" for R
      using finite_scope_refs [OF assms(2), of sc] assms(1) that by (simp add: scope_refs_def visits_def)
    show "fm_refs (fst (release_all ord s sc)) r = (if r \<in> scope_refs s sc then None else fm_refs s r)"
      "fm_refToScope (fst (release_all ord s sc)) r = (if r \<in> scope_refs s sc then None else fm_refToScope s r)"
      "scope_refs (fst (release_all ord s sc)) sc' = (if sc' = sc then {} else scope_refs s sc')"
      using d by (auto simp: release_all_def scope_refs_def release_fold split: option.splits)
    show "\<forall>x. fm_scopeToRefs (fst (release_all ord s sc)) x \<noteq> Some {}"
      using d assms(2) by (auto simp: release_all_def media_ok_def release_fold split: option.splits)
  qed
qed

lemma media_ok_release: "visits ord \<Longrightarrow> media_ok s \<Longrightarrow> media_ok (fst (release_all ord s sc))"
proof -
  assume a: "visits ord" "media_ok s"
  note r = release_all_result [OF a, of sc]
  have "dom (fm_refs (fst (release_all ord s sc))) \<subseteq> dom (fm_refs s)" by (auto simp: r(1) dom_def split: if_splits)
  then have "finite (dom (fm_refs (fst (release_all ord s sc))))"
    using a(2) by (meson finite_subset media_ok_def)
  moreover have scoped: "\<And>x sc'. fm_refToScope s x = Some sc' \<longleftrightarrow> x \<in> scope_refs s sc'"
    using a(2) by (simp add: media_ok_def)
  have "\<forall>x. fm_refs (fst (release_all ord s sc)) x = None \<longleftrightarrow> fm_refToScope (fst (release_all ord s sc)) x = None"
    using a(2) by (simp add: release_all_result(1,2) [OF a] media_ok_def)
  moreover have "\<forall>x sc'. fm_refToScope (fst (release_all ord s sc)) x = Some sc' \<longleftrightarrow> x \<in> scope_refs (fst (release_all ord s sc)) sc'"
  proof (intro allI)
    fix x sc'
    show "fm_refToScope (fst (release_all ord s sc)) x = Some sc' \<longleftrightarrow> x \<in> scope_refs (fst (release_all ord s sc)) sc'"
      using scoped [of x sc] scoped [of x sc'] by (auto simp: release_all_result(2,3) [OF a])
  qed
  ultimately show ?thesis using r(4) unfolding media_ok_def by blast
qed

interpretation media: media_registry "\<lambda>s. visits ord \<and> media_ok s" fm_refs fm_refToScope put_entry
  "\<lambda>s sc. fst (release_all ord s sc)" for ord :: "gostr set \<Rightarrow> gostr list"
proof (unfold_locales, goal_cases)
  case (1 s r) then show ?case by (simp add: media_ok_def)
next
  case (2 s r p sc) then show ?case by (simp add: media_ok_put)
next
  case (3 s r p sc r') show ?case by (simp add: put_entry_def)
next
  case (4 s r p sc r') show ?case by (simp add: put_entry_def)
next
  case (5 s sc) then show ?case by (simp add: media_ok_release)
next
  case (6 s sc r)
  then have "fm_refToScope s r = Some sc \<longleftrightarrow> r \<in> scope_refs s sc" by (simp add: media_ok_def)
  with 6 show ?case by (simp add: release_all_result(1))
qed

text \<open>What \<open>CleanExpired\<close> leaves behind.\<close>

lemma clean_expired_result:
  assumes "visits ord" "media_ok s" "0 < mc_MaxAge (fm_cleanerCfg s)"
    and cutoff_def: "cutoff = now - mc_MaxAge (fm_cleanerCfg s)"
  shows "media_ok (fst (clean_expired ord now s))"
    "fm_refs (fst (clean_expired ord now s)) r = (if expired cutoff s r then None else fm_refs s r)"
    "set (snd (clean_expired ord now s)) = me_path ` {e. \<exists>r. fm_refs s r = Some e \<and> me_storedAt e < cutoff}"
    "length (snd (clean_expired ord now s)) = card {r. expired cutoff s r}"
proof -
  have o: "set (ord (dom (fm_refs s))) = dom (fm_refs s)" "distinct (ord (dom (fm_refs s)))"
    using assms(1,2) by (auto simp: visits_def media_ok_def)
  from clean_fold [OF o(2) assms(2), of cutoff "[]"] obtain s' where
    c: "clean_expired ord now s = (s', map (\<lambda>r. me_path (the (fm_refs s r))) (filter (expired cutoff s) (ord (dom (fm_refs s)))))"
      "media_ok s'" "\<forall>r. fm_refs s' r = (if r \<in> dom (fm_refs s) \<and> expired cutoff s r then None else fm_refs s r)"
    using assms(3) by (auto simp: clean_expired_def cutoff_def o(1))
  show "media_ok (fst (clean_expired ord now s))" using c by simp
  show "fm_refs (fst (clean_expired ord now s)) r = (if expired cutoff s r then None else fm_refs s r)"
    using c by (auto simp: expired_def dom_def)
  have dm: "expired cutoff s r \<Longrightarrow> r \<in> dom (fm_refs s)" for r by (auto simp: expired_def)
  show "set (snd (clean_expired ord now s)) = me_path ` {e. \<exists>r. fm_refs s r = Some e \<and> me_storedAt e < cutoff}"
    using dm by (force simp: c(1) o(1) expired_def)
  have "length (filter (expired cutoff s) (ord (dom (fm_refs s)))) = card (set (filter (expired cutoff s) (ord (dom (fm_refs s)))))"
    using o(2) by (metis distinct_card distinct_filter)
  moreover have "set (filter (expired cutoff s) (ord (dom (fm_refs s)))) = {r. expired cutoff s r}"
    using dm by (auto simp: o(1))
  ultimately show "length (snd (clean_expired ord now s)) = card {r. expired cutoff s r}" by (simp add: c(1))
qed

section \<open>Properties\<close>

text \<open>The operations of the store, on the disk and in memory.\<close>

datatype media_event =
  EvStore gostr int gostr media_meta gostr \<comment> \<open>the random part of the reference, the time, the path and the scope\<close>
| EvRelease gostr
| EvClean int

fun media_do :: "(gostr set \<Rightarrow> gostr list) \<Rightarrow> media_event \<Rightarrow> file_media_store \<times> gostr set \<Rightarrow> file_media_store \<times> gostr set" where
  "media_do ord (EvStore uuid now path meta scope) (s, files) = (snd (store_media files uuid now s path meta scope), files)"
| "media_do ord (EvRelease scope) (s, files) =
     (fst (release_all ord s scope), remove_files (snd (release_all ord s scope)) files)"
| "media_do ord (EvClean now) (s, files) =
     (fst (clean_expired ord now s), remove_files (snd (clean_expired ord now s)) files)"

fun fresh_event :: "media_event \<Rightarrow> file_media_store \<Rightarrow> bool" where
  "fresh_event (EvStore uuid now path meta scope) s = (fm_refs s (media_ref uuid) = None)"
| "fresh_event _ s = True"

fun fresh_run :: "(gostr set \<Rightarrow> gostr list) \<Rightarrow> media_event list \<Rightarrow> file_media_store \<times> gostr set \<Rightarrow> bool" where
  "fresh_run ord [] st = True"
| "fresh_run ord (e # es) st = (fresh_event e (fst st) \<and> fresh_run ord es (media_do ord e st))"

lemma media_ok_do:
  "visits ord \<Longrightarrow> media_ok s \<Longrightarrow> fresh_event e s \<Longrightarrow> media_ok (fst (media_do ord e (s, files)))"
proof (cases e)
  case (EvClean now)
  assume a: "visits ord" "media_ok s"
  show ?thesis
  proof (cases "0 < mc_MaxAge (fm_cleanerCfg s)")
    case True
    from clean_expired_result(1) [OF a True refl] show ?thesis by (simp add: EvClean)
  qed (simp add: EvClean clean_expired_def a)
qed (auto simp: store_media_def Let_def media_ok_put media_ok_release)

text \<open>
  C39 The three maps of the media store agree after any sequence of stores, releases and clean-ups
  whose references are new: every reference has one scope, every scope lists exactly its
  references, and no scope is kept empty.
\<close>

theorem media_invariant:
  assumes "visits ord" "fresh_run ord evs (new_file_media_store_with_cleanup cfg, files)"
  shows "media_ok (fst (fold (media_do ord) evs (new_file_media_store_with_cleanup cfg, files)))"
proof -
  have "media_ok (fst st) \<Longrightarrow> fresh_run ord evs st \<Longrightarrow> media_ok (fst (fold (media_do ord) evs st))" for st
  proof (induction evs arbitrary: st)
    case (Cons e evs)
    then have "media_ok (fst (media_do ord e st))"
      using media_ok_do [OF assms(1), of "fst st" e "snd st"] by simp
    with Cons show ?case by simp
  qed simp
  with assms(2) media_ok_new(2) show ?thesis by simp
qed

abbreviation cfg30 :: media_cleaner_config where
  "cfg30 \<equiv> \<lparr>mc_Enabled = True, mc_MaxAge = seconds 1800, mc_Interval = seconds 300\<rparr>"

abbreviation meta0 :: media_meta where
  "meta0 \<equiv> \<lparr>mm_Filename = ''a'', mm_ContentType = ''t'', mm_Source = ''tool:send_file''\<rparr>"

theorem media_invariant_witness:
  "media_ok (fst (fold (media_do sorted_list_of_set) [EvStore ''1'' 0 ''/ws/a'' meta0 ''s'', EvRelease ''s'']
     (new_file_media_store_with_cleanup cfg30, {''/ws/a''})))"
  by (rule media_invariant [OF visits_sorted])
    (simp add: new_file_media_store_with_cleanup_def new_file_media_store_def)

text \<open>
  A clean-up removes exactly the entries stored before the cutoff, deletes exactly their files,
  and returns how many there were; every other reference still resolves to the same path.
\<close>

theorem clean_expired_exact:
  assumes "visits ord" "media_ok s" "0 < mc_MaxAge (fm_cleanerCfg s)"
  shows "(\<forall>r. resolve_media (fst (clean_expired ord now s)) r =
      (case fm_refs s r of None \<Rightarrow> None
       | Some e \<Rightarrow> if me_storedAt e < now - mc_MaxAge (fm_cleanerCfg s) then None else Some (me_path e))) \<and>
    remove_files (snd (clean_expired ord now s)) files =
      files - {me_path e |e r. fm_refs s r = Some e \<and> me_storedAt e < now - mc_MaxAge (fm_cleanerCfg s)} \<and>
    length (snd (clean_expired ord now s)) =
      card {r. expired (now - mc_MaxAge (fm_cleanerCfg s)) s r}"
proof (intro conjI allI)
  note c = clean_expired_result [OF assms refl, of now]
  show "resolve_media (fst (clean_expired ord now s)) r =
      (case fm_refs s r of None \<Rightarrow> None
       | Some e \<Rightarrow> if me_storedAt e < now - mc_MaxAge (fm_cleanerCfg s) then None else Some (me_path e))" for r
    by (auto simp: resolve_media_def c(2) expired_def split: option.splits)
  show "remove_files (snd (clean_expired ord now s)) files =
      files - {me_path e |e r. fm_refs s r = Some e \<and> me_storedAt e < now - mc_MaxAge (fm_cleanerCfg s)}"
    unfolding remove_files_def c(3) by blast
  show "length (snd (clean_expired ord now s)) = card {r. expired (now - mc_MaxAge (fm_cleanerCfg s)) s r}"
    by (rule c(4))
qed

theorem clean_expired_exact_witness:
  "resolve_media (fst (clean_expired sorted_list_of_set (seconds 10) (new_file_media_store_with_cleanup cfg30))) ''r'' = None"
proof -
  have "0 < mc_MaxAge (fm_cleanerCfg (new_file_media_store_with_cleanup cfg30))"
    by (simp add: new_file_media_store_with_cleanup_def)
  from clean_expired_exact [OF visits_sorted media_ok_new(2) this, of "seconds 10" "{}"]
  show ?thesis by (simp add: new_file_media_store_with_cleanup_def new_file_media_store_def)
qed

text \<open>
  C38 The store does not own the files it is given: whatever file is registered, as \<open>send_file\<close>
  registers files of the user's workspace, is deleted from disk by the first clean-up after its
  maximal age, whoever else still uses it.
\<close>

theorem registered_file_deleted:
  assumes "visits ord" "media_ok s" "0 < mc_MaxAge (fm_cleanerCfg s)" "path \<in> files"
    "fm_refs s (media_ref uuid) = None" "t + mc_MaxAge (fm_cleanerCfg s) < now"
  shows "path \<notin> snd (media_do ord (EvClean now) (media_do ord (EvStore uuid t path meta scope) (s, files)))"
proof -
  let ?e = "\<lparr>me_path = path, me_meta = meta, me_storedAt = t\<rparr>"
  let ?s = "put_entry s (media_ref uuid) ?e scope"
  have st: "snd (store_media files uuid t s path meta scope) = ?s" using assms(4) by (simp add: store_media_def Let_def)
  have ok: "media_ok ?s" using assms(2,5) by (rule media_ok_put)
  have cfg: "fm_cleanerCfg ?s = fm_cleanerCfg s" "fm_refs ?s (media_ref uuid) = Some ?e"
    by (simp_all add: put_entry_def)
  have "path \<in> set (snd (clean_expired ord now ?s))"
    unfolding clean_expired_result(3) [OF assms(1) ok, unfolded cfg, OF assms(3) refl]
    using assms(6) cfg(2) by (auto intro!: image_eqI [of _ _ ?e])
  then show ?thesis by (simp add: st remove_files_def)
qed

theorem registered_file_deleted_witness:
  "''/ws/report.pdf'' \<notin> snd (media_do sorted_list_of_set (EvClean (seconds 2000))
     (media_do sorted_list_of_set (EvStore ''1'' 0 ''/ws/report.pdf'' meta0 ''tool:send_file:tg:7'')
        (new_file_media_store_with_cleanup cfg30, {''/ws/report.pdf''})))"
  by (rule registered_file_deleted [OF visits_sorted media_ok_new(2)])
    (simp_all add: new_file_media_store_with_cleanup_def new_file_media_store_def)

end
