(* ===== verification/Cron_Service.thy ===== *)
theory Cron_Service imports Prelude begin

text \<open>
  Package \<open>cron\<close> (\<open>pkg/cron/service.go\<close>): the scheduler of the jobs that the agent runs later.

  The jobs are the list \<open>cs.store.Jobs\<close>; the store file is what it decodes to, and a flag says
  whether it can be written. Instants are milliseconds in an \<open>int64\<close>, so that
  \<open>now + every\<close> wraps. What \<open>gronx.NextTickAfter\<close> answers is the parameter
  \<open>next_tick\<close>. The job handler is a parameter that sees and returns a world, the service and the
  disk: it stands for the callback and for whatever other goroutines do to the service while it
  runs, since the lock is not held then. The clock readings of a call are its arguments.
\<close>

section \<open>Data\<close>

record cron_schedule =
  sch_Kind :: gostr
  sch_AtMS :: "int option"
  sch_EveryMS :: "int option"
  sch_Expr :: gostr
  sch_TZ :: gostr

record cron_payload =
  pl_Kind :: gostr
  pl_Message :: gostr
  pl_Command :: gostr
  pl_Deliver :: bool
  pl_Channel :: gostr
  pl_To :: gostr

record cron_job_state =
  js_NextRunAtMS :: "int option"
  js_LastRunAtMS :: "int option"
  js_LastStatus :: gostr
  js_LastError :: gostr

record cron_job =
  cj_ID :: gostr
  cj_Name :: gostr
  cj_Enabled :: bool
  cj_Schedule :: cron_schedule
  cj_Payload :: cron_payload
  cj_State :: cron_job_state
  cj_CreatedAtMS :: int
  cj_UpdatedAtMS :: int
  cj_DeleteAfterRun :: bool

text \<open>
  The store file: absent, unreadable, text that is not JSON or does not fit (with the jobs decoded
  before the error), or a list of jobs.
\<close>

datatype cron_file = NoFile | Unreadable | Malformed "cron_job list" | Saved "cron_job list"

record cron_disk =
  cd_file :: cron_file
  cd_writable :: bool

record cron_service =
  cs_Jobs :: "cron_job list"
  cs_running :: bool

abbreviation next_run :: "cron_job \<Rightarrow> int option" where
  "next_run j \<equiv> js_NextRunAtMS (cj_State j)"

abbreviation set_next :: "int option \<Rightarrow> cron_job \<Rightarrow> cron_job" where
  "set_next n j \<equiv> j\<lparr>cj_State := (cj_State j)\<lparr>js_NextRunAtMS := n\<rparr>\<rparr>"

text \<open>The addition of \<open>int64\<close>.\<close>

definition int64 :: "int \<Rightarrow> int" where
  "int64 n = (n + 2 ^ 63) mod 2 ^ 64 - 2 ^ 63"

section \<open>The store file\<close>

definition load_store :: "cron_disk \<Rightarrow> cron_service \<Rightarrow> bool \<times> cron_service" where
  "load_store dk cs =
     (case cd_file dk of
        NoFile \<Rightarrow> (True, cs\<lparr>cs_Jobs := []\<rparr>)
      | Unreadable \<Rightarrow> (False, cs\<lparr>cs_Jobs := []\<rparr>)
      | Malformed jobs \<Rightarrow> (False, cs\<lparr>cs_Jobs := jobs\<rparr>)
      | Saved jobs \<Rightarrow> (True, cs\<lparr>cs_Jobs := jobs\<rparr>))"

definition save_store :: "cron_service \<Rightarrow> cron_disk \<Rightarrow> bool \<times> cron_disk" where
  "save_store cs dk =
     (if cd_writable dk then (True, dk\<lparr>cd_file := Saved (cs_Jobs cs)\<rparr>) else (False, dk))"

text \<open>\<open>NewCronService\<close> loads the store and ignores the error.\<close>

definition new_cron_service :: "cron_disk \<Rightarrow> cron_service" where
  "new_cron_service dk = snd (load_store dk \<lparr>cs_Jobs = [], cs_running = False\<rparr>)"

section \<open>The next run\<close>

definition compute_next_run :: "(gostr \<Rightarrow> int \<Rightarrow> int option) \<Rightarrow> cron_schedule \<Rightarrow> int \<Rightarrow> int option" where
  "compute_next_run next_tick s now =
     (if sch_Kind s = ''at''
      then (case sch_AtMS s of None \<Rightarrow> None | Some a \<Rightarrow> if a > now then Some a else None)
      else if sch_Kind s = ''every''
      then (case sch_EveryMS s of None \<Rightarrow> None | Some e \<Rightarrow> if e \<le> 0 then None else Some (int64 (now + e)))
      else if sch_Kind s = ''cron''
      then (if sch_Expr s = [] then None else next_tick (sch_Expr s) now)
      else None)"

definition recompute_next_runs :: "(gostr \<Rightarrow> int \<Rightarrow> int option) \<Rightarrow> int \<Rightarrow> cron_service \<Rightarrow> cron_service" where
  "recompute_next_runs next_tick now cs =
     cs\<lparr>cs_Jobs := map (\<lambda>j. if cj_Enabled j then set_next (compute_next_run next_tick (cj_Schedule j) now) j else j)
                    (cs_Jobs cs)\<rparr>"

fun next_wake_loop :: "cron_job list \<Rightarrow> int option \<Rightarrow> int option" where
  "next_wake_loop [] wake = wake"
| "next_wake_loop (j # js) wake =
     next_wake_loop js
       (if cj_Enabled j \<and> next_run j \<noteq> None \<and> (wake = None \<or> the (next_run j) < the wake)
        then next_run j else wake)"

definition get_next_wake :: "cron_service \<Rightarrow> int option" where
  "get_next_wake cs = next_wake_loop (cs_Jobs cs) None"

section \<open>Start and stop\<close>

text \<open>\<open>Start\<close>: whether it succeeded, the service and the disk.\<close>

definition start_cron ::
  "(gostr \<Rightarrow> int \<Rightarrow> int option) \<Rightarrow> int \<Rightarrow> cron_service \<times> cron_disk \<Rightarrow> bool \<times> cron_service \<times> cron_disk" where
  "start_cron next_tick now st =
     (case st of (cs, dk) \<Rightarrow>
        if cs_running cs then (True, cs, dk)
        else
          (case load_store dk cs of
             (False, cs1) \<Rightarrow> (False, cs1, dk)
           | (True, cs1) \<Rightarrow>
               let cs2 = recompute_next_runs next_tick now cs1
               in (case save_store cs2 dk of
                     (False, dk') \<Rightarrow> (False, cs2, dk')
                   | (True, dk') \<Rightarrow> (True, cs2\<lparr>cs_running := True\<rparr>, dk'))))"

definition stop_cron :: "cron_service \<Rightarrow> cron_service" where
  "stop_cron cs = (if cs_running cs then cs\<lparr>cs_running := False\<rparr> else cs)"

section \<open>Looking up and editing jobs\<close>

definition find_job :: "gostr \<Rightarrow> cron_job list \<Rightarrow> cron_job option" where
  "find_job i jobs = List.find (\<lambda>j. cj_ID j = i) jobs"

text \<open>An assignment through the index of the first job with the identifier.\<close>

fun edit_job :: "gostr \<Rightarrow> (cron_job \<Rightarrow> cron_job) \<Rightarrow> cron_job list \<Rightarrow> cron_job list" where
  "edit_job i f [] = []"
| "edit_job i f (j # js) = (if cj_ID j = i then f j # js else j # edit_job i f js)"

text \<open>
  \<open>AddJob\<close>: the job and the result \<open>None\<close> when the store could not be saved. The identifier comes
  from \<open>generateID\<close>.
\<close>

definition new_job ::
  "(gostr \<Rightarrow> int \<Rightarrow> int option) \<Rightarrow> int \<Rightarrow> gostr \<Rightarrow> gostr \<Rightarrow> cron_schedule \<Rightarrow> gostr \<Rightarrow> bool \<Rightarrow> gostr \<Rightarrow> gostr \<Rightarrow> cron_job" where
  "new_job next_tick now i name s message deliver channel to =
     \<lparr>cj_ID = i, cj_Name = name, cj_Enabled = True, cj_Schedule = s,
      cj_Payload = \<lparr>pl_Kind = ''agent_turn'', pl_Message = message, pl_Command = [], pl_Deliver = deliver,
                    pl_Channel = channel, pl_To = to\<rparr>,
      cj_State = \<lparr>js_NextRunAtMS = compute_next_run next_tick s now, js_LastRunAtMS = None,
                  js_LastStatus = [], js_LastError = []\<rparr>,
      cj_CreatedAtMS = now, cj_UpdatedAtMS = now, cj_DeleteAfterRun = (sch_Kind s = ''at'')\<rparr>"

definition add_job :: "cron_job \<Rightarrow> cron_service \<times> cron_disk \<Rightarrow> cron_job option \<times> cron_service \<times> cron_disk" where
  "add_job job st =
     (case st of (cs, dk) \<Rightarrow>
        let cs' = cs\<lparr>cs_Jobs := cs_Jobs cs @ [job]\<rparr>
        in (case save_store cs' dk of
              (True, dk') \<Rightarrow> (Some job, cs', dk')
            | (False, dk') \<Rightarrow> (None, cs', dk')))"

definition update_job :: "int \<Rightarrow> cron_job \<Rightarrow> cron_service \<times> cron_disk \<Rightarrow> bool \<times> cron_service \<times> cron_disk" where
  "update_job now job st =
     (case st of (cs, dk) \<Rightarrow>
        (case find_job (cj_ID job) (cs_Jobs cs) of
           None \<Rightarrow> (False, cs, dk)
         | Some _ \<Rightarrow>
             let cs' = cs\<lparr>cs_Jobs := edit_job (cj_ID job) (\<lambda>_. job\<lparr>cj_UpdatedAtMS := now\<rparr>) (cs_Jobs cs)\<rparr>
             in (case save_store cs' dk of (ok, dk') \<Rightarrow> (ok, cs', dk'))))"

definition remove_job :: "gostr \<Rightarrow> cron_service \<times> cron_disk \<Rightarrow> bool \<times> cron_service \<times> cron_disk" where
  "remove_job i st =
     (case st of (cs, dk) \<Rightarrow>
        let jobs = filter (\<lambda>j. cj_ID j \<noteq> i) (cs_Jobs cs);
            cs' = cs\<lparr>cs_Jobs := jobs\<rparr>;
            removed = length jobs < length (cs_Jobs cs)
        in (removed, cs', if removed then snd (save_store cs' dk) else dk))"

definition enable_job ::
  "(gostr \<Rightarrow> int \<Rightarrow> int option) \<Rightarrow> int \<Rightarrow> gostr \<Rightarrow> bool \<Rightarrow> cron_service \<times> cron_disk \<Rightarrow>
   cron_job option \<times> cron_service \<times> cron_disk" where
  "enable_job next_tick now i enabled st =
     (case st of (cs, dk) \<Rightarrow>
        (case find_job i (cs_Jobs cs) of
           None \<Rightarrow> (None, cs, dk)
         | Some _ \<Rightarrow>
             let upd = (\<lambda>j. set_next (if enabled then compute_next_run next_tick (cj_Schedule j) now else None)
                              (j\<lparr>cj_Enabled := enabled, cj_UpdatedAtMS := now\<rparr>));
                 cs' = cs\<lparr>cs_Jobs := edit_job i upd (cs_Jobs cs)\<rparr>
             in (find_job i (cs_Jobs cs'), cs', snd (save_store cs' dk))))"

definition list_jobs :: "bool \<Rightarrow> cron_service \<Rightarrow> cron_job list" where
  "list_jobs includeDisabled cs = (if includeDisabled then cs_Jobs cs else filter cj_Enabled (cs_Jobs cs))"

definition cron_status :: "cron_service \<Rightarrow> bool \<times> nat \<times> int option" where
  "cron_status cs = (cs_running cs, length (cs_Jobs cs), get_next_wake cs)"

section \<open>Running jobs\<close>

type_synonym 'w handler =
  "cron_job \<Rightarrow> 'w \<times> cron_service \<times> cron_disk \<Rightarrow> gostr option \<times> 'w \<times> cron_service \<times> cron_disk"

text \<open>The fields set after a run: \<open>t0\<close> is its start, \<open>t1\<close> the reading for \<open>UpdatedAtMS\<close>.\<close>

definition note_run :: "gostr option \<Rightarrow> int \<Rightarrow> int \<Rightarrow> cron_job \<Rightarrow> cron_job" where
  "note_run err t0 t1 j =
     j\<lparr>cj_State := (cj_State j)\<lparr>js_LastRunAtMS := Some t0,
         js_LastStatus := (case err of None \<Rightarrow> ''ok'' | Some _ \<Rightarrow> ''error''),
         js_LastError := (case err of None \<Rightarrow> [] | Some e \<Rightarrow> e)\<rparr>,
       cj_UpdatedAtMS := t1\<rparr>"

text \<open>The part of \<open>executeJobByID\<close> under the second lock.\<close>

definition finish_job ::
  "(gostr \<Rightarrow> int \<Rightarrow> int option) \<Rightarrow> int \<times> int \<times> int \<Rightarrow> gostr \<Rightarrow> gostr option \<Rightarrow>
   cron_service \<times> cron_disk \<Rightarrow> cron_service \<times> cron_disk" where
  "finish_job next_tick ts i err st =
     (case ts of (t0, t1, t2) \<Rightarrow> case st of (cs, dk) \<Rightarrow>
        (case find_job i (cs_Jobs cs) of
           None \<Rightarrow> (cs, dk)
         | Some job \<Rightarrow>
             let cs1 = cs\<lparr>cs_Jobs := edit_job i (note_run err t0 t1) (cs_Jobs cs)\<rparr>;
                 (cs2, dk2) =
                   (if sch_Kind (cj_Schedule job) = ''at''
                    then (if cj_DeleteAfterRun job then snd (remove_job i (cs1, dk))
                          else (cs1\<lparr>cs_Jobs := edit_job i (\<lambda>j. set_next None (j\<lparr>cj_Enabled := False\<rparr>)) (cs_Jobs cs1)\<rparr>, dk))
                    else (cs1\<lparr>cs_Jobs := edit_job i (\<lambda>j. set_next (compute_next_run next_tick (cj_Schedule j) t2) j) (cs_Jobs cs1)\<rparr>, dk))
             in (cs2, snd (save_store cs2 dk2))))"

definition execute_job_by_id ::
  "(gostr \<Rightarrow> int \<Rightarrow> int option) \<Rightarrow> 'w handler option \<Rightarrow> int \<times> int \<times> int \<Rightarrow> gostr \<Rightarrow>
   'w \<times> cron_service \<times> cron_disk \<Rightarrow> 'w \<times> cron_service \<times> cron_disk" where
  "execute_job_by_id next_tick on_job ts i st =
     (case st of (w, cs, dk) \<Rightarrow>
        (case find_job i (cs_Jobs cs) of
           None \<Rightarrow> (w, cs, dk)
         | Some job \<Rightarrow>
             (case (case on_job of None \<Rightarrow> (None, w, cs, dk) | Some h \<Rightarrow> h job (w, cs, dk)) of
                (err, w', cs', dk') \<Rightarrow> (w', finish_job next_tick ts i err (cs', dk')))))"

definition is_due :: "int \<Rightarrow> cron_job \<Rightarrow> bool" where
  "is_due now j \<longleftrightarrow> cj_Enabled j \<and> (case next_run j of None \<Rightarrow> False | Some n \<Rightarrow> n \<le> now)"

definition due_ids :: "int \<Rightarrow> cron_job list \<Rightarrow> gostr list" where
  "due_ids now jobs = map cj_ID (filter (is_due now) jobs)"

definition clear_next :: "gostr list \<Rightarrow> cron_job list \<Rightarrow> cron_job list" where
  "clear_next ids jobs = map (\<lambda>j. if cj_ID j \<in> set ids then set_next None j else j) jobs"

text \<open>\<open>checkJobs\<close> at the time \<open>now\<close>; \<open>ts i\<close> are the clock readings of the run of job \<open>i\<close>.\<close>

definition check_jobs ::
  "(gostr \<Rightarrow> int \<Rightarrow> int option) \<Rightarrow> 'w handler option \<Rightarrow> int \<Rightarrow> (gostr \<Rightarrow> int \<times> int \<times> int) \<Rightarrow>
   'w \<times> cron_service \<times> cron_disk \<Rightarrow> 'w \<times> cron_service \<times> cron_disk" where
  "check_jobs next_tick on_job now ts st =
     (case st of (w, cs, dk) \<Rightarrow>
        if \<not> cs_running cs then (w, cs, dk)
        else
          let ids = due_ids now (cs_Jobs cs);
              cs1 = cs\<lparr>cs_Jobs := clear_next ids (cs_Jobs cs)\<rparr>;
              dk1 = snd (save_store cs1 dk)
          in fold (\<lambda>i. execute_job_by_id next_tick on_job (ts i) i) ids (w, cs1, dk1))"

section \<open>What the operations do to a list of jobs\<close>

definition saved :: "cron_disk \<Rightarrow> cron_job list \<Rightarrow> cron_disk" where
  "saved dk jobs = (if cd_writable dk then dk\<lparr>cd_file := Saved jobs\<rparr> else dk)"

lemma save_store_saved: "save_store cs dk = (cd_writable dk, saved dk (cs_Jobs cs))"
  by (simp add: save_store_def saved_def)

lemma saved_simps [simp]:
  "cd_writable (saved dk jobs) = cd_writable dk"
  "saved (saved dk jobs) jobs' = saved dk jobs'"
  by (simp_all add: saved_def)

text \<open>A job after its run: \<open>None\<close> when it is deleted.\<close>

definition settle ::
  "(gostr \<Rightarrow> int \<Rightarrow> int option) \<Rightarrow> gostr option \<Rightarrow> int \<times> int \<times> int \<Rightarrow> cron_job \<Rightarrow> cron_job option" where
  "settle next_tick err ts j =
     (case ts of (t0, t1, t2) \<Rightarrow>
        let j' = note_run err t0 t1 j
        in if sch_Kind (cj_Schedule j) \<noteq> ''at'' then Some (set_next (compute_next_run next_tick (cj_Schedule j) t2) j')
           else if cj_DeleteAfterRun j then None
           else Some (set_next None (j'\<lparr>cj_Enabled := False\<rparr>)))"

lemma note_run_fields [simp]:
  "cj_ID (note_run err t0 t1 j) = cj_ID j" "cj_Schedule (note_run err t0 t1 j) = cj_Schedule j"
  "cj_Enabled (note_run err t0 t1 j) = cj_Enabled j" "cj_DeleteAfterRun (note_run err t0 t1 j) = cj_DeleteAfterRun j"
  by (simp_all add: note_run_def)

lemma settle_fields:
  "settle nt err ts j = Some j' \<Longrightarrow> cj_ID j' = cj_ID j \<and> cj_Schedule j' = cj_Schedule j"
  by (auto simp: settle_def Let_def split: prod.splits if_splits)

lemma settle_set_next [simp]: "settle nt err ts (set_next n j) = settle nt err ts j"
  by (auto simp: settle_def note_run_def Let_def split: prod.splits)

abbreviation distinct_ids :: "cron_job list \<Rightarrow> bool" where
  "distinct_ids jobs \<equiv> distinct (map cj_ID jobs)"

text \<open>The jobs whose identifier is in a set are replaced by \<open>f\<close>, or dropped.\<close>

definition replace_jobs :: "gostr set \<Rightarrow> (cron_job \<Rightarrow> cron_job option) \<Rightarrow> cron_job list \<Rightarrow> cron_job list" where
  "replace_jobs I f = List.map_filter (\<lambda>x. if cj_ID x \<in> I then f x else Some x)"

lemma replace_jobs_Nil [simp]: "replace_jobs I f [] = []"
  by (simp add: replace_jobs_def map_filter_simps)

lemma replace_jobs_Cons [simp]:
  "replace_jobs I f (j # js) =
     (case (if cj_ID j \<in> I then f j else Some j) of None \<Rightarrow> replace_jobs I f js | Some y \<Rightarrow> y # replace_jobs I f js)"
  by (auto simp: replace_jobs_def map_filter_simps split: option.splits)

lemma set_replace_jobs: "set (replace_jobs I f xs) = {y. \<exists>x \<in> set xs. (if cj_ID x \<in> I then f x else Some x) = Some y}"
  by (induction xs) (auto split: option.splits)

lemma replace_jobs_id: "(\<And>x. x \<in> set jobs \<Longrightarrow> cj_ID x \<notin> I) \<Longrightarrow> replace_jobs I f jobs = jobs"
  by (induction jobs) auto

lemma edit_job_replace:
  "distinct_ids jobs \<Longrightarrow> edit_job i f jobs = replace_jobs {i} (\<lambda>x. Some (f x)) jobs"
proof (induction jobs)
  case (Cons j js)
  then have "cj_ID j \<notin> cj_ID ` set js" by simp
  then have "cj_ID j = i \<Longrightarrow> replace_jobs {i} (\<lambda>x. Some (f x)) js = js"
    by (intro replace_jobs_id) (metis image_eqI singletonD)
  with Cons show ?case by auto
qed simp

lemma filter_replace: "filter (\<lambda>j. cj_ID j \<noteq> i) jobs = replace_jobs {i} (\<lambda>_. None) jobs"
  by (induction jobs) auto

lemma replace_replace:
  "(\<And>x y. f x = Some y \<Longrightarrow> cj_ID y = cj_ID x) \<Longrightarrow>
   replace_jobs {i} g (replace_jobs {i} f jobs) = replace_jobs {i} (\<lambda>x. case f x of None \<Rightarrow> None | Some y \<Rightarrow> g y) jobs"
  by (induction jobs) (auto split: option.splits)

lemma replace_insert:
  "i \<notin> I \<Longrightarrow> (\<And>x y. f x = Some y \<Longrightarrow> cj_ID y = cj_ID x) \<Longrightarrow>
   replace_jobs I f (replace_jobs {i} f jobs) = replace_jobs (insert i I) f jobs"
  by (induction jobs) (auto split: option.splits)

lemma replace_cong:
  "(\<And>x. x \<in> set jobs \<Longrightarrow> cj_ID x \<in> I \<Longrightarrow> f x = g x) \<Longrightarrow> replace_jobs I f jobs = replace_jobs I g jobs"
  by (induction jobs) (auto split: option.splits)

lemma replace_distinct:
  assumes "\<And>x y. cj_ID x \<in> I \<Longrightarrow> f x = Some y \<Longrightarrow> cj_ID y = cj_ID x"
  shows "distinct_ids jobs \<Longrightarrow> distinct_ids (replace_jobs I f jobs)"
proof (induction jobs)
  case (Cons j js)
  have "cj_ID ` set (replace_jobs I f js) \<subseteq> cj_ID ` set js"
  proof (intro image_subsetI)
    fix y assume "y \<in> set (replace_jobs I f js)"
    then obtain x where x: "x \<in> set js" "(if cj_ID x \<in> I then f x else Some x) = Some y" by (auto simp: set_replace_jobs)
    then have "cj_ID y = cj_ID x" using assms [of x y] by (simp split: if_splits)
    with x(1) show "cj_ID y \<in> cj_ID ` set js" by simp
  qed
  with Cons have IH: "cj_ID j \<notin> cj_ID ` set (replace_jobs I f js)" "distinct_ids (replace_jobs I f js)" by auto
  show ?case
  proof (cases "if cj_ID j \<in> I then f j else Some j")
    case (Some y)
    then have "cj_ID y = cj_ID j" using assms [of j y] by (simp split: if_splits)
    with Some IH show ?thesis by simp
  qed (use IH in simp)
qed simp

lemma find_job_Nil [simp]: "find_job i [] = None"
  by (simp add: find_job_def)

lemma find_job_Cons [simp]: "find_job i (j # js) = (if cj_ID j = i then Some j else find_job i js)"
  by (simp add: find_job_def)

lemma find_job_Some: "find_job i jobs = Some j \<Longrightarrow> j \<in> set jobs \<and> cj_ID j = i"
  by (induction jobs) (auto split: if_splits)

lemma find_job_fresh: "i \<notin> cj_ID ` set js \<Longrightarrow> find_job i js = None"
  by (induction js) auto

lemma find_job_distinct: "distinct_ids jobs \<Longrightarrow> j \<in> set jobs \<Longrightarrow> find_job (cj_ID j) jobs = Some j"
  by (induction jobs) auto

lemma find_job_replace_other:
  "k \<noteq> i \<Longrightarrow> (\<And>x y. f x = Some y \<Longrightarrow> cj_ID y = cj_ID x) \<Longrightarrow>
   find_job k (replace_jobs {i} f jobs) = find_job k jobs"
  by (induction jobs) (auto split: option.splits)

text \<open>\<open>executeJobByID\<close> after the callback, in one equation.\<close>

lemma finish_job_settle:
  assumes "distinct_ids (cs_Jobs cs)" "find_job i (cs_Jobs cs) = Some j"
  shows "finish_job nt ts i err (cs, dk) =
     (cs\<lparr>cs_Jobs := replace_jobs {i} (settle nt err ts) (cs_Jobs cs)\<rparr>,
      saved dk (replace_jobs {i} (settle nt err ts) (cs_Jobs cs)))"
proof -
  obtain t0 t1 t2 where ts: "ts = (t0, t1, t2)" by (cases ts) auto
  have only: "x \<in> set (cs_Jobs cs) \<Longrightarrow> cj_ID x \<in> {i} \<Longrightarrow> x = j" for x
    using find_job_distinct [OF assms(1)] assms(2) by fastforce
  let ?n = "replace_jobs {i} (\<lambda>x. Some (note_run err t0 t1 x)) (cs_Jobs cs)"
  have noted: "edit_job i (note_run err t0 t1) (cs_Jobs cs) = ?n" "distinct_ids ?n"
    by (rule edit_job_replace [OF assms(1)], rule replace_distinct [OF _ assms(1)], auto)
  have eq: "replace_jobs {i} f (cs_Jobs cs) = replace_jobs {i} (\<lambda>_. f j) (cs_Jobs cs)" for f
    by (rule replace_cong) (drule (1) only, simp)
  have "edit_job i g ?n = replace_jobs {i} (\<lambda>x. Some (g (note_run err t0 t1 x))) (cs_Jobs cs)" for g
    by (subst edit_job_replace [OF noted(2)], subst replace_replace) auto
  then have again: "edit_job i g ?n = replace_jobs {i} (\<lambda>_. Some (g (note_run err t0 t1 j))) (cs_Jobs cs)" for g
    using eq [of "\<lambda>x. Some (g (note_run err t0 t1 x))"] by simp
  have gone: "filter (\<lambda>j. cj_ID j \<noteq> i) ?n = replace_jobs {i} (\<lambda>_. None) (cs_Jobs cs)"
    by (subst filter_replace, subst replace_replace) auto
  have "length (replace_jobs {i} (\<lambda>_. None) (cs_Jobs cs)) < length ?n"
    using find_job_Some [OF assms(2)] unfolding gone [symmetric]
    by (intro length_filter_less [where x = "note_run err t0 t1 j"]) (auto simp: set_replace_jobs intro!: bexI [of _ j])
  then show ?thesis
    unfolding eq [of "settle nt err ts"]
    by (auto simp: finish_job_def ts assms(2) noted(1) again gone remove_job_def save_store_saved settle_def Let_def)
qed

text \<open>The handler of the statements: it records the job it is given and answers \<open>err\<close>.\<close>

definition recorder :: "(cron_job \<Rightarrow> gostr option) \<Rightarrow> cron_job list handler" where
  "recorder err j st = (case st of (log, rest) \<Rightarrow> (err j, log @ [j], rest))"

lemma execute_recorder:
  assumes "distinct_ids (cs_Jobs cs)" "find_job i (cs_Jobs cs) = Some j"
  shows "execute_job_by_id nt (Some (recorder err)) ts i (log, cs, dk) =
    (log @ [j], cs\<lparr>cs_Jobs := replace_jobs {i} (\<lambda>x. settle nt (err x) ts x) (cs_Jobs cs)\<rparr>,
     saved dk (replace_jobs {i} (\<lambda>x. settle nt (err x) ts x) (cs_Jobs cs)))"
proof -
  have "x \<in> set (cs_Jobs cs) \<Longrightarrow> cj_ID x \<in> {i} \<Longrightarrow> x = j" for x
    using find_job_distinct [OF assms(1)] assms(2) by fastforce
  then have "replace_jobs {i} (settle nt (err j) ts) (cs_Jobs cs) = replace_jobs {i} (\<lambda>x. settle nt (err x) ts x) (cs_Jobs cs)"
    by (intro replace_cong) simp
  with assms show ?thesis
    by (simp add: execute_job_by_id_def recorder_def finish_job_settle)
qed

lemma execute_all:
  assumes "distinct_ids jobs" "distinct ids" "\<forall>i \<in> set ids. find_job i jobs \<noteq> None" "ids \<noteq> []"
  shows "fold (\<lambda>i. execute_job_by_id nt (Some (recorder err)) (ts i) i) ids (log, cs\<lparr>cs_Jobs := jobs\<rparr>, dk) =
    (let jobs' = replace_jobs (set ids) (\<lambda>x. settle nt (err x) (ts (cj_ID x)) x) jobs
     in (log @ map (\<lambda>i. the (find_job i jobs)) ids, cs\<lparr>cs_Jobs := jobs'\<rparr>, saved dk jobs'))"
  using assms
proof (induction ids arbitrary: jobs log dk)
  case (Cons i ids)
  let ?f = "\<lambda>x. settle nt (err x) (ts (cj_ID x)) x"
  let ?j = "replace_jobs {i} ?f jobs"
  have keep: "?f x = Some y \<Longrightarrow> cj_ID y = cj_ID x" for x y by (simp add: settle_fields)
  from Cons.prems(3) obtain j where j: "find_job i jobs = Some j" by auto
  have "replace_jobs {i} (\<lambda>x. settle nt (err x) (ts i) x) jobs = ?j" by (rule replace_cong) simp
  then have first: "execute_job_by_id nt (Some (recorder err)) (ts i) i (log, cs\<lparr>cs_Jobs := jobs\<rparr>, dk) =
      (log @ [j], cs\<lparr>cs_Jobs := ?j\<rparr>, saved dk ?j)"
    using Cons.prems(1) j by (simp add: execute_recorder)
  show ?case
  proof (cases "ids = []")
    case True
    with first j show ?thesis by (simp add: Let_def)
  next
    case False
    have other: "find_job k ?j = find_job k jobs" if "k \<in> set ids" for k
      using that Cons.prems(2) by (intro find_job_replace_other keep) auto
    have "distinct_ids ?j" by (rule replace_distinct [OF _ Cons.prems(1)]) (erule keep)
    moreover have "\<forall>k \<in> set ids. find_job k ?j \<noteq> None" using other Cons.prems(3) by simp
    moreover have "replace_jobs (set ids) ?f ?j = replace_jobs (set (i # ids)) ?f jobs"
      using Cons.prems(2) keep by (simp add: replace_insert)
    moreover have "map (\<lambda>k. the (find_job k ?j)) ids = map (\<lambda>k. the (find_job k jobs)) ids"
      using other by simp
    ultimately show ?thesis
      using Cons.IH [of ?j "log @ [j]" "saved dk ?j"] Cons.prems(2) False first j by (simp add: Let_def)
  qed
qed simp

text \<open>One tick of the scheduler, in one equation: the reference for \<open>checkJobs\<close>.\<close>

definition after_tick ::
  "(gostr \<Rightarrow> int \<Rightarrow> int option) \<Rightarrow> (cron_job \<Rightarrow> gostr option) \<Rightarrow> int \<Rightarrow> (gostr \<Rightarrow> int \<times> int \<times> int) \<Rightarrow> cron_job list \<Rightarrow> cron_job list" where
  "after_tick nt err now ts jobs =
     List.map_filter (\<lambda>j. if is_due now j then settle nt (err (set_next None j)) (ts (cj_ID j)) j else Some j) jobs"

lemma due_ids_iff:
  "distinct_ids jobs \<Longrightarrow> j \<in> set jobs \<Longrightarrow> cj_ID j \<in> set (due_ids now jobs) \<longleftrightarrow> is_due now j"
  by (auto simp: due_ids_def distinct_map dest: inj_onD)

lemma map_filter_eqI: "(\<And>x. x \<in> set xs \<Longrightarrow> f x = g x) \<Longrightarrow> List.map_filter f xs = List.map_filter g xs"
  by (induction xs) (auto simp: map_filter_simps split: option.splits)

lemma map_filter_id: "(\<And>x. x \<in> set xs \<Longrightarrow> f x = Some x) \<Longrightarrow> List.map_filter f xs = xs"
  by (induction xs) (auto simp: map_filter_simps)

lemma set_map_filter: "set (List.map_filter f xs) = {y. \<exists>x \<in> set xs. f x = Some y}"
  by (induction xs) (auto simp: map_filter_simps split: option.splits)

lemma clear_next_ids [simp]: "map cj_ID (clear_next ids jobs) = map cj_ID jobs"
  by (simp add: clear_next_def)

lemma find_clear_next:
  "find_job i (clear_next ids jobs) =
     map_option (\<lambda>j. if cj_ID j \<in> set ids then set_next None j else j) (find_job i jobs)"
  by (induction jobs) (auto simp: clear_next_def)

lemma replace_clear:
  "replace_jobs (set ids) f (clear_next ids jobs) = replace_jobs (set ids) (\<lambda>x. f (set_next None x)) jobs"
  by (induction jobs) (auto simp: clear_next_def split: option.splits)

lemma replace_due:
  "distinct_ids jobs \<Longrightarrow> replace_jobs (set (due_ids now jobs)) f jobs = List.map_filter (\<lambda>j. if is_due now j then f j else Some j) jobs"
  unfolding replace_jobs_def
  by (rule map_filter_eqI) (simp add: due_ids_iff)

lemma distinct_due: "distinct_ids jobs \<Longrightarrow> distinct (due_ids now jobs)"
  by (simp add: due_ids_def distinct_map_filter)

lemma check_jobs_tick:
  assumes run: "cs_running cs" and ids: "distinct_ids (cs_Jobs cs)"
  shows "check_jobs nt (Some (recorder err)) now ts (log, cs, dk) =
    (log @ map (set_next None) (filter (is_due now) (cs_Jobs cs)),
     cs\<lparr>cs_Jobs := after_tick nt err now ts (cs_Jobs cs)\<rparr>, saved dk (after_tick nt err now ts (cs_Jobs cs)))"
proof (cases "due_ids now (cs_Jobs cs) = []")
  case True
  then have no: "\<forall>j \<in> set (cs_Jobs cs). \<not> is_due now j" by (auto simp: due_ids_def filter_empty_conv)
  then have "after_tick nt err now ts (cs_Jobs cs) = cs_Jobs cs"
    unfolding after_tick_def by (intro map_filter_id) simp
  with no True run show ?thesis
    by (simp add: check_jobs_def Let_def clear_next_def save_store_saved)
next
  case False
  let ?ids = "due_ids now (cs_Jobs cs)"
  let ?jobs = "clear_next ?ids (cs_Jobs cs)"
  have "find_job i ?jobs \<noteq> None" if "i \<in> set ?ids" for i
    using that by (auto simp: due_ids_def find_clear_next find_job_distinct [OF ids])
  moreover have "map (\<lambda>i. the (find_job i ?jobs)) ?ids = map (set_next None) (filter (is_due now) (cs_Jobs cs))"
    unfolding due_ids_def map_map
    by (rule map_cong [OF refl], simp add: find_clear_next due_ids_def find_job_distinct [OF ids])
  moreover have "replace_jobs (set ?ids) (\<lambda>x. settle nt (err x) (ts (cj_ID x)) x) ?jobs = after_tick nt err now ts (cs_Jobs cs)"
    by (simp add: replace_clear replace_due [OF ids] after_tick_def)
  ultimately show ?thesis
    using run ids False distinct_due [OF ids, of now]
    by (simp add: check_jobs_def Let_def save_store_saved execute_all)
qed

lemma after_tick_distinct: "distinct_ids jobs \<Longrightarrow> distinct_ids (after_tick nt err now ts jobs)"
  unfolding after_tick_def replace_due [symmetric]
  by (rule replace_distinct) (auto dest: settle_fields)

lemma find_after_tick:
  assumes "distinct_ids jobs"
  shows "find_job i (after_tick nt err now ts jobs) =
    (case find_job i jobs of None \<Rightarrow> None
     | Some j \<Rightarrow> if is_due now j then settle nt (err (set_next None j)) (ts i) j else Some j)"
  using assms
proof (induction jobs)
  case (Cons j js)
  have "find_job (cj_ID j) (after_tick nt err now ts js) = None" if "cj_ID j \<notin> cj_ID ` set js"
  proof (rule find_job_fresh, rule notI)
    assume "cj_ID j \<in> cj_ID ` set (after_tick nt err now ts js)"
    then have "cj_ID j \<in> cj_ID ` set js"
      by (force simp: after_tick_def set_map_filter dest: settle_fields split: if_splits)
    with that show False ..
  qed
  moreover have "after_tick nt err now ts (j # js) =
      (if is_due now j
       then (case settle nt (err (set_next None j)) (ts (cj_ID j)) j of
               None \<Rightarrow> after_tick nt err now ts js | Some y \<Rightarrow> y # after_tick nt err now ts js)
       else j # after_tick nt err now ts js)"
    by (simp add: after_tick_def map_filter_simps split: option.splits)
  ultimately show ?case
    using Cons
    by (cases "settle nt (err (set_next None j)) (ts (cj_ID j)) j"; cases "is_due now j"; cases "cj_ID j = i")
      (simp_all add: settle_fields)
qed (simp add: after_tick_def map_filter_simps)

section \<open>Sequences of ticks\<close>

text \<open>The states seen by the ticks of \<open>runLoop\<close> at the times \<open>T k\<close>.\<close>

primrec run_ticks ::
  "(gostr \<Rightarrow> int \<Rightarrow> int option) \<Rightarrow> (cron_job \<Rightarrow> gostr option) \<Rightarrow> (nat \<Rightarrow> int) \<Rightarrow> (nat \<Rightarrow> gostr \<Rightarrow> int \<times> int \<times> int) \<Rightarrow>
   cron_service \<times> cron_disk \<Rightarrow> nat \<Rightarrow> cron_job list \<times> cron_service \<times> cron_disk" where
  "run_ticks nt err T ts st 0 = ([], st)"
| "run_ticks nt err T ts st (Suc k) = check_jobs nt (Some (recorder err)) (T k) (ts k) (run_ticks nt err T ts st k)"

abbreviation runs_of :: "gostr \<Rightarrow> cron_job list \<Rightarrow> nat" where
  "runs_of i log \<equiv> length (filter (\<lambda>j. cj_ID j = i) log)"

lemma runs_of_due:
  "distinct_ids jobs \<Longrightarrow>
   runs_of i (map (set_next None) (filter (is_due now) jobs)) =
     (case find_job i jobs of None \<Rightarrow> 0 | Some j \<Rightarrow> if is_due now j then 1 else 0)"
proof (induction jobs)
  case (Cons j js)
  then have "cj_ID j \<notin> cj_ID ` set js" by simp
  then have "find_job (cj_ID j) js = None" by (rule find_job_fresh)
  with Cons show ?case by (auto split: option.splits)
qed simp

definition recurring :: "(gostr \<Rightarrow> int \<Rightarrow> int option) \<Rightarrow> cron_schedule \<Rightarrow> bool" where
  "recurring nt s \<longleftrightarrow> sch_Kind s \<noteq> ''at'' \<and> (\<forall>t. compute_next_run nt s t \<noteq> None)"

definition scheduled :: "(gostr \<Rightarrow> int \<Rightarrow> int option) \<Rightarrow> gostr \<Rightarrow> cron_service \<Rightarrow> bool" where
  "scheduled nt i cs \<longleftrightarrow> cs_running cs \<and> distinct_ids (cs_Jobs cs) \<and>
     (\<exists>j. find_job i (cs_Jobs cs) = Some j \<and> cj_Enabled j \<and> next_run j \<noteq> None \<and> recurring nt (cj_Schedule j))"

lemma settle_recurring:
  "recurring nt (cj_Schedule j) \<Longrightarrow>
   \<exists>j' n. settle nt e ts j = Some j' \<and> cj_Enabled j' = cj_Enabled j \<and> next_run j' = Some n \<and> cj_Schedule j' = cj_Schedule j"
  by (cases ts) (auto simp: settle_def recurring_def Let_def)

lemma scheduled_tick:
  assumes "scheduled nt i cs" "check_jobs nt (Some (recorder err)) now ts (log, cs, dk) = (log', cs', dk')"
  shows "scheduled nt i cs'"
    "runs_of i log' = runs_of i log + (if is_due now (the (find_job i (cs_Jobs cs))) then 1 else 0)"
    "\<not> is_due now (the (find_job i (cs_Jobs cs))) \<Longrightarrow> find_job i (cs_Jobs cs') = find_job i (cs_Jobs cs)"
proof -
  from assms(1) obtain j where s: "cs_running cs" "distinct_ids (cs_Jobs cs)" "find_job i (cs_Jobs cs) = Some j"
      "cj_Enabled j" "next_run j \<noteq> None" "recurring nt (cj_Schedule j)" by (auto simp: scheduled_def)
  with assms(2) have r: "log' = log @ map (set_next None) (filter (is_due now) (cs_Jobs cs))"
      "cs' = cs\<lparr>cs_Jobs := after_tick nt err now ts (cs_Jobs cs)\<rparr>"
    by (simp_all add: check_jobs_tick)
  show "scheduled nt i cs'"
    using s settle_recurring [OF s(6), of "err (set_next None j)" "ts i"]
    by (auto simp: scheduled_def r after_tick_distinct find_after_tick)
  show "runs_of i log' = runs_of i log + (if is_due now (the (find_job i (cs_Jobs cs))) then 1 else 0)"
    using runs_of_due [OF s(2), of i now] s(3) by (simp add: r(1))
  show "find_job i (cs_Jobs cs') = find_job i (cs_Jobs cs)" if "\<not> is_due now (the (find_job i (cs_Jobs cs)))"
    using that s(3) by (simp add: r(2) find_after_tick [OF s(2)])
qed

text \<open>A scheduled job is run by one of the following ticks.\<close>

lemma scheduled_run_later:
  assumes st: "\<And>k. run_ticks nt err T ts st k = (log k, cs k, dk k)" and sch: "\<And>k. scheduled nt i (cs k)"
    and clock: "\<And>b. \<exists>k \<ge> m. b \<le> T k"
  shows "\<exists>k \<ge> m. runs_of i (log (Suc k)) = Suc (runs_of i (log k))"
proof (rule ccontr)
  assume never: "\<not> ?thesis"
  have tick: "check_jobs nt (Some (recorder err)) (T k) (ts k) (log k, cs k, dk k) = (log (Suc k), cs (Suc k), dk (Suc k))" for k
    using st [of "Suc k"] st [of k] by simp
  have idle: "\<not> is_due (T k) (the (find_job i (cs_Jobs (cs k))))" if "m \<le> k" for k
    using scheduled_tick(2) [OF sch tick, of k] never that by auto
  have same: "find_job i (cs_Jobs (cs (m + d))) = find_job i (cs_Jobs (cs m))" for d
    by (induction d) (auto simp: scheduled_tick(3) [OF sch tick idle])
  from sch [of m] obtain j n where j: "find_job i (cs_Jobs (cs m)) = Some j" "cj_Enabled j" "next_run j = Some n"
    by (auto simp: scheduled_def)
  from clock [of n] obtain k where k: "m \<le> k" "n \<le> T k" by auto
  from same [of "k - m"] k(1) j(1) have "find_job i (cs_Jobs (cs k)) = Some j" by simp
  with idle [OF k(1)] j k(2) show False by (simp add: is_due_def)
qed

section \<open>Properties\<close>

text \<open>
  C7 One tick hands exactly the due jobs to the handler, each once and in the order of the list;
  every other job is left as it was, a due job gets the next run of its schedule, or, when it is
  one-time, is deleted or disabled; and the result is on disk.
\<close>

theorem tick_runs_due:
  assumes "cs_running cs" "distinct_ids (cs_Jobs cs)"
    and r: "check_jobs nt (Some (recorder err)) now ts (log, cs, dk) = (log', cs', dk')"
  shows "map cj_ID log' = map cj_ID log @ due_ids now (cs_Jobs cs) \<and>
    (\<forall>i. find_job i (cs_Jobs cs') =
      (case find_job i (cs_Jobs cs) of None \<Rightarrow> None
       | Some j \<Rightarrow> if \<not> is_due now j then Some j
                   else settle nt (err (set_next None j)) (ts i) j)) \<and>
    distinct_ids (cs_Jobs cs') \<and> (cd_writable dk \<longrightarrow> cd_file dk' = Saved (cs_Jobs cs'))"
proof -
  have e: "log' = log @ map (set_next None) (filter (is_due now) (cs_Jobs cs))"
    "cs_Jobs cs' = after_tick nt err now ts (cs_Jobs cs)" "dk' = saved dk (cs_Jobs cs')"
    using r by (auto simp: check_jobs_tick [OF assms(1,2)])
  have "map cj_ID (map (set_next None) (filter (is_due now) (cs_Jobs cs))) = due_ids now (cs_Jobs cs)"
    by (simp add: due_ids_def)
  then show ?thesis
    by (auto simp: e(1,2) e(3) find_after_tick [OF assms(2)] after_tick_distinct [OF assms(2)] saved_def
        split: option.splits)
qed

abbreviation every_second :: cron_schedule where
  "every_second \<equiv> \<lparr>sch_Kind = ''every'', sch_AtMS = None, sch_EveryMS = Some 1000, sch_Expr = [], sch_TZ = []\<rparr>"

abbreviation ping :: cron_job where
  "ping \<equiv> new_job (\<lambda>_ _. None) 0 ''1'' ''n'' every_second ''m'' True ''tg'' ''7''"

abbreviation one_job :: cron_service where
  "one_job \<equiv> \<lparr>cs_Jobs = [ping], cs_running = True\<rparr>"

abbreviation empty_disk :: cron_disk where
  "empty_disk \<equiv> \<lparr>cd_file = NoFile, cd_writable = True\<rparr>"

lemma ping_fields:
  "cj_ID ping = ''1''" "cj_Enabled ping" "cj_Schedule ping = every_second" "next_run ping = Some 1000"
  by (simp_all add: new_job_def compute_next_run_def int64_def)

theorem tick_runs_due_witness:
  "map cj_ID (fst (check_jobs (\<lambda>_ _. None) (Some (recorder (\<lambda>_. None))) 1000 (\<lambda>_. (1000, 1001, 1002)) ([], one_job, empty_disk))) =
     [''1'']"
proof -
  obtain log' cs' dk' where r: "check_jobs (\<lambda>_ _. None) (Some (recorder (\<lambda>_. None))) 1000 (\<lambda>_. (1000, 1001, 1002)) ([], one_job, empty_disk) =
      (log', cs', dk')" by (metis prod_cases3)
  have "cs_running one_job" "distinct_ids (cs_Jobs one_job)" by simp_all
  from tick_runs_due [OF this r] show ?thesis by (simp add: r due_ids_def is_due_def ping_fields)
qed

text \<open>
  C5 A recurring job is never forgotten: while the service runs and the clock advances without
  bound, an enabled job with a recurring schedule is run infinitely often, whatever errors the
  jobs report.
\<close>

theorem recurring_job_runs_forever:
  assumes run: "cs_running cs" "distinct_ids (cs_Jobs cs)"
    and j: "j \<in> set (cs_Jobs cs)" "cj_Enabled j" "next_run j \<noteq> None" "recurring nt (cj_Schedule j)"
    and clock: "\<And>m b. \<exists>k \<ge> m. b \<le> T k"
  shows "\<exists>k. m \<le> runs_of (cj_ID j) (fst (run_ticks nt err T ts (cs, dk) k))"
proof -
  let ?i = "cj_ID j"
  define log cs' dk' where d: "log = (\<lambda>k. fst (run_ticks nt err T ts (cs, dk) k))"
    "cs' = (\<lambda>k. fst (snd (run_ticks nt err T ts (cs, dk) k)))" "dk' = (\<lambda>k. snd (snd (run_ticks nt err T ts (cs, dk) k)))"
  have st: "run_ticks nt err T ts (cs, dk) k = (log k, cs' k, dk' k)" for k by (simp add: d)
  have sch: "scheduled nt ?i (cs' k)" for k
  proof (induction k)
    case 0
    from run j show ?case by (auto simp: scheduled_def d find_job_distinct)
  next
    case (Suc k)
    show ?case by (rule scheduled_tick(1) [OF Suc]) (use st [of k] st [of "Suc k"] in simp)
  qed
  have "\<exists>k. m \<le> runs_of ?i (log k)"
  proof (induction m)
    case (Suc m)
    then obtain k where k: "m \<le> runs_of ?i (log k)" by blast
    from scheduled_run_later [OF st sch clock] obtain k' where k': "k \<le> k'" "runs_of ?i (log (Suc k')) = Suc (runs_of ?i (log k'))"
      by blast
    have mono: "runs_of ?i (log n) \<le> runs_of ?i (log (Suc n))" for n
      using scheduled_tick(2) [OF sch, of err "T n" "ts n" "log n" n "dk' n"] st [of n] st [of "Suc n"] by (simp add: sch)
    have "runs_of ?i (log k) \<le> runs_of ?i (log k')" using lift_Suc_mono_le [of "\<lambda>n. runs_of ?i (log n)", OF mono k'(1)] .
    with k k'(2) show ?case by (intro exI [of _ "Suc k'"]) simp
  qed simp
  then show ?thesis by (simp add: d)
qed

theorem recurring_job_runs_forever_witness:
  "\<exists>k. 7 \<le> runs_of ''1'' (fst (run_ticks (\<lambda>_ _. None) (\<lambda>_. None) (\<lambda>k. 1000 * int k) (\<lambda>k _. (0, 0, 1000 * int k)) (one_job, empty_disk) k))"
proof -
  have rec: "recurring (\<lambda>_ _. None) (cj_Schedule ping)" by (simp add: recurring_def ping_fields compute_next_run_def)
  have clock: "\<exists>k \<ge> m. b \<le> 1000 * int k" for m b
    by (intro exI [of _ "max m (nat b)"]) auto
  from recurring_job_runs_forever [of one_job ping "\<lambda>_ _. None" "\<lambda>k. 1000 * int k" 7, OF _ _ _ _ _ rec clock]
  show ?thesis by (simp add: ping_fields)
qed

text \<open>The operations of the service as events, with the recording handler.\<close>

datatype cron_event =
  EvTick int "gostr \<Rightarrow> int \<times> int \<times> int"
| EvStart int
| EvStop
| EvRestart \<comment> \<open>a new process\<close>
| EvAdd cron_job
| EvUpdate int cron_job
| EvRemove gostr
| EvEnable int gostr bool

fun cron_do ::
  "(gostr \<Rightarrow> int \<Rightarrow> int option) \<Rightarrow> (cron_job \<Rightarrow> gostr option) \<Rightarrow> cron_event \<Rightarrow>
   cron_job list \<times> cron_service \<times> cron_disk \<Rightarrow> cron_job list \<times> cron_service \<times> cron_disk" where
  "cron_do nt err (EvTick now ts) st = check_jobs nt (Some (recorder err)) now ts st"
| "cron_do nt err (EvStart now) (log, st) = (log, snd (start_cron nt now st))"
| "cron_do nt err EvStop (log, cs, dk) = (log, stop_cron cs, dk)"
| "cron_do nt err EvRestart (log, cs, dk) = (log, new_cron_service dk, dk)"
| "cron_do nt err (EvAdd j) (log, st) = (log, snd (add_job j st))"
| "cron_do nt err (EvUpdate now j) (log, st) = (log, snd (update_job now j st))"
| "cron_do nt err (EvRemove i) (log, st) = (log, snd (remove_job i st))"
| "cron_do nt err (EvEnable now i e) (log, st) = (log, snd (enable_job nt now i e st))"

fun event_time :: "int \<Rightarrow> cron_event \<Rightarrow> int" where
  "event_time t (EvTick now _) = now"
| "event_time t (EvStart now) = now"
| "event_time t (EvUpdate now _) = now"
| "event_time t (EvEnable now _ _) = now"
| "event_time t _ = t"

text \<open>Events on a clock that does not go back; job \<open>i\<close> is neither updated nor added again.\<close>

fun cron_run ::
  "(gostr \<Rightarrow> int \<Rightarrow> int option) \<Rightarrow> (cron_job \<Rightarrow> gostr option) \<Rightarrow> gostr \<Rightarrow> int \<Rightarrow> cron_event list \<Rightarrow>
   cron_job list \<times> cron_service \<times> cron_disk \<Rightarrow> bool" where
  "cron_run nt err i t [] st = True"
| "cron_run nt err i t (e # es) st =
     (t \<le> event_time t e \<and>
      (case e of EvAdd j \<Rightarrow> cj_ID j \<noteq> i \<and> cj_ID j \<notin> cj_ID ` set (cs_Jobs (fst (snd st)))
               | EvUpdate _ j \<Rightarrow> cj_ID j \<noteq> i | _ \<Rightarrow> True) \<and>
      cron_run nt err i (event_time t e) es (cron_do nt err e st))"

definition stored_jobs :: "cron_disk \<Rightarrow> cron_job list" where
  "stored_jobs dk = (case cd_file dk of Saved jobs \<Rightarrow> jobs | Malformed jobs \<Rightarrow> jobs | _ \<Rightarrow> [])"

text \<open>A list of jobs in which job \<open>i\<close> is one-time at \<open>a\<close>.\<close>

definition at_list :: "gostr \<Rightarrow> int \<Rightarrow> cron_job list \<Rightarrow> bool" where
  "at_list i a jobs \<longleftrightarrow> distinct_ids jobs \<and>
     (\<forall>j \<in> set jobs. cj_ID j = i \<longrightarrow> sch_Kind (cj_Schedule j) = ''at'' \<and> sch_AtMS (cj_Schedule j) = Some a \<and>
        next_run j \<in> {None, Some a})"

definition idle_list :: "gostr \<Rightarrow> cron_job list \<Rightarrow> bool" where
  "idle_list i jobs \<longleftrightarrow> (\<forall>j \<in> set jobs. cj_ID j = i \<and> cj_Enabled j \<longrightarrow> next_run j = None)"

definition once_inv :: "gostr \<Rightarrow> int \<Rightarrow> int \<Rightarrow> cron_job list \<times> cron_service \<times> cron_disk \<Rightarrow> bool" where
  "once_inv i a t st \<longleftrightarrow>
     (case st of (log, cs, dk) \<Rightarrow>
        runs_of i log \<le> 1 \<and> at_list i a (cs_Jobs cs) \<and> at_list i a (stored_jobs dk) \<and>
        (1 \<le> runs_of i log \<longrightarrow> a \<le> t \<and> (cs_running cs \<longrightarrow> idle_list i (cs_Jobs cs))))"

lemma compute_at:
  "sch_Kind s = ''at'' \<Longrightarrow> sch_AtMS s = Some a \<Longrightarrow> compute_next_run nt s t = (if a > t then Some a else None)"
  by (simp add: compute_next_run_def)

lemma at_list_saved: "at_list i a jobs \<Longrightarrow> at_list i a (stored_jobs dk) \<Longrightarrow> at_list i a (stored_jobs (saved dk jobs))"
  by (simp add: saved_def stored_jobs_def)

lemma at_list_edit:
  assumes "at_list i a jobs" "\<And>j. cj_ID j = k \<Longrightarrow> cj_ID (f j) = k"
    "\<And>j. k = i \<Longrightarrow> sch_Kind (cj_Schedule j) = ''at'' \<Longrightarrow> sch_AtMS (cj_Schedule j) = Some a \<Longrightarrow>
       cj_Schedule (f j) = cj_Schedule j \<and> next_run (f j) \<in> {None, Some a}"
  shows "at_list i a (replace_jobs {k} (\<lambda>x. Some (f x)) jobs)"
  using assms unfolding at_list_def
  by (auto simp: set_replace_jobs split: if_splits intro!: replace_distinct) metis+

lemma idle_list_edit:
  assumes "idle_list i jobs" "at_list i a jobs"
    "\<And>j. k = i \<Longrightarrow> sch_Kind (cj_Schedule j) = ''at'' \<Longrightarrow> sch_AtMS (cj_Schedule j) = Some a \<Longrightarrow> cj_Enabled (f j) \<Longrightarrow> next_run (f j) = None"
    "\<And>j. cj_ID j = k \<Longrightarrow> cj_ID (f j) = k"
  shows "idle_list i (replace_jobs {k} (\<lambda>x. Some (f x)) jobs)"
  using assms unfolding idle_list_def at_list_def
  by (auto simp: set_replace_jobs split: if_splits)

lemma load_store_jobs [simp]: "cs_Jobs (snd (load_store dk cs)) = stored_jobs dk" "cs_running (snd (load_store dk cs)) = cs_running cs"
  by (auto simp: load_store_def stored_jobs_def split: cron_file.splits)

lemma new_cron_service_jobs [simp]: "cs_Jobs (new_cron_service dk) = stored_jobs dk" "\<not> cs_running (new_cron_service dk)"
  by (simp_all add: new_cron_service_def)

lemma start_cron_cases:
  "snd (start_cron nt now (cs, dk)) =
     (if cs_running cs then (cs, dk)
      else if \<not> fst (load_store dk cs) then (snd (load_store dk cs), dk)
      else let cs2 = recompute_next_runs nt now (snd (load_store dk cs))
           in (cs2\<lparr>cs_running := cd_writable dk\<rparr>, saved dk (cs_Jobs cs2)))"
proof -
  obtain ok b where b: "load_store dk cs = (ok, b)" by fastforce
  have "cs_running b = cs_running cs" using load_store_jobs(2) [of dk cs] b by simp
  then have "\<not> cs_running cs \<Longrightarrow> b\<lparr>cs_Jobs := x, cs_running := False\<rparr> = b\<lparr>cs_Jobs := x\<rparr>" for x by simp
  with b show ?thesis
    by (cases ok; cases "cd_writable dk") (auto simp: start_cron_def Let_def save_store_saved recompute_next_runs_def)
qed

lemma recompute_at:
  assumes "at_list i a jobs" "cs_Jobs cs = jobs"
  shows "at_list i a (cs_Jobs (recompute_next_runs nt now cs))"
    "a \<le> now \<Longrightarrow> idle_list i (cs_Jobs (recompute_next_runs nt now cs))"
proof -
  have "map cj_ID (cs_Jobs (recompute_next_runs nt now cs)) = map cj_ID jobs"
    using assms(2) by (simp add: recompute_next_runs_def)
  then have "distinct_ids (cs_Jobs (recompute_next_runs nt now cs))" using assms(1) by (simp only: at_list_def)
  with assms show "at_list i a (cs_Jobs (recompute_next_runs nt now cs))"
    by (simp only: at_list_def) (auto simp: recompute_next_runs_def compute_at)
  show "a \<le> now \<Longrightarrow> idle_list i (cs_Jobs (recompute_next_runs nt now cs))"
    using assms by (auto simp: at_list_def idle_list_def recompute_next_runs_def compute_at)
qed

lemma at_list_filter: "at_list i a jobs \<Longrightarrow> at_list i a (filter P jobs)"
  by (auto simp: at_list_def distinct_map_filter)

lemma after_tick_elem:
  "y \<in> set (after_tick nt err now ts jobs) \<Longrightarrow>
   \<exists>x \<in> set jobs. if is_due now x then settle nt (err (set_next None x)) (ts (cj_ID x)) x = Some y else x = y"
  by (auto simp: after_tick_def set_map_filter split: if_splits)

lemma tick_at:
  assumes "at_list i a jobs"
  shows "at_list i a (after_tick nt err now ts jobs)"
    "idle_list i jobs \<or> (\<exists>j. find_job i jobs = Some j \<and> is_due now j) \<Longrightarrow> idle_list i (after_tick nt err now ts jobs)"
proof -
  have d: "distinct_ids jobs" using assms by (simp add: at_list_def)
  have settled: "next_run y = None \<and> \<not> cj_Enabled y" if "x \<in> set jobs" "cj_ID x = i" "settle nt e q x = Some y" for x y e q
    using that assms by (auto simp: at_list_def settle_def Let_def split: prod.splits if_splits)
  show "at_list i a (after_tick nt err now ts jobs)"
    unfolding at_list_def
  proof (intro conjI ballI impI after_tick_distinct [OF d])
    fix y assume y: "y \<in> set (after_tick nt err now ts jobs)" "cj_ID y = i"
    from after_tick_elem [OF y(1)] obtain x where x: "x \<in> set jobs" "x = y \<or> (\<exists>e q. settle nt e q x = Some y)"
      by metis
    then have "cj_ID x = i" "cj_Schedule x = cj_Schedule y" using y(2) settle_fields by auto
    with x(1) assms have "sch_Kind (cj_Schedule y) = ''at''" "sch_AtMS (cj_Schedule y) = Some a" "next_run x \<in> {None, Some a}"
      by (auto simp: at_list_def)
    moreover have "next_run y \<in> {None, next_run x}"
      using x settled [OF x(1) \<open>cj_ID x = i\<close>, of _ _ y] by blast
    ultimately show "sch_Kind (cj_Schedule y) = ''at''" "sch_AtMS (cj_Schedule y) = Some a" "next_run y \<in> {None, Some a}"
      by auto
  qed
  assume a: "idle_list i jobs \<or> (\<exists>j. find_job i jobs = Some j \<and> is_due now j)"
  show "idle_list i (after_tick nt err now ts jobs)"
    unfolding idle_list_def
  proof (intro ballI impI, elim conjE)
    fix y assume y: "y \<in> set (after_tick nt err now ts jobs)" "cj_ID y = i" "cj_Enabled y"
    from after_tick_elem [OF y(1)] obtain x where x: "x \<in> set jobs" "if is_due now x then \<exists>e q. settle nt e q x = Some y else x = y"
      by metis
    then have "cj_ID x = i" using y(2) settle_fields by (auto split: if_splits)
    show "next_run y = None"
    proof (cases "is_due now x")
      case True
      with x settled [OF x(1) \<open>cj_ID x = i\<close>] show ?thesis by auto
    next
      case False
      with x have "x = y" by simp
      with x(1) False a y(2,3) find_job_distinct [OF d x(1)] show ?thesis by (auto simp: idle_list_def)
    qed
  qed
qed

lemma once_inv_step:
  assumes inv: "once_inv i a t (log, cs, dk)" and t: "t \<le> event_time t e"
    and e: "case e of EvAdd j \<Rightarrow> cj_ID j \<noteq> i \<and> cj_ID j \<notin> cj_ID ` set (cs_Jobs cs) | EvUpdate _ j \<Rightarrow> cj_ID j \<noteq> i | _ \<Rightarrow> True"
  shows "once_inv i a (event_time t e) (cron_do nt err e (log, cs, dk))"
proof -
  from inv have l: "runs_of i log \<le> 1" "at_list i a (cs_Jobs cs)" "at_list i a (stored_jobs dk)"
      "1 \<le> runs_of i log \<Longrightarrow> a \<le> t" "1 \<le> runs_of i log \<Longrightarrow> cs_running cs \<Longrightarrow> idle_list i (cs_Jobs cs)"
    by (simp_all add: once_inv_def)
  have d: "distinct_ids (cs_Jobs cs)" using l(2) by (simp add: at_list_def)
  show ?thesis
  proof (cases e)
    case (EvTick now ts)
    show ?thesis
    proof (cases "cs_running cs")
      case True
      let ?due = "\<exists>j. find_job i (cs_Jobs cs) = Some j \<and> is_due now j"
      have due: "runs_of i log = 0 \<and> a \<le> now" if ?due
      proof -
        from that obtain j n where j: "j \<in> set (cs_Jobs cs)" "cj_ID j = i" "cj_Enabled j" "next_run j = Some n" "n \<le> now"
          by (auto simp: is_due_def dest: find_job_Some split: option.splits)
        with l(2) have "n = a" by (auto simp: at_list_def)
        moreover have "\<not> idle_list i (cs_Jobs cs)" using j by (auto simp: idle_list_def)
        ultimately show ?thesis using l(1,5) True j(5) by linarith
      qed
      have count: "runs_of i (log @ map (set_next None) (filter (is_due now) (cs_Jobs cs))) =
          runs_of i log + (if ?due then 1 else 0)"
        using runs_of_due [OF d, of i now] by (auto split: option.splits)
      have st: "cron_do nt err e (log, cs, dk) = (log @ map (set_next None) (filter (is_due now) (cs_Jobs cs)),
          cs\<lparr>cs_Jobs := after_tick nt err now ts (cs_Jobs cs)\<rparr>, saved dk (after_tick nt err now ts (cs_Jobs cs)))"
        by (simp only: EvTick cron_do.simps check_jobs_tick [OF True d])
      show ?thesis
        unfolding st once_inv_def prod.case count
        using tick_at [OF l(2), where nt = nt and err = err and now = now and ts = ts] l t True due
        by (auto simp: EvTick intro!: at_list_saved)
    qed (use l t in \<open>auto simp: EvTick check_jobs_def once_inv_def\<close>)
  next
    case (EvStart now)
    note r = recompute_at [OF l(3), where cs = "snd (load_store dk cs)" and nt = nt and now = now]
    show ?thesis
      using l t r
      by (auto simp: EvStart once_inv_def start_cron_cases Let_def at_list_saved simp del: One_nat_def)
  next
    case (EvAdd j)
    have "at_list i a (cs_Jobs cs @ [j])" "idle_list i (cs_Jobs cs) \<Longrightarrow> idle_list i (cs_Jobs cs @ [j])"
      using l(2) e by (auto simp: EvAdd at_list_def idle_list_def)
    with l t show ?thesis by (auto simp: EvAdd once_inv_def add_job_def Let_def save_store_saved at_list_saved split: bool.splits)
  next
    case (EvUpdate now j)
    have "at_list i a (replace_jobs {cj_ID j} (\<lambda>_. Some (j\<lparr>cj_UpdatedAtMS := now\<rparr>)) (cs_Jobs cs))"
      using e by (intro at_list_edit [OF l(2)]) (auto simp: EvUpdate)
    moreover have "idle_list i (cs_Jobs cs) \<Longrightarrow> idle_list i (replace_jobs {cj_ID j} (\<lambda>_. Some (j\<lparr>cj_UpdatedAtMS := now\<rparr>)) (cs_Jobs cs))"
      using e by (intro idle_list_edit [OF _ l(2)]) (auto simp: EvUpdate)
    ultimately show ?thesis
      using l t by (auto simp: EvUpdate once_inv_def update_job_def edit_job_replace [OF d] Let_def save_store_saved at_list_saved split: option.splits)
  next
    case (EvRemove k)
    have "idle_list i (cs_Jobs cs) \<Longrightarrow> idle_list i (filter P (cs_Jobs cs))" for P by (auto simp: idle_list_def)
    with l t show ?thesis
      by (auto simp: EvRemove once_inv_def remove_job_def Let_def save_store_saved at_list_saved at_list_filter)
  next
    case (EvEnable now k en)
    let ?f = "\<lambda>j. set_next (if en then compute_next_run nt (cj_Schedule j) now else None) (j\<lparr>cj_Enabled := en, cj_UpdatedAtMS := now\<rparr>)"
    have "at_list i a (replace_jobs {k} (\<lambda>x. Some (?f x)) (cs_Jobs cs))"
      by (intro at_list_edit [OF l(2)]) (auto simp: compute_at)
    moreover have "idle_list i (cs_Jobs cs) \<Longrightarrow> a \<le> now \<Longrightarrow> idle_list i (replace_jobs {k} (\<lambda>x. Some (?f x)) (cs_Jobs cs))"
      by (intro idle_list_edit [OF _ l(2)]) (auto simp: compute_at)
    ultimately show ?thesis
      using l t by (auto simp: EvEnable once_inv_def enable_job_def edit_job_replace [OF d] Let_def save_store_saved at_list_saved split: option.splits)
  qed (use l t in \<open>auto simp: once_inv_def stop_cron_def\<close>)
qed


abbreviation at_noon :: cron_schedule where
  "at_noon \<equiv> \<lparr>sch_Kind = ''at'', sch_AtMS = Some 5000, sch_EveryMS = None, sch_Expr = [], sch_TZ = []\<rparr>"

abbreviation reminder :: "int \<Rightarrow> cron_job" where
  "reminder now \<equiv> new_job (\<lambda>_ _. None) now ''1'' ''n'' at_noon ''m'' True ''tg'' ''7''"

lemma reminder_fields:
  "cj_ID (reminder now) = ''1''" "cj_Enabled (reminder now)" "cj_Schedule (reminder now) = at_noon"
  "next_run (reminder now) = (if now < 5000 then Some 5000 else None)"
  by (simp_all add: new_job_def compute_at)


definition lost_inv :: "gostr \<Rightarrow> int \<Rightarrow> int \<Rightarrow> cron_job list \<times> cron_service \<times> cron_disk \<Rightarrow> bool" where
  "lost_inv i a t st \<longleftrightarrow>
     (case st of (log, cs, dk) \<Rightarrow>
        a \<le> t \<and> runs_of i log = 0 \<and> at_list i a (cs_Jobs cs) \<and> at_list i a (stored_jobs dk) \<and>
        (\<exists>jobs. cd_file dk = Saved jobs) \<and>
        (\<exists>j. find_job i (cs_Jobs cs) = Some j \<and> cj_Enabled j) \<and> (\<exists>j. find_job i (stored_jobs dk) = Some j \<and> cj_Enabled j) \<and>
        (cs_running cs \<longrightarrow> idle_list i (cs_Jobs cs)))"

definition hands_off :: "cron_event \<Rightarrow> bool" where
  "hands_off e \<longleftrightarrow> (case e of EvTick _ _ \<Rightarrow> True | EvStart _ \<Rightarrow> True | EvStop \<Rightarrow> True | EvRestart \<Rightarrow> True | _ \<Rightarrow> False)"

lemma find_recompute:
  "find_job i (cs_Jobs (recompute_next_runs nt now cs)) =
     map_option (\<lambda>j. if cj_Enabled j then set_next (compute_next_run nt (cj_Schedule j) now) j else j) (find_job i (cs_Jobs cs))"
proof -
  have "find_job i (map f jobs) = map_option f (find_job i jobs)" if "\<And>j. cj_ID (f j) = cj_ID j" for f jobs
    using that by (induction jobs) auto
  then show ?thesis by (simp add: recompute_next_runs_def)
qed

lemma lost_inv_step:
  assumes inv: "lost_inv i a t (log, cs, dk)" and t: "t \<le> event_time t e" and e: "hands_off e"
  shows "lost_inv i a (event_time t e) (cron_do nt err e (log, cs, dk))"
proof -
  from inv obtain j j' jobs where l: "a \<le> t" "runs_of i log = 0" "at_list i a (cs_Jobs cs)" "at_list i a (stored_jobs dk)"
      "cd_file dk = Saved jobs" "find_job i (cs_Jobs cs) = Some j" "cj_Enabled j"
      "find_job i (stored_jobs dk) = Some j'" "cj_Enabled j'" "cs_running cs \<Longrightarrow> idle_list i (cs_Jobs cs)"
    by (auto simp: lost_inv_def)
  have d: "distinct_ids (cs_Jobs cs)" using l(3) by (simp add: at_list_def)
  show ?thesis
  proof (cases e)
    case (EvTick now ts)
    show ?thesis
    proof (cases "cs_running cs")
      case True
      from l(10) [OF True] l(6,7) have nd: "\<not> is_due now j"
        by (auto simp: idle_list_def is_due_def dest: find_job_Some)
      have "runs_of i (log @ map (set_next None) (filter (is_due now) (cs_Jobs cs))) = 0"
        using runs_of_due [OF d, of i now] l(2,6) nd by simp
      moreover have "find_job i (after_tick nt err now ts (cs_Jobs cs)) = Some j"
        using find_after_tick [OF d] l(6) nd by simp
      ultimately show ?thesis
        using tick_at [OF l(3), where nt = nt and err = err and now = now and ts = ts] l t True
        unfolding EvTick cron_do.simps check_jobs_tick [OF True d]
        by (auto simp: lost_inv_def at_list_saved stored_jobs_def saved_def filter_empty_conv)
    qed (use inv t l in \<open>auto simp: EvTick check_jobs_def lost_inv_def\<close>)
  next
    case (EvStart now)
    have ld: "fst (load_store dk cs)" by (simp add: load_store_def l(5))
    from recompute_at [OF l(4), where cs = "snd (load_store dk cs)" and nt = nt and now = now]
    show ?thesis
      using inv l t
      by (auto simp: EvStart lost_inv_def start_cron_cases ld Let_def at_list_saved find_recompute saved_def stored_jobs_def)
  next
    case EvRestart
    with l t show ?thesis by (simp add: lost_inv_def)
  qed (use inv t e in \<open>auto simp: lost_inv_def stop_cron_def hands_off_def\<close>)
qed

text \<open>
  A one-time job whose time passes while the service is down is lost without trace: whatever
  ticks, stops, restarts and starts follow, it is never run, and it stays listed and enabled.
\<close>

theorem missed_at_job_stuck:
  assumes fl: "cd_file dk = Saved jobs" "at_list i a jobs" and j: "find_job i jobs = Some j" "cj_Enabled j"
    and late: "a \<le> t" "cron_run nt err i t es ([], new_cron_service dk, dk)" "\<forall>e \<in> set es. hands_off e"
    and r: "fold (cron_do nt err) es ([], new_cron_service dk, dk) = (log, cs, dk')"
  shows "runs_of i log = 0 \<and> (\<exists>j'. find_job i (cs_Jobs cs) = Some j' \<and> cj_Enabled j')"
proof -
  have "lost_inv i a t st \<Longrightarrow> cron_run nt err i t es st \<Longrightarrow> \<forall>e \<in> set es. hands_off e \<Longrightarrow>
      \<exists>t'. lost_inv i a t' (fold (cron_do nt err) es st)" for t st
  proof (induction es arbitrary: t st)
    case (Cons e es)
    obtain log cs dk where st: "st = (log, cs, dk)" by (cases st) auto
    from Cons.prems have "lost_inv i a (event_time t e) (cron_do nt err e st)"
      unfolding st by (intro lost_inv_step) auto
    with Cons.IH Cons.prems show ?case by simp
  qed auto
  moreover have "lost_inv i a t ([], new_cron_service dk, dk)"
    using fl j late(1) by (simp add: lost_inv_def stored_jobs_def)
  ultimately show ?thesis using late r by (fastforce simp: lost_inv_def)
qed

theorem missed_at_job_stuck_witness:
  "runs_of ''1'' (fst (fold (cron_do (\<lambda>_ _. None) (\<lambda>_. None))
     [EvStart 6000, EvTick 7000 (\<lambda>_. (7000, 7001, 7002)), EvStop, EvStart 8000]
     ([], new_cron_service \<lparr>cd_file = Saved [reminder 0], cd_writable = True\<rparr>,
      \<lparr>cd_file = Saved [reminder 0], cd_writable = True\<rparr>))) = 0"
proof -
  let ?dk = "\<lparr>cd_file = Saved [reminder 0], cd_writable = True\<rparr>"
  let ?es = "[EvStart 6000, EvTick 7000 (\<lambda>_. (7000, 7001, 7002)), EvStop, EvStart 8000]"
  obtain log cs dk' where r: "fold (cron_do (\<lambda>_ _. None) (\<lambda>_. None)) ?es ([], new_cron_service ?dk, ?dk) = (log, cs, dk')"
    by (metis prod_cases3)
  have "cd_file ?dk = Saved [reminder 0]" "at_list ''1'' 5000 [reminder 0]"
    "find_job ''1'' [reminder 0] = Some (reminder 0)" "cj_Enabled (reminder 0)" "(5000::int) \<le> 5500"
    "cron_run (\<lambda>_ _. None) (\<lambda>_. None) ''1'' 5500 ?es ([], new_cron_service ?dk, ?dk)" "\<forall>e \<in> set ?es. hands_off e"
    by (simp_all add: at_list_def reminder_fields hands_off_def)
  from missed_at_job_stuck [OF this r] show ?thesis by (simp only: r fst_conv)
qed

text \<open>
  C36 The command line and a running gateway write the same file: a job added with
  \<open>nookclaw cron add\<close> is reported as added and is gone from the file after the next tick of the
  gateway, which saves its own list without reading the file again.
\<close>

theorem cli_add_lost:
  assumes "cs_running gw" "distinct_ids (cs_Jobs gw)" "cd_writable dk" "cj_ID job \<notin> cj_ID ` set (cs_Jobs gw)"
    and add: "add_job job (new_cron_service dk, dk) = (res, cli, dk1)"
    and tick: "check_jobs nt (Some (recorder err)) now ts (log, gw, dk1) = (log', gw', dk2)"
  shows "res = Some job \<and> job \<in> set (stored_jobs dk1) \<and> cj_ID job \<notin> cj_ID ` set (stored_jobs dk2) \<and>
    stored_jobs dk2 = cs_Jobs gw'"
proof -
  have a: "res = Some job" "dk1 = saved dk (stored_jobs dk @ [job])"
    using add assms(3) by (auto simp: add_job_def Let_def save_store_saved split: bool.splits)
  have b: "dk2 = saved dk1 (cs_Jobs gw')" "cs_Jobs gw' = after_tick nt err now ts (cs_Jobs gw)"
    using tick by (auto simp: check_jobs_tick [OF assms(1,2)])
  have "cj_ID job \<notin> cj_ID ` set (cs_Jobs gw')"
  proof
    assume "cj_ID job \<in> cj_ID ` set (cs_Jobs gw')"
    then obtain y where y: "y \<in> set (after_tick nt err now ts (cs_Jobs gw))" "cj_ID y = cj_ID job" by (auto simp: b(2))
    from after_tick_elem [OF y(1)] obtain x where "x \<in> set (cs_Jobs gw)" "cj_ID x = cj_ID y"
      by (metis settle_fields)
    with y(2) assms(4) show False by (metis image_eqI)
  qed
  with a b assms(3) show ?thesis by (simp add: stored_jobs_def saved_def)
qed

theorem cli_add_lost_witness:
  "''1'' \<notin> cj_ID ` set (stored_jobs (snd (snd (check_jobs (\<lambda>_ _. None) (Some (recorder (\<lambda>_. None))) 1000 (\<lambda>_. (0, 0, 0))
     ([], \<lparr>cs_Jobs = [], cs_running = True\<rparr>, snd (snd (add_job ping (new_cron_service empty_disk, empty_disk))))))))"
proof -
  let ?gw = "\<lparr>cs_Jobs = [], cs_running = True\<rparr>"
  have "cs_running ?gw" "distinct_ids (cs_Jobs ?gw)" "cd_writable empty_disk" "cj_ID ping \<notin> cj_ID ` set (cs_Jobs ?gw)" by simp_all
  from cli_add_lost [OF this] show ?thesis by (metis ping_fields(1) prod.collapse)
qed

text \<open>
  C45 A store file that does not parse is destroyed by the next addition: \<open>NewCronService\<close>
  ignores the error of the load, so that \<open>AddJob\<close> succeeds and writes the file with what was
  decoded before the error and the new job; \<open>Start\<close> alone would have refused.
\<close>

theorem corrupt_store_overwritten:
  assumes "cd_file dk = Malformed jobs" "cd_writable dk"
  shows "\<not> fst (start_cron nt now (new_cron_service dk, dk)) \<and>
    add_job job (new_cron_service dk, dk) =
      (Some job, \<lparr>cs_Jobs = jobs @ [job], cs_running = False\<rparr>, dk\<lparr>cd_file := Saved (jobs @ [job])\<rparr>)"
  using assms by (simp add: new_cron_service_def load_store_def start_cron_def add_job_def save_store_def)

theorem corrupt_store_overwritten_witness:
  "\<not> fst (start_cron (\<lambda>_ _. None) 0 (new_cron_service \<lparr>cd_file = Malformed [], cd_writable = True\<rparr>, \<lparr>cd_file = Malformed [], cd_writable = True\<rparr>))"
  using corrupt_store_overwritten [of "\<lparr>cd_file = Malformed [], cd_writable = True\<rparr>" "[]" "\<lambda>_ _. None" 0] by simp

text \<open>
  C46 The next run of an interval is in the future exactly when the sum fits an \<open>int64\<close>; an
  interval beyond it gives a time in the past, so that the job is due at every tick.
\<close>

theorem every_next_run:
  assumes "sch_Kind s = ''every''" "sch_EveryMS s = Some e" "0 < e" "e < 2 ^ 63" "0 \<le> now" "now < 2 ^ 63"
  shows "\<exists>n. compute_next_run nt s now = Some n \<and> (now < n \<longleftrightarrow> now + e < 2 ^ 63) \<and>
    (now + e < 2 ^ 63 \<longrightarrow> n = now + e) \<and> (2 ^ 63 \<le> now + e \<longrightarrow> n < 0)"
proof -
  have "int64 (now + e) = (if now + e < 2 ^ 63 then now + e else now + e - 2 ^ 64)"
  proof (cases "now + e < 2 ^ 63")
    case False
    then have "(now + e + 2 ^ 63) mod 2 ^ 64 = (now + e + 2 ^ 63 - 2 ^ 64) mod 2 ^ 64"
      by (simp only: minus_mod_self2)
    also have "\<dots> = now + e + 2 ^ 63 - 2 ^ 64" using assms False by (intro mod_pos_pos_trivial) simp_all
    finally show ?thesis using False by (simp add: int64_def)
  qed (use assms in \<open>simp add: int64_def\<close>)
  with assms show ?thesis by (auto simp: compute_next_run_def)
qed

theorem every_next_run_witness:
  "\<exists>n. compute_next_run (\<lambda>_ _. None) (every_second\<lparr>sch_EveryMS := Some 9223372036854775807\<rparr>) 1 = Some n \<and> n < 0"
  using every_next_run [of "every_second\<lparr>sch_EveryMS := Some 9223372036854775807\<rparr>" 9223372036854775807 1 "\<lambda>_ _. None"]
  by auto

lemma next_wake_loop_None:
  "next_wake_loop js wake = None \<longleftrightarrow> wake = None \<and> (\<forall>j \<in> set js. cj_Enabled j \<longrightarrow> next_run j = None)"
  by (induction js arbitrary: wake) auto

abbreviation wakes :: "cron_job list \<Rightarrow> int \<Rightarrow> bool" where
  "wakes js v \<equiv> \<exists>j \<in> set js. cj_Enabled j \<and> next_run j = Some v"

lemma next_wake_loop_Some:
  "next_wake_loop js wake = Some w \<Longrightarrow>
   (wake = Some w \<or> wakes js w) \<and> (\<forall>v. wake = Some v \<or> wakes js v \<longrightarrow> w \<le> v)"
proof (induction js arbitrary: wake)
  case (Cons j js)
  let ?wake = "if cj_Enabled j \<and> next_run j \<noteq> None \<and> (wake = None \<or> the (next_run j) < the wake) then next_run j else wake"
  have IH: "?wake = Some w \<or> wakes js w" "\<And>v. ?wake = Some v \<Longrightarrow> w \<le> v" "\<And>v. wakes js v \<Longrightarrow> w \<le> v"
    using Cons.IH [of ?wake] Cons.prems by (simp_all only: next_wake_loop.simps) blast+
  have old: "w \<le> v" if o: "wake = Some v" for v
  proof (cases "?wake = wake")
    case False
    then obtain n where "?wake = Some n" "n < v" using o by (auto split: if_splits)
    with IH(2) show ?thesis by fastforce
  qed (use IH(2) o in simp)
  have new: "w \<le> v" if e: "cj_Enabled j" "next_run j = Some v" for v
  proof (cases "?wake = next_run j")
    case False
    then obtain n where "wake = Some n" "n \<le> v" using e by (auto split: if_splits)
    with old show ?thesis by fastforce
  qed (use IH(2) e in simp)
  from IH(1) have "wake = Some w \<or> wakes (j # js) w" by (auto split: if_splits)
  with old new IH(3) show ?case by auto
qed simp

text \<open>
  The reported wake time is the earliest next run of the enabled jobs: a tick finds a due job
  exactly when the wake time has come.
\<close>

theorem next_wake_is_first:
  "(get_next_wake cs = None \<longleftrightarrow> (\<forall>now. due_ids now (cs_Jobs cs) = [])) \<and>
   (\<forall>w now. get_next_wake cs = Some w \<longrightarrow> (due_ids now (cs_Jobs cs) \<noteq> [] \<longleftrightarrow> w \<le> now))"
proof (intro conjI allI impI)
  have due: "due_ids now (cs_Jobs cs) \<noteq> [] \<longleftrightarrow> (\<exists>v \<le> now. wakes (cs_Jobs cs) v)" for now
    by (auto simp: due_ids_def filter_empty_conv is_due_def split: option.splits)
  show "get_next_wake cs = None \<longleftrightarrow> (\<forall>now. due_ids now (cs_Jobs cs) = [])"
  proof
    assume none: "get_next_wake cs = None"
    then have "\<not> wakes (cs_Jobs cs) v" for v by (auto simp: get_next_wake_def next_wake_loop_None)
    with due show "\<forall>now. due_ids now (cs_Jobs cs) = []" by blast
  next
    assume "\<forall>now. due_ids now (cs_Jobs cs) = []"
    with due have "\<not> wakes (cs_Jobs cs) v" for v by blast
    then show "get_next_wake cs = None" unfolding get_next_wake_def next_wake_loop_None by (meson not_None_eq)
  qed
  show "due_ids now (cs_Jobs cs) \<noteq> [] \<longleftrightarrow> w \<le> now" if "get_next_wake cs = Some w" for w now
    using next_wake_loop_Some [of "cs_Jobs cs" None w] that
    unfolding due get_next_wake_def by (meson option.distinct(1) order_trans)
qed

end
