(* ===== verification/Search_Cache.thy ===== *)
theory Search_Cache imports Prelude Float64 "HOL-Library.Word" "HOL-Library.Multiset"
  "HOL-Library.List_Lexorder" "HOL-Library.Char_ord" begin

text \<open>
  The skill search: \<open>pkg/skills/search_cache.go\<close>, the fan-out and merge of
  \<open>pkg/skills/registry.go\<close>, and their client \<open>pkg/tools/skills_search.go\<close>.

  The cache holds the results of a query under its normal form, in the order of last use; a query
  that is similar enough to a cached one is answered from it. The order in which Go visits the
  cache is the parameter \<open>ord\<close>; the clock of a call is its argument \<open>now\<close>.
\<close>

unbundle bit_operations_syntax

section \<open>Data\<close>

record search_result =
  sr_Score :: rat
  sr_Slug :: gostr
  sr_DisplayName :: gostr
  sr_Summary :: gostr
  sr_Version :: gostr
  sr_RegistryName :: gostr

type_synonym trigram = "32 word"

record cache_entry =
  ce_query :: gostr
  ce_trigrams :: "trigram list"
  ce_results :: "search_result list"
  ce_createdAt :: int

record search_cache =
  sc_entries :: "gostr \<rightharpoonup> cache_entry"
  sc_order :: "gostr list"
  sc_maxEntries :: int
  sc_ttl :: duration

definition new_search_cache :: "int \<Rightarrow> duration \<Rightarrow> search_cache" where
  "new_search_cache maxEntries ttl =
     \<lparr>sc_entries = Map.empty, sc_order = [], sc_maxEntries = (if maxEntries \<le> 0 then 50 else maxEntries),
      sc_ttl = (if ttl \<le> 0 then seconds 300 else ttl)\<rparr>"

section \<open>Similarity\<close>

definition normalize_query :: "gostr \<Rightarrow> gostr" where
  "normalize_query q = to_lower (trim_space q)"

definition trigram_of :: "char \<Rightarrow> char \<Rightarrow> char \<Rightarrow> trigram" where
  "trigram_of a b c =
     push_bit 16 (word_of_nat (code a)) OR push_bit 8 (word_of_nat (code b)) OR word_of_nat (code c)"

fun raw_trigrams :: "gostr \<Rightarrow> trigram list" where
  "raw_trigrams (a # b # c # s) = trigram_of a b c # raw_trigrams (b # c # s)"
| "raw_trigrams _ = []"

text \<open>Sorted, then each kept when it differs from the one before it.\<close>

definition build_trigrams :: "gostr \<Rightarrow> trigram list" where
  "build_trigrams s = (if length s < 3 then [] else remdups_adj (sort (raw_trigrams s)))"

fun intersection_size :: "trigram list \<Rightarrow> trigram list \<Rightarrow> nat" where
  "intersection_size (a # as) (b # bs) =
     (if a = b then Suc (intersection_size as bs)
      else if a < b then intersection_size as (b # bs)
      else intersection_size (a # as) bs)"
| "intersection_size _ _ = 0"

definition jaccard_similarity :: "trigram list \<Rightarrow> trigram list \<Rightarrow> rat" where
  "jaccard_similarity a b =
     (if length a = 0 \<and> length b = 0 then 1
      else let i = intersection_size a b; u = length a + length b - i in f64 (of_nat i / of_nat u))"

definition similarity_threshold :: rat where
  "similarity_threshold = f64 (7 / 10)"

section \<open>The cache\<close>

definition move_to_end :: "gostr \<Rightarrow> gostr list \<Rightarrow> gostr list" where
  "move_to_end key order = remove1 key order @ [key]"

fun best_match :: "int \<Rightarrow> duration \<Rightarrow> trigram list \<Rightarrow> cache_entry list \<Rightarrow> rat \<times> cache_entry option \<Rightarrow> rat \<times> cache_entry option" where
  "best_match now ttl qt [] best = best"
| "best_match now ttl qt (e # es) best =
     (if ttl \<le> now - ce_createdAt e then best_match now ttl qt es best
      else let sim = jaccard_similarity qt (ce_trigrams e)
           in best_match now ttl qt es (if fst best < sim then (sim, Some e) else best))"

definition cache_get ::
  "(gostr set \<Rightarrow> gostr list) \<Rightarrow> int \<Rightarrow> gostr \<Rightarrow> search_cache \<Rightarrow> search_result list option \<times> search_cache" where
  "cache_get ord now query sc =
     (let normalized = normalize_query query;
          exact = (case sc_entries sc normalized of
                     None \<Rightarrow> None
                   | Some e \<Rightarrow> if now - ce_createdAt e < sc_ttl sc then Some e else None)
      in if normalized = [] then (None, sc)
         else
           (case exact of
              Some e \<Rightarrow> (Some (ce_results e), sc\<lparr>sc_order := move_to_end normalized (sc_order sc)\<rparr>)
            | None \<Rightarrow>
                (case best_match now (sc_ttl sc) (build_trigrams normalized)
                        (map (\<lambda>k. the (sc_entries sc k)) (ord (dom (sc_entries sc)))) (0, None) of
                   (sim, Some e) \<Rightarrow>
                     if similarity_threshold \<le> sim
                     then (Some (ce_results e), sc\<lparr>sc_order := move_to_end (ce_query e) (sc_order sc)\<rparr>)
                     else (None, sc)
                 | (sim, None) \<Rightarrow> (None, sc))))"

text \<open>\<open>evictExpiredLocked\<close>, one key of the order at a time.\<close>

definition evict_one :: "int \<Rightarrow> duration \<Rightarrow> gostr \<Rightarrow> (gostr \<rightharpoonup> cache_entry) \<times> gostr list \<Rightarrow> (gostr \<rightharpoonup> cache_entry) \<times> gostr list" where
  "evict_one now ttl key st =
     (case st of (m, order) \<Rightarrow>
        (case m key of
           None \<Rightarrow> (m(key := None), order)
         | Some e \<Rightarrow> if ttl \<le> now - ce_createdAt e then (m(key := None), order) else (m, order @ [key])))"

definition evict_expired :: "int \<Rightarrow> search_cache \<Rightarrow> search_cache" where
  "evict_expired now sc =
     (case fold (evict_one now (sc_ttl sc)) (sc_order sc) (sc_entries sc, []) of
        (m, order) \<Rightarrow> sc\<lparr>sc_entries := m, sc_order := order\<rparr>)"

text \<open>The eviction of the least recently used keys while the cache is full.\<close>

fun evict_lru :: "int \<Rightarrow> gostr list \<Rightarrow> (gostr \<rightharpoonup> cache_entry) \<Rightarrow> gostr list \<times> (gostr \<rightharpoonup> cache_entry)" where
  "evict_lru maxEntries [] m = ([], m)"
| "evict_lru maxEntries (k # ks) m =
     (if maxEntries \<le> int (card (dom m)) then evict_lru maxEntries ks (m(k := None)) else (k # ks, m))"

definition make_entry :: "int \<Rightarrow> gostr \<Rightarrow> search_result list \<Rightarrow> cache_entry" where
  "make_entry now normalized results =
     \<lparr>ce_query = normalized, ce_trigrams = build_trigrams normalized, ce_results = results, ce_createdAt = now\<rparr>"

definition cache_put :: "int \<Rightarrow> gostr \<Rightarrow> search_result list \<Rightarrow> search_cache \<Rightarrow> search_cache" where
  "cache_put now query results sc0 =
     (let normalized = normalize_query query in
      if normalized = [] then sc0
      else
        let sc = evict_expired now sc0 in
        if sc_entries sc normalized \<noteq> None
        then sc\<lparr>sc_entries := (sc_entries sc)(normalized \<mapsto> make_entry now normalized results),
                sc_order := move_to_end normalized (sc_order sc)\<rparr>
        else
          (case evict_lru (sc_maxEntries sc) (sc_order sc) (sc_entries sc) of
             (order, m) \<Rightarrow>
               sc\<lparr>sc_entries := m(normalized \<mapsto> make_entry now normalized results),
                  sc_order := order @ [normalized]\<rparr>))"

section \<open>The search over the registries\<close>

text \<open>The insertion of \<open>sortByScoreDesc\<close>: \<open>key\<close> moves left past the smaller scores; the list is reversed.\<close>

fun insert_score :: "search_result \<Rightarrow> search_result list \<Rightarrow> search_result list" where
  "insert_score key [] = [key]"
| "insert_score key (r # rs) = (if sr_Score r < sr_Score key then r # insert_score key rs else key # r # rs)"

definition sort_by_score_desc :: "search_result list \<Rightarrow> search_result list" where
  "sort_by_score_desc results = rev (fold insert_score results [])"

text \<open>
  \<open>SearchAll\<close>: what the registries answered, in the order of arrival on the channel; a registry
  whose context ends before it gets a slot answers with an error.
\<close>

fun merge_arrivals :: "(gostr + search_result list) list \<Rightarrow> search_result list \<Rightarrow> gostr option \<Rightarrow> bool \<Rightarrow>
    search_result list \<times> gostr option \<times> bool" where
  "merge_arrivals [] merged lastErr ok = (merged, lastErr, ok)"
| "merge_arrivals (Inl e # as) merged lastErr ok = merge_arrivals as merged (Some e) ok"
| "merge_arrivals (Inr rs # as) merged lastErr ok = merge_arrivals as (merged @ rs) lastErr True"

definition search_all :: "(gostr + search_result list) list \<Rightarrow> int \<Rightarrow> gostr + search_result list" where
  "search_all arrivals limit =
     (if arrivals = [] then Inl ''no registries configured''
      else (case merge_arrivals arrivals [] None False of (merged, lastErr, ok) \<Rightarrow>
              if \<not> ok \<and> lastErr \<noteq> None then Inl (''all registries failed: '' @ the lastErr)
              else let sorted = sort_by_score_desc merged
                   in Inr (if 0 < limit \<and> limit < int (length sorted) then take (nat limit) sorted else sorted)))"

section \<open>The tool\<close>

text \<open>What \<open>FindSkillsTool.Execute\<close> reports, before it is rendered as text.\<close>

datatype find_outcome = BadQuery | SearchFailed gostr | Found bool "search_result list"

definition requested_limit :: "rat option \<Rightarrow> int" where
  "requested_limit l =
     (case l of None \<Rightarrow> 5
      | Some x \<Rightarrow> let li = (if x < 0 then - \<lfloor>- x\<rfloor> else \<lfloor>x\<rfloor>) in if 1 \<le> li \<and> li \<le> 20 then li else 5)"

definition find_skills ::
  "(int \<Rightarrow> gostr \<Rightarrow> 'c \<Rightarrow> search_result list option \<times> 'c) \<Rightarrow> (int \<Rightarrow> gostr \<Rightarrow> search_result list \<Rightarrow> 'c \<Rightarrow> 'c) \<Rightarrow>
   (gostr \<Rightarrow> int \<Rightarrow> gostr + search_result list) \<Rightarrow> int \<Rightarrow> gostr option \<Rightarrow> rat option \<Rightarrow> 'c option \<Rightarrow>
   find_outcome \<times> 'c option" where
  "find_skills get put search now arg limit cache =
     (let query = (case arg of None \<Rightarrow> [] | Some q \<Rightarrow> to_lower (trim_space q)) in
      if query = [] then (BadQuery, cache)
      else
        (case (case cache of None \<Rightarrow> (None, cache) | Some c \<Rightarrow> (case get now query c of (hit, c') \<Rightarrow> (hit, Some c'))) of
           (Some rs, cache1) \<Rightarrow> (Found True rs, cache1)
         | (None, cache1) \<Rightarrow>
             (case search query (requested_limit limit) of
                Inl e \<Rightarrow> (SearchFailed e, cache1)
              | Inr rs \<Rightarrow>
                  (Found False rs,
                   (case cache1 of None \<Rightarrow> None | Some c \<Rightarrow> if rs \<noteq> [] then Some (put now query rs c) else Some c)))))"

section \<open>The similarity is that of the sets of trigrams\<close>

lemma bit_code: "bit (code c) k \<Longrightarrow> k < 8"
proof -
  have "take_bit 8 (code c) = code c" by (rule take_bit_nat_eq_self) simp
  then show "bit (code c) k \<Longrightarrow> k < 8" by (metis bit_take_bit_iff)
qed

lemma bit_trigram:
  "bit (trigram_of a b c) n \<longleftrightarrow>
     (16 \<le> n \<and> bit (code a) (n - 16)) \<or> (8 \<le> n \<and> n < 16 \<and> bit (code b) (n - 8)) \<or> (n < 8 \<and> bit (code c) n)"
  using bit_code [of a "n - 16"] bit_code [of b "n - 8"] bit_code [of c n]
  by (auto simp: trigram_of_def bit_simps)

lemma trigram_inj: "trigram_of a b c = trigram_of a' b' c' \<longleftrightarrow> a = a' \<and> b = b' \<and> c = c'"
proof
  assume eq: "trigram_of a b c = trigram_of a' b' c'"
  then have bits: "bit (trigram_of a b c) n = bit (trigram_of a' b' c') n" for n by simp
  have "bit (code a) k = bit (code a') k" for k using bits [of "k + 16"] by (simp add: bit_trigram)
  moreover have "bit (code b) k = bit (code b') k" for k
    using bits [of "k + 8"] bit_code [of b k] bit_code [of b' k] by (auto simp: bit_trigram)
  moreover have "bit (code c) k = bit (code c') k" for k
    using bits [of k] bit_code [of c k] bit_code [of c' k] by (auto simp: bit_trigram)
  ultimately show "a = a' \<and> b = b' \<and> c = c'" by (simp flip: code_inj add: bit_eq_iff)
qed simp

text \<open>The trigrams of a string as a set.\<close>

fun triples :: "gostr \<Rightarrow> (char \<times> char \<times> char) set" where
  "triples (a # b # c # s) = insert (a, b, c) (triples (b # c # s))"
| "triples _ = {}"

lemma finite_triples [simp]: "finite (triples s)"
  by (induction s rule: triples.induct) auto

lemma triples_empty: "triples s = {} \<longleftrightarrow> length s < 3"
  by (cases s rule: triples.cases) auto

lemma set_raw: "set (raw_trigrams s) = (\<lambda>(a, b, c). trigram_of a b c) ` triples s"
  by (induction s rule: raw_trigrams.induct) auto

lemma set_build: "set (build_trigrams s) = (\<lambda>(a, b, c). trigram_of a b c) ` triples s"
proof (cases "length s < 3")
  case True
  then have "triples s = {}" by (simp add: triples_empty)
  with True show ?thesis by (simp add: build_trigrams_def)
qed (simp add: build_trigrams_def set_raw)

lemma strict_remdups_adj: "sorted xs \<Longrightarrow> sorted_wrt (<) (remdups_adj (xs :: 'a :: linorder list))"
  by (induction xs rule: remdups_adj.induct) (auto simp: less_le)

lemma build_trigrams_sorted: "sorted_wrt (<) (build_trigrams s)"
  by (simp add: build_trigrams_def strict_remdups_adj)

lemma intersection_size_card:
  "sorted_wrt (<) as \<Longrightarrow> sorted_wrt (<) bs \<Longrightarrow> intersection_size as bs = card (set as \<inter> set bs)"
proof (induction as bs rule: intersection_size.induct)
  case (1 a as b bs)
  consider "a = b" | "a < b" | "b < a" by fastforce
  then show ?case
  proof cases
    case 1
    have "b \<notin> set as" using "1.prems" 1 by auto
    moreover have "set (a # as) \<inter> set (b # bs) = insert b (set as \<inter> set bs)" using "1.prems" 1 by auto
    ultimately show ?thesis using "1.IH"(1) "1.prems" 1 by simp
  next
    case 2
    then have "set (a # as) \<inter> set (b # bs) = set as \<inter> set (b # bs)" using "1.prems" by fastforce
    with 2 "1.IH"(2) "1.prems" show ?thesis by simp
  next
    case 3
    then have "set (a # as) \<inter> set (b # bs) = set (a # as) \<inter> set bs" using "1.prems" by fastforce
    moreover from 3 have "\<not> a < b" "a \<noteq> b" by auto
    ultimately show ?thesis using "1.IH"(3) "1.prems" by simp
  qed
qed simp_all

lemma strict_distinct: "sorted_wrt (<) xs \<Longrightarrow> distinct (xs :: 'a :: linorder list)"
  by (induction xs) auto

section \<open>The invariant of the cache\<close>

definition entries_ok :: "(gostr \<rightharpoonup> cache_entry) \<Rightarrow> bool" where
  "entries_ok m \<longleftrightarrow> (\<forall>k e. m k = Some e \<longrightarrow> ce_query e = k \<and> ce_trigrams e = build_trigrams k)"

definition cache_ok :: "search_cache \<Rightarrow> bool" where
  "cache_ok sc \<longleftrightarrow>
     distinct (sc_order sc) \<and> set (sc_order sc) = dom (sc_entries sc) \<and> entries_ok (sc_entries sc) \<and>
     0 < sc_maxEntries sc \<and> int (length (sc_order sc)) \<le> sc_maxEntries sc \<and> 0 < sc_ttl sc"

lemma cache_ok_new: "cache_ok (new_search_cache maxEntries ttl)"
  by (simp add: cache_ok_def new_search_cache_def entries_ok_def)

lemma entries_ok_drop: "entries_ok m \<Longrightarrow> entries_ok (m(k := None))"
  by (simp add: entries_ok_def)

lemma entries_ok_put: "entries_ok m \<Longrightarrow> entries_ok (m(q \<mapsto> make_entry now q rs))"
  by (simp add: entries_ok_def make_entry_def)

lemma insert_remove1: "k \<in> set order \<Longrightarrow> insert k (set (remove1 k order)) = set order"
  by (induction order) auto

lemma move_to_end_simps:
  "distinct order \<Longrightarrow> k \<in> set order \<Longrightarrow> distinct (move_to_end k order)"
  "k \<in> set order \<Longrightarrow> set (move_to_end k order) = set order"
  "k \<in> set order \<Longrightarrow> length (move_to_end k order) = length order"
  using insert_remove1 [of k order] length_pos_if_in_set [of k order]
  by (simp_all add: move_to_end_def length_remove1)

lemma cache_ok_move: "cache_ok sc \<Longrightarrow> k \<in> dom (sc_entries sc) \<Longrightarrow> cache_ok (sc\<lparr>sc_order := move_to_end k (sc_order sc)\<rparr>)"
  by (auto simp: cache_ok_def move_to_end_simps)

lemma best_match_from:
  "best_match now ttl qt es best = (s, Some e) \<Longrightarrow>
   (best = (s, Some e)) \<or> (e \<in> set es \<and> s = jaccard_similarity qt (ce_trigrams e) \<and> now - ce_createdAt e < ttl)"
  by (induction es arbitrary: best) (fastforce simp: Let_def split: if_splits)+

definition live :: "int \<Rightarrow> search_cache \<Rightarrow> gostr \<Rightarrow> bool" where
  "live now sc k \<longleftrightarrow> (\<exists>e. sc_entries sc k = Some e \<and> now - ce_createdAt e < sc_ttl sc)"

lemma evict_fold:
  "distinct ks \<Longrightarrow>
   fold (evict_one now ttl) ks (m, acc) =
     ((\<lambda>k. if k \<in> set ks \<and> \<not> (\<exists>e. m k = Some e \<and> now - ce_createdAt e < ttl) then None else m k),
      acc @ filter (\<lambda>k. \<exists>e. m k = Some e \<and> now - ce_createdAt e < ttl) ks)"
proof (induction ks arbitrary: m acc)
  case (Cons k ks)
  let ?m = "if \<exists>e. m k = Some e \<and> now - ce_createdAt e < ttl then m else m(k := None)"
  have one: "evict_one now ttl k (m, acc) =
      (?m, if \<exists>e. m k = Some e \<and> now - ce_createdAt e < ttl then acc @ [k] else acc)"
    by (auto simp: evict_one_def split: option.splits)
  have "filter (\<lambda>k. \<exists>e. ?m k = Some e \<and> now - ce_createdAt e < ttl) ks =
      filter (\<lambda>k. \<exists>e. m k = Some e \<and> now - ce_createdAt e < ttl) ks"
    using Cons.prems by (intro filter_cong) auto
  with Cons show ?case by (auto simp: one fun_eq_iff)
qed simp

lemma evict_expired_eq:
  "distinct (sc_order sc) \<Longrightarrow> set (sc_order sc) = dom (sc_entries sc) \<Longrightarrow>
   evict_expired now sc =
     sc\<lparr>sc_entries := (\<lambda>k. if live now sc k then sc_entries sc k else None), sc_order := filter (live now sc) (sc_order sc)\<rparr>"
proof -
  assume a: "distinct (sc_order sc)" "set (sc_order sc) = dom (sc_entries sc)"
  have l: "(\<exists>e. sc_entries sc k = Some e \<and> now - ce_createdAt e < sc_ttl sc) = live now sc k" for k
    by (simp add: live_def)
  have "(\<lambda>k. if k \<in> set (sc_order sc) \<and> \<not> live now sc k then None else sc_entries sc k) =
      (\<lambda>k. if live now sc k then sc_entries sc k else None)"
    using a(2) by (auto simp: fun_eq_iff live_def dom_def)
  then show ?thesis by (simp add: evict_expired_def evict_fold [OF a(1)] l)
qed

lemma evict_lru_eq:
  assumes "distinct ks" "set ks = dom m" "finite (dom m)" "0 < mx"
  shows "\<exists>d. evict_lru mx ks m = (drop d ks, m |` set (drop d ks)) \<and> int (length (drop d ks)) < mx \<and>
    (d \<noteq> 0 \<longrightarrow> int (length ks) - int d = mx - 1)"
  using assms
proof (induction ks arbitrary: m)
  case Nil
  then show ?case by (intro exI [of _ 0]) (auto simp: restrict_map_def fun_eq_iff)
next
  case (Cons k ks)
  have card: "card (dom m) = Suc (length ks)"
    using Cons.prems(1,2) distinct_card [of "k # ks"] by simp
  show ?case
  proof (cases "mx \<le> int (card (dom m))")
    case True
    have "set ks = dom (m(k := None))" using Cons.prems by auto
    moreover have "distinct ks" "finite (dom (m(k := None)))" using Cons.prems by auto
    ultimately have "\<exists>d. evict_lru mx ks (m(k := None)) = (drop d ks, (m(k := None)) |` set (drop d ks)) \<and>
        int (length (drop d ks)) < mx \<and> (d \<noteq> 0 \<longrightarrow> int (length ks) - int d = mx - 1)"
      using Cons.prems(4) by (intro Cons.IH)
    then obtain d where d: "evict_lru mx ks (m(k := None)) = (drop d ks, (m(k := None)) |` set (drop d ks))"
        "int (length (drop d ks)) < mx" "d \<noteq> 0 \<longrightarrow> int (length ks) - int d = mx - 1"
      by blast
    have "(m(k := None)) |` set (drop d ks) = m |` set (drop d ks)"
      using Cons.prems(1) by (auto simp: restrict_map_def fun_eq_iff dest: in_set_dropD)
    moreover have "d = 0 \<Longrightarrow> int (length ks) = mx - 1" using d(2) True card by simp
    ultimately show ?thesis using d True by (intro exI [of _ "Suc d"]) auto
  next
    case False
    have "m |` dom m = m" by (rule ext) (auto simp: restrict_map_def domIff)
    then have "m |` set (k # ks) = m" using Cons.prems(2) by simp
    with False card show ?thesis by (intro exI [of _ 0]) auto
  qed
qed

lemma finite_entries: "cache_ok sc \<Longrightarrow> finite (dom (sc_entries sc))"
  by (metis cache_ok_def List.finite_set)

lemma cache_ok_get:
  assumes v: "visits ord" and ok: "cache_ok sc"
  shows "cache_ok (snd (cache_get ord now q sc))"
proof -
  have keep: "e \<in> set (map (\<lambda>k. the (sc_entries sc k)) (ord (dom (sc_entries sc)))) \<Longrightarrow> ce_query e \<in> dom (sc_entries sc)" for e
    using v ok finite_entries [OF ok] by (auto simp: visits_def cache_ok_def entries_ok_def)
  have best: "best_match now (sc_ttl sc) qt (map (\<lambda>k. the (sc_entries sc k)) (ord (dom (sc_entries sc)))) (0, None) = (s, Some e) \<Longrightarrow>
      ce_query e \<in> dom (sc_entries sc)" for qt s e
    by (drule best_match_from) (use keep in blast)
  show ?thesis
    using ok best by (auto simp: cache_get_def Let_def intro!: cache_ok_move split: option.splits prod.splits)
qed

lemma cache_ok_evict: "cache_ok sc \<Longrightarrow> cache_ok (evict_expired now sc)"
proof -
  assume ok: "cache_ok sc"
  then have "length (filter (live now sc) (sc_order sc)) \<le> length (sc_order sc)" by simp
  with ok have "int (length (filter (live now sc) (sc_order sc))) \<le> sc_maxEntries sc"
    unfolding cache_ok_def by linarith
  moreover have "set (filter (live now sc) (sc_order sc)) = dom (\<lambda>k. if live now sc k then sc_entries sc k else None)"
    using ok by (auto simp: cache_ok_def live_def dom_def)
  ultimately show ?thesis
    using ok by (simp add: cache_ok_def evict_expired_eq entries_ok_def)
qed

lemma evict_expired_entries:
  "cache_ok sc \<Longrightarrow> sc_entries (evict_expired now sc) k = (if live now sc k then sc_entries sc k else None)"
  by (simp add: cache_ok_def evict_expired_eq)

lemma evict_expired_ttl [simp]: "sc_ttl (evict_expired now sc) = sc_ttl sc"
  by (simp add: evict_expired_def split: prod.splits)

lemma cache_ok_put:
  assumes ok: "cache_ok sc"
  shows "cache_ok (cache_put now q rs sc)"
proof (cases "normalize_query q = []")
  case False
  define sc1 where "sc1 = evict_expired now sc"
  have ok1: "cache_ok sc1" using ok by (simp add: sc1_def cache_ok_evict)
  let ?n = "normalize_query q"
  show ?thesis
  proof (cases "sc_entries sc1 ?n")
    case None
    from ok1 have "distinct (sc_order sc1)" "set (sc_order sc1) = dom (sc_entries sc1)" "0 < sc_maxEntries sc1"
      by (auto simp: cache_ok_def)
    from evict_lru_eq [OF this(1,2) finite_entries [OF ok1] this(3)] obtain d where d:
        "evict_lru (sc_maxEntries sc1) (sc_order sc1) (sc_entries sc1) = (drop d (sc_order sc1), sc_entries sc1 |` set (drop d (sc_order sc1)))"
        "int (length (drop d (sc_order sc1))) < sc_maxEntries sc1" by blast
    have "set (drop d (sc_order sc1)) \<subseteq> dom (sc_entries sc1)" using ok1 by (auto simp: cache_ok_def dest: in_set_dropD)
    moreover have "?n \<notin> dom (sc_entries sc1)" using None by auto
    moreover have "entries_ok (sc_entries sc1 |` A)" for A using ok1 by (auto simp: cache_ok_def entries_ok_def restrict_map_def)
    ultimately have "cache_ok (sc1\<lparr>sc_entries := (sc_entries sc1 |` set (drop d (sc_order sc1)))(?n \<mapsto> make_entry now ?n rs),
        sc_order := drop d (sc_order sc1) @ [?n]\<rparr>)"
      using ok1 d(2) by (auto simp: cache_ok_def entries_ok_put)
    then show ?thesis using False None by (simp add: cache_put_def Let_def d(1) flip: sc1_def)
  next
    case (Some e)
    then have "?n \<in> set (sc_order sc1)" using ok1 by (auto simp: cache_ok_def)
    with ok1 have "cache_ok (sc1\<lparr>sc_entries := (sc_entries sc1)(?n \<mapsto> make_entry now ?n rs), sc_order := move_to_end ?n (sc_order sc1)\<rparr>)"
      by (auto simp: cache_ok_def entries_ok_put move_to_end_simps)
    with False Some show ?thesis by (simp add: cache_put_def Let_def flip: sc1_def)
  qed
qed (simp add: cache_put_def Let_def ok)

lemma put_entry_there:
  "normalize_query q \<noteq> [] \<Longrightarrow>
   sc_entries (cache_put now q rs sc) (normalize_query q) = Some (make_entry now (normalize_query q) rs) \<and>
   sc_ttl (cache_put now q rs sc) = sc_ttl sc"
  by (auto simp: cache_put_def Let_def split: prod.splits)

lemma get_exact:
  "normalize_query q \<noteq> [] \<Longrightarrow> sc_entries sc (normalize_query q) = Some e \<Longrightarrow> now - ce_createdAt e < sc_ttl sc \<Longrightarrow>
   fst (cache_get ord now q sc) = Some (ce_results e)"
  by (simp add: cache_get_def Let_def)

section \<open>What the tool relies on\<close>

text \<open>
  The contract between \<open>FindSkillsTool\<close> and its cache: what was put is found again while it is
  fresh, and a lookup changes neither the entries nor their age.
\<close>

locale query_cache =
  fixes inv :: "'c \<Rightarrow> bool"
    and get :: "int \<Rightarrow> gostr \<Rightarrow> 'c \<Rightarrow> search_result list option \<times> 'c"
    and put :: "int \<Rightarrow> gostr \<Rightarrow> search_result list \<Rightarrow> 'c \<Rightarrow> 'c"
    and ttl :: "'c \<Rightarrow> duration"
  assumes inv_get: "inv c \<Longrightarrow> inv (snd (get now q c))"
    and inv_put: "inv c \<Longrightarrow> inv (put now q rs c)"
    and ttl_get: "ttl (snd (get now q c)) = ttl c"
    and get_put: "inv c \<Longrightarrow> normalize_query q \<noteq> [] \<Longrightarrow> t - now < ttl c \<Longrightarrow> fst (get t q (put now q rs c)) = Some rs"
begin

lemma find_inv:
  assumes "inv c" "find_skills get put search now arg limit (Some c) = (res, c')"
  shows "\<exists>d. c' = Some d \<and> inv d"
  using assms inv_get [OF assms(1), of now] inv_put
  by (auto simp: find_skills_def Let_def split: option.splits prod.splits sum.splits if_splits) (metis snd_conv)+

text \<open>The second of two equal requests is answered from the cache, whatever limit it has.\<close>

lemma find_again:
  assumes "inv c" "find_skills get put search now (Some q) limit (Some c) = (Found False rs, c')" "rs \<noteq> []" "t - now < ttl c"
  shows "fst (find_skills get put search' t (Some q) limit' c') = Found True rs"
proof -
  let ?q = "to_lower (trim_space q)"
  have norm: "normalize_query ?q = ?q" by (simp add: normalize_query_def flip: to_lower_trim_space)
  obtain hit d where g: "get now ?q c = (hit, d)" by fastforce
  have q: "?q \<noteq> []" using assms(2) by (auto simp: find_skills_def)
  with assms(2,3) g have c': "c' = Some (put now ?q rs d)"
    by (auto simp: find_skills_def Let_def split: option.splits sum.splits)
  have d: "inv d" "ttl d = ttl c" using inv_get [OF assms(1), of now ?q] ttl_get [of now ?q c] g by simp_all
  obtain hit' d' where g': "get t ?q (put now ?q rs d) = (hit', d')" by fastforce
  from get_put [OF d(1), of ?q t now rs] norm q d(2) assms(4) g' have "hit' = Some rs" by simp
  with c' g' q show ?thesis by (simp add: find_skills_def Let_def)
qed

end

interpretation skill_cache: query_cache "\<lambda>c. visits ord \<and> cache_ok c" "cache_get ord" cache_put sc_ttl
  for ord :: "gostr set \<Rightarrow> gostr list"
proof (unfold_locales, goal_cases)
  case (1 c now q) then show ?case by (simp add: cache_ok_get)
next
  case (2 c now q rs) then show ?case by (simp add: cache_ok_put)
next
  case (3 now q c) show ?case by (auto simp: cache_get_def Let_def split: option.splits prod.splits)
next
  case (4 c q t now rs)
  then show ?case using put_entry_there [of q now rs c] get_exact [of q "cache_put now q rs c" _ t ord] by (simp add: make_entry_def)
qed

section \<open>The merge of the answers\<close>

lemma insert_score_mset: "mset (insert_score k rs) = add_mset k (mset rs)"
  by (induction rs) auto

definition ascending :: "search_result list \<Rightarrow> bool" where
  "ascending rs \<longleftrightarrow> sorted_wrt (\<lambda>a b. sr_Score a \<le> sr_Score b) rs"

lemma insert_score_set: "set (insert_score k rs) = insert k (set rs)"
  by (induction rs) auto

lemma insert_score_ascending: "ascending rs \<Longrightarrow> ascending (insert_score k rs)"
  by (induction rs) (auto simp: ascending_def insert_score_set)

lemma insert_score_stable:
  "ascending rs \<Longrightarrow> filter (\<lambda>r. sr_Score r = s) (insert_score k rs) =
     (if sr_Score k = s then k # filter (\<lambda>r. sr_Score r = s) rs else filter (\<lambda>r. sr_Score r = s) rs)"
proof (induction rs)
  case (Cons r rs)
  then show ?case by (auto simp: ascending_def)
qed simp

lemma sort_fold:
  "ascending acc \<Longrightarrow> ascending (fold insert_score rs acc) \<and> mset (fold insert_score rs acc) = mset rs + mset acc \<and>
   filter (\<lambda>r. sr_Score r = s) (fold insert_score rs acc) = rev (filter (\<lambda>r. sr_Score r = s) rs) @ filter (\<lambda>r. sr_Score r = s) acc"
  by (induction rs arbitrary: acc) (auto simp: insert_score_ascending insert_score_mset insert_score_stable)

lemma sort_by_score_desc_sorted:
  "sorted_wrt (\<lambda>a b. sr_Score b \<le> sr_Score a) (sort_by_score_desc rs)"
  "mset (sort_by_score_desc rs) = mset rs"
  "filter (\<lambda>r. sr_Score r = s) (sort_by_score_desc rs) = filter (\<lambda>r. sr_Score r = s) rs"
  using sort_fold [of "[]" rs s]
  by (simp_all add: sort_by_score_desc_def ascending_def sorted_wrt_rev flip: rev_filter)

lemma merge_arrivals_eq:
  "merge_arrivals as merged lastErr ok =
     (merged @ concat (map (\<lambda>a. case a of Inl _ \<Rightarrow> [] | Inr rs \<Rightarrow> rs) as),
      fold (\<lambda>a e. case a of Inl x \<Rightarrow> Some x | Inr _ \<Rightarrow> e) as lastErr,
      ok \<or> (\<exists>rs. Inr rs \<in> set as))"
  by (induction as merged lastErr ok rule: merge_arrivals.induct) auto

lemma last_error: "fold (\<lambda>a e. case a of Inl x \<Rightarrow> Some x | Inr _ \<Rightarrow> e) as lastErr = None \<Longrightarrow> \<forall>a \<in> set as. \<exists>rs. a = Inr rs"
proof (induction as arbitrary: lastErr)
  case (Cons a as)
  have stays: "fold (\<lambda>a e. case a of Inl x \<Rightarrow> Some x | Inr _ \<Rightarrow> e) as (Some x) \<noteq> None" for x
    by (induction as arbitrary: x) (auto split: sum.splits)
  from Cons stays show ?case by (cases a) auto
qed simp

section \<open>Properties\<close>

text \<open>
  C25 The similarity of two strings is the Jaccard index of their sets of trigrams, rounded to
  \<open>float64\<close>; the sorted lists and the merge loop lose and confuse nothing.
\<close>

theorem similarity_is_jaccard:
  "jaccard_similarity (build_trigrams s) (build_trigrams t) =
     (if triples s = {} \<and> triples t = {} then 1
      else f64 (of_nat (card (triples s \<inter> triples t)) / of_nat (card (triples s \<union> triples t))))"
proof -
  let ?f = "\<lambda>(a, b, c). trigram_of a b c"
  have inj: "inj_on ?f A" for A by (auto simp: inj_on_def trigram_inj)
  have i: "intersection_size (build_trigrams s) (build_trigrams t) = card (triples s \<inter> triples t)"
    by (simp add: intersection_size_card build_trigrams_sorted set_build card_image [OF inj] flip: image_Int [OF inj [of UNIV]])
  have len: "length (build_trigrams u) = card (triples u)" for u
    using distinct_card [OF strict_distinct [OF build_trigrams_sorted], of u] by (simp add: set_build card_image [OF inj])
  have u: "card (triples s) + card (triples t) - card (triples s \<inter> triples t) = card (triples s \<union> triples t)"
    using card_Un_Int [of "triples s" "triples t"] by simp
  show ?thesis by (simp add: jaccard_similarity_def Let_def i len u)
qed

text \<open>The operations of the cache.\<close>

datatype cache_event = EvGet int gostr | EvPut int gostr "search_result list"

fun cache_do :: "(gostr set \<Rightarrow> gostr list) \<Rightarrow> cache_event \<Rightarrow> search_cache \<Rightarrow> search_cache" where
  "cache_do ord (EvGet now q) sc = snd (cache_get ord now q sc)"
| "cache_do ord (EvPut now q rs) sc = cache_put now q rs sc"

text \<open>
  After any lookups and insertions the cache is consistent: the order of last use lists each
  cached query once and nothing else, every entry is stored under its own query with the trigrams
  of it, and there are at most as many entries as configured.
\<close>

theorem cache_invariant:
  assumes "visits ord"
  shows "cache_ok (fold (cache_do ord) evs (new_search_cache maxEntries ttl))"
proof -
  have "cache_ok sc \<Longrightarrow> cache_ok (fold (cache_do ord) evs sc)" for sc
  proof (induction evs arbitrary: sc)
    case (Cons e evs)
    then have "cache_ok (cache_do ord e sc)" using assms by (cases e) (simp_all add: cache_ok_get cache_ok_put)
    with Cons show ?case by simp
  qed simp
  then show ?thesis by (simp add: cache_ok_new)
qed

theorem cache_invariant_witness:
  "cache_ok (fold (cache_do sorted_list_of_set) [EvPut 0 ''github'' [], EvGet 1 ''git hub''] (new_search_cache 1 0))"
  by (rule cache_invariant [OF visits_sorted])

text \<open>
  Two unrelated queries of at most two bytes are taken for equal: neither has a trigram, and two
  empty sets of trigrams have similarity 1, so that the second query gets the results of the first.
\<close>

theorem short_query_false_hit:
  assumes "visits ord" "normalize_query q \<noteq> []" "length (normalize_query q) < 3"
    "normalize_query p \<noteq> []" "length (normalize_query p) < 3" "t - now < sc_ttl (new_search_cache maxEntries ttl)"
  shows "fst (cache_get ord t p (cache_put now q rs (new_search_cache maxEntries ttl))) = Some rs"
proof -
  let ?q = "normalize_query q"
  let ?sc = "cache_put now q rs (new_search_cache maxEntries ttl)"
  have sc: "sc_entries ?sc = [?q \<mapsto> make_entry now ?q rs]" "sc_ttl ?sc = sc_ttl (new_search_cache maxEntries ttl)"
    using assms(2) by (simp_all add: cache_put_def Let_def evict_expired_def new_search_cache_def)
  show ?thesis
  proof (cases "normalize_query p = ?q")
    case True
    with sc assms(4,6) show ?thesis by (simp add: cache_get_def Let_def make_entry_def)
  next
    case False
    note o = visits_single [OF assms(1), of ?q]
    have "similarity_threshold \<le> 1" by (simp add: similarity_threshold_def f64_eval)
    moreover have "build_trigrams ?q = []" "build_trigrams (normalize_query p) = []"
      using assms(3,5) by (simp_all add: build_trigrams_def)
    ultimately show ?thesis
      using assms(4,6) False by (simp add: cache_get_def Let_def sc o make_entry_def jaccard_similarity_def)
  qed
qed

theorem short_query_false_hit_witness:
  "fst (cache_get sorted_list_of_set 1 ''go'' (cache_put 0 ''k8'' rs (new_search_cache 0 0))) = Some rs"
  by (rule short_query_false_hit [OF visits_sorted])
    (simp_all add: normalize_query_def trim_space_def trim_left_def trim_right_def is_space_def code_def new_search_cache_def)

text \<open>The results that arrived, in order.\<close>

definition arrived :: "(gostr + search_result list) list \<Rightarrow> search_result list" where
  "arrived arrivals = concat (map (\<lambda>a. case a of Inl _ \<Rightarrow> [] | Inr rs \<Rightarrow> rs) arrivals)"

text \<open>
  The merged answer is sorted by descending score, keeps the order of arrival among equal
  scores, and is cut to the requested number; the search fails only when every registry failed.
\<close>

theorem search_all_merged:
  assumes "arrivals \<noteq> []"
  shows "case search_all arrivals limit of
      Inl e \<Rightarrow> (\<forall>a \<in> set arrivals. \<exists>x. a = Inl x)
    | Inr rs \<Rightarrow> (\<exists>x. Inr x \<in> set arrivals) \<and>
        (\<exists>all. rs = (if 0 < limit then take (nat limit) all else all) \<and>
          sorted_wrt (\<lambda>a b. sr_Score b \<le> sr_Score a) all \<and> mset all = mset (arrived arrivals) \<and>
          (\<forall>s. filter (\<lambda>r. sr_Score r = s) all = filter (\<lambda>r. sr_Score r = s) (arrived arrivals)))"
proof -
  let ?err = "fold (\<lambda>a e. case a of Inl x \<Rightarrow> Some x | Inr _ \<Rightarrow> e) arrivals None"
  let ?all = "sort_by_score_desc (arrived arrivals)"
  have eq: "search_all arrivals limit =
      (if (\<forall>x. Inr x \<notin> set arrivals) \<and> ?err \<noteq> None then Inl (''all registries failed: '' @ the ?err)
       else Inr (if 0 < limit then take (nat limit) ?all else ?all))"
    using assms by (auto simp: search_all_def merge_arrivals_eq Let_def arrived_def)
  show ?thesis
  proof (cases "(\<forall>x. Inr x \<notin> set arrivals) \<and> ?err \<noteq> None")
    case True
    then have "\<forall>a \<in> set arrivals. \<exists>x. a = Inl x" by (metis old.sum.exhaust)
    then show ?thesis unfolding eq if_P [OF True] by simp
  next
    case False
    then have "\<exists>x. Inr x \<in> set arrivals" using last_error [of arrivals None] assms by (metis last_in_set)
    then show ?thesis unfolding eq if_not_P [OF False]
      using sort_by_score_desc_sorted [where rs = "arrived arrivals"] by auto
  qed
qed

theorem search_all_merged_witness:
  "\<exists>rs. search_all [Inl ''timeout'', Inr [r, s]] 1 = Inr rs \<and> length rs = 1"
  using search_all_merged [of "[Inl ''timeout'', Inr [r, s]]" 1]
  by (cases "search_all [Inl ''timeout'', Inr [r, s]] 1") (auto simp: arrived_def dest!: arg_cong [of "mset _" _ size])

text \<open>
  A repeated request is answered from the cache while the entry is fresh, whatever limit it
  asks for: after a first request for one result, a request for twenty gets that one result.
\<close>

theorem repeat_ignores_limit:
  assumes "visits ord" "cache_ok c"
    "find_skills (cache_get ord) cache_put search now (Some q) limit (Some c) = (Found False rs, c')"
    "rs \<noteq> []" "t - now < sc_ttl c"
  shows "fst (find_skills (cache_get ord) cache_put search' t (Some q) limit' c') = Found True rs"
  using skill_cache.find_again [of ord c search now q limit rs c' t search' limit'] assms by simp

theorem repeat_ignores_limit_witness:
  "fst (find_skills (cache_get sorted_list_of_set) cache_put (\<lambda>_ _. Inl []) 1 (Some ''go'') (Some 20)
     (snd (find_skills (cache_get sorted_list_of_set) cache_put (\<lambda>_ _. Inr [r]) 0 (Some ''go'') (Some 1)
       (Some (new_search_cache 0 0))))) = Found True [r]"
proof -
  let ?ord = "sorted_list_of_set :: gostr set \<Rightarrow> gostr list"
  let ?c = "new_search_cache 0 0"
  have go: "to_lower (trim_space ''go'') = ''go''" by code_simp
  have "cache_get ?ord 0 ''go'' ?c = (None, ?c)"
    by (simp add: cache_get_def Let_def normalize_query_def go new_search_cache_def)
  then have "find_skills (cache_get ?ord) cache_put (\<lambda>_ _. Inr [r]) 0 (Some ''go'') (Some 1) (Some ?c) =
      (Found False [r], Some (cache_put 0 ''go'' [r] ?c))"
    by (simp add: find_skills_def go Let_def requested_limit_def)
  from repeat_ignores_limit [OF visits_sorted cache_ok_new this, of 1 "\<lambda>_ _. Inl []" "Some 20"] this
  show ?thesis by (simp add: new_search_cache_def)
qed

end
