(* ===== verification/History.thy ===== *)
theory History imports Session_Store begin

text \<open>
  The conversation as the agent prepares it for a provider: \<open>BuildMessages\<close> and
  \<open>sanitizeHistoryForProvider\<close> of \<open>pkg/agent/context.go\<close>, and the parts of \<open>pkg/agent/loop.go\<close> that
  shorten a history, \<open>forceCompression\<close> and \<open>findNearestUserMessage\<close>.

  Strict providers refuse a conversation in which a call of a tool is not followed by its result,
  or a result is not preceded by its call; \<open>paired\<close> below says so. \<open>sane\<close> adds the order of turns the
  sanitizer enforces.
\<close>

section \<open>Roles\<close>

abbreviation is_tool :: "'v message \<Rightarrow> bool" where
  "is_tool m \<equiv> msg_Role m = ''tool''"

abbreviation is_call :: "'v message \<Rightarrow> bool" where
  "is_call m \<equiv> msg_Role m = ''assistant'' \<and> msg_ToolCalls m \<noteq> []"

definition call_ids :: "'v message \<Rightarrow> gostr list" where
  "call_ids m = map tc_ID (msg_ToolCalls m)"

section \<open>Sanitizing a history\<close>

text \<open>The walk backwards over tool messages to the nearest other message.\<close>

definition found_assistant :: "'v message list \<Rightarrow> bool" where
  "found_assistant acc = (case dropWhile is_tool (rev acc) of [] \<Rightarrow> False | m # _ \<Rightarrow> is_call m)"

text \<open>One message of the first pass, appended to \<open>acc\<close> or dropped.\<close>

definition sanitize_step :: "'v message \<Rightarrow> 'v message list \<Rightarrow> 'v message list" where
  "sanitize_step m acc =
     (if msg_Role m = ''system'' then acc
      else if is_tool m
      then (if acc = [] then acc else if \<not> found_assistant acc then acc else acc @ [m])
      else if msg_Role m = ''assistant''
      then (if msg_ToolCalls m \<noteq> []
            then (if acc = [] then acc
                  else if msg_Role (last acc) \<noteq> ''user'' \<and> msg_Role (last acc) \<noteq> ''tool'' then acc
                  else acc @ [m])
            else acc @ [m])
      else acc @ [m])"

text \<open>The second pass: a call without all its results is dropped with the results it has.\<close>

function drop_incomplete :: "'v message list \<Rightarrow> 'v message list" where
  "drop_incomplete [] = []"
| "drop_incomplete (m # rest) =
     (if is_call m \<and> \<not> set (call_ids m) \<subseteq> msg_ToolCallID ` set (takeWhile is_tool rest)
      then drop_incomplete (drop (length (takeWhile is_tool rest)) rest)
      else m # drop_incomplete rest)"
  by pat_completeness auto
termination by (relation "measure length") auto

definition sanitize_history :: "'v message list \<Rightarrow> 'v message list" where
  "sanitize_history history =
     (if history = [] then history else drop_incomplete (fold sanitize_step history []))"

section \<open>Building the request\<close>

abbreviation nl :: gostr where
  "nl \<equiv> [CHR 0x0A]"

definition separator :: gostr where
  "separator = nl @ nl @ ''---'' @ nl @ nl"

definition summary_text :: "gostr \<Rightarrow> gostr" where
  "summary_text summary =
     ''CONTEXT_SUMMARY: The following is an approximate summary of prior conversation '' @
     ''for reference only. It may be incomplete or outdated '' @ [CHR 0xE2, CHR 0x80, CHR 0x94] @
     '' always defer to explicit instructions.'' @ nl @ nl @ summary"

definition text_block :: "gostr \<Rightarrow> gostr option \<Rightarrow> content_block" where
  "text_block t cache = \<lparr>cb_Type = ''text'', cb_Text = t, cb_CacheControl = cache\<rparr>"

text \<open>\<open>staticPrompt\<close> and \<open>dynamicCtx\<close>, read from files and the clock, are arguments.\<close>

definition system_message :: "gostr \<Rightarrow> gostr \<Rightarrow> gostr \<Rightarrow> 'v message" where
  "system_message static dynamic summary =
     (text_message ''system''
        (static @ separator @ dynamic @ (if summary \<noteq> [] then separator @ summary_text summary else [])))
       \<lparr>msg_SystemParts := [text_block static (Some ''ephemeral''), text_block dynamic None] @
          (if summary \<noteq> [] then [text_block (summary_text summary) None] else [])\<rparr>"

definition build_messages ::
  "gostr \<Rightarrow> gostr \<Rightarrow> 'v message list \<Rightarrow> gostr \<Rightarrow> gostr \<Rightarrow> gostr list \<Rightarrow> 'v message list" where
  "build_messages static dynamic history summary current media =
     [system_message static dynamic summary] @ sanitize_history history @
     (if trim_space current \<noteq> []
      then [(text_message ''user'' current)\<lparr>msg_Media := (if media \<noteq> [] then media else [])\<rparr>] else [])"

section \<open>Shortening a history\<close>

fun show_nat :: "nat \<Rightarrow> gostr" where
  "show_nat n = (if n < 10 then [char_of (48 + n)] else show_nat (n div 10) @ [char_of (48 + n mod 10)])"

definition compression_note :: "nat \<Rightarrow> gostr" where
  "compression_note n =
     nl @ nl @ ''[System Note: Emergency compression dropped '' @ show_nat n @
     '' oldest messages due to context limit]''"

text \<open>\<open>forceCompression\<close>: \<open>None\<close> when the history is too short to be compressed.\<close>

definition compress_messages :: "'v message list \<Rightarrow> 'v message list option" where
  "compress_messages history =
     (if length history \<le> 4 then None
      else
        let conversation = drop 1 (butlast history) in
        if conversation = [] then None
        else
          let mid = length conversation div 2;
              first = hd history
          in Some ([first\<lparr>msg_Content := msg_Content first @ compression_note mid\<rparr>] @
                   drop mid conversation @ [last history]))"

text \<open>\<open>findNearestUserMessage\<close>: backwards, then forwards; an index out of range would panic.\<close>

fun scan_back :: "'v message list \<Rightarrow> nat \<Rightarrow> nat" where
  "scan_back rest 0 = 0"
| "scan_back rest (Suc i) = (if msg_Role (rest ! Suc i) \<noteq> ''user'' then scan_back rest i else Suc i)"

definition find_nearest_user_message :: "'v message list \<Rightarrow> nat \<Rightarrow> nat option" where
  "find_nearest_user_message rest mid =
     (if length rest \<le> mid then None
      else
        let b = scan_back rest mid in
        if msg_Role (rest ! b) = ''user'' then Some b
        else
          let f = mid + length (takeWhile (\<lambda>m. msg_Role m \<noteq> ''user'') (drop mid rest))
          in if f < length rest then Some f else Some mid)"

section \<open>What a provider accepts\<close>

text \<open>
  Whether a list of messages can follow: \<open>ta\<close> when a tool result may come first, \<open>ca\<close> when a call may.
\<close>

fun sane :: "bool \<Rightarrow> bool \<Rightarrow> 'v message list \<Rightarrow> bool" where
  "sane ta ca [] = True"
| "sane ta ca (m # rest) =
     (msg_Role m \<noteq> ''system'' \<and>
      (if is_tool m then ta \<and> sane True True rest
       else if is_call m
       then ca \<and> set (call_ids m) \<subseteq> msg_ToolCallID ` set (takeWhile is_tool rest) \<and> sane True False rest
       else sane False (msg_Role m = ''user'') rest))"

text \<open>The pairing of calls and results alone.\<close>

fun paired :: "bool \<Rightarrow> 'v message list \<Rightarrow> bool" where
  "paired ta [] = True"
| "paired ta (m # rest) =
     (msg_Role m \<noteq> ''system'' \<and>
      (if is_tool m then ta \<and> paired True rest
       else if is_call m
       then set (call_ids m) \<subseteq> msg_ToolCallID ` set (takeWhile is_tool rest) \<and> paired True rest
       else paired False rest))"

lemma sane_paired: "sane ta ca rest \<Longrightarrow> paired ta rest"
  by (induction ta ca rest rule: sane.induct) (auto split: if_splits)

lemma sane_mono: "sane ta ca rest \<Longrightarrow> (ta \<Longrightarrow> ta') \<Longrightarrow> (ca \<Longrightarrow> ca') \<Longrightarrow> sane ta' ca' rest"
  by (cases rest) (auto split: if_splits)

lemma paired_mono: "paired ta rest \<Longrightarrow> (ta \<Longrightarrow> ta') \<Longrightarrow> paired ta' rest"
  by (cases rest) (auto split: if_splits)

text \<open>The first pass keeps exactly the shape, not yet the completeness, of a sane history.\<close>

fun shaped :: "bool \<Rightarrow> bool \<Rightarrow> 'v message list \<Rightarrow> bool" where
  "shaped ta ca [] = True"
| "shaped ta ca (m # rest) =
     (msg_Role m \<noteq> ''system'' \<and>
      (if is_tool m then ta \<and> shaped True True rest
       else if is_call m then ca \<and> shaped True False rest
       else shaped False (msg_Role m = ''user'') rest))"

definition call_allowed :: "'v message list \<Rightarrow> bool" where
  "call_allowed acc \<longleftrightarrow> acc \<noteq> [] \<and> msg_Role (last acc) \<in> {''user'', ''tool''}"

fun first_pass :: "bool \<Rightarrow> bool \<Rightarrow> 'v message list \<Rightarrow> 'v message list" where
  "first_pass ta ca [] = []"
| "first_pass ta ca (m # rest) =
     (if msg_Role m = ''system'' then first_pass ta ca rest
      else if is_tool m then (if ta then m # first_pass True True rest else first_pass ta ca rest)
      else if is_call m then (if ca then m # first_pass True False rest else first_pass ta ca rest)
      else m # first_pass False (msg_Role m = ''user'') rest)"

lemma found_assistant_Nil [simp]: "\<not> found_assistant []"
  by (simp add: found_assistant_def)

lemma found_assistant_snoc [simp]:
  "found_assistant (acc @ [m]) = (if is_tool m then found_assistant acc else is_call m)"
  by (simp add: found_assistant_def)

lemma call_allowed_simps [simp]:
  "\<not> call_allowed []" "call_allowed (acc @ [m]) \<longleftrightarrow> msg_Role m \<in> {''user'', ''tool''}"
  by (auto simp: call_allowed_def)

lemma sanitize_step_eq:
  "sanitize_step m acc =
     (if msg_Role m = ''system'' then acc
      else if is_tool m then (if found_assistant acc then acc @ [m] else acc)
      else if is_call m then (if call_allowed acc then acc @ [m] else acc)
      else acc @ [m])"
  by (auto simp: sanitize_step_def call_allowed_def)

lemma sanitize_fold: "fold sanitize_step rest acc = acc @ first_pass (found_assistant acc) (call_allowed acc) rest"
proof (induction rest arbitrary: acc)
  case (Cons m rest)
  let ?acc = "sanitize_step m acc"
  have "?acc @ first_pass (found_assistant ?acc) (call_allowed ?acc) rest =
      acc @ first_pass (found_assistant acc) (call_allowed acc) (m # rest)"
    by (auto simp: sanitize_step_eq)
  then show ?case by (simp add: Cons.IH)
qed simp

lemma first_pass_shaped: "shaped ta ca (first_pass ta ca rest)"
  by (induction ta ca rest rule: first_pass.induct) auto

lemma first_pass_id: "shaped ta ca rest \<Longrightarrow> first_pass ta ca rest = rest"
  by (induction ta ca rest rule: shaped.induct) (auto split: if_splits)

lemma sane_shaped: "sane ta ca rest \<Longrightarrow> shaped ta ca rest"
  by (induction ta ca rest rule: shaped.induct) (auto split: if_splits)

lemma tools_kept: "set (takeWhile is_tool rest) \<subseteq> set (takeWhile is_tool (drop_incomplete rest))"
  by (induction rest) auto

lemma shaped_dropWhile: "shaped ta ca rest \<Longrightarrow> shaped ta' True (dropWhile is_tool rest)"
proof (induction rest arbitrary: ta ca)
  case (Cons m rest)
  show ?case
  proof (cases "is_tool m")
    case True
    with Cons show ?thesis by auto
  next
    case False
    with Cons.prems show ?thesis by (auto split: if_splits)
  qed
qed simp

lemma drop_incomplete_sane: "shaped ta ca rest \<Longrightarrow> sane ta ca (drop_incomplete rest)"
proof (induction rest arbitrary: ta ca rule: drop_incomplete.induct)
  case (2 m rest)
  show ?case
  proof (cases "is_call m \<and> \<not> set (call_ids m) \<subseteq> msg_ToolCallID ` set (takeWhile is_tool rest)")
    case True
    then have "ca" "shaped True False rest" using "2.prems" by (auto split: if_splits)
    then have "shaped ta True (dropWhile is_tool rest)" by (blast intro: shaped_dropWhile)
    with "2.IH"(1) [OF True] \<open>ca\<close> True show ?thesis by (simp flip: dropWhile_eq_drop)
  next
    case False
    then have eq: "drop_incomplete (m # rest) = m # drop_incomplete rest" by auto
    have "set (call_ids m) \<subseteq> msg_ToolCallID ` set (takeWhile is_tool (drop_incomplete rest))" if "is_call m"
      using False that tools_kept [of rest] by blast
    with False "2.IH"(2) [OF False] "2.prems" show ?thesis unfolding eq by (auto split: if_splits)
  qed
qed simp

lemma drop_incomplete_id: "sane ta ca rest \<Longrightarrow> drop_incomplete rest = rest"
  by (induction ta ca rest rule: sane.induct) (auto split: if_splits)

lemma sanitize_eq: "sanitize_history h = drop_incomplete (first_pass False False h)"
  by (simp add: sanitize_history_def sanitize_fold)

lemma first_pass_subseq: "subseq (first_pass ta ca h) h"
  by (induction ta ca h rule: first_pass.induct) auto

lemma drop_incomplete_subseq: "subseq (drop_incomplete h) h"
proof (induction h rule: drop_incomplete.induct)
  case (2 m rest)
  have "subseq (drop n rest) rest" for n by (metis append_take_drop_id list_emb_append2 subseq_order.refl)
  with 2 show ?case
    by (cases "is_call m \<and> \<not> set (call_ids m) \<subseteq> msg_ToolCallID ` set (takeWhile is_tool rest)")
      (auto simp del: drop_incomplete.simps simp: drop_incomplete.simps(2) [of m rest] intro: subseq_order.trans list_emb_Cons)
qed simp

lemma sanitize_sane: "sane False False (sanitize_history h)"
  by (simp add: sanitize_eq drop_incomplete_sane first_pass_shaped)

lemma sanitize_id: "sane False False h \<Longrightarrow> sanitize_history h = h"
  by (simp add: sanitize_eq first_pass_id sane_shaped drop_incomplete_id)

lemma system_message_role [simp]: "msg_Role (system_message static dynamic summary) = ''system''"
  by (simp add: system_message_def)

lemma paired_append: "paired ta xs \<Longrightarrow> paired False ys \<Longrightarrow> paired ta (xs @ ys)"
proof (induction xs arbitrary: ta)
  case Nil
  then show ?case by (auto intro: paired_mono)
next
  case (Cons m xs)
  have "set (takeWhile is_tool xs) \<subseteq> set (takeWhile is_tool (xs @ ys))" by (induction xs) auto
  then have "msg_ToolCallID ` set (takeWhile is_tool xs) \<subseteq> msg_ToolCallID ` set (takeWhile is_tool (xs @ ys))"
    by (rule image_mono)
  with Cons show ?case
    by (cases "is_tool m"; cases "msg_Role m = ''assistant''"; cases "msg_ToolCalls m = []"; simp; blast)
qed

definition request_ok :: "'v message list \<Rightarrow> bool" where
  "request_ok request \<longleftrightarrow> request \<noteq> [] \<and> msg_Role (hd request) = ''system'' \<and> paired False (tl request)"

lemma build_messages_ok: "request_ok (build_messages static dynamic h summary current media)"
  unfolding build_messages_def request_ok_def
  using paired_append [OF sane_paired [OF sanitize_sane [of h]]] by simp

lemma length_compress: "compress_messages h = Some h' \<Longrightarrow> length h' = length h - (length h - 2) div 2"
  by (auto simp: compress_messages_def Let_def split: if_splits)

lemma takeWhile_short: "\<exists>x \<in> set xs. \<not> P x \<Longrightarrow> length (takeWhile P xs) < length xs"
  by (induction xs) auto

section \<open>Properties\<close>



text \<open>
  The emergency compression marks the wrong message: the history of a session holds no system
  message, so the note meant for the system prompt is added to the oldest message of the
  conversation, which is kept and changed, while newer ones are dropped.
\<close>

theorem compression_alters_conversation:
  assumes "paired False h" "4 < length h"
  shows "\<exists>h' dropped. compress_messages h = Some h' \<and> msg_Role (hd h') \<noteq> ''system'' \<and>
    msg_Content (hd h') = msg_Content (hd h) @ compression_note (length dropped) \<and>
    h = hd h # dropped @ tl h' \<and> length dropped = (length h - 2) div 2"
proof -
  obtain f t where ft: "h = f # t" using assms(2) by (cases h) auto
  moreover have "t \<noteq> []" using assms(2) ft by auto
  ultimately obtain m l where h: "h = f # m @ [l]" by (metis append_butlast_last_id)
  have "length m = length h - 2" "m \<noteq> []" using assms(2) by (auto simp: h)
  moreover have "msg_Role f \<noteq> ''system''" using assms(1) by (simp add: h)
  moreover have "drop 1 (butlast h) = m" "last h = l" by (simp_all add: h)
  ultimately show ?thesis
    using assms(2)
    by (intro exI [of _ "[f\<lparr>msg_Content := msg_Content f @ compression_note (length m div 2)\<rparr>] @ drop (length m div 2) m @ [l]"]
        exI [of _ "take (length m div 2) m"]) (auto simp: compress_messages_def Let_def h min_def)
qed

theorem compression_alters_conversation_witness:
  "msg_Role (hd (the (compress_messages (replicate 6 (text_message ''user'' ''q'' :: nat message))))) = ''user''"
proof -
  have "paired False (replicate 6 (text_message ''user'' ''q'' :: nat message))"
    "4 < length (replicate 6 (text_message ''user'' ''q'' :: nat message))"
    by (simp_all add: numeral_eq_Suc)
  from compression_alters_conversation [OF this] show ?thesis by (auto simp: compress_messages_def Let_def)
qed

text \<open>
  The split of a long summary is in range, and at a user message whenever there is one.
\<close>

theorem nearest_user_message_in_range:
  assumes "mid < length h"
  shows "\<exists>i < length h. find_nearest_user_message h mid = Some i \<and>
    ((\<exists>m \<in> set h. msg_Role m = ''user'') \<longrightarrow> msg_Role (h ! i) = ''user'')"
proof -
  have bk: "scan_back h i \<le> i \<and> (msg_Role (h ! scan_back h i) \<noteq> ''user'' \<longrightarrow> (\<forall>k \<le> i. msg_Role (h ! k) \<noteq> ''user''))" for i
    by (induction i) (auto simp: le_Suc_eq)
  let ?f = "mid + length (takeWhile (\<lambda>m. msg_Role m \<noteq> ''user'') (drop mid h))"
  show ?thesis
  proof (cases "msg_Role (h ! scan_back h mid) = ''user''")
    case True
    with assms bk [of mid] show ?thesis by (auto simp: find_nearest_user_message_def)
  next
    case False
    note no_back = this
    show ?thesis
    proof (cases "?f < length h")
      case True
      then have "length (takeWhile (\<lambda>m. msg_Role m \<noteq> ''user'') (drop mid h)) < length (drop mid h)" by simp
      then have "msg_Role (drop mid h ! length (takeWhile (\<lambda>m. msg_Role m \<noteq> ''user'') (drop mid h))) = ''user''"
        using nth_length_takeWhile by fastforce
      with True no_back assms show ?thesis by (auto simp: find_nearest_user_message_def Let_def)
    next
      case False
      note far = this
      then have late: "\<forall>m \<in> set (drop mid h). msg_Role m \<noteq> ''user''"
        using takeWhile_short [of "drop mid h" "\<lambda>m. msg_Role m \<noteq> ''user''"] assms by fastforce
      have "msg_Role (h ! k) \<noteq> ''user''" if "k < length h" for k
      proof (cases "k \<le> mid")
        case False
        then have "h ! k = drop mid h ! (k - mid)" "k - mid < length (drop mid h)" using that by simp_all
        with late show ?thesis by (metis nth_mem)
      qed (use bk [of mid] no_back in blast)
      then have "\<not> (\<exists>m \<in> set h. msg_Role m = ''user'')" by (metis in_set_conv_nth)
      with far no_back assms show ?thesis by (simp add: find_nearest_user_message_def Let_def)
    qed
  qed
qed

theorem nearest_user_message_in_range_witness:
  "find_nearest_user_message [text_message ''user'' ''q'', text_message ''assistant'' ''a'' :: nat message] 1 = Some 0"
  using nearest_user_message_in_range [of 1 "[text_message ''user'' ''q'', text_message ''assistant'' ''a'' :: nat message]"]
  by (auto simp: find_nearest_user_message_def)

end
