(* ===== verification/Tool_Registry.thy ===== *)
theory Tool_Registry imports Protocol "HOL-Library.Word" "HOL-Library.List_Lexorder" "HOL-Library.Char_ord"
begin

text \<open>
  The tools of an agent: \<open>pkg/tools/result.go\<close>, \<open>registry.go\<close> and the discovery of hidden tools of
  \<open>search_tool.go\<close>, with \<open>NormalizeToolCall\<close> of \<open>pkg/providers/toolcall_utils.go\<close>.

  A tool is its name, description, parameters and whether it can run in the background; what it does
  when it is run is the parameter \<open>run\<close> of \<open>execute_with_context\<close>. The registry is a map from names;
  \<open>sort.Strings\<close> orders names bytewise, as the order on \<open>char list\<close> does.
\<close>

section \<open>Results of tools\<close>

record tool_result =
  res_ForLLM :: gostr
  res_ForUser :: gostr
  res_Silent :: bool
  res_IsError :: bool
  res_Async :: bool
  res_Err :: "gostr option"
  res_Media :: "gostr list"

definition new_tool_result :: "gostr \<Rightarrow> tool_result" where
  "new_tool_result forLLM =
     \<lparr>res_ForLLM = forLLM, res_ForUser = [], res_Silent = False, res_IsError = False, res_Async = False,
      res_Err = None, res_Media = []\<rparr>"

definition silent_result :: "gostr \<Rightarrow> tool_result" where
  "silent_result forLLM = (new_tool_result forLLM)\<lparr>res_Silent := True\<rparr>"

definition async_result :: "gostr \<Rightarrow> tool_result" where
  "async_result forLLM = (new_tool_result forLLM)\<lparr>res_Async := True\<rparr>"

definition error_result :: "gostr \<Rightarrow> tool_result" where
  "error_result message = (new_tool_result message)\<lparr>res_IsError := True\<rparr>"

definition user_result :: "gostr \<Rightarrow> tool_result" where
  "user_result content = (new_tool_result content)\<lparr>res_ForUser := content\<rparr>"

definition media_result :: "gostr \<Rightarrow> gostr list \<Rightarrow> tool_result" where
  "media_result forLLM refs = (new_tool_result forLLM)\<lparr>res_Media := refs\<rparr>"

definition with_error :: "tool_result \<Rightarrow> gostr \<Rightarrow> tool_result" where
  "with_error r err = r\<lparr>res_Err := Some err\<rparr>"

text \<open>What the model is told: \<open>ForLLM\<close>, or the error when that is empty.\<close>

definition content_for_llm :: "tool_result \<Rightarrow> gostr" where
  "content_for_llm r =
     (case res_Err r of None \<Rightarrow> res_ForLLM r | Some e \<Rightarrow> if res_ForLLM r = [] then e else res_ForLLM r)"

section \<open>The registry\<close>

record 'p tool =
  tl_Name :: gostr
  tl_Description :: gostr
  tl_Parameters :: 'p
  tl_AsyncExecutor :: bool

record 'p tool_entry =
  ent_Tool :: "'p tool"
  ent_IsCore :: bool
  ent_TTL :: int

record 'p tool_registry =
  reg_tools :: "gostr \<rightharpoonup> 'p tool_entry"
  reg_version :: "64 word"

definition new_tool_registry :: "'p tool_registry" where
  "new_tool_registry = \<lparr>reg_tools = Map.empty, reg_version = 0\<rparr>"

definition register :: "'p tool \<Rightarrow> 'p tool_registry \<Rightarrow> 'p tool_registry" where
  "register t r =
     r\<lparr>reg_tools := (reg_tools r)(tl_Name t \<mapsto> \<lparr>ent_Tool = t, ent_IsCore = True, ent_TTL = 0\<rparr>),
       reg_version := reg_version r + 1\<rparr>"

definition register_hidden :: "'p tool \<Rightarrow> 'p tool_registry \<Rightarrow> 'p tool_registry" where
  "register_hidden t r =
     r\<lparr>reg_tools := (reg_tools r)(tl_Name t \<mapsto> \<lparr>ent_Tool = t, ent_IsCore = False, ent_TTL = 0\<rparr>),
       reg_version := reg_version r + 1\<rparr>"

definition promote_one :: "int \<Rightarrow> gostr \<Rightarrow> (gostr \<rightharpoonup> 'p tool_entry) \<Rightarrow> (gostr \<rightharpoonup> 'p tool_entry)" where
  "promote_one ttl name m =
     (case m name of None \<Rightarrow> m
      | Some e \<Rightarrow> if \<not> ent_IsCore e then m(name \<mapsto> e\<lparr>ent_TTL := ttl\<rparr>) else m)"

definition promote_tools :: "gostr list \<Rightarrow> int \<Rightarrow> 'p tool_registry \<Rightarrow> 'p tool_registry" where
  "promote_tools names ttl r = r\<lparr>reg_tools := fold (promote_one ttl) names (reg_tools r)\<rparr>"

definition tick_entry :: "'p tool_entry \<Rightarrow> 'p tool_entry" where
  "tick_entry e = (if \<not> ent_IsCore e \<and> ent_TTL e > 0 then e\<lparr>ent_TTL := ent_TTL e - 1\<rparr> else e)"

definition tick_ttl :: "'p tool_registry \<Rightarrow> 'p tool_registry" where
  "tick_ttl r = r\<lparr>reg_tools := (\<lambda>n. map_option tick_entry (reg_tools r n))\<rparr>"

text \<open>Hidden tools whose time is over are neither listed nor callable.\<close>

abbreviation expired_entry :: "'p tool_entry \<Rightarrow> bool" where
  "expired_entry e \<equiv> \<not> ent_IsCore e \<and> ent_TTL e \<le> 0"

definition registry_get :: "'p tool_registry \<Rightarrow> gostr \<Rightarrow> 'p tool option" where
  "registry_get r name =
     (case reg_tools r name of None \<Rightarrow> None
      | Some e \<Rightarrow> if expired_entry e then None else Some (ent_Tool e))"

definition sorted_tool_names :: "'p tool_registry \<Rightarrow> gostr list" where
  "sorted_tool_names r = sorted_list_of_set (dom (reg_tools r))"

record 'p tool_definition =
  td_Name :: gostr
  td_Description :: gostr
  td_Parameters :: 'p

definition tool_to_schema :: "'p tool \<Rightarrow> 'p tool_definition" where
  "tool_to_schema t =
     \<lparr>td_Name = tl_Name t, td_Description = tl_Description t, td_Parameters = tl_Parameters t\<rparr>"

definition to_provider_defs :: "'p tool_registry \<Rightarrow> 'p tool_definition list" where
  "to_provider_defs r =
     map (\<lambda>n. tool_to_schema (ent_Tool (the (reg_tools r n))))
       (filter (\<lambda>n. \<not> expired_entry (the (reg_tools r n))) (sorted_tool_names r))"

definition registry_list :: "'p tool_registry \<Rightarrow> gostr list" where
  "registry_list r = sorted_tool_names r"

definition registry_count :: "'p tool_registry \<Rightarrow> nat" where
  "registry_count r = card (dom (reg_tools r))"

definition get_summaries :: "'p tool_registry \<Rightarrow> gostr list" where
  "get_summaries r =
     map (\<lambda>n. let t = ent_Tool (the (reg_tools r n)) in ''- `'' @ tl_Name t @ ''` - '' @ tl_Description t)
       (filter (\<lambda>n. \<not> expired_entry (the (reg_tools r n))) (sorted_tool_names r))"

text \<open>\<open>SnapshotHiddenTools\<close>: name and description, in the order of the map, and the version.\<close>

definition snapshot_hidden_tools ::
  "(gostr set \<Rightarrow> gostr list) \<Rightarrow> 'p tool_registry \<Rightarrow> (gostr \<times> gostr) list \<times> 64 word" where
  "snapshot_hidden_tools ord r =
     (map (\<lambda>n. (n, tl_Description (ent_Tool (the (reg_tools r n)))))
        (filter (\<lambda>n. \<not> ent_IsCore (the (reg_tools r n))) (ord (dom (reg_tools r)))),
      reg_version r)"

text \<open>The verb \<open>%q\<close>.\<close>

definition hex_digit :: "nat \<Rightarrow> char" where
  "hex_digit n = char_of (if n < 10 then 48 + n else 87 + n)"

definition quote_char :: "char \<Rightarrow> gostr" where
  "quote_char c =
     (if c = CHR 0x22 then [CHR 0x5C, CHR 0x22]
      else if c = CHR 0x5C then [CHR 0x5C, CHR 0x5C]
      else if 7 \<le> code c \<and> code c \<le> 13 then [CHR 0x5C, ''abtnvfr'' ! (code c - 7)]
      else if code c < 32 \<or> code c = 127 then CHR 0x5C # ''x'' @ [hex_digit (code c div 16), hex_digit (code c mod 16)]
      else [c])"

definition go_quote :: "gostr \<Rightarrow> gostr" where
  "go_quote s = CHR 0x22 # concat (map quote_char s) @ [CHR 0x22]"

text \<open>
  \<open>ExecuteWithContext\<close>: \<open>run t a\<close> runs tool \<open>t\<close>, in the background when \<open>a\<close>, in the world of the
  program; a callback is needed for that.
\<close>

definition execute_with_context ::
  "('p tool \<Rightarrow> bool \<Rightarrow> 'a \<Rightarrow> gostr \<Rightarrow> gostr \<Rightarrow> 'w \<Rightarrow> tool_result \<times> 'w) \<Rightarrow> 'p tool_registry \<Rightarrow> gostr \<Rightarrow> 'a \<Rightarrow>
   gostr \<Rightarrow> gostr \<Rightarrow> bool \<Rightarrow> 'w \<Rightarrow> tool_result \<times> 'w" where
  "execute_with_context run r name args channel chatID callback w =
     (case registry_get r name of
        None \<Rightarrow> (with_error (error_result (''tool '' @ go_quote name @ '' not found'')) ''tool not found'', w)
      | Some t \<Rightarrow> run t (tl_AsyncExecutor t \<and> callback) args channel chatID w)"

section \<open>Discovery\<close>

text \<open>
  \<open>SearchRegex\<close> with a pattern that compiles, \<open>matches\<close> being the compiled pattern, and the response
  of both search tools, without its JSON: the names that were promoted.
\<close>

definition search_regex :: "(gostr \<Rightarrow> bool) \<Rightarrow> int \<Rightarrow> 'p tool_registry \<Rightarrow> gostr list" where
  "search_regex matches maxResults r =
     (if maxResults \<le> 0 then []
      else take (nat maxResults)
        (filter (\<lambda>n. \<not> ent_IsCore (the (reg_tools r n)) \<and>
                     (matches n \<or> matches (tl_Description (ent_Tool (the (reg_tools r n))))))
          (sorted_tool_names r)))"

definition discover :: "gostr list \<Rightarrow> int \<Rightarrow> 'p tool_registry \<Rightarrow> gostr list option \<times> 'p tool_registry" where
  "discover names ttl r =
     (if names = [] then (None, r) else (Some names, promote_tools names ttl r))"

section \<open>Calls of tools\<close>

text \<open>
  \<open>NormalizeToolCall\<close>; \<open>encode\<close> is \<open>json.Marshal\<close> of a map and \<open>decode\<close> is \<open>json.Unmarshal\<close> into one,
  \<open>None\<close> for an error or \<open>null\<close>.
\<close>

definition normalize_tool_call ::
  "('v anymap \<Rightarrow> gostr) \<Rightarrow> (gostr \<Rightarrow> 'v anymap option) \<Rightarrow> 'v tool_call \<Rightarrow> 'v tool_call" where
  "normalize_tool_call encode decode tc =
     (let name1 = (case tc_Function tc of
                     Some f \<Rightarrow> if tc_Name tc = [] then fn_Name f else tc_Name tc
                   | None \<Rightarrow> tc_Name tc);
          args1 = (case tc_Arguments tc of None \<Rightarrow> [] | Some a \<Rightarrow> a);
          args2 = (case tc_Function tc of
                     None \<Rightarrow> args1
                   | Some f \<Rightarrow> if args1 = [] \<and> fn_Arguments f \<noteq> []
                               then (case decode (fn_Arguments f) of None \<Rightarrow> args1 | Some p \<Rightarrow> p)
                               else args1);
          fun1 = (case tc_Function tc of
                    None \<Rightarrow> \<lparr>fn_Name = name1, fn_Arguments = encode args2, fn_ThoughtSignature = []\<rparr>
                  | Some f \<Rightarrow> f\<lparr>fn_Name := (if fn_Name f = [] then name1 else fn_Name f),
                                fn_Arguments := (if fn_Arguments f = [] then encode args2 else fn_Arguments f)\<rparr>)
      in tc\<lparr>tc_Name := name1, tc_Arguments := Some args2, tc_Function := Some fun1\<rparr>)"

section \<open>Lemmas\<close>

definition registry_ok :: "'p tool_registry \<Rightarrow> bool" where
  "registry_ok r \<longleftrightarrow> finite (dom (reg_tools r)) \<and> (\<forall>n e. reg_tools r n = Some e \<longrightarrow> tl_Name (ent_Tool e) = n)"

lemma registry_ok_new [simp]: "registry_ok new_tool_registry"
  by (simp add: registry_ok_def new_tool_registry_def)

lemma registry_ok_register [simp]:
  "registry_ok r \<Longrightarrow> registry_ok (register t r)" "registry_ok r \<Longrightarrow> registry_ok (register_hidden t r)"
  by (simp_all add: registry_ok_def register_def register_hidden_def)

lemma promote_one_entry:
  "promote_one ttl name m n =
     (if n = name then map_option (\<lambda>e. if \<not> ent_IsCore e then e\<lparr>ent_TTL := ttl\<rparr> else e) (m n) else m n)"
  by (auto simp: promote_one_def split: option.splits)

lemma promote_fold:
  "fold (promote_one ttl) names m n =
     (if n \<in> set names then map_option (\<lambda>e. if \<not> ent_IsCore e then e\<lparr>ent_TTL := ttl\<rparr> else e) (m n) else m n)"
  by (induction names arbitrary: m) (auto simp: promote_one_entry option.map_comp o_def intro!: option.map_cong)

lemma promote_tools_entry:
  "reg_tools (promote_tools names ttl r) n =
     (if n \<in> set names then map_option (\<lambda>e. if \<not> ent_IsCore e then e\<lparr>ent_TTL := ttl\<rparr> else e) (reg_tools r n)
      else reg_tools r n)"
  by (simp add: promote_tools_def promote_fold)

lemma registry_ok_promote [simp]: "registry_ok r \<Longrightarrow> registry_ok (promote_tools names ttl r)"
proof -
  assume "registry_ok r"
  moreover have "dom (reg_tools (promote_tools names ttl r)) = dom (reg_tools r)"
    by (auto simp: promote_tools_entry dom_def split: if_splits)
  ultimately show ?thesis
    by (auto simp: registry_ok_def promote_tools_entry split: if_splits)
qed

lemma registry_ok_tick [simp]: "registry_ok r \<Longrightarrow> registry_ok (tick_ttl r)"
proof -
  assume "registry_ok r"
  moreover have "dom (reg_tools (tick_ttl r)) = dom (reg_tools r)" by (auto simp: tick_ttl_def dom_def)
  ultimately show ?thesis by (auto simp: registry_ok_def tick_ttl_def tick_entry_def)
qed

lemma set_sorted_tool_names: "registry_ok r \<Longrightarrow> set (sorted_tool_names r) = dom (reg_tools r)"
  by (simp add: sorted_tool_names_def registry_ok_def)

lemma provider_names:
  "registry_ok r \<Longrightarrow> map td_Name (to_provider_defs r) =
     filter (\<lambda>n. \<not> expired_entry (the (reg_tools r n))) (sorted_tool_names r)"
  using set_sorted_tool_names [of r]
  by (auto simp: to_provider_defs_def tool_to_schema_def registry_ok_def dom_def intro!: map_idI)

text \<open>The operations of a registry.\<close>

datatype 'p registry_event = EvRegister "'p tool" | EvHidden "'p tool" | EvPromote "gostr list" int | EvTickTTL

fun registry_do :: "'p registry_event \<Rightarrow> 'p tool_registry \<Rightarrow> 'p tool_registry" where
  "registry_do (EvRegister t) r = register t r"
| "registry_do (EvHidden t) r = register_hidden t r"
| "registry_do (EvPromote names ttl) r = promote_tools names ttl r"
| "registry_do EvTickTTL r = tick_ttl r"

lemma registry_ok_fold: "registry_ok r \<Longrightarrow> registry_ok (fold registry_do evs r)"
proof (induction evs arbitrary: r)
  case (Cons e evs)
  then have "registry_ok (registry_do e r)" by (cases e) simp_all
  with Cons show ?case by simp
qed simp

section \<open>Properties\<close>

text \<open>
  C19 A tool is offered to the model exactly when it can be called: after any registrations,
  promotions and ticks the definitions are sorted, without duplicates, and name exactly the tools
  that \<open>Get\<close> finds; in particular nothing is offered that \<open>ExecuteWithContext\<close> would refuse.
\<close>

theorem offered_iff_callable:
  fixes evs :: "'p registry_event list"
  defines "r \<equiv> fold registry_do evs new_tool_registry"
  shows "sorted (map td_Name (to_provider_defs r)) \<and> distinct (map td_Name (to_provider_defs r)) \<and>
    (\<forall>n. n \<in> td_Name ` set (to_provider_defs r) \<longleftrightarrow> registry_get r n \<noteq> None)"
proof -
  have ok: "registry_ok r" by (simp add: r_def registry_ok_fold)
  have "td_Name ` set (to_provider_defs r) = {n. registry_get r n \<noteq> None}"
    unfolding image_set provider_names [OF ok]
    by (auto simp: set_sorted_tool_names [OF ok] registry_get_def split: option.splits)
  then show ?thesis
    by (auto simp: provider_names [OF ok]) (simp_all add: sorted_tool_names_def sorted_filter [of id, simplified])
qed

text \<open>
  A discovered tool is offered for one call of the model less than its time to live: the search
  runs as a tool, and the registry ticks once more before the next request. With a time to live of
  1 the tool is never offered, although the response of the search says it can be called next.
\<close>

theorem discovered_tool_expires:
  assumes "reg_tools r n = Some e" "\<not> ent_IsCore e" "n \<in> set names"
  shows "registry_get ((tick_ttl ^^ Suc k) (snd (discover names ttl r))) n \<noteq> None \<longleftrightarrow> int k + 1 < ttl"
proof -
  have entry: "\<exists>e'. reg_tools ((tick_ttl ^^ j) (snd (discover names ttl r))) n = Some e' \<and> \<not> ent_IsCore e' \<and>
      ent_TTL e' = (if int j \<le> ttl then ttl - int j else min ttl 0)" for j
  proof (induction j)
    case 0
    show ?case using assms by (auto simp: discover_def promote_tools_entry)
  next
    case (Suc j)
    then obtain e' where e': "reg_tools ((tick_ttl ^^ j) (snd (discover names ttl r))) n = Some e'" "\<not> ent_IsCore e'"
        "ent_TTL e' = (if int j \<le> ttl then ttl - int j else min ttl 0)" by blast
    then have "reg_tools ((tick_ttl ^^ Suc j) (snd (discover names ttl r))) n = Some (tick_entry e')"
      by (simp add: tick_ttl_def)
    with e' show ?case by (auto simp: tick_entry_def)
  qed
  from entry [of "Suc k"] show ?thesis by (auto simp: registry_get_def split: if_splits)
qed

abbreviation hidden_tool :: "unit tool" where
  "hidden_tool \<equiv> \<lparr>tl_Name = ''mcp_mail'', tl_Description = ''mail'', tl_Parameters = (), tl_AsyncExecutor = False\<rparr>"

theorem discovered_tool_expires_witness:
  "registry_get ((tick_ttl ^^ Suc 0) (snd (discover [''mcp_mail''] 1 (register_hidden hidden_tool new_tool_registry)))) ''mcp_mail'' = None"
  using discovered_tool_expires [of "register_hidden hidden_tool new_tool_registry" "''mcp_mail''" _ "[''mcp_mail'']" 0 1]
  by (simp add: register_hidden_def)

text \<open>
  A normalised call has a name, arguments and a function part that agree on what the provider
  sent, and normalising it again changes nothing.
\<close>

theorem normalize_tool_call_idem:
  assumes "\<And>a. encode a \<noteq> []" "\<And>a. decode (encode a) = Some a"
  shows "normalize_tool_call encode decode (normalize_tool_call encode decode tc) = normalize_tool_call encode decode tc"
proof (cases "tc_Function tc")
  case None
  with assms show ?thesis by (simp add: normalize_tool_call_def Let_def split: option.splits)
next
  case (Some f)
  with assms show ?thesis
    by (cases "tc_Arguments tc"; cases "decode (fn_Arguments f)") (simp_all add: normalize_tool_call_def Let_def)
qed

end
