(* ===== verification/Agent_Turn.thy ===== *)
theory Agent_Turn imports History Tool_Registry begin

text \<open>
  One turn of an agent: \<open>runAgentLoop\<close> and \<open>runLLMIteration\<close> of \<open>pkg/agent/loop.go\<close> with
  \<open>pkg/agent/loop_media.go\<close>, and the loop of sub-agents, \<open>RunToolLoop\<close> of \<open>pkg/tools/toolloop.go\<close>.

  The session store, the provider, the tools and the files are fields of an environment. A call of
  the model stands for \<open>callLLM\<close>: the provider itself or the chain of theory \<open>Fallback\<close>, with the
  model that was chosen for the turn. What leaves the agent is a trace: the requests to the model
  and what is published on the bus. The calls of one response run in parallel; each of them is one
  step of the world, and \<open>env_sched\<close> is the order in which they get to run. Publishing the reasoning
  of a response, which runs beside the turn and may be dropped, and logging are left out.
\<close>

section \<open>Environment and state\<close>

datatype ('v, 'p) turn_event =
  Request "'v message list" "'p tool_definition list"
| SendText gostr gostr gostr
| SendMedia gostr gostr "gostr list"
| LastChannel gostr
| SummaryCheck gostr

text \<open>An error of the model: whether it is \<open>context.DeadlineExceeded\<close>, and its text.\<close>

type_synonym llm_error = "bool \<times> gostr"

text \<open>What a media reference turns into: nothing, an image, or a tag with a local path.\<close>

datatype media_outcome = MediaLost | MediaImage gostr | MediaPath gostr gostr

record ('v, 'p, 's, 'w) turn_env =
  env_ops :: "('v, 's) session_ops"
  env_static :: "'w \<Rightarrow> gostr"
  env_dynamic :: "'w \<Rightarrow> gostr \<Rightarrow> gostr \<Rightarrow> gostr"
  env_media :: "('w \<Rightarrow> gostr \<Rightarrow> media_outcome) option"
  env_call :: "'v message list \<Rightarrow> 'p tool_definition list \<Rightarrow> 'w \<Rightarrow> (llm_error + 'v llm_response) \<times> 'w"
  env_run :: "'p tool \<Rightarrow> bool \<Rightarrow> 'v anymap \<Rightarrow> gostr \<Rightarrow> gostr \<Rightarrow> 'p tool_registry \<times> 'w \<Rightarrow> tool_result \<times> 'p tool_registry \<times> 'w"
  env_sched :: "nat \<Rightarrow> nat list"
  env_encode :: "'v anymap \<Rightarrow> gostr"
  env_decode :: "gostr \<Rightarrow> 'v anymap option"
  env_MaxIterations :: int

record ('v, 'p, 's, 'w) turn_state =
  tn_sessions :: 's
  tn_registry :: "'p tool_registry"
  tn_world :: 'w
  tn_trace :: "('v, 'p) turn_event list"

record process_options =
  po_SessionKey :: gostr
  po_Channel :: gostr
  po_ChatID :: gostr
  po_UserMessage :: gostr
  po_Media :: "gostr list"
  po_DefaultResponse :: gostr
  po_EnableSummary :: bool
  po_SendResponse :: bool
  po_NoHistory :: bool

definition emit :: "('v, 'p) turn_event \<Rightarrow> ('v, 'p, 's, 'w) turn_state \<Rightarrow> ('v, 'p, 's, 'w) turn_state" where
  "emit e st = st\<lparr>tn_trace := tn_trace st @ [e]\<rparr>"

definition add_session ::
  "('v, 'p, 's, 'w) turn_env \<Rightarrow> gostr \<Rightarrow> 'v message \<Rightarrow> ('v, 'p, 's, 'w) turn_state \<Rightarrow> ('v, 'p, 's, 'w) turn_state" where
  "add_session env key m st = st\<lparr>tn_sessions := so_add (env_ops env) (tn_sessions st) key m\<rparr>"

section \<open>Media references\<close>

definition build_path_tag :: "gostr \<Rightarrow> gostr \<Rightarrow> gostr" where
  "build_path_tag mime path =
     (if has_prefix mime ''audio/'' then ''[audio:'' @ path @ '']''
      else if has_prefix mime ''video/'' then ''[video:'' @ path @ '']''
      else ''[file:'' @ path @ '']'')"

text \<open>\<open>strings.Replace\<close> of the first occurrence.\<close>

fun replace_first :: "gostr \<Rightarrow> gostr \<Rightarrow> gostr \<Rightarrow> gostr" where
  "replace_first old new [] = (if old = [] then new else [])"
| "replace_first old new (c # s) =
     (if has_prefix (c # s) old then new @ drop (length old) (c # s) else c # replace_first old new s)"

definition inject_tag :: "gostr \<Rightarrow> gostr \<Rightarrow> gostr" where
  "inject_tag tag content =
     (let generic = (if has_prefix tag ''[audio:'' then ''[audio]''
                     else if has_prefix tag ''[video:'' then ''[video]''
                     else if has_prefix tag ''[file:'' then ''[file]'' else [])
      in if generic \<noteq> [] \<and> contains content generic then replace_first generic tag content
         else if content = [] then tag
         else content @ '' '' @ tag)"

definition resolve_ref ::
  "(gostr \<Rightarrow> media_outcome) \<Rightarrow> gostr \<Rightarrow> gostr list \<times> gostr list \<Rightarrow> gostr list \<times> gostr list" where
  "resolve_ref load ref acc =
     (case acc of (resolved, tags) \<Rightarrow>
        if \<not> has_prefix ref ''media://'' then (resolved @ [ref], tags)
        else (case load ref of
                MediaLost \<Rightarrow> (resolved, tags)
              | MediaImage url \<Rightarrow> if url \<noteq> [] then (resolved @ [url], tags) else (resolved, tags)
              | MediaPath mime path \<Rightarrow> (resolved, tags @ [build_path_tag mime path])))"

definition resolve_media_refs :: "(gostr \<Rightarrow> media_outcome) option \<Rightarrow> 'v message list \<Rightarrow> 'v message list" where
  "resolve_media_refs store messages =
     (case store of None \<Rightarrow> messages
      | Some load \<Rightarrow>
          map (\<lambda>m. if msg_Media m = [] then m
                   else (case fold (resolve_ref load) (msg_Media m) ([], []) of (resolved, tags) \<Rightarrow>
                           m\<lparr>msg_Media := resolved, msg_Content := fold inject_tag tags (msg_Content m)\<rparr>))
            messages)"

section \<open>The call of the model and its retries\<close>

definition is_timeout_error :: "llm_error \<Rightarrow> bool" where
  "is_timeout_error e =
     (let t = to_lower (snd e) in
      fst e \<or> contains t ''deadline exceeded'' \<or> contains t ''client.timeout'' \<or> contains t ''timed out'' \<or>
      contains t ''timeout exceeded'')"

definition is_context_error :: "llm_error \<Rightarrow> bool" where
  "is_context_error e =
     (let t = to_lower (snd e) in
      \<not> is_timeout_error e \<and>
      (contains t ''context_length_exceeded'' \<or> contains t ''context window'' \<or>
       contains t ''maximum context length'' \<or> contains t ''token limit'' \<or> contains t ''too many tokens'' \<or>
       contains t ''max_tokens'' \<or> contains t ''invalidparameter'' \<or> contains t ''prompt is too long'' \<or>
       contains t ''request too large''))"

definition force_compression ::
  "('v, 'p, 's, 'w) turn_env \<Rightarrow> gostr \<Rightarrow> ('v, 'p, 's, 'w) turn_state \<Rightarrow> ('v, 'p, 's, 'w) turn_state" where
  "force_compression env key st =
     (case compress_messages (so_history (env_ops env) (tn_sessions st) key) of
        None \<Rightarrow> st
      | Some h \<Rightarrow> st\<lparr>tn_sessions := so_save (env_ops env) (so_set_history (env_ops env) (tn_sessions st) key h) key\<rparr>)"

definition build_request ::
  "('v, 'p, 's, 'w) turn_env \<Rightarrow> process_options \<Rightarrow> bool \<Rightarrow> gostr \<Rightarrow> gostr list \<Rightarrow> ('v, 'p, 's, 'w) turn_state \<Rightarrow> 'v message list" where
  "build_request env opts noHistory user media st =
     build_messages (env_static env (tn_world st)) (env_dynamic env (tn_world st) (po_Channel opts) (po_ChatID opts))
       (if noHistory then [] else so_history (env_ops env) (tn_sessions st) (po_SessionKey opts))
       (if noHistory then [] else so_summary (env_ops env) (tn_sessions st) (po_SessionKey opts))
       user media"

definition call_model ::
  "('v, 'p, 's, 'w) turn_env \<Rightarrow> 'p tool_definition list \<Rightarrow> 'v message list \<Rightarrow> ('v, 'p, 's, 'w) turn_state \<Rightarrow>
   (llm_error + 'v llm_response) \<times> ('v, 'p, 's, 'w) turn_state" where
  "call_model env defs messages st =
     (case env_call env messages defs (tn_world st) of
        (res, w) \<Rightarrow> (res, emit (Request messages defs) (st\<lparr>tn_world := w\<rparr>)))"

text \<open>The retry loop; \<open>left\<close> is the number of retries that remain, \<open>maxRetries\<close> at first.\<close>

definition max_retries :: nat where
  "max_retries = 2"

fun llm_attempts ::
  "('v, 'p, 's, 'w) turn_env \<Rightarrow> process_options \<Rightarrow> 'p tool_definition list \<Rightarrow> nat \<Rightarrow> 'v message list \<Rightarrow>
   ('v, 'p, 's, 'w) turn_state \<Rightarrow> (llm_error + 'v llm_response) \<times> 'v message list \<times> ('v, 'p, 's, 'w) turn_state" where
  "llm_attempts env opts defs 0 messages st =
     (case call_model env defs messages st of (res, st1) \<Rightarrow> (res, messages, st1))"
| "llm_attempts env opts defs (Suc left) messages st =
     (case call_model env defs messages st of
        (Inr r, st1) \<Rightarrow> (Inr r, messages, st1)
      | (Inl e, st1) \<Rightarrow>
          if is_timeout_error e then llm_attempts env opts defs left messages st1
          else if is_context_error e
          then
            let st2 = (if Suc left = max_retries \<and> \<not> internal_channel (po_Channel opts)
                       then emit (SendText (po_Channel opts) (po_ChatID opts)
                                    ''Context window exceeded. Compressing history and retrying...'') st1
                       else st1);
                st3 = force_compression env (po_SessionKey opts) st2
            in llm_attempts env opts defs left (build_request env opts False [] [] st3) st3
          else (Inl e, messages, st1))"

section \<open>The calls of tools\<close>

text \<open>The assistant message recorded for a response with calls.\<close>

definition recorded_call :: "('v anymap \<Rightarrow> gostr) \<Rightarrow> 'v tool_call \<Rightarrow> 'v tool_call" where
  "recorded_call encode tc =
     (let sig = (case tc_Function tc of None \<Rightarrow> [] | Some f \<Rightarrow> fn_ThoughtSignature f) in
      \<lparr>tc_ID = tc_ID tc, tc_Type = ''function'',
       tc_Function = Some \<lparr>fn_Name = tc_Name tc, fn_Arguments = encode (case tc_Arguments tc of None \<Rightarrow> [] | Some a \<Rightarrow> a),
                           fn_ThoughtSignature = sig\<rparr>,
       tc_Name = tc_Name tc, tc_Arguments = None, tc_ThoughtSignature = sig, tc_ExtraContent = tc_ExtraContent tc\<rparr>)"

definition assistant_message :: "('v anymap \<Rightarrow> gostr) \<Rightarrow> 'v llm_response \<Rightarrow> 'v tool_call list \<Rightarrow> 'v message" where
  "assistant_message encode resp calls =
     (text_message ''assistant'' (resp_Content resp))
       \<lparr>msg_ReasoningContent := resp_ReasoningContent resp, msg_ToolCalls := map (recorded_call encode) calls\<rparr>"

definition tool_message :: "'v tool_call \<Rightarrow> tool_result \<Rightarrow> 'v message" where
  "tool_message tc r = (text_message ''tool'' (content_for_llm r))\<lparr>msg_ToolCallID := tc_ID tc\<rparr>"

text \<open>The goroutines: each stores its result at the index of its call.\<close>

definition run_call ::
  "('v, 'p, 's, 'w) turn_env \<Rightarrow> process_options \<Rightarrow> 'v tool_call list \<Rightarrow> nat \<Rightarrow>
   tool_result option list \<times> 'p tool_registry \<times> 'w \<Rightarrow> tool_result option list \<times> 'p tool_registry \<times> 'w" where
  "run_call env opts calls i acc =
     (case acc of (results, reg, w) \<Rightarrow>
        (case execute_with_context (env_run env) reg (tc_Name (calls ! i))
                (case tc_Arguments (calls ! i) of None \<Rightarrow> [] | Some a \<Rightarrow> a) (po_Channel opts) (po_ChatID opts) True (reg, w) of
           (r, reg', w') \<Rightarrow> (results[i := Some r], reg', w')))"

definition run_calls ::
  "('v, 'p, 's, 'w) turn_env \<Rightarrow> process_options \<Rightarrow> 'v tool_call list \<Rightarrow> ('v, 'p, 's, 'w) turn_state \<Rightarrow>
   tool_result list \<times> ('v, 'p, 's, 'w) turn_state" where
  "run_calls env opts calls st =
     (case fold (run_call env opts calls) (env_sched env (length calls))
             (replicate (length calls) None, tn_registry st, tn_world st) of
        (results, reg, w) \<Rightarrow> (map the results, st\<lparr>tn_registry := reg, tn_world := w\<rparr>))"

definition process_result ::
  "('v, 'p, 's, 'w) turn_env \<Rightarrow> process_options \<Rightarrow> 'v tool_call \<times> tool_result \<Rightarrow>
   'v message list \<times> ('v, 'p, 's, 'w) turn_state \<Rightarrow> 'v message list \<times> ('v, 'p, 's, 'w) turn_state" where
  "process_result env opts cr acc =
     (case cr of (tc, r) \<Rightarrow> case acc of (messages, st) \<Rightarrow>
        let st1 = (if \<not> res_Silent r \<and> res_ForUser r \<noteq> [] \<and> po_SendResponse opts
                   then emit (SendText (po_Channel opts) (po_ChatID opts) (res_ForUser r)) st else st);
            st2 = (if res_Media r \<noteq> [] then emit (SendMedia (po_Channel opts) (po_ChatID opts) (res_Media r)) st1 else st1);
            m = tool_message tc r
        in (messages @ [m], add_session env (po_SessionKey opts) m st2))"

section \<open>The loop of a turn\<close>

definition final_content :: "'v llm_response \<Rightarrow> gostr" where
  "final_content resp =
     (if resp_Content resp = [] \<and> resp_ReasoningContent resp \<noteq> [] then resp_ReasoningContent resp
      else resp_Content resp)"

text \<open>\<open>n\<close> iterations remain, \<open>it\<close> were made. The result is the error, or the content and the count.\<close>

fun llm_iterate ::
  "('v, 'p, 's, 'w) turn_env \<Rightarrow> process_options \<Rightarrow> nat \<Rightarrow> nat \<Rightarrow> 'v message list \<Rightarrow> ('v, 'p, 's, 'w) turn_state \<Rightarrow>
   (llm_error + gostr \<times> nat) \<times> ('v, 'p, 's, 'w) turn_state" where
  "llm_iterate env opts 0 it messages st = (Inr ([], it), st)"
| "llm_iterate env opts (Suc n) it messages st =
     (case llm_attempts env opts (to_provider_defs (tn_registry st)) max_retries messages st of
        (Inl e, _, st1) \<Rightarrow> (Inl e, st1)
      | (Inr resp, messages1, st1) \<Rightarrow>
          if resp_ToolCalls resp = [] then (Inr (final_content resp, Suc it), st1)
          else
            let calls = map (normalize_tool_call (env_encode env) (env_decode env)) (resp_ToolCalls resp);
                am = assistant_message (env_encode env) resp calls;
                (results, st2) = run_calls env opts calls (add_session env (po_SessionKey opts) am st1);
                (messages2, st3) = fold (process_result env opts) (zip calls results) (messages1 @ [am], st2)
            in llm_iterate env opts n (Suc it) messages2 (st3\<lparr>tn_registry := tick_ttl (tn_registry st3)\<rparr>))"

definition run_llm_iteration ::
  "('v, 'p, 's, 'w) turn_env \<Rightarrow> process_options \<Rightarrow> 'v message list \<Rightarrow> ('v, 'p, 's, 'w) turn_state \<Rightarrow>
   (llm_error + gostr \<times> nat) \<times> ('v, 'p, 's, 'w) turn_state" where
  "run_llm_iteration env opts messages st = llm_iterate env opts (nat (env_MaxIterations env)) 0 messages st"

definition run_agent_loop ::
  "('v, 'p, 's, 'w) turn_env \<Rightarrow> process_options \<Rightarrow> ('v, 'p, 's, 'w) turn_state \<Rightarrow>
   (llm_error + gostr) \<times> ('v, 'p, 's, 'w) turn_state" where
  "run_agent_loop env opts st0 =
     (let key = po_SessionKey opts;
          st1 = (if po_Channel opts \<noteq> [] \<and> po_ChatID opts \<noteq> [] \<and> \<not> internal_channel (po_Channel opts)
                 then emit (LastChannel (po_Channel opts @ '':'' @ po_ChatID opts)) st0 else st0);
          messages = resolve_media_refs (map_option (\<lambda>f. f (tn_world st1)) (env_media env))
                       (build_request env opts (po_NoHistory opts) (po_UserMessage opts) (po_Media opts) st1);
          st2 = add_session env key (text_message ''user'' (po_UserMessage opts)) st1
      in (case run_llm_iteration env opts messages st2 of
            (Inl e, st3) \<Rightarrow> (Inl e, st3)
          | (Inr (content, _), st3) \<Rightarrow>
              let final = (if content = [] then po_DefaultResponse opts else content);
                  st4 = add_session env key (text_message ''assistant'' final) st3;
                  st5 = st4\<lparr>tn_sessions := so_save (env_ops env) (tn_sessions st4) key\<rparr>;
                  st6 = (if po_EnableSummary opts then emit (SummaryCheck key) st5 else st5);
                  st7 = (if po_SendResponse opts then emit (SendText (po_Channel opts) (po_ChatID opts) final) st6 else st6)
              in (Inr final, st7)))"

section \<open>Requests are well formed\<close>

lemma emit_simps [simp]:
  "tn_sessions (emit e st) = tn_sessions st" "tn_registry (emit e st) = tn_registry st"
  "tn_world (emit e st) = tn_world st" "tn_trace (emit e st) = tn_trace st @ [e]"
  by (simp_all add: emit_def)

lemma add_session_simps [simp]:
  "tn_sessions (add_session env key m st) = so_add (env_ops env) (tn_sessions st) key m"
  "tn_registry (add_session env key m st) = tn_registry st"
  "tn_world (add_session env key m st) = tn_world st" "tn_trace (add_session env key m st) = tn_trace st"
  by (simp_all add: add_session_def)

lemma paired_map:
  assumes "\<And>m. msg_Role (f m) = msg_Role m" "\<And>m. msg_ToolCalls (f m) = msg_ToolCalls m"
    "\<And>m. msg_ToolCallID (f m) = msg_ToolCallID m"
  shows "paired ta (map f xs) = paired ta xs"
proof (induction xs arbitrary: ta)
  case (Cons m xs)
  have "takeWhile is_tool (map f xs) = map f (takeWhile is_tool xs)"
    by (simp add: takeWhile_map o_def assms(1))
  then have "msg_ToolCallID ` set (takeWhile is_tool (map f xs)) = msg_ToolCallID ` set (takeWhile is_tool xs)"
    by (simp add: image_image assms(3))
  with Cons show ?case by (simp add: assms call_ids_def)
qed simp

lemma resolve_media_ok: "request_ok messages \<Longrightarrow> request_ok (resolve_media_refs store messages)"
proof (cases store)
  case (Some load)
  define f where "f = (\<lambda>m :: 'a message. if msg_Media m = [] then m
                   else (case fold (resolve_ref load) (msg_Media m) ([], []) of (resolved, tags) \<Rightarrow>
                           m\<lparr>msg_Media := resolved, msg_Content := fold inject_tag tags (msg_Content m)\<rparr>))"
  have keep: "msg_Role (f m) = msg_Role m" "msg_ToolCalls (f m) = msg_ToolCalls m" "msg_ToolCallID (f m) = msg_ToolCallID m" for m
    by (simp_all add: f_def split: prod.splits)
  have eq: "resolve_media_refs store messages = map f messages"
    by (simp add: resolve_media_refs_def Some f_def)
  assume "request_ok messages"
  then show ?thesis
    unfolding eq by (cases messages) (auto simp: request_ok_def keep paired_map)
qed (simp add: resolve_media_refs_def)

definition requests_ok :: "('v, 'p) turn_event list \<Rightarrow> bool" where
  "requests_ok tr \<longleftrightarrow> (\<forall>m d. Request m d \<in> set tr \<longrightarrow> request_ok m)"

lemma requests_ok_append [simp]: "requests_ok (xs @ ys) \<longleftrightarrow> requests_ok xs \<and> requests_ok ys"
  by (auto simp: requests_ok_def)

lemma requests_ok_event [simp]:
  "requests_ok [Request m d] \<longleftrightarrow> request_ok m" "requests_ok [SendText a b c]" "requests_ok [SendMedia a b r]"
  "requests_ok [LastChannel a]" "requests_ok [SummaryCheck a]" "requests_ok []"
  by (auto simp: requests_ok_def)

lemma force_compression_simps [simp]:
  "tn_trace (force_compression env key st) = tn_trace st" "tn_world (force_compression env key st) = tn_world st"
  "tn_registry (force_compression env key st) = tn_registry st"
  by (simp_all add: force_compression_def split: option.splits)

lemma build_request_ok: "request_ok (build_request env opts nh user media st)"
  by (simp add: build_request_def build_messages_ok)

lemma llm_attempts_ok:
  "llm_attempts env opts defs left messages st = (res, messages', st') \<Longrightarrow> request_ok messages \<Longrightarrow>
   requests_ok (tn_trace st) \<Longrightarrow> request_ok messages' \<and> requests_ok (tn_trace st')"
proof (induction left arbitrary: messages st)
  case 0
  then show ?case by (auto simp: call_model_def split: prod.splits)
next
  case (Suc left)
  obtain r st1 where c: "call_model env defs messages st = (r, st1)" by fastforce
  then have st1: "requests_ok (tn_trace st1)" using Suc.prems(2,3) by (auto simp: call_model_def split: prod.splits)
  show ?case
  proof (cases r)
    case (Inr resp)
    with Suc.prems c st1 show ?thesis by simp
  next
    case (Inl e)
    with Suc.prems(1,2) c st1 show ?thesis
      by (auto simp: Let_def build_request_ok split: if_splits elim!: Suc.IH)
  qed
qed

lemma run_call_fold_length:
  "fold (run_call env opts calls) order (rs, reg, w) = (rs', reg', w') \<Longrightarrow> length rs' = length rs"
proof (induction order arbitrary: rs reg w)
  case (Cons i order)
  obtain rs1 reg1 w1 where "run_call env opts calls i (rs, reg, w) = (rs1, reg1, w1)" by (metis prod_cases3)
  moreover from this have "length rs1 = length rs" by (auto simp: run_call_def split: prod.splits)
  ultimately show ?case using Cons by simp
qed simp

lemma run_calls_simps:
  assumes "run_calls env opts calls st = (results, st')"
  shows "length results = length calls" "tn_trace st' = tn_trace st" "tn_sessions st' = tn_sessions st"
  using assms by (auto simp: run_calls_def dest!: run_call_fold_length split: prod.splits)

lemma process_fold:
  "fold (process_result env opts) crs (messages, st) = (messages', st') \<Longrightarrow>
   messages' = messages @ map (\<lambda>(tc, r). tool_message tc r) crs \<and>
   tn_sessions st' = fold (\<lambda>m s. so_add (env_ops env) s (po_SessionKey opts) m) (map (\<lambda>(tc, r). tool_message tc r) crs) (tn_sessions st) \<and>
   (\<exists>sent. tn_trace st' = tn_trace st @ sent \<and> (\<forall>m d. Request m d \<notin> set sent))"
proof (induction crs arbitrary: messages st)
  case (Cons cr crs)
  obtain tc r where cr: "cr = (tc, r)" by fastforce
  obtain st1 where one: "process_result env opts cr (messages, st) = (messages @ [tool_message tc r], st1)"
      "tn_sessions st1 = so_add (env_ops env) (tn_sessions st) (po_SessionKey opts) (tool_message tc r)"
      "\<exists>sent. tn_trace st1 = tn_trace st @ sent \<and> (\<forall>m d. Request m d \<notin> set sent)"
    by (auto simp: process_result_def cr Let_def)
  from Cons.prems one(1) have "fold (process_result env opts) crs (messages @ [tool_message tc r], st1) = (messages', st')"
    by simp
  from Cons.IH [OF this] one(2,3) show ?case by (fastforce simp: cr)
qed simp

text \<open>A response with calls and its results, as messages.\<close>

definition call_round :: "('v anymap \<Rightarrow> gostr) \<Rightarrow> 'v llm_response \<Rightarrow> 'v tool_call list \<Rightarrow> tool_result list \<Rightarrow> 'v message list" where
  "call_round encode resp calls results =
     assistant_message encode resp calls # map (\<lambda>(tc, r). tool_message tc r) (zip calls results)"

lemma tool_message_simps [simp]:
  "msg_Role (tool_message tc r) = ''tool''" "msg_ToolCallID (tool_message tc r) = tc_ID tc"
  by (simp_all add: tool_message_def)

lemma assistant_message_simps [simp]:
  "msg_Role (assistant_message encode resp calls) = ''assistant''"
  "msg_ToolCalls (assistant_message encode resp calls) = map (recorded_call encode) calls"
  by (simp_all add: assistant_message_def)

lemma paired_tools: "\<forall>m \<in> set xs. is_tool m \<Longrightarrow> paired True xs"
  by (induction xs) auto

lemma call_results_paired:
  assumes "length results = length calls" "msg_Role am = ''assistant''" "call_ids am = map tc_ID calls"
    "\<And>tc r. msg_Role (f tc r) = ''tool''" "\<And>tc r. msg_ToolCallID (f tc r) = tc_ID tc"
  shows "paired False (am # map (\<lambda>(tc, r). f tc r) (zip calls results))"
proof -
  let ?t = "map (\<lambda>(tc, r). f tc r) (zip calls results)"
  have tools: "\<forall>m \<in> set ?t. is_tool m" by (auto simp: assms(4))
  then have "takeWhile is_tool ?t = ?t" by (simp add: takeWhile_eq_all_conv)
  moreover have "map msg_ToolCallID ?t = map tc_ID calls"
    using assms(1) by (induction calls results rule: list_induct2') (auto simp: assms(5))
  ultimately have "set (call_ids am) \<subseteq> msg_ToolCallID ` set (takeWhile is_tool ?t)"
    by (metis assms(3) image_set order_refl)
  moreover have "msg_ToolCalls am = [] \<Longrightarrow> ?t = []" using assms(3) by (simp add: call_ids_def)
  ultimately show ?thesis using paired_tools [OF tools] assms(2) by auto
qed

lemma call_round_paired:
  "length results = length calls \<Longrightarrow> paired False (call_round encode resp calls results)"
  unfolding call_round_def
  by (rule call_results_paired) (simp_all add: call_ids_def recorded_call_def Let_def o_def)

lemma request_ok_append: "request_ok m \<Longrightarrow> paired False xs \<Longrightarrow> request_ok (m @ xs)"
  by (cases m) (auto simp: request_ok_def paired_append)

lemma llm_iterate_requests:
  "llm_iterate env opts n it messages st = (res, st') \<Longrightarrow> request_ok messages \<Longrightarrow> requests_ok (tn_trace st) \<Longrightarrow>
   requests_ok (tn_trace st')"
proof (induction n arbitrary: it messages st)
  case (Suc n)
  obtain r messages1 st1 where a: "llm_attempts env opts (to_provider_defs (tn_registry st)) max_retries messages st = (r, messages1, st1)"
    by (metis prod_cases3)
  with llm_attempts_ok [OF a] Suc.prems have ok: "request_ok messages1" "requests_ok (tn_trace st1)" by blast+
  show ?case
  proof (cases r)
    case (Inl e)
    with a ok Suc.prems(1) show ?thesis by simp
  next
    case (Inr resp)
    show ?thesis
    proof (cases "resp_ToolCalls resp = []")
      case True
      with Inr a ok Suc.prems(1) show ?thesis by simp
    next
      case False
      let ?calls = "map (normalize_tool_call (env_encode env) (env_decode env)) (resp_ToolCalls resp)"
      let ?am = "assistant_message (env_encode env) resp ?calls"
      obtain results st2 where b: "run_calls env opts ?calls (add_session env (po_SessionKey opts) ?am st1) = (results, st2)" by fastforce
      obtain messages2 st3 where c: "fold (process_result env opts) (zip ?calls results) (messages1 @ [?am], st2) = (messages2, st3)" by fastforce
      note rc = run_calls_simps [OF b] and pf = process_fold [OF c]
      have "messages2 = messages1 @ call_round (env_encode env) resp ?calls results" using pf by (simp add: call_round_def)
      then have m2: "request_ok messages2"
        using ok(1) call_round_paired [OF rc(1)] by (simp add: request_ok_append)
      from pf obtain sent where sent: "tn_trace st3 = tn_trace st2 @ sent" "\<forall>m d. Request m d \<notin> set sent" by blast
      then have "requests_ok sent" by (simp add: requests_ok_def)
      with sent(1) rc(2) ok(2) have t3: "requests_ok (tn_trace st3)" by simp
      have "llm_iterate env opts n (Suc it) messages2 (st3\<lparr>tn_registry := tick_ttl (tn_registry st3)\<rparr>) = (res, st')"
        using Suc.prems(1) a Inr False b c by (simp add: Let_def)
      from Suc.IH [OF this m2] t3 show ?thesis by simp
    qed
  qed
qed simp

section \<open>How many requests a turn makes\<close>

fun is_request :: "('v, 'p) turn_event \<Rightarrow> bool" where
  "is_request (Request _ _) = True"
| "is_request _ = False"

abbreviation requests :: "('v, 'p) turn_event list \<Rightarrow> nat" where
  "requests tr \<equiv> length (filter is_request tr)"

lemma call_model_requests: "call_model env defs messages st = (r, st1) \<Longrightarrow> requests (tn_trace st1) = Suc (requests (tn_trace st))"
  by (auto simp: call_model_def split: prod.splits)

lemma llm_attempts_requests:
  "llm_attempts env opts defs left messages st = (res, messages', st') \<Longrightarrow>
   requests (tn_trace st') \<le> requests (tn_trace st) + Suc left"
proof (induction left arbitrary: messages st)
  case 0
  then show ?case by (auto dest: call_model_requests split: prod.splits)
next
  case (Suc left)
  obtain r st1 where c: "call_model env defs messages st = (r, st1)" by fastforce
  note n = call_model_requests [OF c]
  show ?case
  proof (cases r)
    case (Inr resp)
    with Suc.prems c n show ?thesis by simp
  next
    case (Inl e)
    show ?thesis
    proof (cases "is_timeout_error e \<or> is_context_error e")
      case True
      then obtain m2 st2 where "llm_attempts env opts defs left m2 st2 = (res, messages', st')"
          "requests (tn_trace st2) = requests (tn_trace st1)"
        using Suc.prems c Inl by (auto simp: Let_def split: if_splits)
      with Suc.IH [of m2 st2] n show ?thesis by simp
    next
      case False
      with Suc.prems c Inl n show ?thesis by simp
    qed
  qed
qed

lemma llm_iterate_counts:
  "llm_iterate env opts n it messages st = (res, st') \<Longrightarrow>
   requests (tn_trace st') \<le> requests (tn_trace st) + 3 * n \<and>
   (\<forall>c k. res = Inr (c, k) \<longrightarrow> it \<le> k \<and> k \<le> it + n)"
proof (induction n arbitrary: it messages st)
  case (Suc n)
  obtain r messages1 st1 where a: "llm_attempts env opts (to_provider_defs (tn_registry st)) max_retries messages st = (r, messages1, st1)"
    by (metis prod_cases3)
  then have n1: "requests (tn_trace st1) \<le> requests (tn_trace st) + 3"
    using llm_attempts_requests [OF a] by (simp add: max_retries_def)
  show ?case
  proof (cases r)
    case (Inl e)
    with a n1 Suc.prems show ?thesis by auto
  next
    case (Inr resp)
    show ?thesis
    proof (cases "resp_ToolCalls resp = []")
      case True
      with Inr a n1 Suc.prems show ?thesis by auto
    next
      case False
      let ?calls = "map (normalize_tool_call (env_encode env) (env_decode env)) (resp_ToolCalls resp)"
      let ?am = "assistant_message (env_encode env) resp ?calls"
      obtain results st2 where b: "run_calls env opts ?calls (add_session env (po_SessionKey opts) ?am st1) = (results, st2)" by fastforce
      obtain messages2 st3 where c: "fold (process_result env opts) (zip ?calls results) (messages1 @ [?am], st2) = (messages2, st3)" by fastforce
      from process_fold [OF c] obtain sent where sent: "tn_trace st3 = tn_trace st2 @ sent" "\<forall>m d. Request m d \<notin> set sent" by blast
      then have "filter is_request sent = []" by (metis filter_empty_conv is_request.elims(2))
      with sent(1) run_calls_simps(2) [OF b] have n3: "requests (tn_trace st3) = requests (tn_trace st1)" by simp
      have "llm_iterate env opts n (Suc it) messages2 (st3\<lparr>tn_registry := tick_ttl (tn_registry st3)\<rparr>) = (res, st')"
        using Suc.prems a Inr False b c by (simp add: Let_def)
      from Suc.IH [OF this] n1 n3 show ?thesis by fastforce
    qed
  qed
qed auto

section \<open>What a turn adds to the session\<close>

text \<open>A model that reports no context error.\<close>

definition no_context_error :: "('v, 'p, 's, 'w) turn_env \<Rightarrow> bool" where
  "no_context_error env \<longleftrightarrow> (\<forall>m d w e w'. env_call env m d w = (Inl e, w') \<longrightarrow> \<not> is_context_error e)"

lemma llm_attempts_quiet:
  "no_context_error env \<Longrightarrow> llm_attempts env opts defs left messages st = (res, messages', st') \<Longrightarrow>
   messages' = messages \<and> tn_sessions st' = tn_sessions st"
proof (induction left arbitrary: st)
  case 0
  then show ?case by (auto simp: call_model_def split: prod.splits)
next
  case (Suc left)
  obtain r st1 where c: "call_model env defs messages st = (r, st1)" by fastforce
  then have s1: "tn_sessions st1 = tn_sessions st" by (auto simp: call_model_def split: prod.splits)
  show ?case
  proof (cases r)
    case (Inr resp)
    with Suc.prems c s1 show ?thesis by simp
  next
    case (Inl e)
    with c Suc.prems(1) have "\<not> is_context_error e"
      by (cases e) (fastforce simp: call_model_def no_context_error_def split: prod.splits)
    with Suc.prems c Inl s1 Suc.IH [OF Suc.prems(1)] show ?thesis by (auto split: if_splits)
  qed
qed

abbreviation add_messages :: "('v, 'p, 's, 'w) turn_env \<Rightarrow> gostr \<Rightarrow> 'v message list \<Rightarrow> 's \<Rightarrow> 's" where
  "add_messages env key \<equiv> fold (\<lambda>m s. so_add (env_ops env) s key m)"

lemma llm_iterate_session:
  "no_context_error env \<Longrightarrow> llm_iterate env opts n it messages st = (res, st') \<Longrightarrow>
   \<exists>mid. tn_sessions st' = add_messages env (po_SessionKey opts) mid (tn_sessions st) \<and> paired False mid \<and>
     (\<forall>m \<in> set mid. msg_Role m \<in> {''assistant'', ''tool''})"
proof (induction n arbitrary: it messages st)
  case 0
  then show ?case by (intro exI [of _ "[]"]) simp
next
  case (Suc n)
  obtain r messages1 st1 where a: "llm_attempts env opts (to_provider_defs (tn_registry st)) max_retries messages st = (r, messages1, st1)"
    by (metis prod_cases3)
  have s1: "tn_sessions st1 = tn_sessions st" using llm_attempts_quiet [OF Suc.prems(1) a] by simp
  show ?case
  proof (cases r)
    case (Inl e)
    with a s1 Suc.prems(2) show ?thesis by (intro exI [of _ "[]"]) simp
  next
    case (Inr resp)
    show ?thesis
    proof (cases "resp_ToolCalls resp = []")
      case True
      with Inr a s1 Suc.prems(2) show ?thesis by (intro exI [of _ "[]"]) simp
    next
      case False
      let ?calls = "map (normalize_tool_call (env_encode env) (env_decode env)) (resp_ToolCalls resp)"
      let ?am = "assistant_message (env_encode env) resp ?calls"
      obtain results st2 where b: "run_calls env opts ?calls (add_session env (po_SessionKey opts) ?am st1) = (results, st2)" by fastforce
      obtain messages2 st3 where c: "fold (process_result env opts) (zip ?calls results) (messages1 @ [?am], st2) = (messages2, st3)" by fastforce
      let ?round = "call_round (env_encode env) resp ?calls results"
      have s3: "tn_sessions st3 = add_messages env (po_SessionKey opts) ?round (tn_sessions st)"
        using process_fold [OF c] run_calls_simps(3) [OF b] s1 by (simp add: call_round_def)
      have "llm_iterate env opts n (Suc it) messages2 (st3\<lparr>tn_registry := tick_ttl (tn_registry st3)\<rparr>) = (res, st')"
        using Suc.prems(2) a Inr False b c by (simp add: Let_def)
      from Suc.IH [OF Suc.prems(1) this] obtain mid where mid: "tn_sessions st' = add_messages env (po_SessionKey opts) mid (tn_sessions st3)"
          "paired False mid" "\<forall>m \<in> set mid. msg_Role m \<in> {''assistant'', ''tool''}" by auto
      have "\<forall>m \<in> set ?round. msg_Role m \<in> {''assistant'', ''tool''}" by (auto simp: call_round_def)
      with mid s3 call_round_paired [OF run_calls_simps(1) [OF b]] show ?thesis
        by (intro exI [of _ "?round @ mid"]) (auto simp: paired_append)
    qed
  qed
qed

definition turn_messages :: "process_options \<Rightarrow> 'v message list \<Rightarrow> gostr option \<Rightarrow> 'v message list" where
  "turn_messages opts mid answer =
     text_message ''user'' (po_UserMessage opts) # mid @
     (case answer of None \<Rightarrow> [] | Some a \<Rightarrow> [text_message ''assistant'' a])"

lemma turn_session:
  assumes "no_context_error env" "run_agent_loop env opts st = (res, st')"
  shows "\<exists>mid. paired False mid \<and> (\<forall>m \<in> set mid. msg_Role m \<in> {''assistant'', ''tool''}) \<and>
    tn_sessions st' =
      (case res of
         Inl e \<Rightarrow> add_messages env (po_SessionKey opts) (turn_messages opts mid None) (tn_sessions st)
       | Inr a \<Rightarrow> so_save (env_ops env)
                   (add_messages env (po_SessionKey opts) (turn_messages opts mid (Some a)) (tn_sessions st)) (po_SessionKey opts))"
proof -
  let ?key = "po_SessionKey opts"
  define st1 where "st1 = (if po_Channel opts \<noteq> [] \<and> po_ChatID opts \<noteq> [] \<and> \<not> internal_channel (po_Channel opts)
     then emit (LastChannel (po_Channel opts @ '':'' @ po_ChatID opts)) st else st)"
  define messages where "messages = resolve_media_refs (map_option (\<lambda>f. f (tn_world st1)) (env_media env))
     (build_request env opts (po_NoHistory opts) (po_UserMessage opts) (po_Media opts) st1)"
  define st2 where "st2 = add_session env ?key (text_message ''user'' (po_UserMessage opts)) st1"
  have s2: "tn_sessions st2 = so_add (env_ops env) (tn_sessions st) ?key (text_message ''user'' (po_UserMessage opts))"
    by (simp add: st2_def st1_def)
  obtain r st3 where i: "run_llm_iteration env opts messages st2 = (r, st3)" by fastforce
  from llm_iterate_session [OF assms(1) i [unfolded run_llm_iteration_def]] obtain mid where
    mid: "tn_sessions st3 = add_messages env ?key mid (tn_sessions st2)" "paired False mid"
      "\<forall>m \<in> set mid. msg_Role m \<in> {''assistant'', ''tool''}" by blast
  have eq: "run_agent_loop env opts st = (res, st') \<longleftrightarrow>
      (case r of Inl e \<Rightarrow> (Inl e, st3)
       | Inr (content, _) \<Rightarrow>
          let final = (if content = [] then po_DefaultResponse opts else content);
              st4 = add_session env ?key (text_message ''assistant'' final) st3;
              st5 = st4\<lparr>tn_sessions := so_save (env_ops env) (tn_sessions st4) ?key\<rparr>;
              st6 = (if po_EnableSummary opts then emit (SummaryCheck ?key) st5 else st5);
              st7 = (if po_SendResponse opts then emit (SendText (po_Channel opts) (po_ChatID opts) final) st6 else st6)
          in (Inr final, st7)) = (res, st')"
    unfolding run_agent_loop_def Let_def st1_def [symmetric] messages_def [symmetric] st2_def [symmetric] i
    by (simp split: sum.splits)
  show ?thesis
  proof (intro exI [of _ mid] conjI mid(2,3))
    show "tn_sessions st' =
      (case res of
         Inl e \<Rightarrow> add_messages env ?key (turn_messages opts mid None) (tn_sessions st)
       | Inr a \<Rightarrow> so_save (env_ops env) (add_messages env ?key (turn_messages opts mid (Some a)) (tn_sessions st)) ?key)"
      using assms(2)[unfolded eq] mid(1) by (cases r) (auto simp: Let_def s2 turn_messages_def)
  qed
qed

text \<open>
  The turn over a store that keeps the contract: the conversation grows by the turn, other sessions
  are as they were.
\<close>

locale agent_sessions = session_store ok near good history add replace truncate save
  for ok :: "'s \<Rightarrow> bool" and near :: "gostr \<Rightarrow> gostr \<Rightarrow> bool" and good :: "'v message \<Rightarrow> bool"
    and history :: "'s \<Rightarrow> gostr \<Rightarrow> 'v message list" and add and replace and truncate and save +
  fixes ops :: "('v, 's) session_ops"
  assumes ops: "so_add ops = add" "so_history ops = history" "so_set_history ops = replace"
      "so_truncate ops = truncate" "so_save ops = save"
begin

lemma turn_history:
  assumes "no_context_error env" "env_ops env = ops" "run_agent_loop env opts st = (res, st')" "ok (tn_sessions st)"
    and good: "\<And>m. good m"
  shows "\<exists>mid. paired False mid \<and> (\<forall>m \<in> set mid. msg_Role m \<in> {''assistant'', ''tool''}) \<and>
    history (tn_sessions st') (po_SessionKey opts) = history (tn_sessions st) (po_SessionKey opts) @
      turn_messages opts mid (case res of Inl _ \<Rightarrow> None | Inr a \<Rightarrow> Some a)"
    and "\<not> near (po_SessionKey opts) k \<Longrightarrow> history (tn_sessions st') k = history (tn_sessions st) k"
proof -
  from turn_session [OF assms(1,3), unfolded assms(2) ops] obtain mid where
    mid: "paired False mid" "\<forall>m \<in> set mid. msg_Role m \<in> {''assistant'', ''tool''}"
      "tn_sessions st' = (case res of
         Inl e \<Rightarrow> fold (\<lambda>m s. add s (po_SessionKey opts) m) (turn_messages opts mid None) (tn_sessions st)
       | Inr a \<Rightarrow> save (fold (\<lambda>m s. add s (po_SessionKey opts) m) (turn_messages opts mid (Some a)) (tn_sessions st)) (po_SessionKey opts))"
    by blast
  note a = add_all [OF assms(4), of _ "po_SessionKey opts"] and o = add_all_other [OF assms(4), of _ "po_SessionKey opts"]
  show "\<exists>mid. paired False mid \<and> (\<forall>m \<in> set mid. msg_Role m \<in> {''assistant'', ''tool''}) \<and>
    history (tn_sessions st') (po_SessionKey opts) = history (tn_sessions st) (po_SessionKey opts) @
      turn_messages opts mid (case res of Inl _ \<Rightarrow> None | Inr a \<Rightarrow> Some a)"
    using mid a good by (intro exI [of _ mid]) (auto simp: save_history split: sum.splits)
  show "history (tn_sessions st') k = history (tn_sessions st) k" if "\<not> near (po_SessionKey opts) k"
    using mid(3) a o [OF _ that] good by (auto simp: save_history split: sum.splits)
qed

end

section \<open>The loop of sub-agents\<close>

text \<open>
  \<open>RunToolLoop\<close>: no session, no retries, no callback, and perhaps no tools. \<open>call\<close>, \<open>run\<close>, \<open>sched\<close>,
  \<open>encode\<close> and \<open>decode\<close> are as in the environment of a turn. The world holds the registry, the
  provider and the requests made so far.
\<close>

record ('v, 'p, 'w) loop_config =
  lc_Call :: "'v message list \<Rightarrow> 'p tool_definition list \<Rightarrow> 'w \<Rightarrow> (gostr + 'v llm_response) \<times> 'w"
  lc_Run :: "'p tool \<Rightarrow> bool \<Rightarrow> 'v anymap \<Rightarrow> gostr \<Rightarrow> gostr \<Rightarrow> 'p tool_registry \<times> 'w \<Rightarrow> tool_result \<times> 'p tool_registry \<times> 'w"
  lc_Sched :: "nat \<Rightarrow> nat list"
  lc_Encode :: "'v anymap \<Rightarrow> gostr"
  lc_Decode :: "gostr \<Rightarrow> 'v anymap option"
  lc_HasTools :: bool
  lc_MaxIterations :: int

definition loop_assistant_message :: "('v anymap \<Rightarrow> gostr) \<Rightarrow> 'v llm_response \<Rightarrow> 'v tool_call list \<Rightarrow> 'v message" where
  "loop_assistant_message encode resp calls =
     (text_message ''assistant'' (resp_Content resp))
       \<lparr>msg_ToolCalls :=
          map (\<lambda>tc. \<lparr>tc_ID = tc_ID tc, tc_Type = ''function'',
                     tc_Function = Some \<lparr>fn_Name = tc_Name tc,
                                         fn_Arguments = encode (case tc_Arguments tc of None \<Rightarrow> [] | Some a \<Rightarrow> a),
                                         fn_ThoughtSignature = []\<rparr>,
                     tc_Name = tc_Name tc, tc_Arguments = tc_Arguments tc, tc_ThoughtSignature = [], tc_ExtraContent = None\<rparr>)
            calls\<rparr>"

definition loop_run_call ::
  "('v, 'p, 'w) loop_config \<Rightarrow> gostr \<Rightarrow> gostr \<Rightarrow> 'v tool_call list \<Rightarrow> nat \<Rightarrow>
   tool_result option list \<times> 'p tool_registry \<times> 'w \<Rightarrow> tool_result option list \<times> 'p tool_registry \<times> 'w" where
  "loop_run_call cfg channel chatID calls i acc =
     (case acc of (results, reg, w) \<Rightarrow>
        (case (if lc_HasTools cfg
               then execute_with_context (lc_Run cfg) reg (tc_Name (calls ! i))
                      (case tc_Arguments (calls ! i) of None \<Rightarrow> [] | Some a \<Rightarrow> a) channel chatID False (reg, w)
               else (error_result ''No tools available'', (reg, w))) of
           (r, reg', w') \<Rightarrow> (results[i := Some r], reg', w')))"

fun tool_loop_iterate ::
  "('v, 'p, 'w) loop_config \<Rightarrow> gostr \<Rightarrow> gostr \<Rightarrow> nat \<Rightarrow> nat \<Rightarrow> 'v message list \<Rightarrow> 'p tool_registry \<times> 'w \<Rightarrow>
   ('v, 'p) turn_event list \<Rightarrow> (gostr + gostr \<times> nat) \<times> ('p tool_registry \<times> 'w) \<times> ('v, 'p) turn_event list" where
  "tool_loop_iterate cfg channel chatID 0 it messages st tr = (Inr ([], it), st, tr)"
| "tool_loop_iterate cfg channel chatID (Suc n) it messages st tr =
     (let defs = (if lc_HasTools cfg then to_provider_defs (fst st) else []);
          (res, w) = lc_Call cfg messages defs (snd st);
          tr1 = tr @ [Request messages defs]
      in (case res of
            Inl e \<Rightarrow> (Inl e, (fst st, w), tr1)
          | Inr resp \<Rightarrow>
              if resp_ToolCalls resp = [] then (Inr (resp_Content resp, Suc it), (fst st, w), tr1)
              else
                let calls = map (normalize_tool_call (lc_Encode cfg) (lc_Decode cfg)) (resp_ToolCalls resp);
                    (results, reg', w') = fold (loop_run_call cfg channel chatID calls) (lc_Sched cfg (length calls))
                                            (replicate (length calls) None, fst st, w);
                    messages' = messages @ [loop_assistant_message (lc_Encode cfg) resp calls] @
                                map (\<lambda>(tc, r). tool_message tc (the r)) (zip calls results)
                in tool_loop_iterate cfg channel chatID n (Suc it) messages' (reg', w') tr1))"

definition run_tool_loop ::
  "('v, 'p, 'w) loop_config \<Rightarrow> 'v message list \<Rightarrow> gostr \<Rightarrow> gostr \<Rightarrow> 'p tool_registry \<times> 'w \<Rightarrow>
   (gostr + gostr \<times> nat) \<times> ('p tool_registry \<times> 'w) \<times> ('v, 'p) turn_event list" where
  "run_tool_loop cfg messages channel chatID st =
     tool_loop_iterate cfg channel chatID (nat (lc_MaxIterations cfg)) 0 messages st []"

lemma loop_run_call_length:
  "length (fst (fold (loop_run_call cfg channel chatID calls) order (rs, reg, w))) = length rs"
proof (induction order arbitrary: rs reg w)
  case (Cons i order)
  obtain rs1 reg1 w1 where "loop_run_call cfg channel chatID calls i (rs, reg, w) = (rs1, reg1, w1)" by (metis prod_cases3)
  moreover from this have "length rs1 = length rs" by (auto simp: loop_run_call_def split: prod.splits if_splits)
  ultimately show ?case using Cons by simp
qed simp

lemma tool_loop_requests:
  "tool_loop_iterate cfg channel chatID n it messages st tr = (res, st', tr') \<Longrightarrow> request_ok messages \<Longrightarrow> requests_ok tr \<Longrightarrow>
   requests_ok tr' \<and> requests tr' \<le> requests tr + n"
proof (induction n arbitrary: it messages st tr)
  case (Suc n)
  let ?defs = "if lc_HasTools cfg then to_provider_defs (fst st) else []"
  obtain r w where c: "lc_Call cfg messages ?defs (snd st) = (r, w)" by fastforce
  have tr1: "requests_ok (tr @ [Request messages ?defs])" "requests (tr @ [Request messages ?defs]) = Suc (requests tr)"
    using Suc.prems(2,3) by simp_all
  show ?case
  proof (cases r)
    case (Inl e)
    with Suc.prems c tr1 show ?thesis by (auto simp: Let_def)
  next
    case (Inr resp)
    show ?thesis
    proof (cases "resp_ToolCalls resp = []")
      case True
      with Inr Suc.prems c tr1 show ?thesis by (auto simp: Let_def)
    next
      case False
      let ?calls = "map (normalize_tool_call (lc_Encode cfg) (lc_Decode cfg)) (resp_ToolCalls resp)"
      let ?am = "loop_assistant_message (lc_Encode cfg) resp ?calls"
      obtain results reg' w' where f: "fold (loop_run_call cfg channel chatID ?calls) (lc_Sched cfg (length ?calls))
          (replicate (length ?calls) None, fst st, w) = (results, reg', w')" by (metis prod_cases3)
      have len: "length results = length ?calls" using loop_run_call_length [of cfg channel chatID ?calls] f by (metis fst_conv length_replicate)
      have "msg_Role ?am = ''assistant''" "call_ids ?am = map tc_ID ?calls"
        by (simp_all add: loop_assistant_message_def call_ids_def o_def)
      then have "paired False (?am # map (\<lambda>(tc, r). tool_message tc (the r)) (zip ?calls results))"
        by (intro call_results_paired [OF len]) simp_all
      with Suc.prems(2) have m: "request_ok (messages @ [?am] @ map (\<lambda>(tc, r). tool_message tc (the r)) (zip ?calls results))"
        unfolding append_Cons append_Nil by (rule request_ok_append)
      have "tool_loop_iterate cfg channel chatID n (Suc it)
          (messages @ [?am] @ map (\<lambda>(tc, r). tool_message tc (the r)) (zip ?calls results)) (reg', w')
          (tr @ [Request messages ?defs]) = (res, st', tr')"
        using Suc.prems(1) c Inr False f by (simp add: Let_def)
      from Suc.IH [OF this m tr1(1)] tr1(2) show ?thesis by simp
    qed
  qed
qed simp

section \<open>Properties\<close>



text \<open>
  C39 The loop of a sub-agent started with a well-formed conversation sends only well-formed
  requests, one per iteration and at most \<open>MaxIterations\<close>, with and without tools.
\<close>

theorem tool_loop_sound:
  assumes "request_ok messages" "run_tool_loop cfg messages channel chatID st = (res, st', tr)"
  shows "(\<forall>m d. Request m d \<in> set tr \<longrightarrow> request_ok m) \<and> requests tr \<le> nat (lc_MaxIterations cfg)"
  using tool_loop_requests [OF assms(2) [unfolded run_tool_loop_def] assms(1)] by (simp add: requests_ok_def)

text \<open>A small environment: the model asks for one tool and then answers.\<close>

definition demo_call :: "nat message list \<Rightarrow> unit tool_definition list \<Rightarrow> nat \<Rightarrow> (llm_error + nat llm_response) \<times> nat" where
  "demo_call messages defs w =
     (Inr \<lparr>resp_Content = (if w = 0 then [] else ''done''), resp_ReasoningContent = [],
           resp_ToolCalls = (if w = 0 then [\<lparr>tc_ID = ''1'', tc_Type = ''function'', tc_Function = None, tc_Name = ''ls'',
                                           tc_Arguments = None, tc_ThoughtSignature = [], tc_ExtraContent = None\<rparr>] else []),
           resp_FinishReason = []\<rparr>, Suc w)"

definition demo_ops :: "(nat, nat message list) session_ops" where
  "demo_ops = \<lparr>so_add = (\<lambda>s k m. s @ [m]), so_history = (\<lambda>s k. s), so_summary = (\<lambda>s k. []), so_set_summary = (\<lambda>s k x. s),
     so_set_history = (\<lambda>s k h. h), so_truncate = (\<lambda>s k n. keep_last n s), so_save = (\<lambda>s k. s)\<rparr>"

definition demo_env :: "(nat, unit, nat message list, nat) turn_env" where
  "demo_env = \<lparr>env_ops = demo_ops, env_static = (\<lambda>_. ''You are''), env_dynamic = (\<lambda>_ _ _. ''now''), env_media = None,
     env_call = demo_call, env_run = (\<lambda>t a x c i st. (new_tool_result ''ok'', st)), env_sched = (\<lambda>n. rev [0..<n]),
     env_encode = (\<lambda>_. ''{}''), env_decode = (\<lambda>_. None), env_MaxIterations = 3\<rparr>"

definition demo_opts :: process_options where
  "demo_opts = \<lparr>po_SessionKey = ''k'', po_Channel = ''cli'', po_ChatID = ''d'', po_UserMessage = ''hi'', po_Media = [],
     po_DefaultResponse = ''none'', po_EnableSummary = False, po_SendResponse = False, po_NoHistory = False\<rparr>"

definition demo_state :: "(nat, unit, nat message list, nat) turn_state" where
  "demo_state = \<lparr>tn_sessions = [], tn_registry = new_tool_registry, tn_world = 0, tn_trace = []\<rparr>"

lemma direct_answer_request:
  assumes "\<And>m d w. env_call env m d w = (Inr resp, w)" "resp_ToolCalls resp = []" "env_MaxIterations env = 1"
  shows "\<exists>messages defs. Request messages defs \<in> set (tn_trace (snd (run_agent_loop env opts st)))"
  by (simp add: run_agent_loop_def run_llm_iteration_def Let_def assms max_retries_def numeral_2_eq_2 call_model_def) auto

definition answer_env :: "(nat, unit, nat message list, nat) turn_env" where
  "answer_env = demo_env\<lparr>env_call := (\<lambda>m d w. (Inr \<lparr>resp_Content = ''done'', resp_ReasoningContent = [],
     resp_ToolCalls = [], resp_FinishReason = []\<rparr>, w)), env_MaxIterations := 1\<rparr>"



definition demo_loop :: "(nat, unit, nat) loop_config" where
  "demo_loop = \<lparr>lc_Call = (\<lambda>m d w. (Inl ''busy'', w)), lc_Run = (\<lambda>t a x c i st. (new_tool_result ''ok'', st)),
     lc_Sched = (\<lambda>n. [0..<n]), lc_Encode = (\<lambda>_. ''{}''), lc_Decode = (\<lambda>_. None), lc_HasTools = False, lc_MaxIterations = 2\<rparr>"

theorem tool_loop_sound_witness:
  "requests (snd (snd (run_tool_loop demo_loop [text_message ''system'' ''s'', text_message ''user'' ''u'']
     ''cli'' ''d'' (new_tool_registry, 0)))) \<le> 2"
proof -
  let ?m = "[text_message ''system'' ''s'', text_message ''user'' ''u'' :: nat message]"
  obtain res st' tr where r: "run_tool_loop demo_loop ?m ''cli'' ''d'' (new_tool_registry, 0) = (res, st', tr)"
    by (metis prod_cases3)
  have "request_ok ?m" by (simp add: request_ok_def)
  from tool_loop_sound [OF this r] r show ?thesis by (simp add: demo_loop_def)
qed

end
