(* ===== verification/Conversation.thy ===== *)
theory Conversation imports Agent_Turn Session_Manager "HOL-Library.Signed_Division" begin

text \<open>
  Conversations over time: a turn on the session manager, and the summarization that runs in the
  background afterwards, \<open>maybeSummarize\<close>, \<open>summarizeSession\<close>, \<open>summarizeBatch\<close> and \<open>retryLLMCall\<close> of
  \<open>pkg/agent/loop.go\<close>.

  \<open>chat\<close> is one call of the model with a prompt, in a world; while the model is working other turns
  may change the store, which is the argument \<open>meanwhile\<close>. Contents are UTF-8; a rune is a byte that
  starts a character with the continuation bytes after it.
\<close>

section \<open>Turns on the session manager\<close>

definition manager_ops :: "int \<Rightarrow> ('v, 'v message session_manager) session_ops" where
  "manager_ops now =
     \<lparr>so_add = add_full_message now, so_history = sm_get_history, so_summary = sm_get_summary,
      so_set_summary = sm_set_summary now, so_set_history = sm_set_history now,
      so_truncate = sm_truncate_history now, so_save = (\<lambda>sm key. sm)\<rparr>"

interpretation manager_turn: agent_sessions "\<lambda>_. True" "(=)" "\<lambda>_. True" sm_get_history "add_full_message now"
  "sm_set_history now" "sm_truncate_history now" "\<lambda>sm key. sm" "manager_ops now"
  for now :: int
  by unfold_locales (simp_all add: manager_ops_def)

section \<open>Runes\<close>

definition is_continuation :: "char \<Rightarrow> bool" where
  "is_continuation c \<longleftrightarrow> 128 \<le> code c \<and> code c < 192"

definition rune_count :: "gostr \<Rightarrow> nat" where
  "rune_count s = length (filter (\<lambda>c. \<not> is_continuation c) s)"

text \<open>The first \<open>n\<close> runes.\<close>

fun take_runes :: "nat \<Rightarrow> gostr \<Rightarrow> gostr" where
  "take_runes n [] = []"
| "take_runes n (c # s) =
     (if is_continuation c then c # take_runes n s
      else case n of 0 \<Rightarrow> [] | Suc k \<Rightarrow> c # take_runes k s)"

section \<open>When to summarize\<close>

definition estimate_history_tokens :: "'v message list \<Rightarrow> nat" where
  "estimate_history_tokens messages = sum_list (map (\<lambda>m. rune_count (msg_Content m)) messages) * 2 div 5"

text \<open>Whether a goroutine is started, and the keys that are being summarized.\<close>

definition maybe_summarize ::
  "int \<Rightarrow> int \<Rightarrow> int \<Rightarrow> ('v, 's) session_ops \<Rightarrow> gostr \<Rightarrow> gostr \<Rightarrow> 's \<Rightarrow> gostr set \<Rightarrow> bool \<times> gostr set" where
  "maybe_summarize contextWindow messageThreshold tokenPercent ops agentID key s summarizing =
     (let h = so_history ops s key;
          threshold = (contextWindow * tokenPercent) sdiv 100;
          k = agentID @ '':'' @ key
      in if int (length h) > messageThreshold \<or> int (estimate_history_tokens h) > threshold
         then (if k \<in> summarizing then (False, summarizing) else (True, insert k summarizing))
         else (False, summarizing))"

section \<open>The calls of the model\<close>

fun retry_llm_call ::
  "(gostr \<Rightarrow> 'w \<Rightarrow> (gostr + gostr) \<times> 'w) \<Rightarrow> gostr \<Rightarrow> nat \<Rightarrow> gostr + gostr \<Rightarrow> 'w \<Rightarrow> (gostr + gostr) \<times> 'w" where
  "retry_llm_call chat prompt 0 prev w = (prev, w)"
| "retry_llm_call chat prompt (Suc n) prev w =
     (case chat prompt w of
        (Inr c, w') \<Rightarrow> if c \<noteq> [] then (Inr c, w') else retry_llm_call chat prompt n (Inr c) w'
      | (Inl e, w') \<Rightarrow> retry_llm_call chat prompt n (Inl e) w')"

definition batch_prompt :: "'v message list \<Rightarrow> gostr \<Rightarrow> gostr" where
  "batch_prompt batch existing =
     ''Provide a concise summary of this conversation segment, preserving core context and key points.'' @ nl @
     (if existing \<noteq> [] then ''Existing context: '' @ existing @ nl else []) @
     nl @ ''CONVERSATION:'' @ nl @
     concat (map (\<lambda>m. msg_Role m @ '': '' @ msg_Content m @ nl) batch)"

definition fallback_line :: "'v message \<Rightarrow> gostr" where
  "fallback_line m =
     (let content = trim_space (msg_Content m);
          n = rune_count content;
          keep = min (max (n * 10 div 100) 200) n
      in msg_Role m @ '': '' @
         (if n = 0 then [] else take_runes keep content @ (if keep < n then ''...'' else [])))"

fun join_lines :: "gostr list \<Rightarrow> gostr" where
  "join_lines [] = []"
| "join_lines [x] = x"
| "join_lines (x # y # xs) = x @ '' | '' @ join_lines (y # xs)"

definition summarize_batch ::
  "(gostr \<Rightarrow> 'w \<Rightarrow> (gostr + gostr) \<times> 'w) \<Rightarrow> 'v message list \<Rightarrow> gostr \<Rightarrow> 'w \<Rightarrow> gostr \<times> 'w" where
  "summarize_batch chat batch existing w =
     (case retry_llm_call chat (batch_prompt batch existing) 3 (Inr []) w of
        (Inr c, w') \<Rightarrow>
          if c \<noteq> [] then (trim_space c, w')
          else (''Conversation summary: '' @ join_lines (map fallback_line batch), w')
      | (Inl e, w') \<Rightarrow> (''Conversation summary: '' @ join_lines (map fallback_line batch), w'))"

section \<open>The summary of a session\<close>

definition merge_prompt :: "gostr \<Rightarrow> gostr \<Rightarrow> gostr" where
  "merge_prompt s1 s2 =
     ''Merge these two conversation summaries into one cohesive summary:'' @ nl @ nl @ ''1: '' @ s1 @ nl @ nl @ ''2: '' @ s2"

definition oversized :: "int \<Rightarrow> 'v message \<Rightarrow> bool" where
  "oversized contextWindow m \<longleftrightarrow> int (length (msg_Content m) div 2) > contextWindow sdiv 2"

definition summarizable :: "'v message \<Rightarrow> bool" where
  "summarizable m \<longleftrightarrow> msg_Role m = ''user'' \<or> msg_Role m = ''assistant''"

definition valid_messages :: "int \<Rightarrow> 'v message list \<Rightarrow> 'v message list" where
  "valid_messages contextWindow batch = filter (\<lambda>m. summarizable m \<and> \<not> oversized contextWindow m) batch"

text \<open>The text of the new summary, from the history and the summary read at the start.\<close>

definition final_summary ::
  "(gostr \<Rightarrow> 'w \<Rightarrow> (gostr + gostr) \<times> 'w) \<Rightarrow> int \<Rightarrow> 'v message list \<Rightarrow> gostr \<Rightarrow> 'w \<Rightarrow> gostr \<times> 'w" where
  "final_summary chat contextWindow history summary w =
     (let batch = take (length history - 4) history;
          valid = valid_messages contextWindow batch;
          omitted = (\<exists>m \<in> set batch. summarizable m \<and> oversized contextWindow m)
      in if length history \<le> 4 \<or> valid = [] then ([], w)
         else
           (case (if length valid > 10
                  then
                    let mid = the (find_nearest_user_message valid (length valid div 2));
                        (s1, w1) = summarize_batch chat (take mid valid) [] w;
                        (s2, w2) = summarize_batch chat (drop mid valid) [] w1
                    in (case retry_llm_call chat (merge_prompt s1 s2) 3 (Inr []) w2 of
                          (Inr c, w3) \<Rightarrow> if c \<noteq> [] then (c, w3) else (s1 @ '' '' @ s2, w3)
                        | (Inl e, w3) \<Rightarrow> (s1 @ '' '' @ s2, w3))
                  else summarize_batch chat valid summary w) of
              (text, w') \<Rightarrow>
                (if omitted \<and> text \<noteq> []
                 then text @ nl @ ''[Note: Some oversized messages were omitted from this summary for efficiency.]''
                 else text, w')))"

definition summarize_session ::
  "(gostr \<Rightarrow> 'w \<Rightarrow> (gostr + gostr) \<times> 'w) \<Rightarrow> ('s \<Rightarrow> 's) \<Rightarrow> int \<Rightarrow> ('v, 's) session_ops \<Rightarrow> gostr \<Rightarrow> 's \<times> 'w \<Rightarrow> 's \<times> 'w" where
  "summarize_session chat meanwhile contextWindow ops key st =
     (case st of (s, w) \<Rightarrow>
        (case final_summary chat contextWindow (so_history ops s key) (so_summary ops s key) w of
           (text, w') \<Rightarrow>
             let s' = meanwhile s
             in if text = [] then (s', w')
                else (so_save ops (so_truncate ops (so_set_summary ops s' key text) key 4) key, w')))"

section \<open>Properties\<close>


definition demo_manager_env :: "(nat, unit, nat message session_manager, nat) turn_env" where
  "demo_manager_env = \<lparr>env_ops = manager_ops 0, env_static = (\<lambda>_. ''You are''), env_dynamic = (\<lambda>_ _ _. ''now''), env_media = None,
     env_call = demo_call, env_run = (\<lambda>t a x c i st. (new_tool_result ''ok'', st)), env_sched = (\<lambda>n. rev [0..<n]),
     env_encode = (\<lambda>_. ''{}''), env_decode = (\<lambda>_. None), env_MaxIterations = 3\<rparr>"

definition demo_manager_state :: "(nat, unit, nat message session_manager, nat) turn_state" where
  "demo_manager_state = \<lparr>tn_sessions = new_session_manager [] [], tn_registry = new_tool_registry, tn_world = 0, tn_trace = []\<rparr>"


text \<open>
  The summary of a long session forgets the past: with more than ten messages to summarize the
  existing summary is not shown to the model, although it is then overwritten.
\<close>

theorem long_summary_forgets:
  assumes "10 < length (valid_messages contextWindow (take (length history - 4) history))"
  shows "final_summary chat contextWindow history summary w = final_summary chat contextWindow history summary' w"
  using assms by (simp add: final_summary_def Let_def)

abbreviation note_message :: "nat message" where
  "note_message \<equiv> text_message ''user'' ''hi''"

theorem long_summary_forgets_witness:
  "final_summary (\<lambda>_ w. (Inr ''s'', w)) 100 (replicate 15 note_message) ''You agreed to ship on Monday.'' 0 =
   final_summary (\<lambda>_ w. (Inr ''s'', w)) 100 (replicate 15 note_message) [] (0 :: nat)"
  by (rule long_summary_forgets) (simp add: valid_messages_def summarizable_def oversized_def)

text \<open>
  Messages that arrive while a summary is being written push out messages nobody summarized: the
  model sees all but the last four messages it was started with, but the truncation afterwards keeps
  the last four of what is there then, so as many messages are lost as were added in between.
\<close>

theorem summary_overtaken:
  assumes ops: "ops = manager_ops now"
    and h: "h = sm_get_history s key" "4 < length h"
    and new: "sm_get_history (meanwhile s) key = h @ new"
    and fin: "final_summary chat contextWindow h (sm_get_summary s key) w = (text, w')" "text \<noteq> []"
  shows "\<exists>lost. h @ new = take (length h - 4) h @ lost @
      sm_get_history (fst (summarize_session chat meanwhile contextWindow ops key (s, w))) key \<and>
    length lost = length new"
proof -
  have "sm_get_history (sm_set_summary now (meanwhile s) key text) key = h @ new"
    using new by (auto simp: sm_get_history_def sm_set_summary_def split: option.splits)
  then have "sm_get_history (fst (summarize_session chat meanwhile contextWindow ops key (s, w))) key = keep_last 4 (h @ new)"
    using fin by (simp add: summarize_session_def ops manager_ops_def Let_def manager.truncate_history flip: h(1))
  moreover have "h @ new = take (length h - 4) h @ take (length new) (drop (length h - 4) (h @ new)) @ keep_last 4 (h @ new)"
  proof -
    have "keep_last 4 (h @ new) = drop (length new) (drop (length h - 4) (h @ new))"
      using h(2) by (simp add: keep_last_def add.commute)
    moreover have "take (length h - 4) h = take (length h - 4) (h @ new)" by simp
    ultimately show ?thesis by (metis append_take_drop_id)
  qed
  moreover have "length (take (length new) (drop (length h - 4) (h @ new))) = length new" using h(2) by simp
  ultimately show ?thesis by metis
qed

definition five_messages :: "nat message session_manager" where
  "five_messages = (new_session_manager [] [])\<lparr>sg_sessions :=
     [''k'' \<mapsto> \<lparr>ss_Key = ''k'', ss_Messages = replicate 5 note_message, ss_Summary = [], ss_Created = None, ss_Updated = None\<rparr>]\<rparr>"

theorem summary_overtaken_witness:
  "\<exists>lost. length lost = 1 \<and> replicate 5 note_message @ [text_message ''user'' ''wait''] = [note_message] @ lost @
     sm_get_history (fst (summarize_session (\<lambda>_ w. (Inr ''s'', w)) (\<lambda>s. add_full_message 0 s ''k'' (text_message ''user'' ''wait''))
       100 (manager_ops 0) ''k'' (five_messages, 0 :: nat))) ''k''"
proof -
  have h: "replicate 5 note_message = sm_get_history five_messages ''k''" "4 < length (replicate 5 note_message)"
    by (simp_all add: five_messages_def sm_get_history_def)
  have new: "sm_get_history (add_full_message 0 five_messages ''k'' (text_message ''user'' ''wait'')) ''k'' =
      replicate 5 note_message @ [text_message ''user'' ''wait'']"
    by (simp add: five_messages_def sm_get_history_def add_full_message_def Let_def)
  have sum: "final_summary (\<lambda>_ w. (Inr ''s'', w)) 100 (replicate 5 note_message) (sm_get_summary five_messages ''k'') (0 :: nat) =
      (trim_space ''s'', 0)"
    by (simp add: final_summary_def Let_def valid_messages_def summarizable_def oversized_def summarize_batch_def numeral_eq_Suc)
  have "trim_space ''s'' \<noteq> []" by code_simp
  from summary_overtaken [where meanwhile = "\<lambda>s. add_full_message 0 s ''k'' (text_message ''user'' ''wait'')" and s = five_messages
      and key = "''k''" and new = "[text_message ''user'' ''wait'']", OF refl h new sum this]
  show ?thesis by (auto simp: numeral_eq_Suc)
qed

end
