(* ===== verification/Model_Choice.thy ===== *)
theory Model_Choice imports Fallback Complexity Agent_Turn begin

text \<open>
  The choice of the model for a turn and the call behind it, \<open>selectCandidates\<close> and \<open>callLLM\<close> of
  \<open>pkg/agent/loop.go\<close>, with the texts of the errors of \<open>pkg/providers\<close>, which the turn reads to tell
  a timeout from a context that is too long.

  \<open>chat messages defs model\<close> is the one provider an agent was created with; every candidate of the
  chain is sent to it, whatever provider the candidate names.
\<close>

section \<open>The texts of errors\<close>

fun reason_text :: "failover_reason \<Rightarrow> gostr" where
  "reason_text FailoverAuth = ''auth''"
| "reason_text FailoverRateLimit = ''rate_limit''"
| "reason_text FailoverBilling = ''billing''"
| "reason_text FailoverTimeout = ''timeout''"
| "reason_text FailoverFormat = ''format''"
| "reason_text FailoverOverloaded = ''overloaded''"
| "reason_text FailoverUnknown = ''unknown''"

definition failover_text :: "failover_error \<Rightarrow> gostr" where
  "failover_text e =
     ''failover('' @ reason_text (fe_Reason e) @ ''): provider='' @ fe_Provider e @ '' model='' @ fe_Model e @
     '' status='' @ show_nat (fe_Status e) @ '': '' @ error_text (fe_Wrapped e)"

text \<open>\<open>Duration.Round(time.Millisecond)\<close> in milliseconds, and its \<open>String\<close>.\<close>

definition round_ms :: "duration \<Rightarrow> int" where
  "round_ms d =
     (let r = \<bar>d\<bar> mod ms 1; down = \<bar>d\<bar> div ms 1 in sgn d * (if 2 * r < ms 1 then down else down + 1))"

definition fraction_text :: "nat \<Rightarrow> gostr" where
  "fraction_text t =
     (if t = 0 then []
      else ''.'' @ map (\<lambda>n. char_of (48 + n))
        (if t mod 100 = 0 then [t div 100]
         else if t mod 10 = 0 then [t div 100, t div 10 mod 10]
         else [t div 100, t div 10 mod 10, t mod 10]))"

definition duration_text :: "int \<Rightarrow> gostr" where
  "duration_text t =
     (let u = nat \<bar>t\<bar>; secs = u div 1000; sign = (if t < 0 then ''-'' else [])
      in if u = 0 then ''0s''
         else if u < 1000 then sign @ show_nat u @ ''ms''
         else sign @
           (if secs \<ge> 3600 then show_nat (secs div 3600) @ ''h'' else []) @
           (if secs \<ge> 60 then show_nat (secs div 60 mod 60) @ ''m'' else []) @
           show_nat (secs mod 60) @ fraction_text (u mod 1000) @ ''s'')"

definition attempt_error_text :: "attempt_error \<Rightarrow> gostr" where
  "attempt_error_text e =
     (case e of Raw g \<Rightarrow> error_text g
      | Classified f \<Rightarrow> failover_text f
      | InCooldown p d \<Rightarrow> ''provider '' @ p @ '' in cooldown ('' @ duration_text (round_ms d) @ '' remaining)'')"

definition attempt_line :: "nat \<times> fallback_attempt \<Rightarrow> gostr" where
  "attempt_line ia =
     (case ia of (i, a) \<Rightarrow>
        nl @ ''  ['' @ show_nat (Suc i) @ ''] '' @ fa_Provider a @ ''/'' @ fa_Model a @ '': '' @
        (if fa_Skipped a then ''skipped (cooldown)''
         else attempt_error_text (fa_Error a) @ '' (reason='' @
              (case fa_Reason a of None \<Rightarrow> [] | Some r \<Rightarrow> reason_text r) @ '', '' @
              duration_text (round_ms (fa_Duration a)) @ '')''))"

text \<open>Whether the error is a deadline, as \<open>errors.Is\<close> sees it through the wrapped ones, and its text.\<close>

fun chain_error_text :: "chain_error \<Rightarrow> llm_error" where
  "chain_error_text NoCandidates = (False, ''fallback: no candidates configured'')"
| "chain_error_text ContextCanceled = (False, error_text Canceled)"
| "chain_error_text (Unclassified p m e) =
     (e = DeadlineExceeded, ''fallback: unclassified error from '' @ p @ ''/'' @ m @ '': '' @ error_text e)"
| "chain_error_text (NonRetriable f) = (fe_Wrapped f = DeadlineExceeded, failover_text f)"
| "chain_error_text (FallbackExhausted atts) =
     (False, ''fallback: all '' @ show_nat (length atts) @ '' candidates failed:'' @
        concat (map attempt_line (zip [0..<length atts] atts)))"

section \<open>The choice and the call\<close>

record model_options =
  mo_Model :: gostr
  mo_Candidates :: "fallback_candidate list"
  mo_Router :: "router option"
  mo_LightCandidates :: "fallback_candidate list"

definition select_candidates :: "model_options \<Rightarrow> runes \<Rightarrow> 'v message list \<Rightarrow> fallback_candidate list \<times> gostr" where
  "select_candidates mo userMsg history =
     (case mo_Router mo of
        None \<Rightarrow> (mo_Candidates mo, mo_Model mo)
      | Some r \<Rightarrow>
          if mo_LightCandidates mo = [] then (mo_Candidates mo, mo_Model mo)
          else if fst (snd (select_model r userMsg history (mo_Model mo)))
          then (mo_LightCandidates mo, rcf_LightModel (rt_cfg r))
          else (mo_Candidates mo, mo_Model mo))"

type_synonym ('v, 'p, 'w) chat =
  "'v message list \<Rightarrow> 'p tool_definition list \<Rightarrow> gostr \<Rightarrow> 'w \<Rightarrow> 'w \<times> (go_error + 'v llm_response)"

definition chat_env ::
  "('v, 'p, 'w) chat \<Rightarrow> ('w \<Rightarrow> bool) \<Rightarrow> ('w \<Rightarrow> int) \<Rightarrow> 'v message list \<Rightarrow> 'p tool_definition list \<Rightarrow> ('w, 'v llm_response) chain_env" where
  "chat_env chat canceled now messages defs = chain_env.make (\<lambda>w provider model. chat messages defs model w) canceled now"

text \<open>\<open>callLLM\<close>: the chain when there is more than one candidate, else the provider with the model.\<close>

definition call_llm ::
  "('v, 'p, 'w) chat \<Rightarrow> ('w \<Rightarrow> bool) \<Rightarrow> ('w \<Rightarrow> int) \<Rightarrow> fallback_candidate list \<times> gostr \<Rightarrow> 'v message list \<Rightarrow>
   'p tool_definition list \<Rightarrow> cooldown_tracker \<times> 'w \<Rightarrow> (llm_error + 'v llm_response) \<times> cooldown_tracker \<times> 'w" where
  "call_llm chat canceled now active messages defs st =
     (case active of (cands, model) \<Rightarrow> case st of (ct, w) \<Rightarrow>
        if 1 < length cands
        then (case execute (chat_env chat canceled now messages defs) cands ct w of
                (Inr r, ct', w') \<Rightarrow> (Inr (fr_Response r), ct', w')
              | (Inl e, ct', w') \<Rightarrow> (Inl (chain_error_text e), ct', w'))
        else (case chat messages defs model w of
                (w', Inr r) \<Rightarrow> (Inr r, ct, w')
              | (w', Inl e) \<Rightarrow> (Inl (e = DeadlineExceeded, error_text e), ct, w')))"

section \<open>After the chain is exhausted\<close>

text \<open>A provider that failed in the loop, or was skipped because of that, is cooling afterwards.\<close>

lemma execute_loop_exhausted_cooling:
  assumes mono: "clock_mono env"
    and run: "execute_loop env cs atts ct w = (Inl (FallbackExhausted all), ct', w')"
    and fast: "chain_env.env_now env w' < until" "until \<le> chain_env.env_now env w + seconds 60"
    and cool: "cooling ct (chain_env.env_now env w) until (called atts)"
    and free: "\<forall>c \<in> set cs. fc_Provider c \<notin> set (called atts) \<longrightarrow> (\<forall>now. is_available ct now (fc_Provider c))"
  shows "cooling ct' (chain_env.env_now env w') until (called atts @ map fc_Provider cs)"
  using run fast cool free
proof (induction cs arbitrary: atts ct w)
  case Nil
  then show ?case by simp
next
  case (Cons c cs)
  note step = Cons.prems(1)
  have now: "chain_env.env_now env w \<le> chain_env.env_now env w'" by (rule execute_loop_clock [OF mono step])
  from step show ?case
  proof (cases rule: execute_loop_step)
    case skip
    then have known: "fc_Provider c \<in> set (called atts)" using Cons.prems(5) by auto
    have same: "called (atts @ [skipped_attempt ct (chain_env.env_now env w) c]) = called atts"
      by (simp add: skipped_attempt_def)
    have "cooling ct' (chain_env.env_now env w') until (called (atts @ [skipped_attempt ct (chain_env.env_now env w) c]) @ map fc_Provider cs)"
      by (rule Cons.IH [OF skip(2) Cons.prems(2,3)]) (use Cons.prems(4,5) in \<open>auto simp only: same set_simps ball_simps\<close>)
    with known show ?thesis by (auto simp: same cooling_def)
  next
    case (failed w1 err f)
    let ?a = "failed_attempt c (Classified f) (Some (fe_Reason f)) (chain_env.env_now env w1 - chain_env.env_now env w)"
    let ?ct = "mark_failure ct (chain_env.env_now env w1) (fc_Provider c) (fe_Reason f)"
    have t: "chain_env.env_now env w \<le> chain_env.env_now env w1" using mono failed(2) by (rule clock_monoD)
    have u: "until \<le> chain_env.env_now env w1 + seconds 60" using Cons.prems(3) t by simp
    have called_a: "called (atts @ [?a]) = called atts @ [fc_Provider c]" by (simp add: failed_attempt_def)
    have "cooling ct' (chain_env.env_now env w') until (called (atts @ [?a]) @ map fc_Provider cs)"
    proof (rule Cons.IH [OF failed(5) Cons.prems(2) u])
      show "cooling ?ct (chain_env.env_now env w1) until (called (atts @ [?a]))"
        unfolding called_a by (rule cooling_mark_failure [OF Cons.prems(4) t u])
      show "\<forall>d \<in> set cs. fc_Provider d \<notin> set (called (atts @ [?a])) \<longrightarrow> (\<forall>now. is_available ?ct now (fc_Provider d))"
        unfolding called_a using Cons.prems(5) by (auto simp: tracker.fail_other)
    qed
    then show ?thesis unfolding called_a by simp
  qed auto
qed

text \<open>When every provider is cooling the chain only records that, and calls nobody.\<close>

lemma execute_loop_all_cooling:
  assumes "\<forall>c \<in> set cs. \<not> is_available ct (chain_env.env_now env w) (fc_Provider c)" "\<not> env_canceled env w"
  shows "execute_loop env cs atts ct w =
    (Inl (FallbackExhausted (atts @ map (skipped_attempt ct (chain_env.env_now env w)) cs)), ct, w)"
  using assms by (induction cs arbitrary: atts) auto

section \<open>Properties\<close>

text \<open>
  The retries of a turn are futile after a failed chain: when every candidate has failed, another
  call within a minute of the start, such as the two after a back-off of five and ten seconds, calls no
  provider; its error only says that all were skipped, so it is neither a timeout nor what went wrong.
\<close>

theorem retry_after_exhaustion_futile:
  assumes mono: "\<And>m w. now w \<le> now (fst (chat messages defs m w))"
    and free: "\<And>c t. c \<in> set cands \<Longrightarrow> is_available ct t (fc_Provider c)"
    and first: "execute (chat_env chat canceled now messages defs) cands ct w = (Inl (FallbackExhausted atts), ct', w')"
    and several: "1 < length cands"
    and later: "now w' \<le> now w2" "now w2 < now w + seconds 60" "\<not> canceled w2"
  shows "\<exists>skipped. call_llm chat canceled now (cands, model) messages2 defs2 (ct', w2) =
      (Inl (chain_error_text (FallbackExhausted skipped)), ct', w2) \<and> list_all fa_Skipped skipped"
proof -
  let ?env = "chat_env chat canceled now messages defs"
  let ?env2 = "chat_env chat canceled now messages2 defs2"
  have sel: "chain_env.env_now ?env = now" "chain_env.env_now ?env2 = now" "env_canceled ?env2 = canceled"
    by (simp_all add: chat_env_def chain_env.defs)
  have cm: "clock_mono ?env" using mono by (simp add: clock_mono_def chat_env_def chain_env.defs)
  have loop: "execute_loop ?env cands [] ct w = (Inl (FallbackExhausted atts), ct', w')"
    using first several by (auto simp: execute_def split: if_splits)
  have "cooling ct' (now w') (now w + seconds 60) (map fc_Provider cands)"
    using execute_loop_exhausted_cooling [OF cm loop, of "now w + seconds 60"] later free
    by (simp add: sel cooling_def)
  then have "\<forall>c \<in> set cands. \<not> is_available ct' (chain_env.env_now ?env2 w2) (fc_Provider c)"
    using later by (auto simp: cooling_def sel)
  from execute_loop_all_cooling [OF this] later(3) sel(3)
  have "execute ?env2 cands ct' w2 = (Inl (FallbackExhausted (map (skipped_attempt ct' (now w2)) cands)), ct', w2)"
    using several by (auto simp: execute_def sel)
  then show ?thesis
    using several by (intro exI [of _ "map (skipped_attempt ct' (now w2)) cands"])
      (auto simp: call_llm_def list_all_iff skipped_attempt_def)
qed

text \<open>A provider that always times out, after a second.\<close>

definition slow_chat :: "(nat, unit, int) chat" where
  "slow_chat messages defs model w = (w + seconds 1, Inl DeadlineExceeded)"

theorem retry_after_exhaustion_futile_witness:
  "\<exists>ct' skipped. call_llm slow_chat (\<lambda>_. False) id (two_cands, ''m'') [] [] (ct', seconds 7) =
      (Inl (chain_error_text (FallbackExhausted skipped)), ct', seconds 7) \<and> list_all fa_Skipped skipped"
proof -
  let ?out = "execute (chat_env slow_chat (\<lambda>_. False) id [] []) two_cands new_cooldown_tracker 0"
  have "case fst ?out of Inl (FallbackExhausted atts) \<Rightarrow> True | _ \<Rightarrow> False" by code_simp
  then obtain atts ct' w' where out: "?out = (Inl (FallbackExhausted atts), ct', w')"
    by (cases ?out) (auto split: sum.splits chain_error.splits)
  have "snd (snd ?out) = seconds 2" by code_simp
  then have w': "w' = seconds 2" by (simp only: out snd_conv)
  have mono: "\<And>m w. id w \<le> id (fst (slow_chat [] [] m w))" by (simp add: slow_chat_def)
  have free: "\<And>c t. c \<in> set two_cands \<Longrightarrow> is_available new_cooldown_tracker t (fc_Provider c)"
    by (auto simp: is_available_def new_cooldown_tracker_def)
  have "\<exists>skipped. call_llm slow_chat (\<lambda>_. False) id (two_cands, ''m'') [] [] (ct', seconds 7) =
      (Inl (chain_error_text (FallbackExhausted skipped)), ct', seconds 7) \<and> list_all fa_Skipped skipped"
    by (rule retry_after_exhaustion_futile [OF mono free out]) (simp_all add: w')
  then show ?thesis by blast
qed

text \<open>
  Switching the model has no effect for an agent with fallbacks: with more than one candidate
  every call of the model is the same whatever model the agent is set to, although \<open>/switch model\<close>
  answers that it was switched.
\<close>

theorem switch_model_ignored:
  assumes "1 < length (mo_Candidates mo)"
  shows "call_llm chat canceled now (select_candidates (mo\<lparr>mo_Model := m\<rparr>) userMsg history) messages defs st =
    call_llm chat canceled now (select_candidates mo userMsg history) messages defs st"
  using assms by (auto simp: select_candidates_def call_llm_def select_model_def Let_def split: option.splits prod.splits)

theorem switch_model_ignored_witness:
  "call_llm slow_chat (\<lambda>_. False) id
      (select_candidates \<lparr>mo_Model = ''new'', mo_Candidates = two_cands, mo_Router = None, mo_LightCandidates = []\<rparr> [] ([] :: nat message list))
      [] [] (new_cooldown_tracker, 0) =
    call_llm slow_chat (\<lambda>_. False) id
      (select_candidates \<lparr>mo_Model = ''old'', mo_Candidates = two_cands, mo_Router = None, mo_LightCandidates = []\<rparr> [] ([] :: nat message list))
      [] [] (new_cooldown_tracker, 0)"
  using switch_model_ignored [of "\<lparr>mo_Model = ''old'', mo_Candidates = two_cands, mo_Router = None, mo_LightCandidates = []\<rparr>"
      slow_chat "\<lambda>_. False" id "''new''" "[]" "[]" "[]" "[]" "(new_cooldown_tracker, 0)"] by simp

end
