(* ===== verification/Commands.thy ===== *)
theory Commands imports Prelude begin

text \<open>
  Slash commands, \<open>pkg/commands\<close>: parsing a message as a command, the registry of commands, the
  executor with its sub-commands, and the built-in commands with their handlers.

  A handler runs on a state \<open>'s\<close> of its caller: it answers through the \<open>Reply\<close> of the request and
  reaches the rest through the fields of the runtime, each of which may be missing. It returns an
  error, as text, or \<open>None\<close>.
\<close>

section \<open>Requests\<close>

record 's request =
  rq_Channel :: gostr
  rq_ChatID :: gostr
  rq_SenderID :: gostr
  rq_Text :: gostr
  rq_Reply :: "(gostr \<Rightarrow> 's \<Rightarrow> gostr option \<times> 's) option"

definition reply :: "'s request \<Rightarrow> gostr \<Rightarrow> 's \<Rightarrow> gostr option \<times> 's" where
  "reply req t s = (case rq_Reply req of None \<Rightarrow> (None, s) | Some f \<Rightarrow> f t s)"

definition unavailable_msg :: gostr where
  "unavailable_msg = ''Command unavailable in current context.''"

text \<open>\<open>strings.Fields\<close> and \<open>strings.Join\<close>.\<close>

function fields :: "gostr \<Rightarrow> gostr list" where
  "fields s =
     (let t = dropWhile is_space s
      in if t = [] then []
         else takeWhile (\<lambda>c. \<not> is_space c) t # fields (dropWhile (\<lambda>c. \<not> is_space c) t))"
  by pat_completeness auto

termination
proof (relation "measure length")
  fix s x assume x: "x = dropWhile is_space s" "x \<noteq> []"
  then have "\<not> is_space (hd x)" by (metis hd_dropWhile)
  with x(2) have "length (dropWhile (\<lambda>c. \<not> is_space c) x) < length x"
    by (cases x) (auto simp: le_imp_less_Suc length_dropWhile_le)
  also have "\<dots> \<le> length s" by (simp add: x(1) length_dropWhile_le)
  finally show "(dropWhile (\<lambda>c. \<not> is_space c) x, s) \<in> measure length" by simp
qed simp

declare fields.simps [simp del]

fun join_with :: "gostr \<Rightarrow> gostr list \<Rightarrow> gostr" where
  "join_with sep [] = []"
| "join_with sep [x] = x"
| "join_with sep (x # y # xs) = x @ sep @ join_with sep (y # xs)"

definition nth_token :: "gostr \<Rightarrow> nat \<Rightarrow> gostr" where
  "nth_token input n = (let parts = fields (trim_space input) in if length parts \<le> n then [] else parts ! n)"

definition trim_command_prefix :: "gostr \<Rightarrow> gostr option" where
  "trim_command_prefix token =
     (if has_prefix token ''/'' then Some (trim_prefix token ''/'')
      else if has_prefix token ''!'' then Some (trim_prefix token ''!'') else None)"

definition normalize_command_name :: "gostr \<Rightarrow> gostr" where
  "normalize_command_name name = to_lower (trim_space name)"

definition parse_command_name :: "gostr \<Rightarrow> gostr option" where
  "parse_command_name input =
     (let token = nth_token input 0
      in if token = [] then None
         else (case trim_command_prefix token of
                 None \<Rightarrow> None
               | Some name \<Rightarrow>
                   let name' = normalize_command_name
                         (case index_char name CHR ''@'' of None \<Rightarrow> name | Some i \<Rightarrow> take i name)
                   in if name' = [] then None else Some name'))"

definition has_command_prefix :: "gostr \<Rightarrow> bool" where
  "has_command_prefix input =
     (let token = nth_token input 0 in token \<noteq> [] \<and> trim_command_prefix token \<noteq> None)"

section \<open>Definitions and their registry\<close>

record 'h sub_command =
  sub_Name :: gostr
  sub_Description :: gostr
  sub_ArgsUsage :: gostr
  sub_Handler :: "'h option"

record 'h command_def =
  cmd_Name :: gostr
  cmd_Description :: gostr
  cmd_Usage :: gostr
  cmd_Aliases :: "gostr list"
  cmd_SubCommands :: "'h sub_command list"
  cmd_Handler :: "'h option"

definition effective_usage :: "'h command_def \<Rightarrow> gostr" where
  "effective_usage d =
     (if cmd_SubCommands d = [] then cmd_Usage d
      else ''/'' @ cmd_Name d @ '' ['' @
           join_with ''|'' (map (\<lambda>sc. sub_Name sc @ (if sub_ArgsUsage sc \<noteq> [] then '' '' @ sub_ArgsUsage sc else []))
             (cmd_SubCommands d)) @ '']'')"

record 'h command_registry =
  cr_defs :: "'h command_def list"
  cr_index :: "gostr \<rightharpoonup> nat"

definition register_command_name :: "gostr \<Rightarrow> nat \<Rightarrow> (gostr \<rightharpoonup> nat) \<Rightarrow> (gostr \<rightharpoonup> nat)" where
  "register_command_name name i index =
     (let key = normalize_command_name name
      in if key = [] then index
         else (case index key of Some _ \<Rightarrow> index | None \<Rightarrow> index(key \<mapsto> i)))"

text \<open>Each definition registers its name and then its aliases, under its position.\<close>

definition register_definition :: "nat \<times> 'h command_def \<Rightarrow> (gostr \<rightharpoonup> nat) \<Rightarrow> (gostr \<rightharpoonup> nat)" where
  "register_definition e index =
     (case e of (i, d) \<Rightarrow>
        fold (\<lambda>al ix. register_command_name al i ix) (cmd_Aliases d) (register_command_name (cmd_Name d) i index))"

definition new_command_registry :: "'h command_def list \<Rightarrow> 'h command_registry" where
  "new_command_registry defs =
     \<lparr>cr_defs = defs, cr_index = fold register_definition (zip [0..<length defs] defs) Map.empty\<rparr>"

definition lookup_command :: "'h command_registry \<Rightarrow> gostr \<Rightarrow> 'h command_def option" where
  "lookup_command reg name =
     (let key = normalize_command_name name
      in if key = [] then None
         else (case cr_index reg key of None \<Rightarrow> None | Some i \<Rightarrow> Some (cr_defs reg ! i)))"

section \<open>The executor\<close>

record 's runtime =
  rt_GetModelInfo :: "('s \<Rightarrow> gostr \<times> gostr) option"
  rt_ListAgentIDs :: "('s \<Rightarrow> gostr list) option"
  rt_ListDefinitions :: "unit command_def list option"
  rt_GetEnabledChannels :: "('s \<Rightarrow> gostr list) option"
  rt_SwitchModel :: "(gostr \<Rightarrow> 's \<Rightarrow> (gostr + gostr) \<times> 's) option"
  rt_SwitchChannel :: "(gostr \<Rightarrow> 's \<Rightarrow> gostr option) option"
  rt_ClearHistory :: "('s \<Rightarrow> gostr option \<times> 's) option"

type_synonym 's handler = "'s request \<Rightarrow> 's runtime option \<Rightarrow> 's \<Rightarrow> gostr option \<times> 's"

datatype outcome = OutcomePassthrough | OutcomeHandled

record execute_result =
  er_Outcome :: outcome
  er_Command :: gostr
  er_Err :: "gostr option"

definition handled :: "gostr \<Rightarrow> gostr option \<times> 's \<Rightarrow> execute_result \<times> 's" where
  "handled name r = (\<lparr>er_Outcome = OutcomeHandled, er_Command = name, er_Err = fst r\<rparr>, snd r)"

definition passthrough :: "gostr \<Rightarrow> 's \<Rightarrow> execute_result \<times> 's" where
  "passthrough name s = (\<lparr>er_Outcome = OutcomePassthrough, er_Command = name, er_Err = None\<rparr>, s)"

definition execute_definition ::
  "'s runtime option \<Rightarrow> 's request \<Rightarrow> 's handler command_def \<Rightarrow> 's \<Rightarrow> execute_result \<times> 's" where
  "execute_definition rt req d s =
     (if cmd_SubCommands d = []
      then (case cmd_Handler d of
              None \<Rightarrow> passthrough (cmd_Name d) s
            | Some h \<Rightarrow> handled (cmd_Name d) (h req rt s))
      else
        let subName = nth_token (rq_Text req) 1
        in if subName = [] then handled (cmd_Name d) (reply req (''Usage: '' @ effective_usage d) s)
           else (case find (\<lambda>sc. normalize_command_name (sub_Name sc) = normalize_command_name subName) (cmd_SubCommands d) of
                   Some sc \<Rightarrow> (case sub_Handler sc of
                                None \<Rightarrow> passthrough (cmd_Name d) s
                              | Some h \<Rightarrow> handled (cmd_Name d) (h req rt s))
                 | None \<Rightarrow> handled (cmd_Name d)
                     (reply req (''Unknown option: '' @ subName @ ''. Usage: '' @ effective_usage d) s)))"

text \<open>\<open>Execute\<close>; the registry may be missing.\<close>

definition execute_command ::
  "'s handler command_registry option \<Rightarrow> 's runtime option \<Rightarrow> 's request \<Rightarrow> 's \<Rightarrow> execute_result \<times> 's" where
  "execute_command reg rt req s =
     (case parse_command_name (rq_Text req) of
        None \<Rightarrow> passthrough [] s
      | Some name \<Rightarrow>
          (case Option.bind reg (\<lambda>r. lookup_command r name) of
             None \<Rightarrow> passthrough name s
           | Some d \<Rightarrow> execute_definition rt req d s))"

section \<open>The built-in commands\<close>

text \<open>The field of a runtime that may be missing.\<close>

abbreviation dep :: "'s runtime option \<Rightarrow> ('s runtime \<Rightarrow> 'f option) \<Rightarrow> 'f option" where
  "dep rt field \<equiv> Option.bind rt field"

definition start_handler :: "'s handler" where
  "start_handler req rt s = reply req ''Hello! I am NookClaw.'' s"

definition newline :: gostr where
  "newline = [CHR 0x0A]"

definition format_help_message :: "'h command_def list \<Rightarrow> gostr" where
  "format_help_message defs =
     (if defs = [] then ''No commands available.''
      else join_with newline
        (map (\<lambda>d. (if effective_usage d = [] then ''/'' @ cmd_Name d else effective_usage d) @ '' - '' @
                  (if cmd_Description d = [] then ''No description'' else cmd_Description d)) defs))"

text \<open>The help of the built-in commands themselves is the argument \<open>builtin\<close>.\<close>

definition help_handler :: "unit command_def list \<Rightarrow> 's handler" where
  "help_handler builtin req rt s =
     reply req (format_help_message (case dep rt rt_ListDefinitions of Some defs \<Rightarrow> defs | None \<Rightarrow> builtin)) s"

definition show_model_handler :: "'s handler" where
  "show_model_handler req rt s =
     (case dep rt rt_GetModelInfo of
        None \<Rightarrow> reply req unavailable_msg s
      | Some f \<Rightarrow> (case f s of (name, provider) \<Rightarrow>
          reply req (''Current Model: '' @ name @ '' (Provider: '' @ provider @ '')'') s))"

definition show_channel_handler :: "'s handler" where
  "show_channel_handler req rt s = reply req (''Current Channel: '' @ rq_Channel req) s"

definition agents_handler :: "'s handler" where
  "agents_handler req rt s =
     (case dep rt rt_ListAgentIDs of
        None \<Rightarrow> reply req unavailable_msg s
      | Some f \<Rightarrow> reply req (if f s = [] then ''No agents registered''
                           else ''Registered agents: '' @ join_with '', '' (f s)) s)"

definition list_models_handler :: "'s handler" where
  "list_models_handler req rt s =
     (case dep rt rt_GetModelInfo of
        None \<Rightarrow> reply req unavailable_msg s
      | Some f \<Rightarrow> (case f s of (name, provider) \<Rightarrow>
          reply req (''Configured Model: '' @ name @ newline @ ''Provider: '' @
            (if provider = [] then ''configured default'' else provider) @ newline @ newline @
            ''To change models, update config.json'') s))"

definition list_channels_handler :: "'s handler" where
  "list_channels_handler req rt s =
     (case dep rt rt_GetEnabledChannels of
        None \<Rightarrow> reply req unavailable_msg s
      | Some f \<Rightarrow> reply req (if f s = [] then ''No channels enabled''
                           else ''Enabled Channels:'' @ newline @ ''- '' @ join_with (newline @ ''- '') (f s)) s)"

definition switch_model_handler :: "'s handler" where
  "switch_model_handler req rt s =
     (case dep rt rt_SwitchModel of
        None \<Rightarrow> reply req unavailable_msg s
      | Some f \<Rightarrow>
          let value = nth_token (rq_Text req) 3
          in if nth_token (rq_Text req) 2 \<noteq> ''to'' \<or> value = []
             then reply req ''Usage: /switch model to <name>'' s
             else (case f value s of
                     (Inl e, s') \<Rightarrow> reply req e s'
                   | (Inr old, s') \<Rightarrow> reply req (''Switched model from '' @ old @ '' to '' @ value) s'))"

definition switch_channel_handler :: "'s handler" where
  "switch_channel_handler req rt s =
     reply req ''This command has moved. Please use: /check channel <name>'' s"

definition check_channel_handler :: "'s handler" where
  "check_channel_handler req rt s =
     (case dep rt rt_SwitchChannel of
        None \<Rightarrow> reply req unavailable_msg s
      | Some f \<Rightarrow>
          let value = nth_token (rq_Text req) 2
          in if value = [] then reply req ''Usage: /check channel <name>'' s
             else (case f value s of
                     Some e \<Rightarrow> reply req e s
                   | None \<Rightarrow> reply req (''Channel '' @ [CHR 0x27] @ value @ [CHR 0x27] @ '' is available and enabled'') s))"

definition clear_handler :: "'s handler" where
  "clear_handler req rt s =
     (case dep rt rt_ClearHistory of
        None \<Rightarrow> reply req unavailable_msg s
      | Some f \<Rightarrow> (case f s of
          (Some e, s') \<Rightarrow> reply req (''Failed to clear chat history: '' @ e) s'
        | (None, s') \<Rightarrow> reply req ''Chat history cleared!'' s'))"

section \<open>Their definitions\<close>

definition start_command :: "'s handler command_def" where
  "start_command =
     \<lparr>cmd_Name = ''start'', cmd_Description = ''Start the bot'', cmd_Usage = ''/start'', cmd_Aliases = [],
      cmd_SubCommands = [], cmd_Handler = Some start_handler\<rparr>"

definition help_command :: "unit command_def list \<Rightarrow> 's handler command_def" where
  "help_command builtin =
     \<lparr>cmd_Name = ''help'', cmd_Description = ''Show this help message'', cmd_Usage = ''/help'', cmd_Aliases = [],
      cmd_SubCommands = [], cmd_Handler = Some (help_handler builtin)\<rparr>"

definition show_command :: "'s handler command_def" where
  "show_command =
     \<lparr>cmd_Name = ''show'', cmd_Description = ''Show current configuration'', cmd_Usage = [], cmd_Aliases = [],
      cmd_SubCommands = [
        \<lparr>sub_Name = ''model'', sub_Description = ''Current model and provider'', sub_ArgsUsage = [], sub_Handler = Some show_model_handler\<rparr>,
        \<lparr>sub_Name = ''channel'', sub_Description = ''Current channel'', sub_ArgsUsage = [], sub_Handler = Some show_channel_handler\<rparr>,
        \<lparr>sub_Name = ''agents'', sub_Description = ''Registered agents'', sub_ArgsUsage = [], sub_Handler = Some agents_handler\<rparr>], cmd_Handler = None\<rparr>"

definition list_command :: "'s handler command_def" where
  "list_command =
     \<lparr>cmd_Name = ''list'', cmd_Description = ''List available options'', cmd_Usage = [], cmd_Aliases = [],
      cmd_SubCommands = [
        \<lparr>sub_Name = ''models'', sub_Description = ''Configured models'', sub_ArgsUsage = [], sub_Handler = Some list_models_handler\<rparr>,
        \<lparr>sub_Name = ''channels'', sub_Description = ''Enabled channels'', sub_ArgsUsage = [], sub_Handler = Some list_channels_handler\<rparr>,
        \<lparr>sub_Name = ''agents'', sub_Description = ''Registered agents'', sub_ArgsUsage = [], sub_Handler = Some agents_handler\<rparr>], cmd_Handler = None\<rparr>"

definition switch_command :: "'s handler command_def" where
  "switch_command =
     \<lparr>cmd_Name = ''switch'', cmd_Description = ''Switch model'', cmd_Usage = [], cmd_Aliases = [],
      cmd_SubCommands = [
        \<lparr>sub_Name = ''model'', sub_Description = ''Switch to a different model'', sub_ArgsUsage = ''to <name>'', sub_Handler = Some switch_model_handler\<rparr>,
        \<lparr>sub_Name = ''channel'', sub_Description = ''Moved to /check channel'', sub_ArgsUsage = [], sub_Handler = Some switch_channel_handler\<rparr>], cmd_Handler = None\<rparr>"

definition check_command :: "'s handler command_def" where
  "check_command =
     \<lparr>cmd_Name = ''check'', cmd_Description = ''Check channel availability'', cmd_Usage = [], cmd_Aliases = [],
      cmd_SubCommands = [
        \<lparr>sub_Name = ''channel'', sub_Description = ''Check if a channel is available'', sub_ArgsUsage = ''<name>'', sub_Handler = Some check_channel_handler\<rparr>], cmd_Handler = None\<rparr>"

definition clear_command :: "'s handler command_def" where
  "clear_command =
     \<lparr>cmd_Name = ''clear'', cmd_Description = ''Clear the chat history'', cmd_Usage = ''/clear'', cmd_Aliases = [],
      cmd_SubCommands = [], cmd_Handler = Some clear_handler\<rparr>"

text \<open>The help of the built-in list shows the list itself, for which handlers do not matter.\<close>

definition builtin_definitions_for :: "unit command_def list \<Rightarrow> 's handler command_def list" where
  "builtin_definitions_for builtin =
     [start_command, help_command builtin, show_command, list_command, switch_command, check_command, clear_command]"

definition without_handlers :: "'h command_def \<Rightarrow> unit command_def" where
  "without_handlers d =
     \<lparr>cmd_Name = cmd_Name d, cmd_Description = cmd_Description d, cmd_Usage = cmd_Usage d, cmd_Aliases = cmd_Aliases d,
      cmd_SubCommands = map (\<lambda>sc. \<lparr>sub_Name = sub_Name sc, sub_Description = sub_Description sc,
                                   sub_ArgsUsage = sub_ArgsUsage sc, sub_Handler = None\<rparr>) (cmd_SubCommands d),
      cmd_Handler = None\<rparr>"

definition builtin_definitions :: "'s handler command_def list" where
  "builtin_definitions = builtin_definitions_for (map without_handlers (builtin_definitions_for [] :: unit handler command_def list))"

definition builtin_registry :: "'s handler command_registry" where
  "builtin_registry = new_command_registry builtin_definitions"

section \<open>Lookup finds the first definition\<close>

definition names_command :: "gostr \<Rightarrow> 'h command_def \<Rightarrow> bool" where
  "names_command key d \<longleftrightarrow> key \<in> normalize_command_name ` set (cmd_Name d # cmd_Aliases d)"

lemma register_name_index:
  assumes "key \<noteq> []"
  shows "register_command_name name i index key =
    (case index key of Some j \<Rightarrow> Some j | None \<Rightarrow> if normalize_command_name name = key then Some i else None)"
  using assms by (auto simp: register_command_name_def Let_def split: option.splits)

lemma register_definition_index:
  assumes "key \<noteq> []"
  shows "register_definition (i, d) index key =
    (case index key of Some j \<Rightarrow> Some j | None \<Rightarrow> if names_command key d then Some i else None)"
proof -
  have "fold (\<lambda>al ix. register_command_name al i ix) as index key =
      (case index key of Some j \<Rightarrow> Some j | None \<Rightarrow> if key \<in> normalize_command_name ` set as then Some i else None)" for as index
    by (induction as arbitrary: index) (auto simp: register_name_index [OF assms] split: option.splits)
  from this [of "cmd_Aliases d" "register_command_name (cmd_Name d) i index"] show ?thesis
    by (auto simp: register_definition_def names_command_def register_name_index [OF assms] split: option.splits)
qed

lemma register_definitions_index:
  assumes "key \<noteq> []"
  shows "fold register_definition (zip [n..<n + length ds] ds) index key =
    (case index key of Some j \<Rightarrow> Some j
     | None \<Rightarrow> if \<exists>d \<in> set ds. names_command key d
             then Some (n + length (takeWhile (\<lambda>d. \<not> names_command key d) ds)) else None)"
proof (induction ds arbitrary: n index)
  case (Cons d ds)
  have "zip [n..<n + length (d # ds)] (d # ds) = (n, d) # zip [Suc n..<Suc n + length ds] ds"
    by (simp add: upt_conv_Cons del: upt_Suc)
  then show ?case
    by (simp only: fold_simps Cons.IH) (auto simp: register_definition_index [OF assms] split: option.splits)
qed (auto split: option.splits)

text \<open>
  A command is found by its name or an alias, in any case and with spaces around it, and the
  first definition that has the name wins, as a search of the list from the front would find it.
\<close>

theorem lookup_first:
  "lookup_command (new_command_registry defs) name =
     (if normalize_command_name name = [] then None
      else find (names_command (normalize_command_name name)) defs)"
proof (cases "normalize_command_name name = []")
  case False
  have find: "find P xs = (if \<exists>x \<in> set xs. P x then Some (xs ! length (takeWhile (\<lambda>x. \<not> P x) xs)) else None)"
    for P :: "'a command_def \<Rightarrow> bool" and xs by (induction xs) auto
  show ?thesis
    using register_definitions_index [OF False, of 0 defs Map.empty] False
    by (simp add: lookup_command_def new_command_registry_def find split del: if_split) (simp split: option.splits)
qed (simp add: lookup_command_def)

section \<open>What a command does\<close>

lemma normalize_command_name_idem [simp]:
  "normalize_command_name (normalize_command_name n) = normalize_command_name n"
  by (simp add: normalize_command_name_def flip: to_lower_trim_space)

lemma parse_command_name_normalized:
  "parse_command_name input = Some name \<Longrightarrow> normalize_command_name name = name \<and> name \<noteq> []"
  by (auto simp: parse_command_name_def Let_def split: if_splits option.splits)

text \<open>A reply that is recorded, and a runtime whose callbacks leave the record alone.\<close>

definition log_reply :: "gostr \<Rightarrow> gostr list \<times> 'a \<Rightarrow> gostr option \<times> gostr list \<times> 'a" where
  "log_reply t s = (None, fst s @ [t], snd s)"

definition quiet_runtime :: "(gostr list \<times> 'a) runtime option \<Rightarrow> bool" where
  "quiet_runtime rt \<longleftrightarrow>
     (\<forall>f v s. dep rt rt_SwitchModel = Some f \<longrightarrow> fst (snd (f v s)) = fst s) \<and>
     (\<forall>f s. dep rt rt_ClearHistory = Some f \<longrightarrow> fst (snd (f s)) = fst s)"

definition replies_once :: "(gostr list \<times> 'a) handler \<Rightarrow> bool" where
  "replies_once h \<longleftrightarrow>
     (\<forall>req rt s. rq_Reply req = Some log_reply \<longrightarrow> quiet_runtime rt \<longrightarrow>
        fst (h req rt s) = None \<and> (\<exists>t. fst (snd (h req rt s)) = fst s @ [t]))"

lemma replies_onceD:
  assumes "replies_once h" "rq_Reply req = Some log_reply" "quiet_runtime rt" "handled name (h req rt s) = (res, s')"
  shows "er_Outcome res = OutcomeHandled \<and> er_Err res = None \<and> (\<exists>t. fst s' = fst s @ [t])"
proof -
  have "fst (h req rt s) = None \<and> (\<exists>t. fst (snd (h req rt s)) = fst s @ [t])"
    using assms(1-3) unfolding replies_once_def by blast
  with assms(4) show ?thesis by (auto simp: handled_def)
qed

named_theorems handler_defs

lemmas builtin_handler_defs [handler_defs] =
  start_handler_def help_handler_def show_model_handler_def show_channel_handler_def agents_handler_def
  list_models_handler_def list_channels_handler_def switch_model_handler_def switch_channel_handler_def
  check_channel_handler_def clear_handler_def

lemma reply_log: "rq_Reply req = Some log_reply \<Longrightarrow> reply req t s = (None, fst s @ [t], snd s)"
  by (simp add: reply_def log_reply_def)

lemma quiet_runtimeD:
  assumes "quiet_runtime rt"
  shows "dep rt rt_SwitchModel = Some f \<Longrightarrow> f v s = (r, s') \<Longrightarrow> fst s' = fst s"
    "dep rt rt_ClearHistory = Some g \<Longrightarrow> g s = (e, s') \<Longrightarrow> fst s' = fst s"
  using assms unfolding quiet_runtime_def by (metis snd_conv)+

lemma handlers_reply_once [simp]:
  "replies_once start_handler" "replies_once (help_handler b)" "replies_once show_model_handler"
  "replies_once show_channel_handler" "replies_once agents_handler" "replies_once list_models_handler"
  "replies_once list_channels_handler" "replies_once switch_channel_handler" "replies_once check_channel_handler"
  by (auto simp: replies_once_def handler_defs reply_log Let_def split: option.splits prod.splits)

lemma changing_handlers_reply_once [simp]:
  "replies_once switch_model_handler" "replies_once clear_handler"
  by (auto simp: replies_once_def handler_defs reply_log Let_def dest: quiet_runtimeD
      split: option.splits prod.splits sum.splits)

definition has_handlers :: "(gostr list \<times> 'a) handler command_def \<Rightarrow> bool" where
  "has_handlers d \<longleftrightarrow>
     (if cmd_SubCommands d = [] then \<exists>h. cmd_Handler d = Some h \<and> replies_once h
      else \<forall>sc \<in> set (cmd_SubCommands d). \<exists>h. sub_Handler sc = Some h \<and> replies_once h)"

lemmas builtin_command_defs =
  start_command_def help_command_def show_command_def list_command_def switch_command_def check_command_def clear_command_def

lemma builtin_has_handlers: "d \<in> set builtin_definitions \<Longrightarrow> has_handlers d"
  by (auto simp: builtin_definitions_def builtin_definitions_for_def builtin_command_defs has_handlers_def)

lemma execute_definition_once:
  assumes "has_handlers d" "rq_Reply req = Some log_reply" "quiet_runtime rt" "execute_definition rt req d s = (res, s')"
  shows "er_Outcome res = OutcomeHandled \<and> er_Err res = None \<and> (\<exists>t. fst s' = fst s @ [t])"
proof (cases "cmd_SubCommands d = []")
  case True
  with assms obtain h where h: "cmd_Handler d = Some h" "replies_once h" by (auto simp: has_handlers_def)
  with assms True show ?thesis by (intro replies_onceD [OF h(2)]) (auto simp: execute_definition_def)
next
  case False
  show ?thesis
  proof (cases "find (\<lambda>sc. normalize_command_name (sub_Name sc) = normalize_command_name (nth_token (rq_Text req) 1)) (cmd_SubCommands d)")
    case None
    with assms False show ?thesis
      by (auto simp: execute_definition_def handled_def reply_log Let_def split: if_splits)
  next
    case (Some sc)
    then have "sc \<in> set (cmd_SubCommands d)" by (auto simp: find_Some_iff)
    with assms(1) False obtain h where h: "sub_Handler sc = Some h" "replies_once h" by (auto simp: has_handlers_def)
    show ?thesis
    proof (cases "nth_token (rq_Text req) 1 = []")
      case True
      with assms False show ?thesis by (auto simp: execute_definition_def handled_def reply_log)
    next
      case sub: False
      with assms False Some h show ?thesis
        by (intro replies_onceD [OF h(2)]) (auto simp: execute_definition_def Let_def)
    qed
  qed
qed

definition builtin_names :: "gostr list" where
  "builtin_names = [''start'', ''help'', ''show'', ''list'', ''switch'', ''check'', ''clear'']"

lemma lookup_builtin:
  assumes "normalize_command_name name = name" "name \<noteq> []"
  shows "(case lookup_command builtin_registry name of
            None \<Rightarrow> name \<notin> set builtin_names
          | Some d \<Rightarrow> d \<in> set builtin_definitions \<and> cmd_Name d = name \<and> name \<in> set builtin_names)"
proof -
  have names: "map cmd_Name (builtin_definitions :: 'a handler command_def list) = builtin_names"
    "\<forall>d \<in> set (builtin_definitions :: 'a handler command_def list). cmd_Aliases d = []"
    by (simp_all add: builtin_definitions_def builtin_definitions_for_def builtin_command_defs builtin_names_def)
  have "\<forall>n \<in> set builtin_names. normalize_command_name n = n" unfolding builtin_names_def by code_simp
  with names have "\<forall>d \<in> set (builtin_definitions :: 'a handler command_def list). names_command name d \<longleftrightarrow> cmd_Name d = name"
    by (auto simp: names_command_def simp flip: names(1))
  then have find: "find (names_command name) (builtin_definitions :: 'a handler command_def list) = find (\<lambda>d. cmd_Name d = name) builtin_definitions"
    by (intro find_cong) auto
  show ?thesis
    unfolding builtin_registry_def lookup_first assms(1) find
    using assms(2) by (auto simp: find_None_iff find_Some_iff simp flip: names(1) split: option.splits)
qed

text \<open>
  Every message is either a command or not: with the built-in commands a message is handled exactly
  when its first word is a slash or an exclamation mark and the name of a command; then it is
  answered exactly once and without an error; any other message passes through and changes nothing.
\<close>

theorem command_answered_once:
  assumes "rq_Reply req = Some log_reply" "quiet_runtime rt" "execute_command (Some builtin_registry) rt req s = (res, s')"
  shows "if (\<exists>name \<in> set builtin_names. parse_command_name (rq_Text req) = Some name)
    then er_Outcome res = OutcomeHandled \<and> er_Err res = None \<and> (\<exists>t. fst s' = fst s @ [t])
    else er_Outcome res = OutcomePassthrough \<and> s' = s"
proof (cases "parse_command_name (rq_Text req)")
  case None
  with assms(3) show ?thesis by (auto simp: execute_command_def passthrough_def)
next
  case (Some name)
  from parse_command_name_normalized [OF Some] have n: "normalize_command_name name = name" "name \<noteq> []" by auto
  show ?thesis
  proof (cases "lookup_command (builtin_registry :: (gostr list \<times> 'a) handler command_registry) name")
    case None
    with lookup_builtin [OF n, where 'a = "gostr list \<times> 'a"] \<open>parse_command_name _ = _\<close> assms(3) show ?thesis
      by (auto simp: execute_command_def passthrough_def split: option.splits)
  next
    case (Some d)
    with lookup_builtin [OF n, where 'a = "gostr list \<times> 'a"] have d: "d \<in> set builtin_definitions" "name \<in> set builtin_names"
      by auto
    from execute_definition_once [OF builtin_has_handlers [OF d(1)] assms(1,2)] d(2) Some assms(3) \<open>parse_command_name _ = _\<close>
    show ?thesis by (auto simp: execute_command_def)
  qed
qed

theorem command_answered_once_witness:
  "fst (snd (execute_command (Some builtin_registry) None
     \<lparr>rq_Channel = ''irc'', rq_ChatID = ''c'', rq_SenderID = ''u'', rq_Text = ''!Help@bot now'', rq_Reply = Some log_reply\<rparr> ([], 0 :: nat))) \<noteq> []"
proof -
  let ?req = "\<lparr>rq_Channel = ''irc'', rq_ChatID = ''c'', rq_SenderID = ''u'', rq_Text = ''!Help@bot now'', rq_Reply = Some log_reply\<rparr>
    :: (gostr list \<times> nat) request"
  have "parse_command_name ''!Help@bot now'' = Some ''help''" by code_simp
  moreover have "''help'' \<in> set builtin_names" by (simp add: builtin_names_def)
  moreover have "quiet_runtime None" by (simp add: quiet_runtime_def)
  ultimately show ?thesis
    using command_answered_once [of ?req None "([], 0)", OF _ _ prod.collapse [symmetric]] by (force split: if_splits)
qed

section \<open>Interface: what commands may change\<close>

text \<open>A relation on states that the reply and the callbacks of the runtime respect.\<close>

locale command_effect =
  fixes R :: "'s \<Rightarrow> 's \<Rightarrow> bool" and req :: "'s request" and rt :: "'s runtime option"
  assumes R_refl: "R s s"
    and R_trans: "R s t \<Longrightarrow> R t u \<Longrightarrow> R s u"
    and R_reply: "rq_Reply req = Some f \<Longrightarrow> R s (snd (f msg s))"
    and R_switch: "dep rt rt_SwitchModel = Some g \<Longrightarrow> R s (snd (g v s))"
    and R_clear: "dep rt rt_ClearHistory = Some k \<Longrightarrow> R s (snd (k s))"
begin

lemma reply_effect [simp]: "R s (snd (reply req t s))"
  by (auto simp: reply_def R_refl R_reply split: option.splits)

lemma reply_after: "R s s' \<Longrightarrow> R s (snd (reply req t s'))"
  by (blast intro: R_trans reply_effect)

lemma quiet_handlers [simp]:
  "R s (snd (start_handler req rt s))" "R s (snd (help_handler b req rt s))" "R s (snd (show_model_handler req rt s))"
  "R s (snd (show_channel_handler req rt s))" "R s (snd (agents_handler req rt s))" "R s (snd (list_models_handler req rt s))"
  "R s (snd (list_channels_handler req rt s))" "R s (snd (switch_channel_handler req rt s))"
  "R s (snd (check_channel_handler req rt s))"
  by (simp_all add: handler_defs Let_def split: option.splits prod.splits)

lemma changing_handlers [simp]:
  "R s (snd (switch_model_handler req rt s))" "R s (snd (clear_handler req rt s))"
proof -
  have "R s s'" if "dep rt rt_SwitchModel = Some g" "g v s = (r, s')" for g v r s'
    using R_switch [OF that(1), of s v] that(2) by simp
  then show "R s (snd (switch_model_handler req rt s))"
    by (auto simp: switch_model_handler_def Let_def intro: reply_after split: option.splits prod.splits sum.splits)
  have "R s s'" if "dep rt rt_ClearHistory = Some g" "g s = (r, s')" for g r s'
    using R_clear [OF that(1), of s] that(2) by simp
  then show "R s (snd (clear_handler req rt s))"
    by (auto simp: clear_handler_def intro: reply_after split: option.splits prod.splits)
qed

lemma execute_effect: "R s (snd (execute_command (Some builtin_registry) rt req s))"
proof -
  have all: "(\<forall>h. cmd_Handler d = Some h \<longrightarrow> R s (snd (h req rt s))) \<and>
      (\<forall>sc \<in> set (cmd_SubCommands d). \<forall>h. sub_Handler sc = Some h \<longrightarrow> R s (snd (h req rt s)))"
    if "d \<in> set builtin_definitions" for d
    using that by (auto simp: builtin_definitions_def builtin_definitions_for_def builtin_command_defs)
  have d: "R s (snd (execute_definition rt req d s))" if "d \<in> set builtin_definitions" for d
  proof (cases "cmd_SubCommands d = []")
    case True
    with all [OF that] show ?thesis
      by (auto simp: execute_definition_def handled_def passthrough_def R_refl split: option.splits)
  next
    case False
    with all [OF that] show ?thesis
      by (auto simp: execute_definition_def handled_def passthrough_def Let_def R_refl
          dest!: find_in_set split: option.splits)
  qed
  show ?thesis
  proof (cases "parse_command_name (rq_Text req)")
    case None
    then show ?thesis by (simp add: execute_command_def passthrough_def R_refl)
  next
    case (Some name)
    from parse_command_name_normalized [OF Some] lookup_builtin [of name, where 'a = 's]
    have "\<And>c. lookup_command builtin_registry name = Some c \<Longrightarrow> c \<in> set (builtin_definitions :: 's handler command_def list)" by auto
    with Some d show ?thesis
      by (auto simp: execute_command_def passthrough_def R_refl split: option.splits)
  qed
qed

end

end
