(* ===== verification/Dispatch.thy ===== *)
theory Dispatch imports Model_Choice Conversation Route Access Commands begin

text \<open>
  From a message on the bus to a reply: the loop over inbound messages of \<open>pkg/agent/loop.go\<close>,
  \<open>Run\<close>, \<open>processMessage\<close>, \<open>processSystemMessage\<close>, \<open>ProcessDirect\<close>, \<open>ProcessHeartbeat\<close>, \<open>handleCommand\<close>
  and the transcription of audio, with the message tool of \<open>pkg/tools/message.go\<close>.

  Every agent has its own session store, tools and message tool; the provider, the cooldown of the
  fallback chain and the bus are shared, in the world. Publishing on the bus is an argument, as it
  may fail. The order in which Go visits the map of agents is \<open>al_order\<close>. Starting the
  MCP servers before the first message is left out.
\<close>

section \<open>Runes\<close>

text \<open>The runes of a string as \<open>range\<close> reads them: an invalid byte is the rune \<open>U+FFFD\<close>.\<close>

definition byte_in :: "nat \<Rightarrow> nat \<Rightarrow> char \<Rightarrow> bool" where
  "byte_in lo hi c \<longleftrightarrow> lo \<le> code c \<and> code c \<le> hi"

definition low6 :: "char \<Rightarrow> nat" where
  "low6 c = code c mod 64"

definition decode_rune :: "gostr \<Rightarrow> nat \<times> nat" where
  "decode_rune s =
     (let invalid = (0xFFFD, 1) in
      case s of [] \<Rightarrow> invalid
      | a # t \<Rightarrow>
        if code a < 0x80 then (code a, 1)
        else (case t of [] \<Rightarrow> invalid
        | b # t2 \<Rightarrow>
          if byte_in 0xC2 0xDF a
          then (if byte_in 0x80 0xBF b then (code a mod 32 * 64 + low6 b, 2) else invalid)
          else (case t2 of [] \<Rightarrow> invalid
          | c # t3 \<Rightarrow>
            if byte_in 0xE0 0xEF a
            then (if byte_in (if code a = 0xE0 then 0xA0 else 0x80) (if code a = 0xED then 0x9F else 0xBF) b
                     \<and> byte_in 0x80 0xBF c
                  then (code a mod 16 * 4096 + low6 b * 64 + low6 c, 3) else invalid)
            else (case t3 of [] \<Rightarrow> invalid
            | d # _ \<Rightarrow>
              if byte_in 0xF0 0xF4 a \<and>
                 byte_in (if code a = 0xF0 then 0x90 else 0x80) (if code a = 0xF4 then 0x8F else 0xBF) b \<and>
                 byte_in 0x80 0xBF c \<and> byte_in 0x80 0xBF d
              then (code a mod 8 * 262144 + low6 b * 4096 + low6 c * 64 + low6 d, 4) else invalid))))"

lemma decode_rune_size: "0 < snd (decode_rune s)"
  by (auto simp: decode_rune_def Let_def split: list.splits)

function string_runes :: "gostr \<Rightarrow> runes" where
  "string_runes s = (if s = [] then [] else fst (decode_rune s) # string_runes (drop (snd (decode_rune s)) s))"
  by pat_completeness auto

termination
  by (relation "measure length") (auto simp: decode_rune_size)

declare string_runes.simps [simp del]

section \<open>The message tool\<close>

record 'x loop_world =
  lw_sent :: "gostr \<Rightarrow> bool"
  lw_cooldown :: cooldown_tracker
  lw_rest :: 'x

text \<open>
  \<open>Execute\<close>: \<open>as_string\<close> is the type assertion on an argument, \<open>send\<close> the callback, which returns an
  error or none. The flag \<open>sentInRound\<close> is that of the agent the tool belongs to.
\<close>

definition string_arg :: "('v \<Rightarrow> gostr option) \<Rightarrow> 'v anymap \<Rightarrow> gostr \<Rightarrow> gostr option" where
  "string_arg as_string args k = Option.bind (map_of args k) as_string"

definition message_execute ::
  "('v \<Rightarrow> gostr option) \<Rightarrow> (gostr \<Rightarrow> gostr \<Rightarrow> gostr \<Rightarrow> 'x \<Rightarrow> gostr option \<times> 'x) \<Rightarrow> gostr \<Rightarrow> 'v anymap \<Rightarrow> gostr \<Rightarrow> gostr \<Rightarrow>
   'x loop_world \<Rightarrow> tool_result \<times> 'x loop_world" where
  "message_execute as_string send agent args toolChannel toolChatID w =
     (let failed = (\<lambda>t. (new_tool_result t)\<lparr>res_IsError := True\<rparr>) in
      case string_arg as_string args ''content'' of
        None \<Rightarrow> (failed ''content is required'', w)
      | Some content \<Rightarrow>
          let str = (\<lambda>k. case string_arg as_string args k of None \<Rightarrow> [] | Some v \<Rightarrow> v);
              channel = (if str ''channel'' = [] then toolChannel else str ''channel'');
              chatID = (if str ''chat_id'' = [] then toolChatID else str ''chat_id'')
          in if channel = [] \<or> chatID = [] then (failed ''No target channel/chat specified'', w)
             else (case send channel chatID content (lw_rest w) of
                     (Some e, x) \<Rightarrow> (with_error (failed (''sending message: '' @ e)) e, w\<lparr>lw_rest := x\<rparr>)
                   | (None, x) \<Rightarrow> (silent_result (''Message sent to '' @ channel @ '':'' @ chatID),
                                  w\<lparr>lw_rest := x, lw_sent := (lw_sent w)(agent := True)\<rparr>)))"

section \<open>Transcription\<close>

definition is_audio_file :: "gostr \<Rightarrow> gostr \<Rightarrow> bool" where
  "is_audio_file filename contentType \<longleftrightarrow>
     list_ex (has_suffix (to_lower filename)) [''.mp3'', ''.wav'', ''.ogg'', ''.m4a'', ''.flac'', ''.aac'', ''.wma''] \<or>
     list_ex (has_prefix (to_lower contentType)) [''audio/'', ''application/ogg'', ''application/x-ogg'']"

text \<open>The length of a match of \<open>audioAnnotationRe\<close> at the start of a string.\<close>

definition annotation_length :: "gostr \<Rightarrow> nat option" where
  "annotation_length s =
     (if has_prefix s ''[voice'' \<or> has_prefix s ''[audio''
      then (case drop 6 s of
              [] \<Rightarrow> None
            | c # rest \<Rightarrow>
                if c = CHR '']'' then Some 7
                else if c = CHR '':'' then map_option (\<lambda>i. 8 + i) (index_char rest CHR '']'')
                else None)
      else None)"

lemma annotation_length_pos: "annotation_length s = Some n \<Longrightarrow> 0 < n"
  by (auto simp: annotation_length_def split: if_splits list.splits)

definition voice_note :: "gostr \<Rightarrow> gostr" where
  "voice_note t = ''[voice: '' @ t @ '']''"

text \<open>The annotations are replaced in order; what is left over is appended, one per line.\<close>

function replace_annotations :: "gostr list \<Rightarrow> gostr \<Rightarrow> gostr" where
  "replace_annotations texts s =
     (case texts of
        [] \<Rightarrow> s
      | t # ts \<Rightarrow>
          if s = [] then concat (map (\<lambda>t. nl @ voice_note t) texts)
          else (case annotation_length s of
                  None \<Rightarrow> hd s # replace_annotations texts (tl s)
                | Some n \<Rightarrow> voice_note t @ replace_annotations ts (drop n s)))"
  by pat_completeness auto

termination
  by (relation "measure (\<lambda>(ts, s). length s)") (auto dest: annotation_length_pos)

declare replace_annotations.simps [simp del]

section \<open>The loop and its agents\<close>

datatype ('v, 'p) loop_event =
  Turn gostr "('v, 'p) turn_event"
| Published gostr gostr gostr
| Feedback gostr gostr gostr gostr
| Placeholder gostr gostr

text \<open>
  An agent: its environment, without the call of the model and the message tool, its provider and
  the configuration of its models. The model in use is in the state, because a command changes it.
\<close>

record ('v, 'p, 's, 'x) loop_agent =
  la_env :: "('v, 'p, 's, 'x) turn_env"
  la_Provider :: "('v, 'p, 'x) chat"
  la_models :: model_options

record ('v, 'p, 's, 'x) agent_loop =
  al_config :: route_config
  al_agents :: "('v, 'p, 's, 'x) loop_agent agent_registry"
  al_order :: "gostr list"
  al_as_string :: "'v \<Rightarrow> gostr option"
  al_send :: "gostr \<Rightarrow> gostr \<Rightarrow> gostr \<Rightarrow> 'x \<Rightarrow> gostr option \<times> 'x"
  al_now :: "'x \<Rightarrow> int"
  al_canceled :: "'x \<Rightarrow> bool"
  al_channels :: "gostr list option"
  al_media :: "('x \<Rightarrow> gostr \<Rightarrow> (gostr \<times> gostr \<times> gostr) option) option"
  al_transcriber :: "(gostr \<Rightarrow> 'x \<Rightarrow> gostr option \<times> 'x) option"
  al_EchoTranscription :: bool
  al_DefaultProvider :: gostr

record ('v, 'p, 's, 'x) loop_state =
  ls_sessions :: "gostr \<Rightarrow> 's"
  ls_registry :: "gostr \<Rightarrow> 'p tool_registry"
  ls_model :: "gostr \<Rightarrow> gostr"
  ls_world :: "'x loop_world"
  ls_events :: "('v, 'p) loop_event list"

definition default_agent :: "('v, 'p, 's, 'x) agent_loop \<Rightarrow> gostr option" where
  "default_agent al =
     (if al_agents al ''main'' \<noteq> None then Some ''main''
      else (case al_order al of [] \<Rightarrow> None | k # _ \<Rightarrow> Some k))"

text \<open>The environment of a turn of agent \<open>key\<close> with the candidates and the model chosen for it.\<close>

definition loop_env ::
  "('v, 'p, 's, 'x) agent_loop \<Rightarrow> gostr \<Rightarrow> ('v, 'p, 's, 'x) loop_agent \<Rightarrow> fallback_candidate list \<times> gostr \<Rightarrow>
   ('v, 'p, 's, 'x loop_world) turn_env" where
  "loop_env al key ag active =
     (let base = la_env ag in
      \<lparr>env_ops = env_ops base, env_static = (\<lambda>w. env_static base (lw_rest w)),
       env_dynamic = (\<lambda>w. env_dynamic base (lw_rest w)),
       env_media = map_option (\<lambda>f w. f (lw_rest w)) (env_media base),
       env_call = (\<lambda>messages defs w.
         case call_llm (la_Provider ag) (al_canceled al) (al_now al) active messages defs (lw_cooldown w, lw_rest w) of
           (r, ct, x) \<Rightarrow> (r, w\<lparr>lw_cooldown := ct, lw_rest := x\<rparr>)),
       env_run = (\<lambda>t a args channel chatID st. case st of (reg, w) \<Rightarrow>
         if tl_Name t = ''message''
         then (case message_execute (al_as_string al) (al_send al) key args channel chatID w of (r, w') \<Rightarrow> (r, reg, w'))
         else (case turn_env.env_run base t a args channel chatID (reg, lw_rest w) of
                 (r, reg', x) \<Rightarrow> (r, reg', w\<lparr>lw_rest := x\<rparr>))),
       env_sched = env_sched base, env_encode = env_encode base, env_decode = env_decode base,
       env_MaxIterations = env_MaxIterations base\<rparr>)"

text \<open>
  A turn of an agent on the state of the loop. The candidates are chosen from the first request, and
  an error of the model is wrapped.
\<close>

definition first_request :: "('v, 'p, 's, 'w) turn_env \<Rightarrow> process_options \<Rightarrow> ('v, 'p, 's, 'w) turn_state \<Rightarrow> 'v message list" where
  "first_request env opts st =
     resolve_media_refs (map_option (\<lambda>f. f (tn_world st)) (env_media env))
       (build_request env opts (po_NoHistory opts) (po_UserMessage opts) (po_Media opts) st)"

definition run_turn ::
  "('v, 'p, 's, 'x) agent_loop \<Rightarrow> gostr \<Rightarrow> ('v, 'p, 's, 'x) loop_agent \<Rightarrow> process_options \<Rightarrow> ('v, 'p, 's, 'x) loop_state \<Rightarrow>
   (gostr + gostr) \<times> ('v, 'p, 's, 'x) loop_state" where
  "run_turn al key ag opts ls =
     (let st = \<lparr>tn_sessions = ls_sessions ls key, tn_registry = ls_registry ls key, tn_world = ls_world ls, tn_trace = []\<rparr>;
          mo = (la_models ag)\<lparr>mo_Model := ls_model ls key\<rparr>;
          active = select_candidates mo (string_runes (po_UserMessage opts))
                     (first_request (loop_env al key ag ([], [])) opts st)
      in (case run_agent_loop (loop_env al key ag active) opts st of
            (res, st') \<Rightarrow>
              (case res of Inl e \<Rightarrow> Inl (''LLM call failed after retries: '' @ snd e) | Inr a \<Rightarrow> Inr a,
               ls\<lparr>ls_sessions := (ls_sessions ls)(key := tn_sessions st'),
                  ls_registry := (ls_registry ls)(key := tn_registry st'),
                  ls_world := tn_world st', ls_events := ls_events ls @ map (Turn key) (tn_trace st')\<rparr>)))"

definition loop_emit :: "('v, 'p) loop_event \<Rightarrow> ('v, 'p, 's, 'x) loop_state \<Rightarrow> ('v, 'p, 's, 'x) loop_state" where
  "loop_emit e ls = ls\<lparr>ls_events := ls_events ls @ [e]\<rparr>"

section \<open>Audio\<close>

text \<open>One reference: its text, if it is an audio file, empty when the transcription failed.\<close>

definition transcribe_ref ::
  "('x \<Rightarrow> gostr \<Rightarrow> (gostr \<times> gostr \<times> gostr) option) \<Rightarrow> (gostr \<Rightarrow> 'x \<Rightarrow> gostr option \<times> 'x) \<Rightarrow> gostr \<Rightarrow>
   gostr list \<times> 'x \<Rightarrow> gostr list \<times> 'x" where
  "transcribe_ref resolve transcribe ref acc =
     (case acc of (texts, x) \<Rightarrow>
        (case resolve x ref of
           None \<Rightarrow> (texts, x)
         | Some (path, filename, contentType) \<Rightarrow>
             if \<not> is_audio_file filename contentType then (texts, x)
             else (case transcribe path x of
                     (None, x') \<Rightarrow> (texts @ [[]], x')
                   | (Some t, x') \<Rightarrow> (texts @ [t], x'))))"

definition feedback_text :: "gostr list \<Rightarrow> gostr" where
  "feedback_text texts =
     (let nonEmpty = filter (\<lambda>t. t \<noteq> []) texts
      in if nonEmpty \<noteq> [] then ''Transcript: '' @ join_with nl nonEmpty
         else ''No voice detected in the audio'')"

definition transcribe_audio ::
  "('v, 'p, 's, 'x) agent_loop \<Rightarrow> inbound_message \<Rightarrow> ('v, 'p, 's, 'x) loop_state \<Rightarrow>
   (inbound_message \<times> bool) \<times> ('v, 'p, 's, 'x) loop_state" where
  "transcribe_audio al msg ls =
     (case (al_transcriber al, al_media al) of
        (Some transcribe, Some resolve) \<Rightarrow>
          if im_Media msg = [] then ((msg, False), ls)
          else (case fold (transcribe_ref resolve transcribe) (im_Media msg) ([], lw_rest (ls_world ls)) of
                  (texts, x) \<Rightarrow>
                    let ls1 = ls\<lparr>ls_world := (ls_world ls)\<lparr>lw_rest := x\<rparr>\<rparr>
                    in if texts = [] then ((msg, False), ls1)
                       else
                         let ls2 = (if al_EchoTranscription al \<and> al_channels al \<noteq> None
                                    then loop_emit (Feedback (im_Channel msg) (im_ChatID msg) (feedback_text texts) (im_MessageID msg)) ls1
                                    else ls1)
                         in ((msg\<lparr>im_Content := replace_annotations texts (im_Content msg)\<rparr>, True), ls2))
      | _ \<Rightarrow> ((msg, False), ls))"

section \<open>Routing a message\<close>

definition inbound_metadata :: "inbound_message \<Rightarrow> gostr \<Rightarrow> gostr" where
  "inbound_metadata msg key = (case im_Metadata msg key of None \<Rightarrow> [] | Some v \<Rightarrow> v)"

definition extract_peer :: "inbound_message \<Rightarrow> route_peer option" where
  "extract_peer msg =
     (if bp_Kind (im_Peer msg) = [] then None
      else Some \<lparr>rp_Kind = bp_Kind (im_Peer msg),
                 rp_ID = (if bp_ID (im_Peer msg) = []
                          then if bp_Kind (im_Peer msg) = ''direct'' then im_SenderID msg else im_ChatID msg
                          else bp_ID (im_Peer msg))\<rparr>)"

definition extract_parent_peer :: "inbound_message \<Rightarrow> route_peer option" where
  "extract_parent_peer msg =
     (let parentKind = inbound_metadata msg ''parent_peer_kind''; parentID = inbound_metadata msg ''parent_peer_id''
      in if parentKind = [] \<or> parentID = [] then None else Some \<lparr>rp_Kind = parentKind, rp_ID = parentID\<rparr>)"

text \<open>The route and the key of the agent in the registry.\<close>

definition resolve_message_route ::
  "('v, 'p, 's, 'x) agent_loop \<Rightarrow> inbound_message \<Rightarrow> gostr + resolved_route \<times> gostr \<times> ('v, 'p, 's, 'x) loop_agent" where
  "resolve_message_route al msg =
     (let route = resolve_route (al_config al)
            \<lparr>ri_Channel = im_Channel msg, ri_AccountID = inbound_metadata msg ''account_id'',
             ri_Peer = extract_peer msg, ri_ParentPeer = extract_parent_peer msg,
             ri_GuildID = inbound_metadata msg ''guild_id'', ri_TeamID = inbound_metadata msg ''team_id''\<rparr>;
          key = (if get_agent (al_agents al) (rr_AgentID route) \<noteq> None
                 then Some (normalize_agent_id (rr_AgentID route)) else default_agent al)
      in (case Option.bind key (\<lambda>k. map_option (Pair k) (al_agents al k)) of
            Some (k, ag) \<Rightarrow> Inr (route, k, ag)
          | None \<Rightarrow> Inl (''no agent available for route (agent_id='' @ rr_AgentID route @ '')'')))"

definition resolve_scope_key :: "resolved_route \<Rightarrow> gostr \<Rightarrow> gostr" where
  "resolve_scope_key route msgSessionKey =
     (if msgSessionKey \<noteq> [] \<and> has_prefix msgSessionKey ''agent:'' then msgSessionKey else rr_SessionKey route)"

section \<open>Commands\<close>

text \<open>The state of a command: the reply, and the state of the loop.\<close>

definition build_commands_runtime ::
  "('v, 'p, 's, 'x) agent_loop \<Rightarrow> gostr \<Rightarrow> ('v, 'p, 's, 'x) loop_agent \<Rightarrow> process_options \<Rightarrow>
   (gostr \<times> ('v, 'p, 's, 'x) loop_state) runtime" where
  "build_commands_runtime al key ag opts =
     (let ops = env_ops (la_env ag); sk = po_SessionKey opts in
      \<lparr>rt_GetModelInfo = Some (\<lambda>(_, ls). (ls_model ls key, al_DefaultProvider al)),
       rt_ListAgentIDs = Some (\<lambda>_. al_order al),
       rt_ListDefinitions = Some (map without_handlers (builtin_definitions :: unit handler command_def list)),
       rt_GetEnabledChannels = Some (\<lambda>_. case al_channels al of None \<Rightarrow> [] | Some cs \<Rightarrow> cs),
       rt_SwitchModel = Some (\<lambda>value (rep, ls). (Inr (ls_model ls key), rep, ls\<lparr>ls_model := (ls_model ls)(key := value)\<rparr>)),
       rt_SwitchChannel = Some (\<lambda>value _.
         case al_channels al of
           None \<Rightarrow> Some ''channel manager not initialized''
         | Some cs \<Rightarrow> if value \<notin> set cs \<and> value \<noteq> ''cli''
                    then Some (''channel '' @ [CHR 0x27] @ value @ [CHR 0x27] @ '' not found or not enabled'') else None),
       rt_ClearHistory = Some (\<lambda>(rep, ls).
         let s = so_set_summary ops (so_set_history ops (ls_sessions ls key) sk []) sk []
         in (None, rep, ls\<lparr>ls_sessions := (ls_sessions ls)(key := so_save ops s sk)\<rparr>))\<rparr>)"

definition map_command_error :: "gostr \<Rightarrow> gostr \<Rightarrow> gostr" where
  "map_command_error command e =
     (if command = [] then ''Failed to execute command: '' @ e else ''Failed to execute /'' @ command @ '': '' @ e)"

definition handle_command ::
  "('v, 'p, 's, 'x) agent_loop \<Rightarrow> inbound_message \<Rightarrow> gostr \<Rightarrow> ('v, 'p, 's, 'x) loop_agent \<Rightarrow> process_options \<Rightarrow>
   ('v, 'p, 's, 'x) loop_state \<Rightarrow> gostr option \<times> ('v, 'p, 's, 'x) loop_state" where
  "handle_command al msg key ag opts ls =
     (if \<not> has_command_prefix (im_Content msg) then (None, ls)
      else (case execute_command (Some builtin_registry) (Some (build_commands_runtime al key ag opts))
                   \<lparr>rq_Channel = im_Channel msg, rq_ChatID = im_ChatID msg, rq_SenderID = im_SenderID msg,
                    rq_Text = im_Content msg, rq_Reply = Some (\<lambda>t (_, ls). (None, t, ls))\<rparr> ([], ls) of
              (res, rep, ls') \<Rightarrow>
                if er_Outcome res = OutcomeHandled
                then (case er_Err res of
                        Some e \<Rightarrow> (Some (map_command_error (er_Command res) e), ls')
                      | None \<Rightarrow> (Some rep, ls'))
                else (None, ls')))"

section \<open>Processing\<close>

definition default_response :: gostr where
  "default_response =
     ''I'' @ [CHR 0x27] @ ''ve completed processing but have no response to give. Increase `max_tool_iterations` in config.json.''"

definition reset_sent :: "gostr \<Rightarrow> ('v, 'p, 's, 'x) loop_state \<Rightarrow> ('v, 'p, 's, 'x) loop_state" where
  "reset_sent key ls =
     (if registry_get (ls_registry ls key) ''message'' \<noteq> None
      then ls\<lparr>ls_world := (ls_world ls)\<lparr>lw_sent := (lw_sent (ls_world ls))(key := False)\<rparr>\<rparr> else ls)"

text \<open>The origin of a system message, and what follows \<open>Result:\<close> is only logged.\<close>

definition system_origin :: "gostr \<Rightarrow> gostr \<times> gostr" where
  "system_origin chatID =
     (case index_char chatID CHR '':'' of
        Some i \<Rightarrow> if 0 < i then (take i chatID, drop (Suc i) chatID) else (''cli'', chatID)
      | None \<Rightarrow> (''cli'', chatID))"

definition process_system_message ::
  "('v, 'p, 's, 'x) agent_loop \<Rightarrow> inbound_message \<Rightarrow> ('v, 'p, 's, 'x) loop_state \<Rightarrow>
   (gostr + gostr) \<times> ('v, 'p, 's, 'x) loop_state" where
  "process_system_message al msg ls =
     (if im_Channel msg \<noteq> ''system''
      then (Inl (''processSystemMessage called with non-system message channel: '' @ im_Channel msg), ls)
      else
        let (channel, chatID) = system_origin (im_ChatID msg)
        in if internal_channel channel then (Inr [], ls)
           else (case Option.bind (default_agent al) (\<lambda>k. map_option (Pair k) (al_agents al k)) of
                   None \<Rightarrow> (Inl ''no default agent for system message'', ls)
                 | Some (key, ag) \<Rightarrow>
                     run_turn al key ag
                       \<lparr>po_SessionKey = build_agent_main_session_key key, po_Channel = channel, po_ChatID = chatID,
                        po_UserMessage = ''[System: '' @ im_SenderID msg @ ''] '' @ im_Content msg, po_Media = [],
                        po_DefaultResponse = ''Background task completed.'', po_EnableSummary = False,
                        po_SendResponse = True, po_NoHistory = False\<rparr> ls))"

definition process_routed ::
  "('v, 'p, 's, 'x) agent_loop \<Rightarrow> inbound_message \<Rightarrow> ('v, 'p, 's, 'x) loop_state \<Rightarrow>
   (gostr + gostr) \<times> ('v, 'p, 's, 'x) loop_state" where
  "process_routed al msg ls =
     (case resolve_message_route al msg of
        Inl e \<Rightarrow> (Inl e, ls)
      | Inr (route, key, ag) \<Rightarrow>
          let ls1 = reset_sent key ls;
              opts = \<lparr>po_SessionKey = resolve_scope_key route (im_SessionKey msg), po_Channel = im_Channel msg,
                      po_ChatID = im_ChatID msg, po_UserMessage = im_Content msg, po_Media = im_Media msg,
                      po_DefaultResponse = default_response, po_EnableSummary = True, po_SendResponse = False,
                      po_NoHistory = False\<rparr>
          in (case handle_command al msg key ag opts ls1 of
                (Some response, ls2) \<Rightarrow> (Inr response, ls2)
              | (None, ls2) \<Rightarrow> run_turn al key ag opts ls2))"

definition process_message ::
  "('v, 'p, 's, 'x) agent_loop \<Rightarrow> inbound_message \<Rightarrow> ('v, 'p, 's, 'x) loop_state \<Rightarrow>
   (gostr + gostr) \<times> ('v, 'p, 's, 'x) loop_state" where
  "process_message al msg0 ls0 =
     (case transcribe_audio al msg0 ls0 of
        ((msg, hadAudio), ls1) \<Rightarrow>
          let ls2 = (if hadAudio \<and> al_channels al \<noteq> None
                     then loop_emit (Placeholder (im_Channel msg) (im_ChatID msg)) ls1 else ls1)
          in if im_Channel msg = ''system'' then process_system_message al msg ls2
             else process_routed al msg ls2)"

text \<open>\<open>ProcessDirectWithChannel\<close> and \<open>ProcessHeartbeat\<close>.\<close>

definition direct_message :: "gostr \<Rightarrow> gostr \<Rightarrow> gostr \<Rightarrow> gostr \<Rightarrow> inbound_message" where
  "direct_message content sessionKey channel chatID =
     \<lparr>im_Channel = channel, im_SenderID = ''cron'', im_Sender = zero_sender, im_ChatID = chatID, im_Content = content,
      im_Media = [], im_Peer = \<lparr>bp_Kind = [], bp_ID = []\<rparr>, im_MessageID = [], im_MediaScope = [],
      im_SessionKey = sessionKey, im_Metadata = Map.empty\<rparr>"

definition process_direct ::
  "('v, 'p, 's, 'x) agent_loop \<Rightarrow> gostr \<Rightarrow> gostr \<Rightarrow> gostr \<Rightarrow> gostr \<Rightarrow> ('v, 'p, 's, 'x) loop_state \<Rightarrow>
   (gostr + gostr) \<times> ('v, 'p, 's, 'x) loop_state" where
  "process_direct al content sessionKey channel chatID ls =
     process_message al (direct_message content sessionKey channel chatID) ls"

definition process_heartbeat ::
  "('v, 'p, 's, 'x) agent_loop \<Rightarrow> gostr \<Rightarrow> gostr \<Rightarrow> gostr \<Rightarrow> ('v, 'p, 's, 'x) loop_state \<Rightarrow>
   (gostr + gostr) \<times> ('v, 'p, 's, 'x) loop_state" where
  "process_heartbeat al content channel chatID ls =
     (case Option.bind (default_agent al) (\<lambda>k. map_option (Pair k) (al_agents al k)) of
        None \<Rightarrow> (Inl ''no default agent for heartbeat'', ls)
      | Some (key, ag) \<Rightarrow>
          run_turn al key ag
            \<lparr>po_SessionKey = ''heartbeat'', po_Channel = channel, po_ChatID = chatID, po_UserMessage = content,
             po_Media = [], po_DefaultResponse = default_response, po_EnableSummary = False,
             po_SendResponse = False, po_NoHistory = True\<rparr> ls)"

section \<open>One round of the loop\<close>

definition already_sent :: "('v, 'p, 's, 'x) agent_loop \<Rightarrow> ('v, 'p, 's, 'x) loop_state \<Rightarrow> bool" where
  "already_sent al ls =
     (case default_agent al of
        None \<Rightarrow> False
      | Some key \<Rightarrow> registry_get (ls_registry ls key) ''message'' \<noteq> None \<and> lw_sent (ls_world ls) key)"

definition run_message ::
  "('v, 'p, 's, 'x) agent_loop \<Rightarrow> inbound_message \<Rightarrow> ('v, 'p, 's, 'x) loop_state \<Rightarrow> ('v, 'p, 's, 'x) loop_state" where
  "run_message al msg ls =
     (case process_message al msg ls of
        (res, ls1) \<Rightarrow>
          let response = (case res of Inl e \<Rightarrow> ''Error processing message: '' @ e | Inr r \<Rightarrow> r)
          in if response \<noteq> [] \<and> \<not> already_sent al ls1
             then loop_emit (Published (im_Channel msg) (im_ChatID msg) response) ls1 else ls1)"

section \<open>Interface: what a turn keeps of the world\<close>

text \<open>A condition on the world that the model and the tools keep is kept by a turn.\<close>

locale world_condition =
  fixes env :: "('v, 'p, 's, 'w) turn_env" and P :: "'w \<Rightarrow> bool"
  assumes call_keeps: "P w \<Longrightarrow> P (snd (env_call env messages defs w))"
    and run_keeps: "P w \<Longrightarrow> P (snd (snd (turn_env.env_run env t a args channel chatID (reg, w))))"
begin

lemma call_model_keeps: "call_model env defs messages st = (r, st') \<Longrightarrow> P (tn_world st) \<Longrightarrow> P (tn_world st')"
  using call_keeps [of "tn_world st" messages defs] by (auto simp: call_model_def split: prod.splits)

lemma llm_attempts_keeps:
  "llm_attempts env opts defs left messages st = (r, messages', st') \<Longrightarrow> P (tn_world st) \<Longrightarrow> P (tn_world st')"
proof (induction left arbitrary: messages st)
  case 0
  then show ?case by (auto dest: call_model_keeps split: prod.splits)
next
  case (Suc left)
  obtain r1 st1 where c: "call_model env defs messages st = (r1, st1)" by fastforce
  with Suc.prems(2) have p: "P (tn_world st1)" by (blast intro: call_model_keeps)
  show ?case
  proof (cases r1)
    case (Inr resp)
    with Suc.prems c p show ?thesis by simp
  next
    case (Inl e)
    show ?thesis
    proof (cases "is_timeout_error e \<or> is_context_error e")
      case True
      then obtain m2 st2 where "llm_attempts env opts defs left m2 st2 = (r, messages', st')" "tn_world st2 = tn_world st1"
        using Suc.prems c Inl by (auto simp: Let_def split: if_splits)
      with Suc.IH [of m2 st2] p show ?thesis by simp
    next
      case False
      with Suc.prems c Inl p show ?thesis by simp
    qed
  qed
qed

lemma run_call_keeps: "P (snd (snd acc)) \<Longrightarrow> P (snd (snd (run_call env opts calls i acc)))"
proof -
  assume p: "P (snd (snd acc))"
  obtain rs reg w where acc: "acc = (rs, reg, w)" by (metis prod_cases3)
  have "P (snd (snd (execute_with_context (turn_env.env_run env) reg n args c k cb (reg, w))))" for n args c k cb
    using p run_keeps by (auto simp: execute_with_context_def acc split: option.splits)
  then show ?thesis by (simp add: run_call_def acc split: prod.splits) (metis snd_conv)
qed

lemma run_calls_keeps: "run_calls env opts calls st = (rs, st') \<Longrightarrow> P (tn_world st) \<Longrightarrow> P (tn_world st')"
proof -
  have "P (snd (snd acc)) \<Longrightarrow> P (snd (snd (fold (run_call env opts calls) order acc)))" for order acc
  proof (induction order arbitrary: acc)
    case (Cons i order)
    from Cons.IH [OF run_call_keeps [OF Cons.prems]] show ?case by simp
  qed simp
  from this [of "(replicate (length calls) None, tn_registry st, tn_world st)" "env_sched env (length calls)"]
  show "run_calls env opts calls st = (rs, st') \<Longrightarrow> P (tn_world st) \<Longrightarrow> P (tn_world st')"
    by (auto simp: run_calls_def split: prod.splits)
qed

lemma process_world: "fold (process_result env opts) crs (messages, st) = (messages', st') \<Longrightarrow> tn_world st' = tn_world st"
proof (induction crs arbitrary: messages st)
  case (Cons cr crs)
  obtain m1 st1 where one: "process_result env opts cr (messages, st) = (m1, st1)" by fastforce
  then have "tn_world st1 = tn_world st" by (auto simp: process_result_def Let_def split: prod.splits)
  with Cons one show ?case by simp
qed simp

lemma llm_iterate_keeps:
  "llm_iterate env opts n it messages st = (res, st') \<Longrightarrow> P (tn_world st) \<Longrightarrow> P (tn_world st')"
proof (induction n arbitrary: it messages st)
  case (Suc n)
  obtain r messages1 st1 where a: "llm_attempts env opts (to_provider_defs (tn_registry st)) max_retries messages st = (r, messages1, st1)"
    by (metis prod_cases3)
  with Suc.prems(2) have p1: "P (tn_world st1)" by (blast intro: llm_attempts_keeps)
  show ?case
  proof (cases "\<exists>resp. r = Inr resp \<and> resp_ToolCalls resp \<noteq> []")
    case False
    with a p1 Suc.prems show ?thesis by (auto split: sum.splits)
  next
    case True
    then obtain resp where r: "r = Inr resp" "resp_ToolCalls resp \<noteq> []" by blast
    let ?calls = "map (normalize_tool_call (env_encode env) (env_decode env)) (resp_ToolCalls resp)"
    let ?am = "assistant_message (env_encode env) resp ?calls"
    obtain results st2 where b: "run_calls env opts ?calls (add_session env (po_SessionKey opts) ?am st1) = (results, st2)" by fastforce
    obtain messages2 st3 where c: "fold (process_result env opts) (zip ?calls results) (messages1 @ [?am], st2) = (messages2, st3)" by fastforce
    have "P (tn_world st3)" using run_calls_keeps [OF b] process_world [OF c] p1 by simp
    moreover have "llm_iterate env opts n (Suc it) messages2 (st3\<lparr>tn_registry := tick_ttl (tn_registry st3)\<rparr>) = (res, st')"
      using Suc.prems a r b c by (simp add: Let_def)
    ultimately show ?thesis using Suc.IH by simp
  qed
qed auto

lemma turn_keeps: "run_agent_loop env opts st = (res, st') \<Longrightarrow> P (tn_world st) \<Longrightarrow> P (tn_world st')"
proof -
  assume run: "run_agent_loop env opts st = (res, st')" and p: "P (tn_world st)"
  have "P (tn_world (snd (run_llm_iteration env opts m st0)))" if "P (tn_world st0)" for m and st0 :: "('v, 'p, 's, 'w) turn_state"
    using that llm_iterate_keeps [OF prod.collapse [symmetric]] by (simp add: run_llm_iteration_def)
  then have k: "run_llm_iteration env opts m st0 = (r, st1) \<Longrightarrow> P (tn_world st0) \<Longrightarrow> P (tn_world st1)"
    for m r and st0 st1 :: "('v, 'p, 's, 'w) turn_state" by (metis snd_conv)
  show "P (tn_world st')"
    using run p unfolding run_agent_loop_def Let_def
    by (auto dest!: k split: prod.splits sum.splits if_splits)
qed

end

text \<open>The flag of a message tool, once set, stays set during a turn, of whichever agent.\<close>

interpretation flag: world_condition "loop_env al key ag active" "\<lambda>w. lw_sent w D"
  for al :: "('v, 'p, 's, 'x) agent_loop" and key ag active D
  by unfold_locales
    (auto simp: loop_env_def Let_def message_execute_def split: prod.splits option.splits)

section \<open>What one round changes\<close>

text \<open>What a turn and a command leave alone: the other agents, and the flag once it is set.\<close>

definition others_kept :: "gostr \<Rightarrow> ('v, 'p, 's, 'x) loop_state \<Rightarrow> ('v, 'p, 's, 'x) loop_state \<Rightarrow> bool" where
  "others_kept key ls ls' \<longleftrightarrow>
     (\<forall>b. b \<noteq> key \<longrightarrow> ls_sessions ls' b = ls_sessions ls b \<and> ls_registry ls' b = ls_registry ls b \<and>
        ls_model ls' b = ls_model ls b \<and> (lw_sent (ls_world ls) b \<longrightarrow> lw_sent (ls_world ls') b))"

text \<open>The events a round adds, without the reply that \<open>Run\<close> publishes.\<close>

fun published :: "('v, 'p) loop_event list \<Rightarrow> (gostr \<times> gostr \<times> gostr) list" where
  "published [] = []"
| "published (Published c i t # es) = (c, i, t) # published es"
| "published (_ # es) = published es"

lemma published_append [simp]: "published (xs @ ys) = published xs @ published ys"
  by (induction xs rule: published.induct) simp_all

lemma published_turn [simp]: "published (map (Turn key) tr) = []"
  by (induction tr) simp_all

lemma loop_emit_simps [simp]:
  "ls_sessions (loop_emit e ls) = ls_sessions ls" "ls_registry (loop_emit e ls) = ls_registry ls"
  "ls_model (loop_emit e ls) = ls_model ls" "ls_world (loop_emit e ls) = ls_world ls"
  "ls_events (loop_emit e ls) = ls_events ls @ [e]"
  by (simp_all add: loop_emit_def)

lemma others_kept_refl: "others_kept key ls ls"
  by (simp add: others_kept_def)

lemma others_kept_trans: "others_kept key a b \<Longrightarrow> others_kept key b c \<Longrightarrow> others_kept key a c"
  by (simp add: others_kept_def)

lemma others_kept_emit: "others_kept key a b \<Longrightarrow> others_kept key a (loop_emit e b)"
  by (simp add: others_kept_def)

lemma run_turn_keeps:
  assumes "run_turn al key ag opts ls = (res, ls')"
  shows "others_kept key ls ls' \<and> published (ls_events ls') = published (ls_events ls)"
proof -
  define st where "st = \<lparr>tn_sessions = ls_sessions ls key, tn_registry = ls_registry ls key, tn_world = ls_world ls,
    tn_trace = ([] :: ('a, 'b) turn_event list)\<rparr>"
  define active where "active = select_candidates ((la_models ag)\<lparr>mo_Model := ls_model ls key\<rparr>)
    (string_runes (po_UserMessage opts)) (first_request (loop_env al key ag ([], [])) opts st)"
  obtain r st' where run: "run_agent_loop (loop_env al key ag active) opts st = (r, st')" by fastforce
  have "lw_sent (tn_world st') b" if "lw_sent (ls_world ls) b" for b
    using flag.turn_keeps [OF run] that by (simp add: st_def)
  moreover have "ls' = ls\<lparr>ls_sessions := (ls_sessions ls)(key := tn_sessions st'),
      ls_registry := (ls_registry ls)(key := tn_registry st'),
      ls_world := tn_world st', ls_events := ls_events ls @ map (Turn key) (tn_trace st')\<rparr>"
    using assms run unfolding run_turn_def Let_def st_def [symmetric] active_def [symmetric] by simp
  ultimately show ?thesis by (simp add: others_kept_def)
qed

lemma transcribe_audio_shape:
  assumes "transcribe_audio al msg ls = ((msg', h), ls')"
  shows "\<exists>c. msg' = msg\<lparr>im_Content := c\<rparr>"
    "\<exists>x es. published es = [] \<and> ls' = ls\<lparr>ls_world := (ls_world ls)\<lparr>lw_rest := x\<rparr>, ls_events := ls_events ls @ es\<rparr>"
proof -
  have same: "\<exists>c. msg = msg\<lparr>im_Content := c\<rparr>" by (intro exI [of _ "im_Content msg"]) simp
  have keep: "\<exists>y es. published es = [] \<and> ls\<lparr>ls_world := (ls_world ls)\<lparr>lw_rest := x\<rparr>\<rparr> =
      ls\<lparr>ls_world := (ls_world ls)\<lparr>lw_rest := y\<rparr>, ls_events := ls_events ls @ es\<rparr>" for x
    by (intro exI [of _ x] exI [of _ "[]"]) simp
  have none: "\<exists>y es. published es = [] \<and> ls = ls\<lparr>ls_world := (ls_world ls)\<lparr>lw_rest := y\<rparr>, ls_events := ls_events ls @ es\<rparr>"
    by (intro exI [of _ "lw_rest (ls_world ls)"] exI [of _ "[]"]) simp
  have emit: "\<exists>y es. published es = [] \<and> loop_emit (Feedback a b t i) (ls\<lparr>ls_world := (ls_world ls)\<lparr>lw_rest := x\<rparr>\<rparr>) =
      ls\<lparr>ls_world := (ls_world ls)\<lparr>lw_rest := y\<rparr>, ls_events := ls_events ls @ es\<rparr>" for a b t i x
    by (intro exI [of _ x] exI [of _ "[Feedback a b t i]"]) (simp add: loop_emit_def)
  consider (off) "msg' = msg" "ls' = ls"
    | (on) x texts where "msg' = msg \<or> msg' = msg\<lparr>im_Content := replace_annotations texts (im_Content msg)\<rparr>"
        "ls' = ls\<lparr>ls_world := (ls_world ls)\<lparr>lw_rest := x\<rparr>\<rparr> \<or>
         ls' = loop_emit (Feedback (im_Channel msg) (im_ChatID msg) (feedback_text texts) (im_MessageID msg)) (ls\<lparr>ls_world := (ls_world ls)\<lparr>lw_rest := x\<rparr>\<rparr>)"
    using assms unfolding transcribe_audio_def Let_def
    by (cases "al_transcriber al"; cases "al_media al") (auto split: prod.splits if_splits)
  note shape = this
  show "\<exists>c. msg' = msg\<lparr>im_Content := c\<rparr>" using shape by cases (use same in blast)+
  show "\<exists>x es. published es = [] \<and> ls' = ls\<lparr>ls_world := (ls_world ls)\<lparr>lw_rest := x\<rparr>, ls_events := ls_events ls @ es\<rparr>"
    using shape
  proof cases
    case off
    with none show ?thesis by simp
  next
    case (on x texts)
    from on(2) show ?thesis by (elim disjE) (simp only: keep, simp only: emit)
  qed
qed

lemma transcribe_audio_keeps:
  assumes "transcribe_audio al msg ls = ((msg', h), ls')"
  shows "others_kept key ls ls'" "published (ls_events ls') = published (ls_events ls)"
    "ls_sessions ls' = ls_sessions ls" "ls_registry ls' = ls_registry ls" "lw_sent (ls_world ls') = lw_sent (ls_world ls)"
    "im_Channel msg' = im_Channel msg" "im_ChatID msg' = im_ChatID msg" "im_SessionKey msg' = im_SessionKey msg"
    "resolve_message_route al msg' = resolve_message_route al msg"
  using transcribe_audio_shape [OF assms]
  by (auto simp: others_kept_def resolve_message_route_def extract_peer_def extract_parent_peer_def inbound_metadata_def)

text \<open>What a command can change: the session, by \<open>/clear\<close>, and the model, by \<open>/switch model\<close>, of its agent.\<close>

definition command_kept :: "gostr \<Rightarrow> gostr \<times> ('v, 'p, 's, 'x) loop_state \<Rightarrow> gostr \<times> ('v, 'p, 's, 'x) loop_state \<Rightarrow> bool" where
  "command_kept key s s' \<longleftrightarrow>
     others_kept key (snd s) (snd s') \<and> ls_world (snd s') = ls_world (snd s) \<and>
     ls_registry (snd s') = ls_registry (snd s) \<and> ls_events (snd s') = ls_events (snd s)"

interpretation command: command_effect "command_kept key"
    "\<lparr>rq_Channel = channel, rq_ChatID = chatID, rq_SenderID = sender, rq_Text = input,
      rq_Reply = Some (\<lambda>t (_, ls). (None, t, ls))\<rparr>"
    "Some (build_commands_runtime al key ag opts)"
  for al :: "('v, 'p, 's, 'x) agent_loop" and key ag opts channel chatID sender input
  by unfold_locales
    (auto simp: command_kept_def others_kept_refl build_commands_runtime_def Let_def others_kept_def
      intro: others_kept_trans split: prod.splits)

lemma handle_command_keeps:
  assumes "handle_command al msg key ag opts ls = (r, ls')"
  shows "others_kept key ls ls'" "ls_world ls' = ls_world ls" "ls_registry ls' = ls_registry ls" "ls_events ls' = ls_events ls"
proof -
  let ?run = "execute_command (Some builtin_registry) (Some (build_commands_runtime al key ag opts))
    \<lparr>rq_Channel = im_Channel msg, rq_ChatID = im_ChatID msg, rq_SenderID = im_SenderID msg,
     rq_Text = im_Content msg, rq_Reply = Some (\<lambda>t (_, ls). (None, t, ls))\<rparr> ([], ls)"
  have k: "command_kept key ([], ls) (snd ?run)" by (rule command.execute_effect)
  have "ls' = ls \<or> ls' = snd (snd ?run)"
    using assms by (auto simp: handle_command_def split: prod.splits if_splits option.splits)
  then show "others_kept key ls ls'" "ls_world ls' = ls_world ls" "ls_registry ls' = ls_registry ls" "ls_events ls' = ls_events ls"
    using k by (auto simp: command_kept_def others_kept_refl)
qed

lemma resolve_message_route_agent:
  "resolve_message_route al msg = Inr (route, key, ag) \<Longrightarrow> al_agents al key = Some ag"
  by (auto simp: resolve_message_route_def Let_def bind_eq_Some_conv split: option.splits)

lemma reset_sent_keeps:
  "others_kept key ls (reset_sent key ls)" "ls_events (reset_sent key ls) = ls_events ls"
  "ls_registry (reset_sent key ls) = ls_registry ls" "ls_sessions (reset_sent key ls) = ls_sessions ls"
  by (simp_all add: reset_sent_def others_kept_def)

lemma process_routed_keeps:
  assumes "resolve_message_route al msg = Inr (route, key, ag)" "process_routed al msg ls = (res, ls')"
  shows "others_kept key ls ls' \<and> published (ls_events ls') = published (ls_events ls)"
proof -
  obtain opts where p: "(case handle_command al msg key ag opts (reset_sent key ls) of
      (Some response, ls2) \<Rightarrow> (Inr response, ls2) | (None, ls2) \<Rightarrow> run_turn al key ag opts ls2) = (res, ls')"
    using assms by (simp add: process_routed_def Let_def)
  obtain r ls2 where h: "handle_command al msg key ag opts (reset_sent key ls) = (r, ls2)" by fastforce
  note k = handle_command_keeps [OF h]
  have k2: "others_kept key ls ls2" "published (ls_events ls2) = published (ls_events ls)"
    using others_kept_trans [OF reset_sent_keeps(1) k(1)] k(4) by (simp_all add: reset_sent_keeps)
  show ?thesis
  proof (cases r)
    case None
    with p h have "run_turn al key ag opts ls2 = (res, ls')" by simp
    from run_turn_keeps [OF this] k2 show ?thesis by (metis others_kept_trans)
  next
    case (Some response)
    with p h k2 show ?thesis by simp
  qed
qed

text \<open>A message that is not from the system changes only the agent it is routed to.\<close>

lemma process_message_keeps:
  assumes "resolve_message_route al msg = Inr (route, key, ag)" "im_Channel msg \<noteq> ''system''"
    "process_message al msg ls = (res, ls')"
  shows "others_kept key ls ls' \<and> published (ls_events ls') = published (ls_events ls)"
proof -
  obtain msg1 h ls1 where t: "transcribe_audio al msg ls = ((msg1, h), ls1)" by (metis surj_pair)
  note k = transcribe_audio_keeps(1) [OF t, of key] transcribe_audio_keeps(2-) [OF t]
  obtain ls2 where ls2: "process_routed al msg1 ls2 = (res, ls')" "others_kept key ls1 ls2"
      "published (ls_events ls2) = published (ls_events ls1)"
    using assms(2,3) t k(6) by (auto simp: process_message_def Let_def others_kept_refl others_kept_emit split: if_splits)
  from process_routed_keeps [OF _ ls2(1)] assms(1) k(9)
  have "others_kept key ls2 ls' \<and> published (ls_events ls') = published (ls_events ls2)" by simp
  with ls2(2,3) k(1,2) show ?thesis by (metis others_kept_trans)
qed

lemma run_message_events:
  "run_message al msg ls = ls' \<Longrightarrow> process_message al msg ls = (res, ls1) \<Longrightarrow>
     ls' = ls1 \<or> ls' = loop_emit (Published (im_Channel msg) (im_ChatID msg)
       (case res of Inl e \<Rightarrow> ''Error processing message: '' @ e | Inr r \<Rightarrow> r)) ls1"
  by (auto simp: run_message_def Let_def)

section \<open>Properties\<close>

text \<open>
  A message changes only the agent it is routed to: after a round every other agent has the
  sessions, the tools and the model it had before, and the round publishes at most one reply, to the chat
  of the message.
\<close>

theorem round_isolated:
  fixes ls :: "('v, 'p, 's, 'x) loop_state"
  assumes "resolve_message_route al msg = Inr (route, key, ag)" "im_Channel msg \<noteq> ''system''" "b \<noteq> key"
  defines "ls' \<equiv> run_message al msg ls"
  shows "ls_sessions ls' b = ls_sessions ls b \<and> ls_registry ls' b = ls_registry ls b \<and> ls_model ls' b = ls_model ls b \<and>
    (published (ls_events ls') = published (ls_events ls) \<or>
     (\<exists>t. published (ls_events ls') = published (ls_events ls) @ [(im_Channel msg, im_ChatID msg, t)]))"
proof -
  obtain res ls1 where p: "process_message al msg ls = (res, ls1)" by fastforce
  from process_message_keeps [OF assms(1,2) p] run_message_events [OF refl p] assms(3) show ?thesis
    unfolding ls'_def by (auto simp: others_kept_def)
qed

text \<open>
  One agent silences the others: once the message tool of the default agent has sent something,
  every reply to messages routed to other agents is dropped, errors and answers to commands included,
  until a message for the default agent resets its flag.
\<close>

theorem replies_of_others_dropped:
  assumes "default_agent al = Some D" "registry_get (ls_registry ls D) ''message'' \<noteq> None" "lw_sent (ls_world ls) D"
    and "\<And>msg. msg \<in> set msgs \<Longrightarrow> im_Channel msg \<noteq> ''system'' \<and>
      (\<exists>route key ag. resolve_message_route al msg = Inr (route, key, ag) \<and> key \<noteq> D)"
  shows "published (ls_events (fold (run_message al) msgs ls)) = published (ls_events ls)"
  using assms(2-4)
proof (induction msgs arbitrary: ls)
  case (Cons msg msgs)
  obtain route key ag where r: "im_Channel msg \<noteq> ''system''" "resolve_message_route al msg = Inr (route, key, ag)" "D \<noteq> key"
    using Cons.prems(3) [of msg] by auto
  obtain res ls1 where p: "process_message al msg ls = (res, ls1)" by fastforce
  from process_message_keeps [OF r(2,1) p] r(3) Cons.prems(1,2)
  have k: "registry_get (ls_registry ls1 D) ''message'' \<noteq> None" "lw_sent (ls_world ls1) D"
      "published (ls_events ls1) = published (ls_events ls)" by (auto simp: others_kept_def)
  then have "already_sent al ls1" by (simp add: already_sent_def assms(1))
  then have "run_message al msg ls = ls1" by (simp add: run_message_def p Let_def)
  with Cons.IH [OF k(1,2)] Cons.prems(3) k(3) show ?case by simp
qed simp

text \<open>
  C40 Clearing a conversation empties it: after \<open>/clear\<close>, written with any prefix and in any case, the
  history and the summary of the session of the message are empty and no other session of the agent
  has changed.
\<close>

theorem clear_forgets:
  fixes ls :: "('v, 'p, 'v message session_manager, 'x) loop_state"
  assumes "resolve_message_route al msg = Inr (route, key, ag)" "im_Channel msg \<noteq> ''system''" "im_Media msg = []"
    and cmd: "parse_command_name (im_Content msg) = Some ''clear''"
    and ops: "env_ops (la_env ag) = manager_ops now"
  defines "k \<equiv> resolve_scope_key route (im_SessionKey msg)" and "ls' \<equiv> run_message al msg ls"
  shows "sm_get_history (ls_sessions ls' key) k = [] \<and> sm_get_summary (ls_sessions ls' key) k = [] \<and>
    (\<forall>k'. k' \<noteq> k \<longrightarrow> sm_get_history (ls_sessions ls' key) k' = sm_get_history (ls_sessions ls key) k' \<and>
      sm_get_summary (ls_sessions ls' key) k' = sm_get_summary (ls_sessions ls key) k')"
proof -
  have prefix: "has_command_prefix (im_Content msg)"
    using cmd by (auto simp: parse_command_name_def has_command_prefix_def Let_def split: if_splits option.splits)
  have look: "lookup_command builtin_registry ''clear'' = Some (clear_command :: 'z handler command_def)"
  proof -
    have n: "normalize_command_name ''clear'' = ''clear''" by code_simp
    have "\<forall>m \<in> set [''start'', ''help'', ''show'', ''list'', ''switch'', ''check'']. ''clear'' \<noteq> normalize_command_name m" by code_simp
    then show ?thesis
      by (simp add: builtin_registry_def lookup_first n builtin_definitions_def builtin_definitions_for_def
          builtin_command_defs names_command_def)
  qed
  have tr: "transcribe_audio al msg ls = ((msg, False), ls)"
    using assms(3) by (simp add: transcribe_audio_def split: option.splits)
  define opts where "opts = \<lparr>po_SessionKey = k, po_Channel = im_Channel msg, po_ChatID = im_ChatID msg,
    po_UserMessage = im_Content msg, po_Media = im_Media msg, po_DefaultResponse = default_response,
    po_EnableSummary = True, po_SendResponse = False, po_NoHistory = False\<rparr>"
  have opts: "po_SessionKey opts = k"
      "process_routed al msg ls = (case handle_command al msg key ag opts (reset_sent key ls) of
         (Some response, ls2) \<Rightarrow> (Inr response, ls2) | (None, ls2) \<Rightarrow> run_turn al key ag opts ls2)"
    unfolding process_routed_def Let_def k_def opts_def assms(1) by simp_all
  define s where "s = sm_set_summary now (sm_set_history now (ls_sessions ls key) k []) k []"
  have "handle_command al msg key ag opts (reset_sent key ls) =
      (Some ''Chat history cleared!'', (reset_sent key ls)\<lparr>ls_sessions := (ls_sessions ls)(key := s)\<rparr>)"
    by (simp add: handle_command_def prefix execute_command_def cmd look execute_definition_def clear_command_def
        handled_def clear_handler_def build_commands_runtime_def reply_def reset_sent_keeps ops manager_ops_def Let_def opts(1) s_def)
  with opts(2) assms(2) tr have "ls_sessions ls' key = s"
    by (auto simp: ls'_def run_message_def process_message_def Let_def)
  then show ?thesis
    by (auto simp: s_def sm_set_summary_def sm_set_history_def sm_get_history_def sm_get_summary_def split: option.splits)
qed

text \<open>Two agents, \<open>ops\<close> being the default in the configuration; their model is down.\<close>

definition demo_loop_agent :: "(nat, unit, nat message session_manager, unit) loop_agent" where
  "demo_loop_agent =
     \<lparr>la_env = \<lparr>env_ops = manager_ops 0, env_static = (\<lambda>_. ''You are''), env_dynamic = (\<lambda>_ _ _. ''now''), env_media = None,
        env_call = (\<lambda>m d w. (Inl (False, []), w)), env_run = (\<lambda>t a x c i st. (new_tool_result ''ok'', st)),
        env_sched = (\<lambda>n. [0..<n]), env_encode = (\<lambda>_. ''{}''), env_decode = (\<lambda>_. None), env_MaxIterations = 3\<rparr>,
      la_Provider = (\<lambda>m d model w. (w, Inl (Errorf ''down''))),
      la_models = \<lparr>mo_Model = ''m'', mo_Candidates = [], mo_Router = None, mo_LightCandidates = []\<rparr>\<rparr>"

definition demo_agent_loop :: "(nat, unit, nat message session_manager, unit) agent_loop" where
  "demo_agent_loop =
     \<lparr>al_config = \<lparr>rc_Agents = [\<lparr>ac_ID = ''main'', ac_Default = False\<rparr>, \<lparr>ac_ID = ''ops'', ac_Default = True\<rparr>],
        rc_Bindings = [], rc_DMScope = [], rc_IdentityLinks = []\<rparr>,
      al_agents = [''main'' \<mapsto> demo_loop_agent, ''ops'' \<mapsto> demo_loop_agent], al_order = [''main'', ''ops''],
      al_as_string = (\<lambda>_. None), al_send = (\<lambda>c i t x. (None, x)), al_now = (\<lambda>_. 0), al_canceled = (\<lambda>_. False),
      al_channels = None, al_media = None, al_transcriber = None, al_EchoTranscription = False, al_DefaultProvider = []\<rparr>"

definition message_tool :: "unit tool" where
  "message_tool = \<lparr>tl_Name = ''message'', tl_Description = [], tl_Parameters = (), tl_AsyncExecutor = False\<rparr>"

definition demo_loop_state :: "(nat, unit, nat message session_manager, unit) loop_state" where
  "demo_loop_state =
     \<lparr>ls_sessions = (\<lambda>_. five_messages), ls_registry = (\<lambda>_. register message_tool new_tool_registry), ls_model = (\<lambda>_. ''m''),
      ls_world = \<lparr>lw_sent = (\<lambda>k. k = ''main''), lw_cooldown = new_cooldown_tracker, lw_rest = ()\<rparr>, ls_events = []\<rparr>"

definition demo_message :: "gostr \<Rightarrow> inbound_message" where
  "demo_message content = direct_message content ''agent:ops:k'' ''irc'' ''u''"

lemma demo_route: "\<exists>route. resolve_message_route demo_agent_loop (demo_message t) = Inr (route, ''ops'', demo_loop_agent)"
proof -
  have "resolve_message_route demo_agent_loop (demo_message t) = resolve_message_route demo_agent_loop (demo_message [])"
    by (simp add: resolve_message_route_def demo_message_def direct_message_def extract_peer_def extract_parent_peer_def
        inbound_metadata_def)
  moreover have "(case resolve_message_route demo_agent_loop (demo_message []) of Inr (r, k, ag) \<Rightarrow> k = ''ops'' | Inl _ \<Rightarrow> False)"
    by code_simp
  moreover have "al_agents demo_agent_loop ''ops'' = Some demo_loop_agent" by (simp add: demo_agent_loop_def)
  ultimately show ?thesis
    using resolve_message_route_agent [of demo_agent_loop "demo_message []"] by (auto split: sum.splits)
qed

theorem replies_of_others_dropped_witness:
  "published (ls_events (fold (run_message demo_agent_loop) [demo_message ''/help'', demo_message ''hi''] demo_loop_state)) = []"
proof -
  have "default_agent demo_agent_loop = Some ''main''" by (simp add: default_agent_def demo_agent_loop_def)
  moreover have "registry_get (ls_registry demo_loop_state ''main'') ''message'' \<noteq> None"
    by (simp add: demo_loop_state_def register_def message_tool_def registry_get_def)
  moreover have "lw_sent (ls_world demo_loop_state) ''main''" by (simp add: demo_loop_state_def)
  moreover have "im_Channel msg \<noteq> ''system'' \<and>
      (\<exists>route key ag. resolve_message_route demo_agent_loop msg = Inr (route, key, ag) \<and> key \<noteq> ''main'')"
    if "msg \<in> set [demo_message ''/help'', demo_message ''hi'']" for msg
  proof -
    obtain t where t: "msg = demo_message t" using \<open>msg \<in> _\<close> by auto
    then have "im_Channel msg \<noteq> ''system''" by (simp add: demo_message_def direct_message_def)
    with demo_route [of t] t show ?thesis by auto
  qed
  ultimately have "published (ls_events (fold (run_message demo_agent_loop) [demo_message ''/help'', demo_message ''hi''] demo_loop_state)) =
      published (ls_events demo_loop_state)" by (rule replies_of_others_dropped)
  then show ?thesis by (simp add: demo_loop_state_def)
qed

theorem round_isolated_witness:
  "ls_sessions (run_message demo_agent_loop (demo_message ''hi'') demo_loop_state) ''main'' = five_messages"
proof -
  obtain route where r: "resolve_message_route demo_agent_loop (demo_message ''hi'') = Inr (route, ''ops'', demo_loop_agent)"
    using demo_route by blast
  have "im_Channel (demo_message ''hi'') \<noteq> ''system''" "''main'' \<noteq> ''ops''" by (simp_all add: demo_message_def direct_message_def)
  from round_isolated [OF r this, where ls = demo_loop_state] show ?thesis by (simp add: demo_loop_state_def)
qed

theorem clear_forgets_witness:
  "sm_get_history (ls_sessions (run_message demo_agent_loop (demo_message ''!Clear'') demo_loop_state) ''ops'') ''agent:ops:k'' = []"
proof -
  obtain route where r: "resolve_message_route demo_agent_loop (demo_message ''!Clear'') = Inr (route, ''ops'', demo_loop_agent)"
    using demo_route by blast
  have m: "im_Channel (demo_message ''!Clear'') \<noteq> ''system''" "im_Media (demo_message ''!Clear'') = []"
      "im_Content (demo_message ''!Clear'') = ''!Clear''" "im_SessionKey (demo_message ''!Clear'') = ''agent:ops:k''"
    by (simp_all add: demo_message_def direct_message_def)
  have c: "parse_command_name (im_Content (demo_message ''!Clear'')) = Some ''clear''" unfolding m(3) by code_simp
  have k: "resolve_scope_key route ''agent:ops:k'' = ''agent:ops:k''" by (simp add: resolve_scope_key_def has_prefix_def)
  have o: "env_ops (la_env demo_loop_agent) = manager_ops 0" by (simp add: demo_loop_agent_def)
  from clear_forgets [OF r m(1,2) c o, where ls = demo_loop_state] show ?thesis unfolding m(4) k by blast
qed

end
