(* ===== verification/Channel_Manager.thy ===== *)
theory Channel_Manager imports Split_Message "HOL-Library.Multiset" begin

text \<open>
  The channel manager, \<open>pkg/channels/manager.go\<close> with \<open>errutil.go\<close> and \<open>errors.go\<close>: typing indicators,
  reactions and placeholders that are cleaned up when the reply goes out, sending with retries,
  and the dispatcher with one worker per channel; and the restart of the channels after a change of the
  configuration, \<open>restartServices\<close> of \<open>cmd/nookclaw/internal/gateway/helpers.go\<close>.

  A chat service is the argument \<open>ce\<close>, in a world; a stop or undo function is the number of the
  handle it belongs to. A wait for the rate limiter ends with an error when its context is cancelled, as
  the limiter documents. Starting the HTTP server, the factories of the channels and logging are left out.
\<close>

section \<open>Errors of a channel\<close>

datatype send_error = ErrNotRunning | ErrRateLimit | ErrTemporary | ErrSendFailed | OtherSendError

definition classify_send_error :: "int \<Rightarrow> send_error \<Rightarrow> send_error" where
  "classify_send_error statusCode rawErr =
     (if statusCode = 429 then ErrRateLimit
      else if statusCode \<ge> 500 then ErrTemporary
      else if statusCode \<ge> 400 then ErrSendFailed
      else rawErr)"

definition classify_net_error :: "send_error option \<Rightarrow> send_error option" where
  "classify_net_error e = (case e of None \<Rightarrow> None | Some _ \<Rightarrow> Some ErrTemporary)"

section \<open>Typing, reactions and placeholders\<close>

datatype chat_event =
  StopTyping nat
| UndoReaction nat
| Edited gostr gostr runes bool
| SendTry gostr runes "send_error option"
| SendMediaTry gostr "gostr list" "send_error option"
| Waited duration

record chat_marks =
  cm_placeholders :: "gostr \<rightharpoonup> gostr \<times> int"
  cm_typingStops :: "gostr \<rightharpoonup> nat \<times> int"
  cm_reactionUndos :: "gostr \<rightharpoonup> nat \<times> int"

definition no_marks :: chat_marks where
  "no_marks = \<lparr>cm_placeholders = Map.empty, cm_typingStops = Map.empty, cm_reactionUndos = Map.empty\<rparr>"

definition chat_key :: "gostr \<Rightarrow> gostr \<Rightarrow> gostr" where
  "chat_key channel chatID = channel @ '':'' @ chatID"

definition record_placeholder :: "int \<Rightarrow> gostr \<Rightarrow> gostr \<Rightarrow> gostr \<Rightarrow> chat_marks \<Rightarrow> chat_marks" where
  "record_placeholder now channel chatID pid m =
     m\<lparr>cm_placeholders := (cm_placeholders m)(chat_key channel chatID \<mapsto> (pid, now))\<rparr>"

text \<open>The operations on the marks also return what they call.\<close>

definition record_typing_stop :: "int \<Rightarrow> gostr \<Rightarrow> gostr \<Rightarrow> nat \<Rightarrow> chat_marks \<Rightarrow> chat_event list \<times> chat_marks" where
  "record_typing_stop now channel chatID stop m =
     (let key = chat_key channel chatID in
      (case cm_typingStops m key of None \<Rightarrow> [] | Some (old, _) \<Rightarrow> [StopTyping old],
       m\<lparr>cm_typingStops := (cm_typingStops m)(key \<mapsto> (stop, now))\<rparr>))"

definition record_reaction_undo :: "int \<Rightarrow> gostr \<Rightarrow> gostr \<Rightarrow> nat \<Rightarrow> chat_marks \<Rightarrow> chat_event list \<times> chat_marks" where
  "record_reaction_undo now channel chatID undo m =
     ([], m\<lparr>cm_reactionUndos := (cm_reactionUndos m)(chat_key channel chatID \<mapsto> (undo, now))\<rparr>)"

definition typing_stop_ttl :: duration where
  "typing_stop_ttl = seconds 300"

definition placeholder_ttl :: duration where
  "placeholder_ttl = seconds 600"

text \<open>The janitor visits the keys of each map in some order.\<close>

definition janitor_typing :: "int \<Rightarrow> gostr \<Rightarrow> chat_event list \<times> chat_marks \<Rightarrow> chat_event list \<times> chat_marks" where
  "janitor_typing now key acc =
     (case acc of (evs, m) \<Rightarrow>
        (case cm_typingStops m key of
           None \<Rightarrow> (evs, m)
         | Some (stop, created) \<Rightarrow>
             if now - created > typing_stop_ttl
             then (evs @ [StopTyping stop], m\<lparr>cm_typingStops := (cm_typingStops m)(key := None)\<rparr>) else (evs, m)))"

definition janitor_reaction :: "int \<Rightarrow> gostr \<Rightarrow> chat_event list \<times> chat_marks \<Rightarrow> chat_event list \<times> chat_marks" where
  "janitor_reaction now key acc =
     (case acc of (evs, m) \<Rightarrow>
        (case cm_reactionUndos m key of
           None \<Rightarrow> (evs, m)
         | Some (undo, created) \<Rightarrow>
             if now - created > typing_stop_ttl
             then (evs @ [UndoReaction undo], m\<lparr>cm_reactionUndos := (cm_reactionUndos m)(key := None)\<rparr>) else (evs, m)))"

definition janitor_placeholder :: "int \<Rightarrow> gostr \<Rightarrow> chat_marks \<Rightarrow> chat_marks" where
  "janitor_placeholder now key m =
     (case cm_placeholders m key of
        None \<Rightarrow> m
      | Some (_, created) \<Rightarrow>
          if now - created > placeholder_ttl then m\<lparr>cm_placeholders := (cm_placeholders m)(key := None)\<rparr> else m)"

definition run_ttl_janitor :: "int \<Rightarrow> gostr list \<Rightarrow> gostr list \<Rightarrow> gostr list \<Rightarrow> chat_marks \<Rightarrow> chat_event list \<times> chat_marks" where
  "run_ttl_janitor now typingKeys reactionKeys placeholderKeys m =
     (case fold (janitor_reaction now) reactionKeys (fold (janitor_typing now) typingKeys ([], m)) of
        (evs, m') \<Rightarrow> (evs, fold (janitor_placeholder now) placeholderKeys m'))"

section \<open>Sending\<close>

text \<open>
  What the worker needs of a channel: sending, editing and media where the channel has them, and the
  length of its messages, 0 without a limit. \<open>ce_After\<close> is a sleep that ends early, with \<open>False\<close>, when
  the context is done.
\<close>

record 'w channel_env =
  ce_Send :: "gostr \<Rightarrow> runes \<Rightarrow> 'w \<Rightarrow> send_error option \<times> 'w"
  ce_SendMedia :: "(gostr \<Rightarrow> gostr list \<Rightarrow> 'w \<Rightarrow> send_error option \<times> 'w) option"
  ce_Edit :: "(gostr \<Rightarrow> gostr \<Rightarrow> runes \<Rightarrow> 'w \<Rightarrow> bool \<times> 'w) option"
  ce_MaxLength :: int
  ce_Placeholder :: "(gostr \<Rightarrow> 'w \<Rightarrow> gostr option \<times> 'w) option"
  ce_After :: "duration \<Rightarrow> 'w \<Rightarrow> bool \<times> 'w"

type_synonym 'w send_state = "chat_event list \<times> chat_marks \<times> 'w"

definition send_placeholder ::
  "'w channel_env option \<Rightarrow> int \<Rightarrow> gostr \<Rightarrow> gostr \<Rightarrow> chat_marks \<times> 'w \<Rightarrow> bool \<times> chat_marks \<times> 'w" where
  "send_placeholder ch now channel chatID st =
     (case st of (m, w) \<Rightarrow>
        (case Option.bind ch ce_Placeholder of
           None \<Rightarrow> (False, m, w)
         | Some f \<Rightarrow>
             (case f chatID w of
                (None, w') \<Rightarrow> (False, m, w')
              | (Some pid, w') \<Rightarrow>
                  if pid = [] then (False, m, w') else (True, record_placeholder now channel chatID pid m, w'))))"

definition pre_send :: "'w channel_env \<Rightarrow> gostr \<Rightarrow> gostr \<Rightarrow> runes \<Rightarrow> 'w send_state \<Rightarrow> bool \<times> 'w send_state" where
  "pre_send ce name chatID content st =
     (case st of (tr, m, w) \<Rightarrow>
        let key = chat_key name chatID;
            tr1 = tr @ (case cm_typingStops m key of None \<Rightarrow> [] | Some (s, _) \<Rightarrow> [StopTyping s])
                     @ (case cm_reactionUndos m key of None \<Rightarrow> [] | Some (u, _) \<Rightarrow> [UndoReaction u]);
            m1 = m\<lparr>cm_typingStops := (cm_typingStops m)(key := None), cm_reactionUndos := (cm_reactionUndos m)(key := None),
                   cm_placeholders := (cm_placeholders m)(key := None)\<rparr>
        in (case cm_placeholders m key of
              None \<Rightarrow> (False, tr1, m1, w)
            | Some (pid, _) \<Rightarrow>
                if pid = [] then (False, tr1, m1, w)
                else (case ce_Edit ce of
                        None \<Rightarrow> (False, tr1, m1, w)
                      | Some edit \<Rightarrow>
                          (case edit chatID pid content w of
                             (ok, w') \<Rightarrow> (ok, tr1 @ [Edited chatID pid content ok], m1, w')))))"

definition max_send_retries :: nat where
  "max_send_retries = 3"

definition backoff_delay :: "nat \<Rightarrow> duration" where
  "backoff_delay attempt = min (ms 500 * 2 ^ attempt) (seconds 8)"

text \<open>The attempts of \<open>sendWithRetry\<close>; \<open>left\<close> retries remain.\<close>

fun send_attempts ::
  "'w channel_env \<Rightarrow> ('w \<Rightarrow> send_error option \<times> 'w) \<Rightarrow> (send_error option \<Rightarrow> chat_event) \<Rightarrow> nat \<Rightarrow>
   chat_event list \<times> 'w \<Rightarrow> chat_event list \<times> 'w" where
  "send_attempts ce send note 0 st =
     (case st of (tr, w) \<Rightarrow> case send w of (r, w') \<Rightarrow> (tr @ [note r], w'))"
| "send_attempts ce send note (Suc left) st =
     (case st of (tr, w) \<Rightarrow>
        (case send w of
           (None, w') \<Rightarrow> (tr @ [note None], w')
         | (Some e, w') \<Rightarrow>
             let tr' = tr @ [note (Some e)]
             in if e = ErrNotRunning \<or> e = ErrSendFailed then (tr', w')
                else
                  let d = (if e = ErrRateLimit then seconds 1 else backoff_delay (max_send_retries - Suc left))
                  in (case ce_After ce d w' of
                        (False, w'') \<Rightarrow> (tr', w'')
                      | (True, w'') \<Rightarrow> send_attempts ce send note left (tr' @ [Waited d], w''))))"

text \<open>\<open>sendWithRetry\<close>: with a cancelled context the wait for the limiter fails and nothing is sent.\<close>

definition send_with_retry ::
  "'w channel_env \<Rightarrow> bool \<Rightarrow> gostr \<Rightarrow> gostr \<Rightarrow> runes \<Rightarrow> 'w send_state \<Rightarrow> 'w send_state" where
  "send_with_retry ce canceled name chatID content st =
     (if canceled then st
      else (case pre_send ce name chatID content st of
              (True, st') \<Rightarrow> st'
            | (False, tr, m, w) \<Rightarrow>
                (case send_attempts ce (ce_Send ce chatID content) (SendTry chatID content) max_send_retries (tr, w) of
                   (tr', w') \<Rightarrow> (tr', m, w'))))"

definition send_media_with_retry ::
  "'w channel_env \<Rightarrow> bool \<Rightarrow> gostr \<Rightarrow> gostr list \<Rightarrow> chat_event list \<times> 'w \<Rightarrow> chat_event list \<times> 'w" where
  "send_media_with_retry ce canceled chatID parts st =
     (case ce_SendMedia ce of
        None \<Rightarrow> st
      | Some send \<Rightarrow> if canceled then st else send_attempts ce (send chatID parts) (SendMediaTry chatID parts) max_send_retries st)"

text \<open>The body of \<open>runWorker\<close> and of \<open>SendMessage\<close>: \<open>fuel\<close> is for the splitter; \<open>None\<close> if it does not return.\<close>

definition message_chunks :: "nat \<Rightarrow> int \<Rightarrow> runes \<Rightarrow> runes list option" where
  "message_chunks fuel maxLen content =
     (if maxLen > 0 \<and> int (length content) > maxLen
      then (case split_message fuel content maxLen of Some (Finished chunks) \<Rightarrow> Some chunks | _ \<Rightarrow> None)
      else Some [content])"

definition deliver ::
  "'w channel_env \<Rightarrow> nat \<Rightarrow> bool \<Rightarrow> gostr \<Rightarrow> gostr \<Rightarrow> runes \<Rightarrow> 'w send_state \<Rightarrow> 'w send_state option" where
  "deliver ce fuel canceled name chatID content st =
     map_option (\<lambda>chunks. fold (send_with_retry ce canceled name chatID) chunks st)
       (message_chunks fuel (ce_MaxLength ce) content)"

section \<open>Dispatcher and workers\<close>

text \<open>
  The system: the messages on the bus, the channels, the queue of each worker, the message the dispatcher
  has taken and not yet queued, and which goroutines still run. A message is a channel and a payload \<open>'m\<close>,
  so that the model is the one of the texts and the one of the media.
\<close>

record 'm chat_system =
  cs_bus :: "(gostr \<times> 'm) list"
  cs_channels :: "gostr list"
  cs_workers :: "gostr \<Rightarrow> (gostr \<times> 'm) list option"
  cs_holding :: "(gostr \<times> 'm) option"
  cs_dispatching :: bool
  cs_canceled :: bool
  cs_closed :: "gostr list"
  cs_stopped :: "gostr list"
  cs_panicked :: bool
  cs_sent :: "(gostr \<times> 'm) list"

definition default_channel_queue_size :: nat where
  "default_channel_queue_size = 16"

text \<open>\<open>dispatchLoop\<close> up to the call of \<open>enqueue\<close>; the select of the subscription may take a message of a cancelled context.\<close>

definition dispatch_next :: "'m chat_system \<Rightarrow> 'm chat_system option" where
  "dispatch_next s =
     (case cs_bus s of
        [] \<Rightarrow> None
      | (c, msg) # rest \<Rightarrow>
          if \<not> cs_dispatching s \<or> cs_holding s \<noteq> None then None
          else if internal_channel c \<or> c \<notin> set (cs_channels s) \<or> cs_workers s c = None then Some (s\<lparr>cs_bus := rest\<rparr>)
          else Some (s\<lparr>cs_bus := rest, cs_holding := Some (c, msg)\<rparr>))"

text \<open>The send of \<open>enqueue\<close>: it waits for room in the queue, and panics on a queue that was closed.\<close>

definition enqueue :: "'m chat_system \<Rightarrow> 'm chat_system option" where
  "enqueue s =
     (case cs_holding s of
        None \<Rightarrow> None
      | Some (c, msg) \<Rightarrow>
          if c \<in> set (cs_closed s) then Some (s\<lparr>cs_panicked := True\<rparr>)
          else (case cs_workers s c of
                  None \<Rightarrow> None
                | Some q \<Rightarrow>
                    if length q < default_channel_queue_size
                    then Some (s\<lparr>cs_holding := None, cs_workers := (cs_workers s)(c := Some (q @ [(c, msg)]))\<rparr>)
                    else None))"

text \<open>
  The select of \<open>runWorker\<close>: with a cancelled context it may still take a message, but then the wait for
  the limiter fails and the message is lost. A closed queue is emptied first.
\<close>

definition worker_take :: "gostr \<Rightarrow> 'm chat_system \<Rightarrow> 'm chat_system option" where
  "worker_take c s =
     (case cs_workers s c of
        Some (msg # q) \<Rightarrow>
          if c \<in> set (cs_stopped s) then None
          else Some (s\<lparr>cs_workers := (cs_workers s)(c := Some q), cs_sent := cs_sent s @ (if cs_canceled s then [] else [msg])\<rparr>)
      | _ \<Rightarrow> None)"

definition worker_stop :: "gostr \<Rightarrow> 'm chat_system \<Rightarrow> 'm chat_system option" where
  "worker_stop c s =
     (if cs_canceled s \<or> (c \<in> set (cs_closed s) \<and> cs_workers s c = Some []) then Some (s\<lparr>cs_stopped := c # cs_stopped s\<rparr>)
      else None)"

definition dispatcher_stop :: "'m chat_system \<Rightarrow> 'm chat_system option" where
  "dispatcher_stop s = (if cs_canceled s then Some (s\<lparr>cs_holding := None, cs_dispatching := False\<rparr>) else None)"

text \<open>Closing a queue, which panics when it is closed already.\<close>

definition close_queue :: "gostr \<Rightarrow> 'm chat_system \<Rightarrow> 'm chat_system" where
  "close_queue c s =
     (if cs_workers s c = None then s
      else if c \<in> set (cs_closed s) then s\<lparr>cs_panicked := True\<rparr> else s\<lparr>cs_closed := c # cs_closed s\<rparr>)"

text \<open>\<open>UnregisterChannel\<close> closes the queue; when the worker has ended it removes the channel.\<close>

definition remove_channel :: "gostr \<Rightarrow> 'm chat_system \<Rightarrow> 'm chat_system option" where
  "remove_channel c s =
     (if cs_workers s c \<noteq> None \<and> c \<notin> set (cs_stopped s) then None
      else Some (s\<lparr>cs_workers := (cs_workers s)(c := None), cs_channels := removeAll c (cs_channels s)\<rparr>))"

definition register_channel :: "gostr \<Rightarrow> 'm chat_system \<Rightarrow> 'm chat_system" where
  "register_channel c s = s\<lparr>cs_channels := List.insert c (cs_channels s)\<rparr>"

text \<open>What can happen; nothing happens after a panic.\<close>

datatype 'm chat_act =
  PublishOut "gostr \<times> 'm" | DispatchNext | Enqueue | DispatcherStops | WorkerTakes gostr | WorkerStops gostr
| CancelContext | CloseQueue gostr | RemoveChannel gostr | RegisterChannel gostr

fun chat_do :: "'m chat_act \<Rightarrow> 'm chat_system \<Rightarrow> 'm chat_system option" where
  "chat_do (PublishOut m) s = Some (s\<lparr>cs_bus := cs_bus s @ [m]\<rparr>)"
| "chat_do DispatchNext s = dispatch_next s"
| "chat_do Enqueue s = enqueue s"
| "chat_do DispatcherStops s = dispatcher_stop s"
| "chat_do (WorkerTakes c) s = worker_take c s"
| "chat_do (WorkerStops c) s = worker_stop c s"
| "chat_do CancelContext s = Some (s\<lparr>cs_canceled := True\<rparr>)"
| "chat_do (CloseQueue c) s = Some (close_queue c s)"
| "chat_do (RemoveChannel c) s = remove_channel c s"
| "chat_do (RegisterChannel c) s = Some (register_channel c s)"

fun chat_run :: "'m chat_act list \<Rightarrow> 'm chat_system \<Rightarrow> 'm chat_system option" where
  "chat_run [] s = Some s"
| "chat_run (a # acts) s = (if cs_panicked s then None else Option.bind (chat_do a s) (chat_run acts))"

text \<open>\<open>StartAll\<close>: a worker for every channel that starts; \<open>canceled\<close> is the state of the context it is given.\<close>

definition start_all :: "(gostr \<Rightarrow> bool) \<Rightarrow> gostr list \<Rightarrow> bool \<Rightarrow> (gostr \<times> 'm) list \<Rightarrow> 'm chat_system option" where
  "start_all starts channels canceled bus =
     (if channels = [] then None
      else Some \<lparr>cs_bus = bus, cs_channels = channels,
             cs_workers = (\<lambda>c. if c \<in> set channels \<and> starts c then Some [] else None), cs_holding = None,
             cs_dispatching = True, cs_canceled = canceled, cs_closed = [], cs_stopped = [], cs_panicked = False, cs_sent = []\<rparr>)"

text \<open>
  \<open>restartServices\<close>: the channels are started with the context of the restart, which has a time limit
  and is cancelled when the function returns, \<open>s\<close> being the system by then.
\<close>

definition restart_returns :: "'m chat_system \<Rightarrow> 'm chat_system" where
  "restart_returns s = s\<lparr>cs_canceled := True\<rparr>"

text \<open>\<open>StopAll\<close>, up to the waits for the workers: it cancels the context and closes the queues, in the order of the map.\<close>

definition stop_all :: "gostr list \<Rightarrow> 'm chat_system \<Rightarrow> 'm chat_system" where
  "stop_all order s = fold close_queue order (s\<lparr>cs_canceled := True\<rparr>)"

text \<open>\<open>SendMessage\<close> and \<open>SendToChannel\<close>, whose send waits like the one of the dispatcher.\<close>

datatype channel_error = ChannelNotFound gostr | NoActiveWorker gostr | SendCanceled | DirectSend gostr

definition send_message ::
  "(gostr \<Rightarrow> 'w channel_env) \<Rightarrow> nat \<Rightarrow> bool \<Rightarrow> gostr \<Rightarrow> gostr \<Rightarrow> runes \<Rightarrow> 'm chat_system \<Rightarrow> 'w send_state \<Rightarrow>
   (channel_error + 'w send_state) option" where
  "send_message ce fuel canceled channel chatID content s st =
     (if channel \<notin> set (cs_channels s) then Some (Inl (ChannelNotFound channel))
      else if cs_workers s channel = None then Some (Inl (NoActiveWorker channel))
      else map_option Inr (deliver (ce channel) fuel canceled channel chatID content st))"

definition send_to_channel :: "bool \<Rightarrow> gostr \<times> 'm \<Rightarrow> 'm chat_system \<Rightarrow> (channel_error + 'm chat_system) option" where
  "send_to_channel canceled msg s =
     (let c = fst msg in
      if c \<notin> set (cs_channels s) then Some (Inl (ChannelNotFound c))
      else (case cs_workers s c of
              None \<Rightarrow> Some (Inl (DirectSend c))
            | Some q \<Rightarrow>
                if c \<in> set (cs_closed s) then Some (Inr (s\<lparr>cs_panicked := True\<rparr>))
                else if length q < default_channel_queue_size
                then Some (Inr (s\<lparr>cs_workers := (cs_workers s)(c := Some (q @ [msg]))\<rparr>))
                else if canceled then Some (Inl SendCanceled)
                else None))"

section \<open>What the marks keep\<close>

text \<open>The operations on the marks, and a run of them with the calls they make.\<close>

datatype mark_op =
  RecordTyping int gostr gostr nat
| RecordReaction int gostr gostr nat
| RecordPlaceholder int gostr gostr gostr
| PreSend gostr gostr
| Janitor int "gostr list" "gostr list" "gostr list"

definition no_editor :: "unit channel_env" where
  "no_editor = \<lparr>ce_Send = (\<lambda>_ _ w. (None, w)), ce_SendMedia = None, ce_Edit = None, ce_MaxLength = 0,
     ce_Placeholder = None, ce_After = (\<lambda>_ w. (True, w))\<rparr>"

fun mark_do :: "mark_op \<Rightarrow> chat_event list \<times> chat_marks \<Rightarrow> chat_event list \<times> chat_marks" where
  "mark_do (RecordTyping now c i n) (evs, m) = (case record_typing_stop now c i n m of (e, m') \<Rightarrow> (evs @ e, m'))"
| "mark_do (RecordReaction now c i n) (evs, m) = (case record_reaction_undo now c i n m of (e, m') \<Rightarrow> (evs @ e, m'))"
| "mark_do (RecordPlaceholder now c i p) (evs, m) = (evs, record_placeholder now c i p m)"
| "mark_do (PreSend c i) (evs, m) = (case pre_send no_editor c i [] (evs, m, ()) of (_, evs', m', _) \<Rightarrow> (evs', m'))"
| "mark_do (Janitor now ts rs ps) (evs, m) = (case run_ttl_janitor now ts rs ps m of (e, m') \<Rightarrow> (evs @ e, m'))"

fun typing_handles :: "mark_op list \<Rightarrow> nat set" where
  "typing_handles [] = {}"
| "typing_handles (RecordTyping now c i n # ops) = insert n (typing_handles ops)"
| "typing_handles (_ # ops) = typing_handles ops"

definition typing_accounted :: "nat \<Rightarrow> chat_event list \<times> chat_marks \<Rightarrow> bool" where
  "typing_accounted n st \<longleftrightarrow> StopTyping n \<in> set (fst st) \<or> (\<exists>k t. cm_typingStops (snd st) k = Some (n, t))"

lemma accounted_keep:
  assumes "typing_accounted n (evs, m)" "set evs \<subseteq> set evs'" "cm_typingStops m' = cm_typingStops m"
  shows "typing_accounted n (evs', m')"
  using assms by (auto simp: typing_accounted_def)

lemma accounted_stop:
  assumes "typing_accounted n (evs, m)" "cm_typingStops m k = Some (n', t)" "set evs \<subseteq> set evs'"
    "StopTyping n' \<in> set evs'" "\<forall>j. j \<noteq> k \<longrightarrow> cm_typingStops m' j = cm_typingStops m j"
  shows "typing_accounted n (evs', m')"
proof (cases "n = n'")
  case True
  with assms(4) show ?thesis by (simp add: typing_accounted_def)
next
  case False
  from assms(1) consider "StopTyping n \<in> set evs" | j u where "cm_typingStops m j = Some (n, u)"
    by (auto simp: typing_accounted_def)
  then show ?thesis
  proof cases
    case 1
    with assms(3) show ?thesis by (auto simp: typing_accounted_def)
  next
    case 2
    with False assms(2) have "j \<noteq> k" by auto
    with 2 assms(5) have "cm_typingStops m' j = Some (n, u)" by simp
    then show ?thesis by (auto simp: typing_accounted_def)
  qed
qed

lemma janitor_typing_keeps:
  assumes "typing_accounted n st"
  shows "typing_accounted n (janitor_typing now k st)"
proof -
  obtain evs m where st: "st = (evs, m)" by fastforce
  show ?thesis
  proof (cases "cm_typingStops m k")
    case None
    with assms show ?thesis by (simp add: st janitor_typing_def)
  next
    case (Some e)
    obtain n' t where e: "e = (n', t)" by fastforce
    show ?thesis
    proof (cases "now - t > typing_stop_ttl")
      case True
      with Some e show ?thesis
        by (simp add: st janitor_typing_def) (rule accounted_stop [OF assms [unfolded st] Some [unfolded e]], auto)
    next
      case False
      with Some e assms show ?thesis by (simp add: st janitor_typing_def)
    qed
  qed
qed

lemma janitor_reaction_keeps:
  assumes "typing_accounted n st"
  shows "typing_accounted n (janitor_reaction now k st)"
proof -
  obtain evs m where st: "st = (evs, m)" by fastforce
  have "set evs \<subseteq> set (fst (janitor_reaction now k (evs, m))) \<and>
      cm_typingStops (snd (janitor_reaction now k (evs, m))) = cm_typingStops m"
    by (cases "cm_reactionUndos m k") (auto simp: janitor_reaction_def)
  with accounted_keep [OF assms [unfolded st]] show ?thesis by (simp add: st) (metis prod.collapse)
qed

lemma janitor_placeholder_keeps: "cm_typingStops (fold (janitor_placeholder now) ks m) = cm_typingStops m"
proof (induction ks arbitrary: m)
  case (Cons k ks)
  have "cm_typingStops (janitor_placeholder now k m) = cm_typingStops m"
    by (cases "cm_placeholders m k") (auto simp: janitor_placeholder_def)
  with Cons show ?case by simp
qed simp

lemma fold_keeps: "(\<And>k st. P st \<Longrightarrow> P (f k st)) \<Longrightarrow> P st \<Longrightarrow> P (fold f ks st)"
  by (induction ks arbitrary: st) auto

lemma mark_do_keeps:
  assumes "typing_accounted n st"
  shows "typing_accounted n (mark_do op st)"
proof -
  obtain evs m where st: "st = (evs, m)" by fastforce
  note a = assms [unfolded st]
  show ?thesis
  proof (cases op)
    case (RecordTyping now c i n')
    show ?thesis
    proof (cases "cm_typingStops m (chat_key c i)")
      case None
      then have "\<And>j u. cm_typingStops m j = Some (n, u) \<Longrightarrow> j \<noteq> chat_key c i" by auto
      with a None show ?thesis
        by (auto simp: RecordTyping st record_typing_stop_def Let_def typing_accounted_def)
    next
      case (Some e)
      obtain old t where e: "e = (old, t)" by fastforce
      show ?thesis
        using Some e by (simp add: RecordTyping st record_typing_stop_def Let_def)
          (rule accounted_stop [OF a Some [unfolded e]], auto)
    qed
  next
    case (RecordReaction now c i n')
    show ?thesis using a by (simp add: RecordReaction st record_reaction_undo_def typing_accounted_def)
  next
    case (RecordPlaceholder now c i p)
    show ?thesis using a by (simp add: RecordPlaceholder st record_placeholder_def typing_accounted_def)
  next
    case (PreSend c i)
    obtain ok evs' m' u where ps: "pre_send no_editor c i [] (evs, m, ()) = (ok, evs', m', u)" by (metis prod_cases4)
    then have m': "cm_typingStops m' = (cm_typingStops m)(chat_key c i := None)" "set evs \<subseteq> set evs'"
        "\<And>s t. cm_typingStops m (chat_key c i) = Some (s, t) \<Longrightarrow> StopTyping s \<in> set evs'"
      by (auto simp: pre_send_def no_editor_def Let_def split: option.splits prod.splits if_splits)
    show ?thesis
    proof (cases "cm_typingStops m (chat_key c i)")
      case None
      with m'(1) have "cm_typingStops m' = cm_typingStops m" by (simp add: fun_upd_idem)
      with accounted_keep [OF a m'(2)] show ?thesis by (simp add: PreSend st ps)
    next
      case (Some e)
      obtain old t where e: "e = (old, t)" by fastforce
      show ?thesis
        using accounted_stop [OF a Some [unfolded e] m'(2) m'(3) [OF Some [unfolded e]], of m'] m'(1)
        by (simp add: PreSend st ps)
    qed
  next
    case (Janitor now ts rs ps)
    obtain evs1 m1 where j: "fold (janitor_reaction now) rs (fold (janitor_typing now) ts ([], m)) = (evs1, m1)" by fastforce
    have "typing_accounted n (evs @ evs1, m1)"
    proof (cases "StopTyping n \<in> set evs")
      case True
      then show ?thesis by (simp add: typing_accounted_def)
    next
      case False
      with a have "typing_accounted n ([], m)" by (simp add: typing_accounted_def)
      from fold_keeps [where P = "typing_accounted n", OF janitor_typing_keeps this]
      have "typing_accounted n (fold (janitor_typing now) ts ([], m))" .
      from fold_keeps [where P = "typing_accounted n", OF janitor_reaction_keeps this]
      have "typing_accounted n (evs1, m1)" unfolding j [symmetric] .
      then show ?thesis by (auto simp: typing_accounted_def)
    qed
    then show ?thesis
      by (simp add: Janitor st run_ttl_janitor_def j typing_accounted_def janitor_placeholder_keeps)
  qed
qed

lemma mark_run_accounts:
  "n \<in> typing_handles ops \<or> typing_accounted n st \<Longrightarrow> typing_accounted n (fold mark_do ops st)"
proof (induction ops arbitrary: st)
  case (Cons op ops)
  have "typing_accounted n (mark_do op st)" if "n \<notin> typing_handles ops"
  proof (cases "typing_accounted n st")
    case True
    then show ?thesis by (rule mark_do_keeps)
  next
    case False
    with Cons.prems that obtain now c i where op: "op = RecordTyping now c i n" by (cases op) auto
    obtain evs m where st: "st = (evs, m)" by fastforce
    have "cm_typingStops (snd (record_typing_stop now c i n m)) (chat_key c i) = Some (n, now)"
      by (simp add: record_typing_stop_def Let_def)
    moreover obtain e m' where r: "record_typing_stop now c i n m = (e, m')" by fastforce
    ultimately have "\<exists>k t. cm_typingStops m' k = Some (n, t)" by fastforce
    then show ?thesis by (simp add: op st r typing_accounted_def)
  qed
  then have "n \<in> typing_handles ops \<or> typing_accounted n (mark_do op st)" by blast
  from Cons.IH [OF this] show ?case by simp
qed simp

section \<open>What sending does\<close>

fun tries :: "chat_event list \<Rightarrow> send_error option list" where
  "tries [] = []"
| "tries (SendTry i t r # es) = r # tries es"
| "tries (SendMediaTry i p r # es) = r # tries es"
| "tries (_ # es) = tries es"

fun waited :: "chat_event list \<Rightarrow> duration" where
  "waited [] = 0"
| "waited (Waited d # es) = d + waited es"
| "waited (_ # es) = waited es"

lemma tries_append [simp]: "tries (xs @ ys) = tries xs @ tries ys"
  by (induction xs rule: tries.induct) simp_all

lemma waited_append [simp]: "waited (xs @ ys) = waited xs + waited ys"
  by (induction xs rule: waited.induct) simp_all

definition retriable :: "send_error option \<Rightarrow> bool" where
  "retriable r \<longleftrightarrow> r \<noteq> None \<and> r \<noteq> Some ErrNotRunning \<and> r \<noteq> Some ErrSendFailed"

text \<open>The longest waits still possible with \<open>left\<close> retries.\<close>

fun wait_budget :: "nat \<Rightarrow> duration" where
  "wait_budget 0 = 0"
| "wait_budget (Suc n) = max (seconds 1) (backoff_delay (max_send_retries - Suc n)) + wait_budget n"

lemma wait_budget_nonneg: "0 \<le> wait_budget n"
  by (induction n) (auto simp: le_max_iff_disj intro: add_nonneg_nonneg)

lemma send_attempts_shape:
  assumes "\<And>r. tries [note r] = [r]" "\<And>r. waited [note r] = 0"
  shows "\<exists>new. fst (send_attempts ce send note left (tr, w)) = tr @ new \<and> tries new \<noteq> [] \<and>
    length (tries new) \<le> Suc left \<and> list_all retriable (butlast (tries new)) \<and> waited new \<le> wait_budget left"
proof (induction left arbitrary: tr w)
  case 0
  obtain r w' where "send w = (r, w')" by fastforce
  then show ?case by (intro exI [of _ "[note r]"]) (simp add: assms)
next
  case (Suc left)
  obtain r w1 where s: "send w = (r, w1)" by fastforce
  let ?d = "if r = Some ErrRateLimit then seconds 1 else backoff_delay (max_send_retries - Suc left)"
  have b: "?d \<le> max (seconds 1) (backoff_delay (max_send_retries - Suc left))" by simp
  have stop: ?case if "fst (send_attempts ce send note (Suc left) (tr, w)) = tr @ [note r]"
    using that b wait_budget_nonneg [of "Suc left"]
    by (intro exI [of _ "[note r]"]) (simp add: assms del: wait_budget.simps)
  show ?case
  proof (cases "retriable r \<and> fst (ce_After ce ?d w1)")
    case False
    have "fst (send_attempts ce send note (Suc left) (tr, w)) = tr @ [note r]"
    proof (cases r)
      case None
      with s show ?thesis by simp
    next
      case (Some e)
      obtain ok w2 where a: "ce_After ce ?d w1 = (ok, w2)" by fastforce
      show ?thesis
      proof (cases "e = ErrNotRunning \<or> e = ErrSendFailed")
        case True
        with s Some show ?thesis by (simp add: Let_def)
      next
        case noisy: False
        with False Some a have "\<not> ok" by (simp add: retriable_def)
        with s Some noisy a show ?thesis by (simp add: Let_def)
      qed
    qed
    then show ?thesis by (rule stop)
  next
    case True
    then obtain e where e: "r = Some e" "e \<noteq> ErrNotRunning" "e \<noteq> ErrSendFailed" by (auto simp: retriable_def)
    obtain w2 where a: "ce_After ce ?d w1 = (True, w2)" using True by (metis prod.collapse)
    have step: "send_attempts ce send note (Suc left) (tr, w) =
        send_attempts ce send note left (tr @ [note r] @ [Waited ?d], w2)"
      using s e a by (simp add: Let_def)
    from Suc.IH [of "tr @ [note r] @ [Waited ?d]" w2] obtain new where n:
      "fst (send_attempts ce send note left (tr @ [note r] @ [Waited ?d], w2)) = (tr @ [note r] @ [Waited ?d]) @ new"
      "tries new \<noteq> []" "length (tries new) \<le> Suc left" "list_all retriable (butlast (tries new))" "waited new \<le> wait_budget left"
      by blast
    let ?all = "[note r] @ [Waited ?d] @ new"
    have "tries ?all = [r] @ [] @ tries new" "waited ?all = 0 + (?d + 0) + waited new"
      by (simp_all only: tries_append waited_append assms tries.simps waited.simps add.assoc)
    then have all: "tries ?all = r # tries new" "waited ?all = ?d + waited new" by simp_all
    have "list_all retriable (butlast (tries ?all))"
      using n(2,4) True by (simp only: all butlast.simps if_False list.pred_inject)
    moreover have "waited ?all \<le> wait_budget (Suc left)"
      using n(5) b by (simp only: all wait_budget.simps add_mono)
    moreover have "length (tries ?all) \<le> Suc (Suc left)" "tries ?all \<noteq> []"
      using n(3) by (simp_all only: all list.size) simp_all
    moreover have "fst (send_attempts ce send note (Suc left) (tr, w)) = tr @ ?all"
      using n(1) by (simp only: step append_assoc)
    ultimately show ?thesis by blast
  qed
qed

section \<open>What the dispatcher does\<close>

definition on_channel :: "gostr \<Rightarrow> (gostr \<times> 'm) list \<Rightarrow> (gostr \<times> 'm) list" where
  "on_channel c xs = filter (\<lambda>m. fst m = c) xs"

lemma on_channel_simps [simp]:
  "on_channel c [] = []"
  "on_channel c (xs @ ys) = on_channel c xs @ on_channel c ys"
  "on_channel c (m # xs) = (if fst m = c then m # on_channel c xs else on_channel c xs)"
  by (simp_all add: on_channel_def)

definition queue_of :: "gostr \<Rightarrow> 'm chat_system \<Rightarrow> (gostr \<times> 'm) list" where
  "queue_of c s = (case cs_workers s c of None \<Rightarrow> [] | Some q \<Rightarrow> q)"

text \<open>The messages of a channel, from the first one sent to the last one published.\<close>

definition stream_of :: "gostr \<Rightarrow> 'm chat_system \<Rightarrow> (gostr \<times> 'm) list" where
  "stream_of c s = on_channel c (cs_sent s) @ queue_of c s @
     on_channel c (case cs_holding s of None \<Rightarrow> [] | Some m \<Rightarrow> [m]) @ on_channel c (cs_bus s)"

fun published :: "'m chat_act list \<Rightarrow> (gostr \<times> 'm) list" where
  "published [] = []"
| "published (PublishOut m # acts) = m # published acts"
| "published (_ # acts) = published acts"

fun keeps_running :: "'m chat_act \<Rightarrow> bool" where
  "keeps_running CancelContext = False"
| "keeps_running (CloseQueue c) = False"
| "keeps_running (RemoveChannel c) = False"
| "keeps_running _ = True"

text \<open>The system while it runs: nothing was stopped, and each queue holds messages of its channel, at most 16.\<close>

definition delivering :: "'m chat_system \<Rightarrow> bool" where
  "delivering s \<longleftrightarrow> \<not> cs_canceled s \<and> cs_closed s = [] \<and> cs_stopped s = [] \<and> cs_dispatching s \<and> \<not> cs_panicked s \<and>
     (\<forall>d q. cs_workers s d = Some q \<longrightarrow> d \<in> set (cs_channels s) \<and> length q \<le> default_channel_queue_size \<and> on_channel d q = q) \<and>
     (\<forall>m. cs_holding s = Some m \<longrightarrow> cs_workers s (fst m) \<noteq> None)"

lemma on_channel_other: "on_channel d q = q \<Longrightarrow> d \<noteq> c \<Longrightarrow> on_channel c q = []"
  by (metis (mono_tags, lifting) filter_False filter_id_conv on_channel_def)

lemma on_channel_ConsD: "on_channel d (m # q) = m # q \<Longrightarrow> fst m = d \<and> on_channel d q = q"
  unfolding on_channel_def by (metis (mono_tags, lifting) filter_eq_Cons_iff filter_id_conv list.set_intros(1,2))

lemma delivering_start:
  assumes "start_all starts channels False bus = Some s"
  shows "delivering s"
  using assms by (auto simp: start_all_def delivering_def split: if_splits)

lemma next_cases:
  assumes "dispatch_next s = Some s'"
  obtains (drop) c x rest where "cs_bus s = (c, x) # rest" "s' = s\<lparr>cs_bus := rest\<rparr>"
      "internal_channel c \<or> c \<notin> set (cs_channels s) \<or> cs_workers s c = None"
  | (hold) c x rest where "cs_bus s = (c, x) # rest" "cs_holding s = None" "cs_workers s c \<noteq> None"
      "s' = s\<lparr>cs_bus := rest, cs_holding := Some (c, x)\<rparr>"
proof -
  from assms obtain c x rest where b: "cs_bus s = (c, x) # rest"
    unfolding dispatch_next_def by (cases "cs_bus s") auto
  with assms have h: "cs_holding s = None" by (cases "cs_holding s") (simp_all add: dispatch_next_def)
  show thesis
  proof (cases "internal_channel c \<or> c \<notin> set (cs_channels s) \<or> cs_workers s c = None")
    case True
    with assms b show thesis by (intro drop [OF b]) (auto simp: dispatch_next_def split: if_splits)
  next
    case False
    with assms b h show thesis by (intro hold [OF b]) (auto simp: dispatch_next_def split: if_splits)
  qed
qed

lemma enqueue_cases:
  assumes "enqueue s = Some s'"
  obtains (panic) m where "cs_holding s = Some m" "fst m \<in> set (cs_closed s)" "s' = s\<lparr>cs_panicked := True\<rparr>"
  | (queue) m q where "cs_holding s = Some m" "fst m \<notin> set (cs_closed s)" "cs_workers s (fst m) = Some q"
      "length q < default_channel_queue_size"
      "s' = s\<lparr>cs_holding := None, cs_workers := (cs_workers s)(fst m := Some (q @ [m]))\<rparr>"
proof -
  from assms obtain m where h: "cs_holding s = Some m" unfolding enqueue_def by (cases "cs_holding s") auto
  show thesis
  proof (cases "fst m \<in> set (cs_closed s)")
    case True
    with assms h show thesis by (intro panic [OF h]) (auto simp: enqueue_def split: prod.splits)
  next
    case False
    with assms h obtain q where "cs_workers s (fst m) = Some q" unfolding enqueue_def
      by (cases m; cases "cs_workers s (fst m)") auto
    with False assms h show thesis by (intro queue [OF h False]) (auto simp: enqueue_def split: prod.splits if_splits)
  qed
qed

lemma take_cases:
  assumes "worker_take c s = Some s'"
  obtains m q where "cs_workers s c = Some (m # q)" "c \<notin> set (cs_stopped s)"
    "s' = s\<lparr>cs_workers := (cs_workers s)(c := Some q), cs_sent := cs_sent s @ (if cs_canceled s then [] else [m])\<rparr>"
proof -
  from assms obtain m q where w: "cs_workers s c = Some (m # q)"
    unfolding worker_take_def by (auto split: option.splits list.splits)
  with assms show thesis by (intro that [OF w]) (simp_all add: worker_take_def split: if_splits)
qed

definition active :: "gostr \<Rightarrow> 'm chat_system \<Rightarrow> bool" where
  "active c s \<longleftrightarrow> c \<in> set (cs_channels s) \<and> cs_workers s c \<noteq> None \<and> \<not> internal_channel c"

lemma next_delivers:
  assumes d: "delivering s" and s': "dispatch_next s = Some s'" and a: "active c s"
  shows "delivering s' \<and> active c s' \<and> stream_of c s' = stream_of c s"
  using s'
proof (cases rule: next_cases)
  case (drop e x rest)
  with a have "e \<noteq> c" by (auto simp: active_def)
  with drop d a show ?thesis by (simp add: delivering_def active_def stream_of_def queue_of_def)
next
  case (hold e x rest)
  with d a show ?thesis by (simp add: delivering_def active_def stream_of_def queue_of_def)
qed

lemma enqueue_delivers:
  assumes d: "delivering s" and s': "enqueue s = Some s'" and a: "active c s"
  shows "delivering s' \<and> active c s' \<and> stream_of c s' = stream_of c s"
  using s'
proof (cases rule: enqueue_cases)
  case (panic m)
  with d show ?thesis by (simp add: delivering_def)
next
  case (queue m q)
  from d queue have q: "fst m \<in> set (cs_channels s)" "on_channel (fst m) q = q" by (simp_all add: delivering_def)
  have "delivering s'" using d queue q by (simp add: delivering_def)
  moreover have "active c s'" using a queue by (simp add: active_def)
  moreover have "stream_of c s' = stream_of c s"
    using queue by (auto simp: stream_of_def queue_of_def)
  ultimately show ?thesis by blast
qed

lemma take_delivers:
  assumes d: "delivering s" and s': "worker_take e s = Some s'" and a: "active c s"
  shows "delivering s' \<and> active c s' \<and> stream_of c s' = stream_of c s"
proof -
  from s' obtain m q where t: "cs_workers s e = Some (m # q)"
    "s' = s\<lparr>cs_workers := (cs_workers s)(e := Some q), cs_sent := cs_sent s @ (if cs_canceled s then [] else [m])\<rparr>"
    by (rule take_cases)
  from d have live: "\<not> cs_canceled s" by (simp add: delivering_def)
  from d t(1) have q: "e \<in> set (cs_channels s)" "length (m # q) \<le> default_channel_queue_size" "on_channel e (m # q) = m # q"
    unfolding delivering_def by blast+
  from on_channel_ConsD [OF q(3)] have m: "fst m = e" "on_channel e q = q" by simp_all
  have "delivering s'" using d q(1,2) m by (simp add: delivering_def t(2))
  moreover have "active c s'" using a by (simp add: active_def t(2))
  moreover have "stream_of c s' = stream_of c s"
    using live t(1) m(1) by (auto simp: stream_of_def queue_of_def t(2))
  ultimately show ?thesis by blast
qed

lemma do_delivers:
  assumes "delivering s" "chat_do a s = Some s'" "active c s" "keeps_running a"
  shows "delivering s' \<and> active c s' \<and> stream_of c s' = stream_of c s @ on_channel c (published [a])"
proof (cases a)
  case (PublishOut m)
  with assms show ?thesis by (auto simp: delivering_def active_def stream_of_def queue_of_def)
next
  case (RegisterChannel e)
  with assms show ?thesis
    by (auto simp: delivering_def active_def stream_of_def queue_of_def register_channel_def)
next
  case (WorkerStops e)
  with assms show ?thesis by (simp add: worker_stop_def delivering_def)
next
  case DispatcherStops
  with assms show ?thesis by (simp add: dispatcher_stop_def delivering_def)
qed (use assms next_delivers enqueue_delivers take_delivers in simp_all)

lemma published_Cons: "published (a # acts) = published [a] @ published acts"
  by (cases a) simp_all

lemma run_delivers:
  assumes "delivering s" "active c s" "chat_run acts s = Some s'" "list_all keeps_running acts"
  shows "delivering s' \<and> active c s' \<and> stream_of c s' = stream_of c s @ on_channel c (published acts)"
  using assms
proof (induction acts arbitrary: s)
  case (Cons a acts)
  from Cons.prems(3) obtain s1 where s1: "chat_do a s = Some s1" "chat_run acts s1 = Some s'"
    by (auto split: if_splits Option.bind_splits)
  from do_delivers [OF Cons.prems(1) s1(1) Cons.prems(2)] Cons.prems(4)
  have "delivering s1" "active c s1" "stream_of c s1 = stream_of c s @ on_channel c (published [a])" by simp_all
  with Cons.IH [OF this(1,2) s1(2)] Cons.prems(4) show ?case by (simp add: published_Cons [of a acts])
qed simp

text \<open>
  Order and bound of the dispatcher: while nothing is stopped, the messages of a channel that runs are, from the
  first one sent to the last one waiting, those published for it and in the order of publication, whatever the dispatcher
  and the workers of the other channels do; no queue has more than 16 messages and nothing panics.
\<close>

theorem dispatch_fifo:
  assumes "start_all starts channels False bus = Some s" "c \<in> set channels" "starts c" "\<not> internal_channel c"
    "chat_run acts s = Some s'" "list_all keeps_running acts"
  shows "on_channel c (cs_sent s') @ queue_of c s' @ on_channel c (case cs_holding s' of None \<Rightarrow> [] | Some m \<Rightarrow> [m]) @
      on_channel c (cs_bus s') = on_channel c (bus @ published acts) \<and>
    length (queue_of c s') \<le> 16 \<and> \<not> cs_panicked s'"
proof -
  have "active c s" "stream_of c s = on_channel c bus"
    using assms(1-4) by (auto simp: start_all_def active_def stream_of_def queue_of_def split: if_splits)
  with run_delivers [OF delivering_start [OF assms(1)] _ assms(5,6), of c]
  have r: "delivering s'" "stream_of c s' = on_channel c (bus @ published acts)" by simp_all
  from r(2) have "on_channel c (cs_sent s') @ queue_of c s' @
      on_channel c (case cs_holding s' of None \<Rightarrow> [] | Some m \<Rightarrow> [m]) @ on_channel c (cs_bus s') =
      on_channel c (bus @ published acts)" by (simp add: stream_of_def)
  moreover from r(1) have "length (queue_of c s') \<le> 16 \<and> \<not> cs_panicked s'"
    by (auto simp: delivering_def queue_of_def default_channel_queue_size_def split: option.split)
  ultimately show ?thesis by blast
qed

definition two_chats :: "nat chat_system" where
  "two_chats = the (start_all (\<lambda>_. True) [''irc'', ''line''] False [(''irc'', 1), (''line'', 2)])"

lemma two_chats_start: "start_all (\<lambda>_. True) [''irc'', ''line''] False [(''irc'', 1), (''line'', 2)] = Some two_chats"
  by (simp add: two_chats_def start_all_def)

definition irc_sends :: "nat chat_act list" where
  "irc_sends = [PublishOut (''irc'', 3), DispatchNext, Enqueue, WorkerTakes ''irc'', DispatchNext]"

lemma irc_run:
  "\<exists>s. chat_run irc_sends two_chats = Some s \<and> cs_sent s = [(''irc'', 1)] \<and> cs_bus s = [(''irc'', 3)] \<and> cs_holding s = Some (''line'', 2)"
  by (simp add: irc_sends_def two_chats_def start_all_def dispatch_next_def enqueue_def worker_take_def
      internal_channel_def default_channel_queue_size_def)

theorem dispatch_fifo_witness:
  "\<exists>s. chat_run irc_sends two_chats = Some s \<and>
    on_channel ''irc'' (cs_sent s) @ queue_of ''irc'' s @ on_channel ''irc'' [(''line'', 2)] @ on_channel ''irc'' (cs_bus s) =
    [(''irc'', 1), (''irc'', 3)]"
proof -
  obtain s where r: "chat_run irc_sends two_chats = Some s" and h: "cs_holding s = Some (''line'', 2)" using irc_run by blast
  have i: "\<not> internal_channel ''irc''" by (simp add: internal_channel_def)
  have k: "list_all keeps_running irc_sends" by (simp add: irc_sends_def)
  have p: "on_channel ''irc'' ([(''irc'', 1), (''line'', 2)] @ published irc_sends) = [(''irc'', 1), (''irc'', 3)]"
    by (simp add: irc_sends_def)
  from dispatch_fifo [OF two_chats_start _ _ i r k] show ?thesis unfolding p by (intro exI [of _ s]) (simp add: r h)
qed

section \<open>Every message goes out\<close>

text \<open>A bound on the steps that are left without a new message.\<close>

definition moves_left :: "'m chat_system \<Rightarrow> nat" where
  "moves_left s = 3 * length (cs_bus s) + (if cs_holding s = None then 0 else 2) +
     (\<Sum>c\<in>set (cs_channels s). length (queue_of c s))"

fun delivery_act :: "'m chat_act \<Rightarrow> bool" where
  "delivery_act DispatchNext = True"
| "delivery_act Enqueue = True"
| "delivery_act (WorkerTakes c) = True"
| "delivery_act _ = False"

lemma delivery_keeps: "delivery_act a \<Longrightarrow> keeps_running a \<and> published [a] = []"
  by (cases a) simp_all

lemma queue_sum_update:
  assumes "c \<in> set cs" "cs_workers s' = (cs_workers s)(c := Some q)"
  shows "(\<Sum>d\<in>set cs. length (queue_of d s')) + length (queue_of c s) = (\<Sum>d\<in>set cs. length (queue_of d s)) + length q"
proof -
  have "(\<Sum>d\<in>set cs - {c}. length (queue_of d s')) = (\<Sum>d\<in>set cs - {c}. length (queue_of d s))"
    by (rule sum.cong) (simp_all add: queue_of_def assms(2))
  moreover have "length (queue_of c s') = length q" by (simp add: queue_of_def assms(2))
  ultimately show ?thesis
    using sum.remove [OF finite_set assms(1), of "\<lambda>d. length (queue_of d s)"]
      sum.remove [OF finite_set assms(1), of "\<lambda>d. length (queue_of d s')"] by simp
qed

lemma delivery_moves:
  assumes d: "delivering s" and s': "chat_do a s = Some s'" and a: "delivery_act a"
  shows "moves_left s' < moves_left s"
proof (cases a)
  case DispatchNext
  with s' have "dispatch_next s = Some s'" by simp
  then show ?thesis
    by (cases rule: next_cases) (simp_all add: moves_left_def queue_of_def)
next
  case Enqueue
  with s' have "enqueue s = Some s'" by simp
  then show ?thesis
  proof (cases rule: enqueue_cases)
    case (panic m)
    with d show ?thesis by (simp add: delivering_def)
  next
    case (queue m q)
    with d have "fst m \<in> set (cs_channels s)" by (simp add: delivering_def)
    from queue_sum_update [OF this, of s' s "q @ [m]"] queue show ?thesis
      by (simp add: moves_left_def) (simp add: queue_of_def)
  qed
next
  case (WorkerTakes c)
  with s' have "worker_take c s = Some s'" by simp
  then obtain m q where t: "cs_workers s c = Some (m # q)"
    "s' = s\<lparr>cs_workers := (cs_workers s)(c := Some q), cs_sent := cs_sent s @ (if cs_canceled s then [] else [m])\<rparr>"
    by (rule take_cases)
  with d have "c \<in> set (cs_channels s)" by (simp add: delivering_def)
  from queue_sum_update [OF this, of s' s q] t show ?thesis
    by (simp add: moves_left_def) (simp add: queue_of_def)
qed (use a in simp_all)

lemma delivery_enabled:
  assumes d: "delivering s" and left: "moves_left s \<noteq> 0"
  shows "\<exists>a s'. delivery_act a \<and> chat_do a s = Some s'"
proof (cases "\<exists>c m q. cs_workers s c = Some (m # q)")
  case True
  then obtain c m q where w: "cs_workers s c = Some (m # q)" by blast
  with d have "worker_take c s \<noteq> None" by (simp add: worker_take_def delivering_def)
  then show ?thesis by (intro exI [of _ "WorkerTakes c"]) auto
next
  case False
  have nil: "q = []" if "cs_workers s c = Some q" for c q
    using False that by (cases q) auto
  then have none: "queue_of c s = []" for c by (simp add: queue_of_def split: option.split)
  show ?thesis
  proof (cases "cs_holding s")
    case None
    with left none obtain m rest where "cs_bus s = m # rest" by (cases "cs_bus s") (simp_all add: moves_left_def)
    with d None have "dispatch_next s \<noteq> None" by (cases m) (simp add: dispatch_next_def delivering_def)
    then show ?thesis by (intro exI [of _ "DispatchNext"]) auto
  next
    case (Some m)
    with d obtain q where q: "cs_workers s (fst m) = Some q" by (auto simp: delivering_def)
    with nil have "q = []" by blast
    with d Some q have "enqueue s \<noteq> None"
      by (cases m) (simp add: enqueue_def delivering_def default_channel_queue_size_def)
    then show ?thesis by (intro exI [of _ "Enqueue"]) auto
  qed
qed

lemma delivery_run_bound:
  assumes "delivering s" "list_all delivery_act acts" "chat_run acts s = Some s'" "active c s"
  shows "length acts + moves_left s' \<le> moves_left s"
  using assms
proof (induction acts arbitrary: s)
  case (Cons a acts)
  from Cons.prems(3) obtain s1 where s1: "chat_do a s = Some s1" "chat_run acts s1 = Some s'"
    by (auto split: if_splits Option.bind_splits)
  from Cons.prems(2) have a: "delivery_act a" "list_all delivery_act acts" by simp_all
  from do_delivers [OF Cons.prems(1) s1(1) Cons.prems(4)] delivery_keeps [OF a(1)]
  have "delivering s1" "active c s1" by simp_all
  from Cons.IH [OF this(1) a(2) s1(2) this(2)] delivery_moves [OF Cons.prems(1) s1(1) a(1)] show ?case by simp
qed simp

lemma idle_sent:
  assumes "delivering s" "moves_left s = 0" "active c s"
  shows "stream_of c s = on_channel c (cs_sent s)"
proof -
  from assms(2) have b: "cs_bus s = []" "cs_holding s = None" and "\<forall>d\<in>set (cs_channels s). length (queue_of d s) = 0"
    by (simp_all add: moves_left_def split: if_splits)
  with assms(3) have "queue_of c s = []" by (simp add: active_def)
  with b show ?thesis by (simp add: stream_of_def)
qed


definition both_sent :: "nat chat_act list" where
  "both_sent = [DispatchNext, Enqueue, DispatchNext, Enqueue, WorkerTakes ''line'', WorkerTakes ''irc'']"


section \<open>When a worker is slow or the system stops\<close>

lemma blocked_step:
  assumes "cs_holding s = Some (c, m)" "c \<notin> set (cs_closed s)" "cs_workers s c = Some q" "default_channel_queue_size \<le> length q"
    "\<not> cs_canceled s" "chat_do a s = Some s'" "keeps_running a" "a \<noteq> WorkerTakes c"
  shows "cs_holding s' = Some (c, m) \<and> cs_closed s' = cs_closed s \<and> cs_workers s' c = Some q \<and> \<not> cs_canceled s' \<and>
    cs_bus s' = cs_bus s @ published [a]"
proof (cases a)
  case DispatchNext
  with assms show ?thesis by (auto simp: dispatch_next_def split: list.splits)
next
  case Enqueue
  with assms show ?thesis by (auto simp: enqueue_def)
next
  case (WorkerTakes d)
  with assms(6) have "worker_take d s = Some s'" by simp
  then show ?thesis using assms WorkerTakes by (elim take_cases) auto
next
  case (WorkerStops d)
  with assms show ?thesis by (auto simp: worker_stop_def split: if_splits)
next
  case DispatcherStops
  with assms show ?thesis by (auto simp: dispatcher_stop_def)
qed (use assms in \<open>auto simp: register_channel_def\<close>)

text \<open>
  Head-of-line blocking: the dispatcher holds a message for a channel whose queue is full. Until the worker of that
  channel takes a message, no message leaves the bus, for whatever channel it is: one slow channel stops them all.
\<close>

theorem slow_channel_blocks_all:
  assumes "cs_holding s = Some (c, m)" "c \<notin> set (cs_closed s)" "cs_workers s c = Some q" "16 \<le> length q" "\<not> cs_canceled s"
    "chat_run acts s = Some s'" "list_all keeps_running acts" "WorkerTakes c \<notin> set acts"
  shows "cs_bus s' = cs_bus s @ published acts \<and> cs_holding s' = Some (c, m)"
  using assms
proof (induction acts arbitrary: s)
  case (Cons a acts)
  from Cons.prems(6) obtain s1 where s1: "chat_do a s = Some s1" "chat_run acts s1 = Some s'"
    by (auto split: if_splits Option.bind_splits)
  from Cons.prems have "16 \<le> length q" "keeps_running a" "a \<noteq> WorkerTakes c" by auto
  with blocked_step [of s c m q, OF Cons.prems(1-3) _ Cons.prems(5) s1(1)]
  have b: "cs_holding s1 = Some (c, m)" "c \<notin> set (cs_closed s1)" "cs_workers s1 c = Some q" "\<not> cs_canceled s1"
    "cs_bus s1 = cs_bus s @ published [a]" using Cons.prems(2) by (simp_all add: default_channel_queue_size_def)
  from Cons.IH [OF b(1-3) \<open>16 \<le> length q\<close> b(4) s1(2)] Cons.prems b(5) show ?case by (simp add: published_Cons [of a acts])
qed simp

definition full_irc :: "nat chat_system" where
  "full_irc = two_chats\<lparr>cs_bus := [(''line'', 2)], cs_holding := Some (''irc'', 1),
     cs_workers := (\<lambda>c. if c = ''irc'' then Some (replicate 16 (''irc'', 0)) else cs_workers two_chats c)\<rparr>"

theorem slow_channel_blocks_all_witness:
  "\<exists>s. chat_run [PublishOut (''line'', 3), RegisterChannel ''qq''] full_irc = Some s \<and> cs_bus s = [(''line'', 2), (''line'', 3)]"
proof -
  have f: "cs_holding full_irc = Some (''irc'', 1)" "''irc'' \<notin> set (cs_closed full_irc)"
      "cs_workers full_irc ''irc'' = Some (replicate 16 (''irc'', 0))" "\<not> cs_canceled full_irc" "\<not> cs_panicked full_irc"
      "cs_bus full_irc = [(''line'', 2)]"
    by (simp_all add: full_irc_def two_chats_def start_all_def)
  obtain s where r: "chat_run [PublishOut (''line'', 3), RegisterChannel ''qq''] full_irc = Some s"
    using f(5) by (simp add: register_channel_def)
  from slow_channel_blocks_all [OF f(1-3) _ f(4) r] r f(6) show ?thesis
    by (intro exI [of _ s]) (simp del: chat_run.simps)
qed

lemma canceled_step:
  assumes "cs_canceled s" "chat_do a s = Some s'"
  shows "cs_canceled s' \<and> cs_sent s' = cs_sent s"
proof (cases a)
  case DispatchNext
  with assms(2) have "dispatch_next s = Some s'" by simp
  then show ?thesis by (cases rule: next_cases) (use assms in simp_all)
next
  case Enqueue
  with assms(2) have "enqueue s = Some s'" by simp
  then show ?thesis by (cases rule: enqueue_cases) (use assms in simp_all)
next
  case (WorkerTakes c)
  with assms(2) have "worker_take c s = Some s'" by simp
  then show ?thesis by (elim take_cases) (use assms in simp)
qed (use assms in \<open>auto simp: register_channel_def worker_stop_def dispatcher_stop_def remove_channel_def close_queue_def split: if_splits\<close>)

lemma canceled_run: "cs_canceled s \<Longrightarrow> chat_run acts s = Some s' \<Longrightarrow> cs_canceled s' \<and> cs_sent s' = cs_sent s"
proof (induction acts arbitrary: s)
  case (Cons a acts)
  then obtain s1 where s1: "chat_do a s = Some s1" "chat_run acts s1 = Some s'" by (auto split: if_splits Option.bind_splits)
  from canceled_step [OF Cons.prems(1) this(1)] Cons.IH [OF _ s1(2)] show ?case by simp
qed simp

lemma closing_keeps:
  "cs_workers (fold close_queue order s) = cs_workers s \<and> cs_canceled (fold close_queue order s) = cs_canceled s \<and>
   cs_sent (fold close_queue order s) = cs_sent s \<and> cs_holding (fold close_queue order s) = cs_holding s \<and>
   set (cs_closed s) \<subseteq> set (cs_closed (fold close_queue order s)) \<and> (cs_panicked s \<longrightarrow> cs_panicked (fold close_queue order s))"
proof (induction order arbitrary: s)
  case (Cons c order)
  from Cons [of "close_queue c s"] show ?case by (auto simp: close_queue_def split: if_splits)
qed simp

lemma closing_closes: "c \<in> set order \<Longrightarrow> cs_workers s c \<noteq> None \<Longrightarrow> c \<in> set (cs_closed (fold close_queue order s))"
proof (induction order arbitrary: s)
  case (Cons d order)
  show ?case
  proof (cases "c = d")
    case True
    with Cons.prems have "c \<in> set (cs_closed (close_queue d s))" by (simp add: close_queue_def)
    with closing_keeps [where order = order and s = "close_queue d s"] show ?thesis by auto
  next
    case False
    with Cons.prems have "c \<in> set order" "cs_workers (close_queue d s) c \<noteq> None" by (simp_all add: close_queue_def)
    from Cons.IH [OF this] show ?thesis by simp
  qed
qed simp

lemma closing_again:
  assumes "c \<in> set order" "cs_workers s c \<noteq> None" "c \<in> set (cs_closed s)"
  shows "cs_panicked (fold close_queue order s)"
  using assms
proof (induction order arbitrary: s)
  case (Cons d order)
  show ?case
  proof (cases "c = d")
    case True
    with Cons.prems have "cs_panicked (close_queue d s)" by (auto simp: close_queue_def)
    with closing_keeps [where order = order and s = "close_queue d s"] show ?thesis by simp
  next
    case False
    with Cons.prems have "c \<in> set order" "cs_workers (close_queue d s) c \<noteq> None" "c \<in> set (cs_closed (close_queue d s))"
      by (simp_all add: close_queue_def)
    from Cons.IH [OF this] show ?thesis by simp
  qed
qed simp



text \<open>
  \<open>StopAll\<close> is not safe to call twice, nor while the dispatcher works: a second call closes queues that are closed, and
  a dispatcher that holds a message for a worker sends it to a closed queue, unless it sees the cancelled context first.
  Both panic.
\<close>

theorem stop_all_panics:
  assumes "cs_workers s c \<noteq> None" "c \<in> set order"
  shows "cs_panicked (stop_all order (stop_all order s)) \<and>
    (\<forall>m. cs_holding s = Some (c, m) \<longrightarrow> (\<exists>s'. chat_do Enqueue (stop_all order s) = Some s' \<and> cs_panicked s'))"
proof -
  have k: "cs_workers (stop_all order s) = cs_workers s" "cs_holding (stop_all order s) = cs_holding s"
    using closing_keeps [where order = order and s = "s\<lparr>cs_canceled := True\<rparr>"] by (simp_all add: stop_all_def)
  have cl: "c \<in> set (cs_closed (stop_all order s))"
    using closing_closes [OF assms(2), of "s\<lparr>cs_canceled := True\<rparr>"] assms(1) by (simp add: stop_all_def)
  have "cs_panicked (stop_all order (stop_all order s))"
    unfolding stop_all_def [of order "stop_all order s"]
    by (rule closing_again [OF assms(2)]) (use cl k assms(1) in simp_all)
  with cl k show ?thesis by (auto simp: enqueue_def)
qed

theorem stop_all_panics_witness: "cs_panicked (stop_all [''irc'', ''line''] (stop_all [''irc'', ''line''] two_chats))"
  using stop_all_panics [of two_chats "''irc''" "[''irc'', ''line'']"] by (simp add: two_chats_def start_all_def)

section \<open>Delivery of a text\<close>

lemma pre_send_shape:
  "\<exists>new m' w' ok. pre_send ce name chatID content (tr, m, w) = (ok, tr @ new, m', w') \<and> tries new = [] \<and> waited new = 0 \<and>
    cm_placeholders m' (chat_key name chatID) = None \<and> (cm_placeholders m (chat_key name chatID) = None \<longrightarrow> \<not> ok)"
proof -
  let ?key = "chat_key name chatID"
  let ?a = "(case cm_typingStops m ?key of None \<Rightarrow> [] | Some (s, _) \<Rightarrow> [StopTyping s]) @
    (case cm_reactionUndos m ?key of None \<Rightarrow> [] | Some (u, _) \<Rightarrow> [UndoReaction u])"
  let ?m = "m\<lparr>cm_typingStops := (cm_typingStops m)(?key := None), cm_reactionUndos := (cm_reactionUndos m)(?key := None),
      cm_placeholders := (cm_placeholders m)(?key := None)\<rparr>"
  have a: "tries ?a = [] \<and> waited ?a = 0"
    by (cases "cm_typingStops m ?key"; cases "cm_reactionUndos m ?key") auto
  have m: "cm_placeholders ?m ?key = None" by simp
  consider (plain) "pre_send ce name chatID content (tr, m, w) = (False, tr @ ?a, ?m, w)"
    | (edit) pid ok w' where "pre_send ce name chatID content (tr, m, w) = (ok, tr @ ?a @ [Edited chatID pid content ok], ?m, w')"
        "cm_placeholders m ?key \<noteq> None"
  proof (cases "cm_placeholders m ?key")
    case None
    then show thesis by (intro plain) (simp add: pre_send_def Let_def)
  next
    case (Some e)
    obtain pid t where e: "e = (pid, t)" by fastforce
    show thesis
    proof (cases "pid = [] \<or> ce_Edit ce = None")
      case True
      with Some e show thesis by (intro plain) (auto simp: pre_send_def Let_def)
    next
      case False
      then obtain f where f: "ce_Edit ce = Some f" "pid \<noteq> []" by auto
      obtain ok w' where r: "f chatID pid content w = (ok, w')" by fastforce
      from Some e f r show thesis by (intro edit [of ok pid w']) (simp_all add: pre_send_def Let_def)
    qed
  qed
  then show ?thesis
  proof cases
    case plain
    with a m show ?thesis by (intro exI [of _ ?a] exI [of _ ?m] exI [of _ w] exI [of _ False]) simp
  next
    case (edit pid ok w')
    have "tries (?a @ [Edited chatID pid content ok]) = [] \<and> waited (?a @ [Edited chatID pid content ok]) = 0"
      using a by (simp only: tries_append waited_append tries.simps waited.simps append_Nil2 add_0_right)
    with edit m show ?thesis
      by (intro exI [of _ "?a @ [Edited chatID pid content ok]"] exI [of _ ?m] exI [of _ w'] exI [of _ ok]) auto
  qed
qed

lemma send_budget: "wait_budget max_send_retries = seconds 4"
  by (simp add: max_send_retries_def backoff_delay_def numeral_3_eq_3)

text \<open>
  Bounds of a send: a message is tried at most four times and the worker waits at most four seconds for it; only
  rate limits, temporary and unknown errors are tried again, and it is not tried at all exactly when the context is
  cancelled or the placeholder was edited into the message.
\<close>

theorem sends_bounded:
  assumes "send_with_retry ce canceled name chatID content ([], m, w) = (tr, m', w')"
  shows "length (tries tr) \<le> 4 \<and> waited tr \<le> seconds 4 \<and> list_all retriable (butlast (tries tr)) \<and>
    (tries tr = [] \<longleftrightarrow> canceled \<or> fst (pre_send ce name chatID content ([], m, w)))"
proof (cases canceled)
  case True
  with assms show ?thesis by (simp add: send_with_retry_def)
next
  case False
  from pre_send_shape [of ce name chatID content "[]" m w] obtain new m1 w1 ok where
    p: "pre_send ce name chatID content ([], m, w) = (ok, [] @ new, m1, w1)" "tries new = []" "waited new = 0"
    by blast
  show ?thesis
  proof (cases ok)
    case True
    with False p assms show ?thesis by (simp add: send_with_retry_def)
  next
    case not_ok: False
    obtain tr1 w2 where a: "send_attempts ce (ce_Send ce chatID content) (SendTry chatID content) max_send_retries (new, w1) = (tr1, w2)"
      by fastforce
    with not_ok False p assms have t: "tr = tr1" by (simp add: send_with_retry_def)
    have "\<exists>more. fst (send_attempts ce (ce_Send ce chatID content) (SendTry chatID content) max_send_retries (new, w1)) = new @ more \<and>
        tries more \<noteq> [] \<and> length (tries more) \<le> Suc max_send_retries \<and> list_all retriable (butlast (tries more)) \<and>
        waited more \<le> wait_budget max_send_retries"
      by (rule send_attempts_shape) simp_all
    then obtain later where "tr = new @ later" "tries later \<noteq> []" "length (tries later) \<le> Suc max_send_retries"
        "list_all retriable (butlast (tries later))" "waited later \<le> wait_budget max_send_retries"
      by (auto simp: a t)
    with p False not_ok send_budget show ?thesis by (simp add: max_send_retries_def)
  qed
qed

definition flaky_channel :: "nat channel_env" where
  "flaky_channel = \<lparr>ce_Send = (\<lambda>_ _ n. (if n = 0 then None else Some ErrRateLimit, n - 1)), ce_SendMedia = None, ce_Edit = None,
     ce_MaxLength = 6, ce_Placeholder = None, ce_After = (\<lambda>_ n. (True, n))\<rparr>"

theorem sends_bounded_witness:
  "waited (fst (send_with_retry flaky_channel False ''irc'' ''#a'' [104] ([], no_marks, 9))) \<le> seconds 4"
proof -
  obtain tr m' w' where r: "send_with_retry flaky_channel False ''irc'' ''#a'' [104] ([], no_marks, 9) = (tr, m', w')"
    by (metis prod_cases3)
  from sends_bounded [OF r] show ?thesis by (simp only: r fst_conv)
qed

fun sent_texts :: "chat_event list \<Rightarrow> runes list" where
  "sent_texts [] = []"
| "sent_texts (SendTry i t None # es) = t # sent_texts es"
| "sent_texts (_ # es) = sent_texts es"

lemma sent_texts_append [simp]: "sent_texts (xs @ ys) = sent_texts xs @ sent_texts ys"
  by (induction xs rule: sent_texts.induct) simp_all

lemma send_reliable:
  assumes "\<And>i t w. fst (ce_Send ce i t w) = None" "cm_placeholders m (chat_key name chatID) = None"
  shows "\<exists>new m' w'. send_with_retry ce False name chatID content (tr, m, w) = (tr @ new, m', w') \<and>
    sent_texts new = [content] \<and> tries new = [None] \<and> cm_placeholders m' (chat_key name chatID) = None"
proof -
  let ?key = "chat_key name chatID"
  let ?a = "(case cm_typingStops m ?key of None \<Rightarrow> [] | Some (s, _) \<Rightarrow> [StopTyping s]) @
    (case cm_reactionUndos m ?key of None \<Rightarrow> [] | Some (u, _) \<Rightarrow> [UndoReaction u])"
  let ?m = "m\<lparr>cm_typingStops := (cm_typingStops m)(?key := None), cm_reactionUndos := (cm_reactionUndos m)(?key := None),
      cm_placeholders := (cm_placeholders m)(?key := None)\<rparr>"
  have p: "pre_send ce name chatID content (tr, m, w) = (False, tr @ ?a, ?m, w)"
    using assms(2) by (simp add: pre_send_def Let_def)
  obtain w' where s: "ce_Send ce chatID content w = (None, w')" using assms(1) by (metis prod.collapse)
  have "send_with_retry ce False name chatID content (tr, m, w) = (tr @ ?a @ [SendTry chatID content None], ?m, w')"
    unfolding send_with_retry_def p using s by (simp add: max_send_retries_def numeral_3_eq_3)
  moreover have "tries ?a = [] \<and> sent_texts ?a = []"
    by (cases "cm_typingStops m ?key"; cases "cm_reactionUndos m ?key") auto
  then have "sent_texts (?a @ [SendTry chatID content None]) = [content] \<and> tries (?a @ [SendTry chatID content None]) = [None]"
    by (simp only: sent_texts_append tries_append sent_texts.simps tries.simps append_Nil append_Cons append_Nil2)
  ultimately show ?thesis
    by (intro exI [of _ "?a @ [SendTry chatID content None]"] exI [of _ ?m] exI [of _ w']) simp
qed

lemma send_all_reliable:
  assumes "\<And>i t w. fst (ce_Send ce i t w) = None" "cm_placeholders m (chat_key name chatID) = None"
  shows "\<exists>new m' w'. fold (send_with_retry ce False name chatID) chunks (tr, m, w) = (tr @ new, m', w') \<and>
    sent_texts new = chunks \<and> tries new = replicate (length chunks) None"
  using assms(2)
proof (induction chunks arbitrary: tr m w)
  case Nil
  then show ?case by (intro exI [of _ "[]"]) simp
next
  case (Cons c cs)
  from send_reliable [of ce, OF assms(1) Cons.prems, of c tr w] obtain new m1 w1 where
    n: "send_with_retry ce False name chatID c (tr, m, w) = (tr @ new, m1, w1)" "sent_texts new = [c]" "tries new = [None]"
      "cm_placeholders m1 (chat_key name chatID) = None" by blast
  from Cons.IH [OF n(4), of "tr @ new" w1] obtain new' m' w' where
    "fold (send_with_retry ce False name chatID) cs (tr @ new, m1, w1) = ((tr @ new) @ new', m', w')"
      "sent_texts new' = cs" "tries new' = replicate (length cs) None" by blast
  with n show ?case by (intro exI [of _ "new @ new'"] exI [of _ m'] exI [of _ w']) simp
qed

lemma chunks_plain:
  assumes "no_fence content" "0 \<le> max_len"
  shows "\<exists>chunks. message_chunks (Suc (length content)) max_len content = Some chunks \<and> non_ws (concat chunks) = non_ws content \<and>
    (0 < max_len \<longrightarrow> (\<forall>c\<in>set chunks. total c \<le> max_len))"
proof (cases "0 < max_len \<and> total content > max_len")
  case False
  with assms(2) show ?thesis by (auto simp: message_chunks_def)
next
  case True
  from split_loop_plain [OF assms(1), of max_len 0 "Suc (length content)" "[]"] True obtain out where
    l: "split_loop (Suc (length content)) max_len (content, 0, []) = Some (Finished out)" "non_ws (concat out) = non_ws content"
    by auto
  from split_loop_chunks [OF _ _ _ l(1)] True have "\<forall>c\<in>set out. total c \<le> max_len" by simp
  with l True show ?thesis by (auto simp: message_chunks_def split_message_def simp del: split_loop.simps)
qed

text \<open>
  Delivery of a text over a channel that accepts what it is sent: a text without a code fence goes out in one
  message or several, none longer than the channel allows, none tried twice, which together and in order are the text
  up to white space. One turn of the splitter for each rune is enough.
\<close>

theorem plain_text_delivered:
  assumes "\<And>i t w. fst (ce_Send ce i t w) = None" "cm_placeholders m (chat_key name chatID) = None"
    "no_fence content" "0 \<le> ce_MaxLength ce"
  shows "\<exists>tr m' w'. deliver ce (Suc (length content)) False name chatID content ([], m, w) = Some (tr, m', w') \<and>
    non_ws (concat (sent_texts tr)) = non_ws content \<and>
    tries tr = replicate (length (sent_texts tr)) None \<and>
    (0 < ce_MaxLength ce \<longrightarrow> (\<forall>c\<in>set (sent_texts tr). int (length c) \<le> ce_MaxLength ce))"
proof -
  obtain chunks where c: "message_chunks (Suc (length content)) (ce_MaxLength ce) content = Some chunks"
      "non_ws (concat chunks) = non_ws content" "0 < ce_MaxLength ce \<longrightarrow> (\<forall>c\<in>set chunks. total c \<le> ce_MaxLength ce)"
    using chunks_plain [OF assms(3,4)] by blast
  from send_all_reliable [of ce, OF assms(1,2), of chunks "[]" w] obtain new m' w' where
    f: "fold (send_with_retry ce False name chatID) chunks ([], m, w) = (new, m', w')" "sent_texts new = chunks"
      "tries new = replicate (length chunks) None" by auto
  show ?thesis
    using c f by (intro exI [of _ new] exI [of _ m'] exI [of _ w']) (simp add: deliver_def)
qed

definition steady_channel :: "unit channel_env" where
  "steady_channel = \<lparr>ce_Send = (\<lambda>_ _ n. (None, n)), ce_SendMedia = None, ce_Edit = None,
     ce_MaxLength = 6, ce_Placeholder = None, ce_After = (\<lambda>_ n. (True, n))\<rparr>"

theorem plain_text_delivered_witness:
  "\<exists>tr m' w'. deliver steady_channel (Suc (length two_words)) False ''irc'' ''#a'' two_words ([], no_marks, ()) = Some (tr, m', w') \<and>
    concat (sent_texts tr) \<noteq> []"
proof -
  from plain_text_delivered [of steady_channel no_marks "''irc''" "''#a''" two_words "()"] two_words(1)
  obtain tr m' w' where d: "deliver steady_channel (Suc (length two_words)) False ''irc'' ''#a'' two_words ([], no_marks, ()) = Some (tr, m', w')"
    "non_ws (concat (sent_texts tr)) = non_ws two_words"
    by (auto simp: steady_channel_def no_marks_def)
  with two_words(2) have "concat (sent_texts tr) \<noteq> []" by (metis filter.simps(1))
  with d(1) show ?thesis by blast
qed

section \<open>Indicators\<close>

text \<open>
  Typing indicators are accounted for: whatever order typing, reactions and placeholders are recorded, replies go out
  and the janitor runs in, a typing indicator that was recorded has been stopped or is still pending.
\<close>

theorem typing_indicators_accounted:
  assumes "n \<in> typing_handles ops"
  shows "typing_accounted n (fold mark_do ops ([], no_marks))"
  by (rule mark_run_accounts) (rule disjI1 [OF assms])

theorem typing_indicators_accounted_witness:
  "typing_accounted 7 (fold mark_do [RecordTyping 0 ''irc'' ''a'' 7, RecordTyping 5 ''irc'' ''a'' 8] ([], no_marks))"
  by (rule typing_indicators_accounted) simp

text \<open>
  Reactions are not: a second reaction for a chat replaces the first one, whose undo function is then never
  called, whatever happens afterwards.
\<close>

fun fresh_reaction :: "nat \<Rightarrow> mark_op \<Rightarrow> bool" where
  "fresh_reaction n (RecordReaction now c i m) = (m \<noteq> n)"
| "fresh_reaction n _ = True"

definition reaction_gone :: "nat \<Rightarrow> chat_event list \<times> chat_marks \<Rightarrow> bool" where
  "reaction_gone n st \<longleftrightarrow> UndoReaction n \<notin> set (fst st) \<and> (\<forall>k t. cm_reactionUndos (snd st) k \<noteq> Some (n, t))"

lemma janitor_reaction_gone: "reaction_gone n st \<Longrightarrow> reaction_gone n (janitor_reaction now k st)"
  by (cases st; cases "cm_reactionUndos (snd st) k") (auto simp: reaction_gone_def janitor_reaction_def split: if_splits)

lemma janitor_typing_gone: "reaction_gone n st \<Longrightarrow> reaction_gone n (janitor_typing now k st)"
  by (cases st; cases "cm_typingStops (snd st) k") (auto simp: reaction_gone_def janitor_typing_def split: if_splits)

lemma janitor_placeholder_gone: "cm_reactionUndos (fold (janitor_placeholder now) ks m) = cm_reactionUndos m"
proof (induction ks arbitrary: m)
  case (Cons k ks)
  have "cm_reactionUndos (janitor_placeholder now k m) = cm_reactionUndos m"
    by (cases "cm_placeholders m k") (auto simp: janitor_placeholder_def)
  with Cons show ?case by simp
qed simp

lemma mark_do_gone:
  assumes "reaction_gone n st" "fresh_reaction n op"
  shows "reaction_gone n (mark_do op st)"
proof -
  obtain evs m where st: "st = (evs, m)" by fastforce
  note g = assms(1) [unfolded st]
  show ?thesis
  proof (cases op)
    case (RecordTyping now c i k)
    show ?thesis using g
      by (auto simp: RecordTyping st record_typing_stop_def Let_def reaction_gone_def split: option.split)
  next
    case (RecordReaction now c i k)
    show ?thesis using g assms(2) by (auto simp: RecordReaction st record_reaction_undo_def reaction_gone_def)
  next
    case (RecordPlaceholder now c i p)
    show ?thesis using g by (simp add: RecordPlaceholder st record_placeholder_def reaction_gone_def)
  next
    case (PreSend c i)
    obtain ok evs' m' u where ps: "pre_send no_editor c i [] (evs, m, ()) = (ok, evs', m', u)" by (metis prod_cases4)
    then have "reaction_gone n (evs', m')" using g
      by (auto simp: pre_send_def no_editor_def Let_def reaction_gone_def split: option.splits prod.splits if_splits)
    then show ?thesis by (simp add: PreSend st ps)
  next
    case (Janitor now ts rs ps)
    obtain evs1 m1 where j: "fold (janitor_reaction now) rs (fold (janitor_typing now) ts ([], m)) = (evs1, m1)" by fastforce
    from g have "reaction_gone n ([], m)" by (simp add: reaction_gone_def)
    from fold_keeps [where P = "reaction_gone n", OF janitor_reaction_gone
        fold_keeps [where P = "reaction_gone n", OF janitor_typing_gone this]]
    have "reaction_gone n (evs1, m1)" unfolding j [symmetric] .
    with g show ?thesis by (auto simp: Janitor st run_ttl_janitor_def j reaction_gone_def janitor_placeholder_gone)
  qed
qed

lemma marks_run_gone: "reaction_gone n st \<Longrightarrow> list_all (fresh_reaction n) ops \<Longrightarrow> reaction_gone n (fold mark_do ops st)"
  by (induction ops arbitrary: st) (simp_all add: mark_do_gone)

theorem reaction_undo_lost:
  assumes "first \<noteq> second" "list_all (fresh_reaction first) ops"
  shows "UndoReaction first \<notin>
    set (fst (fold mark_do (RecordReaction t c i first # RecordReaction u c i second # ops) ([], no_marks)))"
proof -
  have "reaction_gone first (mark_do (RecordReaction u c i second) (mark_do (RecordReaction t c i first) ([], no_marks)))"
    using assms(1) by (simp add: record_reaction_undo_def reaction_gone_def no_marks_def)
  from marks_run_gone [OF this assms(2)] show ?thesis by (simp add: reaction_gone_def del: mark_do.simps)
qed

theorem reaction_undo_lost_witness:
  "UndoReaction 1 \<notin> set (fst (fold mark_do
     [RecordReaction 0 ''line'' ''a'' 1, RecordReaction 1 ''line'' ''a'' 2, PreSend ''line'' ''a''] ([], no_marks)))"
  by (rule reaction_undo_lost) simp_all

end
