(* ===== verification/File_Path.thy ===== *)
theory File_Path imports Prelude begin

text \<open>
  The functions of Go's \<open>path/filepath\<close> that the tools on files and commands call, on a Unix system, as
  documented: \<open>Clean\<close>, \<open>IsAbs\<close>, \<open>Join\<close> of two elements, \<open>Abs\<close>, \<open>Dir\<close>, \<open>Base\<close>, \<open>Rel\<close> and
  \<open>IsLocal\<close>; with \<open>isWithinWorkspace\<close> of \<open>pkg/tools/filesystem.go\<close>, the test on which the
  confinement to the workspace rests. The main result is what that test decides: whether the elements of
  the cleaned workspace are the first elements of the cleaned path.
\<close>

section \<open>Elements of a path\<close>

abbreviation slash :: char where
  "slash \<equiv> CHR ''/''"

fun segments :: "gostr \<Rightarrow> gostr list" where
  "segments [] = [[]]"
| "segments (c # s) =
     (if c = slash then [] # segments s
      else (case segments s of [] \<Rightarrow> [[c]] | t # ts \<Rightarrow> (c # t) # ts))"

fun join_segs :: "gostr list \<Rightarrow> gostr" where
  "join_segs [] = []"
| "join_segs [x] = x"
| "join_segs (x # y # xs) = x @ slash # join_segs (y # xs)"

definition is_abs :: "gostr \<Rightarrow> bool" where
  "is_abs p = has_prefix p ''/''"

text \<open>An element in \<open>Clean\<close>; \<open>st\<close> are the elements kept so far, the last one first.\<close>

definition clean_seg :: "bool \<Rightarrow> gostr \<Rightarrow> gostr list \<Rightarrow> gostr list" where
  "clean_seg rooted x st =
     (if x = [] \<or> x = ''.'' then st
      else if x = ''..''
      then (if st \<noteq> [] \<and> hd st \<noteq> ''..'' then tl st else if rooted then st else x # st)
      else x # st)"

definition clean_segs :: "gostr \<Rightarrow> gostr list" where
  "clean_segs p = rev (fold (clean_seg (is_abs p)) (segments p) [])"

definition clean :: "gostr \<Rightarrow> gostr" where
  "clean p = (if is_abs p then slash # join_segs (clean_segs p)
              else if clean_segs p = [] then ''.'' else join_segs (clean_segs p))"

definition path_join :: "gostr \<Rightarrow> gostr \<Rightarrow> gostr" where
  "path_join a b =
     (if a = [] then (if b = [] then [] else clean b)
      else if b = [] then clean a else clean (a @ slash # b))"

text \<open>\<open>Abs\<close> for the working directory \<open>wd\<close> of the process.\<close>

definition path_abs :: "gostr \<Rightarrow> gostr \<Rightarrow> gostr" where
  "path_abs wd p = (if is_abs p then clean p else path_join wd p)"

definition path_dir :: "gostr \<Rightarrow> gostr" where
  "path_dir p = clean (rev (dropWhile (\<lambda>c. c \<noteq> slash) (rev p)))"

definition path_base :: "gostr \<Rightarrow> gostr" where
  "path_base p =
     (if p = [] then ''.''
      else let q = rev (dropWhile (\<lambda>c. c = slash) (rev p)) in
           if q = [] then ''/'' else last (segments q))"

text \<open>The elements left of two lists after the elements they share.\<close>

fun drop_common :: "gostr list \<Rightarrow> gostr list \<Rightarrow> gostr list \<times> gostr list" where
  "drop_common (x # xs) (y # ys) = (if x = y then drop_common xs ys else (x # xs, y # ys))"
| "drop_common xs ys = (xs, ys)"

definition path_rel :: "gostr \<Rightarrow> gostr \<Rightarrow> gostr option" where
  "path_rel base targ =
     (if clean targ = clean base then Some ''.''
      else if is_abs base \<noteq> is_abs targ then None
      else (case drop_common (clean_segs base) (if clean targ = ''.'' then [''.''] else clean_segs targ) of
              (bs, ts) \<Rightarrow>
                if bs \<noteq> [] \<and> ts \<noteq> [] \<and> hd bs = ''..'' then None
                else Some (join_segs (replicate (length bs) ''..'' @ ts))))"

definition is_local :: "gostr \<Rightarrow> bool" where
  "is_local p =
     (if is_abs p \<or> p = [] then False
      else let q = (if ''.'' \<in> set (segments p) \<or> ''..'' \<in> set (segments p) then clean p else p)
           in q \<noteq> ''..'' \<and> \<not> has_prefix q ''../'')"

definition is_within_workspace :: "gostr \<Rightarrow> gostr \<Rightarrow> bool" where
  "is_within_workspace candidate workspace =
     (case path_rel (clean workspace) (clean candidate) of None \<Rightarrow> False | Some rel \<Rightarrow> is_local rel)"

section \<open>Elements\<close>

definition plain_seg :: "gostr \<Rightarrow> bool" where
  "plain_seg x \<longleftrightarrow> x \<noteq> [] \<and> slash \<notin> set x"

definition name_seg :: "gostr \<Rightarrow> bool" where
  "name_seg x \<longleftrightarrow> plain_seg x \<and> x \<noteq> ''.'' \<and> x \<noteq> ''..''"

lemma segments_not_Nil [simp]: "segments s \<noteq> []"
  by (cases s) (auto split: list.splits)

lemma segments_no_slash: "slash \<notin> set x \<Longrightarrow> segments x = [x]"
  by (induction x) auto

lemma segments_append_slash: "slash \<notin> set x \<Longrightarrow> segments (x @ slash # s) = x # segments s"
  by (induction x) auto

lemma segments_join: "xs \<noteq> [] \<Longrightarrow> \<forall>x\<in>set xs. slash \<notin> set x \<Longrightarrow> segments (join_segs xs) = xs"
  by (induction xs rule: join_segs.induct) (simp_all add: segments_no_slash segments_append_slash)

lemma segments_slash_free: "x \<in> set (segments s) \<Longrightarrow> slash \<notin> set x"
proof (induction s arbitrary: x)
  case (Cons c s)
  then show ?case by (cases "segments s") (auto split: if_splits)
qed simp

lemma join_segs_eq_Nil: "join_segs xs = [] \<longleftrightarrow> xs = [] \<or> xs = [[]]"
  by (cases xs rule: join_segs.cases) auto

lemma is_abs_join: "\<forall>x\<in>set xs. plain_seg x \<Longrightarrow> \<not> is_abs (join_segs xs)"
  by (cases xs rule: join_segs.cases; cases "hd xs") (auto simp: is_abs_def plain_seg_def has_prefix_def)

lemma is_abs_Cons [simp]: "is_abs (c # s) \<longleftrightarrow> c = slash"
  by (auto simp: is_abs_def has_prefix_def)

lemma is_abs_Nil [simp]: "\<not> is_abs []"
  by (simp add: is_abs_def)

lemma plain_dots [simp]: "plain_seg ''..''" "plain_seg ''.''"
  by (simp_all add: plain_seg_def)

lemma name_plain: "name_seg x \<Longrightarrow> plain_seg x"
  by (simp add: name_seg_def)

text \<open>What \<open>Clean\<close> keeps of an absolute path are names.\<close>

lemma clean_seg_names:
  assumes "\<forall>x\<in>set st. name_seg x" "slash \<notin> set x"
  shows "\<forall>y\<in>set (clean_seg True x st). name_seg y"
  using assms by (cases st) (auto simp: clean_seg_def name_seg_def plain_seg_def)

lemma clean_fold_names:
  "\<forall>x\<in>set st. name_seg x \<Longrightarrow> \<forall>x\<in>set xs. slash \<notin> set x \<Longrightarrow> \<forall>y\<in>set (fold (clean_seg True) xs st). name_seg y"
proof (induction xs arbitrary: st)
  case (Cons x xs)
  then have "slash \<notin> set x" by simp
  from Cons.IH [OF clean_seg_names [OF Cons.prems(1) this]] Cons.prems(2) show ?case by simp
qed simp

lemma clean_segs_names: "is_abs p \<Longrightarrow> \<forall>x\<in>set (clean_segs p). name_seg x"
  using clean_fold_names [of "[]" "segments p"] by (auto simp: clean_segs_def dest: segments_slash_free)

lemma clean_fold_id: "\<forall>x\<in>set xs. name_seg x \<Longrightarrow> fold (clean_seg b) xs st = rev xs @ st"
  by (induction xs arbitrary: st) (auto simp: clean_seg_def name_seg_def plain_seg_def)

lemma clean_segs_abs_join: "\<forall>x\<in>set xs. name_seg x \<Longrightarrow> clean_segs (slash # join_segs xs) = xs"
proof (cases "xs = []")
  case False
  assume n: "\<forall>x\<in>set xs. name_seg x"
  then have "\<forall>x\<in>set xs. slash \<notin> set x" by (auto simp: name_seg_def plain_seg_def)
  with False have "segments (slash # join_segs xs) = [] # xs" by (simp add: segments_join)
  with clean_fold_id [OF n] show ?thesis by (simp add: clean_segs_def) (simp add: clean_seg_def)
qed (simp add: clean_segs_def clean_seg_def)

lemma clean_abs: "is_abs p \<Longrightarrow> is_abs (clean p) \<and> clean_segs (clean p) = clean_segs p"
  by (simp add: clean_def clean_segs_abs_join clean_segs_names)

lemma clean_clean_abs: "is_abs p \<Longrightarrow> clean (clean p) = clean p"
  using clean_abs [of p] by (simp add: clean_def [of "clean p"]) (simp add: clean_def)

lemma join_segs_inj:
  assumes "\<forall>x\<in>set xs. plain_seg x" "\<forall>x\<in>set ys. plain_seg x" "join_segs xs = join_segs ys"
  shows "xs = ys"
proof (cases "xs = [] \<or> ys = []")
  case True
  with assms(3) have "join_segs xs = []" "join_segs ys = []" by auto
  with assms(1,2) show ?thesis by (auto simp: join_segs_eq_Nil plain_seg_def)
next
  case False
  with assms show ?thesis by (metis plain_seg_def segments_join)
qed

lemma clean_eq_iff: "is_abs p \<Longrightarrow> is_abs q \<Longrightarrow> clean p = clean q \<longleftrightarrow> clean_segs p = clean_segs q"
  by (metis clean_abs clean_def)

lemma is_abs_append: "is_abs p \<Longrightarrow> is_abs (p @ q)"
  by (cases p) auto

lemma path_abs_clean:
  assumes "is_abs wd"
  shows "is_abs (path_abs wd y) \<and> clean (path_abs wd y) = path_abs wd y"
proof -
  have "wd \<noteq> []" using assms by auto
  then have "path_abs wd y = clean (if is_abs y then y else if y = [] then wd else wd @ slash # y)"
    by (simp add: path_abs_def path_join_def)
  moreover have "is_abs (if is_abs y then y else if y = [] then wd else wd @ slash # y)"
    using assms by (simp add: is_abs_append)
  ultimately show ?thesis using clean_abs clean_clean_abs by metis
qed

text \<open>What \<open>Clean\<close> keeps of a relative path: steps up, then names.\<close>

lemma clean_seg_dots:
  assumes "st = ns @ replicate k ''..''" "\<forall>x\<in>set ns. name_seg x" "slash \<notin> set x"
  shows "\<exists>ns' k'. clean_seg False x st = ns' @ replicate k' ''..'' \<and> (\<forall>y\<in>set ns'. name_seg y)"
proof -
  consider "x = [] \<or> x = ''.''" | (up) "x = ''..''" | (name) "name_seg x"
    using assms(3) by (auto simp: name_seg_def plain_seg_def)
  then show ?thesis
  proof cases
    case up
    show ?thesis
    proof (cases ns)
      case Nil
      have "clean_seg False x st = [] @ replicate (Suc k) ''..''"
        using assms(1) Nil up by (cases k) (simp_all add: clean_seg_def)
      then show ?thesis by (metis empty_iff empty_set)
    next
      case (Cons n ms)
      with assms up show ?thesis by (intro exI [of _ ms] exI [of _ k]) (auto simp: clean_seg_def name_seg_def)
    qed
  next
    case name
    with assms show ?thesis
      by (intro exI [of _ "x # ns"] exI [of _ k]) (auto simp: clean_seg_def name_seg_def plain_seg_def)
  qed (use assms in \<open>auto simp: clean_seg_def\<close>)
qed

lemma clean_segs_rel:
  assumes "\<not> is_abs p"
  shows "\<exists>k ns. clean_segs p = replicate k ''..'' @ ns \<and> (\<forall>x\<in>set ns. name_seg x)"
proof -
  have "\<exists>ns k. fold (clean_seg False) xs st = ns @ replicate k ''..'' \<and> (\<forall>x\<in>set ns. name_seg x)"
    if "\<exists>ns k. st = ns @ replicate k ''..'' \<and> (\<forall>x\<in>set ns. name_seg x)" "\<forall>x\<in>set xs. slash \<notin> set x" for xs st
    using that
  proof (induction xs arbitrary: st)
    case (Cons x xs)
    from Cons.prems(1) obtain ns k where "st = ns @ replicate k ''..''" "\<forall>x\<in>set ns. name_seg x" by blast
    from clean_seg_dots [OF this, of x] Cons.prems(2) Cons.IH [of "clean_seg False x st"] show ?case by auto
  qed simp
  from this [of "[]" "segments p"] obtain ns k where
    "fold (clean_seg False) (segments p) [] = ns @ replicate k ''..''" "\<forall>x\<in>set ns. name_seg x"
    by (auto dest: segments_slash_free)
  with assms have "clean_segs p = replicate k ''..'' @ rev ns" by (simp add: clean_segs_def)
  with \<open>\<forall>x\<in>set ns. name_seg x\<close> show ?thesis by (intro exI [of _ k] exI [of _ "rev ns"]) simp
qed

section \<open>What the test for the workspace decides\<close>

lemma drop_common_split: "drop_common xs ys = (bs, ts) \<Longrightarrow> \<exists>cs. xs = cs @ bs \<and> ys = cs @ ts \<and> (bs = [] \<or> ts = [] \<or> hd bs \<noteq> hd ts)"
proof (induction xs ys rule: drop_common.induct)
  case (1 x xs y ys)
  then show ?case
  proof (cases "x = y")
    case True
    with 1 obtain cs where "xs = cs @ bs \<and> ys = cs @ ts \<and> (bs = [] \<or> ts = [] \<or> hd bs \<noteq> hd ts)" by auto
    with True show ?thesis by (intro exI [of _ "x # cs"]) simp
  qed auto
qed auto

lemma prefix_common: "xs = cs @ bs \<Longrightarrow> ys = cs @ ts \<Longrightarrow> bs = [] \<or> ts = [] \<or> hd bs \<noteq> hd ts \<Longrightarrow> prefix xs ys \<longleftrightarrow> bs = []"
  by (cases bs; cases ts) auto

lemma has_prefix_dots: "plain_seg x \<Longrightarrow> has_prefix (join_segs (x # xs)) ''../'' \<longleftrightarrow> x = ''..'' \<and> xs \<noteq> []"
proof (cases xs)
  case Nil
  assume "plain_seg x"
  with Nil show ?thesis by (auto simp: has_prefix_iff plain_seg_def prefix_def)
next
  case (Cons y ys)
  assume p: "plain_seg x"
  have "prefix ''../'' (x @ slash # t) \<longleftrightarrow> x = ''..''" for t
    using p by (cases x; cases "tl x"; cases "tl (tl x)") (auto simp: plain_seg_def)
  with Cons show ?thesis by (simp add: has_prefix_iff)
qed

lemma is_local_names:
  assumes "\<forall>x\<in>set xs. name_seg x" "xs \<noteq> []"
  shows "is_local (join_segs xs)"
proof -
  from assms have s: "segments (join_segs xs) = xs"
    by (intro segments_join) (auto simp: name_seg_def plain_seg_def)
  obtain y ys where y: "xs = y # ys" using assms(2) by (cases xs) auto
  with assms have n: "plain_seg y" "y \<noteq> ''..''" by (auto simp: name_seg_def)
  from assms have "\<not> is_abs (join_segs xs)" "join_segs xs \<noteq> []"
    by (auto simp: is_abs_join name_plain join_segs_eq_Nil) (auto simp: name_seg_def plain_seg_def)
  moreover from assms have "''.'' \<notin> set xs" "''..'' \<notin> set xs" by (auto simp: name_seg_def)
  moreover have "join_segs xs \<noteq> ''..''"
    using s n y segments_no_slash [of "''..''"] by auto
  ultimately show ?thesis using has_prefix_dots [OF n(1), of ys] n(2) unfolding is_local_def s by (simp add: y)
qed

lemma clean_fold_dots: "fold (clean_seg False) (replicate n ''..'') (replicate k ''..'') = replicate (n + k) ''..''"
proof (induction n arbitrary: k)
  case (Suc n)
  have "clean_seg False ''..'' (replicate k ''..'') = replicate (Suc k) ''..''"
    by (cases k) (simp_all add: clean_seg_def)
  with Suc.IH [of "Suc k"] show ?case by simp
qed simp

lemma not_local_dots:
  assumes "\<forall>x\<in>set ts. name_seg x"
  shows "\<not> is_local (join_segs (replicate (Suc n) ''..'' @ ts))"
proof -
  let ?xs = "replicate (Suc n) ''..'' @ ts"
  have pl: "\<forall>x\<in>set ?xs. plain_seg x" using assms by (auto simp: name_plain)
  then have s: "segments (join_segs ?xs) = ?xs" by (intro segments_join) (auto simp: plain_seg_def)
  from pl have a: "\<not> is_abs (join_segs ?xs)" by (rule is_abs_join)
  have "fold (clean_seg False) ?xs [] = rev ts @ replicate (Suc n) ''..''"
    using clean_fold_dots [of "Suc n" 0] clean_fold_id [OF assms, of False]
    by (simp only: fold_append comp_apply replicate_0 add_0_right)
  with a s have "clean_segs (join_segs ?xs) = ?xs" by (simp add: clean_segs_def del: replicate.simps)
  with a have c: "clean (join_segs ?xs) = join_segs (''..'' # replicate n ''..'' @ ts)" by (simp add: clean_def)
  have "''..'' \<in> set (segments (join_segs ?xs))" unfolding s by simp
  then have "is_local (join_segs ?xs) \<Longrightarrow> False"
    using has_prefix_dots [of "''..''" "replicate n ''..'' @ ts"]
    unfolding is_local_def c by (cases "replicate n ''..'' @ ts = []") (auto simp: Let_def split: if_splits)
  then show ?thesis by blast
qed

lemma rel_local_iff:
  assumes "is_abs b" "is_abs t"
  shows "(case path_rel b t of None \<Rightarrow> False | Some r \<Rightarrow> is_local r) \<longleftrightarrow> prefix (clean_segs b) (clean_segs t)"
proof (cases "clean t = clean b")
  case True
  with assms have "clean_segs b = clean_segs t" by (simp add: clean_eq_iff)
  moreover have "is_local ''.''" by (simp add: is_local_def clean_def clean_segs_def clean_seg_def)
  ultimately show ?thesis using True by (simp add: path_rel_def)
next
  case False
  obtain bs ts where d: "drop_common (clean_segs b) (clean_segs t) = (bs, ts)" by fastforce
  from drop_common_split [OF d] obtain cs where
    c: "clean_segs b = cs @ bs" "clean_segs t = cs @ ts" "bs = [] \<or> ts = [] \<or> hd bs \<noteq> hd ts" by blast
  have nb: "\<forall>x\<in>set bs. name_seg x" and nt: "\<forall>x\<in>set ts. name_seg x"
    using clean_segs_names [OF assms(1)] clean_segs_names [OF assms(2)] c(1,2) by auto
  have "clean t \<noteq> ''.''" using assms(2) clean_abs [of t] by auto
  moreover have "bs \<noteq> [] \<Longrightarrow> hd bs \<noteq> ''..''" using nb by (cases bs) (auto simp: name_seg_def)
  ultimately have r: "path_rel b t = Some (join_segs (replicate (length bs) ''..'' @ ts))"
    using False assms by (auto simp: path_rel_def d)
  have p: "prefix (clean_segs b) (clean_segs t) \<longleftrightarrow> bs = []" by (rule prefix_common [OF c])
  show ?thesis
  proof (cases bs)
    case Nil
    with False assms c have "ts \<noteq> []" by (auto simp: clean_eq_iff)
    with Nil r p is_local_names [OF nt] show ?thesis by simp
  next
    case (Cons x xs)
    with r p not_local_dots [OF nt, of "length xs"] show ?thesis by simp
  qed
qed

text \<open>
  The test for the workspace is exact on absolute paths: it accepts a path exactly when the elements of the cleaned
  workspace are the first elements of the cleaned path, whole elements at a time.
\<close>

theorem within_workspace_iff:
  assumes "is_abs workspace" "is_abs candidate"
  shows "is_within_workspace candidate workspace \<longleftrightarrow> prefix (clean_segs workspace) (clean_segs candidate)"
  using rel_local_iff [of "clean workspace" "clean candidate"] clean_abs [OF assms(1)] clean_abs [OF assms(2)]
  by (simp add: is_within_workspace_def)

theorem within_workspace_iff_witness: "\<not> is_within_workspace ''/work/../workspace2/a'' ''/work''"
proof -
  have a: "is_abs ''/work''" "is_abs ''/work/../workspace2/a''" by simp_all
  have "\<not> prefix (clean_segs ''/work'') (clean_segs ''/work/../workspace2/a'')"
    by (simp add: clean_segs_def clean_seg_def)
  with within_workspace_iff [OF a] show ?thesis by blast
qed

end
