(* ===== verification/Sandbox.thy ===== *)
theory Sandbox imports File_Path "HOL-Library.List_Lexorder" begin

text \<open>
  The file systems behind the file tools, \<open>pkg/tools/filesystem.go\<close>: the host, the sandbox over
  \<open>os.Root\<close> and the sandbox with exceptions, the choice between them, and \<open>validatePath\<close>; with the
  atomic write of \<open>pkg/fileutil/file.go\<close>.

  A tree of files is an association list from absolute paths, as lists of elements, to files, directories
  and symbolic links. Paths are resolved as the kernel and \<open>os.Root\<close> document it: element by element,
  links followed, up to a number of links; a walk inside a root fails when it would leave it. Permissions,
  full disks and the syncing of files are left out.
\<close>

section \<open>Files\<close>

datatype node = RegularFile gostr | Directory | Symlink gostr

type_synonym tree = "(gostr list \<times> node) list"

datatype fs_error =
  NotExist | NotDirectory | IsDirectory | TooManyLinks | EscapesRoot | AlreadyExists
| NoWorkspace | EscapesWorkspace | NotRelative | OutsideWorkspace | SymlinkOutside

definition node_at :: "tree \<Rightarrow> gostr list \<Rightarrow> node option" where
  "node_at t p = (if p = [] then Some Directory else map_of t p)"

definition put_node :: "gostr list \<Rightarrow> node \<Rightarrow> tree \<Rightarrow> tree" where
  "put_node p n t = (p, n) # filter (\<lambda>e. fst e \<noteq> p) t"

definition remove_node :: "gostr list \<Rightarrow> tree \<Rightarrow> tree" where
  "remove_node p t = filter (\<lambda>e. fst e \<noteq> p) t"

text \<open>
  A walk from the directory \<open>cur\<close> below the root \<open>R\<close> along the elements; \<open>l\<close> more links may be followed. A walk
  that is \<open>jailed\<close> is one of \<open>os.Root\<close>; one that is not, with the root \<open>[]\<close>, is one of the kernel.
\<close>

function walk :: "bool \<Rightarrow> gostr list \<Rightarrow> tree \<Rightarrow> nat \<Rightarrow> gostr list \<Rightarrow> gostr list \<Rightarrow> fs_error + gostr list" where
  "walk jailed R t l cur [] = Inr cur"
| "walk jailed R t l cur (c # cs) =
     (if c = [] \<or> c = ''.'' then walk jailed R t l cur cs
      else if c = ''..'' then (if cur = [] \<and> jailed then Inl EscapesRoot else walk jailed R t l (butlast cur) cs)
      else (case node_at t (R @ cur @ [c]) of
              None \<Rightarrow> Inl NotExist
            | Some Directory \<Rightarrow> walk jailed R t l (cur @ [c]) cs
            | Some (RegularFile d) \<Rightarrow> if cs = [] then Inr (cur @ [c]) else Inl NotDirectory
            | Some (Symlink target) \<Rightarrow>
                (case l of
                   0 \<Rightarrow> Inl TooManyLinks
                 | Suc l' \<Rightarrow>
                     if is_abs target
                     then (if jailed then Inl EscapesRoot else walk jailed R t l' [] (segments target @ cs))
                     else walk jailed R t l' cur (segments target @ cs))))"
  by pat_completeness auto
termination
  by (relation "measures [\<lambda>(j, R, t, l, cur, cs). l, \<lambda>(j, R, t, l, cur, cs). length cs]") auto

definition kernel_links :: nat where
  "kernel_links = 40"

definition root_links :: nat where
  "root_links = 8"

definition eval_links :: nat where
  "eval_links = 255"

definition host_walk :: "nat \<Rightarrow> gostr \<Rightarrow> tree \<Rightarrow> gostr \<Rightarrow> fs_error + gostr list" where
  "host_walk l wd t p =
     (if p = [] then Inl NotExist else walk False [] t l [] (if is_abs p then segments p else segments wd @ segments p))"

text \<open>\<open>MkdirAll\<close>: a walk that makes the directories that are missing. The kernel makes none behind a link, a root does.\<close>

function mkdir_walk :: "bool \<Rightarrow> gostr list \<Rightarrow> tree \<Rightarrow> nat \<Rightarrow> gostr list \<Rightarrow> gostr list \<Rightarrow> (fs_error + gostr list) \<times> tree" where
  "mkdir_walk jailed R t l cur [] = (Inr cur, t)"
| "mkdir_walk jailed R t l cur (c # cs) =
     (if c = [] \<or> c = ''.'' then mkdir_walk jailed R t l cur cs
      else if c = ''..'' then (if cur = [] \<and> jailed then (Inl EscapesRoot, t) else mkdir_walk jailed R t l (butlast cur) cs)
      else (case node_at t (R @ cur @ [c]) of
              None \<Rightarrow> mkdir_walk jailed R (put_node (R @ cur @ [c]) Directory t) l (cur @ [c]) cs
            | Some Directory \<Rightarrow> mkdir_walk jailed R t l (cur @ [c]) cs
            | Some (RegularFile d) \<Rightarrow> (Inl NotDirectory, t)
            | Some (Symlink target) \<Rightarrow>
                (case l of
                   0 \<Rightarrow> (Inl TooManyLinks, t)
                 | Suc l' \<Rightarrow>
                     if jailed
                     then (if is_abs target then (Inl EscapesRoot, t) else mkdir_walk jailed R t l' cur (segments target @ cs))
                     else (case walk False R t l' (if is_abs target then [] else cur) (segments target) of
                             Inl e \<Rightarrow> (Inl e, t)
                           | Inr q \<Rightarrow> if node_at t (R @ q) = Some Directory then mkdir_walk jailed R t l' q cs
                                      else (Inl NotDirectory, t)))))"
  by pat_completeness auto
termination
  by (relation "measures [\<lambda>(j, R, t, l, cur, cs). l, \<lambda>(j, R, t, l, cur, cs). length cs]") auto

section \<open>The host\<close>

definition file_content :: "tree \<Rightarrow> gostr list \<Rightarrow> fs_error + gostr" where
  "file_content t q =
     (case node_at t q of
        Some (RegularFile d) \<Rightarrow> Inr d
      | Some Directory \<Rightarrow> Inl IsDirectory
      | _ \<Rightarrow> Inl NotExist)"

text \<open>The entries of a directory by name, with whether they are directories.\<close>

definition dir_entries :: "tree \<Rightarrow> gostr list \<Rightarrow> fs_error + (gostr \<times> bool) list" where
  "dir_entries t q =
     (if node_at t q \<noteq> Some Directory then Inl NotDirectory
      else Inr (map (\<lambda>e. (last (fst e), snd e = Directory))
                  (sort_key (\<lambda>e. map code (last (fst e))) (filter (\<lambda>e. fst e \<noteq> [] \<and> butlast (fst e) = q) t))))"

definition host_read :: "gostr \<Rightarrow> tree \<Rightarrow> gostr \<Rightarrow> fs_error + gostr" where
  "host_read wd t p = (case host_walk kernel_links wd t p of Inl e \<Rightarrow> Inl e | Inr q \<Rightarrow> file_content t q)"

definition host_read_dir :: "gostr \<Rightarrow> tree \<Rightarrow> gostr \<Rightarrow> fs_error + (gostr \<times> bool) list" where
  "host_read_dir wd t p = (case host_walk kernel_links wd t p of Inl e \<Rightarrow> Inl e | Inr q \<Rightarrow> dir_entries t q)"

text \<open>
  The end of an atomic write: a new temporary file in the directory \<open>tmpdir\<close>, renamed to the name \<open>x\<close> in \<open>q\<close>.
  \<open>sweep\<close> tells whether a temporary file that exists already is removed.
\<close>

definition rename_into :: "bool \<Rightarrow> gostr list \<Rightarrow> gostr \<Rightarrow> fs_error + gostr list \<Rightarrow> gostr \<Rightarrow> gostr \<Rightarrow> tree \<Rightarrow> fs_error option \<times> tree" where
  "rename_into sweep tmpdir tmp q x data t =
     (if node_at t tmpdir \<noteq> Some Directory then (Some NotDirectory, t)
      else if node_at t (tmpdir @ [tmp]) \<noteq> None
      then (Some AlreadyExists, if sweep \<and> node_at t (tmpdir @ [tmp]) \<noteq> Some Directory then remove_node (tmpdir @ [tmp]) t else t)
      else (case q of
              Inl e \<Rightarrow> (Some e, t)
            | Inr d \<Rightarrow>
                if node_at t d \<noteq> Some Directory then (Some NotDirectory, t)
                else if x = [] \<or> x = ''.'' \<or> x = ''..'' \<or> node_at t (d @ [x]) = Some Directory then (Some IsDirectory, t)
                else (None, put_node (d @ [x]) (RegularFile data) t)))"

text \<open>\<open>WriteFileAtomic\<close> of \<open>pkg/fileutil\<close>; \<open>tmp\<close> is the name of the temporary file.\<close>

definition write_file_atomic :: "gostr \<Rightarrow> gostr \<Rightarrow> gostr \<Rightarrow> gostr \<Rightarrow> tree \<Rightarrow> fs_error option \<times> tree" where
  "write_file_atomic wd tmp path data t =
     (let dir = path_dir path;
          start = (if is_abs dir then [] else segments wd)
      in (case mkdir_walk False [] t kernel_links [] (start @ segments dir) of
            (Inl e, t1) \<Rightarrow> (Some e, t1)
          | (Inr d, t1) \<Rightarrow>
              rename_into False d tmp
                (if path = [] then Inl NotExist
                 else walk False [] t1 kernel_links [] ((if is_abs path then [] else segments wd) @ butlast (segments path)))
                (last (segments path)) data t1))"

section \<open>The sandbox\<close>

definition get_safe_rel_path :: "gostr \<Rightarrow> gostr \<Rightarrow> fs_error + gostr" where
  "get_safe_rel_path workspace path =
     (if workspace = [] then Inl NoWorkspace
      else (case (if is_abs (clean path) then path_rel workspace (clean path) else Some (clean path)) of
              None \<Rightarrow> Inl NotRelative
            | Some rel \<Rightarrow> if is_local rel then Inr rel else Inl EscapesWorkspace))"

text \<open>\<open>sandboxFs.execute\<close>: the directory of the root and the path in it.\<close>

definition sandbox_execute :: "gostr \<Rightarrow> gostr \<Rightarrow> tree \<Rightarrow> gostr \<Rightarrow> fs_error + gostr list \<times> gostr" where
  "sandbox_execute wd workspace t path =
     (if workspace = [] then Inl NoWorkspace
      else (case host_walk kernel_links wd t workspace of
              Inl e \<Rightarrow> Inl e
            | Inr R \<Rightarrow>
                if node_at t R \<noteq> Some Directory then Inl NotDirectory
                else (case get_safe_rel_path workspace path of Inl e \<Rightarrow> Inl e | Inr rel \<Rightarrow> Inr (R, rel))))"

definition root_walk :: "gostr list \<Rightarrow> tree \<Rightarrow> gostr list \<Rightarrow> fs_error + gostr list" where
  "root_walk R t cs = (case walk True R t root_links [] cs of Inl e \<Rightarrow> Inl e | Inr q \<Rightarrow> Inr (R @ q))"

definition sandbox_read :: "gostr \<Rightarrow> gostr \<Rightarrow> tree \<Rightarrow> gostr \<Rightarrow> fs_error + gostr" where
  "sandbox_read wd workspace t path =
     (case sandbox_execute wd workspace t path of
        Inl e \<Rightarrow> Inl e
      | Inr (R, rel) \<Rightarrow> (case root_walk R t (segments rel) of Inl e \<Rightarrow> Inl e | Inr q \<Rightarrow> file_content t q))"

definition sandbox_read_dir :: "gostr \<Rightarrow> gostr \<Rightarrow> tree \<Rightarrow> gostr \<Rightarrow> fs_error + (gostr \<times> bool) list" where
  "sandbox_read_dir wd workspace t path =
     (case sandbox_execute wd workspace t path of
        Inl e \<Rightarrow> Inl e
      | Inr (R, rel) \<Rightarrow> (case root_walk R t (segments rel) of Inl e \<Rightarrow> Inl e | Inr q \<Rightarrow> dir_entries t q))"

definition root_mkdir_all :: "gostr list \<Rightarrow> gostr \<Rightarrow> tree \<Rightarrow> fs_error option \<times> tree" where
  "root_mkdir_all R dir t =
     (if dir = ''.'' \<or> dir = ''/'' then (None, t)
      else (case mkdir_walk True R t root_links [] (segments dir) of
              (Inl e, t1) \<Rightarrow> (Some e, t1)
            | (Inr q, t1) \<Rightarrow> (None, t1)))"

definition sandbox_write :: "gostr \<Rightarrow> gostr \<Rightarrow> gostr \<Rightarrow> gostr \<Rightarrow> gostr \<Rightarrow> tree \<Rightarrow> fs_error option \<times> tree" where
  "sandbox_write wd workspace tmp path data t =
     (case sandbox_execute wd workspace t path of
        Inl e \<Rightarrow> (Some e, t)
      | Inr (R, rel) \<Rightarrow>
          (case root_mkdir_all R (path_dir rel) t of
             (Some e, t1) \<Rightarrow> (Some e, t1)
           | (None, t1) \<Rightarrow>
               rename_into True R tmp (root_walk R t1 (butlast (segments rel))) (last (segments rel)) data t1))"

section \<open>The choice of the file system\<close>

text \<open>A pattern of the whitelist is the set of paths it matches.\<close>

datatype file_system =
  HostFs
| SandboxFs gostr
| WhitelistFs gostr "(gostr \<Rightarrow> bool) list"

definition build_fs :: "gostr \<Rightarrow> bool \<Rightarrow> (gostr \<Rightarrow> bool) list \<Rightarrow> file_system" where
  "build_fs workspace restrict patterns =
     (if \<not> restrict then HostFs
      else if patterns \<noteq> [] then WhitelistFs workspace patterns else SandboxFs workspace)"

definition whitelisted :: "(gostr \<Rightarrow> bool) list \<Rightarrow> gostr \<Rightarrow> bool" where
  "whitelisted patterns path = list_ex (\<lambda>m. m path) patterns"

fun fs_read :: "file_system \<Rightarrow> gostr \<Rightarrow> tree \<Rightarrow> gostr \<Rightarrow> fs_error + gostr" where
  "fs_read HostFs wd t path = host_read wd t path"
| "fs_read (SandboxFs ws) wd t path = sandbox_read wd ws t path"
| "fs_read (WhitelistFs ws ps) wd t path =
     (if whitelisted ps path then host_read wd t path else sandbox_read wd ws t path)"

fun fs_write :: "file_system \<Rightarrow> gostr \<Rightarrow> gostr \<Rightarrow> gostr \<Rightarrow> gostr \<Rightarrow> tree \<Rightarrow> fs_error option \<times> tree" where
  "fs_write HostFs wd tmp path data t = write_file_atomic wd tmp path data t"
| "fs_write (SandboxFs ws) wd tmp path data t = sandbox_write wd ws tmp path data t"
| "fs_write (WhitelistFs ws ps) wd tmp path data t =
     (if whitelisted ps path then write_file_atomic wd tmp path data t else sandbox_write wd ws tmp path data t)"

fun fs_read_dir :: "file_system \<Rightarrow> gostr \<Rightarrow> tree \<Rightarrow> gostr \<Rightarrow> fs_error + (gostr \<times> bool) list" where
  "fs_read_dir HostFs wd t path = host_read_dir wd t path"
| "fs_read_dir (SandboxFs ws) wd t path = sandbox_read_dir wd ws t path"
| "fs_read_dir (WhitelistFs ws ps) wd t path =
     (if whitelisted ps path then host_read_dir wd t path else sandbox_read_dir wd ws t path)"

section \<open>Validating a path\<close>

text \<open>\<open>EvalSymlinks\<close> of an absolute path, as the elements of the result.\<close>

definition eval_symlinks :: "tree \<Rightarrow> gostr \<Rightarrow> fs_error + gostr list" where
  "eval_symlinks t p = host_walk eval_links [] t p"

definition abs_path :: "gostr list \<Rightarrow> gostr" where
  "abs_path q = slash # join_segs q"

text \<open>\<open>resolveExistingAncestor\<close> of a cleaned absolute path, by its elements, the last one first.\<close>

fun resolve_existing_ancestor :: "tree \<Rightarrow> gostr list \<Rightarrow> fs_error + gostr list" where
  "resolve_existing_ancestor t [] = eval_symlinks t ''/''"
| "resolve_existing_ancestor t (x # xs) =
     (case eval_symlinks t (abs_path (rev (x # xs))) of
        Inr q \<Rightarrow> Inr q
      | Inl e \<Rightarrow> if e = NotExist then resolve_existing_ancestor t xs else Inl e)"

definition validate_path :: "gostr \<Rightarrow> tree \<Rightarrow> gostr \<Rightarrow> gostr \<Rightarrow> bool \<Rightarrow> fs_error + gostr" where
  "validate_path wd t path workspace restrict =
     (if workspace = [] then Inl NoWorkspace
      else
        let absWorkspace = path_abs wd workspace;
            absPath = (if is_abs path then clean path else path_abs wd (path_join absWorkspace path))
        in if \<not> restrict then Inr absPath
           else if \<not> is_within_workspace absPath absWorkspace then Inl OutsideWorkspace
           else
             let workspaceReal = (case eval_symlinks t absWorkspace of Inr q \<Rightarrow> abs_path q | Inl e \<Rightarrow> absWorkspace)
             in (case eval_symlinks t absPath of
                   Inr q \<Rightarrow> if is_within_workspace (abs_path q) workspaceReal then Inr absPath else Inl SymlinkOutside
                 | Inl e \<Rightarrow>
                     if e = NotExist
                     then (case resolve_existing_ancestor t (rev (clean_segs (path_dir absPath))) of
                             Inr q \<Rightarrow> if is_within_workspace (abs_path q) workspaceReal then Inr absPath else Inl SymlinkOutside
                           | Inl e' \<Rightarrow> if e' = NotExist then Inr absPath else Inl e')
                     else Inl e))"

section \<open>Facts about trees and walks\<close>

lemma map_of_filter_key: "q \<noteq> p \<Longrightarrow> map_of (filter (\<lambda>e. fst e \<noteq> p) t) q = map_of t q"
  by (induction t) auto

lemma node_at_put [simp]: "node_at (put_node p n t) q = (if q = p \<and> p \<noteq> [] then Some n else node_at t q)"
  by (auto simp: node_at_def put_node_def map_of_filter_key)

lemma node_at_remove: "node_at (remove_node p t) q = (if q = p \<and> p \<noteq> [] then None else node_at t q)"
proof (cases "q = p")
  case True
  have "map_of (filter (\<lambda>e. fst e \<noteq> p) t) p = None" by (induction t) auto
  with True show ?thesis by (simp add: node_at_def remove_node_def)
next
  case False
  then show ?thesis by (simp add: node_at_def remove_node_def map_of_filter_key)
qed

lemma node_at_root [simp]: "node_at t [] = Some Directory"
  by (simp add: node_at_def)

text \<open>Two trees that look the same below a root.\<close>

definition same_below :: "gostr list \<Rightarrow> tree \<Rightarrow> tree \<Rightarrow> bool" where
  "same_below R t t' \<longleftrightarrow> (\<forall>p. prefix R p \<longrightarrow> node_at t p = node_at t' p)"

lemma same_belowD: "same_below R t t' \<Longrightarrow> node_at t (R @ p) = node_at t' (R @ p)"
  by (simp add: same_below_def)

lemma same_below_put: "same_below R t t' \<Longrightarrow> same_below R (put_node p n t) (put_node p n t')"
  by (simp add: same_below_def)

lemma same_below_remove: "same_below R t t' \<Longrightarrow> same_below R (remove_node p t) (remove_node p t')"
  by (simp add: same_below_def node_at_remove)

lemma walk_same:
  "jailed \<Longrightarrow> same_below R t t' \<Longrightarrow> walk jailed R t l cur cs = walk jailed R t' l cur cs"
proof (induction jailed R t l cur cs rule: walk.induct)
  case (2 jailed R t l cur c cs)
  have n: "node_at t (R @ cur @ [c]) = node_at t' (R @ cur @ [c])"
    using same_belowD [OF "2.prems"(2), of "cur @ [c]"] .
  from 2 n show ?case by (auto split: option.split node.split nat.split)
qed simp

lemma mkdir_same:
  assumes "jailed" "same_below R t t'"
  shows "fst (mkdir_walk jailed R t l cur cs) = fst (mkdir_walk jailed R t' l cur cs) \<and>
    same_below R (snd (mkdir_walk jailed R t l cur cs)) (snd (mkdir_walk jailed R t' l cur cs))"
  using assms
proof (induction jailed R t l cur cs arbitrary: t' rule: mkdir_walk.induct)
  case (2 jailed R t l cur c cs)
  have n: "node_at t (R @ cur @ [c]) = node_at t' (R @ cur @ [c])"
    using same_belowD [OF "2.prems"(2), of "cur @ [c]"] .
  consider "c = [] \<or> c = ''.''" | "c = ''..''" | (name) "c \<noteq> []" "c \<noteq> ''.''" "c \<noteq> ''..''" by blast
  then show ?case
  proof cases
    case name
    show ?thesis
    proof (cases "node_at t (R @ cur @ [c])")
      case None
      from "2.IH"(3) [of "put_node (R @ cur @ [c]) Directory t'"] name None "2.prems"
      have "fst (mkdir_walk jailed R (put_node (R @ cur @ [c]) Directory t) l (cur @ [c]) cs) =
            fst (mkdir_walk jailed R (put_node (R @ cur @ [c]) Directory t') l (cur @ [c]) cs) \<and>
          same_below R (snd (mkdir_walk jailed R (put_node (R @ cur @ [c]) Directory t) l (cur @ [c]) cs))
            (snd (mkdir_walk jailed R (put_node (R @ cur @ [c]) Directory t') l (cur @ [c]) cs))"
        by (simp add: same_below_put)
      with name None n show ?thesis by simp
    next
      case (Some k)
      show ?thesis
      proof (cases k)
        case (RegularFile d)
        with name Some n "2.prems" show ?thesis by simp
      next
        case Directory
        with "2.IH"(4) [of Directory t'] name Some n "2.prems" show ?thesis by simp
      next
        case (Symlink target)
        show ?thesis
        proof (cases l)
          case 0
          with Symlink name Some n "2.prems" show ?thesis by simp
        next
          case (Suc l')
          with "2.IH"(5) [of k target l' t'] Symlink name Some n "2.prems" show ?thesis by simp
        qed
      qed
    qed
  qed (use "2.IH"(1,2) "2.prems" in auto)
qed simp

text \<open>Making directories changes nothing that exists, and adds directories below the root only.\<close>

definition only_dirs_added :: "gostr list \<Rightarrow> tree \<Rightarrow> tree \<Rightarrow> bool" where
  "only_dirs_added R t t' \<longleftrightarrow>
     (\<forall>p. if node_at t p = None then node_at t' p = None \<or> (node_at t' p = Some Directory \<and> prefix R p)
          else node_at t' p = node_at t p)"

lemma only_dirs_refl [simp]: "only_dirs_added R t t"
  by (simp add: only_dirs_added_def)

lemma only_dirsD:
  assumes "only_dirs_added R t t'"
  shows "node_at t p \<noteq> None \<Longrightarrow> node_at t' p = node_at t p" "\<not> prefix R p \<Longrightarrow> node_at t' p = node_at t p"
    "node_at t p = None \<Longrightarrow> node_at t' p = None \<or> node_at t' p = Some Directory"
proof -
  from assms have a: "if node_at t p = None then node_at t' p = None \<or> (node_at t' p = Some Directory \<and> prefix R p)
      else node_at t' p = node_at t p" by (simp add: only_dirs_added_def)
  from a show "node_at t p \<noteq> None \<Longrightarrow> node_at t' p = node_at t p" by simp
  from a show "\<not> prefix R p \<Longrightarrow> node_at t' p = node_at t p" by (cases "node_at t p = None") simp_all
  from a show "node_at t p = None \<Longrightarrow> node_at t' p = None \<or> node_at t' p = Some Directory" by auto
qed

lemma only_dirs_put:
  assumes "node_at t (R @ p) = None" "only_dirs_added R (put_node (R @ p) Directory t) t'"
  shows "only_dirs_added R t t'"
  unfolding only_dirs_added_def
proof
  fix q
  from assms(2) have q: "if node_at (put_node (R @ p) Directory t) q = None
      then node_at t' q = None \<or> (node_at t' q = Some Directory \<and> prefix R q)
      else node_at t' q = node_at (put_node (R @ p) Directory t) q" by (simp add: only_dirs_added_def)
  show "if node_at t q = None then node_at t' q = None \<or> (node_at t' q = Some Directory \<and> prefix R q)
      else node_at t' q = node_at t q"
    using q assms(1) by (cases "q = R @ p") (auto split: if_splits)
qed

lemma mkdir_adds: "only_dirs_added R t (snd (mkdir_walk jailed R t l cur cs))"
proof (induction jailed R t l cur cs rule: mkdir_walk.induct)
  case (2 jailed R t l cur c cs)
  consider "c = [] \<or> c = ''.''" | "c = ''..''" | (name) "c \<noteq> []" "c \<noteq> ''.''" "c \<noteq> ''..''" by blast
  then show ?case
  proof cases
    case name
    show ?thesis
    proof (cases "node_at t (R @ cur @ [c])")
      case None
      with "2.IH"(3) name only_dirs_put [of t R "cur @ [c]"] show ?thesis by simp
    next
      case (Some k)
      with 2 name show ?thesis by (auto split: node.split nat.split sum.split)
    qed
  qed (use 2 in auto)
qed simp

lemma root_mkdir_adds: "only_dirs_added R t (snd (root_mkdir_all R dir t))"
  using mkdir_adds [of R t True root_links "[]" "segments dir"]
  by (auto simp: root_mkdir_all_def split: prod.splits sum.splits)

lemma root_mkdir_same:
  assumes "same_below R t t'"
  shows "fst (root_mkdir_all R dir t) = fst (root_mkdir_all R dir t') \<and>
    same_below R (snd (root_mkdir_all R dir t)) (snd (root_mkdir_all R dir t'))"
proof -
  obtain r t1 where m: "mkdir_walk True R t root_links [] (segments dir) = (r, t1)" by fastforce
  obtain r' t1' where m': "mkdir_walk True R t' root_links [] (segments dir) = (r', t1')" by fastforce
  from mkdir_same [of True, OF TrueI assms, of root_links "[]" "segments dir"] m m'
  have "r = r'" "same_below R t1 t1'" by simp_all
  with assms show ?thesis by (cases r') (auto simp: root_mkdir_all_def m m')
qed

section \<open>The sandbox is confined\<close>

lemma root_walk_below: "root_walk R t cs = Inr q \<Longrightarrow> prefix R q"
  by (auto simp: root_walk_def split: sum.splits)

lemma root_walk_same: "same_below R t t' \<Longrightarrow> root_walk R t cs = root_walk R t' cs"
  using walk_same [of True R t t' root_links "[]" cs] by (simp add: root_walk_def)

lemma file_content_same: "same_below R t t' \<Longrightarrow> prefix R q \<Longrightarrow> file_content t q = file_content t' q"
  by (simp add: file_content_def same_below_def)

lemma rename_frame:
  assumes "\<And>d. q = Inr d \<Longrightarrow> prefix R d" "prefix R tmpdir" "\<not> prefix R p"
  shows "node_at (snd (rename_into sweep tmpdir tmp q x data t)) p = node_at t p"
proof -
  have "p \<noteq> tmpdir @ [tmp]" "\<And>d. q = Inr d \<Longrightarrow> p \<noteq> d @ [x]" using assms by (auto simp: prefix_def)
  then show ?thesis by (cases q) (auto simp: rename_into_def node_at_remove)
qed

lemma rename_same:
  assumes "same_below R t t'" "\<And>d. q = Inr d \<Longrightarrow> prefix R d" "prefix R tmpdir"
  shows "fst (rename_into sweep tmpdir tmp q x data t) = fst (rename_into sweep tmpdir tmp q x data t') \<and>
    same_below R (snd (rename_into sweep tmpdir tmp q x data t)) (snd (rename_into sweep tmpdir tmp q x data t'))"
proof -
  have n: "node_at t tmpdir = node_at t' tmpdir" "node_at t (tmpdir @ [tmp]) = node_at t' (tmpdir @ [tmp])"
    using assms(1,3) by (simp_all add: same_below_def)
  show ?thesis
  proof (cases q)
    case (Inl e)
    with n assms(1) show ?thesis by (simp add: rename_into_def same_below_remove)
  next
    case (Inr d)
    with assms(1,2) have "node_at t d = node_at t' d" "node_at t (d @ [x]) = node_at t' (d @ [x])"
      by (simp_all add: same_below_def)
    with Inr n assms(1) show ?thesis by (simp add: rename_into_def same_below_remove same_below_put)
  qed
qed

text \<open>
  C4 The sandbox is confined to the directory \<open>R\<close> its workspace resolves to. A write, whether it succeeds or not, changes
  nothing outside \<open>R\<close>; and what a read or a write answers, and what a write leaves below \<open>R\<close>, depends only on what is
  below \<open>R\<close>, whatever path is asked for and whatever links there are.
\<close>

theorem sandbox_confined:
  assumes "host_walk kernel_links wd t workspace = Inr R" "host_walk kernel_links wd t' workspace = Inr R"
    "same_below R t t'"
  shows "(\<forall>p. \<not> prefix R p \<longrightarrow> node_at (snd (sandbox_write wd workspace tmp path data t)) p = node_at t p) \<and>
    sandbox_read wd workspace t path = sandbox_read wd workspace t' path \<and>
    fst (sandbox_write wd workspace tmp path data t) = fst (sandbox_write wd workspace tmp path data t') \<and>
    same_below R (snd (sandbox_write wd workspace tmp path data t)) (snd (sandbox_write wd workspace tmp path data t'))"
proof -
  have R: "node_at t R = node_at t' R" using assms(3) by (simp add: same_below_def)
  show ?thesis
  proof (cases "sandbox_execute wd workspace t path")
    case (Inl e)
    with assms R have "sandbox_execute wd workspace t' path = Inl e"
      by (auto simp: sandbox_execute_def split: if_splits)
    with Inl assms(3) show ?thesis by (simp add: sandbox_read_def sandbox_write_def)
  next
    case (Inr v)
    then obtain rel where x: "sandbox_execute wd workspace t path = Inr (R, rel)"
      using assms(1) by (auto simp: sandbox_execute_def split: if_splits sum.splits)
    with assms R have x': "sandbox_execute wd workspace t' path = Inr (R, rel)"
      by (auto simp: sandbox_execute_def split: if_splits)
    have read: "sandbox_read wd workspace t path = sandbox_read wd workspace t' path"
      using file_content_same [OF assms(3)] root_walk_below [of R t' "segments rel"] root_walk_same [OF assms(3)]
      by (auto simp: sandbox_read_def x x' split: sum.split)
    obtain e t1 where m: "root_mkdir_all R (path_dir rel) t = (e, t1)" by fastforce
    obtain e' t1' where m': "root_mkdir_all R (path_dir rel) t' = (e', t1')" by fastforce
    from root_mkdir_same [OF assms(3), of "path_dir rel"] m m' have e: "e = e'" and s1: "same_below R t1 t1'" by simp_all
    have f1: "\<not> prefix R p \<Longrightarrow> node_at t1 p = node_at t p" for p
      using only_dirsD(2) [OF root_mkdir_adds [of R t "path_dir rel"]] m by simp
    show ?thesis
    proof (cases e)
      case (Some err)
      with e have e': "e' = Some err" by simp
      from read f1 s1 show ?thesis by (simp add: sandbox_write_def x x' m m' Some e')
    next
      case None
      let ?q = "root_walk R t1 (butlast (segments rel))"
      have q: "?q = root_walk R t1' (butlast (segments rel))" by (rule root_walk_same [OF s1])
      have below: "\<And>d. ?q = Inr d \<Longrightarrow> prefix R d" by (rule root_walk_below)
      have w: "sandbox_write wd workspace tmp path data t = rename_into True R tmp ?q (last (segments rel)) data t1"
        "sandbox_write wd workspace tmp path data t' = rename_into True R tmp ?q (last (segments rel)) data t1'"
        using None e q by (simp_all add: sandbox_write_def x x' m m')
      show ?thesis unfolding w
        using read f1 rename_frame [where R = R, OF below] rename_same [where R = R, OF s1 below] by auto
    qed
  qed
qed

definition demo_tree :: tree where
  "demo_tree = [([''w''], Directory), ([''w'', ''a''], RegularFile ''hello''), ([''w'', ''out''], Symlink ''/etc''),
     ([''w'', ''up''], Symlink ''../etc''), ([''etc''], Directory), ([''etc'', ''key''], RegularFile ''secret'')]"

theorem sandbox_confined_witness:
  "node_at (snd (sandbox_write ''/'' ''/w'' ''tmp'' ''up/key'' ''x'' demo_tree)) [''etc'', ''key''] = Some (RegularFile ''secret'')"
proof -
  have h: "host_walk kernel_links ''/'' demo_tree ''/w'' = Inr [''w'']"
    by (simp add: host_walk_def kernel_links_def demo_tree_def node_at_def)
  have "\<not> prefix [''w''] [''etc'', ''key'']" by simp
  moreover have "node_at demo_tree [''etc'', ''key''] = Some (RegularFile ''secret'')" by (simp add: demo_tree_def node_at_def)
  moreover have "same_below [''w''] demo_tree demo_tree" by (simp add: same_below_def)
  ultimately show ?thesis
    using sandbox_confined [OF h h, where tmp = "''tmp''" and path = "''up/key''" and data = "''x''"] by metis
qed

section \<open>What a write in the sandbox does\<close>

text \<open>
  A write that succeeds replaces one node below the workspace, the one with the name asked for, by a regular file with
  the data, and otherwise only adds directories: every other file keeps its content. A write that fails changes no
  file but its own temporary one.
\<close>

theorem sandbox_write_exact:
  assumes "sandbox_execute wd workspace t path = Inr (R, rel)"
    and w: "sandbox_write wd workspace tmp path data t = (err, t')"
  shows "if err = None
    then \<exists>d. prefix R d \<and> node_at t' (d @ [last (segments rel)]) = Some (RegularFile data) \<and>
      (\<forall>p. p \<noteq> d @ [last (segments rel)] \<longrightarrow> node_at t p \<noteq> None \<longrightarrow> node_at t' p = node_at t p) \<and>
      (\<forall>p. p \<noteq> d @ [last (segments rel)] \<longrightarrow> node_at t p = None \<longrightarrow> node_at t' p = None \<or> node_at t' p = Some Directory)
    else \<forall>p. p \<noteq> R @ [tmp] \<longrightarrow> node_at t p \<noteq> None \<longrightarrow> node_at t' p = node_at t p"
proof -
  obtain e t1 where m: "root_mkdir_all R (path_dir rel) t = (e, t1)" by fastforce
  have a: "only_dirs_added R t t1" using root_mkdir_adds [of R t "path_dir rel"] m by simp
  show ?thesis
  proof (cases e)
    case (Some e')
    with w m assms(1) have "err = Some e'" "t' = t1" by (simp_all add: sandbox_write_def)
    with only_dirsD(1) [OF a] show ?thesis by simp
  next
    case None
    let ?q = "root_walk R t1 (butlast (segments rel))"
    from None w m assms(1) have r: "rename_into True R tmp ?q (last (segments rel)) data t1 = (err, t')"
      by (simp add: sandbox_write_def)
    show ?thesis
    proof (cases err)
      case None
      with r obtain d where d: "?q = Inr d" "t' = put_node (d @ [last (segments rel)]) (RegularFile data) t1"
        by (auto simp: rename_into_def split: if_splits sum.splits)
      from root_walk_below [OF d(1)] only_dirsD(1,3) [OF a] show ?thesis
        by (simp add: None d(2), intro exI [of _ d]) simp
    next
      case (Some e')
      with r have "\<forall>p. p \<noteq> R @ [tmp] \<longrightarrow> node_at t' p = node_at t1 p"
        by (auto simp: rename_into_def node_at_remove split: if_splits sum.splits)
      with only_dirsD(1) [OF a] Some show ?thesis by simp
    qed
  qed
qed

lemma demo_execute: "sandbox_execute ''/'' ''/w'' demo_tree ''sub/b'' = Inr ([''w''], ''sub/b'')"
  by (simp add: sandbox_execute_def host_walk_def kernel_links_def demo_tree_def node_at_def get_safe_rel_path_def clean_def
      clean_segs_def clean_seg_def is_local_def has_prefix_def)

theorem sandbox_write_exact_witness:
  "node_at (snd (sandbox_write ''/'' ''/w'' ''tmp'' ''sub/b'' ''x'' demo_tree)) [''w'', ''a''] = Some (RegularFile ''hello'')"
proof -
  obtain err t' where w: "sandbox_write ''/'' ''/w'' ''tmp'' ''sub/b'' ''x'' demo_tree = (err, t')" by fastforce
  have a: "node_at demo_tree [''w'', ''a''] = Some (RegularFile ''hello'')" by (simp add: demo_tree_def node_at_def)
  have l: "last (segments ''sub/b'') = ''b''" by simp
  have keep: "[''w'', ''a''] \<noteq> d @ [''b'']" "[''w'', ''a''] \<noteq> [''w''] @ [''tmp'']" for d :: "gostr list"
    by (cases d rule: rev_cases; simp)+
  show ?thesis
  proof (cases err)
    case None
    with sandbox_write_exact [OF demo_execute w] a keep(1) show ?thesis unfolding l w by auto
  next
    case (Some e)
    with sandbox_write_exact [OF demo_execute w] a keep(2) show ?thesis unfolding w by auto
  qed
qed

section \<open>The sandbox reads what the host would read\<close>

lemma walk_jail_host:
  "walk jailed R t l cur cs = Inr q \<Longrightarrow> jailed \<Longrightarrow> l \<le> l' \<Longrightarrow> walk False [] t l' (R @ cur) cs = Inr (R @ q)"
proof (induction jailed R t l cur cs arbitrary: l' q rule: walk.induct)
  case (2 jailed R t l cur c cs)
  consider "c = [] \<or> c = ''.''" | (up) "c = ''..''" | (name) "c \<noteq> []" "c \<noteq> ''.''" "c \<noteq> ''..''" by blast
  then show ?case
  proof cases
    case up
    with "2.prems" have "cur \<noteq> []" by (auto split: if_splits)
    then have "butlast (R @ cur) = R @ butlast cur" by (simp add: butlast_append)
    with up 2 \<open>cur \<noteq> []\<close> show ?thesis by simp
  next
    case name
    show ?thesis
    proof (cases "node_at t (R @ cur @ [c])")
      case None
      with name "2.prems"(1) show ?thesis by simp
    next
      case (Some k)
      show ?thesis
      proof (cases k)
        case (RegularFile d)
        with name Some "2.prems"(1) show ?thesis by (auto split: if_splits)
      next
        case Directory
        with name Some 2 show ?thesis by simp
      next
        case (Symlink target)
        with name Some "2.prems"(1,2) obtain m where m: "l = Suc m" "\<not> is_abs target"
            "walk jailed R t m cur (segments target @ cs) = Inr q"
          by (auto split: nat.splits if_splits)
        from "2.prems"(3) m(1) obtain m' where m': "l' = Suc m'" "m \<le> m'" by (cases l') auto
        from "2.IH"(5) [of k target m q m'] name Some Symlink m m' "2.prems"(2)
        show ?thesis by simp
      qed
    qed
  qed (use 2 in auto)
qed simp

lemma walk_directories:
  "\<forall>x\<in>set xs. name_seg x \<Longrightarrow> \<forall>n\<le>length xs. node_at t (cur @ take n xs) = Some Directory \<Longrightarrow>
   walk False [] t l cur (xs @ cs) = walk False [] t l (cur @ xs) cs"
proof (induction xs arbitrary: cur)
  case (Cons x xs)
  from Cons.prems(2) [rule_format, of 1] have d: "node_at t (cur @ [x]) = Some Directory" by simp
  have "\<forall>n\<le>length xs. node_at t ((cur @ [x]) @ take n xs) = Some Directory"
  proof (intro allI impI)
    fix n
    assume "n \<le> length xs"
    with Cons.prems(2) [rule_format, of "Suc n"] show "node_at t ((cur @ [x]) @ take n xs) = Some Directory" by simp
  qed
  from Cons.IH [OF _ this] Cons.prems(1) d show ?case by (simp add: name_seg_def plain_seg_def)
qed simp

lemma segments_clean_abs:
  assumes "is_abs p" "clean p = p" "clean_segs p \<noteq> []"
  shows "segments p = [] # clean_segs p"
proof -
  from clean_segs_names [OF assms(1)] have "\<forall>x\<in>set (clean_segs p). slash \<notin> set x" by (auto simp: name_seg_def plain_seg_def)
  with assms(3) have "segments (slash # join_segs (clean_segs p)) = [] # clean_segs p" by (simp add: segments_join)
  with assms(1,2) show ?thesis by (metis clean_def)
qed

lemma walk_workspace:
  assumes "is_abs w" "clean w = w" "\<forall>n\<le>length (clean_segs w). node_at t (take n (clean_segs w)) = Some Directory"
  shows "walk False [] t l [] (segments w @ cs) = walk False [] t l (clean_segs w) cs"
proof (cases "clean_segs w = []")
  case True
  with assms(1,2) have "w = ''/''" by (metis clean_def join_segs.simps(1))
  with True show ?thesis by simp
next
  case False
  from segments_clean_abs [OF assms(1,2) False] walk_directories [OF clean_segs_names [OF assms(1)], of t "[]" l cs] assms(3)
  show ?thesis by simp
qed

lemma host_walk_workspace:
  assumes "is_abs w" "clean w = w" "\<forall>n\<le>length (clean_segs w). node_at t (take n (clean_segs w)) = Some Directory"
  shows "host_walk l wd t w = Inr (clean_segs w)"
  using walk_workspace [OF assms, of l "[]"] assms(1) by (auto simp: host_walk_def)

lemma drop_common_prefix: "drop_common xs (xs @ ys) = ([], ys)"
  by (induction xs) (cases ys, auto)

lemma rel_below:
  assumes "is_abs w" "is_abs p" "clean_segs p = clean_segs w @ ts"
  shows "path_rel w p = Some (if ts = [] then ''.'' else join_segs ts)"
proof -
  have "clean p \<noteq> ''.''" using assms(2) clean_abs [of p] by auto
  with assms show ?thesis by (simp add: path_rel_def clean_eq_iff drop_common_prefix)
qed

text \<open>
  C36 The sandbox refines the host: for a workspace that is a directory reached without links, and a cleaned absolute path,
  what the sandbox reads is what the host reads at that path; the confinement only takes answers away.
\<close>

theorem sandbox_refines_host:
  assumes "is_abs workspace" "clean workspace = workspace"
    and dirs: "\<forall>n\<le>length (clean_segs workspace). node_at t (take n (clean_segs workspace)) = Some Directory"
    and "is_abs path" "clean path = path" "sandbox_read wd workspace t path = Inr content"
  shows "host_read wd t path = Inr content"
proof -
  let ?W = "clean_segs workspace"
  have ne: "workspace \<noteq> []" "path \<noteq> []" using assms(1,4) by auto
  have walkW: "walk False [] t l [] (segments workspace @ cs) = walk False [] t l ?W cs" for l cs
    by (rule walk_workspace [OF assms(1-3)])
  from walkW [of kernel_links "[]"] have hw: "host_walk kernel_links wd t workspace = Inr ?W"
    using assms(1) ne(1) by (simp add: host_walk_def)
  from dirs have "node_at t ?W = Some Directory" by (metis le_refl take_all_iff)
  with hw ne(1) assms(6) obtain rel q where
    rel: "get_safe_rel_path workspace path = Inr rel" "root_walk ?W t (segments rel) = Inr q" "file_content t q = Inr content"
    by (auto simp: sandbox_read_def sandbox_execute_def split: sum.splits)
  from rel(2) obtain q' where q': "walk True ?W t root_links [] (segments rel) = Inr q'" "q = ?W @ q'"
    by (auto simp: root_walk_def split: sum.splits)
  from rel(1) assms(4,5) ne have r: "path_rel workspace path = Some rel" "is_local rel"
    by (auto simp: get_safe_rel_path_def split: option.splits if_splits)
  with rel_local_iff [OF assms(1,4)] obtain ts where ts: "clean_segs path = ?W @ ts" by (auto simp: prefix_def)
  from rel_below [OF assms(1,4) ts] r(1) have rel': "rel = (if ts = [] then ''.'' else join_segs ts)" by simp
  from walk_jail_host [OF q'(1) TrueI, of kernel_links] have h: "walk False [] t kernel_links ?W (segments rel) = Inr q"
    using q'(2) by (simp add: root_links_def kernel_links_def)
  have "walk False [] t kernel_links [] (segments path) = Inr q"
  proof (cases "ts = []")
    case True
    with rel' have "segments rel = [''.'']" by simp
    with h have "q = ?W" by simp
    from True ts have "clean_segs path = ?W" by simp
    then have "path = workspace" using assms(2,5) clean_eq_iff [OF assms(4,1)] by simp
    with walkW [of kernel_links "[]"] \<open>q = ?W\<close> show ?thesis by simp
  next
    case False
    have nts: "\<forall>x\<in>set ts. name_seg x" using clean_segs_names [OF assms(4)] ts by auto
    then have "segments rel = ts" using False rel' by (simp add: segments_join name_seg_def plain_seg_def)
    moreover have "segments path = [] # ?W @ ts" using segments_clean_abs [OF assms(4,5)] ts False by simp
    ultimately show ?thesis
      using h walk_directories [OF clean_segs_names [OF assms(1)], of t "[]" kernel_links ts] dirs by simp
  qed
  then show ?thesis using assms(4) ne(2) rel(3) by (simp add: host_read_def host_walk_def)
qed

theorem sandbox_refines_host_witness: "host_read ''/'' demo_tree ''/w/a'' = Inr ''hello''"
proof -
  have c: "clean_segs ''/w'' = [''w'']" "clean ''/w'' = ''/w''" "clean ''/w/a'' = ''/w/a''"
    by (simp_all add: clean_def clean_segs_def clean_seg_def)
  have d: "node_at demo_tree [] = Some Directory" "node_at demo_tree [''w''] = Some Directory"
    by (simp_all add: demo_tree_def node_at_def)
  have dirs: "node_at demo_tree (take n [''w'']) = Some Directory" for n
    using d by (cases n) simp_all
  have s: "sandbox_read ''/'' ''/w'' demo_tree ''/w/a'' = Inr ''hello''"
    by (simp add: sandbox_read_def sandbox_execute_def host_walk_def kernel_links_def demo_tree_def node_at_def get_safe_rel_path_def
        clean_def clean_segs_def clean_seg_def is_local_def has_prefix_def path_rel_def root_walk_def root_links_def file_content_def)
  from sandbox_refines_host [OF _ c(2) _ _ c(3) s] dirs show ?thesis by (simp add: c(1))
qed

section \<open>Limits of the confinement\<close>

text \<open>
  C40 The whitelist can be left: its patterns see the path as it was given, not as it is resolved. A pattern that allows a
  directory \<open>/x\<close> allows \<open>/x/../s\<close> as well, and the host then reads the file \<open>/s\<close> beside it, although \<open>/s\<close>
  itself does not match and is refused.
\<close>

theorem whitelist_escapes:
  assumes "name_seg x" "name_seg s" "node_at t [x] = Some Directory" "node_at t [s] = Some (RegularFile content)"
    "\<not> prefix x s"
  shows "fs_read (build_fs ws True [\<lambda>p. has_prefix p (slash # x)]) wd t (slash # x @ ''/../'' @ s) = Inr content \<and>
    \<not> whitelisted [\<lambda>p. has_prefix p (slash # x)] (slash # s)"
proof -
  have ns: "slash \<notin> set x" "slash \<notin> set s" "x \<noteq> []" "s \<noteq> []" "x \<noteq> ''.''" "x \<noteq> ''..''" "s \<noteq> ''.''" "s \<noteq> ''..''"
    using assms(1,2) by (simp_all add: name_seg_def plain_seg_def)
  have "segments (x @ slash # ''..'' @ slash # s) = [x, ''..'', s]"
    using segments_append_slash [OF ns(1)] segments_no_slash [OF ns(2)] by simp
  then have seg: "segments (slash # x @ ''/../'' @ s) = [[], x, ''..'', s]" by simp
  have "host_read wd t (slash # x @ ''/../'' @ s) = Inr content"
    unfolding host_read_def host_walk_def seg using ns assms(3,4) by (simp add: seg file_content_def)
  moreover have "whitelisted [\<lambda>p. has_prefix p (slash # x)] (slash # x @ ''/../'' @ s)"
    by (simp add: whitelisted_def has_prefix_iff)
  moreover have "\<not> whitelisted [\<lambda>p. has_prefix p (slash # x)] (slash # s)"
    using assms(5) by (simp add: whitelisted_def has_prefix_iff)
  ultimately show ?thesis by (simp add: build_fs_def)
qed

text \<open>
  A write to a symbolic link does not write through it: a read follows the link, but the write replaces it by a
  regular file and leaves the file it points to as it was.
\<close>

theorem write_replaces_link:
  assumes "sandbox_execute wd workspace t path = Inr (R, x)" "name_seg x" "node_at t (R @ [x]) = Some (Symlink target)"
    "node_at t R = Some Directory" "node_at t (R @ [tmp]) = None" "tmp \<noteq> x"
  shows "sandbox_write wd workspace tmp path data t = (None, put_node (R @ [x]) (RegularFile data) t)"
proof -
  have n: "slash \<notin> set x" "x \<noteq> []" "x \<noteq> ''.''" "x \<noteq> ''..''" using assms(2) by (simp_all add: name_seg_def plain_seg_def)
  then have seg: "segments x = [x]" by (simp add: segments_no_slash)
  have "rev (dropWhile (\<lambda>c. c \<noteq> slash) (rev x)) = []" using n(1) by (auto simp: dropWhile_eq_Nil_conv)
  then have "path_dir x = clean []" unfolding path_dir_def by (rule arg_cong)
  then have d: "path_dir x = ''.''" by (simp add: clean_def clean_segs_def clean_seg_def)
  show ?thesis
    using assms n by (simp add: sandbox_write_def d root_mkdir_all_def seg root_walk_def rename_into_def)
qed

theorem whitelist_escapes_witness:
  "fs_read (build_fs ''/w'' True [\<lambda>p. has_prefix p ''/w'']) ''/'' (([''s''], RegularFile ''top'') # demo_tree) ''/w/../s'' = Inr ''top''"
proof -
  have t: "node_at (([''s''], RegularFile ''top'') # demo_tree) [''w''] = Some Directory"
    "node_at (([''s''], RegularFile ''top'') # demo_tree) [''s''] = Some (RegularFile ''top'')"
    by (simp_all add: demo_tree_def node_at_def)
  have n: "name_seg ''w''" "name_seg ''s''" "\<not> prefix ''w'' ''s''" by (simp_all add: name_seg_def plain_seg_def)
  from whitelist_escapes [OF n(1,2) t n(3)] show ?thesis by simp
qed

theorem write_replaces_link_witness:
  "node_at (snd (sandbox_write ''/'' ''/w'' ''tmp'' ''up'' ''x'' demo_tree)) [''w'', ''up''] = Some (RegularFile ''x'')"
proof -
  have e: "sandbox_execute ''/'' ''/w'' demo_tree ''up'' = Inr ([''w''], ''up'')"
    by (simp add: sandbox_execute_def host_walk_def kernel_links_def demo_tree_def node_at_def get_safe_rel_path_def clean_def
        clean_segs_def clean_seg_def is_local_def has_prefix_def)
  have "sandbox_write ''/'' ''/w'' ''tmp'' ''up'' ''x'' demo_tree =
      (None, put_node ([''w''] @ [''up'']) (RegularFile ''x'') demo_tree)"
    by (rule write_replaces_link [OF e, where target = "''../etc''"])
      (simp_all add: demo_tree_def node_at_def name_seg_def plain_seg_def)
  then show ?thesis by simp
qed

section \<open>What a validated path promises\<close>

lemma clean_segs_abs_path: "\<forall>x\<in>set q. name_seg x \<Longrightarrow> clean_segs (abs_path q) = q"
  by (simp add: abs_path_def clean_segs_abs_join)

text \<open>The elements of a tree are names, as on a disk.\<close>

definition named_tree :: "tree \<Rightarrow> bool" where
  "named_tree t \<longleftrightarrow> (\<forall>(p, n)\<in>set t. \<forall>x\<in>set p. name_seg x)"

lemma named_tree_node: "named_tree t \<Longrightarrow> node_at t p \<noteq> None \<Longrightarrow> \<forall>x\<in>set p. name_seg x"
  by (auto simp: named_tree_def node_at_def split: if_splits dest: map_of_SomeD)

lemma walk_names:
  "walk jailed R t l cur cs = Inr q \<Longrightarrow> named_tree t \<Longrightarrow> \<forall>x\<in>set cur. name_seg x \<Longrightarrow> \<forall>x\<in>set q. name_seg x"
proof (induction jailed R t l cur cs arbitrary: q rule: walk.induct)
  case (2 jailed R t l cur c cs)
  consider "c = [] \<or> c = ''.''" | (up) "c = ''..''" | (name) "c \<noteq> []" "c \<noteq> ''.''" "c \<noteq> ''..''" by blast
  then show ?case
  proof cases
    case up
    with 2 show ?thesis by (auto split: if_splits dest: in_set_butlastD)
  next
    case name
    show ?thesis
    proof (cases "node_at t (R @ cur @ [c])")
      case None
      with name "2.prems"(1) show ?thesis by simp
    next
      case (Some k)
      with named_tree_node [OF "2.prems"(2), of "R @ cur @ [c]"] have c: "name_seg c" by simp
      show ?thesis
      proof (cases k)
        case (RegularFile d)
        with name Some "2.prems"(1,3) c show ?thesis by (auto split: if_splits)
      next
        case Directory
        with name Some 2 c show ?thesis by simp
      next
        case (Symlink target)
        with name Some "2.prems"(1) obtain m where m: "l = Suc m" by (auto split: nat.splits)
        show ?thesis
        proof (cases "is_abs target")
          case True
          with m name Some Symlink "2.prems" have "\<not> jailed" "walk jailed R t m [] (segments target @ cs) = Inr q"
            by (auto split: if_splits)
          with "2.IH"(4) [of k target m q] m name Some Symlink True "2.prems"(2) show ?thesis by simp
        next
          case False
          with m name Some Symlink "2.prems" "2.IH"(5) [of k target m q] show ?thesis by simp
        qed
      qed
    qed
  qed (use 2 in auto)
qed simp

text \<open>
  C29 A path that \<open>validatePath\<close> accepts under restriction lies in the workspace, as it is written and, when it exists, where
  it really is: the elements of the workspace, cleaned and resolved, are the first ones of the path, cleaned and resolved.
\<close>

theorem validated_inside:
  assumes "validate_path wd t path workspace True = Inr p" "is_abs wd" "named_tree t"
  shows "is_abs p \<and> clean p = p \<and> prefix (clean_segs (path_abs wd workspace)) (clean_segs p) \<and>
    (\<forall>W q. eval_symlinks t (path_abs wd workspace) = Inr W \<longrightarrow> eval_symlinks t p = Inr q \<longrightarrow> prefix W q)"
proof -
  have abs_abs: "is_abs (path_abs wd y)" for y
    using path_abs_clean [OF assms(2)] by blast
  let ?W = "path_abs wd workspace"
  let ?p = "if is_abs path then clean path else path_abs wd (path_join ?W path)"
  have pa: "is_abs ?p" using abs_abs clean_abs [of path] by auto
  have within: "is_within_workspace ?p ?W" and p: "p = ?p"
    using assms(1) by (auto simp: validate_path_def Let_def split: if_splits sum.splits)
  have "prefix (clean_segs ?W) (clean_segs ?p)"
    using within rel_local_iff [of "clean ?W" "clean ?p"] clean_abs [OF abs_abs [of workspace]] clean_abs [OF pa]
    by (simp add: is_within_workspace_def)
  moreover have "clean ?p = ?p"
    using clean_clean_abs [of path] path_abs_clean [OF assms(2)] by simp
  moreover have "prefix W q" if "eval_symlinks t ?W = Inr W" "eval_symlinks t ?p = Inr q" for W q
  proof -
    have n: "\<forall>x\<in>set W. name_seg x" "\<forall>x\<in>set q. name_seg x"
      using that walk_names [OF _ assms(3)] by (auto simp: eval_symlinks_def host_walk_def split: if_splits)
    have "is_within_workspace (abs_path q) (abs_path W)"
      using assms(1) that by (auto simp: validate_path_def Let_def split: if_splits)
    then show ?thesis
      using rel_local_iff [of "clean (abs_path W)" "clean (abs_path q)"] clean_abs [of "abs_path W"] clean_abs [of "abs_path q"]
        clean_segs_abs_path [OF n(1)] clean_segs_abs_path [OF n(2)]
      by (simp add: is_within_workspace_def abs_path_def)
  qed
  ultimately show ?thesis using pa by (simp add: p)
qed

theorem validated_inside_witness:
  "clean_segs ''/w/a'' = [''w'', ''a''] \<and> prefix (clean_segs (path_abs ''/'' ''/w'')) [''w'', ''a'']"
proof -
  have c: "clean_segs ''/w/a'' = [''w'', ''a'']" by (simp add: clean_segs_def clean_seg_def)
  have "named_tree demo_tree" by (simp add: named_tree_def demo_tree_def name_seg_def plain_seg_def)
  moreover have "validate_path ''/'' demo_tree ''a'' ''/w'' True = Inr ''/w/a''"
    by (simp add: validate_path_def Let_def path_abs_def path_join_def clean_def clean_segs_def clean_seg_def eval_symlinks_def
        host_walk_def eval_links_def demo_tree_def node_at_def is_within_workspace_def path_rel_def is_local_def abs_path_def
        has_prefix_def)
  ultimately show ?thesis using validated_inside [of "''/''" demo_tree "''a''" "''/w''" "''/w/a''"] c by simp
qed

end
