(* ===== verification/File_Tools.thy ===== *)
theory File_Tools imports Sandbox Float64 begin

text \<open>
  The tools on files, \<open>pkg/tools/filesystem.go\<close> and \<open>pkg/tools/edit.go\<close>: reading a file page by page, writing,
  listing a directory, editing by replacing a text, appending; over any of the file systems of the sandbox.
  Arguments are what the JSON of a call decodes to; the answers are values, of which \<open>page_text\<close> is the text of a page.
\<close>

section \<open>Arguments\<close>

datatype json_arg = JString gostr | JFloat rat | JInt int | JOther

type_synonym json_args = "gostr \<Rightarrow> json_arg option"

datatype arg_error = NotInteger gostr | OverflowsInt64 gostr | BadInteger gostr | UnsupportedType gostr

text \<open>\<open>strconv.ParseInt\<close> in base 10 for 64 bits.\<close>

definition digits_value :: "gostr \<Rightarrow> int" where
  "digits_value ds = fold (\<lambda>c n. 10 * n + (int (code c) - 48)) ds 0"

definition in_int64 :: "int \<Rightarrow> bool" where
  "in_int64 n \<longleftrightarrow> - (2 ^ 63) \<le> n \<and> n < 2 ^ 63"

definition parse_int64 :: "gostr \<Rightarrow> int option" where
  "parse_int64 s =
     (let neg = has_prefix s ''-'';
          ds = (if neg \<or> has_prefix s ''+'' then tl s else s);
          n = (if neg then - digits_value ds else digits_value ds)
      in if ds \<noteq> [] \<and> list_all is_digit ds \<and> in_int64 n then Some n else None)"

text \<open>A float64 that is integral; the largest one that is let through is \<open>2\<^sup>6\<^sup>3\<close>, which the conversion wraps on amd64.\<close>

definition get_int64_arg :: "json_args \<Rightarrow> gostr \<Rightarrow> int \<Rightarrow> arg_error + int" where
  "get_int64_arg args key defaultVal =
     (case args key of
        None \<Rightarrow> Inr defaultVal
      | Some (JFloat v) \<Rightarrow>
          if v \<noteq> of_int \<lfloor>v\<rfloor> then Inl (NotInteger key)
          else if v > 2 ^ 63 \<or> v < - (2 ^ 63) then Inl (OverflowsInt64 key)
          else Inr (if \<lfloor>v\<rfloor> = 2 ^ 63 then - (2 ^ 63) else \<lfloor>v\<rfloor>)
      | Some (JInt v) \<Rightarrow> Inr v
      | Some (JString s) \<Rightarrow> (case parse_int64 s of None \<Rightarrow> Inl (BadInteger key) | Some n \<Rightarrow> Inr n)
      | Some JOther \<Rightarrow> Inl (UnsupportedType key))"

datatype file_reply =
  ArgumentMissing gostr
| ArgumentError arg_error
| OffsetNegative
| LengthNotPositive
| FileFailed fs_error
| NoContentAtOffset
| Page gostr int int gostr bool \<comment> \<open>name, size, offset, data, more\<close>
| FileWritten gostr
| FileEdited gostr
| FileAppended gostr
| OldTextMissing
| OldTextAmbiguous nat
| DirEntries "(gostr \<times> bool) list"

section \<open>Reading\<close>

definition max_read_file_size :: int where
  "max_read_file_size = 64 * 1024"

text \<open>\<open>NewReadFileTool\<close>\<close>

definition effective_max_size :: "int \<Rightarrow> int" where
  "effective_max_size configured = (if configured \<le> 0 then max_read_file_size else configured)"

definition read_page :: "gostr \<Rightarrow> gostr \<Rightarrow> int \<Rightarrow> int \<Rightarrow> file_reply" where
  "read_page path content offset len =
     (let probe = take (nat (len + 1)) (drop (nat offset) content);
          hasMore = int (length probe) > len;
          data = take (nat (min (int (length probe)) len)) probe
      in if data = [] then NoContentAtOffset
         else Page (path_base path) (int (length content)) offset data hasMore)"

definition read_file_execute :: "file_system \<Rightarrow> gostr \<Rightarrow> int \<Rightarrow> tree \<Rightarrow> json_args \<Rightarrow> file_reply" where
  "read_file_execute fs wd maxSize t args =
     (case args ''path'' of
        Some (JString path) \<Rightarrow>
          (case get_int64_arg args ''offset'' 0 of
             Inl e \<Rightarrow> ArgumentError e
           | Inr offset \<Rightarrow>
               if offset < 0 then OffsetNegative
               else (case get_int64_arg args ''length'' maxSize of
                       Inl e \<Rightarrow> ArgumentError e
                     | Inr len \<Rightarrow>
                         if len \<le> 0 then LengthNotPositive
                         else (case fs_read fs wd t path of
                                 Inl e \<Rightarrow> FileFailed e
                               | Inr content \<Rightarrow> read_page path content offset (min len maxSize))))
      | _ \<Rightarrow> ArgumentMissing ''path'')"

fun decimal :: "nat \<Rightarrow> gostr" where
  "decimal n = (if n < 10 then [char_of (48 + n)] else decimal (n div 10) @ [char_of (48 + n mod 10)])"

declare decimal.simps [simp del]

definition newline :: gostr where
  "newline = [char_of (10 :: nat)]"

fun page_text :: "file_reply \<Rightarrow> gostr" where
  "page_text (Page name sz offset data more) =
     ''[file: '' @ name @ '' | total: '' @ decimal (nat sz) @ '' bytes | read: bytes '' @ decimal (nat offset) @ ''-'' @
     decimal (nat (offset + int (length data) - 1)) @ '']'' @
     (if more
      then newline @ ''[TRUNCATED - file has more content. Call read_file again with offset='' @
           decimal (nat (offset + int (length data))) @ '' to continue.]''
      else newline @ ''[END OF FILE - no further content.]'') @ newline @ newline @ data"
| "page_text NoContentAtOffset = ''[END OF FILE - no content at this offset]''"
| "page_text _ = []"

section \<open>Writing, listing, editing, appending\<close>

definition write_file_execute :: "file_system \<Rightarrow> gostr \<Rightarrow> gostr \<Rightarrow> json_args \<Rightarrow> tree \<Rightarrow> file_reply \<times> tree" where
  "write_file_execute fs wd tmp args t =
     (case args ''path'' of
        Some (JString path) \<Rightarrow>
          (case args ''content'' of
             Some (JString content) \<Rightarrow>
               (case fs_write fs wd tmp path content t of
                  (Some e, t') \<Rightarrow> (FileFailed e, t')
                | (None, t') \<Rightarrow> (FileWritten path, t'))
           | _ \<Rightarrow> (ArgumentMissing ''content'', t))
      | _ \<Rightarrow> (ArgumentMissing ''path'', t))"

definition list_dir_execute :: "file_system \<Rightarrow> gostr \<Rightarrow> tree \<Rightarrow> json_args \<Rightarrow> file_reply" where
  "list_dir_execute fs wd t args =
     (case fs_read_dir fs wd t (case args ''path'' of Some (JString path) \<Rightarrow> path | _ \<Rightarrow> ''.'') of
        Inl e \<Rightarrow> FileFailed e
      | Inr es \<Rightarrow> DirEntries es)"

definition format_dir_entries :: "(gostr \<times> bool) list \<Rightarrow> gostr" where
  "format_dir_entries es = concat (map (\<lambda>(n, d). (if d then ''DIR:  '' else ''FILE: '') @ n @ newline) es)"

text \<open>\<open>strings.Count\<close> of a text that is not empty: occurrences that do not overlap; of the empty text: runes, and one.\<close>

function count_sub :: "gostr \<Rightarrow> gostr \<Rightarrow> nat" where
  "count_sub s w =
     (if w = [] then Suc (length (filter (\<lambda>c. \<not> (128 \<le> code c \<and> code c < 192)) s))
      else if s = [] then 0
      else if has_prefix s w then Suc (count_sub (drop (length w) s) w)
      else count_sub (tl s) w)"
  by pat_completeness auto
termination
  by (relation "measure (\<lambda>(s, w). length s)") (auto simp: neq_Nil_conv)

declare count_sub.simps [simp del]

text \<open>\<open>strings.Replace\<close> of the first occurrence.\<close>

fun replace_once :: "gostr \<Rightarrow> gostr \<Rightarrow> gostr \<Rightarrow> gostr" where
  "replace_once [] w n = (if w = [] then n else [])"
| "replace_once (c # s) w n = (if has_prefix (c # s) w then n @ drop (length w) (c # s) else c # replace_once s w n)"

definition replace_edit_content :: "gostr \<Rightarrow> gostr \<Rightarrow> gostr \<Rightarrow> file_reply + gostr" where
  "replace_edit_content content oldText newText =
     (if \<not> contains content oldText then Inl OldTextMissing
      else if count_sub content oldText > 1 then Inl (OldTextAmbiguous (count_sub content oldText))
      else Inr (replace_once content oldText newText))"

definition edit_file :: "file_system \<Rightarrow> gostr \<Rightarrow> gostr \<Rightarrow> gostr \<Rightarrow> gostr \<Rightarrow> gostr \<Rightarrow> tree \<Rightarrow> file_reply \<times> tree" where
  "edit_file fs wd tmp path oldText newText t =
     (case fs_read fs wd t path of
        Inl e \<Rightarrow> (FileFailed e, t)
      | Inr content \<Rightarrow>
          (case replace_edit_content content oldText newText of
             Inl e \<Rightarrow> (e, t)
           | Inr newContent \<Rightarrow>
               (case fs_write fs wd tmp path newContent t of
                  (Some e, t') \<Rightarrow> (FileFailed e, t')
                | (None, t') \<Rightarrow> (FileEdited path, t'))))"

definition edit_file_execute :: "file_system \<Rightarrow> gostr \<Rightarrow> gostr \<Rightarrow> json_args \<Rightarrow> tree \<Rightarrow> file_reply \<times> tree" where
  "edit_file_execute fs wd tmp args t =
     (case args ''path'' of
        Some (JString path) \<Rightarrow>
          (case args ''old_text'' of
             Some (JString oldText) \<Rightarrow>
               (case args ''new_text'' of
                  Some (JString newText) \<Rightarrow> edit_file fs wd tmp path oldText newText t
                | _ \<Rightarrow> (ArgumentMissing ''new_text'', t))
           | _ \<Rightarrow> (ArgumentMissing ''old_text'', t))
      | _ \<Rightarrow> (ArgumentMissing ''path'', t))"

definition append_file :: "file_system \<Rightarrow> gostr \<Rightarrow> gostr \<Rightarrow> gostr \<Rightarrow> gostr \<Rightarrow> tree \<Rightarrow> file_reply \<times> tree" where
  "append_file fs wd tmp path appendContent t =
     (let r = fs_read fs wd t path in
      case r of
        Inl e \<Rightarrow>
          if e \<noteq> NotExist then (FileFailed e, t)
          else (case fs_write fs wd tmp path appendContent t of
                  (Some e, t') \<Rightarrow> (FileFailed e, t') | (None, t') \<Rightarrow> (FileAppended path, t'))
      | Inr content \<Rightarrow>
          (case fs_write fs wd tmp path (content @ appendContent) t of
             (Some e, t') \<Rightarrow> (FileFailed e, t') | (None, t') \<Rightarrow> (FileAppended path, t')))"

definition append_file_execute :: "file_system \<Rightarrow> gostr \<Rightarrow> gostr \<Rightarrow> json_args \<Rightarrow> tree \<Rightarrow> file_reply \<times> tree" where
  "append_file_execute fs wd tmp args t =
     (case args ''path'' of
        Some (JString path) \<Rightarrow>
          (case args ''content'' of
             Some (JString content) \<Rightarrow> append_file fs wd tmp path content t
           | _ \<Rightarrow> (ArgumentMissing ''content'', t))
      | _ \<Rightarrow> (ArgumentMissing ''path'', t))"

section \<open>Pages\<close>

text \<open>What a model that follows the offsets of the answers reads; \<open>None\<close> when \<open>fuel\<close> calls are not enough.\<close>

definition page_args :: "gostr \<Rightarrow> int \<Rightarrow> int \<Rightarrow> json_args" where
  "page_args path offset len =
     (\<lambda>k. if k = ''path'' then Some (JString path) else if k = ''offset'' then Some (JInt offset)
          else if k = ''length'' then Some (JInt len) else None)"

fun follow_pages :: "nat \<Rightarrow> file_system \<Rightarrow> gostr \<Rightarrow> int \<Rightarrow> tree \<Rightarrow> gostr \<Rightarrow> int \<Rightarrow> int \<Rightarrow> gostr list option" where
  "follow_pages 0 fs wd maxSize t path len offset = None"
| "follow_pages (Suc n) fs wd maxSize t path len offset =
     (case read_file_execute fs wd maxSize t (page_args path offset len) of
        Page name sz from data more \<Rightarrow>
          if more then map_option (Cons data) (follow_pages n fs wd maxSize t path len (offset + int (length data)))
          else Some [data]
      | NoContentAtOffset \<Rightarrow> Some []
      | _ \<Rightarrow> None)"

lemma page_call:
  assumes "fs_read fs wd t path = Inr content" "0 < len" "0 < maxSize"
  shows "read_file_execute fs wd maxSize t (page_args path (int k) len) = read_page path content (int k) (min len maxSize)"
  using assms by (simp add: read_file_execute_def page_args_def get_int64_arg_def)

lemma read_page_cases:
  assumes "0 < len"
  shows "read_page path content (int k) len =
    (if length content \<le> k then NoContentAtOffset
     else Page (path_base path) (int (length content)) (int k) (take (nat len) (drop k content)) (int (length content - k) > len))"
proof -
  obtain m where m: "len = int m" "0 < m" using assms by (metis pos_int_cases)
  have n: "nat (len + 1) = Suc m" by (simp add: m(1))
  let ?p = "take (Suc m) (drop k content)"
  have data: "take (nat (min (int (length ?p)) len)) ?p = take m (drop k content)"
    by (cases "length content - k \<le> m") (simp_all add: m(1) min_def)
  have "read_page path content (int k) len =
      (if take m (drop k content) = [] then NoContentAtOffset
       else Page (path_base path) (int (length content)) (int k) (take m (drop k content)) (int (length ?p) > len))"
    unfolding read_page_def Let_def n nat_int data ..
  moreover have "take m (drop k content) = [] \<longleftrightarrow> length content \<le> k" using m(2) by simp
  moreover have "int (length ?p) > len \<longleftrightarrow> int (length content - k) > len" by (auto simp: m(1))
  ultimately show ?thesis by (auto simp: m(1))
qed

text \<open>
  C36 Paging is complete: following the offsets of its answers from the start, a caller of \<open>read_file\<close> gets, after at most
  one call for each byte, pages within the length asked for and within the configured maximum which together are the
  content of the file, each byte once.
\<close>

theorem pages_are_the_file:
  assumes "fs_read fs wd t path = Inr content" "0 < len" "0 < maxSize"
  shows "\<exists>pages. follow_pages (Suc (length content)) fs wd maxSize t path len 0 = Some pages \<and> concat pages = content \<and>
    (\<forall>p\<in>set pages. int (length p) \<le> min len maxSize)"
proof -
  let ?l = "min len maxSize"
  have l: "0 < ?l" using assms(2,3) by simp
  have "k \<le> length content \<Longrightarrow> length content - k < n \<Longrightarrow>
      \<exists>pages. follow_pages n fs wd maxSize t path len (int k) = Some pages \<and> concat pages = drop k content \<and>
        (\<forall>p\<in>set pages. int (length p) \<le> ?l)" for n k
  proof (induction n arbitrary: k)
    case (Suc n)
    show ?case
    proof (cases "length content \<le> k")
      case True
      then show ?thesis by (simp add: page_call [OF assms] read_page_cases [OF l])
    next
      case False
      let ?d = "take (nat ?l) (drop k content)"
      have "length ?d \<le> nat ?l" by simp
      with l have d: "int (length ?d) \<le> ?l" by linarith
      show ?thesis
      proof (cases "int (length content - k) > ?l")
        case True
        with l have len: "length ?d = nat ?l" by simp
        with l True have k: "k + nat ?l \<le> length content" "length content - (k + nat ?l) < n"
          using Suc.prems False by (simp, linarith)
        from Suc.IH [OF k] obtain pages where pages: "follow_pages n fs wd maxSize t path len (int (k + nat ?l)) = Some pages"
            "concat pages = drop (k + nat ?l) content" "\<forall>p\<in>set pages. int (length p) \<le> ?l" by blast
        have "int k + int (length ?d) = int (k + nat ?l)" using len by simp
        with pages False True have "follow_pages (Suc n) fs wd maxSize t path len (int k) = Some (?d # pages)"
          by (simp add: page_call [OF assms] read_page_cases [OF l])
        moreover have "concat (?d # pages) = drop k content"
        proof -
          have "drop (k + nat ?l) content = drop (nat ?l) (drop k content)" by (simp add: add.commute)
          then show ?thesis by (simp only: concat.simps pages(2) append_take_drop_id)
        qed
        ultimately show ?thesis using pages(3) d by (intro exI [of _ "?d # pages"]) simp
      next
        case more: False
        then have "?d = drop k content" using l by simp
        with False more d show ?thesis
          by (simp add: page_call [OF assms] read_page_cases [OF l])
      qed
    qed
  qed simp
  from this [of 0 "Suc (length content)"] show ?thesis by simp
qed

theorem pages_are_the_file_witness:
  "\<exists>pages. follow_pages (Suc (length ''hello'')) HostFs ''/'' 100 demo_tree ''/w/a'' 2 0 = Some pages \<and> concat pages = ''hello''"
proof -
  have "fs_read HostFs ''/'' demo_tree ''/w/a'' = Inr ''hello''"
    by (simp add: host_read_def host_walk_def kernel_links_def demo_tree_def node_at_def file_content_def)
  from pages_are_the_file [OF this, of 2 100] show ?thesis by auto
qed

section \<open>What an edit does\<close>

definition occurs_at :: "nat \<Rightarrow> gostr \<Rightarrow> gostr \<Rightarrow> bool" where
  "occurs_at i s w \<longleftrightarrow> has_prefix (drop i s) w"

text \<open>The first occurrence of a text.\<close>

definition first_occurrence :: "gostr \<Rightarrow> gostr \<Rightarrow> gostr \<Rightarrow> gostr \<Rightarrow> bool" where
  "first_occurrence s u w v \<longleftrightarrow> s = u @ w @ v \<and> (\<forall>i<length u. \<not> occurs_at i s w)"

lemma contains_first: "contains s w \<longleftrightarrow> (\<exists>u v. first_occurrence s u w v)"
proof (induction s)
  case Nil
  show ?case by (auto simp: first_occurrence_def)
next
  case (Cons c s)
  show ?case
  proof (cases "has_prefix (c # s) w")
    case True
    then obtain v where "c # s = w @ v" by (auto simp: has_prefix_iff prefix_def)
    then have "first_occurrence (c # s) [] w v" by (simp add: first_occurrence_def)
    with True show ?thesis by auto
  next
    case False
    have "(\<exists>u v. first_occurrence (c # s) u w v) \<longleftrightarrow> (\<exists>u v. first_occurrence s u w v)"
    proof
      assume "\<exists>u v. first_occurrence (c # s) u w v"
      then obtain u v where f: "c # s = u @ w @ v" "\<forall>i<length u. \<not> occurs_at i (c # s) w"
        by (auto simp: first_occurrence_def)
      with False obtain u' where u: "u = c # u'" by (cases u) (auto simp: has_prefix_iff)
      with f have "s = u' @ w @ v" by simp
      moreover have "\<not> occurs_at i s w" if "i < length u'" for i
        using f(2) [rule_format, of "Suc i"] that u by (simp add: occurs_at_def)
      ultimately show "\<exists>u v. first_occurrence s u w v" unfolding first_occurrence_def by blast
    next
      assume "\<exists>u v. first_occurrence s u w v"
      then obtain u v where f: "s = u @ w @ v" "\<forall>i<length u. \<not> occurs_at i s w" by (auto simp: first_occurrence_def)
      have "\<not> occurs_at i (c # s) w" if "i < length (c # u)" for i
        using f(2) that False by (cases i) (auto simp: occurs_at_def)
      with f(1) have "first_occurrence (c # s) (c # u) w v" by (simp add: first_occurrence_def)
      then show "\<exists>u v. first_occurrence (c # s) u w v" by blast
    qed
    with Cons False show ?thesis by simp
  qed
qed

lemma first_occurrence_Cons:
  assumes "first_occurrence (c # s) (x # u) w v"
  shows "x = c \<and> first_occurrence s u w v \<and> \<not> has_prefix (c # s) w"
proof -
  from assms have f: "c # s = (x # u) @ w @ v" "\<forall>i<length (x # u). \<not> occurs_at i (c # s) w"
    by (auto simp: first_occurrence_def)
  have "\<not> occurs_at i s w" if "i < length u" for i
    using f(2) [rule_format, of "Suc i"] that by (simp add: occurs_at_def)
  with f f(2) [rule_format, of 0] show ?thesis by (auto simp: first_occurrence_def occurs_at_def)
qed

lemma count_first:
  "w \<noteq> [] \<Longrightarrow> first_occurrence s u w v \<Longrightarrow> count_sub s w = Suc (count_sub v w)"
proof (induction u arbitrary: s)
  case Nil
  then have s: "has_prefix s w" "s \<noteq> []" "drop (length w) s = v" by (auto simp: first_occurrence_def has_prefix_iff)
  then show ?case using Nil.prems(1) by (subst count_sub.simps) simp
next
  case (Cons x u)
  then obtain c s' where s: "s = c # s'" by (cases s) (auto simp: first_occurrence_def)
  from first_occurrence_Cons [OF Cons.prems(2) [unfolded s]] Cons.IH [of s'] Cons.prems(1)
  show ?case by (simp add: s count_sub.simps [of "c # s'" w])
qed

lemma count_absent: "w \<noteq> [] \<Longrightarrow> \<not> contains s w \<Longrightarrow> count_sub s w = 0"
proof (induction s)
  case (Cons c s)
  then show ?case by (simp add: count_sub.simps [of "c # s" w])
qed (simp add: count_sub.simps)

lemma count_zero: "w \<noteq> [] \<Longrightarrow> count_sub s w = 0 \<longleftrightarrow> \<not> contains s w"
  using count_first count_absent contains_first by (metis nat.distinct(1))

lemma replace_first: "first_occurrence s u w v \<Longrightarrow> replace_once s w n = u @ n @ v"
proof (induction u arbitrary: s)
  case Nil
  then have "has_prefix s w" "drop (length w) s = v" by (auto simp: first_occurrence_def has_prefix_iff)
  then show ?case by (cases s) auto
next
  case (Cons x u)
  then obtain c s' where s: "s = c # s'" by (cases s) (auto simp: first_occurrence_def)
  from first_occurrence_Cons [OF Cons.prems [unfolded s]] Cons.IH [of s'] show ?case by (simp add: s)
qed

text \<open>
  C31 An edit replaces exactly one text: it succeeds exactly when the old text occurs and does not occur again after its
  first occurrence, and then the new content is the old one with that occurrence replaced. An occurrence that overlaps
  the first one does not count: \<open>aa\<close> is unique in \<open>aaa\<close>.
\<close>

theorem edit_exact:
  assumes "w \<noteq> []"
  shows "replace_edit_content s w n = Inr s' \<longleftrightarrow>
    (\<exists>u v. first_occurrence s u w v \<and> \<not> contains v w \<and> s' = u @ n @ v)"
proof
  assume e: "replace_edit_content s w n = Inr s'"
  then have "contains s w" "count_sub s w \<le> 1" and s': "s' = replace_once s w n"
    by (auto simp: replace_edit_content_def split: if_splits)
  then obtain u v where f: "first_occurrence s u w v" using contains_first by blast
  with count_first [OF assms f] \<open>count_sub s w \<le> 1\<close> have "count_sub v w = 0" by simp
  with f s' replace_first [OF f] count_zero [OF assms] show "\<exists>u v. first_occurrence s u w v \<and> \<not> contains v w \<and> s' = u @ n @ v"
    by blast
next
  assume "\<exists>u v. first_occurrence s u w v \<and> \<not> contains v w \<and> s' = u @ n @ v"
  then obtain u v where f: "first_occurrence s u w v" "\<not> contains v w" "s' = u @ n @ v" by blast
  with contains_first have "contains s w" by blast
  with f count_first [OF assms f(1)] count_absent [OF assms f(2)] replace_first [OF f(1)]
  show "replace_edit_content s w n = Inr s'" by (simp add: replace_edit_content_def)
qed

theorem edit_exact_witness: "replace_edit_content ''aaa'' ''aa'' ''b'' = Inr ''ba''"
proof -
  have "first_occurrence ''aaa'' [] ''aa'' ''a'' \<and> \<not> contains ''a'' ''aa''" by (simp add: first_occurrence_def)
  then have "\<exists>u v. first_occurrence ''aaa'' u ''aa'' v \<and> \<not> contains v ''aa'' \<and> ''ba'' = u @ ''b'' @ v"
    by (intro exI [of _ "[]"] exI [of _ "''a''"]) simp
  with edit_exact [of "''aa''" "''aaa''" "''b''" "''ba''"] show ?thesis by simp
qed

section \<open>What was written is read\<close>

text \<open>A tree without symbolic links below a root.\<close>

definition link_free :: "gostr list \<Rightarrow> tree \<Rightarrow> bool" where
  "link_free R t \<longleftrightarrow> (\<forall>p target. node_at t (R @ p) \<noteq> Some (Symlink target))"

lemma walk_link_free:
  "walk jailed R t l cur cs = Inr q \<Longrightarrow> link_free R t \<Longrightarrow> \<forall>x\<in>set cs. name_seg x \<Longrightarrow>
   node_at t (R @ q) = Some Directory \<Longrightarrow>
   q = cur @ cs \<and> (\<forall>n\<le>length cs. 0 < n \<longrightarrow> node_at t (R @ cur @ take n cs) = Some Directory)"
proof (induction jailed R t l cur cs arbitrary: q rule: walk.induct)
  case (2 jailed R t l cur c cs)
  then have c: "c \<noteq> []" "c \<noteq> ''.''" "c \<noteq> ''..''" by (simp_all add: name_seg_def plain_seg_def)
  show ?case
  proof (cases "node_at t (R @ cur @ [c])")
    case None
    with c "2.prems"(1) show ?thesis by simp
  next
    case (Some k)
    show ?thesis
    proof (cases k)
      case (RegularFile d)
      with c Some "2.prems"(1,4) show ?thesis by (auto split: if_splits)
    next
      case (Symlink target)
      with Some "2.prems"(2) show ?thesis by (simp add: link_free_def)
    next
      case Directory
      with c Some 2 have ih: "q = (cur @ [c]) @ cs"
          "\<And>n. n \<le> length cs \<Longrightarrow> 0 < n \<Longrightarrow> node_at t (R @ (cur @ [c]) @ take n cs) = Some Directory" by simp_all
      have "node_at t (R @ cur @ take n (c # cs)) = Some Directory" if n: "n \<le> length (c # cs)" "0 < n" for n
        using ih(2) [of "n - 1"] n Some Directory by (cases "n = 1") (cases n; simp)+
      with ih(1) show ?thesis by simp
    qed
  qed
qed simp

lemma walk_down:
  "\<forall>x\<in>set xs. name_seg x \<Longrightarrow> \<forall>n\<le>length xs. 0 < n \<longrightarrow> node_at t (R @ cur @ take n xs) = Some Directory \<Longrightarrow>
   walk jailed R t l cur (xs @ cs) = walk jailed R t l (cur @ xs) cs"
proof (induction xs arbitrary: cur)
  case (Cons x xs)
  from Cons.prems(2) [rule_format, of 1] have d: "node_at t (R @ cur @ [x]) = Some Directory" by simp
  have "\<forall>n\<le>length xs. 0 < n \<longrightarrow> node_at t (R @ (cur @ [x]) @ take n xs) = Some Directory"
  proof (intro allI impI)
    fix n
    assume "n \<le> length xs" "0 < n"
    with Cons.prems(2) [rule_format, of "Suc n"] show "node_at t (R @ (cur @ [x]) @ take n xs) = Some Directory" by simp
  qed
  from Cons.IH [OF _ this] Cons.prems(1) d show ?case by (simp add: name_seg_def plain_seg_def)
qed simp

lemma safe_rel_names:
  assumes "is_abs workspace" "get_safe_rel_path workspace path = Inr rel"
  shows "rel = ''.'' \<or> (\<exists>xs. xs \<noteq> [] \<and> (\<forall>x\<in>set xs. name_seg x) \<and> rel = join_segs xs)"
proof (cases "is_abs (clean path)")
  case True
  with assms have r: "path_rel workspace (clean path) = Some rel" "is_local rel"
    by (auto simp: get_safe_rel_path_def split: option.splits if_splits)
  with rel_local_iff [OF assms(1) True] obtain ts where ts: "clean_segs (clean path) = clean_segs workspace @ ts"
    by (auto simp: prefix_def)
  from rel_below [OF assms(1) True ts] r(1) clean_segs_names [OF True] ts show ?thesis by auto
next
  case False
  with assms have r: "rel = clean path" "is_local rel"
    by (auto simp: get_safe_rel_path_def split: if_splits)
  from False clean_abs have "\<not> is_abs path" by blast
  from clean_segs_rel [OF this] obtain k ns where k: "clean_segs path = replicate k ''..'' @ ns" "\<forall>x\<in>set ns. name_seg x" by blast
  show ?thesis
  proof (cases k)
    case 0
    with r(1) k \<open>\<not> is_abs path\<close> show ?thesis by (auto simp: clean_def)
  next
    case (Suc m)
    with r(1) k(1) \<open>\<not> is_abs path\<close> have "rel = join_segs (replicate (Suc m) ''..'' @ ns)" by (simp add: clean_def)
    with not_local_dots [OF k(2), of m] r(2) show ?thesis by simp
  qed
qed

text \<open>A workspace that is a directory reached without links and holds no links.\<close>

definition sandbox_ok :: "gostr \<Rightarrow> tree \<Rightarrow> bool" where
  "sandbox_ok workspace t \<longleftrightarrow> is_abs workspace \<and> clean workspace = workspace \<and>
     (\<forall>n\<le>length (clean_segs workspace). node_at t (take n (clean_segs workspace)) = Some Directory) \<and>
     link_free (clean_segs workspace) t"

lemma sandbox_write_reads:
  assumes "sandbox_ok workspace t" and ok: "sandbox_write wd workspace tmp path data t = (None, t')"
  shows "sandbox_read wd workspace t' path = Inr data \<and> sandbox_ok workspace t'"
proof -
  have w: "is_abs workspace" "clean workspace = workspace"
    and dirs: "\<forall>n\<le>length (clean_segs workspace). node_at t (take n (clean_segs workspace)) = Some Directory"
    and lf: "link_free (clean_segs workspace) t"
    using assms(1) by (simp_all add: sandbox_ok_def)
  let ?W = "clean_segs workspace"
  have ne: "workspace \<noteq> []" using w(1) by auto
  have "node_at t ?W = Some Directory" using dirs by (metis le_refl take_all_iff)
  with host_walk_workspace [OF w dirs] ne ok obtain rel where
    rel: "get_safe_rel_path workspace path = Inr rel" "sandbox_execute wd workspace t path = Inr (?W, rel)"
    by (auto simp: sandbox_write_def sandbox_execute_def split: sum.splits)
  obtain e t1 where m: "root_mkdir_all ?W (path_dir rel) t = (e, t1)" by fastforce
  with ok rel(2) have e: "e = None" by (cases e) (simp_all add: sandbox_write_def)
  with m ok rel(2) have r: "rename_into True ?W tmp (root_walk ?W t1 (butlast (segments rel))) (last (segments rel)) data t1 = (None, t')"
    by (simp add: sandbox_write_def)
  then obtain d where d: "root_walk ?W t1 (butlast (segments rel)) = Inr d" "node_at t1 d = Some Directory"
      "last (segments rel) \<noteq> ''.''" "t' = put_node (d @ [last (segments rel)]) (RegularFile data) t1"
      "node_at t1 (d @ [last (segments rel)]) \<noteq> Some Directory"
    by (auto simp: rename_into_def split: if_splits sum.splits)
  have "rel \<noteq> ''.''" using d(3) by auto
  with safe_rel_names [OF w(1) rel(1)] obtain xs where xs: "xs \<noteq> []" "\<forall>x\<in>set xs. name_seg x" "rel = join_segs xs" by blast
  then have seg: "segments rel = xs" by (simp add: segments_join name_seg_def plain_seg_def)
  let ?ds = "butlast xs"
  have a: "only_dirs_added ?W t t1" using root_mkdir_adds [of ?W t "path_dir rel"] m by simp
  have lf1: "link_free ?W t1"
    using lf only_dirsD(1,3) [OF a] unfolding link_free_def by (metis node.distinct(5) option.inject option.distinct(1))
  from d(1) seg obtain q where q: "walk True ?W t1 root_links [] ?ds = Inr q" "d = ?W @ q"
    by (auto simp: root_walk_def split: sum.splits)
  have nds: "\<forall>x\<in>set ?ds. name_seg x" using xs(2) by (auto dest: in_set_butlastD)
  from walk_link_free [OF q(1) lf1 nds] d(2) q(2) have down: "q = ?ds"
      "\<forall>n\<le>length ?ds. 0 < n \<longrightarrow> node_at t1 (?W @ [] @ take n ?ds) = Some Directory" by auto
  have tgt: "d @ [last (segments rel)] = ?W @ xs" using q(2) down(1) seg xs(1) by simp
  have other: "p \<noteq> ?W @ xs \<Longrightarrow> node_at t' p = node_at t1 p" for p by (simp add: d(4) tgt)
  have dirs': "\<forall>n\<le>length ?W. node_at t' (take n ?W) = Some Directory"
  proof (intro allI impI)
    fix n
    assume n: "n \<le> length ?W"
    have "length (take n ?W) < length (?W @ xs)" using xs(1) n by (cases xs) simp_all
    then have "take n ?W \<noteq> ?W @ xs" by (intro notI) (simp only: less_irrefl)
    with other only_dirsD(1) [OF a] dirs n show "node_at t' (take n ?W) = Some Directory" by simp
  qed
  have "node_at t' ?W = Some Directory" using dirs' by (metis le_refl take_all_iff)
  with host_walk_workspace [OF w dirs'] ne rel(1) have ex: "sandbox_execute wd workspace t' path = Inr (?W, rel)"
    by (simp add: sandbox_execute_def)
  have down': "\<forall>n\<le>length ?ds. 0 < n \<longrightarrow> node_at t' (?W @ [] @ take n ?ds) = Some Directory"
  proof (intro allI impI)
    fix n
    assume n: "n \<le> length ?ds" "0 < n"
    have "length ?ds < length xs" using xs(1) by simp
    then have "take n ?ds \<noteq> xs" by (metis length_take min.cobounded1 not_le)
    then have "?W @ [] @ take n ?ds \<noteq> ?W @ xs" by simp
    with other down(2) n show "node_at t' (?W @ [] @ take n ?ds) = Some Directory" by simp
  qed
  have "xs = ?ds @ [last xs]" using xs(1) by simp
  moreover have "name_seg (last xs)" using xs by simp
  moreover have "node_at t' (?W @ xs) = Some (RegularFile data)" using xs(1) by (simp add: d(4) tgt)
  ultimately have "walk True ?W t' root_links [] xs = Inr xs"
    using walk_down [OF nds down', of True root_links "[last xs]"] by (simp add: name_seg_def plain_seg_def)
  with \<open>node_at t' (?W @ xs) = Some (RegularFile data)\<close> have "sandbox_read wd workspace t' path = Inr data"
    by (simp add: sandbox_read_def ex seg root_walk_def file_content_def)
  moreover have "link_free ?W t'" using lf1 other \<open>node_at t' (?W @ xs) = Some (RegularFile data)\<close>
    unfolding link_free_def by (metis node.distinct(3) option.inject)
  ultimately show ?thesis using w dirs' by (simp add: sandbox_ok_def)
qed

text \<open>
  What was written is read: in a workspace that is reached without links and holds none, after a write that succeeds
  a read of the same path answers the data written, whatever directories the write had to make.
\<close>

theorem write_then_read:
  assumes "sandbox_ok workspace t" "sandbox_write wd workspace tmp path data t = (None, t')"
  shows "sandbox_read wd workspace t' path = Inr data"
  using sandbox_write_reads [OF assms] by blast

definition plain_tree :: tree where
  "plain_tree = [([''w''], Directory), ([''w'', ''a''], RegularFile ''hello'')]"

lemma plain_tree_ok: "sandbox_ok ''/w'' plain_tree"
proof -
  have c: "is_abs ''/w''" "clean ''/w'' = ''/w''" "clean_segs ''/w'' = [''w'']"
    by (simp_all add: clean_def clean_segs_def clean_seg_def)
  have d: "\<forall>n\<le>length (clean_segs ''/w''). node_at plain_tree (take n (clean_segs ''/w'')) = Some Directory"
  proof (intro allI impI)
    fix n
    show "node_at plain_tree (take n (clean_segs ''/w'')) = Some Directory"
      by (cases n) (simp_all add: c plain_tree_def node_at_def)
  qed
  have "link_free (clean_segs ''/w'') plain_tree" by (auto simp: link_free_def c plain_tree_def node_at_def)
  with c d show ?thesis by (simp add: sandbox_ok_def)
qed

theorem write_then_read_witness:
  "sandbox_read ''/'' ''/w'' (snd (sandbox_write ''/'' ''/w'' ''tmp'' ''b'' ''x'' plain_tree)) ''b'' = Inr ''x''"
proof -
  obtain err t' where w: "sandbox_write ''/'' ''/w'' ''tmp'' ''b'' ''x'' plain_tree = (err, t')" by fastforce
  have "fst (sandbox_write ''/'' ''/w'' ''tmp'' ''b'' ''x'' plain_tree) = None"
    by (simp add: sandbox_write_def sandbox_execute_def host_walk_def kernel_links_def plain_tree_def node_at_def get_safe_rel_path_def
        clean_def clean_segs_def clean_seg_def is_local_def has_prefix_def path_dir_def root_mkdir_all_def root_walk_def rename_into_def)
  with w have "sandbox_write ''/'' ''/w'' ''tmp'' ''b'' ''x'' plain_tree = (None, t')" by simp
  from write_then_read [OF plain_tree_ok this] show ?thesis unfolding w by simp
qed

section \<open>Interface: a file system that keeps what is written\<close>

text \<open>What the tools that read and write back rely on: a write that succeeds is seen by the next read of the same path.\<close>

locale file_store =
  fixes fs :: file_system and wd :: gostr and ok :: "tree \<Rightarrow> bool"
  assumes write_read: "ok t \<Longrightarrow> fs_write fs wd tmp path data t = (None, t') \<Longrightarrow> fs_read fs wd t' path = Inr data \<and> ok t'"
begin

lemma edit_reads:
  assumes "ok t" "edit_file fs wd tmp path old new t = (FileEdited p, t')"
  shows "\<exists>content content'. fs_read fs wd t path = Inr content \<and> replace_edit_content content old new = Inr content' \<and>
    fs_read fs wd t' path = Inr content' \<and> ok t'"
proof -
  from assms(2) obtain content where c: "fs_read fs wd t path = Inr content"
    by (cases "fs_read fs wd t path") (simp_all add: edit_file_def)
  have "replace_edit_content content old new \<noteq> Inl (FileEdited p)"
    by (simp add: replace_edit_content_def)
  with assms(2) c obtain content' where c': "replace_edit_content content old new = Inr content'"
    by (cases "replace_edit_content content old new") (simp_all add: edit_file_def)
  from assms(2) c c' have "fs_write fs wd tmp path content' t = (None, t')"
    by (cases "fs_write fs wd tmp path content' t") (simp add: edit_file_def split: option.splits)
  with write_read [OF assms(1)] c c' show ?thesis by blast
qed

lemma append_reads:
  assumes "ok t" "append_file fs wd tmp path added t = (FileAppended p, t')"
  shows "\<exists>content. (fs_read fs wd t path = Inr content \<or> (fs_read fs wd t path = Inl NotExist \<and> content = [])) \<and>
    fs_read fs wd t' path = Inr (content @ added) \<and> ok t'"
proof -
  obtain content where c: "fs_read fs wd t path = Inr content \<or> (fs_read fs wd t path = Inl NotExist \<and> content = [])"
      "append_file fs wd tmp path added t = (case fs_write fs wd tmp path (content @ added) t of
         (Some e, t') \<Rightarrow> (FileFailed e, t') | (None, t') \<Rightarrow> (FileAppended path, t'))"
  proof (cases "fs_read fs wd t path")
    case (Inl e)
    with assms(2) have "e = NotExist" by (simp add: append_file_def split: if_splits)
    with Inl show thesis by (intro that [of "[]"]) (simp_all add: append_file_def)
  next
    case (Inr content)
    then show thesis by (intro that [of content]) (simp_all add: append_file_def)
  qed
  with assms(2) have "fs_write fs wd tmp path (content @ added) t = (None, t')"
    by (cases "fs_write fs wd tmp path (content @ added) t") (simp split: option.splits)
  with write_read [OF assms(1)] c(1) show ?thesis by blast
qed

end

interpretation boxed: file_store "SandboxFs ws" wd "sandbox_ok ws" for ws wd
  by unfold_locales (simp add: sandbox_write_reads)

text \<open>
  In the sandbox an edit or an append that reports success has done what it says: the file now reads as its content
  before with the one occurrence replaced, or with the text added at the end, where a file that was missing counts as
  empty.
\<close>

theorem edit_append_read:
  assumes "sandbox_ok ws t"
  shows "(edit_file (SandboxFs ws) wd tmp path old new t = (FileEdited p, t') \<longrightarrow>
      (\<exists>content content'. sandbox_read wd ws t path = Inr content \<and> replace_edit_content content old new = Inr content' \<and>
        sandbox_read wd ws t' path = Inr content')) \<and>
    (append_file (SandboxFs ws) wd tmp path old t = (FileAppended p, t') \<longrightarrow>
      (\<exists>content. (sandbox_read wd ws t path = Inr content \<or> (sandbox_read wd ws t path = Inl NotExist \<and> content = [])) \<and>
        sandbox_read wd ws t' path = Inr (content @ old)))"
  using boxed.edit_reads [OF assms] boxed.append_reads [OF assms] by (auto simp only: fs_read.simps) blast+

theorem edit_append_read_witness:
  "sandbox_read ''/'' ''/w'' (snd (append_file (SandboxFs ''/w'') ''/'' ''tmp'' ''b'' ''x'' plain_tree)) ''b'' = Inr ''x''"
proof -
  note ev = sandbox_write_def sandbox_read_def sandbox_execute_def host_walk_def kernel_links_def plain_tree_def node_at_def
    get_safe_rel_path_def clean_def clean_segs_def clean_seg_def is_local_def has_prefix_def path_dir_def root_mkdir_all_def
    root_walk_def root_links_def rename_into_def
  have miss: "sandbox_read ''/'' ''/w'' plain_tree ''b'' = Inl NotExist" by (simp add: ev)
  have "fst (append_file (SandboxFs ''/w'') ''/'' ''tmp'' ''b'' ''x'' plain_tree) = FileAppended ''b''"
    by (simp add: append_file_def ev)
  then obtain t' where a: "append_file (SandboxFs ''/w'') ''/'' ''tmp'' ''b'' ''x'' plain_tree = (FileAppended ''b'', t')"
    by (metis prod.collapse)
  from edit_append_read [OF plain_tree_ok, THEN conjunct2, rule_format, OF a] miss
  have "sandbox_read ''/'' ''/w'' t' ''b'' = Inr ''x''" by auto
  with a show ?thesis by simp
qed

section \<open>The tree stays a tree\<close>

text \<open>Every node has a name and stands in a directory.\<close>

definition tree_ok :: "tree \<Rightarrow> bool" where
  "tree_ok t \<longleftrightarrow> (\<forall>d x. node_at t (d @ [x]) \<noteq> None \<longrightarrow> name_seg x \<and> node_at t d = Some Directory)"

lemma tree_ok_put:
  assumes "tree_ok t" "node_at t d = Some Directory" "node_at t (d @ [x]) \<noteq> Some Directory" "name_seg x"
  shows "tree_ok (put_node (d @ [x]) n t)"
  unfolding tree_ok_def
proof (intro allI impI)
  fix e y
  assume "node_at (put_node (d @ [x]) n t) (e @ [y]) \<noteq> None"
  then have "e @ [y] = d @ [x] \<or> node_at t (e @ [y]) \<noteq> None" by (auto split: if_splits)
  then have "name_seg y \<and> node_at t e = Some Directory" using assms by (auto simp: tree_ok_def)
  moreover from this assms(3) have "e \<noteq> d @ [x]" by auto
  ultimately show "name_seg y \<and> node_at (put_node (d @ [x]) n t) e = Some Directory" by simp
qed

lemma tree_ok_remove:
  assumes "tree_ok t" "node_at t p \<noteq> Some Directory"
  shows "tree_ok (remove_node p t)"
  using assms unfolding tree_ok_def node_at_remove by (metis append_is_Nil_conv option.distinct(1))

lemma rename_keeps_tree:
  assumes "tree_ok t" "slash \<notin> set x"
  shows "tree_ok (snd (rename_into sweep tmpdir tmp q x data t))"
proof -
  have "name_seg x" if "x \<noteq> []" "x \<noteq> ''.''" "x \<noteq> ''..''" using that assms(2) by (simp add: name_seg_def plain_seg_def)
  with assms(1) show ?thesis by (cases q) (simp_all add: rename_into_def tree_ok_put tree_ok_remove)
qed

lemma mkdir_keeps_tree:
  assumes "tree_ok t" "node_at t (R @ cur) = Some Directory" "\<forall>c\<in>set cs. slash \<notin> set c"
  shows "tree_ok (snd (mkdir_walk jailed R t l cur cs))"
  using assms
proof (induction jailed R t l cur cs rule: mkdir_walk.induct)
  case (2 jailed R t l cur c cs)
  consider "c = [] \<or> c = ''.''" | (up) "c = ''..''" | (name) "c \<noteq> []" "c \<noteq> ''.''" "c \<noteq> ''..''" by blast
  then show ?case
  proof cases
    case up
    have "node_at t (R @ butlast cur) = Some Directory"
    proof (cases cur rule: rev_cases)
      case Nil
      with "2.prems"(2) show ?thesis by simp
    next
      case (snoc d x)
      with "2.prems"(1,2) have "node_at t ((R @ d) @ [x]) \<noteq> None" by simp
      with "2.prems"(1) have "node_at t (R @ d) = Some Directory" unfolding tree_ok_def by blast
      with snoc show ?thesis by simp
    qed
    with 2 up show ?thesis by simp
  next
    case name
    with "2.prems"(3) have c: "name_seg c" by (simp add: name_seg_def plain_seg_def)
    show ?thesis
    proof (cases "node_at t (R @ cur @ [c])")
      case None
      from tree_ok_put [OF "2.prems"(1,2), of c Directory] None c
      have "tree_ok (put_node (R @ cur @ [c]) Directory t)" by simp
      with "2.IH"(3) name None "2.prems"(3) show ?thesis by simp
    next
      case (Some k)
      show ?thesis
      proof (cases k)
        case (RegularFile d)
        with name Some "2.prems"(1) show ?thesis by simp
      next
        case Directory
        with "2.IH"(4) name Some "2.prems" show ?thesis by simp
      next
        case (Symlink target)
        show ?thesis
        proof (cases l)
          case 0
          with Symlink name Some "2.prems"(1) show ?thesis by simp
        next
          case (Suc l')
          have sl: "\<forall>x\<in>set (segments target @ cs). slash \<notin> set x"
            using "2.prems"(3) by (auto dest: segments_slash_free)
          show ?thesis
          proof (cases jailed)
            case True
            with "2.IH"(5) [of k target l'] Symlink name Some Suc "2.prems"(1,2) sl show ?thesis by simp
          next
            case False
            let ?w = "walk False R t l' (if is_abs target then [] else cur) (segments target)"
            show ?thesis
            proof (cases ?w)
              case (Inl e)
              with False Symlink name Some Suc "2.prems"(1) show ?thesis by simp
            next
              case (Inr q)
              with "2.IH"(6) [of k target l' q] False Symlink name Some Suc "2.prems"(1,3) show ?thesis by simp
            qed
          qed
        qed
      qed
    qed
  qed (use 2 in auto)
qed simp

lemma last_segment_plain: "slash \<notin> set (last (segments p))"
  by (rule segments_slash_free [of _ p]) simp

lemma host_write_keeps_tree: "tree_ok t \<Longrightarrow> tree_ok (snd (write_file_atomic wd tmp path data t))"
proof -
  assume t: "tree_ok t"
  let ?cs = "(if is_abs (path_dir path) then [] else segments wd) @ segments (path_dir path)"
  obtain r t1 where m: "mkdir_walk False [] t kernel_links [] ?cs = (r, t1)" by fastforce
  have "\<forall>c\<in>set ?cs. slash \<notin> set c" by (auto dest: segments_slash_free)
  from mkdir_keeps_tree [OF t _ this, of "[]" "[]" False kernel_links] m have "tree_ok t1" by simp
  with m rename_keeps_tree [OF _ last_segment_plain] show ?thesis
    by (cases r) (simp_all add: write_file_atomic_def Let_def)
qed

lemma sandbox_write_keeps_tree: "tree_ok t \<Longrightarrow> tree_ok (snd (sandbox_write wd ws tmp path data t))"
proof (cases "sandbox_execute wd ws t path")
  case (Inr v)
  assume t: "tree_ok t"
  obtain R rel where v: "v = (R, rel)" by fastforce
  with Inr have R: "node_at t R = Some Directory" by (auto simp: sandbox_execute_def split: if_splits sum.splits)
  obtain r t1 where m: "mkdir_walk True R t root_links [] (segments (path_dir rel)) = (r, t1)" by fastforce
  have "\<forall>c\<in>set (segments (path_dir rel)). slash \<notin> set c" by (auto dest: segments_slash_free)
  from mkdir_keeps_tree [OF t _ this, of R "[]" True root_links] R m have "tree_ok t1" by simp
  then have "tree_ok (snd (root_mkdir_all R (path_dir rel) t))" using t m by (cases r) (simp_all add: root_mkdir_all_def)
  with rename_keeps_tree [OF _ last_segment_plain] Inr v show ?thesis
    by (cases "root_mkdir_all R (path_dir rel) t") (simp add: sandbox_write_def split: option.split)
qed (simp add: sandbox_write_def)

lemma fs_write_keeps_tree: "tree_ok t \<Longrightarrow> tree_ok (snd (fs_write fs wd tmp path data t))"
  by (cases fs) (simp_all add: host_write_keeps_tree sandbox_write_keeps_tree)

text \<open>
  The tools keep the files well formed: writing, editing and appending, on the host, in the sandbox or with a whitelist,
  with any arguments, lead from a tree in which every node has a proper name and stands in a directory to such a tree.
\<close>

theorem tools_keep_tree:
  assumes "tree_ok t"
  shows "tree_ok (snd (write_file_execute fs wd tmp args t)) \<and> tree_ok (snd (edit_file_execute fs wd tmp args t)) \<and>
    tree_ok (snd (append_file_execute fs wd tmp args t))"
proof (intro conjI)
  note keep = fs_write_keeps_tree [OF assms]
  have w: "tree_ok (snd (case fs_write fs wd tmp p c t of (Some e, t') \<Rightarrow> (FileFailed e, t') | (None, t') \<Rightarrow> (r, t')))" for p c r
    using keep [of fs wd tmp p c] by (cases "fs_write fs wd tmp p c t") (simp split: option.split)
  show "tree_ok (snd (write_file_execute fs wd tmp args t))"
    using assms w by (simp add: write_file_execute_def split: option.split json_arg.split)
  have "tree_ok (snd (edit_file fs wd tmp p old new t))" for p old new
    using assms w by (simp add: edit_file_def split: sum.split)
  then show "tree_ok (snd (edit_file_execute fs wd tmp args t))"
    using assms by (simp add: edit_file_execute_def split: option.split json_arg.split)
  have "tree_ok (snd (append_file fs wd tmp p c t))" for p c
    using assms w by (simp add: append_file_def Let_def split: sum.split)
  then show "tree_ok (snd (append_file_execute fs wd tmp args t))"
    using assms by (simp add: append_file_execute_def split: option.split json_arg.split)
qed

theorem tools_keep_tree_witness:
  "tree_ok (snd (write_file_execute HostFs ''/'' ''tmp''
     (\<lambda>k. if k = ''path'' then Some (JString ''/w/b/c'') else Some (JString ''x'')) plain_tree))"
proof -
  have "tree_ok plain_tree"
    by (auto simp: tree_ok_def plain_tree_def node_at_def name_seg_def plain_seg_def append_eq_Cons_conv split: if_splits)
  from tools_keep_tree [OF this] show ?thesis by blast
qed

end
