(* ===== verification/Exec_Guard.thy ===== *)
theory Exec_Guard imports File_Tools Regex begin

text \<open>
  The tool that runs shell commands, \<open>pkg/tools/shell.go\<close>: its construction, the guard in front of every
  command (deny patterns, allow lists, the confinement of the paths it names) and its execution. The process itself is
  the argument \<open>run\<close>; \<open>compile\<close> is \<open>regexp.Compile\<close> for the patterns of the configuration; \<open>pwd\<close> is the working
  directory of the process of the agent.
\<close>

section \<open>Patterns\<close>

definition ws_star :: rx where
  "ws_star = Star (Cls re_space)"

definition ws_plus :: rx where
  "ws_plus = Plus (Cls re_space)"

definition ws :: rx where
  "ws = Cls re_space"

fun alts :: "rx list \<Rightarrow> rx" where
  "alts [] = Eps"
| "alts [r] = r"
| "alts (r # rs) = Alt r (alts rs)"

definition word_of :: "gostr list \<Rightarrow> rx" where
  "word_of vs = alts (map lit vs)"

definition none_of :: "gostr \<Rightarrow> rx" where
  "none_of w = Cls (\<lambda>d. d \<notin> set w)"

definition letter_az :: rx where
  "letter_az = Cls is_lower"

definition octal :: rx where
  "octal = Cls (\<lambda>d. 48 \<le> code d \<and> code d \<le> 55)"

definition quote_char :: char where
  "quote_char = CHR 0x27"

definition backslash :: char where
  "backslash = CHR 0x5C"

definition backtick :: char where
  "backtick = CHR 0x60"

definition default_deny_patterns :: "rx list" where
  "default_deny_patterns =
     [seqs [WordB, lit ''rm'', ws_plus, lit ''-'', any_of ''rf'', Opt (any_of ''rf''), WordB],
      seqs [WordB, lit ''del'', ws_plus, lit ''/'', any_of ''fq'', WordB],
      seqs [WordB, lit ''rmdir'', ws_plus, lit ''/s'', WordB],
      seqs [WordB, word_of [''format'', ''mkfs'', ''diskpart''], WordB, ws],
      seqs [WordB, lit ''dd'', ws_plus, lit ''if=''],
      seqs [lit ''>'', ws_star, lit ''/dev/'',
        alts [Seq (lit ''sd'') letter_az, Seq (lit ''hd'') letter_az, Seq (lit ''vd'') letter_az, Seq (lit ''xvd'') letter_az,
          Seq (lit ''nvme'') digit, Seq (lit ''mmcblk'') digit, Seq (lit ''loop'') digit, Seq (lit ''dm-'') digit,
          Seq (lit ''md'') digit, Seq (lit ''sr'') digit, Seq (lit ''nbd'') digit]],
      seqs [WordB, word_of [''shutdown'', ''reboot'', ''poweroff''], WordB],
      seqs [lit '':()'', ws_star, lit ''{'', Star dot, lit ''};'', ws_star, lit '':''],
      seqs [lit ''$('', Plus (none_of '')''), lit '')''],
      seqs [lit ''${'', Plus (none_of ''}''), lit ''}''],
      seqs [lit [backtick], Plus (none_of [backtick]), lit [backtick]],
      seqs [lit ''|'', ws_star, lit ''sh'', WordB],
      seqs [lit ''|'', ws_star, lit ''bash'', WordB],
      seqs [lit '';'', ws_star, lit ''rm'', ws_plus, lit ''-'', any_of ''rf''],
      seqs [lit ''&&'', ws_star, lit ''rm'', ws_plus, lit ''-'', any_of ''rf''],
      seqs [lit ''||'', ws_star, lit ''rm'', ws_plus, lit ''-'', any_of ''rf''],
      seqs [lit ''<<'', ws_star, lit ''EOF''],
      seqs [lit ''$('', ws_star, lit ''cat'', ws_plus],
      seqs [lit ''$('', ws_star, lit ''curl'', ws_plus],
      seqs [lit ''$('', ws_star, lit ''wget'', ws_plus],
      seqs [lit ''$('', ws_star, lit ''which'', ws_plus],
      seqs [WordB, lit ''sudo'', WordB],
      seqs [WordB, lit ''chmod'', ws_plus, octal, octal, octal, Opt octal, WordB],
      seqs [WordB, lit ''chown'', WordB],
      seqs [WordB, lit ''pkill'', WordB],
      seqs [WordB, lit ''killall'', WordB],
      seqs [WordB, lit ''kill'', WordB],
      seqs [WordB, lit ''curl'', WordB, Star dot, lit ''|'', ws_star, word_of [''sh'', ''bash'']],
      seqs [WordB, lit ''wget'', WordB, Star dot, lit ''|'', ws_star, word_of [''sh'', ''bash'']],
      seqs [WordB, lit ''npm'', ws_plus, lit ''install'', ws_plus, lit ''-g'', WordB],
      seqs [WordB, lit ''pip'', ws_plus, lit ''install'', ws_plus, lit ''--user'', WordB],
      seqs [WordB, lit ''apt'', ws_plus, word_of [''install'', ''remove'', ''purge''], WordB],
      seqs [WordB, lit ''yum'', ws_plus, word_of [''install'', ''remove''], WordB],
      seqs [WordB, lit ''dnf'', ws_plus, word_of [''install'', ''remove''], WordB],
      seqs [WordB, lit ''docker'', ws_plus, lit ''run'', WordB],
      seqs [WordB, lit ''docker'', ws_plus, lit ''exec'', WordB],
      seqs [WordB, lit ''git'', ws_plus, lit ''push'', WordB],
      seqs [WordB, lit ''git'', ws_plus, lit ''force'', WordB],
      seqs [WordB, lit ''ssh'', WordB, Star dot, lit ''@''],
      seqs [WordB, lit ''eval'', WordB],
      seqs [WordB, lit ''source'', ws_plus, Star dot, lit ''.sh'', WordB]]"

text \<open>The characters that end a path in \<open>absolutePathPattern\<close>.\<close>

definition path_char :: "char \<Rightarrow> bool" where
  "path_char d \<longleftrightarrow> \<not> re_space d \<and> d \<noteq> CHR 0x22 \<and> d \<noteq> quote_char"

definition absolute_path_pattern :: rx where
  "absolute_path_pattern =
     Alt (seqs [Cls (\<lambda>d. is_upper d \<or> is_lower d), lit '':'', lit [backslash], Plus (none_of [backslash, CHR 0x22, quote_char])])
         (seqs [lit ''/'', Plus (Cls path_char)])"

text \<open>\<open>FindAllStringIndex\<close> of a pattern that matches no empty text; an index as the text before the match and the match.\<close>

fun search_at :: "rx \<Rightarrow> char option \<Rightarrow> gostr \<Rightarrow> gostr \<Rightarrow> (gostr \<times> gostr \<times> gostr) option" where
  "search_at r p bef [] = None"
| "search_at r p bef (c # s) =
     (case rx_match r (p, c # s, None) of
        [] \<Rightarrow> search_at r (Some c) (bef @ [c]) s
      | (_, rest, _) # _ \<Rightarrow> Some (bef, take (length (c # s) - length rest) (c # s), rest))"

fun find_all :: "nat \<Rightarrow> rx \<Rightarrow> gostr \<Rightarrow> gostr \<Rightarrow> (gostr \<times> gostr) list" where
  "find_all 0 r bef s = []"
| "find_all (Suc n) r bef s =
     (case search_at r (if bef = [] then None else Some (last bef)) bef s of
        None \<Rightarrow> []
      | Some (b, m, rest) \<Rightarrow> (b, m) # find_all n r (b @ m) rest)"

definition find_all_index :: "rx \<Rightarrow> gostr \<Rightarrow> (gostr \<times> gostr) list" where
  "find_all_index r s = find_all (length s) r [] s"

section \<open>The guard\<close>

datatype guard_error = DangerousPattern | NotInAllowlist | PathTraversal | PathOutsideWorkingDir

record exec_tool =
  et_workingDir :: gostr
  et_timeout :: duration
  et_denyPatterns :: "rx list"
  et_allowPatterns :: "rx list"
  et_customAllowPatterns :: "rx list"
  et_restrictToWorkspace :: bool
  et_allowRemote :: bool

definition safe_paths :: "gostr list" where
  "safe_paths = [''/dev/null'', ''/dev/zero'', ''/dev/random'', ''/dev/urandom'', ''/dev/stdin'', ''/dev/stdout'', ''/dev/stderr'']"

definition web_schemes :: "gostr list" where
  "web_schemes = [''http:'', ''https:'', ''ftp:'', ''ftps:'', ''sftp:'', ''ssh:'', ''git:'']"

text \<open>One match of the path pattern: whether the guard lets it pass.\<close>

definition path_passes :: "gostr \<Rightarrow> gostr \<Rightarrow> gostr \<times> gostr \<Rightarrow> bool" where
  "path_passes pwd cwdPath loc =
     (case loc of (bef, raw) \<Rightarrow>
        if has_prefix raw ''//'' \<and> bef \<noteq> [] \<and> list_ex (has_suffix bef) web_schemes then True
        else let p = path_abs pwd raw in
             if p \<in> set safe_paths then True
             else (case path_rel cwdPath p of None \<Rightarrow> True | Some rel \<Rightarrow> \<not> has_prefix rel ''..''))"

definition guard_paths :: "gostr \<Rightarrow> gostr \<Rightarrow> gostr \<Rightarrow> guard_error option" where
  "guard_paths pwd cmd cwd =
     (if contains cmd [CHR ''.'', CHR ''.'', backslash] \<or> contains cmd ''../'' then Some PathTraversal
      else if list_all (path_passes pwd (path_abs pwd cwd)) (find_all_index absolute_path_pattern cmd) then None
      else Some PathOutsideWorkingDir)"

definition guard_command :: "exec_tool \<Rightarrow> gostr \<Rightarrow> gostr \<Rightarrow> gostr \<Rightarrow> guard_error option" where
  "guard_command t pwd command cwd =
     (let cmd = trim_space command;
          lower = to_lower cmd;
          explicitlyAllowed = list_ex (\<lambda>p. match_string p lower) (et_customAllowPatterns t)
      in if \<not> explicitlyAllowed \<and> list_ex (\<lambda>p. match_string p lower) (et_denyPatterns t) then Some DangerousPattern
         else if et_allowPatterns t \<noteq> [] \<and> \<not> list_ex (\<lambda>p. match_string p lower) (et_allowPatterns t) then Some NotInAllowlist
         else if et_restrictToWorkspace t then guard_paths pwd cmd cwd
         else None)"

section \<open>Construction\<close>

record exec_config =
  xc_EnableDenyPatterns :: bool
  xc_AllowRemote :: bool
  xc_CustomDenyPatterns :: "gostr list"
  xc_CustomAllowPatterns :: "gostr list"
  xc_TimeoutSeconds :: int

fun compile_all :: "(gostr \<Rightarrow> rx option) \<Rightarrow> gostr list \<Rightarrow> gostr + rx list" where
  "compile_all compile [] = Inr []"
| "compile_all compile (p # ps) =
     (case compile p of
        None \<Rightarrow> Inl p
      | Some r \<Rightarrow> (case compile_all compile ps of Inl e \<Rightarrow> Inl e | Inr rs \<Rightarrow> Inr (r # rs)))"

definition new_exec_tool_with_config ::
  "(gostr \<Rightarrow> rx option) \<Rightarrow> gostr \<Rightarrow> bool \<Rightarrow> exec_config option \<Rightarrow> gostr + exec_tool" where
  "new_exec_tool_with_config compile workingDir restrict config =
     (let denyPatterns =
            (case config of
               None \<Rightarrow> Inr default_deny_patterns
             | Some xc \<Rightarrow>
                 if xc_EnableDenyPatterns xc
                 then (case compile_all compile (xc_CustomDenyPatterns xc) of
                         Inl e \<Rightarrow> Inl e | Inr rs \<Rightarrow> Inr (default_deny_patterns @ rs))
                 else Inr []);
          allow = (case config of None \<Rightarrow> Inr [] | Some xc \<Rightarrow> compile_all compile (xc_CustomAllowPatterns xc));
          timeout = (case config of
                       Some xc \<Rightarrow> if xc_TimeoutSeconds xc > 0 then seconds (xc_TimeoutSeconds xc) else seconds 60
                     | None \<Rightarrow> seconds 60)
      in (case denyPatterns of
            Inl e \<Rightarrow> Inl e
          | Inr deny \<Rightarrow>
              (case allow of
                 Inl e \<Rightarrow> Inl e
               | Inr custom \<Rightarrow>
                   Inr \<lparr>et_workingDir = workingDir, et_timeout = timeout, et_denyPatterns = deny, et_allowPatterns = [],
                        et_customAllowPatterns = custom, et_restrictToWorkspace = restrict,
                        et_allowRemote = (case config of None \<Rightarrow> True | Some xc \<Rightarrow> xc_AllowRemote xc)\<rparr>)))"

definition set_allow_patterns :: "(gostr \<Rightarrow> rx option) \<Rightarrow> gostr list \<Rightarrow> exec_tool \<Rightarrow> gostr + exec_tool" where
  "set_allow_patterns compile patterns t =
     (case compile_all compile patterns of Inl e \<Rightarrow> Inl e | Inr rs \<Rightarrow> Inr (t\<lparr>et_allowPatterns := rs\<rparr>))"

section \<open>Execution\<close>

text \<open>
  How the process ends: it cannot be started, or it ends with its output, an error if its status is not 0 or it was
  killed, and whether the time limit of the context had passed.
\<close>

datatype proc_result = StartFailed gostr | Ended gostr gostr "gostr option" bool

datatype exec_reply =
  CommandRequired
| RestrictedToInternal
| BlockedDir fs_error
| Blocked guard_error
| ResolutionFailed fs_error
| WorkingDirEscaped
| NotStarted gostr
| TimedOut duration
| Ran gostr bool \<comment> \<open>the text and whether it is an error\<close>

definition max_output :: nat where
  "max_output = 10000"

definition process_output :: "gostr \<Rightarrow> gostr \<Rightarrow> gostr option \<Rightarrow> gostr" where
  "process_output out err failed =
     (let o1 = (if err = [] then out else out @ newline @ ''STDERR:'' @ newline @ err);
          o2 = (case failed of None \<Rightarrow> o1 | Some e \<Rightarrow> o1 @ newline @ ''Exit code: '' @ e);
          o3 = (if o2 = [] then ''(no output)'' else o2)
      in if length o3 > max_output
         then take max_output o3 @ newline @ ''... (truncated, '' @ decimal (length o3 - max_output) @ '' more chars)''
         else o3)"

definition proc_reply :: "duration \<Rightarrow> proc_result \<Rightarrow> exec_reply" where
  "proc_reply timeout r =
     (case r of
        StartFailed e \<Rightarrow> NotStarted e
      | Ended out err failed late \<Rightarrow>
          if failed \<noteq> None \<and> late then TimedOut timeout else Ran (process_output out err failed) (failed \<noteq> None))"

text \<open>The channel a call comes from; \<open>channel\<close> is the one of the context.\<close>

definition exec_channel :: "gostr \<Rightarrow> json_args \<Rightarrow> gostr" where
  "exec_channel channel args =
     trim_space (if channel = [] then (case args ''__channel'' of Some (JString c) \<Rightarrow> c | _ \<Rightarrow> []) else channel)"

definition exec_permitted :: "exec_tool \<Rightarrow> gostr \<Rightarrow> json_args \<Rightarrow> bool" where
  "exec_permitted t channel args \<longleftrightarrow>
     et_allowRemote t \<or> (exec_channel channel args \<noteq> [] \<and> internal_channel (exec_channel channel args))"

definition exec_cwd :: "exec_tool \<Rightarrow> gostr \<Rightarrow> tree \<Rightarrow> json_args \<Rightarrow> fs_error + gostr" where
  "exec_cwd t pwd tr args =
     (let default = (if et_workingDir t = [] then pwd else et_workingDir t) in
      case args ''working_dir'' of
        Some (JString d) \<Rightarrow>
          if d = [] then Inr default
          else if et_restrictToWorkspace t \<and> et_workingDir t \<noteq> [] then validate_path pwd tr d (et_workingDir t) True
          else Inr d
      | _ \<Rightarrow> Inr default)"

text \<open>The second look at the working directory, just before the command is started.\<close>

definition recheck_cwd :: "exec_tool \<Rightarrow> gostr \<Rightarrow> tree \<Rightarrow> gostr \<Rightarrow> exec_reply + gostr" where
  "recheck_cwd t pwd tr cwd =
     (if et_restrictToWorkspace t \<and> et_workingDir t \<noteq> [] \<and> cwd \<noteq> et_workingDir t
      then (case host_walk eval_links pwd tr cwd of
              Inl e \<Rightarrow> Inl (ResolutionFailed e)
            | Inr resolved \<Rightarrow>
                let absWorkspace = path_abs pwd (et_workingDir t);
                    wsResolved = (case eval_symlinks tr absWorkspace of Inr q \<Rightarrow> abs_path q | Inl e \<Rightarrow> absWorkspace)
                in (case path_rel wsResolved (abs_path resolved) of
                      None \<Rightarrow> Inl WorkingDirEscaped
                    | Some rel \<Rightarrow> if is_local rel then Inr (abs_path resolved) else Inl WorkingDirEscaped))
      else Inr cwd)"

text \<open>\<open>tr'\<close> are the files when the working directory is looked at again; \<open>run\<close> runs a command in a directory.\<close>

definition exec_execute ::
  "exec_tool \<Rightarrow> gostr \<Rightarrow> gostr \<Rightarrow> tree \<Rightarrow> tree \<Rightarrow> json_args \<Rightarrow> (gostr \<Rightarrow> gostr \<Rightarrow> proc_result) \<Rightarrow>
   exec_reply \<times> (gostr \<times> gostr) option" where
  "exec_execute t pwd channel tr tr' args run =
     (case args ''command'' of
        Some (JString command) \<Rightarrow>
          if \<not> exec_permitted t channel args then (RestrictedToInternal, None)
          else (case exec_cwd t pwd tr args of
                  Inl e \<Rightarrow> (BlockedDir e, None)
                | Inr cwd \<Rightarrow>
                    (case guard_command t pwd command cwd of
                       Some g \<Rightarrow> (Blocked g, None)
                     | None \<Rightarrow>
                         (case recheck_cwd t pwd tr' cwd of
                            Inl r \<Rightarrow> (r, None)
                          | Inr dir \<Rightarrow> (proc_reply (et_timeout t) (run command dir), Some (command, dir)))))
      | _ \<Rightarrow> (CommandRequired, None))"

section \<open>What the path pattern finds\<close>

lemma star_cls_head:
  "length s \<le> n \<Longrightarrow> \<exists>q rest. star_iter n (rx_match (Cls P)) (p, s, g) = (q, dropWhile P s, g) # rest"
proof (induction n arbitrary: p s)
  case (Suc n)
  show ?case
  proof (cases s)
    case Nil
    then show ?thesis by simp
  next
    case (Cons c t)
    show ?thesis
    proof (cases "P c")
      case True
      from Suc.IH [of t "Some c"] Suc.prems Cons obtain q rest where
        "star_iter n (rx_match (Cls P)) (Some c, t, g) = (q, dropWhile P t, g) # rest" by auto
      with True Cons show ?thesis by simp
    next
      case False
      with Cons show ?thesis by simp
    qed
  qed
qed simp

lemma plus_cls_head:
  "rx_match (Plus (Cls P)) (p, s, g) =
     (case s of [] \<Rightarrow> [] | c # t \<Rightarrow> if P c then star_iter (length t) (rx_match (Cls P)) (Some c, t, g) else [])"
  by (simp add: Plus_def split: list.split)

text \<open>The words that start with a slash: from a slash up to a space or a quote, not empty after the slash.\<close>

function slash_words :: "gostr \<Rightarrow> gostr \<Rightarrow> (gostr \<times> gostr) list" where
  "slash_words bef [] = []"
| "slash_words bef (c # s) =
     (if c = slash \<and> takeWhile path_char s \<noteq> []
      then (bef, c # takeWhile path_char s) # slash_words (bef @ c # takeWhile path_char s) (dropWhile path_char s)
      else slash_words (bef @ [c]) s)"
  by pat_completeness auto
termination
  by (relation "measure (\<lambda>(bef, s). length s)") (auto simp: less_Suc_eq_le length_dropWhile_le)

lemma path_match_slash:
  "rx_match absolute_path_pattern (p, slash # s, None) = [] \<longleftrightarrow> takeWhile path_char s = []"
  "takeWhile path_char s \<noteq> [] \<Longrightarrow>
     \<exists>q rest. rx_match absolute_path_pattern (p, slash # s, None) = (q, dropWhile path_char s, None) # rest"
proof -
  have a: "rx_match absolute_path_pattern (p, slash # s, None) = rx_match (Plus (Cls path_char)) (Some slash, s, None)"
    by (simp add: absolute_path_pattern_def lit_def is_upper_def is_lower_def code_def)
  show "rx_match absolute_path_pattern (p, slash # s, None) = [] \<longleftrightarrow> takeWhile path_char s = []"
  proof (cases s)
    case (Cons c t)
    with star_cls_head [of t "length t" path_char "Some c" None] show ?thesis unfolding a plus_cls_head by auto
  next
    case Nil
    then show ?thesis unfolding a plus_cls_head by simp
  qed
  assume "takeWhile path_char s \<noteq> []"
  then obtain c t where s: "s = c # t" "path_char c" by (cases s) (auto split: if_splits)
  with star_cls_head [of t "length t" path_char "Some c" None]
  show "\<exists>q rest. rx_match absolute_path_pattern (p, slash # s, None) = (q, dropWhile path_char s, None) # rest"
    unfolding a plus_cls_head by simp
qed

lemma path_match_other:
  assumes "c \<noteq> slash" "backslash \<notin> set (c # s)"
  shows "rx_match absolute_path_pattern (p, c # s, None) = []"
  using assms by (cases s; cases "tl s") (auto simp: absolute_path_pattern_def lit_def)

lemma slash_words_skip: "takeWhile path_char s = [] \<or> c \<noteq> slash \<Longrightarrow> slash_words bef (c # s) = slash_words (bef @ [c]) s"
  by auto

lemma search_at_words:
  assumes "backslash \<notin> set s"
  shows "(case search_at absolute_path_pattern p bef s of None \<Rightarrow> slash_words bef s = []
    | Some (b, m, rest) \<Rightarrow> slash_words bef s = (b, m) # slash_words (b @ m) rest \<and> length rest < length s \<and> suffix rest s)"
  using assms
proof (induction s arbitrary: p bef)
  case (Cons c s)
  show ?case
  proof (cases "c = slash \<and> takeWhile path_char s \<noteq> []")
    case True
    from path_match_slash(2) [of s p] True obtain q rest where
      m: "rx_match absolute_path_pattern (p, c # s, None) = (q, dropWhile path_char s, None) # rest" by auto
    have len: "length (c # s) - length (dropWhile path_char s) = Suc (length (takeWhile path_char s))"
      using takeWhile_dropWhile_id [of path_char s] by (metis add_diff_cancel_right' length_Cons length_append add_Suc)
    have "take (length (c # s) - length (dropWhile path_char s)) (c # s) = c # takeWhile path_char s"
      unfolding len by (simp flip: takeWhile_eq_take)
    then have "search_at absolute_path_pattern p bef (c # s) = Some (bef, c # takeWhile path_char s, dropWhile path_char s)"
      by (simp add: m)
    moreover have "suffix (dropWhile path_char s) (c # s)" by (simp add: suffix_ConsI suffix_dropWhile)
    ultimately show ?thesis using True by (simp add: less_Suc_eq_le length_dropWhile_le)
  next
    case False
    have "rx_match absolute_path_pattern (p, c # s, None) = []"
    proof (cases "c = slash")
      case True
      with False path_match_slash(1) [of p s] show ?thesis by simp
    next
      case other: False
      with Cons.prems path_match_other show ?thesis by blast
    qed
    then have st: "search_at absolute_path_pattern p bef (c # s) = search_at absolute_path_pattern (Some c) (bef @ [c]) s" by simp
    from slash_words_skip [of s c bef] False have w: "slash_words bef (c # s) = slash_words (bef @ [c]) s" by blast
    from Cons.IH [where p = "Some c" and bef = "bef @ [c]"] Cons.prems show ?thesis
      unfolding st w by (auto split: option.splits intro: suffix_ConsI)
  qed
qed simp

lemma find_all_words: "backslash \<notin> set s \<Longrightarrow> length s \<le> n \<Longrightarrow> find_all n absolute_path_pattern bef s = slash_words bef s"
proof (induction n arbitrary: bef s)
  case (Suc n)
  let ?p = "if bef = [] then None else Some (last bef)"
  show ?case
  proof (cases "search_at absolute_path_pattern ?p bef s")
    case None
    with search_at_words [OF Suc.prems(1), where p = ?p and bef = bef] show ?thesis by simp
  next
    case (Some v)
    obtain b m rest where v: "v = (b, m, rest)" by (metis prod_cases3)
    with Some search_at_words [OF Suc.prems(1), where p = ?p and bef = bef] have
      w: "slash_words bef s = (b, m) # slash_words (b @ m) rest" "length rest < length s" "suffix rest s" by simp_all
    from w(3) Suc.prems(1) have "backslash \<notin> set rest" by (auto dest: set_mono_suffix)
    from Suc.IH [OF this, of "b @ m"] w Suc.prems(2) Some v show ?thesis by simp
  qed
qed simp

lemma index_words: "backslash \<notin> set cmd \<Longrightarrow> find_all_index absolute_path_pattern cmd = slash_words [] cmd"
  unfolding find_all_index_def by (rule find_all_words [OF _ order_refl])

text \<open>
  What the path check looks at: in a command without a backslash the pattern for absolute paths finds, of every word
  (up to spaces and quotes), the part from its first slash that is followed by something: also of a relative path, and
  everything after it up to the end of the word.
\<close>

theorem path_pattern_words:
  assumes "backslash \<notin> set cmd"
  shows "find_all_index absolute_path_pattern cmd = slash_words [] cmd"
  by (rule index_words [OF assms])

theorem path_pattern_words_witness: "find_all_index absolute_path_pattern ''cat src/a.go'' = [(''cat src'', ''/a.go'')]"
proof -
  have "backslash \<notin> set ''cat src/a.go''" by (simp add: backslash_def)
  from path_pattern_words [OF this] show ?thesis
    by (simp add: path_char_def re_space_def code_def quote_char_def)
qed

section \<open>What the guard lets through\<close>

lemma slash_words_none: "slash \<notin> set s \<Longrightarrow> slash_words bef s = []"
  by (induction s arbitrary: bef) auto

lemma slash_words_before: "slash \<notin> set u \<Longrightarrow> slash_words bef (u @ s) = slash_words (bef @ u) s"
proof (induction u arbitrary: bef)
  case (Cons c u)
  then have "slash_words bef ((c # u) @ s) = slash_words (bef @ [c]) (u @ s)"
    using slash_words_skip [of "u @ s" c bef] by auto
  also have "\<dots> = slash_words ((bef @ [c]) @ u) s" by (rule Cons.IH) (use Cons.prems in simp)
  finally show ?case by simp
qed simp

lemma slash_word_one:
  assumes "list_all path_char b" "b \<noteq> []" "slash \<notin> set u" "v = [] \<or> \<not> path_char (hd v)"
  shows "slash_words bef (u @ slash # b @ v) = (bef @ u, slash # b) # slash_words (bef @ u @ slash # b) v"
proof -
  have t: "takeWhile path_char (b @ v) = b" "dropWhile path_char (b @ v) = v"
    using assms(1,4) by (cases v; simp add: takeWhile_append dropWhile_append list_all_iff)+
  show ?thesis using assms(2) by (simp add: slash_words_before [OF assms(3)] t)
qed

lemma dots_need: "contains s (a @ b # c) \<Longrightarrow> b \<in> set s"
  by (auto simp: contains_iff)

text \<open>
  C40 A command without slash and backslash passes the confinement to the workspace, whatever it does: nothing holds back
  a change of directory to \<open>..\<close>. And all of a word after a web address passes: the rest of a word that contains
  \<open>http://\<close> is not looked at, shell operators and absolute paths in it included.
\<close>

theorem guard_paths_passes:
  assumes "slash \<notin> set cmd" "backslash \<notin> set cmd"
    and "slash \<notin> set u" "backslash \<notin> set (u @ r)" "list_all path_char r" "\<not> contains (u @ ''http://'' @ r) ''../''"
  shows "guard_paths pwd cmd cwd = None \<and> guard_paths pwd (u @ ''http://'' @ r) cwd = None"
proof
  have "\<not> contains cmd [CHR ''.'', CHR ''.'', backslash]" "\<not> contains cmd ''../''"
    using dots_need [of cmd "''..''" backslash "[]"] dots_need [of cmd "''..''" slash "[]"] assms(1,2) by auto
  then show "guard_paths pwd cmd cwd = None"
    by (simp add: guard_paths_def index_words [OF assms(2)] slash_words_none [OF assms(1)])
next
  let ?c = "u @ ''http://'' @ r"
  have nb: "backslash \<notin> set ?c" using assms(4) by (simp add: backslash_def)
  have "slash \<notin> set (u @ ''http:'')" using assms(3) by simp
  from slash_word_one [of "slash # r" "u @ ''http:''" "[]" "[]"] this assms(5)
  have "slash_words [] ?c = [(u @ ''http:'', ''//'' @ r)]"
    by (simp add: path_char_def re_space_def code_def quote_char_def)
  with index_words [OF nb] have f: "find_all_index absolute_path_pattern ?c = [(u @ ''http:'', ''//'' @ r)]" by (rule trans)
  have "has_suffix (u @ ''http:'') ''http:''" by (simp add: has_suffix_def has_prefix_iff)
  then have "path_passes pwd d (u @ ''http:'', ''//'' @ r)" for d
    by (simp add: path_passes_def web_schemes_def)
  moreover have "\<not> contains ?c [CHR ''.'', CHR ''.'', backslash]"
    using dots_need [of ?c "''..''" backslash "[]"] nb by auto
  ultimately show "guard_paths pwd ?c cwd = None"
    using assms(6) by (simp add: guard_paths_def f del: append_Cons append_assoc)
qed

theorem guard_paths_passes_witness:
  "guard_paths ''/'' ''cd ..'' ''/w'' = None \<and> guard_paths ''/'' ''echo http://x;cat</etc/passwd'' ''/w'' = None"
proof -
  have "list_all path_char ''x;cat</etc/passwd''" by (simp add: path_char_def re_space_def code_def quote_char_def)
  with guard_paths_passes [of "''cd ..''" "''echo ''" "''x;cat</etc/passwd''" "''/''" "''/w''"] show ?thesis
    by (simp add: backslash_def has_prefix_def)
qed

lemma rel_dots:
  assumes "is_abs b" "is_abs t"
  shows "\<exists>rel. path_rel b t = Some rel \<and> (has_prefix rel ''..'' \<or> prefix (clean_segs b) (clean_segs t))"
proof (cases "clean t = clean b")
  case True
  with assms show ?thesis by (simp add: path_rel_def clean_eq_iff)
next
  case False
  obtain bs ts where d: "drop_common (clean_segs b) (clean_segs t) = (bs, ts)" by fastforce
  from drop_common_split [OF d] obtain cs where
    c: "clean_segs b = cs @ bs" "clean_segs t = cs @ ts" "bs = [] \<or> ts = [] \<or> hd bs \<noteq> hd ts" by blast
  have "\<forall>x\<in>set bs. name_seg x" using clean_segs_names [OF assms(1)] c(1) by simp
  then have "bs \<noteq> [] \<Longrightarrow> hd bs \<noteq> ''..''" by (cases bs) (auto simp: name_seg_def)
  moreover have "clean t \<noteq> ''.''" using assms(2) clean_abs [of t] by auto
  ultimately have r: "path_rel b t = Some (join_segs (replicate (length bs) ''..'' @ ts))"
    using False assms by (auto simp: path_rel_def d)
  show ?thesis
  proof (cases bs)
    case Nil
    with c r show ?thesis by simp
  next
    case (Cons x xs)
    then have "has_prefix (join_segs (replicate (length bs) ''..'' @ ts)) ''..''"
      by (cases "replicate (length xs) ''..'' @ ts") (simp_all add: has_prefix_def)
    with r show ?thesis by blast
  qed
qed


lemma split_unique: "u @ c # y = v @ c # b \<Longrightarrow> c \<notin> set u \<Longrightarrow> c \<notin> set y \<Longrightarrow> u = v"
  by (auto simp: append_eq_append_conv2 Cons_eq_append_conv append_eq_Cons_conv)

text \<open>
  The price: a relative path with a slash is refused under restriction, wherever it leads, because the check takes its
  part from the slash on for an absolute path.
\<close>

theorem relative_path_refused:
  assumes "slash \<notin> set u" "backslash \<notin> set (u @ y)" "name_seg y" "list_all path_char y" "\<not> has_suffix u ''..''"
    and "is_abs cwd" "clean_segs cwd \<noteq> []" "clean_segs cwd \<noteq> [y]" "slash # y \<notin> set safe_paths"
  shows "guard_paths pwd (u @ ''/'' @ y) cwd = Some PathOutsideWorkingDir"
proof -
  let ?c = "u @ slash # y"
  have y: "y \<noteq> []" "slash \<notin> set y" using assms(3) by (simp_all add: name_seg_def plain_seg_def)
  have nb: "backslash \<notin> set ?c" using assms(2) by (simp add: backslash_def)
  from slash_word_one [OF assms(4) y(1) assms(1), of "[]" "[]"] have "slash_words [] ?c = [(u, slash # y)]" by simp
  with index_words [OF nb] have f: "find_all_index absolute_path_pattern ?c = [(u, slash # y)]" by simp
  have s: "clean_segs (slash # y) = [y]" using clean_segs_abs_join [of "[y]"] assms(3) by simp
  then have cy: "clean (slash # y) = slash # y" by (simp add: clean_def)
  have "\<not> prefix (clean_segs cwd) [y]"
    using assms(7,8) by (cases "clean_segs cwd") (auto simp: prefix_def)
  moreover have "clean_segs (path_abs pwd cwd) = clean_segs cwd" "is_abs (path_abs pwd cwd)"
    using assms(6) clean_abs by (simp_all add: path_abs_def)
  moreover obtain rel where rel: "path_rel (path_abs pwd cwd) (slash # y) = Some rel"
      "has_prefix rel ''..'' \<or> prefix (clean_segs (path_abs pwd cwd)) (clean_segs (slash # y))"
    using rel_dots [of "path_abs pwd cwd" "slash # y"] path_abs_clean [of pwd] clean_abs [OF assms(6)] assms(6)
    by (auto simp: path_abs_def)
  ultimately have dots: "has_prefix rel ''..''" using s by simp
  have "path_abs pwd (slash # y) = slash # y" by (simp add: path_abs_def cy)
  moreover have "\<not> has_prefix (slash # y) ''//''" using y by (cases y) (auto simp: has_prefix_iff)
  ultimately have "\<not> path_passes pwd (path_abs pwd cwd) (u, slash # y)"
    using assms(9) rel(1) dots by (simp add: path_passes_def Let_def del: has_prefix_Cons)
  moreover have "\<not> contains ?c [CHR ''.'', CHR ''.'', backslash]"
    using dots_need [of ?c "''..''" backslash "[]"] nb by auto
  moreover have "\<not> contains ?c ''../''"
  proof
    assume "contains ?c ''../''"
    then obtain a b where "?c = a @ ''..'' @ slash # b" by (auto simp: contains_iff)
    then have "?c = (a @ ''..'') @ slash # b" by simp
    from split_unique [OF this assms(1) y(2)] have "u = a @ ''..''" .
    with assms(5) show False by (simp add: has_suffix_def has_prefix_iff)
  qed
  ultimately show ?thesis by (simp add: guard_paths_def f)
qed

theorem relative_path_refused_witness: "guard_paths ''/'' ''cat src/main.go'' ''/w'' = Some PathOutsideWorkingDir"
proof -
  have "list_all path_char ''main.go''" by (simp add: path_char_def re_space_def code_def quote_char_def)
  with relative_path_refused [of "''cat src''" "''main.go''" "''/w''" "''/''"] show ?thesis
    by (simp add: backslash_def name_seg_def plain_seg_def has_suffix_def has_prefix_def clean_segs_def clean_seg_def safe_paths_def)
qed

text \<open>
  The pattern against here-documents never matches: it asks for \<open>EOF\<close> in capitals, and patterns see the command in
  lower case.
\<close>

theorem heredoc_pattern_dead:
  "seqs [lit ''<<'', ws_star, lit ''EOF''] \<in> set default_deny_patterns \<and>
   \<not> match_string (seqs [lit ''<<'', ws_star, lit ''EOF'']) (to_lower (trim_space command))"
proof
  show "seqs [lit ''<<'', ws_star, lit ''EOF''] \<in> set default_deny_patterns"
    unfolding default_deny_patterns_def list.set by blast
  show "\<not> match_string (seqs [lit ''<<'', ws_star, lit ''EOF'']) (to_lower (trim_space command))"
  proof
    let ?r = "seqs [lit ''<<'', ws_star, lit ''EOF'']" and ?s = "to_lower (trim_space command)"
    assume "match_string ?r ?s"
    then obtain m where "rx_search ?r None ?s = Some m" unfolding match_string_def by blast
    from rx_search_result [OF this] obtain p u where u: "suffix u ?s" "m \<in> set (rx_match ?r (p, u, None))" by blast
    from u(2) obtain st where st: "st \<in> set (rx_match (Seq (lit ''<<'') ws_star) (p, u, None))" "m \<in> set (rx_match (lit ''EOF'') st)"
      by auto
    obtain q v g where v: "st = (q, v, g)" by (metis prod_cases3)
    from rx_match_suffix [OF st(1)] v have "suffix v u" by simp
    with u(1) have vs: "suffix v ?s" using suffix_order.trans by blast
    have "rx_match (lit ''EOF'') (q, v, g) \<noteq> []" using st(2) v by auto
    then have "has_prefix v ''EOF''" by (simp only: lit_match)
    then have "CHR ''E'' \<in> set v" by (cases v) auto
    with vs have "CHR ''E'' \<in> set ?s" by (auto dest: set_mono_suffix)
    from to_lower_not_upper [OF this] show False by (simp add: is_upper_def code_def)
  qed
qed

text \<open>
  C15 What is run was let through: a command is run only when its channel is permitted and the guard has passed it, and under
  restriction only in the workspace: in its directory as configured, or in one that lies in it when links are resolved
  just before the start.
\<close>

theorem run_only_guarded:
  assumes "exec_execute t pwd channel tr tr' args run = (reply, Some (command, dir))"
  shows "args ''command'' = Some (JString command) \<and> exec_permitted t channel args \<and>
    (\<exists>cwd. exec_cwd t pwd tr args = Inr cwd \<and> guard_command t pwd command cwd = None \<and>
      (et_restrictToWorkspace t \<longrightarrow> et_workingDir t \<noteq> [] \<longrightarrow> is_abs pwd \<longrightarrow> named_tree tr' \<longrightarrow>
        dir = et_workingDir t \<or>
        (\<exists>q. dir = abs_path q \<and> (\<forall>W. eval_symlinks tr' (path_abs pwd (et_workingDir t)) = Inr W \<longrightarrow> prefix W q)))) \<and>
    reply = proc_reply (et_timeout t) (run command dir)"
proof -
  obtain c where c: "args ''command'' = Some (JString c)"
    using assms unfolding exec_execute_def by (auto split: option.splits json_arg.splits)
  have perm: "exec_permitted t channel args" using assms unfolding exec_execute_def c by (auto split: if_splits)
  with assms c obtain cwd where cwd: "exec_cwd t pwd tr args = Inr cwd" "guard_command t pwd c cwd = None"
      "recheck_cwd t pwd tr' cwd = Inr dir" "command = c" "reply = proc_reply (et_timeout t) (run command dir)"
    unfolding exec_execute_def by (auto split: sum.splits option.splits)
  have "\<exists>q. dir = abs_path q \<and> (\<forall>W. eval_symlinks tr' (path_abs pwd (et_workingDir t)) = Inr W \<longrightarrow> prefix W q)"
    if r: "et_restrictToWorkspace t" "et_workingDir t \<noteq> []" "is_abs pwd" "named_tree tr'" and ne: "dir \<noteq> et_workingDir t"
  proof -
    have "cwd \<noteq> et_workingDir t" using cwd(3) ne by (auto simp: recheck_cwd_def)
    with cwd(3) r(1,2) obtain q where q: "host_walk eval_links pwd tr' cwd = Inr q" "dir = abs_path q"
        "case path_rel (case eval_symlinks tr' (path_abs pwd (et_workingDir t)) of Inr q \<Rightarrow> abs_path q
            | Inl e \<Rightarrow> path_abs pwd (et_workingDir t)) (abs_path q) of None \<Rightarrow> False | Some rel \<Rightarrow> is_local rel"
      by (auto simp: recheck_cwd_def Let_def split: sum.splits option.splits if_splits)
    have "prefix W q" if W: "eval_symlinks tr' (path_abs pwd (et_workingDir t)) = Inr W" for W
    proof -
      have n: "\<forall>x\<in>set W. name_seg x" "\<forall>x\<in>set q. name_seg x"
        using W q(1) walk_names [OF _ r(4)] by (auto simp: eval_symlinks_def host_walk_def split: if_splits)
      have "is_abs (abs_path W)" "is_abs (abs_path q)" by (simp_all add: abs_path_def)
      from q(3) W rel_local_iff [OF this] show ?thesis
        by (simp add: clean_segs_abs_path [OF n(1)] clean_segs_abs_path [OF n(2)])
    qed
    with q(2) show ?thesis by blast
  qed
  with c perm cwd show ?thesis by blast
qed

definition plain_exec :: exec_tool where
  "plain_exec = \<lparr>et_workingDir = ''/w'', et_timeout = seconds 60, et_denyPatterns = [], et_allowPatterns = [],
     et_customAllowPatterns = [], et_restrictToWorkspace = True, et_allowRemote = False\<rparr>"

lemma ls_trim: "trim_space ''ls /w/a'' = ''ls /w/a''"
  by (simp add: trim_space_def trim_left_def trim_right_def is_space_def code_def)

lemma ls_words: "slash_words [] ''ls /w/a'' = [(''ls '', ''/w/a'')]"
  by (simp add: path_char_def re_space_def code_def quote_char_def)

lemma ls_passes: "guard_command plain_exec ''/'' ''ls /w/a'' ''/w'' = None"
proof -
  have nb: "backslash \<notin> set ''ls /w/a''" by (simp add: backslash_def)
  have "path_passes ''/'' (path_abs ''/'' ''/w'') (''ls '', ''/w/a'')"
    by (simp add: path_passes_def path_abs_def path_rel_def clean_def clean_segs_def clean_seg_def has_prefix_def safe_paths_def)
  then show ?thesis
    by (simp add: guard_command_def plain_exec_def ls_trim guard_paths_def index_words [OF nb] ls_words has_prefix_def
        backslash_def del: slash_words.simps)
qed


definition ls_args :: json_args where
  "ls_args = (\<lambda>k. if k = ''command'' then Some (JString ''ls /w/a'') else None)"

theorem run_only_guarded_witness:
  "exec_permitted plain_exec ''cli'' ls_args \<and>
   exec_execute plain_exec ''/'' ''cli'' demo_tree demo_tree ls_args (\<lambda>_ _. Ended ''/w/a'' [] None False) =
     (Ran ''/w/a'' False, Some (''ls /w/a'', ''/w''))"
proof -
  have p: "exec_permitted plain_exec ''cli'' ls_args"
    by (simp add: exec_permitted_def exec_channel_def internal_channel_def plain_exec_def trim_space_def trim_left_def trim_right_def
        is_space_def code_def)
  have x: "exec_execute plain_exec ''/'' ''cli'' demo_tree demo_tree ls_args (\<lambda>_ _. Ended ''/w/a'' [] None False) =
      (Ran ''/w/a'' False, Some (''ls /w/a'', ''/w''))"
  proof -
    have c: "ls_args ''command'' = Some (JString ''ls /w/a'')" by (simp add: ls_args_def)
    have d: "exec_cwd plain_exec ''/'' demo_tree ls_args = Inr ''/w''" by (simp add: exec_cwd_def ls_args_def plain_exec_def)
    have e: "recheck_cwd plain_exec ''/'' demo_tree ''/w'' = Inr ''/w''" by (simp add: recheck_cwd_def plain_exec_def)
    show ?thesis
      unfolding exec_execute_def c using p
      by (simp add: d ls_passes e proc_reply_def process_output_def max_output_def)
  qed
  from run_only_guarded [OF x] x show ?thesis by blast
qed

end
