(* ===== verification/Heartbeat.thy ===== *)
theory Heartbeat imports Dispatch Cron_Service begin

text \<open>
  The last channel of a workspace and who uses it: the manager of the state file (\<open>pkg/state/state.go\<close>), the heartbeat
  service (\<open>pkg/heartbeat/service.go\<close>), the notices of devices (\<open>pkg/devices/service.go\<close>) and the way the gateway
  (\<open>cmd/nookclaw/internal/gateway/helpers.go\<close>) puts them together with the agent loop. Times are nanoseconds; the
  zero time is \<open>None\<close>. Logging is left out.
\<close>

section \<open>The state of a workspace\<close>

record chan_state =
  st_LastChannel :: gostr
  st_LastChatID :: gostr
  st_Timestamp :: gotime

definition no_state :: chan_state where
  "no_state = \<lparr>st_LastChannel = [], st_LastChatID = [], st_Timestamp = None\<rparr>"

text \<open>
  A state file, as \<open>encoding/json\<close> reads it: the members of the object in their order, each with a value of the
  right type, with \<open>null\<close>, or with anything else. \<open>Garbage\<close> is not JSON or not an object.
\<close>

datatype 'a member = Good 'a | Null | Bad

datatype state_member = MChannel "gostr member" | MChatID "gostr member" | MTimestamp "gotime member" | MOther

datatype state_file = NoFile | Unreadable | Garbage | Members "state_member list"

record state_disk =
  sd_new :: state_file
  sd_old :: state_file
  sd_writable :: bool

text \<open>
  \<open>json.Unmarshal\<close> into a state: a member of a wrong type is skipped and reported at the end, a time that does not
  parse ends the decoding, \<open>null\<close> changes nothing. The first component tells whether there was no error.
\<close>

fun decode_members :: "state_member list \<Rightarrow> chan_state \<Rightarrow> bool \<times> chan_state" where
  "decode_members [] st = (True, st)"
| "decode_members (MChannel (Good c) # xs) st = decode_members xs (st\<lparr>st_LastChannel := c\<rparr>)"
| "decode_members (MChannel Bad # xs) st = (False, snd (decode_members xs st))"
| "decode_members (MChatID (Good c) # xs) st = decode_members xs (st\<lparr>st_LastChatID := c\<rparr>)"
| "decode_members (MChatID Bad # xs) st = (False, snd (decode_members xs st))"
| "decode_members (MTimestamp (Good t) # xs) st = decode_members xs (st\<lparr>st_Timestamp := t\<rparr>)"
| "decode_members (MTimestamp Bad # xs) st = (False, st)"
| "decode_members (_ # xs) st = decode_members xs st"

definition unmarshal_state :: "state_file \<Rightarrow> chan_state \<Rightarrow> bool \<times> chan_state" where
  "unmarshal_state f st = (case f of Members xs \<Rightarrow> decode_members xs st | _ \<Rightarrow> (False, st))"

text \<open>\<open>json.MarshalIndent\<close>, with \<open>omitempty\<close> on the strings.\<close>

definition marshal_state :: "chan_state \<Rightarrow> state_file" where
  "marshal_state st =
     Members ((if st_LastChannel st = [] then [] else [MChannel (Good (st_LastChannel st))]) @
              (if st_LastChatID st = [] then [] else [MChatID (Good (st_LastChatID st))]) @
              [MTimestamp (Good (st_Timestamp st))])"

definition state_save_atomic :: "chan_state \<Rightarrow> state_disk \<Rightarrow> bool \<times> state_disk" where
  "state_save_atomic st dk = (if sd_writable dk then (True, dk\<lparr>sd_new := marshal_state st\<rparr>) else (False, dk))"

definition state_load :: "state_disk \<Rightarrow> chan_state \<Rightarrow> bool \<times> chan_state" where
  "state_load dk st =
     (case sd_new dk of NoFile \<Rightarrow> (True, st) | Unreadable \<Rightarrow> (False, st) | f \<Rightarrow> unmarshal_state f st)"

text \<open>\<open>NewManager\<close>: the file, or the one at the old place, which is migrated when it decodes.\<close>

definition new_state_manager :: "state_disk \<Rightarrow> chan_state \<times> state_disk" where
  "new_state_manager dk =
     (if sd_new dk = NoFile
      then (case unmarshal_state (sd_old dk) no_state of
              (ok, st) \<Rightarrow> (st, if ok then snd (state_save_atomic st dk) else dk))
      else (snd (state_load dk no_state), dk))"

definition set_last_channel :: "int \<Rightarrow> gostr \<Rightarrow> chan_state \<times> state_disk \<Rightarrow> bool \<times> chan_state \<times> state_disk" where
  "set_last_channel now channel s =
     (case s of (st, dk) \<Rightarrow>
        let st' = st\<lparr>st_LastChannel := channel, st_Timestamp := Some now\<rparr> in
        (case state_save_atomic st' dk of (ok, dk') \<Rightarrow> (ok, st', dk')))"

definition set_last_chat_id :: "int \<Rightarrow> gostr \<Rightarrow> chan_state \<times> state_disk \<Rightarrow> bool \<times> chan_state \<times> state_disk" where
  "set_last_chat_id now chatID s =
     (case s of (st, dk) \<Rightarrow>
        let st' = st\<lparr>st_LastChatID := chatID, st_Timestamp := Some now\<rparr> in
        (case state_save_atomic st' dk of (ok, dk') \<Rightarrow> (ok, st', dk')))"

lemma unmarshal_marshal [simp]: "unmarshal_state (marshal_state st) no_state = (True, st)"
  by (simp add: unmarshal_state_def marshal_state_def no_state_def)

lemma marshal_neq [simp]: "marshal_state st \<noteq> NoFile" "marshal_state st \<noteq> Unreadable"
  by (simp_all add: marshal_state_def)

lemma load_marshal [simp]: "sd_new dk = marshal_state st \<Longrightarrow> state_load dk no_state = (True, st)"
  using unmarshal_marshal [of st] by (simp add: state_load_def marshal_state_def)

lemma set_last_channel_state [simp]:
  "st_LastChannel (fst (snd (set_last_channel now c s))) = c"
  by (simp add: set_last_channel_def Let_def split: prod.splits)

text \<open>A second manager of the same directory starts with the same state.\<close>

lemma new_manager_again: "new_state_manager dk = (st, dk') \<Longrightarrow> new_state_manager dk' = (st, dk')"
  by (auto simp: new_state_manager_def state_save_atomic_def split: prod.splits if_splits)

text \<open>
  What is saved is found again: after either setter reported success, a manager that is created on the
  directory has the state of the one that saved it, so a restart keeps the last channel.
\<close>

theorem state_survives_restart:
  "set_last_channel now c (st, dk) = (True, st', dk') \<or> set_last_chat_id now c (st, dk) = (True, st', dk') \<Longrightarrow>
   new_state_manager dk' = (st', dk')"
  by (auto simp: set_last_channel_def set_last_chat_id_def new_state_manager_def state_save_atomic_def Let_def
      split: if_splits)

theorem state_survives_restart_witness:
  "fst (new_state_manager (snd (snd (set_last_channel 7 ''telegram:1''
     (no_state, \<lparr>sd_new = NoFile, sd_old = Garbage, sd_writable = True\<rparr>))))) =
   \<lparr>st_LastChannel = ''telegram:1'', st_LastChatID = [], st_Timestamp = Some 7\<rparr>"
proof -
  have "set_last_channel 7 ''telegram:1'' (no_state, \<lparr>sd_new = NoFile, sd_old = Garbage, sd_writable = True\<rparr>) =
      (True, \<lparr>st_LastChannel = ''telegram:1'', st_LastChatID = [], st_Timestamp = Some 7\<rparr>,
       \<lparr>sd_new = marshal_state \<lparr>st_LastChannel = ''telegram:1'', st_LastChatID = [], st_Timestamp = Some 7\<rparr>,
        sd_old = Garbage, sd_writable = True\<rparr>)"
    by (simp add: set_last_channel_def state_save_atomic_def no_state_def Let_def)
  from state_survives_restart [OF disjI1, OF this] this show ?thesis by simp
qed

section \<open>The heartbeat service\<close>

datatype heartbeat_file = HbMissing | HbUnreadable | HbText gostr

text \<open>
  The service. A running loop is known by its stop channel, which \<open>hs_stop\<close> holds while the service runs; \<open>hs_loops\<close>
  are the loops that have not returned yet and \<open>hs_timers\<close> counts the first heartbeats that are still to come.
\<close>

record heartbeat_service =
  hs_state :: chan_state
  hs_bus :: bool
  hs_interval :: duration
  hs_enabled :: bool
  hs_stop :: "nat option"
  hs_made :: nat
  hs_loops :: "nat list"
  hs_timers :: nat

definition heartbeat_interval :: "int \<Rightarrow> duration" where
  "heartbeat_interval minutes =
     (let m = (if minutes < 5 \<and> minutes \<noteq> 0 then 5 else minutes);
          m = (if m = 0 then 30 else m)
      in int64 (m * (60 * 10 ^ 9)))"

definition new_heartbeat_service :: "int \<Rightarrow> bool \<Rightarrow> state_disk \<Rightarrow> heartbeat_service \<times> state_disk" where
  "new_heartbeat_service minutes enabled dk =
     (case new_state_manager dk of
        (st, dk') \<Rightarrow> (\<lparr>hs_state = st, hs_bus = False, hs_interval = heartbeat_interval minutes, hs_enabled = enabled,
                       hs_stop = None, hs_made = 0, hs_loops = [], hs_timers = 0\<rparr>, dk'))"

definition start_heartbeat :: "heartbeat_service \<Rightarrow> heartbeat_service" where
  "start_heartbeat hs =
     (if hs_stop hs \<noteq> None \<or> \<not> hs_enabled hs then hs
      else hs\<lparr>hs_stop := Some (hs_made hs), hs_made := Suc (hs_made hs),
              hs_loops := hs_loops hs @ [hs_made hs], hs_timers := Suc (hs_timers hs)\<rparr>)"

definition stop_heartbeat :: "heartbeat_service \<Rightarrow> heartbeat_service" where
  "stop_heartbeat hs = hs\<lparr>hs_stop := None\<rparr>"

definition heartbeat_running :: "heartbeat_service \<Rightarrow> bool" where
  "heartbeat_running hs \<longleftrightarrow> hs_stop hs \<noteq> None"

text \<open>
  \<open>runLoop\<close> as events: the timer of a first heartbeat goes off, the ticker of a loop does (a closed stop channel does
  not prevent that, \<open>select\<close> may choose either), a loop sees its stop channel closed. The second component tells
  whether \<open>executeHeartbeat\<close> gets past its guard.
\<close>

datatype heartbeat_event = StartHb | StopHb | FirstDue | TickDue nat | LoopEnds nat

definition beat_allowed :: "heartbeat_service \<Rightarrow> bool" where
  "beat_allowed hs \<longleftrightarrow> hs_enabled hs \<and> hs_stop hs \<noteq> None"

fun heartbeat_do :: "heartbeat_event \<Rightarrow> heartbeat_service \<Rightarrow> (heartbeat_service \<times> bool) option" where
  "heartbeat_do StartHb hs = Some (start_heartbeat hs, False)"
| "heartbeat_do StopHb hs = Some (stop_heartbeat hs, False)"
| "heartbeat_do FirstDue hs =
     (if hs_timers hs = 0 then None else Some (hs\<lparr>hs_timers := hs_timers hs - 1\<rparr>, beat_allowed hs))"
| "heartbeat_do (TickDue k) hs = (if k \<in> set (hs_loops hs) then Some (hs, beat_allowed hs) else None)"
| "heartbeat_do (LoopEnds k) hs =
     (if k \<in> set (hs_loops hs) \<and> hs_stop hs \<noteq> Some k
      then Some (hs\<lparr>hs_loops := removeAll k (hs_loops hs)\<rparr>, False) else None)"

text \<open>A run: the service, and for each event whether it led to a heartbeat.\<close>

fun heartbeat_run :: "heartbeat_event list \<Rightarrow> heartbeat_service \<Rightarrow> (heartbeat_service \<times> bool list) option" where
  "heartbeat_run [] hs = Some (hs, [])"
| "heartbeat_run (e # es) hs =
     (case heartbeat_do e hs of
        None \<Rightarrow> None
      | Some (hs1, beat) \<Rightarrow> map_option (\<lambda>(hs2, beats). (hs2, beat # beats)) (heartbeat_run es hs1))"

subsection \<open>The prompt\<close>

definition task_marker :: gostr where
  "task_marker = ''Add your heartbeat tasks below this line:''"

text \<open>What follows the first occurrence of a text: \<open>content[idx+len(w):]\<close> with \<open>strings.Index\<close>.\<close>

fun after_first :: "gostr \<Rightarrow> gostr \<Rightarrow> gostr option" where
  "after_first w [] = (if w = [] then Some [] else None)"
| "after_first w (c # s) = (if has_prefix (c # s) w then Some (drop (length w) (c # s)) else after_first w s)"

definition has_configured_tasks :: "gostr \<Rightarrow> bool" where
  "has_configured_tasks content \<longleftrightarrow>
     trim_space content \<noteq> [] \<and>
     (case after_first task_marker content of None \<Rightarrow> True | Some tasks \<Rightarrow> trim_space tasks \<noteq> [])"

definition default_heartbeat_template :: gostr where
  "default_heartbeat_template =
     ''# Heartbeat Check List'' @ nl @ nl @
     ''Only tasks written below the divider are actionable.'' @ nl @
     ''Everything above the divider is documentation and must never be treated as a task.'' @ nl @ nl @
     ''## Instructions'' @ nl @ nl @
     ''- Leave the task section empty to disable autonomous actions.'' @ nl @
     ''- Do not infer tasks from examples, comments, old runs, or agent memory.'' @ nl @
     ''- Run only the tasks explicitly listed below the divider.'' @ nl @
     ''- If nothing is listed below the divider, respond with HEARTBEAT_OK.'' @ nl @ nl @
     ''---'' @ nl @ nl @ task_marker @ nl"

definition heartbeat_prompt :: "gostr \<Rightarrow> gostr \<Rightarrow> gostr" where
  "heartbeat_prompt now content =
     ''# Heartbeat Check'' @ nl @ nl @ ''Current time: '' @ now @ nl @ nl @
     ''You are a proactive AI assistant. This is a scheduled heartbeat check.'' @ nl @
     ''Review the following tasks and execute any necessary actions using available skills.'' @ nl @
     ''If there is nothing that requires attention, respond ONLY with: HEARTBEAT_OK'' @ nl @ nl @
     content @ nl"

text \<open>\<open>buildPrompt\<close>; a missing file is created with the template, if that can be written.\<close>

definition build_prompt :: "gostr \<Rightarrow> bool \<Rightarrow> heartbeat_file \<Rightarrow> gostr \<times> heartbeat_file" where
  "build_prompt now writable f =
     (case f of
        HbMissing \<Rightarrow> ([], if writable then HbText default_heartbeat_template else HbMissing)
      | HbUnreadable \<Rightarrow> ([], f)
      | HbText content \<Rightarrow>
          (if content = [] \<or> \<not> has_configured_tasks content then [] else heartbeat_prompt now content, f))"

subsection \<open>A heartbeat\<close>

definition heartbeat_target :: "gostr \<Rightarrow> gostr \<times> gostr" where
  "heartbeat_target lastChannel =
     (if lastChannel = [] then ([], [])
      else case split_n lastChannel (CHR '':'') 2 of
             [platform, userID] \<Rightarrow>
               if platform = [] \<or> userID = [] \<or> internal_channel platform then ([], []) else (platform, userID)
           | _ \<Rightarrow> ([], []))"

definition heartbeat_response :: "heartbeat_service \<Rightarrow> gostr \<Rightarrow> (gostr \<times> gostr \<times> gostr) list" where
  "heartbeat_response hs response =
     (if \<not> hs_bus hs \<or> st_LastChannel (hs_state hs) = [] then []
      else case heartbeat_target (st_LastChannel (hs_state hs)) of
             (platform, userID) \<Rightarrow> if platform = [] \<or> userID = [] then [] else [(platform, userID, response)])"

text \<open>\<open>executeHeartbeat\<close>: the messages published, the file, and the world of the handler.\<close>

definition execute_heartbeat ::
  "(gostr \<Rightarrow> gostr \<Rightarrow> gostr \<Rightarrow> 'w \<Rightarrow> tool_result option \<times> 'w) option \<Rightarrow> gostr \<Rightarrow> bool \<Rightarrow> heartbeat_service \<Rightarrow>
   heartbeat_file \<times> 'w \<Rightarrow> (gostr \<times> gostr \<times> gostr) list \<times> heartbeat_file \<times> 'w" where
  "execute_heartbeat handler now writable hs fw =
     (case fw of (f, w) \<Rightarrow>
        if \<not> beat_allowed hs then ([], f, w)
        else (case build_prompt now writable f of
                (prompt, f') \<Rightarrow>
                  if prompt = [] then ([], f', w)
                  else (case handler of
                          None \<Rightarrow> ([], f', w)
                        | Some h \<Rightarrow>
                            (case heartbeat_target (st_LastChannel (hs_state hs)) of
                               (channel, chatID) \<Rightarrow>
                                 (case h prompt channel chatID w of
                                    (None, w') \<Rightarrow> ([], f', w')
                                  | (Some r, w') \<Rightarrow>
                                      (if res_IsError r \<or> res_Async r \<or> res_Silent r then []
                                       else if res_ForUser r \<noteq> [] then heartbeat_response hs (res_ForUser r)
                                       else if res_ForLLM r \<noteq> [] then heartbeat_response hs (res_ForLLM r)
                                       else [], f', w'))))))"

section \<open>Notices of devices\<close>

definition parse_last_channel :: "gostr \<Rightarrow> gostr \<times> gostr" where
  "parse_last_channel lastChannel =
     (if lastChannel = [] then ([], [])
      else case split_n lastChannel (CHR '':'') 2 of
             [platform, userID] \<Rightarrow> if platform = [] \<or> userID = [] then ([], []) else (platform, userID)
           | _ \<Rightarrow> ([], []))"

definition send_notification :: "bool \<Rightarrow> chan_state \<Rightarrow> gostr \<Rightarrow> (gostr \<times> gostr \<times> gostr) list" where
  "send_notification has_bus st message =
     (if \<not> has_bus \<or> st_LastChannel st = [] then []
      else case parse_last_channel (st_LastChannel st) of
             (platform, userID) \<Rightarrow>
               if platform = [] \<or> userID = [] \<or> internal_channel platform then [] else [(platform, userID, message)])"

section \<open>The gateway\<close>

text \<open>
  What the agent loop records in a turn, \<open>RecordLastChannel\<close>, read off the events of its turns; a loop without a
  default agent has no manager.
\<close>

fun recorded :: "('v, 'p) loop_event list \<Rightarrow> gostr list" where
  "recorded [] = []"
| "recorded (Turn k (LastChannel c) # es) = c # recorded es"
| "recorded (_ # es) = recorded es"

definition record_last_channel :: "int \<Rightarrow> gostr \<Rightarrow> chan_state option \<times> state_disk \<Rightarrow> chan_state option \<times> state_disk" where
  "record_last_channel now channel s =
     (case s of
        (None, dk) \<Rightarrow> (None, dk)
      | (Some st, dk) \<Rightarrow> (case set_last_channel now channel (st, dk) of (_, st', dk') \<Rightarrow> (Some st', dk')))"

text \<open>The handler of heartbeats: a turn without a session, whose answer is always silent.\<close>

definition gateway_handler ::
  "('v, 'p, 's, 'x) agent_loop \<Rightarrow> gostr \<Rightarrow> gostr \<Rightarrow> gostr \<Rightarrow> ('v, 'p, 's, 'x) loop_state \<Rightarrow>
   tool_result option \<times> ('v, 'p, 's, 'x) loop_state" where
  "gateway_handler al prompt channel chatID ls =
     (case (if channel = [] \<or> chatID = [] then (''cli'', ''direct'') else (channel, chatID)) of
        (channel, chatID) \<Rightarrow>
          (case process_heartbeat al prompt channel chatID ls of
             (Inl e, ls') \<Rightarrow> (Some (error_result (''Heartbeat error: '' @ e)), ls')
           | (Inr response, ls') \<Rightarrow>
               (Some (silent_result (if response = ''HEARTBEAT_OK'' then ''Heartbeat OK'' else response)), ls')))"

record ('v, 'p, 's, 'x) gateway =
  gw_agent :: "chan_state option"
  gw_heart :: heartbeat_service
  gw_devices :: chan_state
  gw_disk :: state_disk
  gw_loop :: "('v, 'p, 's, 'x) loop_state"
  gw_file :: heartbeat_file

text \<open>The start of the gateway, in the order in which it creates its managers.\<close>

definition start_gateway ::
  "('v, 'p, 's, 'x) agent_loop \<Rightarrow> int \<Rightarrow> bool \<Rightarrow> ('v, 'p, 's, 'x) loop_state \<Rightarrow> heartbeat_file \<Rightarrow> state_disk \<Rightarrow>
   ('v, 'p, 's, 'x) gateway" where
  "start_gateway al minutes enabled ls f dk =
     (case (if default_agent al = None then (None, dk) else map_prod Some id (new_state_manager dk)) of
        (am, dk1) \<Rightarrow>
      case new_heartbeat_service minutes enabled dk1 of
        (hs, dk2) \<Rightarrow>
      case new_state_manager dk2 of
        (dev, dk3) \<Rightarrow>
          \<lparr>gw_agent = am, gw_heart = start_heartbeat (hs\<lparr>hs_bus := True\<rparr>), gw_devices = dev, gw_disk = dk3,
           gw_loop = ls, gw_file = f\<rparr>)"

text \<open>After the loop has moved on, what its new events record is saved.\<close>

definition gateway_moved ::
  "int \<Rightarrow> ('v, 'p, 's, 'x) loop_state \<Rightarrow> ('v, 'p, 's, 'x) gateway \<Rightarrow> ('v, 'p, 's, 'x) gateway" where
  "gateway_moved now ls' gw =
     (case fold (record_last_channel now) (recorded (drop (length (ls_events (gw_loop gw))) (ls_events ls')))
             (gw_agent gw, gw_disk gw) of
        (am, dk) \<Rightarrow> gw\<lparr>gw_agent := am, gw_disk := dk, gw_loop := ls'\<rparr>)"

definition gateway_message ::
  "('v, 'p, 's, 'x) agent_loop \<Rightarrow> int \<Rightarrow> inbound_message \<Rightarrow> ('v, 'p, 's, 'x) gateway \<Rightarrow> ('v, 'p, 's, 'x) gateway" where
  "gateway_message al now msg gw = gateway_moved now (run_message al msg (gw_loop gw)) gw"

definition gateway_beat ::
  "('v, 'p, 's, 'x) agent_loop \<Rightarrow> int \<Rightarrow> gostr \<Rightarrow> bool \<Rightarrow> ('v, 'p, 's, 'x) gateway \<Rightarrow>
   (gostr \<times> gostr \<times> gostr) list \<times> ('v, 'p, 's, 'x) gateway" where
  "gateway_beat al now clock writable gw =
     (case execute_heartbeat (Some (gateway_handler al)) clock writable (gw_heart gw) (gw_file gw, gw_loop gw) of
        (out, f', ls') \<Rightarrow> (out, (gateway_moved now ls' gw)\<lparr>gw_file := f'\<rparr>))"

section \<open>Heartbeats and the life of the service\<close>

text \<open>\<open>armed\<close>: of the starts and stops so far, the last one is a start.\<close>

definition armed :: "heartbeat_event list \<Rightarrow> bool" where
  "armed es \<longleftrightarrow> (\<exists>pre mid. es = pre @ StartHb # mid \<and> StopHb \<notin> set mid)"

lemma armed_snoc: "armed (es @ [e]) \<longleftrightarrow> e = StartHb \<or> e \<noteq> StopHb \<and> armed es"
proof -
  have "armed (es @ [e])" if "armed es" "e \<noteq> StopHb"
  proof -
    from that(1) obtain pre mid where "es = pre @ StartHb # mid" "StopHb \<notin> set mid" by (auto simp: armed_def)
    with that(2) have "es @ [e] = pre @ StartHb # (mid @ [e]) \<and> StopHb \<notin> set (mid @ [e])" by simp
    then show ?thesis unfolding armed_def by blast
  qed
  moreover have "armed (es @ [StartHb])"
    unfolding armed_def by (rule exI [of _ es], rule exI [of _ "[]"]) simp
  moreover have "e = StartHb \<or> e \<noteq> StopHb \<and> armed es" if a: "armed (es @ [e])"
  proof -
    from a obtain pre mid where p: "es @ [e] = pre @ StartHb # mid" "StopHb \<notin> set mid" by (auto simp: armed_def)
    show ?thesis
    proof (cases mid rule: rev_cases)
      case Nil
      with p show ?thesis by simp
    next
      case (snoc m x)
      with p have "es = pre @ StartHb # m" "e = x" "StopHb \<notin> set m" "x \<noteq> StopHb" by auto
      then show ?thesis by (auto simp: armed_def)
    qed
  qed
  ultimately show ?thesis by blast
qed

lemma armed_Nil [simp]: "\<not> armed []"
  by (simp add: armed_def)

lemma heartbeat_do_enabled: "heartbeat_do e hs = Some (hs', b) \<Longrightarrow> hs_enabled hs' = hs_enabled hs"
  by (cases e) (auto simp: start_heartbeat_def stop_heartbeat_def split: if_splits)

lemma heartbeat_do_beat:
  "heartbeat_do e hs = Some (hs', b) \<Longrightarrow> b \<longleftrightarrow> (e = FirstDue \<or> (\<exists>k. e = TickDue k)) \<and> beat_allowed hs"
  by (cases e) (auto split: if_splits)

lemma heartbeat_do_running:
  "heartbeat_do e hs = Some (hs', b) \<Longrightarrow> hs_enabled hs \<Longrightarrow> hs_stop hs \<noteq> None \<longleftrightarrow> armed before \<Longrightarrow>
   hs_stop hs' \<noteq> None \<longleftrightarrow> armed (before @ [e])"
  by (cases e) (auto simp: armed_snoc start_heartbeat_def stop_heartbeat_def split: if_splits)

lemma heartbeat_run_beats:
  "heartbeat_run es hs = Some (hs', beats) \<Longrightarrow> hs_stop hs \<noteq> None \<longleftrightarrow> hs_enabled hs \<and> armed before \<Longrightarrow>
   length beats = length es \<and>
   (\<forall>i < length es. beats ! i \<longleftrightarrow>
      hs_enabled hs \<and> armed (before @ take i es) \<and> (es ! i = FirstDue \<or> (\<exists>k. es ! i = TickDue k)))"
proof (induction es arbitrary: hs before beats)
  case (Cons e es)
  from Cons.prems obtain hs1 b bs where step: "heartbeat_do e hs = Some (hs1, b)" "heartbeat_run es hs1 = Some (hs', bs)"
      "beats = b # bs"
    by (auto split: option.splits)
  have "hs_stop hs1 \<noteq> None \<longleftrightarrow> hs_enabled hs1 \<and> armed (before @ [e])"
  proof (cases "hs_enabled hs")
    case True
    with Cons.prems(2) heartbeat_do_running [OF step(1), of before] heartbeat_do_enabled [OF step(1)]
    show ?thesis by simp
  next
    case False
    with Cons.prems(2) step(1) show ?thesis
      by (cases e) (auto simp: start_heartbeat_def stop_heartbeat_def split: if_splits)
  qed
  from Cons.IH [OF step(2) this] heartbeat_do_enabled [OF step(1)] heartbeat_do_beat [OF step(1)] Cons.prems(2) step(3)
  show ?case by (auto simp: nth_Cons beat_allowed_def split: nat.split)
qed simp

text \<open>
  C19 The service beats exactly while it is started: in any run of a new service an event leads to a heartbeat
  exactly when it is the timer of a first heartbeat or the tick of a loop, the service is enabled, and of the calls of
  \<open>Start\<close> and \<open>Stop\<close> so far the last one was a \<open>Start\<close>; whatever loops and timers earlier starts have left behind.
\<close>

theorem beats_while_started:
  "heartbeat_run es (fst (new_heartbeat_service minutes enabled dk)) = Some (hs, beats) \<Longrightarrow> i < length es \<Longrightarrow>
   beats ! i \<longleftrightarrow> enabled \<and> armed (take i es) \<and> (es ! i = FirstDue \<or> (\<exists>k. es ! i = TickDue k))"
  using heartbeat_run_beats [of es "fst (new_heartbeat_service minutes enabled dk)" hs beats "[]"]
  by (auto simp: new_heartbeat_service_def split: prod.splits)

text \<open>A quick restart: the timer of the first start beats although its loop is gone.\<close>

theorem beats_while_started_witness:
  "map_option snd (heartbeat_run [StartHb, StopHb, StartHb, LoopEnds 0, FirstDue, StopHb, FirstDue]
     (fst (new_heartbeat_service 1 True \<lparr>sd_new = NoFile, sd_old = NoFile, sd_writable = True\<rparr>))) =
   Some [False, False, False, False, True, False, False] \<and>
   armed (take 4 [StartHb, StopHb, StartHb, LoopEnds 0, FirstDue, StopHb, FirstDue])"
proof -
  let ?es = "[StartHb, StopHb, StartHb, LoopEnds 0, FirstDue, StopHb, FirstDue]"
  let ?hs = "fst (new_heartbeat_service 1 True \<lparr>sd_new = NoFile, sd_old = NoFile, sd_writable = True\<rparr>)"
  have r: "map_option snd (heartbeat_run ?es ?hs) = Some [False, False, False, False, True, False, False]"
    by (simp add: new_heartbeat_service_def new_state_manager_def unmarshal_state_def no_state_def start_heartbeat_def
        stop_heartbeat_def beat_allowed_def)
  then obtain hs where "heartbeat_run ?es ?hs = Some (hs, [False, False, False, False, True, False, False])" by auto
  from beats_while_started [OF this, of 4] r show ?thesis by simp
qed

section \<open>What counts as a task\<close>

lemma after_first_None: "after_first w s = None \<longleftrightarrow> \<not> contains s w"
  by (induction s) (auto simp: has_prefix_iff)

lemma after_first_Some: "after_first w s = Some v \<Longrightarrow> \<exists>u. s = u @ w @ v"
proof (induction s)
  case Nil
  then show ?case by (simp split: if_splits)
next
  case (Cons c s)
  show ?case
  proof (cases "has_prefix (c # s) w")
    case True
    then obtain v' where "c # s = w @ v'" by (auto simp: has_prefix_iff prefix_def)
    moreover from this True Cons.prems have "v = v'" by (metis after_first.simps(2) append_eq_conv_conj option.inject)
    ultimately have "c # s = [] @ w @ v" by simp
    then show ?thesis by blast
  next
    case False
    with Cons.prems Cons.IH obtain u where "s = u @ w @ v" by auto
    then have "c # s = (c # u) @ w @ v" by simp
    then show ?thesis by blast
  qed
qed

lemma all_space_trim [simp]: "trim_space s = [] \<longleftrightarrow> list_all is_space s"
proof -
  have "trim_space s = [] \<longleftrightarrow> (\<forall>c \<in> set (trim_left s). is_space c)"
    by (simp add: trim_space_def trim_right_def dropWhile_eq_Nil_conv)
  also have "\<dots> \<longleftrightarrow> list_all is_space s"
    unfolding trim_left_def list_all_iff
    by (metis dropWhile_eq_Nil_conv hd_dropWhile hd_in_set empty_iff list.set(1))
  finally show ?thesis .
qed

lemma after_first_first: "s = u @ w @ v \<Longrightarrow> \<exists>v0. after_first w s = Some v0 \<and> suffix v v0"
proof (induction s arbitrary: u)
  case Nil
  then show ?case by simp
next
  case (Cons c s)
  show ?case
  proof (cases "has_prefix (c # s) w")
    case True
    have "drop (length w) (c # s) = drop (length w) (u @ w) @ v" using Cons.prems by simp
    with True show ?thesis by (auto simp: suffix_def)
  next
    case False
    with Cons.prems obtain u' where "u = c # u'" by (cases u) (auto simp: has_prefix_iff)
    with Cons.prems have "s = u' @ w @ v" by simp
    from Cons.IH [OF this] False show ?thesis by simp
  qed
qed

lemma marker_not_space: "\<not> list_all is_space (u @ task_marker @ v)"
  by (simp add: task_marker_def is_space_def code_def)

text \<open>
  C20 A heartbeat has a prompt exactly when \<open>HEARTBEAT.md\<close> can be read and holds a task: something that is not white
  space after an occurrence of the marker, or anywhere when the marker does not occur.
\<close>

theorem prompt_iff_tasks:
  "fst (build_prompt now writable f) \<noteq> [] \<longleftrightarrow>
   (\<exists>content. f = HbText content \<and>
      (if contains content task_marker then \<exists>u v. content = u @ task_marker @ v \<and> \<not> list_all is_space v
       else \<not> list_all is_space content))"
proof -
  have tasks: "has_configured_tasks content \<longleftrightarrow>
      (if contains content task_marker then \<exists>u v. content = u @ task_marker @ v \<and> \<not> list_all is_space v
       else \<not> list_all is_space content)" for content
  proof (cases "contains content task_marker")
    case False
    moreover from False have "after_first task_marker content = None" by (simp add: after_first_None)
    ultimately show ?thesis by (simp add: has_configured_tasks_def)
  next
    case True
    then obtain v0 where v0: "after_first task_marker content = Some v0" by (metis after_first_None not_None_eq)
    then obtain u0 where u0: "content = u0 @ task_marker @ v0" using after_first_Some by blast
    have "\<not> list_all is_space v0" if "content = u @ task_marker @ v" "\<not> list_all is_space v" for u v
      using after_first_first [OF that(1)] that(2) v0 by (auto simp: suffix_def)
    moreover have "has_configured_tasks content \<longleftrightarrow> \<not> list_all is_space v0"
      using v0 u0 marker_not_space [of u0 v0] by (simp add: has_configured_tasks_def)
    ultimately show ?thesis using True u0 by auto
  qed
  have "heartbeat_prompt now content \<noteq> []" for content by (simp add: heartbeat_prompt_def)
  moreover have "\<not> has_configured_tasks []" by (simp add: has_configured_tasks_def)
  ultimately have "fst (build_prompt now writable f) \<noteq> [] \<longleftrightarrow> (\<exists>content. f = HbText content \<and> has_configured_tasks content)"
    by (auto simp: build_prompt_def split: heartbeat_file.splits)
  then show ?thesis unfolding tasks .
qed

text \<open>
  The template that is written for a missing file holds no task: neither the heartbeat that writes it nor one
  that finds it calls the handler or changes the world.
\<close>

theorem template_is_quiet:
  "execute_heartbeat handler now writable hs
     (fst (snd (execute_heartbeat handler now writable hs (HbMissing, w))), w) =
   ([], fst (snd (execute_heartbeat handler now writable hs (HbMissing, w))), w) \<and>
   snd (snd (execute_heartbeat handler now writable hs (HbMissing, w))) = w"
proof -
  have "after_first task_marker default_heartbeat_template = Some nl"
    by (simp add: default_heartbeat_template_def task_marker_def)
  then have "\<not> has_configured_tasks default_heartbeat_template" by (simp add: has_configured_tasks_def is_space_def code_def)
  then have quiet: "execute_heartbeat handler now writable hs (HbText default_heartbeat_template, w) =
      ([], HbText default_heartbeat_template, w)"
    by (simp add: execute_heartbeat_def build_prompt_def)
  have missing: "execute_heartbeat handler now writable hs (HbMissing, w) =
      ([], if beat_allowed hs \<and> writable then HbText default_heartbeat_template else HbMissing, w)"
    by (simp add: execute_heartbeat_def build_prompt_def)
  show ?thesis
  proof (cases "beat_allowed hs \<and> writable")
    case True
    with missing quiet show ?thesis by simp
  next
    case False
    with missing show ?thesis by simp
  qed
qed

section \<open>Interface: a memory of one value\<close>

text \<open>What the notices rely on: what was noted last is what is recalled.\<close>

locale last_value =
  fixes note_value :: "'c \<Rightarrow> 's \<Rightarrow> 's" and recall :: "'s \<Rightarrow> 'c"
  assumes recall_note: "recall (note_value c s) = c"
begin

lemma recall_all: "recall (fold note_value cs s) = (if cs = [] then recall s else last cs)"
  by (induction cs rule: rev_induct) (simp_all add: recall_note)

end

interpretation noted: last_value "\<lambda>c s. snd (set_last_channel now c s)" "\<lambda>s. st_LastChannel (fst s)"
  by unfold_locales simp

lemma record_fold:
  "fold (record_last_channel now) cs (Some st, dk) =
   (Some (fst (fold (\<lambda>c s. snd (set_last_channel now c s)) cs (st, dk))),
    snd (fold (\<lambda>c s. snd (set_last_channel now c s)) cs (st, dk)))"
  by (induction cs arbitrary: st dk) (simp_all add: record_last_channel_def split_beta)

section \<open>What a turn records\<close>

fun turn_channels :: "('v, 'p) turn_event list \<Rightarrow> gostr list" where
  "turn_channels [] = []"
| "turn_channels (LastChannel c # es) = c # turn_channels es"
| "turn_channels (_ # es) = turn_channels es"

lemma turn_channels_append [simp]: "turn_channels (es @ fs) = turn_channels es @ turn_channels fs"
  by (induction es rule: turn_channels.induct) simp_all

lemma recorded_append [simp]: "recorded (es @ fs) = recorded es @ recorded fs"
  by (induction es rule: recorded.induct) simp_all

lemma recorded_turn [simp]: "recorded (map (Turn k) tr) = turn_channels tr"
  by (induction tr rule: turn_channels.induct) simp_all

lemma llm_attempts_channels:
  "llm_attempts env opts defs left messages st = (res, messages', st') \<Longrightarrow>
   turn_channels (tn_trace st') = turn_channels (tn_trace st)"
proof (induction left arbitrary: messages st)
  case 0
  then show ?case by (auto simp: call_model_def split: prod.splits)
next
  case (Suc left)
  obtain r st1 where c: "call_model env defs messages st = (r, st1)" by fastforce
  then have n: "turn_channels (tn_trace st1) = turn_channels (tn_trace st)"
    by (auto simp: call_model_def split: prod.splits)
  show ?case
  proof (cases r)
    case (Inr resp)
    with Suc.prems c n show ?thesis by simp
  next
    case (Inl e)
    show ?thesis
    proof (cases "is_timeout_error e \<or> is_context_error e")
      case True
      then obtain m2 st2 where "llm_attempts env opts defs left m2 st2 = (res, messages', st')"
          "turn_channels (tn_trace st2) = turn_channels (tn_trace st1)"
        using Suc.prems c Inl by (auto simp: Let_def split: if_splits)
      with Suc.IH [of m2 st2] n show ?thesis by simp
    next
      case False
      with Suc.prems c Inl n show ?thesis by simp
    qed
  qed
qed

lemma process_results_channels:
  "fold (process_result env opts) crs (messages, st) = (messages', st') \<Longrightarrow>
   turn_channels (tn_trace st') = turn_channels (tn_trace st)"
proof (induction crs arbitrary: messages st)
  case (Cons cr crs)
  obtain m1 st1 where one: "process_result env opts cr (messages, st) = (m1, st1)" by fastforce
  then have "turn_channels (tn_trace st1) = turn_channels (tn_trace st)"
    by (auto simp: process_result_def Let_def split: prod.splits)
  with Cons one show ?case by simp
qed simp

lemma llm_iterate_channels:
  "llm_iterate env opts n it messages st = (res, st') \<Longrightarrow> turn_channels (tn_trace st') = turn_channels (tn_trace st)"
proof (induction n arbitrary: it messages st)
  case (Suc n)
  obtain r messages1 st1 where a: "llm_attempts env opts (to_provider_defs (tn_registry st)) max_retries messages st = (r, messages1, st1)"
    by (metis prod_cases3)
  note n1 = llm_attempts_channels [OF a]
  show ?case
  proof (cases r)
    case (Inl e)
    with a n1 Suc.prems show ?thesis by auto
  next
    case (Inr resp)
    show ?thesis
    proof (cases "resp_ToolCalls resp = []")
      case True
      with Inr a n1 Suc.prems show ?thesis by auto
    next
      case False
      let ?calls = "map (normalize_tool_call (env_encode env) (env_decode env)) (resp_ToolCalls resp)"
      let ?am = "assistant_message (env_encode env) resp ?calls"
      obtain results st2 where b: "run_calls env opts ?calls (add_session env (po_SessionKey opts) ?am st1) = (results, st2)" by fastforce
      obtain messages2 st3 where c: "fold (process_result env opts) (zip ?calls results) (messages1 @ [?am], st2) = (messages2, st3)" by fastforce
      have "llm_iterate env opts n (Suc it) messages2 (st3\<lparr>tn_registry := tick_ttl (tn_registry st3)\<rparr>) = (res, st')"
        using Suc.prems a Inr False b c by (simp add: Let_def)
      from Suc.IH [OF this] process_results_channels [OF c] run_calls_simps(2) [OF b] n1 show ?thesis by simp
    qed
  qed
qed simp

text \<open>The channel a turn is recorded under, if any.\<close>

definition channel_entry :: "gostr \<Rightarrow> gostr \<Rightarrow> gostr list" where
  "channel_entry channel chatID =
     (if channel \<noteq> [] \<and> chatID \<noteq> [] \<and> \<not> internal_channel channel then [channel @ '':'' @ chatID] else [])"

lemma run_agent_loop_channels:
  "run_agent_loop env opts st = (res, st') \<Longrightarrow>
   turn_channels (tn_trace st') = turn_channels (tn_trace st) @ channel_entry (po_Channel opts) (po_ChatID opts)"
  by (auto simp: run_agent_loop_def run_llm_iteration_def channel_entry_def Let_def
      dest!: llm_iterate_channels split: prod.splits sum.splits if_splits)

lemma run_turn_recorded:
  assumes "run_turn al key ag opts ls = (res, ls')"
  shows "\<exists>tr. ls_events ls' = ls_events ls @ map (Turn key) tr \<and>
    turn_channels tr = channel_entry (po_Channel opts) (po_ChatID opts)"
proof -
  let ?st = "\<lparr>tn_sessions = ls_sessions ls key, tn_registry = ls_registry ls key, tn_world = ls_world ls, tn_trace = []\<rparr>"
  from assms obtain env r st' where "run_agent_loop env opts ?st = (r, st')"
      "ls_events ls' = ls_events ls @ map (Turn key) (tn_trace st')"
    unfolding run_turn_def Let_def by (auto split: prod.splits)
  with run_agent_loop_channels [of env opts ?st r st'] show ?thesis by auto
qed

lemma heartbeat_recorded:
  assumes "default_agent al = Some key" "al_agents al key = Some ag"
    and "process_heartbeat al content channel chatID ls = (res, ls')"
  shows "recorded (drop (length (ls_events ls)) (ls_events ls')) = channel_entry channel chatID"
proof -
  from assms obtain opts where "run_turn al key ag opts ls = (res, ls')" "po_Channel opts = channel" "po_ChatID opts = chatID"
    by (auto simp: process_heartbeat_def)
  from run_turn_recorded [OF this(1)] this(2,3) show ?thesis by auto
qed

section \<open>Who remembers which channel\<close>

datatype gateway_event = MessageArrives int inbound_message | BeatDue int gostr bool

fun gateway_do ::
  "('v, 'p, 's, 'x) agent_loop \<Rightarrow> gateway_event \<Rightarrow> ('v, 'p, 's, 'x) gateway \<Rightarrow> ('v, 'p, 's, 'x) gateway" where
  "gateway_do al (MessageArrives now msg) gw = gateway_message al now msg gw"
| "gateway_do al (BeatDue now clock writable) gw = snd (gateway_beat al now clock writable gw)"

lemma gateway_moved_simps [simp]:
  "gw_heart (gateway_moved now ls' gw) = gw_heart gw" "gw_devices (gateway_moved now ls' gw) = gw_devices gw"
  "gw_file (gateway_moved now ls' gw) = gw_file gw"
  by (simp_all add: gateway_moved_def split: prod.splits)

lemma gateway_do_frozen:
  "gw_heart (gateway_do al e gw) = gw_heart gw" "gw_devices (gateway_do al e gw) = gw_devices gw"
  by (cases e; simp add: gateway_message_def gateway_beat_def split: prod.splits)+

lemma gateway_run_frozen:
  "gw_heart (fold (gateway_do al) es gw) = gw_heart gw" "gw_devices (fold (gateway_do al) es gw) = gw_devices gw"
  by (induction es arbitrary: gw) (simp_all add: gateway_do_frozen)

lemma execute_heartbeat_text: "fst (snd (execute_heartbeat h now writable hs (HbText content, w))) = HbText content"
  by (simp add: execute_heartbeat_def build_prompt_def Let_def split: prod.splits option.splits)

lemma gateway_run_file:
  "gw_file gw = HbText content \<Longrightarrow> gw_file (fold (gateway_do al) es gw) = HbText content"
proof (induction es arbitrary: gw)
  case (Cons e es)
  have "gw_file (gateway_do al e gw) = HbText content"
    using Cons.prems execute_heartbeat_text [of "Some (gateway_handler al)" _ _ "gw_heart gw" content "gw_loop gw"]
    by (cases e) (auto simp: gateway_message_def gateway_beat_def split: prod.splits dest: arg_cong [where f = "\<lambda>x. fst (snd x)"])
  from Cons.IH [OF this] show ?case by simp
qed simp

lemma record_keeps_manager: "gw_agent gw \<noteq> None \<Longrightarrow> gw_agent (gateway_moved now ls' gw) \<noteq> None"
  by (auto simp: gateway_moved_def record_fold split: prod.splits)

lemma gateway_run_manager: "gw_agent gw \<noteq> None \<Longrightarrow> gw_agent (fold (gateway_do al) es gw) \<noteq> None"
proof (induction es arbitrary: gw)
  case (Cons e es)
  then have "gw_agent (gateway_do al e gw) \<noteq> None"
    using record_keeps_manager [of gw] by (cases e) (auto simp: gateway_message_def gateway_beat_def split: prod.splits)
  from Cons.IH [OF this] show ?case by simp
qed simp

lemma start_gateway_state:
  assumes "default_agent al \<noteq> None"
  shows "gw_agent (start_gateway al minutes enabled ls f dk) = Some (fst (new_state_manager dk))"
    "hs_state (gw_heart (start_gateway al minutes enabled ls f dk)) = fst (new_state_manager dk)"
    "gw_devices (start_gateway al minutes enabled ls f dk) = fst (new_state_manager dk)"
    "beat_allowed (gw_heart (start_gateway al minutes enabled ls f dk)) = enabled"
    "gw_file (start_gateway al minutes enabled ls f dk) = f"
    "hs_bus (gw_heart (start_gateway al minutes enabled ls f dk))"
proof -
  obtain st dk1 where m: "new_state_manager dk = (st, dk1)" by fastforce
  note m2 = new_manager_again [OF m]
  show "gw_agent (start_gateway al minutes enabled ls f dk) = Some (fst (new_state_manager dk))"
    "hs_state (gw_heart (start_gateway al minutes enabled ls f dk)) = fst (new_state_manager dk)"
    "gw_devices (start_gateway al minutes enabled ls f dk) = fst (new_state_manager dk)"
    "beat_allowed (gw_heart (start_gateway al minutes enabled ls f dk)) = enabled"
    "gw_file (start_gateway al minutes enabled ls f dk) = f"
    "hs_bus (gw_heart (start_gateway al minutes enabled ls f dk))"
    using assms by (simp_all add: start_gateway_def new_heartbeat_service_def start_heartbeat_def beat_allowed_def m m2)
qed

lemma heartbeat_target_split:
  assumes "heartbeat_target s = (c, k)" "c \<noteq> []"
  shows "s = c @ '':'' @ k" "channel_entry c k = [s]"
proof -
  from assms obtain i where i: "index_char s (CHR '':'') = Some i" "c = take i s" "k = drop (Suc i) s"
      "k \<noteq> []" "\<not> internal_channel c"
    by (auto simp: heartbeat_target_def numeral_2_eq_2 split: option.splits if_splits)
  show s: "s = c @ '':'' @ k"
    unfolding i(2,3) append_Cons append_Nil by (rule index_char_Some [OF i(1), THEN conjunct1])
  have "channel_entry c k = [c @ '':'' @ k]" using i(4,5) assms(2) by (simp add: channel_entry_def)
  then show "channel_entry c k = [s]" by (simp only: s)
qed

lemma beat_records:
  assumes "default_agent al = Some key" "al_agents al key = Some ag" "beat_allowed (gw_heart gw)"
    and "fst (build_prompt clock writable (gw_file gw)) \<noteq> []"
    and "heartbeat_target (st_LastChannel (hs_state (gw_heart gw))) = (c, k)" "c \<noteq> []" "gw_agent gw \<noteq> None"
  shows "map_option st_LastChannel (gw_agent (snd (gateway_beat al now clock writable gw))) =
    Some (st_LastChannel (hs_state (gw_heart gw)))"
proof -
  let ?s = "st_LastChannel (hs_state (gw_heart gw))"
  obtain prompt f' where p: "build_prompt clock writable (gw_file gw) = (prompt, f')" "prompt \<noteq> []"
    using assms(4) by (cases "build_prompt clock writable (gw_file gw)") auto
  have k: "k \<noteq> []" using heartbeat_target_split [OF assms(5,6)] assms(6) by (auto simp: channel_entry_def split: if_splits)
  obtain res ls' where h: "process_heartbeat al prompt c k (gw_loop gw) = (res, ls')" by fastforce
  then obtain r where r: "gateway_handler al prompt c k (gw_loop gw) = (Some r, ls')"
    using assms(6) k by (cases res) (simp_all add: gateway_handler_def)
  obtain out where e: "execute_heartbeat (Some (gateway_handler al)) clock writable (gw_heart gw) (gw_file gw, gw_loop gw) =
      (out, f', ls')"
    by (simp add: execute_heartbeat_def assms(3,5) p r)
  have "recorded (drop (length (ls_events (gw_loop gw))) (ls_events ls')) = [?s]"
    using heartbeat_recorded [OF assms(1,2) h] heartbeat_target_split(2) [OF assms(5,6)] by simp
  moreover obtain st where "gw_agent gw = Some st" using assms(7) by auto
  ultimately show ?thesis
    using e by (auto simp: gateway_beat_def gateway_moved_def record_last_channel_def set_last_channel_def Let_def split: prod.splits)
qed

text \<open>
  C18 A heartbeat takes the last channel back: the service asks a manager of its own, which read the file when the
  gateway started, and its turn is recorded like that of a user. So after any messages and heartbeats, once a
  heartbeat with a task has run, the last channel of the agent is again the one of the start, whoever wrote since.
\<close>

theorem heartbeat_takes_channel_back:
  assumes "default_agent al = Some key" "al_agents al key = Some ag"
    and "st_LastChannel (fst (new_state_manager dk)) = boot" "heartbeat_target boot = (c, k)" "c \<noteq> []"
    and "has_configured_tasks content"
  shows "map_option st_LastChannel
      (gw_agent (gateway_do al (BeatDue now clock writable)
         (fold (gateway_do al) es (start_gateway al minutes True ls (HbText content) dk)))) = Some boot"
proof -
  let ?start = "start_gateway al minutes True ls (HbText content) dk"
  let ?gw = "fold (gateway_do al) es ?start"
  have d: "default_agent al \<noteq> None" using assms(1) by simp
  note s = start_gateway_state [OF d, of minutes True ls "HbText content" dk]
  note fr = gateway_run_frozen [of al es ?start]
  have "gw_file ?gw = HbText content" using gateway_run_file [OF s(5)] .
  moreover have "content \<noteq> []" using assms(6) by (auto simp: has_configured_tasks_def)
  ultimately have "fst (build_prompt clock writable (gw_file ?gw)) \<noteq> []"
    using assms(6) by (simp add: build_prompt_def heartbeat_prompt_def)
  moreover have "gw_agent ?gw \<noteq> None" using gateway_run_manager [of ?start al es] s(1) by simp
  moreover have "heartbeat_target (st_LastChannel (hs_state (gw_heart ?gw))) = (c, k)" "beat_allowed (gw_heart ?gw)"
    using fr(1) s(2,4) assms(3,4) by simp_all
  ultimately show ?thesis
    using beat_records [OF assms(1,2), of ?gw clock writable c k now] assms(3,5) fr(1) s(2) by simp
qed

text \<open>
  The notices of devices go to the channel of the start as well: after any messages and heartbeats, a notice is
  addressed as if nobody had written since the gateway was started.
\<close>

theorem notices_go_to_boot_channel:
  assumes "default_agent al \<noteq> None"
  shows "send_notification True (gw_devices (fold (gateway_do al) es (start_gateway al minutes enabled ls f dk))) notice =
    send_notification True (fst (new_state_manager dk)) notice"
  by (simp add: gateway_run_frozen(2) start_gateway_state(3) [OF assms])

lemma gateway_handler_quiet:
  "\<exists>r ls'. gateway_handler al prompt c k ls = (Some r, ls') \<and> (res_IsError r \<or> res_Silent r)"
proof -
  obtain c' k' where ck: "(if c = [] \<or> k = [] then (''cli'', ''direct'') else (c, k)) = (c', k')" by fastforce
  obtain res ls' where "process_heartbeat al prompt c' k' ls = (res, ls')" by fastforce
  with ck show ?thesis
    by (cases res) (simp_all add: gateway_handler_def error_result_def silent_result_def new_tool_result_def)
qed

text \<open>
  The gateway never publishes the answer of a heartbeat: the handler makes every answer silent, so \<open>sendResponse\<close> is
  not reached; what a heartbeat has to say leaves through the tools of its turn only.
\<close>

theorem heartbeat_answers_unsent: "fst (gateway_beat al now clock writable gw) = []"
proof -
  obtain prompt f' where p: "build_prompt clock writable (gw_file gw) = (prompt, f')" by fastforce
  obtain c k where t: "heartbeat_target (st_LastChannel (hs_state (gw_heart gw))) = (c, k)" by fastforce
  obtain r ls' where r: "gateway_handler al prompt c k (gw_loop gw) = (Some r, ls')" "res_IsError r \<or> res_Silent r"
    using gateway_handler_quiet by blast
  have "fst (execute_heartbeat (Some (gateway_handler al)) clock writable (gw_heart gw) (gw_file gw, gw_loop gw)) = []"
    using r(2) by (auto simp: execute_heartbeat_def p t r(1))
  then show ?thesis by (simp add: gateway_beat_def split_beta)
qed

section \<open>Witnesses\<close>

text \<open>The file of a workspace in which somebody wrote on Telegram last.\<close>

definition demo_disk :: state_disk where
  "demo_disk = \<lparr>sd_new = Members [MChannel (Good ''telegram:1''), MTimestamp (Good (Some 5))], sd_old = NoFile, sd_writable = True\<rparr>"

lemma demo_boot [simp]: "st_LastChannel (fst (new_state_manager demo_disk)) = ''telegram:1''"
  by (simp add: new_state_manager_def demo_disk_def state_load_def unmarshal_state_def no_state_def)

lemma demo_default [simp]: "default_agent demo_agent_loop = Some ''main''"
  by (simp add: default_agent_def demo_agent_loop_def)

theorem heartbeat_takes_channel_back_witness:
  "map_option st_LastChannel
      (gw_agent (gateway_do demo_agent_loop (BeatDue 9 ''noon'' True)
         (fold (gateway_do demo_agent_loop) [MessageArrives 8 (demo_message ''hi'')]
            (start_gateway demo_agent_loop 30 True demo_loop_state (HbText ''water the plants'') demo_disk)))) =
   Some ''telegram:1''"
proof (rule heartbeat_takes_channel_back [where key = "''main''" and ag = demo_loop_agent and c = "''telegram''" and k = "''1''"])
  show "al_agents demo_agent_loop ''main'' = Some demo_loop_agent" by (simp add: demo_agent_loop_def)
  show "heartbeat_target ''telegram:1'' = (''telegram'', ''1'')"
    by (simp add: heartbeat_target_def numeral_2_eq_2 internal_channel_def)
  have "after_first task_marker ''water the plants'' = None" by (simp add: task_marker_def)
  then show "has_configured_tasks ''water the plants''"
    by (simp add: has_configured_tasks_def is_space_def code_def)
qed simp_all

theorem notices_go_to_boot_channel_witness:
  "send_notification True (gw_devices (fold (gateway_do demo_agent_loop) [MessageArrives 8 (demo_message ''hi'')]
     (start_gateway demo_agent_loop 30 True demo_loop_state HbMissing demo_disk))) ''USB stick'' =
   [(''telegram'', ''1'', ''USB stick'')]"
proof -
  have "default_agent demo_agent_loop \<noteq> None" by simp
  then show ?thesis
    by (subst notices_go_to_boot_channel)
      (simp_all add: send_notification_def parse_last_channel_def numeral_2_eq_2 internal_channel_def)
qed

end
