(* ===== verification/Subagents.thy ===== *)
theory Subagents imports Dispatch begin

text \<open>
  Sub-agents: the manager of \<open>pkg/tools/subagent.go\<close>, the tool that spawns them in the background (\<open>pkg/tools/spawn.go\<close>),
  the tool that waits for one, and the callback with which the agent loop brings a result back (\<open>pkg/agent/loop.go\<close>).
  A goroutine is a thread that takes two steps: it begins, and it runs its loop and reports. Temperatures are left
  abstract; a status is the string of the code.
\<close>

section \<open>Tasks and the manager\<close>

record subagent_task =
  sa_ID :: gostr
  sa_Task :: gostr
  sa_Label :: gostr
  sa_AgentID :: gostr
  sa_OriginChannel :: gostr
  sa_OriginChatID :: gostr
  sa_Status :: gostr
  sa_Result :: gostr
  sa_Created :: int

record ('p, 't) subagent_manager =
  sg_tasks :: "gostr \<rightharpoonup> subagent_task"
  sg_defaultModel :: gostr
  sg_tools :: "'p tool_registry"
  sg_maxIterations :: int
  sg_maxTokens :: "int option"
  sg_temperature :: "'t option"
  sg_nextID :: nat

definition new_subagent_manager :: "gostr \<Rightarrow> ('p, 't) subagent_manager" where
  "new_subagent_manager model =
     \<lparr>sg_tasks = Map.empty, sg_defaultModel = model, sg_tools = new_tool_registry, sg_maxIterations = 10,
      sg_maxTokens = None, sg_temperature = None, sg_nextID = 1\<rparr>"

definition set_llm_options :: "int \<Rightarrow> 't \<Rightarrow> ('p, 't) subagent_manager \<Rightarrow> ('p, 't) subagent_manager" where
  "set_llm_options maxTokens temperature sg = sg\<lparr>sg_maxTokens := Some maxTokens, sg_temperature := Some temperature\<rparr>"

definition set_tools :: "'p tool_registry \<Rightarrow> ('p, 't) subagent_manager \<Rightarrow> ('p, 't) subagent_manager" where
  "set_tools r sg = sg\<lparr>sg_tools := r\<rparr>"

definition register_tool :: "'p tool \<Rightarrow> ('p, 't) subagent_manager \<Rightarrow> ('p, 't) subagent_manager" where
  "register_tool t sg = sg\<lparr>sg_tools := register t (sg_tools sg)\<rparr>"

definition get_task :: "('p, 't) subagent_manager \<Rightarrow> gostr \<Rightarrow> subagent_task option" where
  "get_task sg i = sg_tasks sg i"

text \<open>\<open>ListTasks\<close>, in the order in which Go visits the map.\<close>

definition list_tasks :: "(gostr set \<Rightarrow> gostr list) \<Rightarrow> ('p, 't) subagent_manager \<Rightarrow> subagent_task list" where
  "list_tasks ord sg = map (\<lambda>i. the (sg_tasks sg i)) (ord (dom (sg_tasks sg)))"

definition subagent_id :: "nat \<Rightarrow> gostr" where
  "subagent_id n = ''subagent-'' @ show_nat n"

text \<open>The provider with its model and options, and what runs tools, as in the loop of theory \<open>Agent_Turn\<close>.\<close>

type_synonym 't llm_options = "int option \<times> 't option"

record ('v, 'p, 't, 'w) subagent_env =
  se_Chat :: "gostr \<Rightarrow> 't llm_options option \<Rightarrow> 'v message list \<Rightarrow> 'p tool_definition list \<Rightarrow> 'w \<Rightarrow> (gostr + 'v llm_response) \<times> 'w"
  se_Run :: "'p tool \<Rightarrow> bool \<Rightarrow> 'v anymap \<Rightarrow> gostr \<Rightarrow> gostr \<Rightarrow> 'p tool_registry \<times> 'w \<Rightarrow> tool_result \<times> 'p tool_registry \<times> 'w"
  se_Sched :: "nat \<Rightarrow> nat list"
  se_Encode :: "'v anymap \<Rightarrow> gostr"
  se_Decode :: "gostr \<Rightarrow> 'v anymap option"

definition subagent_options :: "('p, 't) subagent_manager \<Rightarrow> 't llm_options option" where
  "subagent_options sg =
     (if sg_maxTokens sg \<noteq> None \<or> sg_temperature sg \<noteq> None then Some (sg_maxTokens sg, sg_temperature sg) else None)"

definition subagent_config :: "('v, 'p, 't, 'w) subagent_env \<Rightarrow> ('p, 't) subagent_manager \<Rightarrow> ('v, 'p, 'w) loop_config" where
  "subagent_config env sg =
     \<lparr>lc_Call = (\<lambda>messages defs w.
         case se_Chat env (sg_defaultModel sg) (subagent_options sg) messages defs w of
           (Inl e, w') \<Rightarrow> (Inl (''LLM call failed: '' @ e), w') | (Inr r, w') \<Rightarrow> (Inr r, w')),
      lc_Run = se_Run env, lc_Sched = se_Sched env, lc_Encode = se_Encode env, lc_Decode = se_Decode env,
      lc_HasTools = True, lc_MaxIterations = sg_maxIterations sg\<rparr>"

definition spawn_prompt :: gostr where
  "spawn_prompt =
     ''You are a subagent. Complete the given task independently and report the result.'' @ nl @
     ''You have access to tools - use them as needed to complete your task.'' @ nl @
     ''After completing the task, provide a clear summary of what was done.''"

section \<open>Background tasks\<close>

record subagent_thread =
  th_ID :: gostr
  th_ctx :: nat
  th_callback :: bool
  th_begun :: bool

record ('p, 't, 'w) subagent_system =
  sy_manager :: "('p, 't) subagent_manager"
  sy_threads :: "subagent_thread list"
  sy_canceled :: "nat set"
  sy_delivered :: "(gostr \<times> tool_result) list"
  sy_world :: 'w

abbreviation sy_task :: "('p, 't, 'w) subagent_system \<Rightarrow> gostr \<Rightarrow> subagent_task option" where
  "sy_task sy i \<equiv> sg_tasks (sy_manager sy) i"

definition put_task :: "subagent_task \<Rightarrow> ('p, 't) subagent_manager \<Rightarrow> ('p, 't) subagent_manager" where
  "put_task t sg = sg\<lparr>sg_tasks := (sg_tasks sg)(sa_ID t \<mapsto> t)\<rparr>"

definition spawn ::
  "nat \<Rightarrow> gostr \<Rightarrow> gostr \<Rightarrow> gostr \<Rightarrow> gostr \<Rightarrow> gostr \<Rightarrow> bool \<Rightarrow> int \<Rightarrow> ('p, 't, 'w) subagent_system \<Rightarrow>
   gostr \<times> ('p, 't, 'w) subagent_system" where
  "spawn ctx task label agentID channel chatID callback now sy =
     (let sg = sy_manager sy;
          i = subagent_id (sg_nextID sg);
          t = \<lparr>sa_ID = i, sa_Task = task, sa_Label = label, sa_AgentID = agentID, sa_OriginChannel = channel,
               sa_OriginChatID = chatID, sa_Status = ''running'', sa_Result = [], sa_Created = now\<rparr>
      in (if label \<noteq> [] then ''Spawned subagent '' @ [CHR 0x27] @ label @ [CHR 0x27] @ '' for task: '' @ task
          else ''Spawned subagent for task: '' @ task,
          sy\<lparr>sy_manager := put_task t (sg\<lparr>sg_nextID := Suc (sg_nextID sg)\<rparr>),
             sy_threads := sy_threads sy @ [\<lparr>th_ID = i, th_ctx = ctx, th_callback = callback, th_begun = False\<rparr>]\<rparr>))"

text \<open>\<open>runTask\<close> up to the check of the context: a task that is canceled already ends here, without a callback.\<close>

definition begin_task :: "subagent_thread \<Rightarrow> int \<Rightarrow> ('p, 't, 'w) subagent_system \<Rightarrow> ('p, 't, 'w) subagent_system" where
  "begin_task th now sy =
     (let t = (the (sy_task sy (th_ID th)))\<lparr>sa_Status := ''running'', sa_Created := now\<rparr> in
      if th_ctx th \<in> sy_canceled sy
      then sy\<lparr>sy_manager := put_task (t\<lparr>sa_Status := ''canceled'', sa_Result := ''Task canceled before execution''\<rparr>) (sy_manager sy),
              sy_threads := removeAll th (sy_threads sy)\<rparr>
      else sy\<lparr>sy_manager := put_task t (sy_manager sy),
              sy_threads := map (\<lambda>x. if x = th then x\<lparr>th_begun := True\<rparr> else x) (sy_threads sy)\<rparr>)"

text \<open>What a task ends with: its status, its result and the report, from the outcome of the loop.\<close>

definition task_outcome :: "subagent_task \<Rightarrow> bool \<Rightarrow> gostr + gostr \<times> nat \<Rightarrow> gostr \<times> gostr \<times> tool_result" where
  "task_outcome t canceled res =
     (case res of
        Inl e \<Rightarrow>
          let (status, result) = (if canceled then (''canceled'', ''Task canceled during execution'') else (''failed'', ''Error: '' @ e))
          in (status, result, (new_tool_result result)\<lparr>res_IsError := True, res_Err := Some e\<rparr>)
      | Inr (content, iterations) \<Rightarrow>
          (''completed'', content,
           (new_tool_result (''Subagent '' @ [CHR 0x27] @ sa_Label t @ [CHR 0x27] @ '' completed (iterations: '' @ show_nat iterations @
              ''): '' @ content))\<lparr>res_ForUser := content\<rparr>))"

definition finish_task ::
  "('v, 'p, 't, 'w) subagent_env \<Rightarrow> subagent_thread \<Rightarrow> ('p, 't, 'w) subagent_system \<Rightarrow> ('p, 't, 'w) subagent_system" where
  "finish_task env th sy =
     (let sg = sy_manager sy; t = the (sg_tasks sg (th_ID th)) in
      case run_tool_loop (subagent_config env sg) [text_message ''system'' spawn_prompt, text_message ''user'' (sa_Task t)]
             (sa_OriginChannel t) (sa_OriginChatID t) (sg_tools sg, sy_world sy) of
        (res, (reg, w), _) \<Rightarrow>
          (case task_outcome t (th_ctx th \<in> sy_canceled sy) res of
             (status, result, report) \<Rightarrow>
               sy\<lparr>sy_manager := put_task (t\<lparr>sa_Status := status, sa_Result := result\<rparr>) (sg\<lparr>sg_tools := reg\<rparr>),
                  sy_threads := removeAll th (sy_threads sy),
                  sy_delivered := sy_delivered sy @ (if th_callback th then [(th_ID th, report)] else []),
                  sy_world := w\<rparr>))"

datatype subagent_event =
  Spawned nat gostr gostr gostr gostr gostr bool int
| Begins nat int
| Finishes nat
| ContextEnds nat

text \<open>An event of a system; a thread is named by its position. \<open>None\<close> when it cannot happen.\<close>

fun subagent_do ::
  "('v, 'p, 't, 'w) subagent_env \<Rightarrow> subagent_event \<Rightarrow> ('p, 't, 'w) subagent_system \<Rightarrow> ('p, 't, 'w) subagent_system option" where
  "subagent_do env (Spawned ctx task label agentID channel chatID callback now) sy =
     Some (snd (spawn ctx task label agentID channel chatID callback now sy))"
| "subagent_do env (Begins n now) sy =
     (if n < length (sy_threads sy) \<and> \<not> th_begun (sy_threads sy ! n)
      then Some (begin_task (sy_threads sy ! n) now sy) else None)"
| "subagent_do env (Finishes n) sy =
     (if n < length (sy_threads sy) \<and> th_begun (sy_threads sy ! n)
      then Some (finish_task env (sy_threads sy ! n) sy) else None)"
| "subagent_do env (ContextEnds ctx) sy = Some (sy\<lparr>sy_canceled := insert ctx (sy_canceled sy)\<rparr>)"

fun subagent_run ::
  "('v, 'p, 't, 'w) subagent_env \<Rightarrow> subagent_event list \<Rightarrow> ('p, 't, 'w) subagent_system \<Rightarrow> ('p, 't, 'w) subagent_system option" where
  "subagent_run env [] sy = Some sy"
| "subagent_run env (e # es) sy = Option.bind (subagent_do env e sy) (subagent_run env es)"

definition new_subagent_system :: "('p, 't) subagent_manager \<Rightarrow> 'w \<Rightarrow> ('p, 't, 'w) subagent_system" where
  "new_subagent_system sg w =
     \<lparr>sy_manager = sg, sy_threads = [], sy_canceled = {}, sy_delivered = [], sy_world = w\<rparr>"

section \<open>The tools\<close>

definition origin_or :: "gostr \<Rightarrow> gostr \<Rightarrow> gostr" where
  "origin_or x d = (if x = [] then d else x)"

text \<open>\<open>SpawnTool\<close>: \<open>arg\<close> is the argument of a name if it is a string, \<open>check\<close> the allow-list, \<open>sy\<close> is \<open>None\<close> without a manager.\<close>

definition spawn_execute ::
  "(gostr \<Rightarrow> bool) option \<Rightarrow> nat \<Rightarrow> (gostr \<Rightarrow> gostr option) \<Rightarrow> gostr \<Rightarrow> gostr \<Rightarrow> bool \<Rightarrow> int \<Rightarrow> ('p, 't, 'w) subagent_system option \<Rightarrow>
   tool_result \<times> ('p, 't, 'w) subagent_system option" where
  "spawn_execute check ctx arg channel chatID callback now sy =
     (case arg ''task'' of
        None \<Rightarrow> (error_result ''task is required and must be a non-empty string'', sy)
      | Some task \<Rightarrow>
          if trim_space task = [] then (error_result ''task is required and must be a non-empty string'', sy)
          else
            let label = (case arg ''label'' of None \<Rightarrow> [] | Some l \<Rightarrow> l);
                agentID = (case arg ''agent_id'' of None \<Rightarrow> [] | Some a \<Rightarrow> a)
            in if agentID \<noteq> [] \<and> (case check of None \<Rightarrow> False | Some ok \<Rightarrow> \<not> ok agentID)
               then (error_result (''not allowed to spawn agent '' @ [CHR 0x27] @ agentID @ [CHR 0x27]), sy)
               else (case sy of
                       None \<Rightarrow> (error_result ''Subagent manager not configured'', None)
                     | Some s \<Rightarrow>
                         (case spawn ctx task label agentID (origin_or channel ''cli'') (origin_or chatID ''direct'') callback now s of
                            (text, s') \<Rightarrow> (async_result text, Some s'))))"

definition max_user_len :: nat where
  "max_user_len = 500"

text \<open>\<open>SubagentTool\<close>, which waits for the loop.\<close>

definition subagent_execute ::
  "('v, 'p, 't, 'w) subagent_env \<Rightarrow> (gostr \<Rightarrow> gostr option) \<Rightarrow> gostr \<Rightarrow> gostr \<Rightarrow> (('p, 't) subagent_manager) option \<times> 'w \<Rightarrow>
   tool_result \<times> ('p, 't) subagent_manager option \<times> 'w" where
  "subagent_execute env arg channel chatID mw =
     (case (arg ''task'', mw) of
        (None, _) \<Rightarrow> (with_error (error_result ''task is required'') ''task parameter is required'', mw)
      | (Some task, (None, w)) \<Rightarrow> (with_error (error_result ''Subagent manager not configured'') ''manager is nil'', mw)
      | (Some task, (Some sg, w)) \<Rightarrow>
          (case run_tool_loop (subagent_config env sg)
                  [text_message ''system'' ''You are a subagent. Complete the given task independently and provide a clear, concise result.'',
                   text_message ''user'' task]
                  (origin_or channel ''cli'') (origin_or chatID ''direct'') (sg_tools sg, w) of
             (Inl e, (reg, w'), _) \<Rightarrow>
               (with_error (error_result (''Subagent execution failed: '' @ e)) e, (Some (sg\<lparr>sg_tools := reg\<rparr>), w'))
           | (Inr (content, iterations), (reg, w'), _) \<Rightarrow>
               let label = (case arg ''label'' of None \<Rightarrow> [] | Some l \<Rightarrow> l)
               in ((new_tool_result (''Subagent task completed:'' @ nl @ ''Label: '' @ origin_or label ''(unnamed)'' @ nl @
                      ''Iterations: '' @ show_nat iterations @ nl @ ''Result: '' @ content))
                     \<lparr>res_ForUser := (if length content > max_user_len then take max_user_len content @ ''...'' else content)\<rparr>,
                   (Some (sg\<lparr>sg_tools := reg\<rparr>), w'))))"

text \<open>The callback of the agent loop: what it publishes to the user and what it puts back on the bus.\<close>

definition async_callback ::
  "gostr \<Rightarrow> gostr \<Rightarrow> gostr \<Rightarrow> tool_result \<Rightarrow> (gostr \<times> gostr \<times> gostr) list \<times> inbound_message list" where
  "async_callback channel chatID tool r =
     (if \<not> res_Silent r \<and> res_ForUser r \<noteq> [] then [(channel, chatID, res_ForUser r)] else [],
      if content_for_llm r = [] then []
      else [(direct_message (content_for_llm r) [] ''system'' (channel @ '':'' @ chatID))\<lparr>im_SenderID := ''async:'' @ tool\<rparr>])"

section \<open>Identifiers\<close>

declare show_nat.simps [simp del]

definition digits_nat :: "gostr \<Rightarrow> nat" where
  "digits_nat s = fold (\<lambda>c n. 10 * n + (code c - 48)) s 0"

lemma digits_show [simp]: "digits_nat (show_nat n) = n"
proof (induction n rule: show_nat.induct)
  case (1 n)
  then show ?case by (subst show_nat.simps) (auto simp: digits_nat_def)
qed

lemma subagent_id_inj [simp]: "subagent_id m = subagent_id n \<longleftrightarrow> m = n"
proof
  assume "subagent_id m = subagent_id n"
  then have "show_nat m = show_nat n" by (simp add: subagent_id_def)
  then show "m = n" by (metis digits_show)
qed simp

section \<open>The life of a task\<close>

text \<open>
  Tasks stand under their identifiers, which are numbered; exactly those that are running have a thread, one each;
  what was reported is no longer running, and nothing is reported twice.
\<close>

definition final_status :: "gostr \<Rightarrow> bool" where
  "final_status s \<longleftrightarrow> s \<in> {''completed'', ''failed'', ''canceled''}"

definition tasks_ok :: "('p, 't, 'w) subagent_system \<Rightarrow> bool" where
  "tasks_ok sy \<longleftrightarrow>
     (\<forall>i t. sy_task sy i = Some t \<longrightarrow>
        sa_ID t = i \<and> (\<exists>k < sg_nextID (sy_manager sy). i = subagent_id k) \<and>
        (sa_Status t = ''running'' \<and> i \<in> th_ID ` set (sy_threads sy) \<or>
         final_status (sa_Status t) \<and> i \<notin> th_ID ` set (sy_threads sy)))"

definition threads_ok :: "('p, 't, 'w) subagent_system \<Rightarrow> bool" where
  "threads_ok sy \<longleftrightarrow>
     distinct (map th_ID (sy_threads sy)) \<and> th_ID ` set (sy_threads sy) \<subseteq> dom (sg_tasks (sy_manager sy)) \<and>
     distinct (map fst (sy_delivered sy)) \<and> fst ` set (sy_delivered sy) \<subseteq> dom (sg_tasks (sy_manager sy)) \<and>
     fst ` set (sy_delivered sy) \<inter> th_ID ` set (sy_threads sy) = {}"

lemma put_task_simps [simp]:
  "sg_tasks (put_task t sg) = (sg_tasks sg)(sa_ID t \<mapsto> t)" "sg_nextID (put_task t sg) = sg_nextID sg"
  by (simp_all add: put_task_def)

lemma not_final_running [simp]: "\<not> final_status ''running''"
  by (simp add: final_status_def)

lemma task_outcome_status:
  "task_outcome t c res = (status, result, report) \<Longrightarrow>
   status \<in> {''completed'', ''failed''} \<or> status = ''canceled'' \<and> result = ''Task canceled during execution''"
  by (cases res; cases c) (auto simp: task_outcome_def)

lemma remove_thread_ids:
  "distinct (map th_ID ths) \<Longrightarrow> th \<in> set ths \<Longrightarrow>
   th_ID ` set (removeAll th ths) = th_ID ` set ths - {th_ID th} \<and> distinct (map th_ID (removeAll th ths))"
  by (auto simp: distinct_map distinct_removeAll inj_on_def)

lemma begun_thread_ids [simp]: "map th_ID (map (\<lambda>x. if x = th then x\<lparr>th_begun := True\<rparr> else x) ths) = map th_ID ths"
  by simp

text \<open>The three ways in which a step changes tasks and threads.\<close>

lemma ok_fresh:
  assumes "tasks_ok sy" "threads_ok sy" "i = subagent_id (sg_nextID (sy_manager sy))"
    and "sy_manager sy' = put_task t ((sy_manager sy)\<lparr>sg_nextID := Suc (sg_nextID (sy_manager sy))\<rparr>)"
    and "sa_ID t = i" "sa_Status t = ''running''" "sy_threads sy' = sy_threads sy @ [th]" "th_ID th = i"
    and "sy_delivered sy' = sy_delivered sy"
  shows "tasks_ok sy' \<and> threads_ok sy'"
proof -
  have new: "sy_task sy i = None"
  proof (rule ccontr)
    assume "sy_task sy i \<noteq> None"
    then obtain u where "sy_task sy i = Some u" by auto
    with assms(1) obtain k where "k < sg_nextID (sy_manager sy)" "i = subagent_id k" unfolding tasks_ok_def by blast
    with assms(3) show False by simp
  qed
  then have "i \<notin> th_ID ` set (sy_threads sy)" "i \<notin> fst ` set (sy_delivered sy)"
    using assms(2) unfolding threads_ok_def by auto
  moreover have "tasks_ok sy'"
    unfolding tasks_ok_def
  proof (intro allI impI)
    fix j u assume u: "sy_task sy' j = Some u"
    show "sa_ID u = j \<and> (\<exists>k < sg_nextID (sy_manager sy'). j = subagent_id k) \<and>
        (sa_Status u = ''running'' \<and> j \<in> th_ID ` set (sy_threads sy') \<or>
         final_status (sa_Status u) \<and> j \<notin> th_ID ` set (sy_threads sy'))"
    proof (cases "j = i")
      case True
      with u assms show ?thesis by auto
    next
      case False
      with u assms(4,5) have "sy_task sy j = Some u" by simp
      with assms(1) have "sa_ID u = j" "\<exists>k < sg_nextID (sy_manager sy). j = subagent_id k"
          "sa_Status u = ''running'' \<and> j \<in> th_ID ` set (sy_threads sy) \<or>
           final_status (sa_Status u) \<and> j \<notin> th_ID ` set (sy_threads sy)"
        unfolding tasks_ok_def by blast+
      with False assms(4,7,8) show ?thesis by (auto simp: less_Suc_eq)
    qed
  qed
  ultimately show ?thesis using assms(2,4,5,7,8,9) by (auto simp: threads_ok_def)
qed

lemma ok_restart:
  assumes "tasks_ok sy" "threads_ok sy" "sy_task sy i = Some t0" "i \<in> th_ID ` set (sy_threads sy)"
    and "sg_tasks (sy_manager sy') = (sg_tasks (sy_manager sy))(i \<mapsto> t)" "sg_nextID (sy_manager sy') = sg_nextID (sy_manager sy)"
    and "sa_ID t = i" "sa_Status t = ''running''" "map th_ID (sy_threads sy') = map th_ID (sy_threads sy)"
    and "sy_delivered sy' = sy_delivered sy"
  shows "tasks_ok sy' \<and> threads_ok sy'"
proof -
  have ids: "th_ID ` set (sy_threads sy') = th_ID ` set (sy_threads sy)"
    using assms(9) by (metis list.set_map)
  have "\<exists>k < sg_nextID (sy_manager sy). i = subagent_id k" using assms(1,3) unfolding tasks_ok_def by blast
  then have "tasks_ok sy'"
    using assms(1,4) unfolding tasks_ok_def ids assms(5,6) by (auto simp: assms(7,8))
  moreover have "threads_ok sy'"
    using assms(2,3) unfolding threads_ok_def ids assms(5,9,10) by auto
  ultimately show ?thesis ..
qed

lemma ok_ends:
  assumes "tasks_ok sy" "threads_ok sy" "th \<in> set (sy_threads sy)"
    and "sg_tasks (sy_manager sy') = (sg_tasks (sy_manager sy))(th_ID th \<mapsto> t)"
    and "sg_nextID (sy_manager sy') = sg_nextID (sy_manager sy)"
    and "sa_ID t = th_ID th" "final_status (sa_Status t)" "sy_threads sy' = removeAll th (sy_threads sy)"
    and "sy_delivered sy' = sy_delivered sy @ (if cb then [(th_ID th, report)] else [])"
  shows "tasks_ok sy' \<and> threads_ok sy'"
proof -
  have d: "distinct (map th_ID (sy_threads sy))" using assms(2) by (simp add: threads_ok_def)
  note rem = remove_thread_ids [OF d assms(3)]
  have ids: "th_ID ` set (sy_threads sy') = th_ID ` set (sy_threads sy) - {th_ID th}" using rem assms(8) by simp
  have inn: "th_ID th \<in> th_ID ` set (sy_threads sy)" using assms(3) by simp
  then obtain t0 where t0: "sy_task sy (th_ID th) = Some t0" using assms(2) unfolding threads_ok_def by blast
  then have "\<exists>k < sg_nextID (sy_manager sy). th_ID th = subagent_id k" using assms(1) unfolding tasks_ok_def by blast
  then have "tasks_ok sy'"
    using assms(1) unfolding tasks_ok_def ids assms(4,5) by (auto simp: assms(6,7))
  moreover have "th_ID th \<notin> fst ` set (sy_delivered sy)" using assms(2) inn unfolding threads_ok_def by blast
  then have "threads_ok sy'"
    using assms(2) rem unfolding threads_ok_def ids assms(4,9) assms(8) by auto
  ultimately show ?thesis ..
qed

text \<open>The three steps in terms of what they change.\<close>

lemma spawn_changes:
  assumes "spawn ctx task label agentID channel chatID callback now sy = (text, sy')"
  shows "sy_manager sy' = put_task \<lparr>sa_ID = subagent_id (sg_nextID (sy_manager sy)), sa_Task = task, sa_Label = label,
      sa_AgentID = agentID, sa_OriginChannel = channel, sa_OriginChatID = chatID, sa_Status = ''running'', sa_Result = [],
      sa_Created = now\<rparr> ((sy_manager sy)\<lparr>sg_nextID := Suc (sg_nextID (sy_manager sy))\<rparr>)"
    "sy_threads sy' = sy_threads sy @ [\<lparr>th_ID = subagent_id (sg_nextID (sy_manager sy)), th_ctx = ctx, th_callback = callback, th_begun = False\<rparr>]"
    "sy_delivered sy' = sy_delivered sy" "sy_canceled sy' = sy_canceled sy" "sy_world sy' = sy_world sy"
  using assms by (auto simp: spawn_def Let_def)

lemma finish_changes:
  assumes "sy_task sy (th_ID th) = Some t" "sa_ID t = th_ID th"
  obtains status result report reg w where
    "task_outcome t (th_ctx th \<in> sy_canceled sy)
       (fst (run_tool_loop (subagent_config env (sy_manager sy)) [text_message ''system'' spawn_prompt, text_message ''user'' (sa_Task t)]
          (sa_OriginChannel t) (sa_OriginChatID t) (sg_tools (sy_manager sy), sy_world sy))) = (status, result, report)"
    "sg_tasks (sy_manager (finish_task env th sy)) =
       (sg_tasks (sy_manager sy))(th_ID th \<mapsto> t\<lparr>sa_Status := status, sa_Result := result\<rparr>)"
    "sg_nextID (sy_manager (finish_task env th sy)) = sg_nextID (sy_manager sy)"
    "sy_threads (finish_task env th sy) = removeAll th (sy_threads sy)"
    "sy_delivered (finish_task env th sy) = sy_delivered sy @ (if th_callback th then [(th_ID th, report)] else [])"
proof -
  obtain res reg w tr where r: "run_tool_loop (subagent_config env (sy_manager sy)) [text_message ''system'' spawn_prompt, text_message ''user'' (sa_Task t)]
          (sa_OriginChannel t) (sa_OriginChatID t) (sg_tools (sy_manager sy), sy_world sy) = (res, (reg, w), tr)"
    by (metis prod.collapse)
  obtain status result report where o: "task_outcome t (th_ctx th \<in> sy_canceled sy) res = (status, result, report)"
    by (metis prod_cases3)
  show thesis
    by (rule that [of status result report]) (use r o assms in \<open>simp_all add: finish_task_def Let_def\<close>)
qed

lemma running_thread:
  assumes "tasks_ok sy" "threads_ok sy" "n < length (sy_threads sy)"
  obtains t where "sy_task sy (th_ID (sy_threads sy ! n)) = Some t" "sa_ID t = th_ID (sy_threads sy ! n)"
    "sa_Status t = ''running''" "sy_threads sy ! n \<in> set (sy_threads sy)"
proof -
  have th: "sy_threads sy ! n \<in> set (sy_threads sy)" using assms(3) by simp
  then obtain t where t: "sy_task sy (th_ID (sy_threads sy ! n)) = Some t"
    using assms(2) unfolding threads_ok_def by blast
  with assms(1) th have "sa_ID t = th_ID (sy_threads sy ! n)" "sa_Status t = ''running''"
    unfolding tasks_ok_def by blast+
  with t th that show thesis by blast
qed

lemma subagent_do_ok:
  assumes "subagent_do env e sy = Some sy'" "tasks_ok sy" "threads_ok sy"
  shows "tasks_ok sy' \<and> threads_ok sy'"
proof (cases e)
  case (Spawned ctx task label agentID channel chatID callback now)
  obtain said s where s: "spawn ctx task label agentID channel chatID callback now sy = (said, s)" by fastforce
  with assms(1) Spawned have "s = sy'" by simp
  with spawn_changes [OF s] show ?thesis
    by (intro ok_fresh [OF assms(2,3) refl]) auto
next
  case (Begins n now)
  with assms(1) have n: "n < length (sy_threads sy)" "sy' = begin_task (sy_threads sy ! n) now sy" by (auto split: if_splits)
  obtain t where t: "sy_task sy (th_ID (sy_threads sy ! n)) = Some t" "sa_ID t = th_ID (sy_threads sy ! n)"
    "sy_threads sy ! n \<in> set (sy_threads sy)" by (rule running_thread [OF assms(2,3) n(1)])
  show ?thesis
  proof (cases "th_ctx (sy_threads sy ! n) \<in> sy_canceled sy")
    case True
    with n t show ?thesis
      by (intro ok_ends [OF assms(2,3) t(3), where cb = False and t = "t\<lparr>sa_Created := now, sa_Status := ''canceled'',
             sa_Result := ''Task canceled before execution''\<rparr>"]) (auto simp: begin_task_def Let_def final_status_def)
  next
    case False
    with n t show ?thesis
      by (intro ok_restart [OF assms(2,3) t(1), where t = "t\<lparr>sa_Status := ''running'', sa_Created := now\<rparr>"])
        (auto simp: begin_task_def Let_def)
  qed
next
  case (Finishes n)
  with assms(1) have n: "n < length (sy_threads sy)" "sy' = finish_task env (sy_threads sy ! n) sy" by (auto split: if_splits)
  obtain t where t: "sy_task sy (th_ID (sy_threads sy ! n)) = Some t" "sa_ID t = th_ID (sy_threads sy ! n)"
    "sy_threads sy ! n \<in> set (sy_threads sy)" by (rule running_thread [OF assms(2,3) n(1)])
  obtain status result report where c:
    "task_outcome t (th_ctx (sy_threads sy ! n) \<in> sy_canceled sy)
       (fst (run_tool_loop (subagent_config env (sy_manager sy)) [text_message ''system'' spawn_prompt, text_message ''user'' (sa_Task t)]
          (sa_OriginChannel t) (sa_OriginChatID t) (sg_tools (sy_manager sy), sy_world sy))) = (status, result, report)"
    "sg_tasks (sy_manager sy') = (sg_tasks (sy_manager sy))(th_ID (sy_threads sy ! n) \<mapsto> t\<lparr>sa_Status := status, sa_Result := result\<rparr>)"
    "sg_nextID (sy_manager sy') = sg_nextID (sy_manager sy)" "sy_threads sy' = removeAll (sy_threads sy ! n) (sy_threads sy)"
    "sy_delivered sy' = sy_delivered sy @ (if th_callback (sy_threads sy ! n) then [(th_ID (sy_threads sy ! n), report)] else [])"
    unfolding n(2) by (rule finish_changes [OF t(1,2)])
  have "final_status status" using task_outcome_status [OF c(1)] by (auto simp: final_status_def)
  with t(2) show ?thesis by (intro ok_ends [OF assms(2,3) t(3) c(2,3) _ _ c(4,5)]) simp_all
next
  case (ContextEnds ctx)
  with assms(1) have "sy' = sy\<lparr>sy_canceled := insert ctx (sy_canceled sy)\<rparr>" by simp
  with assms(2,3) show ?thesis by (simp add: tasks_ok_def threads_ok_def)
qed

lemma subagent_run_ok:
  "subagent_run env es sy = Some sy' \<Longrightarrow> tasks_ok sy \<Longrightarrow> threads_ok sy \<Longrightarrow> tasks_ok sy' \<and> threads_ok sy'"
proof (induction es arbitrary: sy)
  case (Cons e es)
  then obtain sy1 where "subagent_do env e sy = Some sy1" "subagent_run env es sy1 = Some sy'"
    by (auto simp: bind_eq_Some_conv)
  with subagent_do_ok [OF this(1) Cons.prems(2,3)] Cons.IH show ?case by blast
qed simp

lemma new_system_ok: "tasks_ok (new_subagent_system (new_subagent_manager model) w)" "threads_ok (new_subagent_system (new_subagent_manager model) w)"
  by (simp_all add: tasks_ok_def threads_ok_def new_subagent_system_def new_subagent_manager_def)

text \<open>
  In every run of a new manager a task stands under its own, numbered identifier and is either running,
  with exactly one goroutine, or has ended as completed, failed or canceled, with none; the reports that were delivered
  belong to different tasks that have ended.
\<close>

theorem subagent_tasks_sound:
  assumes "subagent_run env es (new_subagent_system (new_subagent_manager model) w) = Some sy"
  shows "(\<forall>i t. sy_task sy i = Some t \<longrightarrow>
        sa_ID t = i \<and> (\<exists>k < sg_nextID (sy_manager sy). i = subagent_id k) \<and>
        (if i \<in> th_ID ` set (sy_threads sy) then sa_Status t = ''running'' else final_status (sa_Status t))) \<and>
     distinct (map th_ID (sy_threads sy)) \<and> distinct (map fst (sy_delivered sy)) \<and>
     (\<forall>(i, r) \<in> set (sy_delivered sy). \<exists>t. sy_task sy i = Some t \<and> final_status (sa_Status t))"
proof -
  from subagent_run_ok [OF assms new_system_ok] have ok: "tasks_ok sy" "threads_ok sy" by auto
  have ended: "\<exists>t. sy_task sy i = Some t \<and> final_status (sa_Status t)" if "(i, r) \<in> set (sy_delivered sy)" for i r
  proof -
    have "fst (i, r) \<in> fst ` set (sy_delivered sy)" by (rule imageI [OF that])
    then have i: "i \<in> fst ` set (sy_delivered sy)" by simp
    from ok(2) have "fst ` set (sy_delivered sy) \<subseteq> dom (sg_tasks (sy_manager sy))"
      "fst ` set (sy_delivered sy) \<inter> th_ID ` set (sy_threads sy) = {}" by (simp_all add: threads_ok_def)
    with i obtain t where t: "sy_task sy i = Some t" "i \<notin> th_ID ` set (sy_threads sy)" by blast
    from ok(1) t show ?thesis unfolding tasks_ok_def by blast
  qed
  have "sa_ID t = i \<and> (\<exists>k < sg_nextID (sy_manager sy). i = subagent_id k) \<and>
        (if i \<in> th_ID ` set (sy_threads sy) then sa_Status t = ''running'' else final_status (sa_Status t))"
    if t: "sy_task sy i = Some t" for i t
  proof -
    have "sa_ID t = i" "\<exists>k < sg_nextID (sy_manager sy). i = subagent_id k"
      "sa_Status t = ''running'' \<and> i \<in> th_ID ` set (sy_threads sy) \<or>
       final_status (sa_Status t) \<and> i \<notin> th_ID ` set (sy_threads sy)"
      using ok(1) t unfolding tasks_ok_def by blast+
    then show ?thesis by simp blast
  qed
  moreover have "distinct (map th_ID (sy_threads sy))" "distinct (map fst (sy_delivered sy))"
    using ok(2) by (simp_all add: threads_ok_def)
  ultimately show ?thesis using ended by blast
qed

section \<open>Reports\<close>

fun wants_report :: "subagent_event \<Rightarrow> bool" where
  "wants_report (Spawned _ _ _ _ _ _ callback _) = callback"
| "wants_report _ = True"

definition ended_early :: "subagent_task \<Rightarrow> bool" where
  "ended_early t \<longleftrightarrow> sa_Status t = ''canceled'' \<and> sa_Result t = ''Task canceled before execution''"

definition all_reported :: "('p, 't, 'w) subagent_system \<Rightarrow> bool" where
  "all_reported sy \<longleftrightarrow>
     (\<forall>th \<in> set (sy_threads sy). th_callback th) \<and>
     (\<forall>i t. sy_task sy i = Some t \<longrightarrow> i \<notin> th_ID ` set (sy_threads sy) \<longrightarrow>
        (i \<in> fst ` set (sy_delivered sy) \<longleftrightarrow> \<not> ended_early t))"

lemma all_reportedD:
  "all_reported sy \<Longrightarrow> sy_task sy i = Some t \<Longrightarrow> i \<notin> th_ID ` set (sy_threads sy) \<Longrightarrow>
   i \<in> fst ` set (sy_delivered sy) \<longleftrightarrow> \<not> ended_early t"
  unfolding all_reported_def by blast

lemma subagent_do_reported:
  assumes "subagent_do env e sy = Some sy'" "tasks_ok sy" "threads_ok sy" "all_reported sy" "wants_report e"
  shows "all_reported sy'"
proof (cases e)
  case (Spawned ctx task label agentID channel chatID callback now)
  obtain said s where s: "spawn ctx task label agentID channel chatID callback now sy = (said, s)" by fastforce
  with assms(1) Spawned have "s = sy'" by simp
  with spawn_changes [OF s] assms(4,5) Spawned show ?thesis
    by (auto simp: all_reported_def)
next
  case (Begins n now)
  with assms(1) have n: "n < length (sy_threads sy)" "sy' = begin_task (sy_threads sy ! n) now sy" by (auto split: if_splits)
  let ?th = "sy_threads sy ! n"
  obtain t where t: "sy_task sy (th_ID ?th) = Some t" "sa_ID t = th_ID ?th" "?th \<in> set (sy_threads sy)"
    by (rule running_thread [OF assms(2,3) n(1)])
  show ?thesis
  proof (cases "th_ctx ?th \<in> sy_canceled sy")
    case True
    have d: "distinct (map th_ID (sy_threads sy))" "fst ` set (sy_delivered sy) \<inter> th_ID ` set (sy_threads sy) = {}"
      using assms(3) by (simp_all add: threads_ok_def)
    have ths: "th_ID ` set (sy_threads sy') = th_ID ` set (sy_threads sy) - {th_ID ?th}"
        "set (sy_threads sy') \<subseteq> set (sy_threads sy)" "sy_delivered sy' = sy_delivered sy"
      using True n remove_thread_ids [OF d(1) t(3)] by (auto simp: begin_task_def Let_def)
    have sg: "sg_tasks (sy_manager sy') = (sg_tasks (sy_manager sy))(th_ID ?th \<mapsto>
        t\<lparr>sa_Created := now, sa_Status := ''canceled'', sa_Result := ''Task canceled before execution''\<rparr>)"
      using True n t by (simp add: begin_task_def Let_def)
    have nd: "th_ID ?th \<notin> fst ` set (sy_delivered sy)" using d(2) t(3) by blast
    have "i \<in> fst ` set (sy_delivered sy') \<longleftrightarrow> \<not> ended_early u"
      if u: "sy_task sy' i = Some u" "i \<notin> th_ID ` set (sy_threads sy')" for i u
    proof (cases "i = th_ID ?th")
      case True
      with u(1) sg have "ended_early u" by (auto simp: ended_early_def)
      with True nd ths(3) show ?thesis by simp
    next
      case False
      with u sg ths(1) have "sy_task sy i = Some u" "i \<notin> th_ID ` set (sy_threads sy)" by auto
      from all_reportedD [OF assms(4) this] ths(3) show ?thesis by simp
    qed
    with assms(4) ths(2) show ?thesis unfolding all_reported_def by blast
  next
    case False
    with n t have b: "sg_tasks (sy_manager sy') = (sg_tasks (sy_manager sy))(th_ID ?th \<mapsto> t\<lparr>sa_Status := ''running'', sa_Created := now\<rparr>)"
      "sy_threads sy' = map (\<lambda>x. if x = ?th then x\<lparr>th_begun := True\<rparr> else x) (sy_threads sy)" "sy_delivered sy' = sy_delivered sy"
      by (simp_all add: begin_task_def Let_def)
    have ids: "th_ID ` set (sy_threads sy') = th_ID ` set (sy_threads sy)"
      unfolding b(2) list.set_map [symmetric] begun_thread_ids ..
    have "\<forall>th \<in> set (sy_threads sy'). th_callback th" using assms(4) unfolding b(2) all_reported_def by auto
    moreover have "i \<in> fst ` set (sy_delivered sy') \<longleftrightarrow> \<not> ended_early u"
      if u: "sy_task sy' i = Some u" "i \<notin> th_ID ` set (sy_threads sy')" for i u
    proof -
      have "i \<noteq> th_ID ?th" using u(2) t(3) unfolding ids by blast
      then have "sy_task sy i = Some u" using u(1) b(1) by simp
      from all_reportedD [OF assms(4) this] u(2) show ?thesis unfolding ids b(3) by simp
    qed
    ultimately show ?thesis unfolding all_reported_def by blast
  qed
next
  case (Finishes n)
  with assms(1) have n: "n < length (sy_threads sy)" "sy' = finish_task env (sy_threads sy ! n) sy" by (auto split: if_splits)
  let ?th = "sy_threads sy ! n"
  obtain t where t: "sy_task sy (th_ID ?th) = Some t" "sa_ID t = th_ID ?th" "?th \<in> set (sy_threads sy)"
    by (rule running_thread [OF assms(2,3) n(1)])
  obtain status result report where c:
    "task_outcome t (th_ctx ?th \<in> sy_canceled sy)
       (fst (run_tool_loop (subagent_config env (sy_manager sy)) [text_message ''system'' spawn_prompt, text_message ''user'' (sa_Task t)]
          (sa_OriginChannel t) (sa_OriginChatID t) (sg_tools (sy_manager sy), sy_world sy))) = (status, result, report)"
    "sg_tasks (sy_manager sy') = (sg_tasks (sy_manager sy))(th_ID ?th \<mapsto> t\<lparr>sa_Status := status, sa_Result := result\<rparr>)"
    "sy_threads sy' = removeAll ?th (sy_threads sy)"
    "sy_delivered sy' = sy_delivered sy @ (if th_callback ?th then [(th_ID ?th, report)] else [])"
    unfolding n(2) by (rule finish_changes [OF t(1,2)])
  have cb: "th_callback ?th" using assms(4) t(3) by (simp add: all_reported_def)
  have late: "\<not> (status = ''canceled'' \<and> result = ''Task canceled before execution'')"
    using task_outcome_status [OF c(1)] by auto
  have d: "distinct (map th_ID (sy_threads sy))" using assms(3) by (simp add: threads_ok_def)
  have ths: "th_ID ` set (sy_threads sy') = th_ID ` set (sy_threads sy) - {th_ID ?th}" "set (sy_threads sy') \<subseteq> set (sy_threads sy)"
    using remove_thread_ids [OF d t(3)] c(3) by auto
  have "i \<in> fst ` set (sy_delivered sy') \<longleftrightarrow> \<not> ended_early u"
    if u: "sy_task sy' i = Some u" "i \<notin> th_ID ` set (sy_threads sy')" for i u
  proof (cases "i = th_ID ?th")
    case True
    with u(1) c(2) late have "\<not> ended_early u" by (auto simp: ended_early_def)
    with True cb c(4) show ?thesis by simp
  next
    case False
    with u c(2) ths(1) have "sy_task sy i = Some u" "i \<notin> th_ID ` set (sy_threads sy)" by auto
    from all_reportedD [OF assms(4) this] False cb c(4) show ?thesis by simp
  qed
  with assms(4) ths(2) show ?thesis unfolding all_reported_def by blast
next
  case (ContextEnds ctx)
  with assms(1) have "sy' = sy\<lparr>sy_canceled := insert ctx (sy_canceled sy)\<rparr>" by simp
  with assms(4) show ?thesis by (simp add: all_reported_def)
qed

lemma subagent_run_reported:
  "subagent_run env es sy = Some sy' \<Longrightarrow> tasks_ok sy \<Longrightarrow> threads_ok sy \<Longrightarrow> all_reported sy \<Longrightarrow> list_all wants_report es \<Longrightarrow>
   all_reported sy'"
proof (induction es arbitrary: sy)
  case (Cons e es)
  then obtain sy1 where s: "subagent_do env e sy = Some sy1" "subagent_run env es sy1 = Some sy'"
    by (auto simp: bind_eq_Some_conv)
  from subagent_do_ok [OF s(1) Cons.prems(2,3)] have ok: "tasks_ok sy1" "threads_ok sy1" by auto
  have "all_reported sy1" "list_all wants_report es"
    using subagent_do_reported [OF s(1) Cons.prems(2-4)] Cons.prems(5) by simp_all
  from Cons.IH [OF s(2) ok this] show ?case .
qed simp

text \<open>
  When every task is spawned with a callback, as the agent loop does, a task that has ended was reported
  exactly if it had begun: a task whose context ends before it begins is canceled without a word, although the call that
  spawned it promised an answer.
\<close>

theorem ended_tasks_reported:
  assumes "subagent_run env es (new_subagent_system (new_subagent_manager model) w) = Some sy" "list_all wants_report es"
    and "sy_task sy i = Some t" "sa_Status t \<noteq> ''running''"
  shows "i \<in> fst ` set (sy_delivered sy) \<longleftrightarrow> \<not> ended_early t"
proof -
  have "all_reported (new_subagent_system (new_subagent_manager model) w)"
    by (simp add: all_reported_def new_subagent_system_def new_subagent_manager_def)
  from subagent_run_reported [OF assms(1) new_system_ok this assms(2)] have "all_reported sy" .
  moreover have "i \<notin> th_ID ` set (sy_threads sy)"
    using subagent_run_ok [OF assms(1) new_system_ok] assms(3,4) unfolding tasks_ok_def by blast
  ultimately show ?thesis by (rule all_reportedD [OF _ assms(3)])
qed

section \<open>What a sub-agent can do\<close>

abbreviation not_found :: "gostr \<Rightarrow> tool_result" where
  "not_found name \<equiv> with_error (error_result (''tool '' @ go_quote name @ '' not found'')) ''tool not found''"

lemma no_tools_one:
  "lc_HasTools cfg \<Longrightarrow> loop_run_call cfg channel chatID calls i (rs, new_tool_registry, w) =
   (rs[i := Some (not_found (tc_Name (calls ! i)))], new_tool_registry, w)"
  by (simp add: loop_run_call_def execute_with_context_def registry_get_def new_tool_registry_def)

lemma no_tools_call:
  "lc_HasTools cfg \<Longrightarrow> fold (loop_run_call cfg channel chatID calls) order (rs, new_tool_registry, w) =
   (fold (\<lambda>i rs. rs[i := Some (not_found (tc_Name (calls ! i)))]) order rs, new_tool_registry, w)"
  by (induction order arbitrary: rs) (simp_all add: no_tools_one)

lemma no_defs [simp]: "to_provider_defs (new_tool_registry :: 'p tool_registry) = []"
  by (simp add: to_provider_defs_def sorted_tool_names_def new_tool_registry_def)

lemma no_tools_iterate:
  "tool_loop_iterate cfg channel chatID n it messages (new_tool_registry, w) tr = (res, (reg', w'), tr') \<Longrightarrow> lc_HasTools cfg \<Longrightarrow>
   \<forall>m d. Request m d \<in> set tr \<longrightarrow> d = [] \<Longrightarrow>
   reg' = new_tool_registry \<and> (\<forall>m d. Request m d \<in> set tr' \<longrightarrow> d = []) \<and>
   tool_loop_iterate (cfg\<lparr>lc_Run := run\<rparr>) channel chatID n it messages (new_tool_registry, w) tr = (res, (reg', w'), tr')"
proof (induction n arbitrary: it messages w tr)
  case (Suc n)
  obtain r w1 where c: "lc_Call cfg messages [] w = (r, w1)" by fastforce
  let ?tr = "tr @ [Request messages []]"
  have tr: "\<forall>m d. Request m d \<in> set ?tr \<longrightarrow> d = []" using Suc.prems(3) by auto
  show ?case
  proof (cases r)
    case (Inl e)
    with Suc.prems c tr show ?thesis by (auto simp: Let_def)
  next
    case (Inr resp)
    show ?thesis
    proof (cases "resp_ToolCalls resp = []")
      case True
      with Inr Suc.prems c tr show ?thesis by (auto simp: Let_def)
    next
      case False
      let ?calls = "map (normalize_tool_call (lc_Encode cfg) (lc_Decode cfg)) (resp_ToolCalls resp)"
      let ?rs = "fold (\<lambda>i rs. rs[i := Some (not_found (tc_Name (?calls ! i)))]) (lc_Sched cfg (length ?calls)) (replicate (length ?calls) None)"
      let ?m = "messages @ [loop_assistant_message (lc_Encode cfg) resp ?calls] @ map (\<lambda>(tc, r). tool_message tc (the r)) (zip ?calls ?rs)"
      have step: "tool_loop_iterate cf channel chatID (Suc n) it messages (new_tool_registry, w) tr =
          tool_loop_iterate cf channel chatID n (Suc it) ?m (new_tool_registry, w1) ?tr"
        if "cf = cfg \<or> cf = cfg\<lparr>lc_Run := run\<rparr>" for cf
        using that c Inr False Suc.prems(2) by (auto simp: Let_def no_tools_call)
      have "tool_loop_iterate cfg channel chatID n (Suc it) ?m (new_tool_registry, w1) ?tr = (res, (reg', w'), tr')"
        using Suc.prems(1) step [of cfg] by simp
      from Suc.IH [OF this Suc.prems(2) tr] step [of "cfg\<lparr>lc_Run := run\<rparr>"] show ?thesis by simp
    qed
  qed
qed auto

lemma no_tools_loop:
  assumes "run_tool_loop (subagent_config env sg) messages channel chatID (sg_tools sg, w) = (res, (reg, w'), tr)"
    and "sg_tools sg = new_tool_registry"
  shows "reg = new_tool_registry" "\<forall>m d. Request m d \<in> set tr \<longrightarrow> d = []"
    "run_tool_loop (subagent_config (env\<lparr>se_Run := run\<rparr>) sg) messages channel chatID (sg_tools sg, w) = (res, (reg, w'), tr)"
proof -
  have cfg: "subagent_config (env\<lparr>se_Run := run\<rparr>) sg = (subagent_config env sg)\<lparr>lc_Run := run\<rparr>"
    by (simp add: subagent_config_def)
  have "lc_HasTools (subagent_config env sg)" by (simp add: subagent_config_def)
  from no_tools_iterate [OF assms(1) [unfolded run_tool_loop_def assms(2)] this, where run = run]
  show "reg = new_tool_registry" "\<forall>m d. Request m d \<in> set tr \<longrightarrow> d = []"
    "run_tool_loop (subagent_config (env\<lparr>se_Run := run\<rparr>) sg) messages channel chatID (sg_tools sg, w) = (res, (reg, w'), tr)"
    unfolding run_tool_loop_def cfg assms(2) by simp_all
qed

lemma subagent_do_no_tools:
  assumes "sg_tools (sy_manager sy) = new_tool_registry"
  shows "subagent_do (env\<lparr>se_Run := run\<rparr>) e sy = subagent_do env e sy"
    and "subagent_do env e sy = Some sy' \<Longrightarrow> sg_tools (sy_manager sy') = new_tool_registry"
proof -
  have fin: "finish_task (env\<lparr>se_Run := run\<rparr>) th sy = finish_task env th sy \<and>
      sg_tools (sy_manager (finish_task env th sy)) = new_tool_registry" for th
  proof -
    let ?sg = "sy_manager sy" and ?t = "the (sy_task sy (th_ID th))"
    obtain res reg w tr where r: "run_tool_loop (subagent_config env ?sg) [text_message ''system'' spawn_prompt, text_message ''user'' (sa_Task ?t)]
          (sa_OriginChannel ?t) (sa_OriginChatID ?t) (sg_tools ?sg, sy_world sy) = (res, (reg, w), tr)"
      by (metis prod.collapse)
    note n1 = no_tools_loop(1) [OF r assms] and n3 = no_tools_loop(3) [OF r assms, where run = run]
    show ?thesis by (simp add: finish_task_def Let_def r n1 n3 put_task_def split_beta)
  qed
  show "subagent_do (env\<lparr>se_Run := run\<rparr>) e sy = subagent_do env e sy" using fin by (cases e) auto
  show "subagent_do env e sy = Some sy' \<Longrightarrow> sg_tools (sy_manager sy') = new_tool_registry"
    using fin assms by (cases e) (auto simp: spawn_def begin_task_def put_task_def Let_def split: if_splits)
qed

lemma subagent_run_no_tools:
  "sg_tools (sy_manager sy) = new_tool_registry \<Longrightarrow> subagent_run (env\<lparr>se_Run := run\<rparr>) es sy = subagent_run env es sy"
proof (induction es arbitrary: sy)
  case (Cons e es)
  from subagent_do_no_tools [OF Cons.prems, where env = env] Cons.IH show ?case
    by (cases "subagent_do env e sy") auto
qed simp

text \<open>
  C19 The sub-agents of the agent loop have no tools: its managers are made by \<open>NewSubagentManager\<close> and given model
  options only, so the registry of their tools stays empty. Whatever happens, nothing depends on what running a tool would
  do, although the prompt of a sub-agent promises tools.
\<close>

theorem subagents_run_no_tools:
  "subagent_run (env\<lparr>se_Run := run\<rparr>) es (new_subagent_system (set_llm_options maxTokens temperature (new_subagent_manager model)) w) =
   subagent_run env es (new_subagent_system (set_llm_options maxTokens temperature (new_subagent_manager model)) w)"
  by (rule subagent_run_no_tools) (simp add: new_subagent_system_def set_llm_options_def new_subagent_manager_def)

text \<open>A model that never stops asking for tools.\<close>

definition always_calls :: "('v, 'p, 't, 'w) subagent_env \<Rightarrow> bool" where
  "always_calls env \<longleftrightarrow>
     (\<forall>model opts messages defs w. \<exists>resp w'. se_Chat env model opts messages defs w = (Inr resp, w') \<and> resp_ToolCalls resp \<noteq> [])"

lemma always_calls_iterate:
  "always_calls env \<Longrightarrow> \<exists>st' tr'. tool_loop_iterate (subagent_config env sg) channel chatID n it messages st tr = (Inr ([], it + n), st', tr')"
proof (induction n arbitrary: it messages st tr)
  case (Suc n)
  let ?cfg = "subagent_config env sg"
  obtain resp w where c: "se_Chat env (sg_defaultModel sg) (subagent_options sg) messages (to_provider_defs (fst st)) (snd st) = (Inr resp, w)"
      "resp_ToolCalls resp \<noteq> []"
    using Suc.prems unfolding always_calls_def by blast
  then have "lc_Call ?cfg messages (to_provider_defs (fst st)) (snd st) = (Inr resp, w)" by (simp add: subagent_config_def)
  moreover note c(2)
  moreover have "lc_HasTools ?cfg" by (simp add: subagent_config_def)
  ultimately show ?case using Suc.IH [OF Suc.prems, of "Suc it"] by (simp add: Let_def split_beta)
qed simp

text \<open>
  A task that runs out of iterations is reported as completed, with an empty result and nothing for the user.
\<close>

theorem exhausted_task_completes:
  assumes "always_calls env" "sy_task sy (th_ID th) = Some t" "sa_ID t = th_ID th"
  shows "sy_task (finish_task env th sy) (th_ID th) = Some (t\<lparr>sa_Status := ''completed'', sa_Result := []\<rparr>) \<and>
    map (\<lambda>(i, r). (i, res_IsError r, res_ForUser r)) (drop (length (sy_delivered sy)) (sy_delivered (finish_task env th sy))) =
      (if th_callback th then [(th_ID th, False, [])] else [])"
proof -
  obtain k where k: "fst (run_tool_loop (subagent_config env (sy_manager sy)) [text_message ''system'' spawn_prompt, text_message ''user'' (sa_Task t)]
          (sa_OriginChannel t) (sa_OriginChatID t) (sg_tools (sy_manager sy), sy_world sy)) = Inr ([], k)"
    using always_calls_iterate [OF assms(1)] unfolding run_tool_loop_def by (metis fst_conv)
  obtain status result report where c:
    "task_outcome t (th_ctx th \<in> sy_canceled sy)
       (fst (run_tool_loop (subagent_config env (sy_manager sy)) [text_message ''system'' spawn_prompt, text_message ''user'' (sa_Task t)]
          (sa_OriginChannel t) (sa_OriginChatID t) (sg_tools (sy_manager sy), sy_world sy))) = (status, result, report)"
    "sg_tasks (sy_manager (finish_task env th sy)) = (sg_tasks (sy_manager sy))(th_ID th \<mapsto> t\<lparr>sa_Status := status, sa_Result := result\<rparr>)"
    "sy_delivered (finish_task env th sy) = sy_delivered sy @ (if th_callback th then [(th_ID th, report)] else [])"
    by (rule finish_changes [OF assms(2,3)])
  obtain rep where o: "task_outcome t (th_ctx th \<in> sy_canceled sy) (Inr ([], k)) = (''completed'', [], rep)"
      "res_ForUser rep = []" "\<not> res_IsError rep"
    by (rule that [of "snd (snd (task_outcome t (th_ctx th \<in> sy_canceled sy) (Inr ([], k))))"])
      (simp_all add: task_outcome_def new_tool_result_def)
  have e: "status = ''completed''" "result = []" "report = rep"
    using c(1) [unfolded k o(1)] by (simp_all only: prod.inject)
  have "map (\<lambda>(i, r). (i, res_IsError r, res_ForUser r)) (drop (length (sy_delivered sy)) (sy_delivered (finish_task env th sy))) =
      (if th_callback th then [(th_ID th, False, [])] else [])"
    unfolding c(3) e(3) using o(2,3) by simp
  moreover have "sy_task (finish_task env th sy) (th_ID th) = Some (t\<lparr>sa_Status := ''completed'', sa_Result := []\<rparr>)"
    unfolding c(2) e by simp
  ultimately show ?thesis by (rule conjI [rotated])
qed

section \<open>The agent a task names\<close>

text \<open>A system and an event in which nobody names an agent.\<close>

abbreviation anonymous_task :: "subagent_task \<Rightarrow> subagent_task" where
  "anonymous_task t \<equiv> t\<lparr>sa_AgentID := []\<rparr>"

definition anonymous :: "('p, 't, 'w) subagent_system \<Rightarrow> ('p, 't, 'w) subagent_system" where
  "anonymous sy = sy\<lparr>sy_manager := (sy_manager sy)\<lparr>sg_tasks := map_option anonymous_task \<circ> sg_tasks (sy_manager sy)\<rparr>\<rparr>"

fun anonymous_event :: "subagent_event \<Rightarrow> subagent_event" where
  "anonymous_event (Spawned ctx task label agentID channel chatID callback now) =
     Spawned ctx task label [] channel chatID callback now"
| "anonymous_event e = e"

lemma anonymous_simps [simp]:
  "sy_threads (anonymous sy) = sy_threads sy" "sy_canceled (anonymous sy) = sy_canceled sy"
  "sy_delivered (anonymous sy) = sy_delivered sy" "sy_world (anonymous sy) = sy_world sy"
  "sg_tasks (sy_manager (anonymous sy)) = map_option anonymous_task \<circ> sg_tasks (sy_manager sy)"
  "sg_nextID (sy_manager (anonymous sy)) = sg_nextID (sy_manager sy)"
  "sg_tools (sy_manager (anonymous sy)) = sg_tools (sy_manager sy)"
  "subagent_config env (sy_manager (anonymous sy)) = subagent_config env (sy_manager sy)"
  by (simp_all add: anonymous_def subagent_config_def subagent_options_def)

lemma anonymous_update: "map_option f \<circ> (m(i \<mapsto> t)) = (map_option f \<circ> m)(i \<mapsto> f t)"
  by (simp add: fun_eq_iff)

lemma anonymous_outcome: "task_outcome (anonymous_task t) c res = task_outcome t c res"
  by (simp add: task_outcome_def split: sum.splits)

lemma anonymous_task_updates:
  "anonymous_task t\<lparr>sa_Status := x, sa_Result := r\<rparr> = anonymous_task (t\<lparr>sa_Status := x, sa_Result := r\<rparr>)"
  "anonymous_task t\<lparr>sa_Status := x, sa_Created := n\<rparr> = anonymous_task (t\<lparr>sa_Status := x, sa_Created := n\<rparr>)"
  "anonymous_task t\<lparr>sa_Created := n, sa_Status := x, sa_Result := r\<rparr> =
     anonymous_task (t\<lparr>sa_Created := n, sa_Status := x, sa_Result := r\<rparr>)"
  by (rule subagent_task.equality; simp)+

lemma anonymous_begin:
  assumes "sy_task sy (th_ID th) = Some t"
  shows "begin_task th now (anonymous sy) = anonymous (begin_task th now sy)"
  by (rule subagent_system.equality; simp add: assms begin_task_def Let_def put_task_def anonymous_def anonymous_update anonymous_task_updates)

lemma anonymous_finish:
  assumes "sy_task sy (th_ID th) = Some t"
  shows "finish_task env th (anonymous sy) = anonymous (finish_task env th sy)"
proof -
  obtain res reg w tr where r: "run_tool_loop (subagent_config env (sy_manager sy)) [text_message ''system'' spawn_prompt, text_message ''user'' (sa_Task t)]
          (sa_OriginChannel t) (sa_OriginChatID t) (sg_tools (sy_manager sy), sy_world sy) = (res, (reg, w), tr)"
    by (metis prod.collapse)
  obtain status result report where o: "task_outcome t (th_ctx th \<in> sy_canceled sy) res = (status, result, report)"
    by (metis prod_cases3)
  have a: "finish_task env th (anonymous sy) =
      (anonymous sy)\<lparr>sy_manager := put_task (anonymous_task t\<lparr>sa_Status := status, sa_Result := result\<rparr>) ((sy_manager (anonymous sy))\<lparr>sg_tools := reg\<rparr>),
        sy_threads := removeAll th (sy_threads sy),
        sy_delivered := sy_delivered sy @ (if th_callback th then [(th_ID th, report)] else []), sy_world := w\<rparr>"
    by (simp add: finish_task_def Let_def assms r anonymous_outcome o)
  have b: "finish_task env th sy =
      sy\<lparr>sy_manager := put_task (t\<lparr>sa_Status := status, sa_Result := result\<rparr>) ((sy_manager sy)\<lparr>sg_tools := reg\<rparr>),
        sy_threads := removeAll th (sy_threads sy),
        sy_delivered := sy_delivered sy @ (if th_callback th then [(th_ID th, report)] else []), sy_world := w\<rparr>"
    by (simp add: finish_task_def Let_def assms r o)
  show ?thesis
    unfolding a b
    by (rule subagent_system.equality; simp add: anonymous_def put_task_def anonymous_update anonymous_task_updates)
qed

lemma anonymous_do:
  assumes "tasks_ok sy" "threads_ok sy"
  shows "subagent_do env (anonymous_event e) (anonymous sy) = map_option anonymous (subagent_do env e sy)"
proof (cases e)
  case (Spawned ctx task label agentID channel chatID callback now)
  then show ?thesis by (simp add: spawn_def Let_def put_task_def anonymous_def anonymous_update)
next
  case (Begins n now)
  show ?thesis
  proof (cases "n < length (sy_threads sy) \<and> \<not> th_begun (sy_threads sy ! n)")
    case True
    then obtain t where "sy_task sy (th_ID (sy_threads sy ! n)) = Some t" using running_thread [OF assms] by blast
    from anonymous_begin [OF this] True Begins show ?thesis by simp
  qed (use Begins in auto)
next
  case (Finishes n)
  show ?thesis
  proof (cases "n < length (sy_threads sy) \<and> th_begun (sy_threads sy ! n)")
    case True
    then obtain t where "sy_task sy (th_ID (sy_threads sy ! n)) = Some t" using running_thread [OF assms] by blast
    from anonymous_finish [OF this] True Finishes show ?thesis by simp
  qed (use Finishes in auto)
next
  case (ContextEnds ctx)
  then show ?thesis by (simp add: anonymous_def)
qed

lemma anonymous_run:
  "tasks_ok sy \<Longrightarrow> threads_ok sy \<Longrightarrow>
   subagent_run env (map anonymous_event es) (anonymous sy) = map_option anonymous (subagent_run env es sy)"
proof (induction es arbitrary: sy)
  case (Cons e es)
  note one = anonymous_do [OF Cons.prems, of env e]
  show ?case
  proof (cases "subagent_do env e sy")
    case (Some sy1)
    with one Cons.IH subagent_do_ok [OF Some Cons.prems] show ?thesis by simp
  qed (use one in simp)
qed simp

text \<open>
  The agent a task names makes no difference: it is checked against the allow-list when the task is spawned and
  then only stored. A run with all names of agents erased is the same run, with the same requests, results and reports.
\<close>

theorem agent_id_is_ignored:
  "subagent_run env (map anonymous_event es) (new_subagent_system (new_subagent_manager model) w) =
   map_option anonymous (subagent_run env es (new_subagent_system (new_subagent_manager model) w))"
proof -
  have "anonymous (new_subagent_system (new_subagent_manager model) w) = new_subagent_system (new_subagent_manager model) w"
    by (simp add: anonymous_def new_subagent_system_def new_subagent_manager_def)
  with anonymous_run [OF new_system_ok] show ?thesis by metis
qed

section \<open>The tools and the way back\<close>

text \<open>
  The spawning tool answers with an error, and changes nothing, unless there is a task that is not blank, the named agent
  is allowed and there is a manager; then one thread is added, in the chat of the caller.
\<close>

theorem spawn_execute_branches:
  "(if (\<exists>task. arg ''task'' = Some task \<and> trim_space task \<noteq> []) \<and>
       (arg ''agent_id'' = None \<or> arg ''agent_id'' = Some [] \<or> check = None \<or> the check (the (arg ''agent_id''))) \<and> sy \<noteq> None
    then \<not> res_IsError (fst (spawn_execute check ctx arg channel chatID callback now sy)) \<and>
      res_Async (fst (spawn_execute check ctx arg channel chatID callback now sy)) \<and>
      map_option (\<lambda>s. (sg_nextID (sy_manager s), map (\<lambda>th. (th_ID th, th_ctx th, th_callback th)) (sy_threads s)))
        (snd (spawn_execute check ctx arg channel chatID callback now sy)) =
      Some (Suc (sg_nextID (sy_manager (the sy))),
            map (\<lambda>th. (th_ID th, th_ctx th, th_callback th)) (sy_threads (the sy)) @
              [(subagent_id (sg_nextID (sy_manager (the sy))), ctx, callback)])
    else res_IsError (fst (spawn_execute check ctx arg channel chatID callback now sy)) \<and>
      snd (spawn_execute check ctx arg channel chatID callback now sy) = sy)"
  by (cases "arg ''task''"; cases "arg ''agent_id''"; cases check; cases sy)
    (simp_all add: spawn_execute_def error_result_def async_result_def new_tool_result_def spawn_def Let_def put_task_def)

text \<open>What the waiting tool shows to the user is bounded, whatever the sub-agent answers.\<close>

theorem subagent_text_bounded: "length (res_ForUser (fst (subagent_execute env arg channel chatID mw))) \<le> 503"
proof (cases "arg ''task''")
  case (Some task)
  show ?thesis
  proof (cases mw)
    case (Pair m w)
    show ?thesis
    proof (cases m)
      case (Some sg)
      obtain res reg w' tr where "run_tool_loop (subagent_config env sg)
          [text_message ''system'' ''You are a subagent. Complete the given task independently and provide a clear, concise result.'',
           text_message ''user'' task] (origin_or channel ''cli'') (origin_or chatID ''direct'') (sg_tools sg, w) = (res, (reg, w'), tr)"
        by (metis prod.collapse)
      with \<open>arg ''task'' = Some task\<close> Pair Some show ?thesis
        by (cases res) (auto simp: subagent_execute_def with_error_def error_result_def new_tool_result_def max_user_len_def Let_def)
    qed (simp add: subagent_execute_def Pair \<open>arg ''task'' = Some task\<close> with_error_def error_result_def new_tool_result_def)
  qed
qed (simp add: subagent_execute_def with_error_def error_result_def new_tool_result_def)

text \<open>
  The report of a background task comes back to the chat it was spawned from, but not to its conversation: the
  system message that the callback publishes is run as a turn for that channel and chat, in the main session of the default
  agent, whatever session the task was spawned in.
\<close>

theorem report_comes_back:
  assumes "channel \<noteq> []" "CHR '':'' \<notin> set channel" "\<not> internal_channel channel"
    and "default_agent al = Some key" "al_agents al key = Some ag"
    and "msg \<in> set (snd (async_callback channel chatID tool r))"
  shows "\<exists>opts. process_system_message al msg ls = run_turn al key ag opts ls \<and> po_Channel opts = channel \<and>
    po_ChatID opts = chatID \<and> po_SessionKey opts = build_agent_main_session_key key \<and>
    po_UserMessage opts = ''[System: async:'' @ tool @ ''] '' @ content_for_llm r"
proof -
  from assms(6) have m: "msg = (direct_message (content_for_llm r) [] ''system'' (channel @ '':'' @ chatID))\<lparr>im_SenderID := ''async:'' @ tool\<rparr>"
    by (simp add: async_callback_def split: if_splits)
  have o: "system_origin (channel @ '':'' @ chatID) = (channel, chatID)"
    using assms(1,2) by (simp add: system_origin_def index_char_append)
  let ?opts = "\<lparr>po_SessionKey = build_agent_main_session_key key, po_Channel = channel, po_ChatID = chatID,
      po_UserMessage = ''[System: async:'' @ tool @ ''] '' @ content_for_llm r, po_Media = [],
      po_DefaultResponse = ''Background task completed.'', po_EnableSummary = False, po_SendResponse = True, po_NoHistory = False\<rparr>"
  have "process_system_message al msg ls = run_turn al key ag ?opts ls"
    using o by (simp add: process_system_message_def m direct_message_def assms(3-5))
  then show ?thesis by (intro exI [of _ ?opts]) simp
qed

section \<open>Witnesses\<close>

text \<open>A model that answers at once, and one that only asks for tools.\<close>

definition demo_sub_env :: "(nat, unit, unit, unit) subagent_env" where
  "demo_sub_env =
     \<lparr>se_Chat = (\<lambda>m opts msgs defs w. (Inr \<lparr>resp_Content = ''done'', resp_ReasoningContent = [], resp_ToolCalls = [], resp_FinishReason = []\<rparr>, w)),
      se_Run = (\<lambda>t a x c i st. (new_tool_result ''ok'', st)), se_Sched = (\<lambda>n. [0..<n]), se_Encode = (\<lambda>_. ''{}''), se_Decode = (\<lambda>_. None)\<rparr>"

definition calling_sub_env :: "(nat, unit, unit, unit) subagent_env" where
  "calling_sub_env = demo_sub_env
     \<lparr>se_Chat := (\<lambda>m opts msgs defs w. (Inr \<lparr>resp_Content = [], resp_ReasoningContent = [],
        resp_ToolCalls = [\<lparr>tc_ID = ''1'', tc_Type = ''function'', tc_Function = None, tc_Name = ''ls'',
                           tc_Arguments = None, tc_ThoughtSignature = [], tc_ExtraContent = None\<rparr>], resp_FinishReason = []\<rparr>, w))\<rparr>"

abbreviation demo_subagents :: "(unit, unit, unit) subagent_system" where
  "demo_subagents \<equiv> new_subagent_system (new_subagent_manager ''m'') ()"

definition two_spawns :: "subagent_event list" where
  "two_spawns =
     [Spawned 0 ''sum up'' ''s'' [] ''irc'' ''u'' True 1, Spawned 1 ''look'' [] [] ''irc'' ''u'' True 2, ContextEnds 1,
      Begins 0 3, Begins 1 4, Finishes 0]"

lemma demo_loop_done:
  assumes "0 < sg_maxIterations sg"
  shows "run_tool_loop (subagent_config demo_sub_env sg) m c k (reg, w) =
    (Inr (''done'', 1), (reg, w), [Request m (to_provider_defs reg)])"
proof -
  obtain n where "nat (sg_maxIterations sg) = Suc n" using assms by (metis gr0_implies_Suc zero_less_nat_eq)
  then show ?thesis by (simp add: run_tool_loop_def subagent_config_def demo_sub_env_def)
qed

text \<open>The first task is completed, the second one canceled before it begins.\<close>

lemma two_spawns_run:
  "\<exists>sy. subagent_run demo_sub_env two_spawns demo_subagents = Some sy \<and>
     map_option sa_Status (sy_task sy (subagent_id 1)) = Some ''completed'' \<and>
     map_option (\<lambda>t. (sa_Status t, ended_early t)) (sy_task sy (subagent_id 2)) = Some (''canceled'', True) \<and>
     sy_threads sy = [] \<and> map fst (sy_delivered sy) = [subagent_id 1]"
  by (simp add: two_spawns_def new_subagent_system_def new_subagent_manager_def spawn_def Let_def begin_task_def put_task_def
      finish_task_def demo_loop_done task_outcome_def ended_early_def)

theorem subagent_tasks_sound_witness:
  "\<exists>sy. subagent_run demo_sub_env two_spawns demo_subagents = Some sy \<and> distinct (map fst (sy_delivered sy)) \<and>
     map_option sa_ID (sy_task sy (subagent_id 2)) = Some (subagent_id 2)"
proof -
  obtain sy where sy: "subagent_run demo_sub_env two_spawns demo_subagents = Some sy"
      "map_option (\<lambda>t. (sa_Status t, ended_early t)) (sy_task sy (subagent_id 2)) = Some (''canceled'', True)"
    using two_spawns_run by blast
  from subagent_tasks_sound [OF sy(1)] sy show ?thesis by auto
qed

theorem ended_tasks_reported_witness:
  "\<exists>sy. subagent_run demo_sub_env two_spawns demo_subagents = Some sy \<and> subagent_id 2 \<notin> fst ` set (sy_delivered sy)"
proof -
  obtain sy where sy: "subagent_run demo_sub_env two_spawns demo_subagents = Some sy"
      "map_option (\<lambda>t. (sa_Status t, ended_early t)) (sy_task sy (subagent_id 2)) = Some (''canceled'', True)"
    using two_spawns_run by blast
  then obtain t where t: "sy_task sy (subagent_id 2) = Some t" "sa_Status t \<noteq> ''running''" "ended_early t" by auto
  have "list_all wants_report two_spawns" by (simp add: two_spawns_def)
  from ended_tasks_reported [OF sy(1) this t(1,2)] sy(1) t(3) show ?thesis by auto
qed

theorem exhausted_task_completes_witness:
  "map (\<lambda>(i, r). res_IsError r) (sy_delivered (finish_task calling_sub_env
     \<lparr>th_ID = subagent_id 1, th_ctx = 0, th_callback = True, th_begun = True\<rparr>
     (snd (spawn 0 ''sum up'' [] [] ''irc'' ''u'' True 1 demo_subagents)))) = [False]"
proof -
  let ?th = "\<lparr>th_ID = subagent_id 1, th_ctx = 0, th_callback = True, th_begun = True\<rparr>"
  let ?sy = "snd (spawn 0 ''sum up'' [] [] ''irc'' ''u'' True 1 demo_subagents)"
  have a: "always_calls calling_sub_env" by (simp add: always_calls_def calling_sub_env_def)
  obtain t where t: "sy_task ?sy (th_ID ?th) = Some t" "sa_ID t = th_ID ?th"
    by (simp add: spawn_def Let_def new_subagent_system_def new_subagent_manager_def put_task_def)
  have "sy_delivered ?sy = []" by (simp add: spawn_def Let_def new_subagent_system_def)
  with exhausted_task_completes [OF a t] show ?thesis by auto
qed

theorem report_comes_back_witness:
  "\<exists>opts. process_system_message demo_agent_loop
       ((direct_message ''done'' [] ''system'' ''irc:u'')\<lparr>im_SenderID := ''async:spawn''\<rparr>) demo_loop_state =
     run_turn demo_agent_loop ''main'' demo_loop_agent opts demo_loop_state \<and> po_Channel opts = ''irc'' \<and> po_ChatID opts = ''u''"
proof -
  let ?msg = "(direct_message ''done'' [] ''system'' ''irc:u'')\<lparr>im_SenderID := ''async:spawn''\<rparr>"
  have "?msg \<in> set (snd (async_callback ''irc'' ''u'' ''spawn'' (new_tool_result ''done'')))"
    by (simp add: async_callback_def content_for_llm_def new_tool_result_def)
  moreover have "\<not> internal_channel ''irc''" by (simp add: internal_channel_def)
  moreover have "default_agent demo_agent_loop = Some ''main''" "al_agents demo_agent_loop ''main'' = Some demo_loop_agent"
    by (simp_all add: default_agent_def demo_agent_loop_def)
  ultimately show ?thesis
    using report_comes_back [of "''irc''" demo_agent_loop "''main''" demo_loop_agent ?msg "''u''" "''spawn''" "new_tool_result ''done''" demo_loop_state]
    by auto
qed

end
