(* ===== verification/Cron_Tool.thy ===== *)
theory Cron_Tool imports Cron_Service Dispatch Exec_Guard begin

text \<open>
  The tool that schedules jobs, \<open>pkg/tools/cron.go\<close>, and the callback with which the gateway runs them
  (\<open>setupCronTool\<close> of \<open>cmd/nookclaw/internal/gateway/helpers.go\<close>): the scheduler of theory \<open>Cron_Service\<close>, the agent loop of
  theory \<open>Dispatch\<close> and the guarded shell of theory \<open>Exec_Guard\<close> put together. The clock readings of a call are
  arguments; contents are UTF-8.
\<close>

section \<open>Truncation\<close>

text \<open>\<open>utils.Truncate\<close>; \<open>off\<close> is the global switch that disables it.\<close>

definition truncate_runes :: "bool \<Rightarrow> gostr \<Rightarrow> int \<Rightarrow> gostr" where
  "truncate_runes off s maxLen =
     (if off then s
      else if maxLen \<le> 0 then []
      else if int (rune_count s) \<le> maxLen then s
      else if maxLen \<le> 3 then take_runes (nat maxLen) s
      else take_runes (nat (maxLen - 3)) s @ ''...'')"

section \<open>The tool\<close>

text \<open>The arguments of a call, by the type a value is asserted to have.\<close>

record cron_args =
  ca_string :: "gostr \<Rightarrow> gostr option"
  ca_float :: "gostr \<Rightarrow> rat option"
  ca_bool :: "gostr \<Rightarrow> bool option"

text \<open>The conversion \<open>int64(f)\<close> of a positive \<open>float64\<close> on amd64: what does not fit becomes the least integer.\<close>

definition float_seconds :: "rat \<Rightarrow> int" where
  "float_seconds v = (if \<lfloor>v\<rfloor> \<ge> 2 ^ 63 then - (2 ^ 63) else \<lfloor>v\<rfloor>)"

definition positive_arg :: "cron_args \<Rightarrow> gostr \<Rightarrow> rat option" where
  "positive_arg args key = (case ca_float args key of Some v \<Rightarrow> if v > 0 then Some v else None | None \<Rightarrow> None)"

text \<open>The schedule of a call: one time, an interval, or an expression, in this order of priority.\<close>

definition cron_schedule_of :: "int \<Rightarrow> cron_args \<Rightarrow> cron_schedule option" where
  "cron_schedule_of now args =
     (let s = \<lparr>sch_Kind = [], sch_AtMS = None, sch_EveryMS = None, sch_Expr = [], sch_TZ = []\<rparr> in
      case positive_arg args ''at_seconds'' of
        Some v \<Rightarrow> Some (s\<lparr>sch_Kind := ''at'', sch_AtMS := Some (int64 (now + int64 (float_seconds v * 1000)))\<rparr>)
      | None \<Rightarrow>
          (case positive_arg args ''every_seconds'' of
             Some v \<Rightarrow> Some (s\<lparr>sch_Kind := ''every'', sch_EveryMS := Some (int64 (float_seconds v * 1000))\<rparr>)
           | None \<Rightarrow>
               (case ca_string args ''cron_expr'' of
                  Some e \<Rightarrow> if e \<noteq> [] then Some (s\<lparr>sch_Kind := ''cron'', sch_Expr := e\<rparr>) else None
                | None \<Rightarrow> None)))"

text \<open>What a call of the scheduler needs besides its arguments: the clock, a new identifier, the switch of truncation.\<close>

record cron_call =
  cc_now :: int
  cc_added :: int
  cc_updated :: int
  cc_id :: gostr
  cc_off :: bool

definition string_or :: "gostr option \<Rightarrow> gostr" where
  "string_or x = (case x of None \<Rightarrow> [] | Some s \<Rightarrow> s)"

definition cron_add ::
  "(gostr \<Rightarrow> int \<Rightarrow> int option) \<Rightarrow> cron_call \<Rightarrow> gostr \<Rightarrow> gostr \<Rightarrow> cron_args \<Rightarrow> cron_service \<times> cron_disk \<Rightarrow>
   tool_result \<times> cron_service \<times> cron_disk" where
  "cron_add next_tick cc channel chatID args st =
     (if channel = [] \<or> chatID = []
      then (error_result ''no session context (channel/chat_id not set). Use this tool in an active conversation.'', st)
      else
        let message = string_or (ca_string args ''message'') in
        if message = [] then (error_result ''message is required for add'', st)
        else (case cron_schedule_of (cc_now cc) args of
                None \<Rightarrow> (error_result ''one of at_seconds, every_seconds, or cron_expr is required'', st)
              | Some schedule \<Rightarrow>
                  let command = string_or (ca_string args ''command'');
                      deliver = (command = [] \<and> ca_bool args ''deliver'' \<noteq> Some False) in
                  if command \<noteq> [] \<and> \<not> internal_channel channel
                  then (error_result ''scheduling command execution is restricted to internal channels'', st)
                  else if command \<noteq> [] \<and> ca_bool args ''command_confirm'' \<noteq> Some True
                  then (error_result ''command_confirm=true is required to schedule command execution'', st)
                  else
                    (case add_job (new_job next_tick (cc_added cc) (cc_id cc) (truncate_runes (cc_off cc) message 30)
                                     schedule message deliver channel chatID) st of
                       (None, st1) \<Rightarrow> (error_result ''Error adding job'', st1)
                     | (Some job, st1) \<Rightarrow>
                         (silent_result (''Cron job added: '' @ cj_Name job @ '' (id: '' @ cj_ID job @ '')''),
                          if command \<noteq> []
                          then snd (update_job (cc_updated cc) (job\<lparr>cj_Payload := (cj_Payload job)\<lparr>pl_Command := command\<rparr>\<rparr>) st1)
                          else st1))))"

definition schedule_info :: "cron_schedule \<Rightarrow> gostr" where
  "schedule_info s =
     (if sch_Kind s = ''every'' \<and> sch_EveryMS s \<noteq> None
      then ''every '' @ (let n = the (sch_EveryMS s) sdiv 1000 in if n < 0 then ''-'' @ show_nat (nat (- n)) else show_nat (nat n)) @ ''s''
      else if sch_Kind s = ''cron'' then sch_Expr s
      else if sch_Kind s = ''at'' then ''one-time'' else ''unknown'')"

definition cron_list :: "cron_service \<Rightarrow> tool_result" where
  "cron_list cs =
     (let jobs = list_jobs False cs in
      if jobs = [] then silent_result ''No scheduled jobs''
      else silent_result (''Scheduled jobs:'' @ nl @
             concat (map (\<lambda>j. ''- '' @ cj_Name j @ '' (id: '' @ cj_ID j @ '', '' @ schedule_info (cj_Schedule j) @ '')'' @ nl) jobs)))"

definition cron_remove :: "cron_args \<Rightarrow> cron_service \<times> cron_disk \<Rightarrow> tool_result \<times> cron_service \<times> cron_disk" where
  "cron_remove args st =
     (let i = string_or (ca_string args ''job_id'') in
      if i = [] then (error_result ''job_id is required for remove'', st)
      else (case remove_job i st of
              (True, st') \<Rightarrow> (silent_result (''Cron job removed: '' @ i), st')
            | (False, st') \<Rightarrow> (error_result (''Job '' @ i @ '' not found''), st')))"

definition cron_enable ::
  "(gostr \<Rightarrow> int \<Rightarrow> int option) \<Rightarrow> int \<Rightarrow> cron_args \<Rightarrow> bool \<Rightarrow> cron_service \<times> cron_disk \<Rightarrow> tool_result \<times> cron_service \<times> cron_disk" where
  "cron_enable next_tick now args enable st =
     (let i = string_or (ca_string args ''job_id'') in
      if i = [] then (error_result ''job_id is required for enable/disable'', st)
      else (case enable_job next_tick now i enable st of
              (None, st') \<Rightarrow> (error_result (''Job '' @ i @ '' not found''), st')
            | (Some job, st') \<Rightarrow>
                (silent_result (''Cron job '' @ [CHR 0x27] @ cj_Name job @ [CHR 0x27] @ '' '' @ (if enable then ''enabled'' else ''disabled'')), st')))"

definition cron_tool_execute ::
  "(gostr \<Rightarrow> int \<Rightarrow> int option) \<Rightarrow> cron_call \<Rightarrow> gostr \<Rightarrow> gostr \<Rightarrow> cron_args \<Rightarrow> cron_service \<times> cron_disk \<Rightarrow>
   tool_result \<times> cron_service \<times> cron_disk" where
  "cron_tool_execute next_tick cc channel chatID args st =
     (case ca_string args ''action'' of
        None \<Rightarrow> (error_result ''action is required'', st)
      | Some action \<Rightarrow>
          if action = ''add'' then cron_add next_tick cc channel chatID args st
          else if action = ''list'' then (cron_list (fst st), st)
          else if action = ''remove'' then cron_remove args st
          else if action = ''enable'' then cron_enable next_tick (cc_added cc) args True st
          else if action = ''disable'' then cron_enable next_tick (cc_added cc) args False st
          else (error_result (''unknown action: '' @ action), st))"

section \<open>Running a job\<close>

text \<open>
  The shell of the tool and the files it sees: the tool, the working directory of the process, the files at both looks, and what
  runs a command. The context of a job carries no channel, so that the argument decides; \<open>sh_text\<close> gives the texts of errors.
\<close>

record cron_shell =
  sh_tool :: exec_tool
  sh_pwd :: gostr
  sh_tree :: tree
  sh_tree' :: tree
  sh_run :: "gostr \<Rightarrow> gostr \<Rightarrow> proc_result"
  sh_text :: "exec_reply \<Rightarrow> gostr"

definition shell_args :: "gostr \<Rightarrow> gostr \<Rightarrow> gostr \<Rightarrow> json_args" where
  "shell_args command channel chatID =
     [''command'' \<mapsto> JString command, ''__channel'' \<mapsto> JString channel, ''__chat_id'' \<mapsto> JString chatID]"

definition reply_text :: "cron_shell \<Rightarrow> exec_reply \<Rightarrow> bool \<times> gostr" where
  "reply_text sh r = (case r of Ran t err \<Rightarrow> (err, t) | _ \<Rightarrow> (True, sh_text sh r))"

record ('v, 'p, 's, 'x) job_world =
  jw_loop :: "('v, 'p, 's, 'x) loop_state"
  jw_out :: "(gostr \<times> gostr \<times> gostr) list"
  jw_ran :: "(gostr \<times> gostr) list"

text \<open>\<open>ExecuteJob\<close>: its result, and the world, where messages are published and commands are run.\<close>

definition cron_execute_job ::
  "('v, 'p, 's, 'x) agent_loop \<Rightarrow> cron_shell \<Rightarrow> cron_job \<Rightarrow> ('v, 'p, 's, 'x) job_world \<Rightarrow> gostr \<times> ('v, 'p, 's, 'x) job_world" where
  "cron_execute_job al sh job w =
     (let p = cj_Payload job;
          channel = (if pl_Channel p = [] then ''cli'' else pl_Channel p);
          chatID = (if pl_To p = [] then ''direct'' else pl_To p) in
      if pl_Command p \<noteq> [] then
        (case exec_execute (sh_tool sh) (sh_pwd sh) [] (sh_tree sh) (sh_tree' sh) (shell_args (pl_Command p) channel chatID) (sh_run sh) of
           (r, started) \<Rightarrow>
             (case reply_text sh r of
                (err, t) \<Rightarrow>
                  let output = (if err then ''Error executing scheduled command: '' @ t
                                else ''Scheduled command '' @ [CHR 0x27] @ pl_Command p @ [CHR 0x27] @ '' executed:'' @ nl @ t)
                  in (''ok'', w\<lparr>jw_out := jw_out w @ [(channel, chatID, output)],
                              jw_ran := jw_ran w @ (case started of None \<Rightarrow> [] | Some x \<Rightarrow> [x])\<rparr>)))
      else if pl_Deliver p then (''ok'', w\<lparr>jw_out := jw_out w @ [(channel, chatID, pl_Message p)]\<rparr>)
      else (case process_direct al (pl_Message p) (''cron-'' @ cj_ID job) channel chatID (jw_loop w) of
              (Inl e, ls) \<Rightarrow> (''Error: '' @ e, w\<lparr>jw_loop := ls\<rparr>)
            | (Inr response, ls) \<Rightarrow> (''ok'', w\<lparr>jw_loop := ls\<rparr>)))"

text \<open>
  The callback that the gateway sets: it never reports an error. What the turn of a job or others do to the scheduler
  meanwhile is an argument.
\<close>

definition cron_on_job ::
  "('v, 'p, 's, 'x) agent_loop \<Rightarrow> cron_shell \<Rightarrow> (cron_job \<Rightarrow> cron_service \<times> cron_disk \<Rightarrow> cron_service \<times> cron_disk) \<Rightarrow>
   ('v, 'p, 's, 'x) job_world Cron_Service.handler" where
  "cron_on_job al sh meanwhile job st =
     (case st of (w, cs, dk) \<Rightarrow> (None, snd (cron_execute_job al sh job w), meanwhile job (cs, dk)))"

section \<open>Scheduling\<close>

declare show_nat.simps [simp del]

text \<open>What a successful \<open>add\<close> does, and when it succeeds.\<close>

definition new_payload_job :: "(gostr \<Rightarrow> int \<Rightarrow> int option) \<Rightarrow> cron_call \<Rightarrow> gostr \<Rightarrow> gostr \<Rightarrow> cron_args \<Rightarrow> cron_schedule \<Rightarrow> cron_job" where
  "new_payload_job next_tick cc channel chatID args schedule =
     new_job next_tick (cc_added cc) (cc_id cc) (truncate_runes (cc_off cc) (string_or (ca_string args ''message'')) 30) schedule
       (string_or (ca_string args ''message''))
       (string_or (ca_string args ''command'') = [] \<and> ca_bool args ''deliver'' \<noteq> Some False) channel chatID"

definition may_add :: "gostr \<Rightarrow> gostr \<Rightarrow> cron_args \<Rightarrow> bool" where
  "may_add channel chatID args \<longleftrightarrow>
     channel \<noteq> [] \<and> chatID \<noteq> [] \<and> string_or (ca_string args ''message'') \<noteq> [] \<and>
     (string_or (ca_string args ''command'') = [] \<or>
      internal_channel channel \<and> ca_bool args ''command_confirm'' = Some True)"

lemma cron_add_cases:
  "cron_add next_tick cc channel chatID args st =
     (if may_add channel chatID args \<and> cron_schedule_of (cc_now cc) args \<noteq> None
      then let job = new_payload_job next_tick cc channel chatID args (the (cron_schedule_of (cc_now cc) args)) in
           (case add_job job st of
              (None, st1) \<Rightarrow> (error_result ''Error adding job'', st1)
            | (Some j, st1) \<Rightarrow>
                (silent_result (''Cron job added: '' @ cj_Name job @ '' (id: '' @ cj_ID job @ '')''),
                 if string_or (ca_string args ''command'') \<noteq> []
                 then snd (update_job (cc_updated cc) (job\<lparr>cj_Payload := (cj_Payload job)\<lparr>pl_Command := string_or (ca_string args ''command'')\<rparr>\<rparr>) st1)
                 else st1))
      else (fst (cron_add next_tick cc channel chatID args st), st))"
proof (cases "may_add channel chatID args \<and> cron_schedule_of (cc_now cc) args \<noteq> None")
  case True
  then obtain s where s: "cron_schedule_of (cc_now cc) args = Some s" by auto
  obtain cs dk where st: "st = (cs, dk)" by fastforce
  from True s show ?thesis
    by (auto simp: cron_add_def may_add_def new_payload_job_def Let_def st add_job_def split: prod.splits bool.splits)
next
  case False
  then have "snd (cron_add next_tick cc channel chatID args st) = st"
    by (auto simp: cron_add_def may_add_def Let_def split: option.splits)
  with False show ?thesis by (metis prod.collapse)
qed

lemma error_flags [simp]: "res_IsError (error_result m)" "\<not> res_IsError (silent_result m)"
  by (simp_all add: error_result_def silent_result_def new_tool_result_def)

lemma new_payload_job_fields [simp]:
  "cj_Enabled (new_payload_job nt cc channel chatID args s)" "cj_ID (new_payload_job nt cc channel chatID args s) = cc_id cc"
  "cj_Schedule (new_payload_job nt cc channel chatID args s) = s"
  "next_run (new_payload_job nt cc channel chatID args s) = compute_next_run nt s (cc_added cc)"
  "pl_Command (cj_Payload (new_payload_job nt cc channel chatID args s)) = []"
  "pl_Channel (cj_Payload (new_payload_job nt cc channel chatID args s)) = channel"
  "pl_Deliver (cj_Payload (new_payload_job nt cc channel chatID args s)) \<longleftrightarrow>
     string_or (ca_string args ''command'') = [] \<and> ca_bool args ''deliver'' \<noteq> Some False"
  by (simp_all add: new_payload_job_def new_job_def)

lemma set_edit_job: "x \<in> set (edit_job i f js) \<Longrightarrow> x \<in> set js \<or> (\<exists>j \<in> set js. x = f j)"
  by (induction js) (auto split: if_splits)

lemma find_edit_job:
  "find_job i js = Some y \<Longrightarrow> (\<And>j. cj_ID (f j) = cj_ID j) \<Longrightarrow> find_job i (edit_job i f js) = Some (f y)"
  by (induction js) (auto split: if_splits)

text \<open>
  C21 A command gets into the schedule only by a call from an internal channel that confirms it: after any call of
  the tool, every job with a command has the payload of a job that was there before, or the call came from
  an internal channel with \<open>command_confirm\<close>, and the job belongs to that channel and does not deliver its message.
\<close>

theorem commands_need_confirmation:
  assumes "cron_tool_execute next_tick cc channel chatID args st = (r, (cs', dk'))"
    and "job \<in> set (cs_Jobs cs')" "pl_Command (cj_Payload job) \<noteq> []"
  shows "cj_Payload job \<in> cj_Payload ` set (cs_Jobs (fst st)) \<or>
    internal_channel channel \<and> ca_bool args ''command_confirm'' = Some True \<and>
    ca_string args ''command'' = Some (pl_Command (cj_Payload job)) \<and> pl_Channel (cj_Payload job) = channel \<and>
    \<not> pl_Deliver (cj_Payload job)"
proof -
  obtain cs dk where st: "st = (cs, dk)" by fastforce
  have old: "cj_Payload job \<in> cj_Payload ` set (cs_Jobs cs)" if "job \<in> set (cs_Jobs cs)" using that by simp
  have remove: "cj_Payload job \<in> cj_Payload ` set (cs_Jobs cs)" if "cron_remove args st = (r, (cs', dk'))"
    using that assms(2) by (auto simp: cron_remove_def remove_job_def Let_def st split: if_splits prod.splits bool.splits)
  have enable: "cj_Payload job \<in> cj_Payload ` set (cs_Jobs cs)"
    if e: "cron_enable next_tick now args b st = (r, (cs', dk'))" for now b
  proof -
    have "cs' = cs \<or> (\<exists>i upd. cs' = cs\<lparr>cs_Jobs := edit_job i upd (cs_Jobs cs)\<rparr> \<and> (\<forall>j. cj_Payload (upd j) = cj_Payload j))"
      using e by (auto simp: cron_enable_def enable_job_def Let_def st split: if_splits prod.splits option.splits) fastforce+
    then show ?thesis using assms(2) by (auto dest!: set_edit_job)
  qed
  have add: ?thesis if a: "cron_add next_tick cc channel chatID args st = (r, (cs', dk'))"
  proof (cases "may_add channel chatID args \<and> cron_schedule_of (cc_now cc) args \<noteq> None")
    case False
    with a st cron_add_cases [of next_tick cc channel chatID args st] have "cs' = cs" by (metis Pair_inject)
    with assms(2) st show ?thesis by simp
  next
    case True
    let ?job = "new_payload_job next_tick cc channel chatID args (the (cron_schedule_of (cc_now cc) args))"
    let ?cmd = "string_or (ca_string args ''command'')"
    let ?full = "?job\<lparr>cj_Payload := (cj_Payload ?job)\<lparr>pl_Command := ?cmd\<rparr>\<rparr>"
    from a True have "job \<in> set (cs_Jobs cs) \<or> job = ?job \<or> ?cmd \<noteq> [] \<and> job = ?full\<lparr>cj_UpdatedAtMS := cc_updated cc\<rparr>"
      using assms(2)
      by (subst (asm) cron_add_cases)
        (auto simp: Let_def st add_job_def update_job_def save_store_saved
          dest!: set_edit_job split: prod.splits option.splits bool.splits if_splits)
    then show ?thesis
    proof (elim disjE conjE)
      assume "job \<in> set (cs_Jobs cs)"
      with st show ?thesis by simp
    next
      assume "job = ?job"
      with assms(3) show ?thesis by simp
    next
      assume j: "?cmd \<noteq> []" "job = ?full\<lparr>cj_UpdatedAtMS := cc_updated cc\<rparr>"
      then have "ca_string args ''command'' = Some ?cmd" by (auto simp: string_or_def split: option.splits)
      moreover have "internal_channel channel" "ca_bool args ''command_confirm'' = Some True"
        using True j(1) by (auto simp: may_add_def)
      ultimately show ?thesis using j by simp
    qed
  qed
  from assms(1) consider "cs' = cs" | "cron_add next_tick cc channel chatID args st = (r, (cs', dk'))"
    | "cron_remove args st = (r, (cs', dk'))" | b now where "cron_enable next_tick now args b st = (r, (cs', dk'))"
    unfolding cron_tool_execute_def st by (auto split: option.splits if_splits)
  then show ?thesis
    by cases (use assms(2) st old add remove enable in auto)
qed

text \<open>
  An error of the tool changes nothing, unless it is that the store could not be saved: then the job of \<open>add\<close> stays in
  the memory of the scheduler, although the caller is told that it was not added.
\<close>

theorem tool_error_keeps_jobs:
  assumes "cron_tool_execute next_tick cc channel chatID args st = (r, (cs', dk'))" "res_IsError r"
  shows "(cs', dk') = st \<or>
    \<not> cd_writable (snd st) \<and> dk' = snd st \<and> ca_string args ''action'' = Some ''add'' \<and>
    cs_Jobs cs' = cs_Jobs (fst st) @ [new_payload_job next_tick cc channel chatID args (the (cron_schedule_of (cc_now cc) args))]"
proof -
  obtain cs dk where st: "st = (cs, dk)" by fastforce
  have all: "filter P xs = xs" if "\<not> length (filter P xs) < length xs" for P and xs :: "cron_job list"
    using that by (metis filter_True length_filter_less)
  have remove: "(cs', dk') = st" if "cron_remove args st = (r, (cs', dk'))"
    using that assms(2) by (auto simp: cron_remove_def remove_job_def Let_def st all split: if_splits prod.splits bool.splits)
  have enable: "(cs', dk') = st" if "cron_enable next_tick now args b st = (r, (cs', dk'))" for now b
    using that assms(2) by (auto simp: cron_enable_def enable_job_def Let_def st find_edit_job split: if_splits prod.splits option.splits)
  have add: ?thesis if a: "cron_add next_tick cc channel chatID args st = (r, (cs', dk'))" "ca_string args ''action'' = Some ''add''"
  proof (cases "may_add channel chatID args \<and> cron_schedule_of (cc_now cc) args \<noteq> None")
    case False
    with a(1) cron_add_cases [of next_tick cc channel chatID args st] show ?thesis by (metis Pair_inject)
  next
    case True
    with a assms(2) show ?thesis
      by (subst (asm) cron_add_cases)
        (auto simp: Let_def st add_job_def save_store_def split: if_splits)
  qed
  show ?thesis
    using assms(1,2) add remove enable unfolding cron_tool_execute_def
    by (auto split: option.splits if_splits simp: cron_list_def Let_def)
qed

lemma floor_small: "0 < v \<Longrightarrow> v < 1 \<Longrightarrow> float_seconds v = 0" for v :: rat
proof -
  assume "0 < v" "v < 1"
  then have "\<lfloor>v\<rfloor> = 0" by (simp add: floor_eq_iff)
  then show ?thesis by (simp add: float_seconds_def)
qed

text \<open>
  A part of a second is no schedule: a call with an interval between nought and one second is answered with success,
  but the interval is rounded to nothing and the job, although enabled, has no next run.
\<close>

theorem fraction_never_runs:
  assumes "may_add channel chatID args" "string_or (ca_string args ''command'') = []"
    and "positive_arg args ''at_seconds'' = None" "positive_arg args ''every_seconds'' = Some v" "v < 1"
    and "cd_writable dk" "cron_add next_tick cc channel chatID args (cs, dk) = (r, (cs', dk'))"
  shows "\<not> res_IsError r \<and> (\<exists>job. cs_Jobs cs' = cs_Jobs cs @ [job] \<and> cj_Enabled job \<and> next_run job = None)"
proof -
  have "0 < v" using assms(4) by (auto simp: positive_arg_def split: option.splits if_splits)
  from floor_small [OF this assms(5)]
  obtain s where s: "cron_schedule_of (cc_now cc) args = Some s" "sch_Kind s = ''every''" "sch_EveryMS s = Some 0"
    by (simp add: cron_schedule_of_def assms(3,4) int64_def)
  then have n: "compute_next_run next_tick s now = None" for now by (simp add: compute_next_run_def)
  from assms(7) have "(r, (cs', dk')) = (let job = new_payload_job next_tick cc channel chatID args s in
      (silent_result (''Cron job added: '' @ cj_Name job @ '' (id: '' @ cj_ID job @ '')''),
       cs\<lparr>cs_Jobs := cs_Jobs cs @ [job]\<rparr>, dk\<lparr>cd_file := Saved (cs_Jobs cs @ [job])\<rparr>))"
    by (subst (asm) cron_add_cases) (use assms(1,2,6) s(1) in \<open>simp add: Let_def add_job_def save_store_def\<close>)
  then show ?thesis by (simp add: Let_def n)
qed

section \<open>Running jobs\<close>

text \<open>
  A scheduled command is run only by the shell tool, at most once, and only if the channel of its job may run commands and
  the guard lets it pass in the directory it is run in.
\<close>

theorem scheduled_commands_guarded:
  assumes "cron_execute_job al sh job w = (res, w')" "(command, dir) \<in> set (drop (length (jw_ran w)) (jw_ran w'))"
  shows "jw_ran w' = jw_ran w @ [(command, dir)] \<and> command = pl_Command (cj_Payload job) \<and>
    (et_allowRemote (sh_tool sh) \<or>
     internal_channel (trim_space (if pl_Channel (cj_Payload job) = [] then ''cli'' else pl_Channel (cj_Payload job)))) \<and>
    (\<exists>cwd. guard_command (sh_tool sh) (sh_pwd sh) command cwd = None \<and>
       recheck_cwd (sh_tool sh) (sh_pwd sh) (sh_tree' sh) cwd = Inr dir)"
proof -
  let ?p = "cj_Payload job"
  let ?channel = "if pl_Channel ?p = [] then ''cli'' else pl_Channel ?p"
  let ?chat = "if pl_To ?p = [] then ''direct'' else pl_To ?p"
  obtain r started where e: "exec_execute (sh_tool sh) (sh_pwd sh) [] (sh_tree sh) (sh_tree' sh)
      (shell_args (pl_Command ?p) ?channel ?chat) (sh_run sh) = (r, started)" by fastforce
  have cmd: "pl_Command ?p \<noteq> []"
  proof
    assume "pl_Command ?p = []"
    with assms(1) have "jw_ran w' = jw_ran w"
      by (auto simp: cron_execute_job_def Let_def split: if_splits prod.splits sum.splits)
    with assms(2) show False by simp
  qed
  with assms(1) e have "jw_ran w' = jw_ran w @ (case started of None \<Rightarrow> [] | Some x \<Rightarrow> [x])"
    by (auto simp: cron_execute_job_def Let_def split: prod.splits)
  with assms(2) have started: "started = Some (command, dir)" "jw_ran w' = jw_ran w @ [(command, dir)]"
    by (auto split: option.splits)
  have "exec_channel [] (shell_args (pl_Command ?p) ?channel ?chat) = trim_space ?channel"
    "shell_args (pl_Command ?p) ?channel ?chat ''command'' = Some (JString (pl_Command ?p))"
    by (simp_all add: exec_channel_def shell_args_def)
  with e [unfolded started(1)] have "exec_permitted (sh_tool sh) [] (shell_args (pl_Command ?p) ?channel ?chat)"
      "command = pl_Command ?p"
      "\<exists>cwd. guard_command (sh_tool sh) (sh_pwd sh) command cwd = None \<and> recheck_cwd (sh_tool sh) (sh_pwd sh) (sh_tree' sh) cwd = Inr dir"
    by (auto simp: exec_execute_def split: if_splits sum.splits option.splits)
  with started(2) show ?thesis
    using \<open>exec_channel [] _ = _\<close> by (auto simp: exec_permitted_def)
qed

lemma direct_no_audio: "transcribe_audio al (direct_message content sk channel chatID) ls =
    ((direct_message content sk channel chatID, False), ls)"
  by (simp add: transcribe_audio_def direct_message_def split: option.splits)

text \<open>
  A job does not get a session of its own: the key that is made from its identifier is not one the agent loop
  accepts, so that the job runs in the conversation its channel is routed to, as if no key had been given.
\<close>

theorem cron_session_key_ignored:
  "process_direct al content (''cron-'' @ i) channel chatID ls = process_direct al content [] channel chatID ls"
proof -
  let ?m = "direct_message content (''cron-'' @ i) channel chatID" and ?n = "direct_message content [] channel chatID"
  have same: "im_Channel ?m = im_Channel ?n" "im_SenderID ?m = im_SenderID ?n" "im_ChatID ?m = im_ChatID ?n"
    "im_Content ?m = im_Content ?n" "im_Media ?m = im_Media ?n" by (simp_all add: direct_message_def)
  have route: "resolve_message_route al ?m = resolve_message_route al ?n"
    by (simp add: resolve_message_route_def extract_peer_def extract_parent_peer_def inbound_metadata_def direct_message_def)
  have command: "handle_command al ?m = handle_command al ?n"
    by (intro ext) (simp only: handle_command_def same)
  have key: "resolve_scope_key r (im_SessionKey ?m) = resolve_scope_key r (im_SessionKey ?n)" for r
    by (simp add: resolve_scope_key_def direct_message_def)
  have "process_routed al ?m ls = process_routed al ?n ls"
    by (simp only: process_routed_def same route command key)
  moreover have "process_system_message al ?m ls = process_system_message al ?n ls"
    by (simp only: process_system_message_def same)
  ultimately show ?thesis
    by (simp only: process_direct_def process_message_def direct_no_audio prod.case Let_def same simp_thms if_False)
qed


text \<open>
  C25 A job that fails is recorded as good: the callback of the gateway never returns an error, so that after the run of a job,
  whatever happened in it, its last status is \<open>ok\<close> and there is no last error.
\<close>

theorem failed_jobs_recorded_ok:
  assumes "execute_job_by_id next_tick (Some (cron_on_job al sh meanwhile)) ts i (w, cs, dk) = (w', cs', dk')"
    and "find_job i (cs_Jobs cs) \<noteq> None" "find_job i (cs_Jobs cs') = Some job"
  shows "js_LastStatus (cj_State job) = ''ok'' \<and> js_LastError (cj_State job) = []"
proof -
  from assms(2) obtain j0 where j0: "find_job i (cs_Jobs cs) = Some j0" by auto
  obtain cs1 dk1 where m: "meanwhile j0 (cs, dk) = (cs1, dk1)" by fastforce
  from assms(1) j0 m have f: "finish_job next_tick ts i None (cs1, dk1) = (cs', dk')"
    by (simp add: execute_job_by_id_def cron_on_job_def)
  obtain t0 t1 t2 where ts: "ts = (t0, t1, t2)" by (metis prod_cases3)
  have edit: "find_job i (edit_job i g js) = Some x \<Longrightarrow> (\<And>j. cj_ID (g j) = cj_ID j) \<Longrightarrow> \<exists>j. x = g j" for g js x
    by (induction js) (auto split: if_splits)
  have gone: "find_job i (filter (\<lambda>j. cj_ID j \<noteq> i) js) = None" for js
    by (rule find_job_fresh) auto
  show ?thesis
  proof (cases "find_job i (cs_Jobs cs1)")
    case None
    with f assms(3) show ?thesis by (simp add: finish_job_def ts)
  next
    case (Some j)
    have two: "edit_job i g (edit_job i h js) = edit_job i (g \<circ> h) js" if "\<And>j. cj_ID (h j) = cj_ID j" for g h js
      using that by (induction js) auto
    from f Some have "\<exists>g. cs_Jobs cs' = edit_job i (g \<circ> note_run None t0 t1) (cs_Jobs cs1) \<and>
        (\<forall>j. cj_ID (g j) = cj_ID j \<and> js_LastStatus (cj_State (g j)) = js_LastStatus (cj_State j) \<and>
             js_LastError (cj_State (g j)) = js_LastError (cj_State j)) \<or> find_job i (cs_Jobs cs') = None"
      by (auto simp: finish_job_def ts Let_def two remove_job_def gone split: if_splits)
    with assms(3) obtain g where g: "cs_Jobs cs' = edit_job i (g \<circ> note_run None t0 t1) (cs_Jobs cs1)"
        "\<And>j. cj_ID (g j) = cj_ID j" "\<And>j. js_LastStatus (cj_State (g j)) = js_LastStatus (cj_State j)"
        "\<And>j. js_LastError (cj_State (g j)) = js_LastError (cj_State j)" by auto
    from edit [OF assms(3) [unfolded g(1)]] g(2) obtain y where "job = g (note_run None t0 t1 y)" by auto
    with g(3,4) show ?thesis by (simp add: note_run_def)
  qed
qed

section \<open>Witnesses\<close>

definition demo_cron_args :: "gostr \<Rightarrow> rat \<Rightarrow> cron_args" where
  "demo_cron_args command secs =
     \<lparr>ca_string = [''action'' \<mapsto> ''add'', ''message'' \<mapsto> ''water'', ''command'' \<mapsto> command],
      ca_float = [''every_seconds'' \<mapsto> secs], ca_bool = [''command_confirm'' \<mapsto> True]\<rparr>"

definition demo_call :: cron_call where
  "demo_call = \<lparr>cc_now = 0, cc_added = 1, cc_updated = 2, cc_id = ''j'', cc_off = True\<rparr>"

definition no_jobs :: cron_service where
  "no_jobs = \<lparr>cs_Jobs = [], cs_running = True\<rparr>"

lemma demo_positive: "positive_arg (demo_cron_args c v) ''every_seconds'' = (if v > 0 then Some v else None)"
  "positive_arg (demo_cron_args c v) ''at_seconds'' = None"
  by (simp_all add: positive_arg_def demo_cron_args_def)

lemma demo_schedule: "cron_schedule_of 0 (demo_cron_args c 60) =
    Some \<lparr>sch_Kind = ''every'', sch_AtMS = None, sch_EveryMS = Some 60000, sch_Expr = [], sch_TZ = []\<rparr>"
  by (simp add: cron_schedule_of_def demo_positive float_seconds_def int64_def)

theorem commands_need_confirmation_witness:
  "\<exists>r cs' job. cron_tool_execute (\<lambda>_ _. None) demo_call ''cli'' ''direct'' (demo_cron_args ''df'' 60) (no_jobs, empty_disk) = (r, cs') \<and>
     job \<in> set (cs_Jobs (fst cs')) \<and> pl_Command (cj_Payload job) = ''df'' \<and> internal_channel ''cli''"
proof -
  obtain r cs' dk' where e: "cron_tool_execute (\<lambda>_ _. None) demo_call ''cli'' ''direct'' (demo_cron_args ''df'' 60) (no_jobs, empty_disk) = (r, (cs', dk'))"
    by (metis prod_cases3)
  have "may_add ''cli'' ''direct'' (demo_cron_args ''df'' 60)"
    by (simp add: may_add_def internal_channel_def demo_cron_args_def string_or_def)
  moreover have "cc_now demo_call = 0" by (simp add: demo_call_def)
  moreover have "string_or (ca_string (demo_cron_args ''df'' 60) ''command'') = ''df''" by (simp add: demo_cron_args_def string_or_def)
  moreover have "cron_add (\<lambda>_ _. None) demo_call ''cli'' ''direct'' (demo_cron_args ''df'' 60) (no_jobs, empty_disk) = (r, (cs', dk'))"
    using e by (simp add: cron_tool_execute_def demo_cron_args_def)
  ultimately have "\<exists>job. job \<in> set (cs_Jobs cs') \<and> pl_Command (cj_Payload job) = ''df''"
    by (subst (asm) cron_add_cases)
      (auto simp: Let_def demo_schedule no_jobs_def add_job_def save_store_def update_job_def demo_call_def)
  then obtain job where j: "job \<in> set (cs_Jobs cs')" "pl_Command (cj_Payload job) = ''df''" by blast
  then have "pl_Command (cj_Payload job) \<noteq> []" by simp
  from commands_need_confirmation [OF e j(1) this] have "internal_channel ''cli''" by (simp add: no_jobs_def)
  with e j show ?thesis by auto
qed

theorem tool_error_keeps_jobs_witness:
  "snd (cron_tool_execute (\<lambda>_ _. None) demo_call ''irc'' ''u'' (demo_cron_args ''df'' 60) (no_jobs, empty_disk)) = (no_jobs, empty_disk)"
proof -
  obtain r cs' dk' where e: "cron_tool_execute (\<lambda>_ _. None) demo_call ''irc'' ''u'' (demo_cron_args ''df'' 60) (no_jobs, empty_disk) = (r, (cs', dk'))"
    by (metis prod_cases3)
  then have "res_IsError r"
    by (auto simp: cron_tool_execute_def cron_add_def demo_cron_args_def string_or_def internal_channel_def Let_def
        split: option.splits)
  from tool_error_keeps_jobs [OF e this] e show ?thesis by simp
qed

theorem fraction_never_runs_witness:
  "\<exists>cs' dk' r job. cron_add (\<lambda>_ _. None) demo_call ''irc'' ''u'' (demo_cron_args [] (1/2)) (no_jobs, empty_disk) = (r, (cs', dk')) \<and>
     \<not> res_IsError r \<and> cs_Jobs cs' = [job] \<and> next_run job = None"
proof -
  obtain r cs' dk' where e: "cron_add (\<lambda>_ _. None) demo_call ''irc'' ''u'' (demo_cron_args [] (1/2)) (no_jobs, empty_disk) = (r, (cs', dk'))"
    by (metis prod_cases3)
  have "may_add ''irc'' ''u'' (demo_cron_args [] (1/2))" "string_or (ca_string (demo_cron_args [] (1/2)) ''command'') = []"
    by (simp_all add: may_add_def demo_cron_args_def string_or_def)
  from fraction_never_runs [OF this demo_positive(2), of "1/2" empty_disk, OF _ _ _ e] e show ?thesis
    by (auto simp: demo_positive(1) no_jobs_def)
qed

definition demo_shell :: cron_shell where
  "demo_shell = \<lparr>sh_tool = plain_exec, sh_pwd = ''/'', sh_tree = demo_tree, sh_tree' = demo_tree,
     sh_run = (\<lambda>_ _. Ended ''/w/a'' [] None False), sh_text = (\<lambda>_. ''failed'')\<rparr>"

definition shell_job :: "gostr \<Rightarrow> bool \<Rightarrow> cron_job" where
  "shell_job command deliver =
     (let j = new_job (\<lambda>_ _. None) 0 ''j'' ''n'' every_second ''m'' deliver ''cli'' ''direct''
      in j\<lparr>cj_Payload := (cj_Payload j)\<lparr>pl_Command := command\<rparr>\<rparr>)"

definition demo_world :: "(nat, unit, nat message session_manager, unit) job_world" where
  "demo_world = \<lparr>jw_loop = demo_loop_state, jw_out = [], jw_ran = []\<rparr>"

lemma shell_job_fields [simp]:
  "pl_Command (cj_Payload (shell_job c d)) = c" "pl_Channel (cj_Payload (shell_job c d)) = ''cli''"
  "pl_To (cj_Payload (shell_job c d)) = ''direct''" "pl_Deliver (cj_Payload (shell_job c d)) = d" "cj_ID (shell_job c d) = ''j''"
  by (simp_all add: shell_job_def new_job_def Let_def)

theorem scheduled_commands_guarded_witness:
  "(''ls /w/a'', ''/w'') \<in> set (jw_ran (snd (cron_execute_job demo_agent_loop demo_shell (shell_job ''ls /w/a'' False) demo_world))) \<and>
   internal_channel (trim_space ''cli'')"
proof -
  let ?args = "shell_args ''ls /w/a'' ''cli'' ''direct''"
  have p: "exec_permitted plain_exec [] ?args"
    by (simp add: exec_permitted_def exec_channel_def internal_channel_def shell_args_def trim_space_def trim_left_def trim_right_def
        is_space_def code_def)
  have c: "?args ''command'' = Some (JString ''ls /w/a'')" by (simp add: shell_args_def)
  have d: "exec_cwd plain_exec ''/'' demo_tree ?args = Inr ''/w''" by (simp add: exec_cwd_def shell_args_def plain_exec_def)
  have e: "recheck_cwd plain_exec ''/'' demo_tree ''/w'' = Inr ''/w''" by (simp add: recheck_cwd_def plain_exec_def)
  have x: "exec_execute plain_exec ''/'' [] demo_tree demo_tree ?args (\<lambda>_ _. Ended ''/w/a'' [] None False) =
      (Ran ''/w/a'' False, Some (''ls /w/a'', ''/w''))"
    unfolding exec_execute_def c using p by (simp add: d ls_passes e proc_reply_def process_output_def max_output_def)
  obtain res w' where w: "cron_execute_job demo_agent_loop demo_shell (shell_job ''ls /w/a'' False) demo_world = (res, w')" by fastforce
  with x have "jw_ran w' = [(''ls /w/a'', ''/w'')]"
    by (auto simp: cron_execute_job_def Let_def demo_shell_def demo_world_def reply_text_def)
  then have in_new: "(''ls /w/a'', ''/w'') \<in> set (drop (length (jw_ran demo_world)) (jw_ran w'))" by (simp add: demo_world_def)
  from scheduled_commands_guarded [OF w in_new] w show ?thesis
    by (simp add: demo_shell_def plain_exec_def demo_world_def)
qed


theorem failed_jobs_recorded_ok_witness:
  "js_LastStatus (cj_State (hd (cs_Jobs (fst (snd (execute_job_by_id (\<lambda>_ _. None) (Some (cron_on_job demo_agent_loop demo_shell (\<lambda>_ s. s)))
     (5, 6, 7) ''1'' (demo_world, one_job, empty_disk))))))) = ''ok''"
proof -
  obtain w' cs' dk' where e: "execute_job_by_id (\<lambda>_ _. None) (Some (cron_on_job demo_agent_loop demo_shell (\<lambda>_ s. s)))
     (5, 6, 7) ''1'' (demo_world, one_job, empty_disk) = (w', cs', dk')" by (metis prod_cases3)
  have f: "find_job ''1'' (cs_Jobs one_job) \<noteq> None" by (simp add: ping_fields)
  from e have "\<exists>j. cs_Jobs cs' = [j] \<and> cj_ID j = ''1''"
    by (auto simp: execute_job_by_id_def cron_on_job_def ping_fields finish_job_def Let_def split: prod.splits)
  then obtain j where j: "cs_Jobs cs' = [j]" "cj_ID j = ''1''" by blast
  then have "find_job ''1'' (cs_Jobs cs') = Some j" by simp
  from failed_jobs_recorded_ok [OF e f this] e j(1) show ?thesis by simp
qed

end
