(* ===== verification/Config.thy ===== *)
theory Config imports Prelude "HOL-Library.Word" begin

text \<open>
  The configuration, \<open>pkg/config\<close>: the list of models and the older sections for providers, the conversion of the
  latter into the former (\<open>migration.go\<close>), the look-up of a model with its round robin, and \<open>LoadConfig\<close>.

  A file is the value its JSON text parses to; a member that is missing or null is told from one that is given. The
  overrides by environment variables are those of the package \<open>env\<close>, a parameter. Of the sections that are only read
  elsewhere the state holds nothing.
\<close>

section \<open>Data\<close>

record provider_config =
  pc_APIKey :: gostr
  pc_APIBase :: gostr
  pc_Proxy :: gostr
  pc_RequestTimeout :: int
  pc_AuthMethod :: gostr
  pc_ConnectMode :: gostr

record openai_provider_config = provider_config +
  pc_WebSearch :: bool

record providers_config =
  prv_Anthropic :: provider_config
  prv_OpenAI :: openai_provider_config
  prv_LiteLLM :: provider_config
  prv_OpenRouter :: provider_config
  prv_Groq :: provider_config
  prv_Zhipu :: provider_config
  prv_VLLM :: provider_config
  prv_Gemini :: provider_config
  prv_Nvidia :: provider_config
  prv_Ollama :: provider_config
  prv_Moonshot :: provider_config
  prv_ShengSuanYun :: provider_config
  prv_DeepSeek :: provider_config
  prv_Cerebras :: provider_config
  prv_Vivgrid :: provider_config
  prv_VolcEngine :: provider_config
  prv_GitHubCopilot :: provider_config
  prv_Antigravity :: provider_config
  prv_Qwen :: provider_config
  prv_Mistral :: provider_config
  prv_Avian :: provider_config
  prv_Minimax :: provider_config
  prv_LongCat :: provider_config
  prv_ModelScope :: provider_config

definition unset :: "gostr \<Rightarrow> gostr \<Rightarrow> bool" where
  "unset a b \<longleftrightarrow> a = [] \<and> b = []"

abbreviation no_access :: "'a provider_config_scheme \<Rightarrow> bool" where
  "no_access c \<equiv> unset (pc_APIKey c) (pc_APIBase c)"

definition providers_empty :: "providers_config \<Rightarrow> bool" where
  "providers_empty p \<longleftrightarrow>
     no_access (prv_Anthropic p) \<and>
     no_access (prv_OpenAI p) \<and>
     no_access (prv_LiteLLM p) \<and>
     no_access (prv_OpenRouter p) \<and>
     no_access (prv_Groq p) \<and>
     no_access (prv_Zhipu p) \<and>
     no_access (prv_VLLM p) \<and>
     no_access (prv_Gemini p) \<and>
     no_access (prv_Nvidia p) \<and>
     no_access (prv_Ollama p) \<and>
     no_access (prv_Moonshot p) \<and>
     no_access (prv_ShengSuanYun p) \<and>
     no_access (prv_DeepSeek p) \<and>
     no_access (prv_Cerebras p) \<and>
     no_access (prv_Vivgrid p) \<and>
     no_access (prv_VolcEngine p) \<and>
     no_access (prv_GitHubCopilot p) \<and>
     no_access (prv_Antigravity p) \<and>
     no_access (prv_Qwen p) \<and>
     no_access (prv_Mistral p) \<and>
     no_access (prv_Avian p) \<and>
     no_access (prv_Minimax p) \<and>
     no_access (prv_LongCat p) \<and>
     no_access (prv_ModelScope p)"

record model_entry =
  me_ModelName :: gostr
  me_Model :: gostr
  me_APIBase :: gostr
  me_APIKey :: gostr
  me_Proxy :: gostr
  me_AuthMethod :: gostr
  me_ConnectMode :: gostr
  me_Workspace :: gostr
  me_RPM :: int
  me_MaxTokensField :: gostr
  me_RequestTimeout :: int
  me_ThinkingLevel :: gostr

definition zero_entry :: model_entry where
  "zero_entry =
     \<lparr>me_ModelName = [], me_Model = [], me_APIBase = [], me_APIKey = [], me_Proxy = [], me_AuthMethod = [],
      me_ConnectMode = [], me_Workspace = [], me_RPM = 0, me_MaxTokensField = [], me_RequestTimeout = 0,
      me_ThinkingLevel = []\<rparr>"

datatype entry_error = ModelNameRequired | ModelRequired

definition validate_entry :: "model_entry \<Rightarrow> entry_error option" where
  "validate_entry e =
     (if me_ModelName e = [] then Some ModelNameRequired
      else if me_Model e = [] then Some ModelRequired
      else None)"

text \<open>The configuration, as far as this theory reads or writes it. The first four fields are those of
  \<open>agents.defaults\<close>; the last four belong to the channels Discord and OneBot.\<close>

record config =
  cfg_Workspace :: gostr
  cfg_Provider :: gostr
  cfg_ModelName :: gostr
  cfg_Model :: gostr
  cfg_Providers :: providers_config
  cfg_ModelList :: "model_entry list"
  cfg_DiscordMentionOnly :: bool
  cfg_DiscordGroupMentionOnly :: bool
  cfg_OneBotTriggerPrefix :: "gostr list"
  cfg_OneBotPrefixes :: "gostr list"

definition get_model_name :: "config \<Rightarrow> gostr" where
  "get_model_name c = (if cfg_ModelName c \<noteq> [] then cfg_ModelName c else cfg_Model c)"

definition has_providers_config :: "config \<Rightarrow> bool" where
  "has_providers_config c \<longleftrightarrow> \<not> providers_empty (cfg_Providers c)"

section \<open>Conversion of the providers\<close>

definition build_model_with_protocol :: "gostr \<Rightarrow> gostr \<Rightarrow> gostr" where
  "build_model_with_protocol protocol model =
     (if contains model ''/'' then model else protocol @ ''/'' @ model)"

text \<open>A rule: the names of the provider, the protocol, and the entry built from its section, if that is filled in.\<close>

record migration_rule =
  rule_names :: "gostr list"
  rule_protocol :: gostr
  rule_build :: "providers_config \<Rightarrow> model_entry option"

text \<open>The common form of the rules, and that of the two which copy the method of authentication too.\<close>

definition access_entry :: "gostr \<Rightarrow> gostr \<Rightarrow> 'a provider_config_scheme \<Rightarrow> model_entry option" where
  "access_entry name model c =
     (if no_access c then None
      else Some (zero_entry
        \<lparr>me_ModelName := name, me_Model := model, me_APIKey := pc_APIKey c, me_APIBase := pc_APIBase c,
         me_Proxy := pc_Proxy c, me_RequestTimeout := pc_RequestTimeout c\<rparr>))"

definition auth_entry :: "gostr \<Rightarrow> gostr \<Rightarrow> 'a provider_config_scheme \<Rightarrow> model_entry option" where
  "auth_entry name model c =
     map_option (\<lambda>e. e\<lparr>me_AuthMethod := pc_AuthMethod c\<rparr>) (access_entry name model c)"

definition copilot_entry :: "gostr \<Rightarrow> gostr \<Rightarrow> provider_config \<Rightarrow> model_entry option" where
  "copilot_entry name model c =
     (if pc_APIKey c = [] \<and> pc_APIBase c = [] \<and> pc_ConnectMode c = [] then None
      else Some (zero_entry
        \<lparr>me_ModelName := name, me_Model := model, me_APIBase := pc_APIBase c, me_ConnectMode := pc_ConnectMode c\<rparr>))"

definition antigravity_entry :: "gostr \<Rightarrow> gostr \<Rightarrow> provider_config \<Rightarrow> model_entry option" where
  "antigravity_entry name model c =
     (if pc_APIKey c = [] \<and> pc_AuthMethod c = [] then None
      else Some (zero_entry
        \<lparr>me_ModelName := name, me_Model := model, me_APIKey := pc_APIKey c, me_AuthMethod := pc_AuthMethod c\<rparr>))"

definition rule :: "gostr list \<Rightarrow> gostr \<Rightarrow> (gostr \<Rightarrow> providers_config \<Rightarrow> model_entry option) \<Rightarrow> migration_rule" where
  "rule names protocol build = \<lparr>rule_names = names, rule_protocol = protocol, rule_build = build protocol\<rparr>"

definition migration_rules :: "migration_rule list" where
  "migration_rules =
     [rule [''openai'', ''gpt''] ''openai'' (\<lambda>n p. auth_entry n ''openai/gpt-5.4'' (prv_OpenAI p)),
      rule [''anthropic'', ''claude''] ''anthropic'' (\<lambda>n p. auth_entry n ''anthropic/claude-sonnet-4.6'' (prv_Anthropic p)),
      rule [''litellm''] ''litellm'' (\<lambda>n p. access_entry n ''litellm/auto'' (prv_LiteLLM p)),
      rule [''openrouter''] ''openrouter'' (\<lambda>n p. access_entry n ''openrouter/auto'' (prv_OpenRouter p)),
      rule [''groq''] ''groq'' (\<lambda>n p. access_entry n ''groq/llama-3.1-70b-versatile'' (prv_Groq p)),
      rule [''zhipu'', ''glm''] ''zhipu'' (\<lambda>n p. access_entry n ''zhipu/glm-4'' (prv_Zhipu p)),
      rule [''vllm''] ''vllm'' (\<lambda>n p. access_entry n ''vllm/auto'' (prv_VLLM p)),
      rule [''gemini'', ''google''] ''gemini'' (\<lambda>n p. access_entry n ''gemini/gemini-pro'' (prv_Gemini p)),
      rule [''nvidia''] ''nvidia'' (\<lambda>n p. access_entry n ''nvidia/meta/llama-3.1-8b-instruct'' (prv_Nvidia p)),
      rule [''ollama''] ''ollama'' (\<lambda>n p. access_entry n ''ollama/llama3'' (prv_Ollama p)),
      rule [''moonshot'', ''kimi''] ''moonshot'' (\<lambda>n p. access_entry n ''moonshot/kimi'' (prv_Moonshot p)),
      rule [''shengsuanyun''] ''shengsuanyun'' (\<lambda>n p. access_entry n ''shengsuanyun/auto'' (prv_ShengSuanYun p)),
      rule [''deepseek''] ''deepseek'' (\<lambda>n p. access_entry n ''deepseek/deepseek-chat'' (prv_DeepSeek p)),
      rule [''cerebras''] ''cerebras'' (\<lambda>n p. access_entry n ''cerebras/llama-3.3-70b'' (prv_Cerebras p)),
      rule [''vivgrid''] ''vivgrid'' (\<lambda>n p. access_entry n ''vivgrid/auto'' (prv_Vivgrid p)),
      rule [''volcengine'', ''doubao''] ''volcengine'' (\<lambda>n p. access_entry n ''volcengine/doubao-pro'' (prv_VolcEngine p)),
      rule [''github_copilot'', ''copilot''] ''github-copilot'' (\<lambda>n p. copilot_entry n ''github-copilot/gpt-5.4'' (prv_GitHubCopilot p)),
      rule [''antigravity''] ''antigravity'' (\<lambda>n p. antigravity_entry n ''antigravity/gemini-2.0-flash'' (prv_Antigravity p)),
      rule [''qwen'', ''tongyi''] ''qwen'' (\<lambda>n p. access_entry n ''qwen/qwen-max'' (prv_Qwen p)),
      rule [''mistral''] ''mistral'' (\<lambda>n p. access_entry n ''mistral/mistral-small-latest'' (prv_Mistral p)),
      rule [''avian''] ''avian'' (\<lambda>n p. access_entry n ''avian/deepseek/deepseek-v3.2'' (prv_Avian p)),
      rule [''longcat''] ''longcat'' (\<lambda>n p. access_entry n ''longcat/LongCat-Flash-Thinking'' (prv_LongCat p)),
      rule [''modelscope''] ''modelscope'' (\<lambda>n p. access_entry n ''modelscope/Qwen/Qwen3-235B-A22B-Instruct-2507'' (prv_ModelScope p))]"

text \<open>One turn of the loop over the rules; the flag is \<open>legacyModelNameApplied\<close>.\<close>

definition migrate_step ::
  "providers_config \<Rightarrow> gostr \<Rightarrow> gostr \<Rightarrow> migration_rule \<Rightarrow> bool \<times> model_entry list \<Rightarrow> bool \<times> model_entry list" where
  "migrate_step p userProvider userModel m st =
     (case st of (applied, result) \<Rightarrow>
        case rule_build m p of
          None \<Rightarrow> (applied, result)
        | Some mc \<Rightarrow>
            if userProvider \<in> set (rule_names m) \<and> userModel \<noteq> [] then
              (applied, result @ [mc\<lparr>me_Model := build_model_with_protocol (rule_protocol m) userModel\<rparr>])
            else if userProvider = [] \<and> userModel \<noteq> [] \<and> \<not> applied then
              (True, result @ [mc\<lparr>me_ModelName := userModel,
                                  me_Model := build_model_with_protocol (rule_protocol m) userModel\<rparr>])
            else (applied, result @ [mc]))"

definition convert_providers :: "config \<Rightarrow> model_entry list" where
  "convert_providers c =
     snd (fold (migrate_step (cfg_Providers c) (to_lower (cfg_Provider c)) (get_model_name c))
            migration_rules (False, []))"

section \<open>Looking up a model\<close>

definition find_matches :: "model_entry list \<Rightarrow> gostr \<Rightarrow> model_entry list" where
  "find_matches l name = filter (\<lambda>e. me_ModelName e = name) l"

text \<open>The counter is that of the process, an unsigned integer of 64 bits.\<close>

definition get_model_config ::
  "model_entry list \<Rightarrow> gostr \<Rightarrow> 64 word \<Rightarrow> model_entry option \<times> 64 word" where
  "get_model_config l name counter =
     (let found = find_matches l name in
      if found = [] then (None, counter)
      else if length found = 1 then (Some (found ! 0), counter)
      else (Some (found ! (unat (counter + 1) mod length found)), counter + 1))"

section \<open>Loading\<close>

fun validate_from :: "nat \<Rightarrow> model_entry list \<Rightarrow> (nat \<times> entry_error) option" where
  "validate_from i [] = None"
| "validate_from i (e # es) =
     (case validate_entry e of Some err \<Rightarrow> Some (i, err) | None \<Rightarrow> validate_from (Suc i) es)"

definition validate_model_list :: "config \<Rightarrow> (nat \<times> entry_error) option" where
  "validate_model_list c = validate_from 0 (cfg_ModelList c)"

definition migrate_channel_configs :: "config \<Rightarrow> config" where
  "migrate_channel_configs c =
     (let c1 = (if cfg_DiscordMentionOnly c \<and> \<not> cfg_DiscordGroupMentionOnly c
                then c\<lparr>cfg_DiscordGroupMentionOnly := True\<rparr> else c)
      in if length (cfg_OneBotTriggerPrefix c1) > 0 \<and> length (cfg_OneBotPrefixes c1) = 0
         then c1\<lparr>cfg_OneBotPrefixes := cfg_OneBotTriggerPrefix c1\<rparr> else c1)"

text \<open>The list of \<open>DefaultConfig\<close>, entry by entry: name, model, address, key and method of authentication.\<close>

definition listed :: "gostr \<Rightarrow> gostr \<Rightarrow> gostr \<Rightarrow> gostr \<Rightarrow> gostr \<Rightarrow> model_entry" where
  "listed name model base key auth =
     zero_entry\<lparr>me_ModelName := name, me_Model := model, me_APIBase := base, me_APIKey := key, me_AuthMethod := auth\<rparr>"

definition default_models :: "model_entry list" where
  "default_models =
     [listed ''private-local'' ''ollama/qwen3.5:latest'' ''http://localhost:11434/v1'' ''ollama'' [],
      listed ''glm-4.7'' ''zhipu/glm-4.7'' ''https://open.bigmodel.cn/api/paas/v4'' [] [],
      listed ''gpt-5.4'' ''openai/gpt-5.4'' ''https://api.openai.com/v1'' [] [],
      listed ''claude-sonnet-4.6'' ''anthropic/claude-sonnet-4.6'' ''https://api.anthropic.com/v1'' [] [],
      listed ''deepseek-chat'' ''deepseek/deepseek-chat'' ''https://api.deepseek.com/v1'' [] [],
      listed ''gemini-2.0-flash'' ''gemini/gemini-2.0-flash-exp'' ''https://generativelanguage.googleapis.com/v1beta'' [] [],
      listed ''qwen-plus'' ''qwen/qwen-plus'' ''https://dashscope.aliyuncs.com/compatible-mode/v1'' [] [],
      listed ''moonshot-v1-8k'' ''moonshot/moonshot-v1-8k'' ''https://api.moonshot.cn/v1'' [] [],
      listed ''llama-3.3-70b'' ''groq/llama-3.3-70b-versatile'' ''https://api.groq.com/openai/v1'' [] [],
      listed ''openrouter-auto'' ''openrouter/auto'' ''https://openrouter.ai/api/v1'' [] [],
      listed ''openrouter-gpt-5.4'' ''openrouter/openai/gpt-5.4'' ''https://openrouter.ai/api/v1'' [] [],
      listed ''nemotron-4-340b'' ''nvidia/nemotron-4-340b-instruct'' ''https://integrate.api.nvidia.com/v1'' [] [],
      listed ''cerebras-llama-3.3-70b'' ''cerebras/llama-3.3-70b'' ''https://api.cerebras.ai/v1'' [] [],
      listed ''vivgrid-auto'' ''vivgrid/auto'' ''https://api.vivgrid.com/v1'' [] [],
      listed ''ark-code-latest'' ''volcengine/ark-code-latest'' ''https://ark.cn-beijing.volces.com/api/v3'' [] [],
      listed ''doubao-pro'' ''volcengine/doubao-pro-32k'' ''https://ark.cn-beijing.volces.com/api/v3'' [] [],
      listed ''deepseek-v3'' ''shengsuanyun/deepseek-v3'' ''https://api.shengsuanyun.com/v1'' [] [],
      listed ''gemini-flash'' ''antigravity/gemini-3-flash'' [] [] ''oauth'',
      listed ''copilot-gpt-5.4'' ''github-copilot/gpt-5.4'' ''http://localhost:4321'' [] ''oauth'',
      listed ''llama3'' ''ollama/llama3'' ''http://localhost:11434/v1'' ''ollama'' [],
      listed ''mistral-small'' ''mistral/mistral-small-latest'' ''https://api.mistral.ai/v1'' [] [],
      listed ''deepseek-v3.2'' ''avian/deepseek/deepseek-v3.2'' ''https://api.avian.io/v1'' [] [],
      listed ''kimi-k2.5'' ''avian/moonshotai/kimi-k2.5'' ''https://api.avian.io/v1'' [] [],
      listed ''MiniMax-M2.5'' ''minimax/MiniMax-M2.5'' ''https://api.minimaxi.com/v1'' [] [],
      listed ''LongCat-Flash-Thinking'' ''longcat/LongCat-Flash-Thinking'' ''https://api.longcat.chat/openai'' [] [],
      listed ''modelscope-qwen'' ''modelscope/Qwen/Qwen3-235B-A22B-Instruct-2507'' ''https://api-inference.modelscope.cn/v1'' [] [],
      listed ''local-model'' ''vllm/custom-model'' ''http://localhost:8000/v1'' [] [],
      listed ''azure-gpt5'' ''azure/my-gpt5-deployment'' ''https://your-resource.openai.azure.com'' [] []]"

definition zero_provider :: provider_config where
  "zero_provider =
     \<lparr>pc_APIKey = [], pc_APIBase = [], pc_Proxy = [], pc_RequestTimeout = 0, pc_AuthMethod = [], pc_ConnectMode = []\<rparr>"

definition zero_providers :: providers_config where
  "zero_providers =
     \<lparr>prv_Anthropic = zero_provider,
      prv_OpenAI = provider_config.extend zero_provider (openai_provider_config.fields False),
      prv_LiteLLM = zero_provider,
      prv_OpenRouter = zero_provider,
      prv_Groq = zero_provider,
      prv_Zhipu = zero_provider,
      prv_VLLM = zero_provider,
      prv_Gemini = zero_provider,
      prv_Nvidia = zero_provider,
      prv_Ollama = zero_provider,
      prv_Moonshot = zero_provider,
      prv_ShengSuanYun = zero_provider,
      prv_DeepSeek = zero_provider,
      prv_Cerebras = zero_provider,
      prv_Vivgrid = zero_provider,
      prv_VolcEngine = zero_provider,
      prv_GitHubCopilot = zero_provider,
      prv_Antigravity = zero_provider,
      prv_Qwen = zero_provider,
      prv_Mistral = zero_provider,
      prv_Avian = zero_provider,
      prv_Minimax = zero_provider,
      prv_LongCat = zero_provider,
      prv_ModelScope = zero_provider\<rparr>"

definition default_config :: "gostr \<Rightarrow> config" where
  "default_config workspacePath =
     \<lparr>cfg_Workspace = workspacePath, cfg_Provider = ''ollama'', cfg_ModelName = ''private-local'', cfg_Model = [],
      cfg_Providers = zero_providers, cfg_ModelList = default_models,
      cfg_DiscordMentionOnly = False, cfg_DiscordGroupMentionOnly = False,
      cfg_OneBotTriggerPrefix = [], cfg_OneBotPrefixes = []\<rparr>"

definition zero_config :: config where
  "zero_config =
     \<lparr>cfg_Workspace = [], cfg_Provider = [], cfg_ModelName = [], cfg_Model = [],
      cfg_Providers = zero_providers, cfg_ModelList = [],
      cfg_DiscordMentionOnly = False, cfg_DiscordGroupMentionOnly = False,
      cfg_OneBotTriggerPrefix = [], cfg_OneBotPrefixes = []\<rparr>"

text \<open>A member of a JSON object. Decoding leaves what it does not find as it is, and a null as it is too, except that
  a slice becomes nil. The sections which are zero in the defaults are given decoded.\<close>

datatype 'a json_member = Absent | JsonNull | Given 'a

fun decode_member :: "'a json_member \<Rightarrow> 'a \<Rightarrow> 'a" where
  "decode_member (Given v) old = v"
| "decode_member Absent old = old"
| "decode_member JsonNull old = old"

fun decode_slice :: "'a list json_member \<Rightarrow> 'a list \<Rightarrow> 'a list" where
  "decode_slice (Given v) old = v"
| "decode_slice Absent old = old"
| "decode_slice JsonNull old = []"

record config_file =
  cf_Workspace :: "gostr json_member"
  cf_Provider :: "gostr json_member"
  cf_ModelName :: "gostr json_member"
  cf_Model :: "gostr json_member"
  cf_Providers :: "providers_config json_member"
  cf_ModelList :: "model_entry list json_member"
  cf_DiscordMentionOnly :: "bool json_member"
  cf_DiscordGroupMentionOnly :: "bool json_member"
  cf_OneBotTriggerPrefix :: "gostr list json_member"
  cf_OneBotPrefixes :: "gostr list json_member"

definition unmarshal_config :: "config_file \<Rightarrow> config \<Rightarrow> config" where
  "unmarshal_config f c =
     \<lparr>cfg_Workspace = decode_member (cf_Workspace f) (cfg_Workspace c),
      cfg_Provider = decode_member (cf_Provider f) (cfg_Provider c),
      cfg_ModelName = decode_member (cf_ModelName f) (cfg_ModelName c),
      cfg_Model = decode_member (cf_Model f) (cfg_Model c),
      cfg_Providers = decode_member (cf_Providers f) (cfg_Providers c),
      cfg_ModelList = decode_slice (cf_ModelList f) (cfg_ModelList c),
      cfg_DiscordMentionOnly = decode_member (cf_DiscordMentionOnly f) (cfg_DiscordMentionOnly c),
      cfg_DiscordGroupMentionOnly = decode_member (cf_DiscordGroupMentionOnly f) (cfg_DiscordGroupMentionOnly c),
      cfg_OneBotTriggerPrefix = decode_slice (cf_OneBotTriggerPrefix f) (cfg_OneBotTriggerPrefix c),
      cfg_OneBotPrefixes = decode_slice (cf_OneBotPrefixes f) (cfg_OneBotPrefixes c)\<rparr>"

text \<open>What reading the file and parsing it gives.\<close>

datatype config_read = FileMissing | FileUnreadable | FileMalformed | FileParsed config_file

datatype load_error = CompatibilityFailed | ReadFailed | ParseFailed | EnvironmentFailed | InvalidEntry nat entry_error

text \<open>\<open>prepared\<close> tells whether the environment could be prepared, \<open>env\<close> is \<open>env.Parse\<close>.\<close>

definition load_config ::
  "bool \<Rightarrow> (config \<Rightarrow> config option) \<Rightarrow> gostr \<Rightarrow> config_read \<Rightarrow> load_error + config" where
  "load_config prepared env workspacePath file =
     (if \<not> prepared then Inl CompatibilityFailed
      else case file of
        FileMissing \<Rightarrow> Inr (default_config workspacePath)
      | FileUnreadable \<Rightarrow> Inl ReadFailed
      | FileMalformed \<Rightarrow> Inl ParseFailed
      | FileParsed f \<Rightarrow>
          let tmp = unmarshal_config f zero_config;
              cfg0 = default_config workspacePath;
              cfg1 = (if length (cfg_ModelList tmp) > 0 then cfg0\<lparr>cfg_ModelList := []\<rparr> else cfg0) in
          case env (unmarshal_config f cfg1) of
            None \<Rightarrow> Inl EnvironmentFailed
          | Some cfg2 \<Rightarrow>
              let cfg3 = migrate_channel_configs cfg2;
                  cfg4 = (if length (cfg_ModelList cfg3) = 0 \<and> has_providers_config cfg3
                          then cfg3\<lparr>cfg_ModelList := convert_providers cfg3\<rparr> else cfg3) in
              case validate_model_list cfg4 of
                Some (i, e) \<Rightarrow> Inl (InvalidEntry i e)
              | None \<Rightarrow> Inr cfg4)"

text \<open>What \<open>SaveConfig\<close> writes: members marked \<open>omitempty\<close> are left out when zero, and the providers when nothing in
  them counts as filled in.\<close>

definition omit_empty :: "'a list \<Rightarrow> 'a list json_member" where
  "omit_empty s = (if s = [] then Absent else Given s)"

definition omit_false :: "bool \<Rightarrow> bool json_member" where
  "omit_false b = (if b then Given True else Absent)"

definition marshal_config :: "config \<Rightarrow> config_file" where
  "marshal_config c =
     \<lparr>cf_Workspace = Given (cfg_Workspace c), cf_Provider = Given (cfg_Provider c),
      cf_ModelName = Given (cfg_ModelName c), cf_Model = omit_empty (cfg_Model c),
      cf_Providers = (if providers_empty (cfg_Providers c) then Absent else Given (cfg_Providers c)),
      cf_ModelList = Given (cfg_ModelList c),
      cf_DiscordMentionOnly = Given (cfg_DiscordMentionOnly c),
      cf_DiscordGroupMentionOnly = omit_false (cfg_DiscordGroupMentionOnly c),
      cf_OneBotTriggerPrefix = Given (cfg_OneBotTriggerPrefix c),
      cf_OneBotPrefixes = omit_empty (cfg_OneBotPrefixes c)\<rparr>"

section \<open>Small functions\<close>

text \<open>\<open>expandHome\<close>, with the home directory of the user as an argument.\<close>

definition expand_home :: "gostr \<Rightarrow> gostr \<Rightarrow> gostr" where
  "expand_home home path =
     (case path of
        [] \<Rightarrow> []
      | c # cs \<Rightarrow>
          if c = CHR ''~'' then
            (case cs of d # _ \<Rightarrow> if d = CHR ''/'' then home @ cs else home | [] \<Rightarrow> home)
          else path)"

definition workspace_path :: "gostr \<Rightarrow> config \<Rightarrow> gostr" where
  "workspace_path home c = expand_home home (cfg_Workspace c)"

definition add_key :: "gostr \<Rightarrow> gostr set \<times> gostr list \<Rightarrow> gostr set \<times> gostr list" where
  "add_key k st =
     (case st of (seen, all) \<Rightarrow>
        let t = trim_space k in
        if t \<noteq> [] \<and> t \<notin> seen then (insert t seen, all @ [t]) else (seen, all))"

definition merge_api_keys :: "gostr \<Rightarrow> gostr list \<Rightarrow> gostr list" where
  "merge_api_keys apiKey apiKeys = snd (fold add_key apiKeys (add_key apiKey ({}, [])))"

text \<open>A list in an environment variable: the wide comma counts as a comma.\<close>

fun narrow_commas :: "gostr \<Rightarrow> gostr" where
  "narrow_commas (a # b # c # s) =
     (if a = CHR 0xEF \<and> b = CHR 0xBC \<and> c = CHR 0x8C then CHR '','' # narrow_commas s
      else a # narrow_commas (b # c # s))"
| "narrow_commas s = s"

fun split_commas :: "gostr \<Rightarrow> gostr list" where
  "split_commas [] = [[]]"
| "split_commas (c # s) =
     (if c = CHR '','' then [] # split_commas s
      else case split_commas s of p # ps \<Rightarrow> (c # p) # ps | [] \<Rightarrow> [[c]])"

definition unmarshal_text :: "gostr \<Rightarrow> gostr list" where
  "unmarshal_text text0 =
     (if text0 = [] then []
      else filter (\<lambda>p. p \<noteq> []) (map trim_space (split_commas (narrow_commas text0))))"

text \<open>The key and the address of the first provider that has one, in a fixed order.\<close>

definition get_api_key :: "config \<Rightarrow> gostr" where
  "get_api_key c =
     (let p = cfg_Providers c in
      case List.find (\<lambda>k. k \<noteq> [])
        [pc_APIKey (prv_OpenRouter p), pc_APIKey (prv_Anthropic p), pc_APIKey (prv_OpenAI p), pc_APIKey (prv_Gemini p),
         pc_APIKey (prv_Zhipu p), pc_APIKey (prv_Groq p), pc_APIKey (prv_VLLM p), pc_APIKey (prv_ShengSuanYun p),
         pc_APIKey (prv_Cerebras p)] of
        Some k \<Rightarrow> k
      | None \<Rightarrow> [])"

definition get_api_base :: "config \<Rightarrow> gostr" where
  "get_api_base c =
     (let p = cfg_Providers c in
      if pc_APIKey (prv_OpenRouter p) \<noteq> [] then
        (if pc_APIBase (prv_OpenRouter p) \<noteq> [] then pc_APIBase (prv_OpenRouter p)
         else ''https://openrouter.ai/api/v1'')
      else if pc_APIKey (prv_Zhipu p) \<noteq> [] then pc_APIBase (prv_Zhipu p)
      else if pc_APIKey (prv_VLLM p) \<noteq> [] \<and> pc_APIBase (prv_VLLM p) \<noteq> [] then pc_APIBase (prv_VLLM p)
      else [])"

definition tool_names :: "gostr list" where
  "tool_names =
     [''web'', ''cron'', ''exec'', ''skills'', ''media_cleanup'', ''append_file'', ''edit_file'', ''find_skills'', ''i2c'',
      ''install_skill'', ''list_dir'', ''message'', ''read_file'', ''spawn'', ''spi'', ''subagent'', ''web_fetch'',
      ''send_file'', ''write_file'', ''mcp'']"

text \<open>\<open>enabled\<close> is the switch of each section of the tools.\<close>

definition is_tool_enabled :: "(gostr \<Rightarrow> bool) \<Rightarrow> gostr \<Rightarrow> bool" where
  "is_tool_enabled enabled name = (if name \<in> set tool_names then enabled name else True)"

section \<open>Facts about the rules\<close>

definition rule_sound :: "migration_rule \<Rightarrow> bool" where
  "rule_sound m \<longleftrightarrow>
     [] \<notin> set (rule_names m) \<and> rule_protocol m \<noteq> [] \<and>
     (\<forall>p e. rule_build m p = Some e \<longrightarrow> me_ModelName e = rule_protocol m \<and> me_Model e \<noteq> [])"

lemma rule_soundI:
  assumes "[] \<notin> set names" "protocol \<noteq> []" "model \<noteq> []"
  shows "rule_sound (rule names protocol (\<lambda>n p. access_entry n model (get p)))"
    and "rule_sound (rule names protocol (\<lambda>n p. auth_entry n model (get' p)))"
    and "rule_sound (rule names protocol (\<lambda>n p. copilot_entry n model (get'' p)))"
    and "rule_sound (rule names protocol (\<lambda>n p. antigravity_entry n model (get'' p)))"
  using assms
  by (auto simp: rule_sound_def rule_def access_entry_def auth_entry_def copilot_entry_def antigravity_entry_def
      split: if_splits)

lemma rules_sound: "list_all rule_sound migration_rules"
  unfolding migration_rules_def by (simp add: rule_soundI)

lemma rule_protocols:
  "map rule_protocol migration_rules =
     [''openai'', ''anthropic'', ''litellm'', ''openrouter'', ''groq'', ''zhipu'', ''vllm'', ''gemini'', ''nvidia'', ''ollama'',
      ''moonshot'', ''shengsuanyun'', ''deepseek'', ''cerebras'', ''vivgrid'', ''volcengine'', ''github-copilot'',
      ''antigravity'', ''qwen'', ''mistral'', ''avian'', ''longcat'', ''modelscope'']"
  by (simp add: migration_rules_def rule_def)

lemma build_model_not_empty [simp]: "model \<noteq> [] \<Longrightarrow> build_model_with_protocol protocol model \<noteq> []"
  by (simp add: build_model_with_protocol_def)

definition configured :: "providers_config \<Rightarrow> migration_rule list" where
  "configured p = filter (\<lambda>m. rule_build m p \<noteq> None) migration_rules"

lemma convert_entries_valid:
  assumes "list_all rule_sound rs" "list_all (\<lambda>e. validate_entry e = None) (snd st)"
  shows "list_all (\<lambda>e. validate_entry e = None) (snd (fold (migrate_step p up um) rs st))"
  using assms
proof (induction rs arbitrary: st)
  case (Cons m rs)
  then have m: "rule_sound m" and st: "list_all (\<lambda>e. validate_entry e = None) (snd st)" by simp_all
  have "list_all (\<lambda>e. validate_entry e = None) (snd (migrate_step p up um m st))"
    using m st by (cases st; cases "rule_build m p") (auto simp: migrate_step_def rule_sound_def validate_entry_def)
  with Cons.IH Cons.prems show ?case by simp
qed simp

text \<open>The names in the list: those of the protocols, or the model of the user in the first place.\<close>

lemma convert_names_fold:
  assumes "list_all rule_sound rs"
  shows "map me_ModelName (snd (fold (migrate_step p up um) rs (applied, acc))) =
     map me_ModelName acc @
     (let ps = map rule_protocol (filter (\<lambda>m. rule_build m p \<noteq> None) rs) in
      if up = [] \<and> um \<noteq> [] \<and> \<not> applied \<and> ps \<noteq> [] then um # tl ps else ps)"
  using assms
proof (induction rs arbitrary: applied acc)
  case (Cons m rs)
  show ?case
  proof (cases "rule_build m p")
    case None
    with Cons show ?thesis by (simp add: migrate_step_def)
  next
    case (Some e)
    with Cons.prems have "me_ModelName e = rule_protocol m" "[] \<notin> set (rule_names m)"
      by (auto simp: rule_sound_def)
    with Some Cons show ?thesis by (auto simp: migrate_step_def Let_def)
  qed
qed simp

lemma convert_names:
  "map me_ModelName (convert_providers c) =
     (let ps = map rule_protocol (configured (cfg_Providers c)) in
      if cfg_Provider c = [] \<and> get_model_name c \<noteq> [] \<and> ps \<noteq> [] then get_model_name c # tl ps else ps)"
  by (simp add: convert_providers_def configured_def convert_names_fold [OF rules_sound] Let_def)

lemma convert_Nil_iff: "convert_providers c = [] \<longleftrightarrow> configured (cfg_Providers c) = []"
proof -
  have "convert_providers c = [] \<longleftrightarrow> map me_ModelName (convert_providers c) = []" by simp
  also have "\<dots> \<longleftrightarrow> configured (cfg_Providers c) = []" unfolding convert_names by (auto simp: Let_def)
  finally show ?thesis .
qed

lemma configured_protocols: "set (map rule_protocol (configured p)) \<subseteq> set (map rule_protocol migration_rules)"
  by (auto simp: configured_def)

lemma rule_build_None:
  "rule_build (rule ns pr (\<lambda>n p. access_entry n md (get p))) p = None \<longleftrightarrow> no_access (get p)"
  "rule_build (rule ns pr (\<lambda>n p. auth_entry n md (get' p))) p = None \<longleftrightarrow> no_access (get' p)"
  "rule_build (rule ns pr (\<lambda>n p. copilot_entry n md (get'' p))) p = None \<longleftrightarrow>
     no_access (get'' p) \<and> pc_ConnectMode (get'' p) = []"
  "rule_build (rule ns pr (\<lambda>n p. antigravity_entry n md (get'' p))) p = None \<longleftrightarrow>
     pc_APIKey (get'' p) = [] \<and> pc_AuthMethod (get'' p) = []"
  by (auto simp: rule_def access_entry_def auth_entry_def copilot_entry_def antigravity_entry_def unset_def)

lemma configured_Nil:
  "configured p = [] \<longleftrightarrow> list_all (\<lambda>m. rule_build m p = None) migration_rules"
  by (auto simp: configured_def filter_empty_conv list_all_iff)

section \<open>The conversion\<close>

text \<open>Whatever the providers, every entry the conversion makes passes the validation of the model list.\<close>

theorem migrated_entries_valid: "list_all (\<lambda>e. validate_entry e = None) (convert_providers c)"
  unfolding convert_providers_def by (rule convert_entries_valid [OF rules_sound]) simp


lemma find_matches_Nil: "find_matches l name = [] \<longleftrightarrow> name \<notin> set (map me_ModelName l)"
  by (auto simp: find_matches_def filter_empty_conv)

lemma get_model_config_None: "fst (get_model_config l name ctr) = None \<longleftrightarrow> name \<notin> set (map me_ModelName l)"
  by (simp add: get_model_config_def Let_def find_matches_Nil)

text \<open>C32 After the conversion the model the user chose is found under its name exactly if no provider was chosen or the
  name is that of a provider filled in: who names a provider, as the migration guide shows it, loses the model.\<close>

theorem migrated_model_found:
  assumes "get_model_name c \<noteq> []" "convert_providers c \<noteq> []"
  shows "fst (get_model_config (convert_providers c) (get_model_name c) ctr) \<noteq> None \<longleftrightarrow>
    cfg_Provider c = [] \<or> get_model_name c \<in> set (map rule_protocol (configured (cfg_Providers c)))"
  using assms unfolding get_model_config_None convert_names convert_Nil_iff by (auto simp: Let_def)

lemma zero_provider_fields [simp]:
  "prv_Anthropic zero_providers = zero_provider"
  "prv_LiteLLM zero_providers = zero_provider"
  "prv_OpenRouter zero_providers = zero_provider"
  "prv_Groq zero_providers = zero_provider"
  "prv_Zhipu zero_providers = zero_provider"
  "prv_VLLM zero_providers = zero_provider"
  "prv_Gemini zero_providers = zero_provider"
  "prv_Nvidia zero_providers = zero_provider"
  "prv_Ollama zero_providers = zero_provider"
  "prv_Moonshot zero_providers = zero_provider"
  "prv_ShengSuanYun zero_providers = zero_provider"
  "prv_DeepSeek zero_providers = zero_provider"
  "prv_Cerebras zero_providers = zero_provider"
  "prv_Vivgrid zero_providers = zero_provider"
  "prv_VolcEngine zero_providers = zero_provider"
  "prv_GitHubCopilot zero_providers = zero_provider"
  "prv_Antigravity zero_providers = zero_provider"
  "prv_Qwen zero_providers = zero_provider"
  "prv_Mistral zero_providers = zero_provider"
  "prv_Avian zero_providers = zero_provider"
  "prv_Minimax zero_providers = zero_provider"
  "prv_LongCat zero_providers = zero_provider"
  "prv_ModelScope zero_providers = zero_provider"
  by (simp_all add: zero_providers_def)

lemma unset_Nil [simp]: "unset [] []"
  by (simp add: unset_def)

lemma zero_provider_access [simp]:
  "no_access zero_provider" "no_access (prv_OpenAI zero_providers)"
  "pc_APIKey zero_provider = []" "pc_APIBase zero_provider = []"
  "pc_ConnectMode zero_provider = []" "pc_AuthMethod zero_provider = []"
  by (simp_all add: zero_providers_def zero_provider_def unset_def openai_provider_config.defs provider_config.defs)

lemma zero_providers_empty [simp]: "providers_empty zero_providers"
  by (simp add: providers_empty_def)

text \<open>The configuration shown in the migration guide, reduced to its provider.\<close>

definition guide_providers :: providers_config where
  "guide_providers =
     zero_providers\<lparr>prv_OpenAI := (prv_OpenAI zero_providers)\<lparr>pc_APIKey := ''sk-your-openai-key''\<rparr>\<rparr>"

definition guide_config :: config where
  "guide_config =
     \<lparr>cfg_Workspace = ''/w'', cfg_Provider = ''openai'', cfg_ModelName = [], cfg_Model = ''gpt-5.4'',
      cfg_Providers = guide_providers, cfg_ModelList = [],
      cfg_DiscordMentionOnly = False, cfg_DiscordGroupMentionOnly = False,
      cfg_OneBotTriggerPrefix = [], cfg_OneBotPrefixes = []\<rparr>"

lemma guide_fields [simp]:
  "cfg_Provider guide_config = ''openai''" "get_model_name guide_config = ''gpt-5.4''"
  "cfg_Providers guide_config = guide_providers"
  by (simp_all add: guide_config_def get_model_name_def)

lemma rule_protocol_rule: "rule_protocol (rule ns pr b) = pr"
  by (simp add: rule_def)

lemma guide_configured: "map rule_protocol (configured guide_providers) = [''openai'']"
  by (simp add: configured_def migration_rules_def rule_build_None guide_providers_def rule_protocol_rule unset_def)

lemma guide_convert: "convert_providers guide_config \<noteq> []"
  unfolding convert_Nil_iff using guide_configured by auto

theorem migrated_model_found_witness:
  "fst (get_model_config (convert_providers guide_config) ''gpt-5.4'' 0) = None"
proof -
  have n: "get_model_name guide_config \<noteq> []" by simp
  have p: "\<not> (cfg_Provider guide_config = [] \<or>
    get_model_name guide_config \<in> set (map rule_protocol (configured (cfg_Providers guide_config))))"
    unfolding guide_fields guide_configured by simp
  from migrated_model_found [OF n guide_convert, of 0] p show ?thesis by (simp only: guide_fields) blast
qed

section \<open>Round robin\<close>

fun lookups :: "model_entry list \<Rightarrow> gostr \<Rightarrow> nat \<Rightarrow> 64 word \<Rightarrow> model_entry option list" where
  "lookups l name 0 counter = []"
| "lookups l name (Suc n) counter =
     (case get_model_config l name counter of (r, counter') \<Rightarrow> r # lookups l name n counter')"

lemma unat_Suc_word: "unat (w :: 64 word) + 1 < 2 ^ 64 \<Longrightarrow> unat (w + 1) = Suc (unat w)"
  by (simp add: unat_add_lem [THEN iffD1])

lemma lookups_nth:
  assumes "length (find_matches l name) \<ge> 2" "unat ctr + k < 2 ^ 64"
  shows "lookups l name k ctr =
    map (\<lambda>i. Some (find_matches l name ! ((Suc (unat ctr) + i) mod length (find_matches l name)))) [0..<k]"
  using assms(2)
proof (induction k arbitrary: ctr)
  case (Suc k)
  from assms(1) have ne: "find_matches l name \<noteq> []" "length (find_matches l name) \<noteq> 1" by auto
  from Suc.prems have u: "unat (ctr + 1) = Suc (unat ctr)" by (intro unat_Suc_word) simp
  with Suc.prems have "unat (ctr + 1) + k < 2 ^ 64" by simp
  note ih = Suc.IH [OF this]
  have "map f [0..<Suc k] = f 0 # map (\<lambda>i. f (Suc i)) [0..<k]" for f :: "nat \<Rightarrow> model_entry option"
    by (simp add: upt_conv_Cons map_Suc_upt [symmetric] del: upt_Suc)
  with ne u ih show ?case by (simp add: get_model_config_def Let_def del: upt_Suc)
qed simp

text \<open>C33 Asked as often as there are entries of a name, the look-up returns each of them once, in the order of the list
  from the place the counter is at.\<close>

theorem round_robin_fair:
  assumes "find_matches l name \<noteq> []" "unat ctr + length (find_matches l name) < 2 ^ 64"
  shows "lookups l name (length (find_matches l name)) ctr =
    map Some (rotate (Suc (unat ctr)) (find_matches l name))"
proof (cases "length (find_matches l name) = 1")
  case True
  then obtain e where "find_matches l name = [e]" by (auto simp: length_Suc_conv)
  then show ?thesis by (simp add: get_model_config_def)
next
  case False
  with assms(1) have "length (find_matches l name) \<ge> 2" by (cases "find_matches l name"; cases "tl (find_matches l name)") auto
  from lookups_nth [OF this assms(2)] show ?thesis
    by (auto intro!: nth_equalityI simp: nth_rotate simp del: rotate_Suc)
qed

theorem round_robin_fair_witness:
  "lookups [zero_entry\<lparr>me_ModelName := ''a'', me_APIKey := ''1''\<rparr>, zero_entry\<lparr>me_ModelName := ''b''\<rparr>,
            zero_entry\<lparr>me_ModelName := ''a'', me_APIKey := ''2''\<rparr>] ''a'' (Suc (Suc 0)) 0 =
   [Some (zero_entry\<lparr>me_ModelName := ''a'', me_APIKey := ''2''\<rparr>),
    Some (zero_entry\<lparr>me_ModelName := ''a'', me_APIKey := ''1''\<rparr>)]"
  using round_robin_fair [of "[zero_entry\<lparr>me_ModelName := ''a'', me_APIKey := ''1''\<rparr>, zero_entry\<lparr>me_ModelName := ''b''\<rparr>,
            zero_entry\<lparr>me_ModelName := ''a'', me_APIKey := ''2''\<rparr>]" "''a''" 0]
  by (simp add: find_matches_def)

section \<open>Loading and saving\<close>

lemma validate_from_None: "validate_from i l = None \<longleftrightarrow> list_all (\<lambda>e. validate_entry e = None) l"
  by (induction l arbitrary: i) (auto split: option.splits)

lemma default_models_valid: "validate_from 0 default_models = None"
  by (simp add: default_models_def listed_def validate_entry_def)

lemma default_models_not_Nil [simp]: "default_models \<noteq> []"
  by (simp add: default_models_def)

lemma migrate_channels_list [simp]:
  "cfg_ModelList (migrate_channel_configs c) = cfg_ModelList c"
  "cfg_Providers (migrate_channel_configs c) = cfg_Providers c"
  "cfg_Provider (migrate_channel_configs c) = cfg_Provider c"
  "cfg_ModelName (migrate_channel_configs c) = cfg_ModelName c"
  "cfg_Model (migrate_channel_configs c) = cfg_Model c"
  "cfg_Workspace (migrate_channel_configs c) = cfg_Workspace c"
  by (simp_all add: migrate_channel_configs_def Let_def)

text \<open>What a load that succeeds returns.\<close>

lemma load_valid:
  assumes "load_config prepared env ws file = Inr c"
  shows "list_all (\<lambda>e. validate_entry e = None) (cfg_ModelList c)"
proof -
  have "validate_from 0 (cfg_ModelList c) = None"
    using assms default_models_valid
    by (auto simp: load_config_def default_config_def validate_model_list_def Let_def
        split: if_splits config_read.splits option.splits)
  then show ?thesis by (simp add: validate_from_None)
qed

lemma decode_omit_empty [simp]: "decode_member (omit_empty s) [] = s" "decode_slice (omit_empty s) [] = s"
  by (simp_all add: omit_empty_def)

lemma decode_omit_false [simp]: "decode_member (omit_false b) False = b"
  by (simp add: omit_false_def)

text \<open>A configuration whose channels have their new form.\<close>

definition channels_migrated :: "config \<Rightarrow> bool" where
  "channels_migrated c \<longleftrightarrow>
     \<not> (cfg_DiscordMentionOnly c \<and> \<not> cfg_DiscordGroupMentionOnly c) \<and>
     \<not> (length (cfg_OneBotTriggerPrefix c) > 0 \<and> length (cfg_OneBotPrefixes c) = 0)"

lemma migrate_migrated: "channels_migrated c \<Longrightarrow> migrate_channel_configs c = c"
  unfolding channels_migrated_def migrate_channel_configs_def Let_def by (simp only: if_False simp_thms)

lemma decode_marshal:
  assumes "cfg_Providers d = zero_providers" "cfg_Model d = []" "\<not> cfg_DiscordGroupMentionOnly d" "cfg_OneBotPrefixes d = []"
  shows "unmarshal_config (marshal_config c) d =
    (if providers_empty (cfg_Providers c) then c\<lparr>cfg_Providers := zero_providers\<rparr> else c)"
  by (rule config.equality) (simp_all add: unmarshal_config_def marshal_config_def assms)



section \<open>Keys\<close>

lemma remdups_skip: "x \<in> set ys \<Longrightarrow> remdups (xs @ x # ys) = remdups (xs @ ys)"
  by (induction xs) auto

lemma fold_add_key:
  assumes "distinct all"
  shows "snd (fold add_key ks (set all, all)) = rev (remdups (rev (all @ filter (\<lambda>k. k \<noteq> []) (map trim_space ks))))"
  using assms
proof (induction ks arbitrary: all)
  case Nil
  then show ?case by (simp add: distinct_remdups_id)
next
  case (Cons k ks)
  show ?case
  proof (cases "trim_space k \<noteq> [] \<and> trim_space k \<notin> set all")
    case True
    with Cons.prems have "distinct (all @ [trim_space k])" by simp
    moreover have "add_key k (set all, all) = (set (all @ [trim_space k]), all @ [trim_space k])"
      using True by (simp add: add_key_def Let_def)
    ultimately show ?thesis using Cons.IH [of "all @ [trim_space k]"] True by simp
  next
    case False
    then have st: "add_key k (set all, all) = (set all, all)" by (auto simp: add_key_def Let_def)
    show ?thesis
    proof (cases "trim_space k = []")
      case True
      with Cons.IH [OF Cons.prems] st show ?thesis by simp
    next
      case nonempty: False
      with False have "trim_space k \<in> set (rev all)" by simp
      from remdups_skip [OF this] Cons.IH [OF Cons.prems] st nonempty show ?thesis by simp
    qed
  qed
qed

text \<open>Merging the keys gives the trimmed keys that are not empty, each where it occurs first.\<close>

theorem merge_keys_reference:
  "merge_api_keys apiKey apiKeys =
     rev (remdups (rev (filter (\<lambda>k. k \<noteq> []) (map trim_space (apiKey # apiKeys)))))"
proof -
  have "merge_api_keys apiKey apiKeys = snd (fold add_key (apiKey # apiKeys) (set [], []))"
    by (simp add: merge_api_keys_def)
  also have "\<dots> = rev (remdups (rev (filter (\<lambda>k. k \<noteq> []) (map trim_space (apiKey # apiKeys)))))"
    by (subst fold_add_key) simp_all
  finally show ?thesis .
qed

end
