(* ===== verification/Provider_Factory.thy ===== *)
theory Provider_Factory imports Config Model_Ref Agent_Id File_Path begin

text \<open>
  From the configuration to a provider and the models of an agent: \<open>pkg/providers/factory_provider.go\<close>,
  \<open>pkg/providers/legacy_provider.go\<close>, the settings of \<open>NewAgentInstance\<close> (\<open>pkg/agent/instance.go\<close>) that come from the list
  of models, and the start of the gateway that puts them together.

  A provider is the constructor with the arguments it was called with. The store of credentials and the connection to
  the server of GitHub Copilot are parameters.
\<close>

section \<open>Protocols\<close>

definition extract_protocol :: "gostr \<Rightarrow> gostr \<times> gostr" where
  "extract_protocol model0 =
     (let model = trim_space model0 in
      case index_char model (CHR ''/'') of
        None \<Rightarrow> (''openai'', model)
      | Some i \<Rightarrow> (take i model, drop (i + 1) model))"

definition default_api_base :: "gostr \<Rightarrow> gostr" where
  "default_api_base protocol =
     (case map_of
        [(''openai'', ''https://api.openai.com/v1''),
         (''openrouter'', ''https://openrouter.ai/api/v1''),
         (''litellm'', ''http://localhost:4000/v1''),
         (''groq'', ''https://api.groq.com/openai/v1''),
         (''zhipu'', ''https://open.bigmodel.cn/api/paas/v4''),
         (''gemini'', ''https://generativelanguage.googleapis.com/v1beta''),
         (''nvidia'', ''https://integrate.api.nvidia.com/v1''),
         (''ollama'', ''http://localhost:11434/v1''),
         (''moonshot'', ''https://api.moonshot.cn/v1''),
         (''shengsuanyun'', ''https://router.shengsuanyun.com/api/v1''),
         (''deepseek'', ''https://api.deepseek.com/v1''),
         (''cerebras'', ''https://api.cerebras.ai/v1''),
         (''vivgrid'', ''https://api.vivgrid.com/v1''),
         (''volcengine'', ''https://ark.cn-beijing.volces.com/api/v3''),
         (''qwen'', ''https://dashscope.aliyuncs.com/compatible-mode/v1''),
         (''vllm'', ''http://localhost:8000/v1''),
         (''mistral'', ''https://api.mistral.ai/v1''),
         (''avian'', ''https://api.avian.io/v1''),
         (''minimax'', ''https://api.minimaxi.com/v1''),
         (''longcat'', ''https://api.longcat.chat/openai''),
         (''modelscope'', ''https://api-inference.modelscope.cn/v1'')] protocol of
        Some base \<Rightarrow> base
      | None \<Rightarrow> [])"

definition compatible_protocols :: "gostr list" where
  "compatible_protocols =
     [''litellm'', ''openrouter'', ''groq'', ''zhipu'', ''gemini'', ''nvidia'', ''ollama'', ''moonshot'', ''shengsuanyun'',
      ''deepseek'', ''cerebras'', ''vivgrid'', ''volcengine'', ''vllm'', ''qwen'', ''mistral'', ''avian'', ''minimax'',
      ''longcat'', ''modelscope'']"

section \<open>Providers\<close>

record credential =
  cr_AccessToken :: gostr
  cr_AccountID :: gostr

datatype llm_provider =
    HTTPProvider (http_key: gostr) (http_base: gostr) (http_proxy: gostr) (http_tokens_field: gostr) (http_timeout: int)
  | AzureProvider gostr gostr gostr int
  | AnthropicMessages gostr gostr int
  | ClaudeAuth gostr
  | CodexAuth gostr gostr
  | AntigravityProvider
  | ClaudeCli gostr
  | CodexCli gostr
  | CopilotProvider gostr gostr gostr

datatype provider_error =
    ModelMissing
  | CredentialsFailed gostr
  | NoCredentials gostr
  | AccessRequired gostr
  | KeyRequired gostr
  | BaseRequired
  | CopilotFailed gostr
  | UnknownProtocol gostr

record provider_world =
  pw_credential :: "gostr \<Rightarrow> gostr + credential option"
  pw_copilot :: "gostr \<Rightarrow> gostr \<Rightarrow> gostr option"

definition create_claude_auth :: "provider_world \<Rightarrow> provider_error + llm_provider" where
  "create_claude_auth w =
     (case pw_credential w ''anthropic'' of
        Inl err \<Rightarrow> Inl (CredentialsFailed err)
      | Inr None \<Rightarrow> Inl (NoCredentials ''anthropic'')
      | Inr (Some cred) \<Rightarrow> Inr (ClaudeAuth (cr_AccessToken cred)))"

definition create_codex_auth :: "provider_world \<Rightarrow> provider_error + llm_provider" where
  "create_codex_auth w =
     (case pw_credential w ''openai'' of
        Inl err \<Rightarrow> Inl (CredentialsFailed err)
      | Inr None \<Rightarrow> Inl (NoCredentials ''openai'')
      | Inr (Some cred) \<Rightarrow> Inr (CodexAuth (cr_AccessToken cred) (cr_AccountID cred)))"

text \<open>\<open>NewGitHubCopilotProvider\<close>: only one of the two modes of connection exists.\<close>

definition new_copilot :: "provider_world \<Rightarrow> gostr \<Rightarrow> gostr \<Rightarrow> gostr \<Rightarrow> provider_error + llm_provider" where
  "new_copilot w uri mode0 model =
     (let mode = (if mode0 = [] then ''grpc'' else mode0) in
      if mode = ''stdio'' then
        Inl (CopilotFailed ''stdio mode not implemented for GitHub Copilot provider; please use 'grpc' mode instead'')
      else if mode = ''grpc'' then
        (case pw_copilot w uri model of
           Some err \<Rightarrow> Inl (CopilotFailed err)
         | None \<Rightarrow> Inr (CopilotProvider uri mode model))
      else Inl (CopilotFailed (''unknown connect mode: '' @ mode)))"

definition or_default :: "gostr \<Rightarrow> gostr \<Rightarrow> gostr" where
  "or_default s d = (if s = [] then d else s)"

text \<open>The branch for the protocols that speak the HTTP interface of OpenAI.\<close>

definition create_http :: "gostr \<Rightarrow> model_entry \<Rightarrow> provider_error + llm_provider" where
  "create_http protocol cfg =
     (if me_APIKey cfg = [] \<and> me_APIBase cfg = [] then Inl (AccessRequired protocol)
      else Inr (HTTPProvider (me_APIKey cfg) (or_default (me_APIBase cfg) (default_api_base protocol))
        (me_Proxy cfg) (me_MaxTokensField cfg) (me_RequestTimeout cfg)))"

definition oauth_method :: "model_entry \<Rightarrow> bool" where
  "oauth_method cfg \<longleftrightarrow> me_AuthMethod cfg = ''oauth'' \<or> me_AuthMethod cfg = ''token''"

definition create_by_protocol :: "provider_world \<Rightarrow> gostr \<Rightarrow> gostr \<Rightarrow> model_entry \<Rightarrow> provider_error + llm_provider" where
  "create_by_protocol w protocol modelID cfg =
     (if protocol = ''openai'' then
        (if oauth_method cfg then create_codex_auth w else create_http protocol cfg)
      else if protocol \<in> {''azure'', ''azure-openai''} then
        (if me_APIKey cfg = [] then Inl (KeyRequired ''azure'')
         else if me_APIBase cfg = [] then Inl BaseRequired
         else Inr (AzureProvider (me_APIKey cfg) (me_APIBase cfg) (me_Proxy cfg) (me_RequestTimeout cfg)))
      else if protocol \<in> set compatible_protocols then create_http protocol cfg
      else if protocol = ''anthropic'' then
        (if oauth_method cfg then create_claude_auth w
         else if me_APIKey cfg = [] then Inl (KeyRequired ''anthropic'')
         else Inr (HTTPProvider (me_APIKey cfg) (or_default (me_APIBase cfg) ''https://api.anthropic.com/v1'')
           (me_Proxy cfg) (me_MaxTokensField cfg) (me_RequestTimeout cfg)))
      else if protocol = ''anthropic-messages'' then
        (if me_APIKey cfg = [] then Inl (KeyRequired ''anthropic-messages'')
         else Inr (AnthropicMessages (me_APIKey cfg) (or_default (me_APIBase cfg) ''https://api.anthropic.com/v1'')
           (me_RequestTimeout cfg)))
      else if protocol = ''antigravity'' then Inr AntigravityProvider
      else if protocol \<in> {''claude-cli'', ''claudecli''} then Inr (ClaudeCli (or_default (me_Workspace cfg) ''.''))
      else if protocol \<in> {''codex-cli'', ''codexcli''} then Inr (CodexCli (or_default (me_Workspace cfg) ''.''))
      else if protocol \<in> {''github-copilot'', ''copilot''} then
        new_copilot w (or_default (me_APIBase cfg) ''localhost:4321'') (or_default (me_ConnectMode cfg) ''grpc'') modelID
      else Inl (UnknownProtocol protocol))"

definition create_provider_from_config ::
  "provider_world \<Rightarrow> model_entry \<Rightarrow> provider_error + llm_provider \<times> gostr" where
  "create_provider_from_config w cfg =
     (if me_Model cfg = [] then Inl ModelMissing
      else case extract_protocol (me_Model cfg) of (protocol, modelID) \<Rightarrow>
        (case create_by_protocol w protocol modelID cfg of
           Inl err \<Rightarrow> Inl err
         | Inr provider \<Rightarrow> Inr (provider, modelID)))"

section \<open>The provider of a configuration\<close>

datatype create_error = NoProviders | ModelNotFound gostr | CreateFailed provider_error

text \<open>The entries of the providers whose names are not in the list are appended to it, for good.\<close>

definition merge_missing :: "model_entry list \<Rightarrow> model_entry list \<Rightarrow> model_entry list" where
  "merge_missing l new = l @ filter (\<lambda>pm. me_ModelName pm \<notin> me_ModelName ` set l) new"

definition with_providers :: "config \<Rightarrow> config" where
  "with_providers cfg =
     (if has_providers_config cfg
      then cfg\<lparr>cfg_ModelList := merge_missing (cfg_ModelList cfg) (convert_providers cfg)\<rparr> else cfg)"

definition create_provider ::
  "provider_world \<Rightarrow> gostr \<Rightarrow> config \<Rightarrow> 64 word \<Rightarrow> (create_error + llm_provider \<times> gostr) \<times> config \<times> 64 word" where
  "create_provider w home cfg0 counter =
     (let model = get_model_name cfg0;
          cfg = with_providers cfg0 in
      if length (cfg_ModelList cfg) = 0 then (Inl NoProviders, cfg, counter)
      else case get_model_config (cfg_ModelList cfg) model counter of
        (None, counter') \<Rightarrow> (Inl (ModelNotFound model), cfg, counter')
      | (Some e, counter') \<Rightarrow>
          let e' = (if me_Workspace e = [] then e\<lparr>me_Workspace := workspace_path home cfg\<rparr> else e) in
          (case create_provider_from_config w e' of
             Inl err \<Rightarrow> (Inl (CreateFailed err), cfg, counter')
           | Inr r \<Rightarrow> (Inr r, cfg, counter')))"

section \<open>The models of an agent\<close>

datatype thinking_level = ThinkingOff | ThinkingLow | ThinkingMedium | ThinkingHigh | ThinkingXHigh | ThinkingAdaptive

definition parse_thinking_level :: "gostr \<Rightarrow> thinking_level" where
  "parse_thinking_level level =
     (let s = to_lower (trim_space level) in
      if s = ''adaptive'' then ThinkingAdaptive
      else if s = ''low'' then ThinkingLow
      else if s = ''medium'' then ThinkingMedium
      else if s = ''high'' then ThinkingHigh
      else if s = ''xhigh'' then ThinkingXHigh
      else ThinkingOff)"

definition ensure_protocol :: "gostr \<Rightarrow> gostr" where
  "ensure_protocol model0 =
     (let model = trim_space model0 in
      if model = [] then [] else if contains model ''/'' then model else ''openai/'' @ model)"

definition entry_named :: "gostr \<Rightarrow> model_entry \<Rightarrow> bool" where
  "entry_named raw e \<longleftrightarrow>
     (let full = trim_space (me_Model e) in
      full \<noteq> [] \<and> (full = raw \<or> snd (extract_protocol full) = raw))"

text \<open>The closure \<open>resolveFromModelList\<close>, with the counter of the look-up.\<close>

definition resolve_from_model_list ::
  "model_entry list \<Rightarrow> gostr \<Rightarrow> 64 word \<Rightarrow> gostr option \<times> 64 word" where
  "resolve_from_model_list l raw0 counter =
     (let raw = trim_space raw0 in
      if raw = [] then (None, counter)
      else case get_model_config l raw counter of (mc, counter') \<Rightarrow>
        let scan = map_option (\<lambda>e. ensure_protocol (trim_space (me_Model e))) (List.find (entry_named raw) l) in
        (case mc of
           Some e \<Rightarrow> if trim_space (me_Model e) \<noteq> [] then (Some (ensure_protocol (me_Model e)), counter') else (scan, counter')
         | None \<Rightarrow> (scan, counter')))"

text \<open>\<open>ResolveCandidatesWithLookup\<close> with this closure, which moves the counter from one model to the next.\<close>

definition add_listed ::
  "model_entry list \<Rightarrow> gostr \<Rightarrow> gostr \<Rightarrow> 64 word \<times> gostr set \<times> fallback_candidate list
   \<Rightarrow> 64 word \<times> gostr set \<times> fallback_candidate list" where
  "add_listed l default_provider raw st =
     (case st of (counter, seen_list) \<Rightarrow>
        case resolve_from_model_list l (trim_space raw) counter of (resolved, counter') \<Rightarrow>
          (counter', add_candidate default_provider (Some (\<lambda>_. resolved)) raw seen_list))"

definition resolve_listed ::
  "model_entry list \<Rightarrow> gostr \<Rightarrow> gostr list \<Rightarrow> 64 word \<Rightarrow> fallback_candidate list \<times> 64 word" where
  "resolve_listed l default_provider models counter =
     (case fold (add_listed l default_provider) models (counter, {}, []) of (counter', _, cands) \<Rightarrow> (cands, counter'))"

text \<open>The section of an agent; the fallbacks of its model may be nil.\<close>

record agent_section =
  as_ID :: gostr
  as_Default :: bool
  as_Workspace :: gostr
  as_Model :: "(gostr \<times> gostr list option) option"

definition resolve_agent_model :: "agent_section option \<Rightarrow> config \<Rightarrow> gostr" where
  "resolve_agent_model agent cfg =
     (case Option.bind agent as_Model of
        Some (primary, _) \<Rightarrow> if trim_space primary \<noteq> [] then trim_space primary else get_model_name cfg
      | None \<Rightarrow> get_model_name cfg)"

definition resolve_agent_fallbacks :: "agent_section option \<Rightarrow> gostr list \<Rightarrow> gostr list" where
  "resolve_agent_fallbacks agent default_fallbacks =
     (case Option.bind agent as_Model of
        Some (_, Some fallbacks) \<Rightarrow> fallbacks
      | _ \<Rightarrow> default_fallbacks)"

definition resolve_agent_workspace :: "gostr \<Rightarrow> agent_section option \<Rightarrow> config \<Rightarrow> gostr" where
  "resolve_agent_workspace home agent cfg =
     (let default_workspace = expand_home home (cfg_Workspace cfg) in
      case agent of
        None \<Rightarrow> default_workspace
      | Some a \<Rightarrow>
          if trim_space (as_Workspace a) \<noteq> [] then expand_home home (trim_space (as_Workspace a))
          else if as_Default a \<or> as_ID a = [] \<or> normalize_agent_id (as_ID a) = ''main'' then default_workspace
          else clean ((if default_workspace = [] then [] else default_workspace @ ''/'') @ ''../workspace-'' @
                 normalize_agent_id (as_ID a)))"

record agent_models =
  am_Model :: gostr
  am_Workspace :: gostr
  am_Thinking :: thinking_level
  am_Fallbacks :: "gostr list"
  am_Candidates :: "fallback_candidate list"
  am_LightCandidates :: "fallback_candidate list"

text \<open>The settings of \<open>NewAgentInstance\<close> in the order they are computed; \<open>light\<close> is the light model of the routing, when it
  is enabled and given.\<close>

definition agent_models ::
  "gostr \<Rightarrow> agent_section option \<Rightarrow> gostr list \<Rightarrow> gostr option \<Rightarrow> config \<Rightarrow> 64 word \<Rightarrow> agent_models \<times> 64 word" where
  "agent_models home agent default_fallbacks light cfg c0 =
     (let model = resolve_agent_model agent cfg;
          fallbacks = resolve_agent_fallbacks agent default_fallbacks;
          l = cfg_ModelList cfg in
      case get_model_config l model c0 of (mc, c1) \<Rightarrow>
      case resolve_listed l (cfg_Provider cfg) (model # fallbacks) c1 of (candidates, c2) \<Rightarrow>
      case (case light of
              None \<Rightarrow> ([], c2)
            | Some m \<Rightarrow> resolve_listed l (cfg_Provider cfg) [m] c2) of (light_candidates, c3) \<Rightarrow>
        (\<lparr>am_Model = model, am_Workspace = resolve_agent_workspace home agent cfg,
          am_Thinking = parse_thinking_level (case mc of Some e \<Rightarrow> me_ThinkingLevel e | None \<Rightarrow> []),
          am_Fallbacks = fallbacks, am_Candidates = candidates, am_LightCandidates = light_candidates\<rparr>, c3))"

text \<open>The start: the provider is created, its model identifier becomes the model name, and the agent is set up from the
  configuration changed that way.\<close>

definition adopt_model_id :: "gostr \<Rightarrow> config \<Rightarrow> config" where
  "adopt_model_id modelID cfg = (if modelID \<noteq> [] then cfg\<lparr>cfg_ModelName := modelID\<rparr> else cfg)"

definition start_agent ::
  "provider_world \<Rightarrow> gostr \<Rightarrow> agent_section option \<Rightarrow> gostr list \<Rightarrow> gostr option \<Rightarrow> config \<Rightarrow> 64 word
   \<Rightarrow> create_error + llm_provider \<times> agent_models" where
  "start_agent w home agent default_fallbacks light cfg counter =
     (case create_provider w home cfg counter of
        (Inl err, _, _) \<Rightarrow> Inl err
      | (Inr (provider, modelID), cfg', counter') \<Rightarrow>
          Inr (provider, fst (agent_models home agent default_fallbacks light (adopt_model_id modelID cfg') counter')))"

section \<open>Protocols and addresses\<close>

lemma contains_slash: "contains s ''/'' \<longleftrightarrow> CHR ''/'' \<in> set s"
  by (auto simp: contains_iff in_set_conv_decomp)

lemma extract_protocol_sep:
  assumes "CHR ''/'' \<notin> set p" "trimmed (p @ ''/'' @ m)"
  shows "extract_protocol (p @ ''/'' @ m) = (p, m)"
  using assms by (simp add: extract_protocol_def trim_space_trimmed index_char_append)

text \<open>The protocol put before a model is the one taken from it again, unless the model brings a slash of its own: then
  what precedes that slash is the protocol, whatever the provider.\<close>

theorem protocol_roundtrip:
  assumes "CHR ''/'' \<notin> set p" "trimmed (p @ ''/'' @ m)"
  shows "extract_protocol (build_model_with_protocol p m) = (if CHR ''/'' \<in> set m then extract_protocol m else (p, m))"
  using extract_protocol_sep [OF assms] by (simp add: build_model_with_protocol_def contains_slash)

theorem protocol_roundtrip_witness:
  "extract_protocol (build_model_with_protocol ''nvidia'' ''meta/llama'') = extract_protocol ''meta/llama''"
proof -
  have "trimmed (''nvidia'' @ ''/'' @ ''meta/llama'')" unfolding trimmed_iff by code_simp
  from protocol_roundtrip [OF _ this] show ?thesis by simp
qed

lemma default_base_known:
  "protocol \<in> set (''openai'' # compatible_protocols) \<Longrightarrow> default_api_base protocol \<noteq> []"
  unfolding compatible_protocols_def list.set by (elim insertE emptyE; simp add: default_api_base_def)

text \<open>A provider that speaks HTTP has an address, the one configured or that of its protocol, and it is given the key
  of its entry and no other.\<close>

theorem http_provider_addressed:
  assumes "create_by_protocol w protocol modelID cfg = Inr (HTTPProvider key base proxy tokens t)"
  shows "key = me_APIKey cfg \<and> base \<noteq> [] \<and>
    base = or_default (me_APIBase cfg)
      (if protocol = ''anthropic'' then ''https://api.anthropic.com/v1'' else default_api_base protocol) \<and>
    (key \<noteq> [] \<or> me_APIBase cfg \<noteq> [])"
  using assms default_base_known [of protocol]
  by (auto simp: create_by_protocol_def create_http_def create_codex_auth_def create_claude_auth_def new_copilot_def
      or_default_def compatible_protocols_def Let_def
      split: if_splits sum.splits option.splits)

theorem http_provider_addressed_witness:
  "create_by_protocol \<lparr>pw_credential = (\<lambda>_. Inr None), pw_copilot = (\<lambda>_ _. None)\<rparr> ''groq'' ''llama''
     (zero_entry\<lparr>me_APIKey := ''k''\<rparr>) = Inr (HTTPProvider ''k'' ''https://api.groq.com/openai/v1'' [] [] 0) \<and>
   ''https://api.groq.com/openai/v1'' \<noteq> []"
proof -
  have "create_by_protocol \<lparr>pw_credential = (\<lambda>_. Inr None), pw_copilot = (\<lambda>_ _. None)\<rparr> ''groq'' ''llama''
     (zero_entry\<lparr>me_APIKey := ''k''\<rparr>) = Inr (HTTPProvider ''k'' ''https://api.groq.com/openai/v1'' [] [] 0)"
    by (simp add: create_by_protocol_def compatible_protocols_def create_http_def or_default_def default_api_base_def zero_entry_def)
  with http_provider_addressed [OF this] show ?thesis by blast
qed

section \<open>The provider of a configuration\<close>

text \<open>Merging the entries of the providers into the list is done once and for all: doing it again changes nothing.\<close>

theorem merge_providers_idempotent: "with_providers (with_providers cfg) = with_providers cfg"
proof (cases "has_providers_config cfg")
  case True
  let ?cfg = "with_providers cfg"
  have c: "convert_providers ?cfg = convert_providers cfg" and h: "has_providers_config ?cfg"
    using True by (simp_all add: with_providers_def convert_providers_def get_model_name_def has_providers_config_def)
  have "merge_missing (merge_missing l new) new = merge_missing l new" for l new
    by (auto simp: merge_missing_def filter_empty_conv image_iff)
  with True c h show ?thesis by (simp add: with_providers_def has_providers_config_def)
qed (simp add: with_providers_def)

lemma find_matches_merge:
  assumes "find_matches l name \<noteq> []"
  shows "find_matches (merge_missing l new) name = find_matches l name"
  using assms by (auto simp: find_matches_def merge_missing_def filter_empty_conv)

lemma find_matches_merge_new:
  assumes "find_matches l name = []"
  shows "find_matches (merge_missing l new) name = find_matches new name"
proof -
  have "name \<notin> me_ModelName ` set l" using assms by (auto simp: find_matches_def filter_empty_conv)
  then have "filter (\<lambda>x. me_ModelName x \<notin> me_ModelName ` set l \<and> me_ModelName x = name) new = filter (\<lambda>x. me_ModelName x = name) new"
    by (intro filter_cong) auto
  with assms show ?thesis by (simp add: find_matches_def merge_missing_def conj_commute)
qed

definition local_default :: model_entry where
  "local_default = listed ''private-local'' ''ollama/qwen3.5:latest'' ''http://localhost:11434/v1'' ''ollama'' []"

lemma find_local_default: "find_matches default_models ''private-local'' = [local_default]"
  by (simp add: find_matches_def default_models_def listed_def zero_entry_def local_default_def)

lemma get_single: "find_matches l name = [e] \<Longrightarrow> get_model_config l name ctr = (Some e, ctr)"
  by (simp add: get_model_config_def)

lemma local_default_created:
  "me_Workspace local_default = []"
  "create_provider_from_config w (local_default\<lparr>me_Workspace := ws\<rparr>) =
     Inr (HTTPProvider ''ollama'' ''http://localhost:11434/v1'' [] [] 0, ''qwen3.5:latest'')"
proof -
  have "trim_space ''ollama/qwen3.5:latest'' = ''ollama/qwen3.5:latest''" by code_simp
  then have "extract_protocol ''ollama/qwen3.5:latest'' = (''ollama'', ''qwen3.5:latest'')"
    by (simp add: extract_protocol_def)
  then show "create_provider_from_config w (local_default\<lparr>me_Workspace := ws\<rparr>) =
     Inr (HTTPProvider ''ollama'' ''http://localhost:11434/v1'' [] [] 0, ''qwen3.5:latest'')"
    by (simp add: create_provider_from_config_def create_by_protocol_def compatible_protocols_def create_http_def
        or_default_def local_default_def listed_def zero_entry_def)
qed (simp add: local_default_def listed_def zero_entry_def)

text \<open>Loading a file that has neither a list of models nor a model name.\<close>

lemma load_legacy:
  assumes "cf_ModelList f = Absent" "cf_ModelName f \<in> {Absent, JsonNull}"
  obtains c where "load_config True Some ws (FileParsed f) = Inr c" "cfg_ModelList c = default_models"
    "get_model_name c = ''private-local''"
proof -
  define c where "c = migrate_channel_configs (unmarshal_config f (default_config ws))"
  have u: "cfg_ModelList (unmarshal_config f (default_config ws)) = default_models"
    using assms(1) by (simp add: unmarshal_config_def default_config_def)
  have l: "cfg_ModelList c = default_models" and m: "cfg_ModelName c = ''private-local''"
    using assms by (auto simp: c_def unmarshal_config_def default_config_def)
  have t: "cfg_ModelList (unmarshal_config f zero_config) = []"
    using assms(1) by (simp add: unmarshal_config_def zero_config_def)
  have v: "validate_model_list c = None" by (simp add: validate_model_list_def l default_models_valid)
  have "load_config True Some ws (FileParsed f) = Inr c"
    by (simp add: load_config_def Let_def t v u l c_def [symmetric])
  moreover have "get_model_name c = ''private-local''" using m by (simp add: get_model_name_def)
  ultimately show ?thesis using l by (intro that)
qed

text \<open>C25 A configuration in the old form, as the migration guide shows it, starts the local model of the defaults, whatever
  provider, model and keys it gives.\<close>

theorem legacy_file_runs_default:
  assumes "cf_ModelList f = Absent" "cf_ModelName f \<in> {Absent, JsonNull}"
  shows "\<exists>c. load_config True Some ws (FileParsed f) = Inr c \<and>
    fst (create_provider w home c ctr) =
      Inr (HTTPProvider ''ollama'' ''http://localhost:11434/v1'' [] [] 0, ''qwen3.5:latest'')"
proof -
  obtain c where c: "load_config True Some ws (FileParsed f) = Inr c" "cfg_ModelList c = default_models"
    "get_model_name c = ''private-local''"
    using load_legacy [OF assms] .
  let ?l = "cfg_ModelList (with_providers c)"
  have f: "find_matches ?l ''private-local'' = [local_default]"
    using find_matches_merge [of default_models "''private-local''" "convert_providers c"] find_local_default c(2)
    by (simp add: with_providers_def)
  then have n: "length ?l \<noteq> 0" by (auto simp: find_matches_def)
  have "fst (create_provider w home c ctr) =
      Inr (HTTPProvider ''ollama'' ''http://localhost:11434/v1'' [] [] 0, ''qwen3.5:latest'')"
    unfolding create_provider_def Let_def c(3) get_single [OF f] if_not_P [OF n]
    by (simp only: prod.case option.case local_default_created if_True simp_thms sum.case fst_conv)
  with c(1) show ?thesis by blast
qed

theorem legacy_file_runs_default_witness:
  "\<exists>c. load_config True Some ''/w'' (FileParsed ((marshal_config guide_config)\<lparr>cf_ModelList := Absent, cf_ModelName := Absent\<rparr>)) =
      Inr c \<and>
    fst (create_provider \<lparr>pw_credential = (\<lambda>_. Inr None), pw_copilot = (\<lambda>_ _. None)\<rparr> ''/root'' c 0) =
      Inr (HTTPProvider ''ollama'' ''http://localhost:11434/v1'' [] [] 0, ''qwen3.5:latest'')"
  by (rule legacy_file_runs_default) simp_all

text \<open>Only OpenRouter filled in, without an address.\<close>

lemma openrouter_only:
  assumes "pc_APIKey p \<noteq> []"
  shows "configured (zero_providers\<lparr>prv_OpenRouter := p\<rparr>) =
    [rule [''openrouter''] ''openrouter'' (\<lambda>n p. access_entry n ''openrouter/auto'' (prv_OpenRouter p))]"
proof -
  have "pc_APIKey (prv_OpenAI zero_providers) = []" "pc_APIBase (prv_OpenAI zero_providers) = []"
    using zero_provider_access(2) by (simp_all only: unset_def)
  with assms show ?thesis
    by (simp add: configured_def migration_rules_def rule_build_None unset_def del: not_None_eq)
qed

lemma convert_openrouter:
  assumes "cfg_Provider c = []" "get_model_name c \<noteq> []" "cfg_Providers c = zero_providers\<lparr>prv_OpenRouter := p\<rparr>" "pc_APIKey p \<noteq> []"
  shows "convert_providers c =
    [zero_entry\<lparr>me_ModelName := get_model_name c, me_Model := build_model_with_protocol ''openrouter'' (get_model_name c),
       me_APIKey := pc_APIKey p, me_APIBase := pc_APIBase p, me_Proxy := pc_Proxy p, me_RequestTimeout := pc_RequestTimeout p\<rparr>]"
proof -
  have skip: "fold (migrate_step q up um) rs st = fold (migrate_step q up um) (filter (\<lambda>m. rule_build m q \<noteq> None) rs) st" for q up um rs st
    by (induction rs arbitrary: st) (auto simp: migrate_step_def split: prod.splits)
  have "convert_providers c = snd (fold (migrate_step (cfg_Providers c) [] (get_model_name c)) (configured (cfg_Providers c)) (False, []))"
    unfolding convert_providers_def configured_def skip [symmetric] assms(1) by simp
  also have "\<dots> = [zero_entry\<lparr>me_ModelName := get_model_name c, me_Model := build_model_with_protocol ''openrouter'' (get_model_name c),
       me_APIKey := pc_APIKey p, me_APIBase := pc_APIBase p, me_Proxy := pc_Proxy p, me_RequestTimeout := pc_RequestTimeout p\<rparr>]"
    unfolding assms(3) openrouter_only [OF assms(4)]
    using assms(2,4) by (simp add: migrate_step_def rule_def access_entry_def unset_def)
  finally show ?thesis .
qed


section \<open>The start\<close>

text \<open>An agent without a model of its own is looked up by the identifier of the model, not by the name it was configured
  under: unless an entry has that name its level of thinking is off, whatever its entry says.\<close>

theorem thinking_level_lost:
  assumes "create_provider w home cfg ctr = (Inr (provider, modelID), cfg', ctr')"
    and "modelID \<noteq> []" "find_matches (cfg_ModelList cfg') modelID = []"
    and "Option.bind agent as_Model = None"
  shows "\<exists>am. start_agent w home agent fallbacks light cfg ctr = Inr (provider, am) \<and> am_Model am = modelID \<and>
    am_Thinking am = ThinkingOff"
proof -
  have n: "resolve_agent_model agent (adopt_model_id modelID cfg') = modelID"
    using assms(2,4) by (simp add: resolve_agent_model_def get_model_name_def adopt_model_id_def)
  have l: "cfg_ModelList (adopt_model_id modelID cfg') = cfg_ModelList cfg'" by (simp add: adopt_model_id_def)
  have g: "get_model_config (cfg_ModelList cfg') modelID ctr' = (None, ctr')"
    using assms(3) by (simp add: get_model_config_def)
  have t: "parse_thinking_level [] = ThinkingOff" by (simp add: parse_thinking_level_def)
  obtain am c' where am: "agent_models home agent fallbacks light (adopt_model_id modelID cfg') ctr' = (am, c')" by fastforce
  then have "am_Model am = modelID \<and> am_Thinking am = ThinkingOff"
    unfolding agent_models_def Let_def n l g by (auto simp: t split: prod.splits)
  with am assms(1) show ?thesis by (simp add: start_agent_def)
qed

definition thinking_entry :: model_entry where
  "thinking_entry =
     zero_entry\<lparr>me_ModelName := ''claude'', me_Model := ''anthropic/claude-sonnet-4.6'', me_APIKey := ''k'',
                me_ThinkingLevel := ''high''\<rparr>"

definition thinking_config :: config where
  "thinking_config = (default_config ''/w'')\<lparr>cfg_ModelName := ''claude'', cfg_ModelList := [thinking_entry]\<rparr>"

definition offline :: provider_world where
  "offline = \<lparr>pw_credential = (\<lambda>_. Inr None), pw_copilot = (\<lambda>_ _. None)\<rparr>"

lemma thinking_created:
  "create_provider offline ''/root'' thinking_config 0 =
     (Inr (HTTPProvider ''k'' ''https://api.anthropic.com/v1'' [] [] 0, ''claude-sonnet-4.6''), thinking_config, 0)"
proof -
  have w: "with_providers thinking_config = thinking_config"
    by (simp add: with_providers_def has_providers_config_def thinking_config_def default_config_def)
  have l: "cfg_ModelList thinking_config = [thinking_entry]" by (simp add: thinking_config_def)
  have n: "get_model_name thinking_config = ''claude''" by (simp add: get_model_name_def thinking_config_def)
  have g: "get_model_config [thinking_entry] ''claude'' 0 = (Some thinking_entry, 0)"
    by (rule get_single) (simp add: find_matches_def thinking_entry_def)
  have "trim_space ''anthropic/claude-sonnet-4.6'' = ''anthropic/claude-sonnet-4.6''" by code_simp
  then have "extract_protocol ''anthropic/claude-sonnet-4.6'' = (''anthropic'', ''claude-sonnet-4.6'')"
    by (simp add: extract_protocol_def)
  then have c: "create_provider_from_config offline (thinking_entry\<lparr>me_Workspace := d\<rparr>) =
      Inr (HTTPProvider ''k'' ''https://api.anthropic.com/v1'' [] [] 0, ''claude-sonnet-4.6'')" for d
    by (simp add: create_provider_from_config_def create_by_protocol_def compatible_protocols_def oauth_method_def
        or_default_def thinking_entry_def zero_entry_def)
  have ws: "me_Workspace thinking_entry = []" by (simp add: thinking_entry_def zero_entry_def)
  show ?thesis unfolding create_provider_def Let_def w l n g by (simp add: ws c)
qed

theorem thinking_level_lost_witness:
  "\<exists>am. start_agent offline ''/root'' None [] None thinking_config 0 =
      Inr (HTTPProvider ''k'' ''https://api.anthropic.com/v1'' [] [] 0, am) \<and>
    am_Model am = ''claude-sonnet-4.6'' \<and> am_Thinking am = ThinkingOff"
  by (rule thinking_level_lost [OF thinking_created]) (simp_all add: find_matches_def thinking_config_def thinking_entry_def)


end
