(* ===== verification/IP_Address.thy ===== *)
theory IP_Address imports History "HOL-Library.Word" begin

text \<open>
  Addresses of the Internet as the guard of the tool \<open>web_fetch\<close> sees them (\<open>isObviousPrivateHost\<close> and
  \<open>isPrivateOrRestrictedIP\<close> of \<open>pkg/tools/web.go\<close>), over the type \<open>net.IP\<close> of the standard library: a list of 4 or 16
  bytes, nil being the empty list. The classifications and the parser of that type are written out, as the guard
  depends on them.
\<close>

unbundle bit_operations_syntax

section \<open>The type \<open>net.IP\<close>\<close>

type_synonym ip = "8 word list"

definition v4_in_v6 :: ip where
  "v4_in_v6 = replicate 10 0 @ [0xFF, 0xFF]"

text \<open>\<open>net.IPv4\<close>: the form with 16 bytes.\<close>

definition ipv4 :: "8 word \<Rightarrow> 8 word \<Rightarrow> 8 word \<Rightarrow> 8 word \<Rightarrow> ip" where
  "ipv4 a b c d = v4_in_v6 @ [a, b, c, d]"

definition to4 :: "ip \<Rightarrow> ip option" where
  "to4 x =
     (if length x = 4 then Some x
      else if length x = 16 \<and> take 12 x = v4_in_v6 then Some (drop 12 x)
      else None)"

definition ipv6_loopback :: ip where
  "ipv6_loopback = replicate 15 0 @ [1]"

definition is_loopback :: "ip \<Rightarrow> bool" where
  "is_loopback x = (case to4 x of Some q \<Rightarrow> q ! 0 = 127 | None \<Rightarrow> x = ipv6_loopback)"

definition is_link_local_unicast :: "ip \<Rightarrow> bool" where
  "is_link_local_unicast x =
     (case to4 x of
        Some q \<Rightarrow> q ! 0 = 169 \<and> q ! 1 = 254
      | None \<Rightarrow> length x = 16 \<and> x ! 0 = 0xFE \<and> x ! 1 AND 0xC0 = 0x80)"

definition is_link_local_multicast :: "ip \<Rightarrow> bool" where
  "is_link_local_multicast x =
     (case to4 x of
        Some q \<Rightarrow> q ! 0 = 224 \<and> q ! 1 = 0 \<and> q ! 2 = 0
      | None \<Rightarrow> length x = 16 \<and> x ! 0 = 0xFF \<and> x ! 1 AND 0x0F = 0x02)"

definition is_multicast :: "ip \<Rightarrow> bool" where
  "is_multicast x =
     (case to4 x of Some q \<Rightarrow> q ! 0 AND 0xF0 = 0xE0 | None \<Rightarrow> length x = 16 \<and> x ! 0 = 0xFF)"

definition is_unspecified :: "ip \<Rightarrow> bool" where
  "is_unspecified x = (case to4 x of Some q \<Rightarrow> q = [0, 0, 0, 0] | None \<Rightarrow> x = replicate 16 0)"

section \<open>Restricted addresses\<close>

definition restricted_v4 :: "ip \<Rightarrow> bool" where
  "restricted_v4 q \<longleftrightarrow>
     q ! 0 = 10 \<or>
     q ! 0 = 127 \<or>
     q ! 0 = 0 \<or>
     q ! 0 = 172 \<and> q ! 1 \<ge> 16 \<and> q ! 1 \<le> 31 \<or>
     q ! 0 = 192 \<and> q ! 1 = 168 \<or>
     q ! 0 = 169 \<and> q ! 1 = 254 \<or>
     q ! 0 = 100 \<and> q ! 1 \<ge> 64 \<and> q ! 1 \<le> 127"

lemma to4_ipv4 [simp]: "to4 (ipv4 a b c d) = Some [a, b, c, d]"
  by (simp add: to4_def ipv4_def v4_in_v6_def)

lemma to4_quad [simp]: "to4 [a, b, c, d] = Some [a, b, c, d]"
  by (simp add: to4_def)

text \<open>An address that carries another one is judged by that one.\<close>

function is_restricted_ip :: "ip \<Rightarrow> bool" where
  "is_restricted_ip x =
     (if x = [] then True
      else if is_loopback x \<or> is_link_local_unicast x \<or> is_link_local_multicast x \<or> is_multicast x \<or> is_unspecified x then True
      else case to4 x of
        Some q \<Rightarrow> restricted_v4 q
      | None \<Rightarrow>
          if length x = 16 then
            (if x ! 0 AND 0xFE = 0xFC then True
             else if x ! 0 = 0x20 \<and> x ! 1 = 0x02 then is_restricted_ip (ipv4 (x ! 2) (x ! 3) (x ! 4) (x ! 5))
             else if x ! 0 = 0x20 \<and> x ! 1 = 0x01 \<and> x ! 2 = 0 \<and> x ! 3 = 0 then
               is_restricted_ip (ipv4 (x ! 12 XOR 0xFF) (x ! 13 XOR 0xFF) (x ! 14 XOR 0xFF) (x ! 15 XOR 0xFF))
             else False)
          else False)"
  by pat_completeness auto
termination
  by (relation "measure (\<lambda>x. if to4 x = None then 1 else 0)") auto

declare is_restricted_ip.simps [simp del]

section \<open>Parsing\<close>

text \<open>\<open>netip.ParseAddr\<close>: four decimal fields, or groups of hexadecimal digits with at most one ellipsis and perhaps an
  address of the first kind at the end.\<close>

fun split_at :: "char \<Rightarrow> gostr \<Rightarrow> gostr list" where
  "split_at d [] = [[]]"
| "split_at d (c # s) =
     (if c = d then [] # split_at d s
      else case split_at d s of p # ps \<Rightarrow> (c # p) # ps | [] \<Rightarrow> [[c]])"

definition decimal_value :: "gostr \<Rightarrow> nat" where
  "decimal_value s = fold (\<lambda>c v. v * 10 + (code c - 48)) s 0"

definition parse_octet :: "gostr \<Rightarrow> 8 word option" where
  "parse_octet s =
     (if s = [] \<or> \<not> list_all is_digit s \<or> (length s > 1 \<and> hd s = CHR ''0'') \<or> decimal_value s > 255 then None
      else Some (word_of_nat (decimal_value s)))"

definition parse_ipv4 :: "gostr \<Rightarrow> ip option" where
  "parse_ipv4 s =
     (case map parse_octet (split_at (CHR ''.'') s) of
        [Some a, Some b, Some c, Some d] \<Rightarrow> Some [a, b, c, d]
      | _ \<Rightarrow> None)"

definition hex_value :: "char \<Rightarrow> nat option" where
  "hex_value c =
     (let n = code c in
      if is_digit c then Some (n - 48)
      else if 97 \<le> n \<and> n \<le> 102 then Some (n - 87)
      else if 65 \<le> n \<and> n \<le> 70 then Some (n - 55)
      else None)"

definition hex_digit :: "char \<Rightarrow> bool" where
  "hex_digit c = (hex_value c \<noteq> None)"

definition group_value :: "gostr \<Rightarrow> nat" where
  "group_value s = fold (\<lambda>c v. v * 16 + the (hex_value c)) s 0"

lemma shorter_rest: "c # d # s' = dropWhile P s \<Longrightarrow> length s' < length s \<and> Suc (length s') < length s"
  using length_dropWhile_le [of P s] by (auto dest!: arg_cong [of _ _ length])

text \<open>The loop over the groups: the bytes so far, the place of the ellipsis, the rest.\<close>

function parse_groups :: "ip \<Rightarrow> nat option \<Rightarrow> gostr \<Rightarrow> (ip \<times> nat option \<times> gostr) option" where
  "parse_groups bytes ellipsis s =
     (if length bytes \<ge> 16 then Some (bytes, ellipsis, s)
      else
        let h = takeWhile hex_digit s; rest = dropWhile hex_digit s in
        if h = [] \<or> length h > 4 then None
        else if rest \<noteq> [] \<and> hd rest = CHR ''.'' then
          (if (ellipsis = None \<and> length bytes \<noteq> 12) \<or> length bytes + 4 > 16 then None
           else case parse_ipv4 s of None \<Rightarrow> None | Some q \<Rightarrow> Some (bytes @ q, ellipsis, []))
        else
          let bytes' = bytes @ [word_of_nat (group_value h div 256), word_of_nat (group_value h mod 256)] in
          case rest of
            [] \<Rightarrow> Some (bytes', ellipsis, [])
          | [_] \<Rightarrow> None
          | c # d # s' \<Rightarrow>
              if c \<noteq> CHR '':'' then None
              else if d = CHR '':'' then
                (if ellipsis \<noteq> None then None
                 else if s' = [] then Some (bytes', Some (length bytes'), [])
                 else parse_groups bytes' (Some (length bytes')) s')
              else parse_groups bytes' ellipsis (d # s'))"
  by pat_completeness auto
termination
  by (relation "measure (\<lambda>(b, e, s). length s)") (auto dest!: shorter_rest)

declare parse_groups.simps [simp del]

definition expand_ellipsis :: "ip \<Rightarrow> nat option \<Rightarrow> ip option" where
  "expand_ellipsis bytes ellipsis =
     (if length bytes < 16 then
        (case ellipsis of
           None \<Rightarrow> None
         | Some e \<Rightarrow> Some (take e bytes @ replicate (16 - length bytes) 0 @ drop e bytes))
      else if ellipsis \<noteq> None then None
      else Some bytes)"

text \<open>\<open>net.ParseIP\<close> refuses zones, so that a percent sign is never part of an address.\<close>

definition parse_ipv6 :: "gostr \<Rightarrow> ip option" where
  "parse_ipv6 s =
     (if CHR ''%'' \<in> set s then None
      else if take 2 s = ''::'' then
        (if drop 2 s = [] then Some (replicate 16 0)
         else case parse_groups [] (Some 0) (drop 2 s) of
           Some (bytes, ellipsis, rest) \<Rightarrow> if rest = [] then expand_ellipsis bytes ellipsis else None
         | None \<Rightarrow> None)
      else case parse_groups [] None s of
        Some (bytes, ellipsis, rest) \<Rightarrow> if rest = [] then expand_ellipsis bytes ellipsis else None
      | None \<Rightarrow> None)"

definition parse_ip :: "gostr \<Rightarrow> ip option" where
  "parse_ip s =
     (case List.find (\<lambda>c. c = CHR ''.'' \<or> c = CHR '':'' \<or> c = CHR ''%'') s of
        None \<Rightarrow> None
      | Some c \<Rightarrow>
          if c = CHR ''.'' then map_option (\<lambda>q. v4_in_v6 @ q) (parse_ipv4 s)
          else if c = CHR '':'' then parse_ipv6 s
          else None)"

section \<open>The check of a host name\<close>

definition trim_suffix :: "gostr \<Rightarrow> gostr \<Rightarrow> gostr" where
  "trim_suffix s suf = (if has_suffix s suf then take (length s - length suf) s else s)"

text \<open>\<open>allow\<close> is the switch for tests.\<close>

definition is_obvious_private_host :: "bool \<Rightarrow> gostr \<Rightarrow> bool" where
  "is_obvious_private_host allow host =
     (if allow then False
      else
        let h = trim_suffix (to_lower (trim_space host)) ''.'' in
        if h = [] then True
        else if h = ''localhost'' \<or> has_suffix h ''.localhost'' then True
        else case parse_ip h of Some x \<Rightarrow> is_restricted_ip x | None \<Rightarrow> False)"

section \<open>Which addresses are restricted\<close>

declare show_nat.simps [simp del]

text \<open>An IPv4 address as a number, and the ranges it may be in.\<close>

definition quad_value :: "nat \<Rightarrow> nat \<Rightarrow> nat \<Rightarrow> nat \<Rightarrow> nat" where
  "quad_value a b c d = ((a * 256 + b) * 256 + c) * 256 + d"

definition ip4_word :: "8 word \<Rightarrow> 8 word \<Rightarrow> 8 word \<Rightarrow> 8 word \<Rightarrow> 32 word" where
  "ip4_word a b c d = word_of_nat (quad_value (unat a) (unat b) (unat c) (unat d))"

definition in_prefix :: "32 word \<Rightarrow> 32 word \<times> nat \<Rightarrow> bool" where
  "in_prefix a p = (drop_bit (32 - snd p) a = drop_bit (32 - snd p) (fst p))"

definition restricted_prefixes :: "(32 word \<times> nat) list" where
  "restricted_prefixes =
     [(ip4_word 0 0 0 0, 8), (ip4_word 10 0 0 0, 8), (ip4_word 100 64 0 0, 10), (ip4_word 127 0 0 0, 8),
      (ip4_word 169 254 0 0, 16), (ip4_word 172 16 0 0, 12), (ip4_word 192 168 0 0, 16), (ip4_word 224 0 0 0, 4)]"

lemma byte_less: "unat (a :: 8 word) < 256"
  using unsigned_less [of a] by simp

lemma unat_ip4_word: "unat (ip4_word a b c d) = quad_value (unat a) (unat b) (unat c) (unat d)"
proof -
  have "quad_value (unat a) (unat b) (unat c) (unat d) < 2 ^ 32"
    using byte_less [of a] byte_less [of b] byte_less [of c] byte_less [of d] by (simp add: quad_value_def)
  then show ?thesis unfolding ip4_word_def unat_of_nat by (simp add: take_bit_nat_eq_self)
qed

lemma quad_div:
  assumes "b < 256" "c < 256" "d < 256"
  shows "quad_value a b c d div 65536 = a * 256 + b" "quad_value a b c d div 16777216 = a"
    and "quad_value a b c d div 4194304 = a * 4 + b div 64" "quad_value a b c d div 1048576 = a * 16 + b div 16"
    and "quad_value a b c d div 268435456 = a div 16"
proof -
  have 1: "(x * 256 + y) div 256 = x" if "y < 256" for x y :: nat using that by simp
  have q: "quad_value a b c d div (256 * 256) = a * 256 + b"
    unfolding div_mult2_eq quad_value_def 1 [OF assms(3)] 1 [OF assms(2)] ..
  then show "quad_value a b c d div 65536 = a * 256 + b" by simp
  have m: "quad_value a b c d div (256 * 256 * k) = (a * 256 + b) div k" for k
    unfolding div_mult2_eq [of _ "256 * 256" k] q ..
  show "quad_value a b c d div 16777216 = a" using m [of 256] 1 [OF assms(1)] by simp
  have "(a * 256 + b) div 64 = a * 4 + b div 64" by presburger
  with m [of 64] show "quad_value a b c d div 4194304 = a * 4 + b div 64" by simp
  have "(a * 256 + b) div 16 = a * 16 + b div 16" by presburger
  with m [of 16] show "quad_value a b c d div 1048576 = a * 16 + b div 16" by simp
  have "(a * 256 + b) div (256 * 16) = a div 16" unfolding div_mult2_eq 1 [OF assms(1)] ..
  then have "(a * 256 + b) div 4096 = a div 16" by simp
  with m [of 4096] show "quad_value a b c d div 268435456 = a div 16" by simp
qed

lemma byte_eq_iff: "(a :: 8 word) = b \<longleftrightarrow> unat a = unat b"
  by (rule word_unat_eq_iff)

lemma multicast_byte: "(a :: 8 word) AND 0xF0 = 0xE0 \<longleftrightarrow> unat a div 16 = 14"
proof -
  have f: "(0xF0 :: 8 word) = push_bit 4 (mask 4)" by (simp add: mask_eq_exp_minus_1 push_bit_eq_mult)
  have "a AND push_bit 4 (mask 4) = push_bit 4 (drop_bit 4 a)"
    by (rule bit_word_eqI) (auto simp: bit_simps)
  then have "a AND 0xF0 = push_bit 4 (drop_bit 4 a)" unfolding f .
  moreover have "unat (push_bit 4 (drop_bit 4 a)) = unat a div 16 * 16"
  proof -
    have "unat (push_bit 4 (drop_bit 4 a)) = take_bit 8 (push_bit 4 (drop_bit 4 (unat a)))"
      unfolding unsigned_push_bit_eq unat_drop_bit_eq by simp
    also have "\<dots> = unat a div 16 * 16"
      using byte_less [of a] by (simp add: push_bit_eq_mult drop_bit_eq_div take_bit_nat_eq_self)
    finally show ?thesis .
  qed
  ultimately show ?thesis by (simp add: byte_eq_iff)
qed

lemma in_prefix_unat:
  "in_prefix (ip4_word a b c d) (y, n) \<longleftrightarrow>
     quad_value (unat a) (unat b) (unat c) (unat d) div 2 ^ (32 - n) = unat y div 2 ^ (32 - n)"
  unfolding in_prefix_def fst_conv snd_conv word_unat_eq_iff unat_drop_bit_eq unat_ip4_word unfolding drop_bit_eq_div ..

lemma in_prefix_bytes:
  "in_prefix (ip4_word a b c d) (ip4_word a' b' c' d', 8) \<longleftrightarrow> unat a = unat a'"
  "in_prefix (ip4_word a b c d) (ip4_word a' b' c' d', 16) \<longleftrightarrow> unat a = unat a' \<and> unat b = unat b'"
  "in_prefix (ip4_word a b c d) (ip4_word a' b' c' d', 10) \<longleftrightarrow> unat a = unat a' \<and> unat b div 64 = unat b' div 64"
  "in_prefix (ip4_word a b c d) (ip4_word a' b' c' d', 12) \<longleftrightarrow> unat a = unat a' \<and> unat b div 16 = unat b' div 16"
  "in_prefix (ip4_word a b c d) (ip4_word a' b' c' d', 4) \<longleftrightarrow> unat a div 16 = unat a' div 16"
proof -
  note q = quad_div [OF byte_less byte_less byte_less] and b = byte_less [of b] byte_less [of b']
  have e: "x * k + y = x' * k + y' \<longleftrightarrow> x = x' \<and> y = y'" if "y < k" "y' < k" for x y x' y' k :: nat
  proof
    assume eq: "x * k + y = x' * k + y'"
    then have "(x * k + y) mod k = (x' * k + y') mod k" by simp
    with that have "y = y'" by simp
    with eq that show "x = x' \<and> y = y'" by simp
  qed simp
  show "in_prefix (ip4_word a b c d) (ip4_word a' b' c' d', 8) \<longleftrightarrow> unat a = unat a'"
    unfolding in_prefix_unat unat_ip4_word by (simp add: q)
  show "in_prefix (ip4_word a b c d) (ip4_word a' b' c' d', 16) \<longleftrightarrow> unat a = unat a' \<and> unat b = unat b'"
    unfolding in_prefix_unat unat_ip4_word by (simp add: q e b)
  show "in_prefix (ip4_word a b c d) (ip4_word a' b' c' d', 10) \<longleftrightarrow> unat a = unat a' \<and> unat b div 64 = unat b' div 64"
    unfolding in_prefix_unat unat_ip4_word using b by (simp add: q e)
  show "in_prefix (ip4_word a b c d) (ip4_word a' b' c' d', 12) \<longleftrightarrow> unat a = unat a' \<and> unat b div 16 = unat b' div 16"
    unfolding in_prefix_unat unat_ip4_word using b by (simp add: q e)
  show "in_prefix (ip4_word a b c d) (ip4_word a' b' c' d', 4) \<longleftrightarrow> unat a div 16 = unat a' div 16"
    unfolding in_prefix_unat unat_ip4_word by (simp add: q)
qed

lemma in_restricted_prefixes:
  "list_ex (in_prefix (ip4_word a b c d)) restricted_prefixes \<longleftrightarrow>
     unat a = 0 \<or> unat a = 10 \<or> unat a = 100 \<and> unat b div 64 = 1 \<or> unat a = 127 \<or> unat a = 169 \<and> unat b = 254 \<or>
     unat a = 172 \<and> unat b div 16 = 1 \<or> unat a = 192 \<and> unat b = 168 \<or> unat a div 16 = 14"
  by (simp add: restricted_prefixes_def in_prefix_bytes)

lemma restricted_quad:
  assumes "to4 x = Some [a, b, c, d]"
  shows "is_restricted_ip x \<longleftrightarrow> list_ex (in_prefix (ip4_word a b c d)) restricted_prefixes"
proof -
  from assms have nx: "x \<noteq> []" by (auto simp: to4_def)
  have d: "n div 64 = 1 \<longleftrightarrow> 64 \<le> n \<and> n \<le> 127" "n div 16 = 1 \<longleftrightarrow> 16 \<le> n \<and> n \<le> 31" for n :: nat
    using div_less_iff_less_mult [of 64 n 2] less_eq_div_iff_mult_less_eq [of 64 1 n]
      div_less_iff_less_mult [of 16 n 2] less_eq_div_iff_mult_less_eq [of 16 1 n] by linarith+
  have "is_restricted_ip x \<longleftrightarrow>
      a = 127 \<or> a = 169 \<and> b = 254 \<or> a = 224 \<and> b = 0 \<and> c = 0 \<or> a AND 0xF0 = 0xE0 \<or> [a, b, c, d] = [0, 0, 0, 0] \<or>
      restricted_v4 [a, b, c, d]"
    using nx by (subst is_restricted_ip.simps) (simp add: is_loopback_def is_link_local_unicast_def is_link_local_multicast_def
        is_multicast_def is_unspecified_def assms, auto simp: restricted_v4_def)
  also have "\<dots> \<longleftrightarrow> list_ex (in_prefix (ip4_word a b c d)) restricted_prefixes"
  proof -
    have e: "x = 127 \<longleftrightarrow> unat x = 127" "x = 169 \<longleftrightarrow> unat x = 169" "x = 254 \<longleftrightarrow> unat x = 254" "x = 224 \<longleftrightarrow> unat x = 224"
      "x = 0 \<longleftrightarrow> unat x = 0" "x = 10 \<longleftrightarrow> unat x = 10" "x = 172 \<longleftrightarrow> unat x = 172" "x = 192 \<longleftrightarrow> unat x = 192"
      "x = 168 \<longleftrightarrow> unat x = 168" "x = 100 \<longleftrightarrow> unat x = 100" "16 \<le> x \<longleftrightarrow> 16 \<le> unat x" "x \<le> 31 \<longleftrightarrow> unat x \<le> 31"
      "64 \<le> x \<longleftrightarrow> 64 \<le> unat x" "x \<le> 127 \<longleftrightarrow> unat x \<le> 127" for x :: "8 word"
      by (simp_all add: byte_eq_iff word_le_nat_alt)
    have m: "unat a = 224 \<Longrightarrow> unat a div 16 = 14" by simp
    show ?thesis
      unfolding in_restricted_prefixes restricted_v4_def multicast_byte d
      unfolding list.inject nth_Cons_0 One_nat_def nth_Cons_Suc e using m by blast
  qed
  finally show ?thesis .
qed

text \<open>C28 The IPv4 addresses the guard holds back are those of eight ranges, in either form of the address.\<close>

theorem restricted_v4_ranges:
  "is_restricted_ip (ipv4 a b c d) = list_ex (in_prefix (ip4_word a b c d)) restricted_prefixes \<and>
   is_restricted_ip [a, b, c, d] = list_ex (in_prefix (ip4_word a b c d)) restricted_prefixes"
  using restricted_quad [OF to4_ipv4] restricted_quad [OF to4_quad] by blast

text \<open>C29 An address of the sixth version that carries one of the fourth is judged by it for 6to4 and Teredo. The prefix of NAT64
  and the compatible form are not: behind a NAT64 gateway, every address of the fourth version is reachable.\<close>

theorem embedded_addresses:
  "is_restricted_ip [0x20, 0x02, a, b, c, d, e1, e2, e3, e4, e5, e6, e7, e8, e9, e10] = is_restricted_ip (ipv4 a b c d) \<and>
   is_restricted_ip [0x20, 0x01, 0, 0, e1, e2, e3, e4, e5, e6, e7, e8, NOT a, NOT b, NOT c, NOT d] =
     is_restricted_ip (ipv4 a b c d) \<and>
   \<not> is_restricted_ip [0x00, 0x64, 0xFF, 0x9B, 0, 0, 0, 0, 0, 0, 0, 0, a, b, c, d]"
proof -
  have x: "NOT (y XOR 0xFF) = y" for y :: "8 word"
  proof -
    have "(0xFF :: 8 word) = NOT 0" by simp
    then show ?thesis by (simp only: bit.xor_compl_left bit.xor_compl_right bit.double_compl xor.right_neutral)
  qed
  have l: "to4 [x0, x1, x2, x3, x4, x5, x6, x7, x8, x9, x10, x11, x12, x13, x14, x15] = None" if "x0 \<noteq> 0 \<or> x1 \<noteq> 0"
    for x0 x1 x2 x3 x4 x5 x6 x7 x8 x9 x10 x11 x12 x13 x14 x15 :: "8 word"
    using that by (auto simp: to4_def v4_in_v6_def numeral_eq_Suc)
  have r: "x # xs = replicate n 0 \<longleftrightarrow> n = Suc (length xs) \<and> x = 0 \<and> xs = replicate (length xs) 0" for x :: "8 word" and xs n
    by (cases n) (auto simp: replicate_length_same [symmetric] dest: arg_cong [of _ _ length])
  note classes = r is_loopback_def is_link_local_unicast_def is_link_local_multicast_def is_multicast_def is_unspecified_def
    ipv6_loopback_def
  have 1: "is_restricted_ip [0x20, 0x02, a, b, c, d, e1, e2, e3, e4, e5, e6, e7, e8, e9, e10] = is_restricted_ip (ipv4 a b c d)"
    by (subst is_restricted_ip.simps) (simp add: classes l)
  have 2: "is_restricted_ip [0x20, 0x01, 0, 0, e1, e2, e3, e4, e5, e6, e7, e8, NOT a, NOT b, NOT c, NOT d] =
     is_restricted_ip (ipv4 a b c d)"
    by (subst is_restricted_ip.simps) (simp add: classes l x)
  have 3: "\<not> is_restricted_ip [0x00, 0x64, 0xFF, 0x9B, 0, 0, 0, 0, 0, 0, 0, 0, a, b, c, d]"
    by (subst is_restricted_ip.simps) (simp add: classes l)
  from 1 2 3 show ?thesis by blast
qed

section \<open>Literal hosts\<close>

definition dotted :: "8 word \<Rightarrow> 8 word \<Rightarrow> 8 word \<Rightarrow> 8 word \<Rightarrow> gostr" where
  "dotted a b c d =
     show_nat (unat a) @ ''.'' @ show_nat (unat b) @ ''.'' @ show_nat (unat c) @ ''.'' @ show_nat (unat d)"

lemma show_nat_nonempty [simp]: "show_nat n \<noteq> []"
  by (subst show_nat.simps) simp

lemma digit_char: "n < 10 \<Longrightarrow> is_digit (char_of (48 + n)) \<and> code (char_of (48 + n)) = 48 + n"
  by (simp add: is_digit_def)

lemma show_nat_digits: "list_all is_digit (show_nat n)"
proof (induction n rule: show_nat.induct)
  case (1 n)
  then show ?case by (subst show_nat.simps) (simp add: digit_char)
qed

lemma decimal_show_nat: "decimal_value (show_nat n) = n"
proof (induction n rule: show_nat.induct)
  case (1 n)
  then show ?case
    using digit_char [of n] digit_char [of "n mod 10"] by (subst show_nat.simps) (auto simp: decimal_value_def)
qed

lemma hd_show_nat: "n > 0 \<Longrightarrow> hd (show_nat n) \<noteq> CHR ''0''"
proof (induction n rule: show_nat.induct)
  case (1 n)
  have "char_of (48 + n) \<noteq> CHR ''0''" if "n < 10"
  proof
    assume "char_of (48 + n) = CHR ''0''"
    then have "code (char_of (48 + n)) = code (CHR ''0'')" by (rule arg_cong)
    with digit_char [OF that] 1(2) show False by (simp add: code_def)
  qed
  with 1 show ?case by (subst show_nat.simps) auto
qed

lemma octet_shown: "parse_octet (show_nat (unat a)) = Some a"
proof -
  have "hd (show_nat (unat a)) \<noteq> CHR ''0''" if "length (show_nat (unat a)) > 1"
    using that hd_show_nat [of "unat a"] by (cases "unat a = 0") (simp_all add: show_nat.simps [of 0])
  then show ?thesis
    using byte_less [of a] by (auto simp: parse_octet_def show_nat_digits decimal_show_nat)
qed

lemma digit_facts: "is_digit c \<Longrightarrow> c \<noteq> CHR ''.'' \<and> c \<noteq> CHR '':'' \<and> c \<noteq> CHR ''%'' \<and> \<not> is_space c \<and> \<not> is_upper c"
  by (auto simp: is_digit_def is_space_def is_upper_def code_def)

lemma not_in_digits:
  assumes "list_all is_digit s"
  shows "CHR ''.'' \<notin> set s" "\<And>c. c \<in> set s \<Longrightarrow> \<not> (c = CHR ''.'' \<or> c = CHR '':'' \<or> c = CHR ''%'')"
  using assms digit_facts by (auto simp: list_all_iff)

lemma split_at_sep: "d \<notin> set p \<Longrightarrow> split_at d (p @ d # s) = p # split_at d s"
  by (induction p) auto

lemma split_at_none: "d \<notin> set p \<Longrightarrow> split_at d p = [p]"
  by (induction p) auto

lemma find_append_none: "(\<And>c. c \<in> set p \<Longrightarrow> \<not> P c) \<Longrightarrow> List.find P (p @ q) = List.find P q"
  by (induction p) auto

lemma parse_dotted: "parse_ip (dotted a b c d) = Some (ipv4 a b c d)"
proof -
  note n = not_in_digits [OF show_nat_digits]
  have "List.find (\<lambda>c. c = CHR ''.'' \<or> c = CHR '':'' \<or> c = CHR ''%'') (dotted a b c d) = Some (CHR ''.'')"
    unfolding dotted_def by (subst find_append_none) (use n(2) in auto)
  moreover have "split_at (CHR ''.'') (dotted a b c d) =
      [show_nat (unat a), show_nat (unat b), show_nat (unat c), show_nat (unat d)]"
    by (simp add: dotted_def split_at_sep split_at_none n(1))
  ultimately show ?thesis by (simp add: parse_ip_def parse_ipv4_def octet_shown ipv4_def)
qed

lemma has_suffix_last: "has_suffix s p \<Longrightarrow> p \<noteq> [] \<Longrightarrow> s \<noteq> [] \<and> last s = last p"
proof -
  assume "has_suffix s p" "p \<noteq> []"
  then obtain z where "rev s = rev p @ z" by (auto simp: has_suffix_def has_prefix_iff prefix_def)
  then have "s = rev z @ p" by (metis rev_append rev_rev_ident)
  with \<open>p \<noteq> []\<close> show "s \<noteq> [] \<and> last s = last p" by simp
qed

lemma last_digit: "list_all is_digit s \<Longrightarrow> s \<noteq> [] \<Longrightarrow> is_digit (last s)"
  by (simp add: list_all_iff)

text \<open>A host given as an IPv4 address is refused before any connection exactly if it is in one of the eight ranges.\<close>

theorem dotted_host_checked:
  "is_obvious_private_host False (dotted a b c d) = list_ex (in_prefix (ip4_word a b c d)) restricted_prefixes"
proof -
  let ?h = "dotted a b c d"
  have dot: "\<not> is_space (CHR ''.'') \<and> \<not> is_upper (CHR ''.'')" by (simp add: is_space_def is_upper_def code_def)
  have dg: "c \<in> set (show_nat n) \<Longrightarrow> \<not> is_space c \<and> \<not> is_upper c" for c n
    using show_nat_digits [of n] digit_facts [of c] by (simp add: list_all_iff)
  have ch: "c \<in> set ?h \<Longrightarrow> \<not> is_space c \<and> \<not> is_upper c" for c
    unfolding dotted_def set_append using dg dot by auto
  then have t: "trim_space ?h = ?h" "to_lower ?h = ?h"
    by (auto intro: trim_space_trimmed trimmed_no_space to_lower_id)
  have l: "?h \<noteq> []" "is_digit (last ?h)" using last_digit [OF show_nat_digits] by (simp_all add: dotted_def)
  have s: "\<not> has_suffix ?h ''.''" "\<not> has_suffix ?h ''.localhost''" "?h \<noteq> ''localhost''"
    using l has_suffix_last [of ?h "''.''"] has_suffix_last [of ?h "''.localhost''"] by (auto simp: is_digit_def code_def)
  have "is_obvious_private_host False ?h = is_restricted_ip (ipv4 a b c d)"
    by (simp add: is_obvious_private_host_def Let_def t trim_suffix_def s l parse_dotted)
  then show ?thesis using restricted_quad [OF to4_ipv4, of a b c d] by simp
qed

end
