(* ===== verification/Web_Access.thy ===== *)
theory Web_Access imports Complex_Main IP_Address Tool_Registry begin

text \<open>
  The web tools, \<open>pkg/tools/web.go\<close>: searching with one of several services and a pool of keys, and fetching a page
  past the guard against private addresses, with the HTTP client of \<open>pkg/utils/http_client.go\<close> and what the standard
  library does with it (the proxy, the dialer, redirects).

  The network is a parameter: how names are resolved, which connections come about and what is answered may differ
  from one moment to the next. Parsing a URL and printing JSON are arguments too. A price of this: connections
  that are kept open and used again are not told from new ones to the same address.
\<close>

unbundle bit_operations_syntax
declare show_nat.simps [simp del]

section \<open>Pools of keys\<close>

record key_pool =
  kp_keys :: "gostr list"
  kp_current :: "32 word"

definition new_key_pool :: "gostr list \<Rightarrow> key_pool" where
  "new_key_pool keys = \<lparr>kp_keys = keys, kp_current = 0\<rparr>"

text \<open>An iterator is the place it starts at and the attempts made.\<close>

definition new_iterator :: "key_pool \<Rightarrow> (32 word \<times> 32 word) \<times> key_pool" where
  "new_iterator p =
     (if kp_keys p = [] then ((0, 0), p)
      else ((kp_current p, 0), p\<lparr>kp_current := kp_current p + 1\<rparr>))"

definition iterator_next :: "gostr list \<Rightarrow> 32 word \<times> 32 word \<Rightarrow> (gostr \<times> 32 word \<times> 32 word) option" where
  "iterator_next keys it =
     (case it of (start, attempt) \<Rightarrow>
        let len = word_of_nat (length keys) in
        if len = 0 \<or> attempt \<ge> len then None
        else Some (keys ! unat ((start + attempt) mod len), start, attempt + 1))"

section \<open>Searching\<close>

datatype key_reply = RequestFailed gostr | ReadBroken gostr | Replied int gostr

datatype search_error = AllKeysFailed "key_reply option" | StatusError int gostr | ParseError | RequestError gostr

text \<open>Whether the next key is tried after a status other than OK.\<close>

definition retry_status :: "int \<Rightarrow> bool" where
  "retry_status status \<longleftrightarrow> status = 429 \<or> status = 401 \<or> status = 403 \<or> status \<ge> 500"

lemma iterator_next_less:
  assumes "iterator_next keys it = Some (key, it')"
  shows "unat (word_of_nat (length keys) :: 32 word) - unat (snd it') < unat (word_of_nat (length keys) :: 32 word) - unat (snd it)"
proof -
  obtain start attempt where it: "it = (start, attempt)" by (cases it)
  let ?len = "word_of_nat (length keys) :: 32 word"
  from assms it have "attempt < ?len" and it': "snd it' = attempt + 1"
    by (auto simp: iterator_next_def Let_def split: if_splits)
  then have "unat attempt < unat ?len" by (simp add: word_less_nat_alt)
  moreover have "unat ?len < 2 ^ 32" using unsigned_less [of ?len] by simp
  ultimately have "unat attempt < unat ?len" "unat attempt + 1 < 2 ^ 32" by simp_all
  moreover from this(2) have "unat (attempt + 1) = unat attempt + 1" by (simp add: unat_add_lem [THEN iffD1])
  ultimately show ?thesis by (simp add: it it')
qed

text \<open>The loop that Brave, Tavily and Perplexity share; \<open>parse\<close> reads the answer and gives the text.\<close>

function key_loop ::
  "(gostr \<Rightarrow> key_reply) \<Rightarrow> (gostr \<Rightarrow> gostr option) \<Rightarrow> gostr list \<Rightarrow> 32 word \<times> 32 word \<Rightarrow> key_reply option
   \<Rightarrow> search_error + gostr" where
  "key_loop respond parse keys it last_error =
     (case iterator_next keys it of
        None \<Rightarrow> Inl (AllKeysFailed last_error)
      | Some (key, it') \<Rightarrow>
          (case respond key of
             Replied status body \<Rightarrow>
               if status \<noteq> 200 then
                 (if retry_status status then key_loop respond parse keys it' (Some (Replied status body))
                  else Inl (StatusError status body))
               else (case parse body of None \<Rightarrow> Inl ParseError | Some text0 \<Rightarrow> Inr text0)
           | failed \<Rightarrow> key_loop respond parse keys it' (Some failed)))"
  by pat_completeness auto
termination
  by (relation "measure (\<lambda>(_, _, keys, it, _). unat (word_of_nat (length keys) :: 32 word) - unat (snd it))")
    (auto dest: iterator_next_less)

declare key_loop.simps [simp del]

record search_item =
  si_Title :: gostr
  si_URL :: gostr
  si_Content :: gostr

fun join_nl :: "gostr list \<Rightarrow> gostr" where
  "join_nl [] = []"
| "join_nl [x] = x"
| "join_nl (x # y # xs) = x @ nl @ join_nl (y # xs)"

definition item_lines :: "nat \<times> search_item \<Rightarrow> gostr list" where
  "item_lines ii =
     (case ii of (i, item) \<Rightarrow>
        (show_nat (i + 1) @ ''. '' @ si_Title item @ nl @ ''   '' @ si_URL item) #
        (if si_Content item \<noteq> [] then [''   '' @ si_Content item] else []))"

definition numbered :: "search_item list \<Rightarrow> nat \<Rightarrow> (nat \<times> search_item) list" where
  "numbered items count = take count (zip [0..<length items] items)"

text \<open>The text for Brave, Tavily and GLM, which differ in \<open>via\<close>, and for SearXNG.\<close>

definition result_text :: "gostr \<Rightarrow> gostr \<Rightarrow> nat \<Rightarrow> search_item list \<Rightarrow> gostr" where
  "result_text via query count items =
     (if items = [] then ''No results for: '' @ query
      else join_nl ((''Results for: '' @ query @ via) # concat (map item_lines (numbered items count))))"

definition searxng_text :: "gostr \<Rightarrow> nat \<Rightarrow> search_item list \<Rightarrow> gostr" where
  "searxng_text query count items =
     (if items = [] then ''No results for: '' @ query
      else ''Results for: '' @ query @ '' (via SearXNG)'' @ nl @
        concat (map (\<lambda>l. l @ nl) (concat (map item_lines (numbered items count)))))"

definition perplexity_text :: "gostr \<Rightarrow> gostr list \<Rightarrow> gostr" where
  "perplexity_text query choices =
     (case choices of [] \<Rightarrow> ''No results for: '' @ query
      | content # _ \<Rightarrow> ''Results for: '' @ query @ '' (via Perplexity)'' @ nl @ content)"

text \<open>\<open>items\<close> and \<open>choices\<close> decode the JSON of an answer.\<close>

definition brave_search ::
  "(gostr \<Rightarrow> search_item list option) \<Rightarrow> (gostr \<Rightarrow> key_reply) \<Rightarrow> key_pool \<Rightarrow> gostr \<Rightarrow> nat \<Rightarrow> (search_error + gostr) \<times> key_pool" where
  "brave_search items respond pool query count =
     (case new_iterator pool of (it, pool') \<Rightarrow>
        (key_loop respond (\<lambda>body. map_option (result_text [] query count) (items body)) (kp_keys pool) it None, pool'))"

definition tavily_search ::
  "(gostr \<Rightarrow> search_item list option) \<Rightarrow> (gostr \<Rightarrow> key_reply) \<Rightarrow> key_pool \<Rightarrow> gostr \<Rightarrow> nat \<Rightarrow> (search_error + gostr) \<times> key_pool" where
  "tavily_search items respond pool query count =
     (case new_iterator pool of (it, pool') \<Rightarrow>
        (key_loop respond (\<lambda>body. map_option (result_text '' (via Tavily)'' query count) (items body)) (kp_keys pool) it None,
         pool'))"

definition perplexity_search ::
  "(gostr \<Rightarrow> gostr list option) \<Rightarrow> (gostr \<Rightarrow> key_reply) \<Rightarrow> key_pool \<Rightarrow> gostr \<Rightarrow> (search_error + gostr) \<times> key_pool" where
  "perplexity_search choices respond pool query =
     (case new_iterator pool of (it, pool') \<Rightarrow>
        (key_loop respond (\<lambda>body. map_option (perplexity_text query) (choices body)) (kp_keys pool) it None, pool'))"

definition glm_search ::
  "(gostr \<Rightarrow> search_item list option) \<Rightarrow> key_reply \<Rightarrow> gostr \<Rightarrow> nat \<Rightarrow> search_error + gostr" where
  "glm_search items reply query count =
     (case reply of
        RequestFailed e \<Rightarrow> Inl (RequestError e)
      | ReadBroken e \<Rightarrow> Inl (RequestError e)
      | Replied status body \<Rightarrow>
          if status \<noteq> 200 then Inl (StatusError status body)
          else case items body of None \<Rightarrow> Inl ParseError | Some r \<Rightarrow> Inr (result_text '' (via GLM Search)'' query count r))"

definition searxng_search ::
  "(gostr \<Rightarrow> search_item list option) \<Rightarrow> key_reply \<Rightarrow> gostr \<Rightarrow> nat \<Rightarrow> search_error + gostr" where
  "searxng_search items reply query count =
     (case reply of
        RequestFailed e \<Rightarrow> Inl (RequestError e)
      | ReadBroken e \<Rightarrow> Inl ParseError
      | Replied status body \<Rightarrow>
          if status \<noteq> 200 then Inl (StatusError status [])
          else case items body of None \<Rightarrow> Inl ParseError | Some r \<Rightarrow> Inr (searxng_text query count r))"

section \<open>URLs and clients\<close>

text \<open>A parsed URL: its scheme, the host with and without the port, and the port.\<close>

record url =
  url_Scheme :: gostr
  url_Host :: gostr
  url_Hostname :: gostr
  url_Port :: gostr

datatype client_error = InvalidProxy | UnsupportedProxyScheme | ProxyWithoutHost

text \<open>\<open>CreateHTTPClient\<close>: the proxy to use, or none when the environment decides.\<close>

definition create_http_client :: "(gostr \<Rightarrow> url option) \<Rightarrow> gostr \<Rightarrow> client_error + url option" where
  "create_http_client parse_url proxyURL =
     (if proxyURL \<noteq> [] then
        (case parse_url proxyURL of
           None \<Rightarrow> Inl InvalidProxy
         | Some proxy \<Rightarrow>
             if to_lower (url_Scheme proxy) \<notin> {''http'', ''https'', ''socks5'', ''socks5h''} then Inl UnsupportedProxyScheme
             else if url_Host proxy = [] then Inl ProxyWithoutHost
             else Inr (Some proxy))
      else Inr None)"

datatype search_service =
    PerplexityService "gostr list"
  | BraveService "gostr list"
  | SearXNGService gostr
  | TavilyService "gostr list" gostr
  | DuckDuckGoService
  | GLMService gostr gostr gostr

record search_options =
  so_BraveAPIKeys :: "gostr list"
  so_BraveMaxResults :: int
  so_BraveEnabled :: bool
  so_TavilyAPIKeys :: "gostr list"
  so_TavilyBaseURL :: gostr
  so_TavilyMaxResults :: int
  so_TavilyEnabled :: bool
  so_DuckDuckGoMaxResults :: int
  so_DuckDuckGoEnabled :: bool
  so_PerplexityAPIKeys :: "gostr list"
  so_PerplexityMaxResults :: int
  so_PerplexityEnabled :: bool
  so_SearXNGBaseURL :: gostr
  so_SearXNGMaxResults :: int
  so_SearXNGEnabled :: bool
  so_GLMSearchAPIKey :: gostr
  so_GLMSearchBaseURL :: gostr
  so_GLMSearchEngine :: gostr
  so_GLMSearchMaxResults :: int
  so_GLMSearchEnabled :: bool
  so_Proxy :: gostr

text \<open>The service chosen, whether it uses the client with the proxy, and its limit of results.\<close>

definition choose_service :: "search_options \<Rightarrow> (search_service \<times> bool \<times> int) option" where
  "choose_service o1 =
     (if so_PerplexityEnabled o1 \<and> so_PerplexityAPIKeys o1 \<noteq> [] then
        Some (PerplexityService (so_PerplexityAPIKeys o1), True, so_PerplexityMaxResults o1)
      else if so_BraveEnabled o1 \<and> so_BraveAPIKeys o1 \<noteq> [] then
        Some (BraveService (so_BraveAPIKeys o1), True, so_BraveMaxResults o1)
      else if so_SearXNGEnabled o1 \<and> so_SearXNGBaseURL o1 \<noteq> [] then
        Some (SearXNGService (so_SearXNGBaseURL o1), False, so_SearXNGMaxResults o1)
      else if so_TavilyEnabled o1 \<and> so_TavilyAPIKeys o1 \<noteq> [] then
        Some (TavilyService (so_TavilyAPIKeys o1) (so_TavilyBaseURL o1), True, so_TavilyMaxResults o1)
      else if so_DuckDuckGoEnabled o1 then
        Some (DuckDuckGoService, True, so_DuckDuckGoMaxResults o1)
      else if so_GLMSearchEnabled o1 \<and> so_GLMSearchAPIKey o1 \<noteq> [] then
        Some (GLMService (so_GLMSearchAPIKey o1) (so_GLMSearchBaseURL o1)
                (if so_GLMSearchEngine o1 = [] then ''search_std'' else so_GLMSearchEngine o1),
              True, so_GLMSearchMaxResults o1)
      else None)"

definition new_web_search_tool ::
  "(gostr \<Rightarrow> url option) \<Rightarrow> search_options \<Rightarrow> client_error + (search_service \<times> int) option" where
  "new_web_search_tool parse_url o1 =
     (case choose_service o1 of
        None \<Rightarrow> Inr None
      | Some (service, client, limit) \<Rightarrow>
          let maxResults = (if limit > 0 then limit else 5) in
          if client then
            (case create_http_client parse_url (so_Proxy o1) of
               Inl e \<Rightarrow> Inl e
             | Inr _ \<Rightarrow> Inr (Some (service, maxResults)))
          else Inr (Some (service, maxResults)))"

text \<open>The conversion \<open>int(f)\<close> of a \<open>float64\<close> on amd64.\<close>

definition float_int :: "rat \<Rightarrow> int" where
  "float_int v = (let n = (if v < 0 then \<lceil>v\<rceil> else \<lfloor>v\<rfloor>) in if n < - (2 ^ 63) \<or> n \<ge> 2 ^ 63 then - (2 ^ 63) else n)"

text \<open>The tool: its arguments by the type they are asserted to have, and the service as a function of query and count.\<close>

definition web_search_execute ::
  "int \<Rightarrow> (gostr \<Rightarrow> int \<Rightarrow> gostr + gostr) \<Rightarrow> gostr option \<Rightarrow> rat option \<Rightarrow> tool_result" where
  "web_search_execute maxResults search query0 count0 =
     (case query0 of
        None \<Rightarrow> error_result ''query is required''
      | Some query \<Rightarrow>
          let count = (case count0 of
                         Some c \<Rightarrow> if float_int c > 0 \<and> float_int c \<le> 10 then float_int c else maxResults
                       | None \<Rightarrow> maxResults) in
          (case search query count of
             Inl err \<Rightarrow> error_result (''search failed: '' @ err)
           | Inr result \<Rightarrow> (new_tool_result result)\<lparr>res_ForUser := result\<rparr>))"

section \<open>Dialing\<close>

text \<open>A connection to an address, or, when the guard is off, to a name.\<close>

datatype connection = ToAddress ip gostr | ToHost gostr gostr

record network =
  net_resolve :: "nat \<Rightarrow> gostr \<Rightarrow> ip list option"
  net_connect :: "nat \<Rightarrow> connection \<Rightarrow> bool"

datatype dial_error = EmptyTarget | BlockedTarget gostr | ResolveFailed gostr | AllRestricted gostr | ConnectFailed gostr

text \<open>The loop over the addresses of a name: the connection, or the number of addresses tried; and what was tried.\<close>

fun try_addresses :: "network \<Rightarrow> nat \<Rightarrow> gostr \<Rightarrow> ip list \<Rightarrow> nat \<Rightarrow> (nat + connection) \<times> connection list" where
  "try_addresses net t port [] attempted = (Inl attempted, [])"
| "try_addresses net t port (x # xs) attempted =
     (if is_restricted_ip x then try_addresses net t port xs attempted
      else if net_connect net t (ToAddress x port) then (Inr (ToAddress x port), [ToAddress x port])
      else case try_addresses net t port xs (attempted + 1) of (r, tried) \<Rightarrow> (r, ToAddress x port # tried))"

text \<open>\<open>newSafeDialContext\<close>: the connection or the error, and every connection tried.\<close>

definition safe_dial ::
  "bool \<Rightarrow> network \<Rightarrow> nat \<Rightarrow> gostr \<Rightarrow> gostr \<Rightarrow> (dial_error + connection) \<times> connection list" where
  "safe_dial allow net t host port =
     (if allow then
        (if net_connect net t (ToHost host port) then Inr (ToHost host port) else Inl (ConnectFailed host), [ToHost host port])
      else if host = [] then (Inl EmptyTarget, [])
      else case parse_ip host of
        Some x \<Rightarrow>
          if is_restricted_ip x then (Inl (BlockedTarget host), [])
          else (if net_connect net t (ToAddress x port) then Inr (ToAddress x port) else Inl (ConnectFailed host),
                [ToAddress x port])
      | None \<Rightarrow>
          (case net_resolve net t host of
             None \<Rightarrow> (Inl (ResolveFailed host), [])
           | Some xs \<Rightarrow>
               (case try_addresses net t port xs 0 of
                  (Inr c, tried) \<Rightarrow> (Inr c, tried)
                | (Inl attempted, tried) \<Rightarrow>
                    (Inl (if attempted = 0 then AllRestricted host else ConnectFailed host), tried))))"

section \<open>Fetching\<close>

record page =
  pg_Status :: int
  pg_ContentType :: gostr
  pg_Body :: gostr
  pg_ReadError :: "gostr option"

text \<open>What a server answers: a page, or a redirect with its target if that can be parsed.\<close>

datatype http_response = RedirectTo "url option" | Page page

datatype fetch_error =
    UnsupportedScheme
  | DialError dial_error
  | BadLocation
  | TooManyRedirects
  | PrivateRedirect

definition max_redirects :: nat where
  "max_redirects = 5"

definition default_port :: "url \<Rightarrow> gostr" where
  "default_port u = (if url_Port u \<noteq> [] then url_Port u else if url_Scheme u = ''https'' then ''443''
     else if url_Scheme u \<in> {''socks5'', ''socks5h''} then ''1080'' else ''80'')"

text \<open>The client: \<open>proxy\<close> chooses the proxy for a URL, \<open>serve\<close> is what comes back over a connection, \<open>via\<close> the number of
  requests made. Redirects pass \<open>CheckRedirect\<close>.\<close>

function follow ::
  "bool \<Rightarrow> network \<Rightarrow> (nat \<Rightarrow> connection \<Rightarrow> url \<Rightarrow> http_response) \<Rightarrow> (url \<Rightarrow> url option) \<Rightarrow> nat \<Rightarrow> url
   \<Rightarrow> (fetch_error + page) \<times> connection list" where
  "follow allow net serve proxy via u =
     (if url_Scheme u \<notin> {''http'', ''https''} \<or> url_Host u = [] then (Inl UnsupportedScheme, [])
      else
        let target = (case proxy u of None \<Rightarrow> u | Some p \<Rightarrow> p) in
        case safe_dial allow net via (url_Hostname target) (default_port target) of
          (Inl e, tried) \<Rightarrow> (Inl (DialError e), tried)
        | (Inr c, tried) \<Rightarrow>
            (case serve via c u of
               Page p \<Rightarrow> (Inr p, tried)
             | RedirectTo None \<Rightarrow> (Inl BadLocation, tried)
             | RedirectTo (Some u') \<Rightarrow>
                 if via + 1 \<ge> max_redirects then (Inl TooManyRedirects, tried)
                 else if is_obvious_private_host allow (url_Hostname u') then (Inl PrivateRedirect, tried)
                 else case follow allow net serve proxy (via + 1) u' of (r, tried') \<Rightarrow> (r, tried @ tried')))"
  by pat_completeness auto
termination
  by (relation "measure (\<lambda>(_, _, _, _, via, _). max_redirects - via)") auto

declare follow.simps [simp del]

section \<open>Text of a page\<close>

text \<open>\<open>reScript\<close> and \<open>reStyle\<close>: from the opening to the next closing, as long as there is one.\<close>

fun after_first :: "gostr \<Rightarrow> gostr \<Rightarrow> gostr option" where
  "after_first w s =
     (if has_prefix s w then Some (drop (length w) s)
      else case s of [] \<Rightarrow> None | _ # s' \<Rightarrow> after_first w s')"

lemma after_first_le: "after_first w s = Some r \<Longrightarrow> length r \<le> length s"
  by (induction s) (auto split: if_splits)

declare after_first.simps [simp del]

function remove_blocks :: "gostr \<Rightarrow> gostr \<Rightarrow> gostr \<Rightarrow> gostr" where
  "remove_blocks op cl s =
     (case s of
        [] \<Rightarrow> []
      | c # s' \<Rightarrow>
          if op \<noteq> [] \<and> has_prefix s op then
            (case after_first cl (drop (length op) s) of
               Some r \<Rightarrow> remove_blocks op cl r
             | None \<Rightarrow> c # remove_blocks op cl s')
          else c # remove_blocks op cl s')"
  by pat_completeness auto
termination
  by (relation "measure (\<lambda>(_, _, s). length s)") (auto dest!: after_first_le simp: neq_Nil_conv)

declare remove_blocks.simps [simp del]

text \<open>\<open>reTags\<close>: an angle bracket, at least one character that does not close it, and the closing one.\<close>

function strip_tags :: "gostr \<Rightarrow> gostr" where
  "strip_tags s =
     (case s of
        [] \<Rightarrow> []
      | c # s' \<Rightarrow>
          if c = CHR ''<'' then
            (let name = takeWhile (\<lambda>d. d \<noteq> CHR ''>'') s'; rest = dropWhile (\<lambda>d. d \<noteq> CHR ''>'') s' in
             if name \<noteq> [] \<and> rest \<noteq> [] then strip_tags (tl rest) else c # strip_tags s')
          else c # strip_tags s')"
  by pat_completeness auto
termination
proof (relation "measure length", simp_all)
  fix s' :: gostr
  show "length (dropWhile (\<lambda>d. d \<noteq> CHR ''>'') s') - Suc 0 < Suc (length s')"
    using length_dropWhile_le [of "\<lambda>d. d \<noteq> CHR ''>''" s'] by simp
qed

declare strip_tags.simps [simp del]

text \<open>Runs of white space other than newlines become one blank; more than two newlines become two.\<close>

definition blank :: "char \<Rightarrow> bool" where
  "blank c \<longleftrightarrow> code c = 32 \<or> code c = 9 \<or> code c = 12 \<or> code c = 13"

definition newline :: char where
  "newline = CHR 0x0A"

fun squeeze_blanks :: "bool \<Rightarrow> gostr \<Rightarrow> gostr" where
  "squeeze_blanks before [] = []"
| "squeeze_blanks before (c # s) =
     (if blank c then (if before then squeeze_blanks True s else CHR '' '' # squeeze_blanks True s)
      else c # squeeze_blanks False s)"

fun squeeze_newlines :: "nat \<Rightarrow> gostr \<Rightarrow> gostr" where
  "squeeze_newlines run [] = []"
| "squeeze_newlines run (c # s) =
     (if c = newline then (if run \<ge> 2 then squeeze_newlines run s else c # squeeze_newlines (run + 1) s)
      else c # squeeze_newlines 0 s)"

definition extract_text :: "gostr \<Rightarrow> gostr" where
  "extract_text html =
     (let r1 = remove_blocks ''<script'' ''</script>'' html;
          r2 = remove_blocks ''<style'' ''</style>'' r1;
          r3 = trim_space (strip_tags r2);
          r4 = squeeze_newlines 0 (squeeze_blanks False r3) in
      join_nl (filter (\<lambda>l. l \<noteq> []) (map trim_space (split_at newline r4))))"

text \<open>The choice by type; \<open>pretty\<close> parses JSON and prints it with indentation.\<close>

definition page_text :: "(gostr \<Rightarrow> gostr option) \<Rightarrow> gostr \<Rightarrow> gostr \<Rightarrow> gostr \<times> gostr" where
  "page_text pretty contentType body =
     (if contains contentType ''application/json'' then
        (case pretty body of Some formatted \<Rightarrow> (formatted, ''json'') | None \<Rightarrow> (body, ''raw''))
      else if contains contentType ''text/html'' \<or>
          (body \<noteq> [] \<and> (has_prefix body ''<!DOCTYPE'' \<or> has_prefix (to_lower body) ''<html'')) then
        (extract_text body, ''text'')
      else (body, ''raw''))"

section \<open>The tool that fetches\<close>

record fetch_tool =
  ft_maxChars :: int
  ft_proxy :: "url option"
  ft_limit :: int

definition new_web_fetch_tool :: "(gostr \<Rightarrow> url option) \<Rightarrow> int \<Rightarrow> gostr \<Rightarrow> int \<Rightarrow> client_error + fetch_tool" where
  "new_web_fetch_tool parse_url maxChars proxy limit =
     (case create_http_client parse_url proxy of
        Inl e \<Rightarrow> Inl e
      | Inr p \<Rightarrow>
          Inr \<lparr>ft_maxChars = (if maxChars \<le> 0 then 50000 else maxChars), ft_proxy = p,
               ft_limit = (if limit \<le> 0 then 10 * 1024 * 1024 else limit)\<rparr>)"

record fetch_report =
  fr_URL :: gostr
  fr_Status :: int
  fr_Extractor :: gostr
  fr_Truncated :: bool
  fr_Length :: nat
  fr_Text :: gostr

datatype fetch_failure =
    URLRequired
  | InvalidURL
  | SchemeNotAllowed
  | MissingDomain
  | PrivateHost
  | FetchFailed fetch_error
  | SizeExceeded
  | ReadFailure gostr

definition fetch_max_chars :: "fetch_tool \<Rightarrow> rat option \<Rightarrow> int" where
  "fetch_max_chars tool mc =
     (case mc of Some v \<Rightarrow> if float_int v > 100 then float_int v else ft_maxChars tool | None \<Rightarrow> ft_maxChars tool)"

definition read_page :: "fetch_tool \<Rightarrow> page \<Rightarrow> fetch_failure + gostr" where
  "read_page tool p =
     (if int (length (pg_Body p)) > ft_limit tool then Inl SizeExceeded
      else case pg_ReadError p of Some e \<Rightarrow> Inl (ReadFailure e) | None \<Rightarrow> Inr (pg_Body p))"

definition report_page ::
  "(gostr \<Rightarrow> gostr option) \<Rightarrow> gostr \<Rightarrow> int \<Rightarrow> page \<Rightarrow> gostr \<Rightarrow> fetch_report" where
  "report_page pretty urlStr maxChars p body =
     (case page_text pretty (pg_ContentType p) body of (text0, extractor) \<Rightarrow>
        let truncated = int (length text0) > maxChars;
            text1 = (if truncated then take (nat maxChars) text0 else text0) in
        \<lparr>fr_URL = urlStr, fr_Status = pg_Status p, fr_Extractor = extractor, fr_Truncated = truncated,
         fr_Length = length text1, fr_Text = text1\<rparr>)"

text \<open>The environment chooses the proxy when none is configured.\<close>

definition proxy_for :: "fetch_tool \<Rightarrow> (url \<Rightarrow> url option) \<Rightarrow> url \<Rightarrow> url option" where
  "proxy_for tool env_proxy u = (case ft_proxy tool of Some p \<Rightarrow> Some p | None \<Rightarrow> env_proxy u)"

definition web_fetch ::
  "bool \<Rightarrow> (gostr \<Rightarrow> url option) \<Rightarrow> (url \<Rightarrow> url option) \<Rightarrow> (gostr \<Rightarrow> gostr option) \<Rightarrow> network
   \<Rightarrow> (nat \<Rightarrow> connection \<Rightarrow> url \<Rightarrow> http_response) \<Rightarrow> fetch_tool \<Rightarrow> gostr option \<Rightarrow> rat option
   \<Rightarrow> (fetch_failure + fetch_report) \<times> connection list" where
  "web_fetch allow parse_url env_proxy pretty net serve tool url0 mc =
     (case url0 of
        None \<Rightarrow> (Inl URLRequired, [])
      | Some urlStr \<Rightarrow>
          (case parse_url urlStr of
             None \<Rightarrow> (Inl InvalidURL, [])
           | Some u \<Rightarrow>
               if url_Scheme u \<noteq> ''http'' \<and> url_Scheme u \<noteq> ''https'' then (Inl SchemeNotAllowed, [])
               else if url_Host u = [] then (Inl MissingDomain, [])
               else if is_obvious_private_host allow (url_Hostname u) then (Inl PrivateHost, [])
               else
                 (case follow allow net serve (proxy_for tool env_proxy) 0 u of
                    (Inl e, tried) \<Rightarrow> (Inl (FetchFailed e), tried)
                  | (Inr p, tried) \<Rightarrow>
                      (case read_page tool p of
                         Inl e \<Rightarrow> (Inl e, tried)
                       | Inr body \<Rightarrow> (Inr (report_page pretty urlStr (fetch_max_chars tool mc) p body), tried)))))"

section \<open>The guard\<close>

fun public_connection :: "connection \<Rightarrow> bool" where
  "public_connection (ToAddress x port) = (\<not> is_restricted_ip x)"
| "public_connection (ToHost host port) = False"

lemma try_addresses_public: "list_all public_connection (snd (try_addresses net t port xs n))"
proof (induction xs arbitrary: n)
  case (Cons x xs)
  obtain r tried where "try_addresses net t port xs (n + 1) = (r, tried)" by fastforce
  with Cons [of "n + 1"] Cons [of n] show ?case by simp
qed simp

lemma safe_dial_public: "list_all public_connection (snd (safe_dial False net t host port))"
proof (cases "parse_ip host")
  case None
  show ?thesis
  proof (cases "net_resolve net t host")
    case (Some xs)
    with None try_addresses_public [of net t port xs 0] show ?thesis
      by (auto simp: safe_dial_def split: prod.splits sum.splits)
  qed (simp add: safe_dial_def None)
qed (simp add: safe_dial_def)

lemma follow_public:
  assumes "\<not> allow"
  shows "list_all public_connection (snd (follow allow net serve proxy via u))"
  using assms
proof (induction allow net serve proxy via u rule: follow.induct)
  case (1 allow net serve proxy via u)
  let ?d = "safe_dial allow net via (url_Hostname (case proxy u of None \<Rightarrow> u | Some p \<Rightarrow> p))
    (default_port (case proxy u of None \<Rightarrow> u | Some p \<Rightarrow> p))"
  from 1(2) have d: "list_all public_connection (snd ?d)" using safe_dial_public by simp
  show ?case
  proof (cases "url_Scheme u \<notin> {''http'', ''https''} \<or> url_Host u = []")
    case True
    then show ?thesis by (subst follow.simps) simp
  next
    case ok: False
    obtain r tried where r: "?d = (r, tried)" by (cases ?d)
    with d have t: "list_all public_connection tried" by simp
    show ?thesis
    proof (cases r)
      case (Inl e)
      with ok r t show ?thesis by (subst follow.simps) (simp add: Let_def)
    next
      case (Inr c)
      note ih = 1(1) [OF ok refl r [symmetric] Inr]
      show ?thesis
      proof (cases "\<exists>u'. serve via c u = RedirectTo (Some u') \<and> \<not> via + 1 \<ge> max_redirects \<and>
          \<not> is_obvious_private_host allow (url_Hostname u')")
        case True
        then obtain u' where u': "serve via c u = RedirectTo (Some u')" "\<not> via + 1 \<ge> max_redirects"
          "\<not> is_obvious_private_host allow (url_Hostname u')" by blast
        from ih [OF u'(1) refl u'(2,3) 1(2)] have "list_all public_connection (snd (follow allow net serve proxy (via + 1) u'))" .
        with ok r t Inr u' show ?thesis by (subst follow.simps) (auto simp: Let_def split: prod.splits)
      next
        case False
        with ok r t Inr show ?thesis
          by (subst follow.simps) (auto simp: Let_def split: http_response.splits option.splits)
      qed
    qed
  qed
qed

text \<open>C24 However names resolve, from one moment to the next, and whatever servers answer: the tool never connects to a restricted
  address, not to try it and not after a redirect.\<close>

theorem fetch_dials_public:
  "list_all public_connection (snd (web_fetch False parse_url env_proxy pretty net serve tool url0 mc))"
proof -
  have "list_all public_connection (snd (follow False net serve (proxy_for tool env_proxy) 0 u))" for u
    by (rule follow_public) simp
  then show ?thesis
    by (auto simp: web_fetch_def split: option.splits prod.splits sum.splits) (metis snd_conv)+
qed

text \<open>The guard sees the proxy, when there is one, in the place of the target.\<close>

lemma safe_dial_literal:
  "parse_ip host = Some x \<Longrightarrow> safe_dial False (net\<lparr>net_resolve := r\<rparr>) t host port = safe_dial False net t host port"
  by (simp add: safe_dial_def)

lemma follow_literal_proxy:
  assumes "\<And>u. proxy u = Some p" "parse_ip (url_Hostname p) = Some x"
  shows "follow False (net\<lparr>net_resolve := r\<rparr>) serve proxy via u = follow False net serve proxy via u"
proof (induction "max_redirects - via" arbitrary: via u rule: less_induct)
  case less
  have ih: "follow False (net\<lparr>net_resolve := r\<rparr>) serve proxy (Suc via) u' = follow False net serve proxy (Suc via) u'"
    if "\<not> max_redirects \<le> Suc via" for u'
    using less.hyps [of "Suc via"] that by simp
  show ?case
    unfolding follow.simps [of False "net\<lparr>net_resolve := r\<rparr>" serve proxy via u] follow.simps [of False net serve proxy via u]
    by (simp add: ih assms(1) safe_dial_literal [OF assms(2)]
        cong: if_cong sum.case_cong option.case_cong http_response.case_cong prod.case_cong)
qed

text \<open>C27 With a proxy given by its address the outcome is the same whatever the names of targets resolve to: a name that stands for
  a private address is fetched like any other, as the proxy resolves it.\<close>

theorem proxied_fetch_ignores_names:
  assumes "ft_proxy tool = Some p" "parse_ip (url_Hostname p) = Some x"
  shows "web_fetch False parse_url env_proxy pretty (net\<lparr>net_resolve := r\<rparr>) serve tool url0 mc =
    web_fetch False parse_url env_proxy pretty net serve tool url0 mc"
proof -
  have "follow False (net\<lparr>net_resolve := r\<rparr>) serve (proxy_for tool env_proxy) 0 u =
      follow False net serve (proxy_for tool env_proxy) 0 u" for u
    using assms by (intro follow_literal_proxy) (simp_all add: proxy_for_def)
  then show ?thesis by (simp only: web_fetch_def)
qed

text \<open>C26 A proxy on the machine itself or in its own network, given by its address, is blocked as a target would be: nothing can be
  fetched, and no connection is tried.\<close>

theorem local_proxy_unusable:
  assumes "ft_proxy tool = Some p" "parse_ip (url_Hostname p) = Some x" "is_restricted_ip x"
  shows "\<exists>e. web_fetch False parse_url env_proxy pretty net serve tool url0 mc = (Inl e, [])"
proof -
  have "url_Hostname p \<noteq> []" using assms(2) by (auto simp: parse_ip_def)
  then have "safe_dial False net t (url_Hostname p) port = (Inl (BlockedTarget (url_Hostname p)), [])" for t port
    using assms(2,3) by (simp add: safe_dial_def)
  then have f: "follow False net serve (proxy_for tool env_proxy) 0 u =
      (Inl (if url_Scheme u \<notin> {''http'', ''https''} \<or> url_Host u = [] then UnsupportedScheme
            else DialError (BlockedTarget (url_Hostname p))), [])" for u
    using assms(1) by (subst follow.simps) (simp add: proxy_for_def)
  show ?thesis
    by (cases url0; cases "parse_url (the url0)") (simp_all add: web_fetch_def f)
qed

section \<open>Keys\<close>

fun search_keys ::
  "(gostr \<Rightarrow> key_reply) \<Rightarrow> (gostr \<Rightarrow> gostr option) \<Rightarrow> gostr list \<Rightarrow> key_reply option \<Rightarrow> search_error + gostr" where
  "search_keys respond parse [] last_error = Inl (AllKeysFailed last_error)"
| "search_keys respond parse (key # keys) last_error =
     (case respond key of
        Replied status body \<Rightarrow>
          if status \<noteq> 200 then
            (if retry_status status then search_keys respond parse keys (Some (Replied status body))
             else Inl (StatusError status body))
          else (case parse body of None \<Rightarrow> Inl ParseError | Some text0 \<Rightarrow> Inr text0)
      | failed \<Rightarrow> search_keys respond parse keys (Some failed))"

lemma iterator_next_Some:
  assumes "unat attempt < length keys" "length keys < 2 ^ 32" "unat start + unat attempt < 2 ^ 32"
  shows "iterator_next keys (start, attempt) = Some (keys ! ((unat start + unat attempt) mod length keys), start, attempt + 1)"
proof -
  let ?len = "word_of_nat (length keys) :: 32 word"
  have len: "unat ?len = length keys" using assms(2) by (simp add: unat_of_nat take_bit_nat_eq_self)
  have sum: "unat (start + attempt) = unat start + unat attempt" using assms(3) by (simp add: unat_add_lem [THEN iffD1])
  have "?len \<noteq> 0" "\<not> attempt \<ge> ?len" using assms(1) len by (auto simp: word_le_nat_alt unat_eq_0 [symmetric])
  then show ?thesis by (simp add: iterator_next_def unat_mod len sum)
qed

lemma key_loop_keys:
  assumes "length keys < 2 ^ 32" "unat start + length keys \<le> 2 ^ 32" "unat attempt \<le> length keys"
  shows "key_loop respond parse keys (start, attempt) last_error =
    search_keys respond parse (map (\<lambda>i. keys ! ((unat start + i) mod length keys)) [unat attempt..<length keys]) last_error"
  using assms(3)
proof (induction "length keys - unat attempt" arbitrary: attempt last_error)
  case 0
  then have "unat attempt = length keys" by simp
  then have "iterator_next keys (start, attempt) = None"
    using assms(1) by (simp add: iterator_next_def word_le_nat_alt unat_of_nat take_bit_nat_eq_self)
  then show ?case using 0 by (subst key_loop.simps) simp
next
  case (Suc n)
  then have lt: "unat attempt < length keys" by simp
  then have s: "unat (attempt + 1) = Suc (unat attempt)" using assms(1) by (simp add: unat_add_lem [THEN iffD1])
  have "iterator_next keys (start, attempt) = Some (keys ! ((unat start + unat attempt) mod length keys), start, attempt + 1)"
    using lt assms by (intro iterator_next_Some) simp_all
  moreover have "key_loop respond parse keys (start, attempt + 1) e = search_keys respond parse
      (map (\<lambda>i. keys ! ((unat start + i) mod length keys)) [Suc (unat attempt)..<length keys]) e" for e
    using Suc.hyps(1) [of "attempt + 1" e] Suc.hyps(2) s lt by simp
  ultimately show ?case
    using lt by (subst key_loop.simps) (simp add: upt_conv_Cons split: key_reply.split)
qed

text \<open>As long as its counter does not wrap, a search tries every key once, in the order of the pool from the place the counter is
  at, until one settles it.\<close>

theorem keys_tried_once:
  assumes "length keys < 2 ^ 32" "unat start + length keys \<le> 2 ^ 32"
  shows "key_loop respond parse keys (start, 0) None = search_keys respond parse (rotate (unat start) keys) None"
proof -
  have "map (\<lambda>i. keys ! ((unat start + i) mod length keys)) [0..<length keys] = rotate (unat start) keys"
    by (rule nth_equalityI) (simp_all add: nth_rotate)
  then show ?thesis using key_loop_keys [OF assms, of 0 respond parse None] by simp
qed

theorem keys_tried_once_witness:
  "key_loop (\<lambda>k. if k = ''b'' then Replied 200 ''x'' else Replied 429 []) Some [''a'', ''b''] (0, 0) None = Inr ''x''"
  using keys_tried_once [of "[''a'', ''b'']" 0 "\<lambda>k. if k = ''b'' then Replied 200 ''x'' else Replied 429 []" Some]
  by (simp add: retry_status_def)



section \<open>Text\<close>

fun tag_free :: "gostr \<Rightarrow> bool" where
  "tag_free [] \<longleftrightarrow> True"
| "tag_free (c # s) \<longleftrightarrow> (c = CHR ''<'' \<longrightarrow> CHR ''>'' \<notin> set s \<or> hd s = CHR ''>'') \<and> tag_free s"

lemma strip_tags_set: "set (strip_tags s) \<subseteq> set s"
proof (induction s rule: strip_tags.induct)
  case (1 s)
  show ?case
  proof (cases s)
    case (Cons c s')
    have t: "set (tl xs) \<subseteq> set xs" for xs :: gostr by (cases xs) auto
    then have d: "set (tl (dropWhile P xs)) \<subseteq> set xs" for P and xs :: gostr using set_dropWhileD by (metis subset_iff)
    show ?thesis
    proof (cases "c = CHR ''<'' \<and> takeWhile (\<lambda>d. d \<noteq> CHR ''>'') s' \<noteq> [] \<and> dropWhile (\<lambda>d. d \<noteq> CHR ''>'') s' \<noteq> []")
      case True
      let ?r = "tl (dropWhile (\<lambda>d. d \<noteq> CHR ''>'') s')"
      have "set (strip_tags ?r) \<subseteq> set ?r" using 1(1) [OF Cons _ refl refl] True by blast
      also have "\<dots> \<subseteq> set s'" by (rule d)
      finally have "set (strip_tags ?r) \<subseteq> set s'" .
      moreover have "strip_tags s = strip_tags ?r" using True Cons by (subst strip_tags.simps) (simp add: Let_def)
      ultimately show ?thesis using Cons by auto
    next
      case False
      with 1(2,3) [OF Cons] Cons show ?thesis by (subst strip_tags.simps) (auto simp: Let_def)
    qed
  qed (simp add: strip_tags.simps)
qed

lemma strip_tags_free: "tag_free (strip_tags s)"
proof (induction s rule: strip_tags.induct)
  case (1 s)
  show ?case
  proof (cases s)
    case (Cons c s')
    let ?name = "takeWhile (\<lambda>d. d \<noteq> CHR ''>'') s'" and ?rest = "dropWhile (\<lambda>d. d \<noteq> CHR ''>'') s'"
    show ?thesis
    proof (cases "c = CHR ''<''")
      case lt: True
      show ?thesis
      proof (cases "?name \<noteq> [] \<and> ?rest \<noteq> []")
        case True
        then have "strip_tags s = strip_tags (tl ?rest)" using lt Cons by (subst strip_tags.simps) (simp add: Let_def)
        with 1(1) [OF Cons lt refl refl True] show ?thesis by simp
      next
        case False
        then have e: "strip_tags s = c # strip_tags s'" using lt Cons by (subst strip_tags.simps) (auto simp: Let_def)
        have "CHR ''>'' \<notin> set (strip_tags s') \<or> hd (strip_tags s') = CHR ''>''"
        proof (cases "?rest = []")
          case True
          then have "CHR ''>'' \<notin> set s'" by (auto simp: dropWhile_eq_Nil_conv)
          with strip_tags_set [of s'] show ?thesis by blast
        next
          case rest: False
          with False have "?name = []" by simp
          with rest obtain s'' where "s' = CHR ''>'' # s''" by (cases s') (auto split: if_splits)
          then show ?thesis by (simp add: strip_tags.simps [of "CHR ''>'' # s''"])
        qed
        with e 1(2) [OF Cons lt refl refl False] show ?thesis by simp
      qed
    next
      case False
      then have "strip_tags s = c # strip_tags s'" using Cons by (subst strip_tags.simps) simp
      with 1(3) [OF Cons False] False show ?thesis by simp
    qed
  qed (simp add: strip_tags.simps)
qed

lemma tag_free_fixed: "tag_free s \<Longrightarrow> strip_tags s = s"
proof (induction s)
  case (Cons c s)
  then have "c = CHR ''<'' \<Longrightarrow> takeWhile (\<lambda>d. d \<noteq> CHR ''>'') s = [] \<or> dropWhile (\<lambda>d. d \<noteq> CHR ''>'') s = []"
    by (cases s) auto
  with Cons show ?case by (subst strip_tags.simps) (auto simp: Let_def)
qed (simp add: strip_tags.simps)

text \<open>No tag is left, none that was there and none put together by the removal: removing tags again changes nothing.\<close>

theorem strip_tags_once: "strip_tags (strip_tags s) = strip_tags s"
  by (rule tag_free_fixed [OF strip_tags_free])

text \<open>A report holds at most the characters asked for, counted in bytes, and says how many. A request for the least number the
  parameters of the tool allow is not obeyed.\<close>

theorem fetch_report_bounded:
  "int (length (fr_Text (report_page pretty urlStr maxChars p body))) \<le> max 0 maxChars \<and>
   fr_Length (report_page pretty urlStr maxChars p body) = length (fr_Text (report_page pretty urlStr maxChars p body)) \<and>
   fetch_max_chars tool (Some 100) = ft_maxChars tool"
  by (auto simp: report_page_def Let_def fetch_max_chars_def float_int_def split: prod.splits)

section \<open>Witnesses\<close>

definition local_proxy :: url where
  "local_proxy = \<lparr>url_Scheme = ''http'', url_Host = ''127.0.0.1:7890'', url_Hostname = ''127.0.0.1'', url_Port = ''7890''\<rparr>"

definition outer_proxy :: url where
  "outer_proxy = \<lparr>url_Scheme = ''http'', url_Host = ''203.0.113.7:3128'', url_Hostname = ''203.0.113.7'', url_Port = ''3128''\<rparr>"

lemma proxy_hosts:
  "parse_ip (url_Hostname local_proxy) = Some (ipv4 127 0 0 1)" "parse_ip (url_Hostname outer_proxy) = Some (ipv4 203 0 113 7)"
  unfolding local_proxy_def outer_proxy_def by code_simp+

theorem local_proxy_unusable_witness:
  "\<exists>e. web_fetch False (\<lambda>_. Some outer_proxy) (\<lambda>_. None) (\<lambda>_. None)
      \<lparr>net_resolve = (\<lambda>_ _. None), net_connect = (\<lambda>_ _. True)\<rparr> (\<lambda>_ _ _. RedirectTo None)
      \<lparr>ft_maxChars = 50000, ft_proxy = Some local_proxy, ft_limit = 1000\<rparr> (Some ''http://example.org'') None = (Inl e, [])"
  by (rule local_proxy_unusable [OF _ proxy_hosts(1)]) (simp_all add: restricted_quad [OF to4_ipv4] in_restricted_prefixes)

theorem proxied_fetch_ignores_names_witness:
  "web_fetch False (\<lambda>_. Some outer_proxy) (\<lambda>_. None) (\<lambda>_. None)
      (\<lparr>net_resolve = (\<lambda>_ _. None), net_connect = (\<lambda>_ _. True)\<rparr>\<lparr>net_resolve := \<lambda>_ _. Some [ipv4 10 0 0 1]\<rparr>)
      (\<lambda>_ _ _. RedirectTo None) \<lparr>ft_maxChars = 50000, ft_proxy = Some outer_proxy, ft_limit = 1000\<rparr> (Some ''u'') None =
   web_fetch False (\<lambda>_. Some outer_proxy) (\<lambda>_. None) (\<lambda>_. None)
      \<lparr>net_resolve = (\<lambda>_ _. None), net_connect = (\<lambda>_ _. True)\<rparr>
      (\<lambda>_ _ _. RedirectTo None) \<lparr>ft_maxChars = 50000, ft_proxy = Some outer_proxy, ft_limit = 1000\<rparr> (Some ''u'') None"
  by (rule proxied_fetch_ignores_names [OF _ proxy_hosts(2)]) simp

end
