(* ===== verification/Skills.thy ===== *)
theory Skills imports File_Path IP_Address "HOL-Library.List_Lexorder" "HOL-Library.Char_ord" begin

text \<open>
  The loader of skills, \<open>pkg/skills/loader.go\<close>: which skills there are, by which name, from which of three
  directories, and the summary of them that the system prompt holds.

  The files are a list of paths with their content and time of modification; a directory is there when something is
  in it. The parsers of Markdown, YAML and JSON are arguments. Names are bytes, as Go sorts and counts them.
\<close>

section \<open>Files\<close>

record stored_file =
  sf_Content :: gostr
  sf_MTime :: int

type_synonym files = "(gostr \<times> stored_file) list"

definition read_file :: "files \<Rightarrow> gostr \<Rightarrow> gostr option" where
  "read_file t p = map_option sf_Content (map_of t p)"

section \<open>Metadata\<close>

record skill_info =
  sk_Name :: gostr
  sk_Path :: gostr
  sk_Source :: gostr
  sk_Description :: gostr

record skill_metadata =
  sm_Name :: gostr
  sm_Description :: gostr

definition alphanumeric :: "char \<Rightarrow> bool" where
  "alphanumeric c \<longleftrightarrow> is_digit c \<or> is_upper c \<or> is_lower c"

text \<open>\<open>namePattern\<close>: groups of letters and digits with single hyphens between them.\<close>

definition name_pattern :: "gostr \<Rightarrow> bool" where
  "name_pattern s \<longleftrightarrow> list_all (\<lambda>g. g \<noteq> [] \<and> list_all alphanumeric g) (split_at (CHR ''-'') s)"

datatype skill_error = NameMissing | NameTooLong | NameMalformed | DescriptionMissing | DescriptionTooLong

definition validate_skill :: "skill_info \<Rightarrow> skill_error list" where
  "validate_skill i =
     (if sk_Name i = [] then [NameMissing]
      else (if length (sk_Name i) > 64 then [NameTooLong] else []) @
           (if \<not> name_pattern (sk_Name i) then [NameMalformed] else [])) @
     (if sk_Description i = [] then [DescriptionMissing]
      else if length (sk_Description i) > 1024 then [DescriptionTooLong] else [])"

text \<open>The parsers: newlines made uniform, title and first paragraph of a Markdown text, name and description in JSON
  (if it parses), and in YAML.\<close>

record parsers =
  ps_normalize :: "gostr \<Rightarrow> gostr"
  ps_markdown :: "gostr \<Rightarrow> gostr \<times> gostr"
  ps_json :: "gostr \<Rightarrow> (gostr \<times> gostr) option"
  ps_yaml :: "gostr \<Rightarrow> (gostr \<times> gostr) option"

definition newline_char :: char where
  "newline_char = CHR 0x0A"

fun join_with :: "gostr \<Rightarrow> gostr list \<Rightarrow> gostr" where
  "join_with sep [] = []"
| "join_with sep [x] = x"
| "join_with sep (x # y # xs) = x @ sep @ join_with sep (y # xs)"

definition split_frontmatter :: "parsers \<Rightarrow> gostr \<Rightarrow> gostr \<times> gostr" where
  "split_frontmatter ps content =
     (case split_at newline_char (ps_normalize ps content) of
        [] \<Rightarrow> ([], content)
      | l # ls \<Rightarrow>
          if l \<noteq> ''---'' then ([], content)
          else if ''---'' \<notin> set ls then ([], content)
          else (join_with [newline_char] (takeWhile (\<lambda>x. x \<noteq> ''---'') ls),
                dropWhile (\<lambda>c. c = newline_char)
                  (join_with [newline_char] (tl (dropWhile (\<lambda>x. x \<noteq> ''---'') ls)))))"

definition or_else :: "gostr \<Rightarrow> gostr \<Rightarrow> gostr" where
  "or_else s d = (if s \<noteq> [] then s else d)"

definition skill_metadata :: "parsers \<Rightarrow> files \<Rightarrow> gostr \<Rightarrow> skill_metadata option" where
  "skill_metadata ps t skillPath =
     (case read_file t skillPath of
        None \<Rightarrow> None
      | Some content \<Rightarrow>
          (case split_frontmatter ps content of (frontmatter, body) \<Rightarrow>
           case ps_markdown ps body of (title, description) \<Rightarrow>
             let dirName = path_base (path_dir skillPath);
                 name = (if title \<noteq> [] \<and> name_pattern title \<and> length title \<le> 64 then title else dirName) in
             Some (if frontmatter = [] then \<lparr>sm_Name = name, sm_Description = description\<rparr>
                   else case ps_json ps frontmatter of
                     Some (n, d) \<Rightarrow> \<lparr>sm_Name = or_else n name, sm_Description = or_else d description\<rparr>
                   | None \<Rightarrow>
                       (case ps_yaml ps frontmatter of
                          Some (n, d) \<Rightarrow> \<lparr>sm_Name = or_else n name, sm_Description = or_else d description\<rparr>
                        | None \<Rightarrow> \<lparr>sm_Name = name, sm_Description = description\<rparr>))))"

section \<open>The loader\<close>

record skills_loader =
  sl_Workspace :: gostr
  sl_Global :: gostr
  sl_Builtin :: gostr

definition new_skills_loader :: "gostr \<Rightarrow> gostr \<Rightarrow> gostr \<Rightarrow> skills_loader" where
  "new_skills_loader workspace global builtin =
     \<lparr>sl_Workspace = path_join workspace ''skills'', sl_Global = global, sl_Builtin = builtin\<rparr>"

definition add_root :: "gostr \<Rightarrow> gostr list \<Rightarrow> gostr list" where
  "add_root root out =
     (let trimmed = trim_space root in
      if trimmed = [] then out else if clean trimmed \<in> set out then out else out @ [clean trimmed])"

definition loader_roots :: "skills_loader \<Rightarrow> gostr list" where
  "loader_roots sl = fold add_root [sl_Workspace sl, sl_Global sl, sl_Builtin sl] []"

definition skill_file :: "gostr \<Rightarrow> gostr \<Rightarrow> gostr" where
  "skill_file dir name = path_join (path_join dir name) ''SKILL.md''"

text \<open>The directories in \<open>dir\<close> that hold a file \<open>SKILL.md\<close>, in the order of \<open>os.ReadDir\<close>: below the path of the directory
  comes one segment and the name of the file.\<close>

definition child_of :: "gostr \<Rightarrow> gostr \<Rightarrow> gostr list" where
  "child_of dir p =
     (if has_prefix p (dir @ ''/'') then
        (case segments (drop (length dir + 1) p) of [n, f] \<Rightarrow> if f = ''SKILL.md'' \<and> n \<noteq> [] then [n] else [] | _ \<Rightarrow> [])
      else [])"

definition skill_dirs :: "files \<Rightarrow> gostr \<Rightarrow> gostr list" where
  "skill_dirs t dir = sort (remdups (concat (map (child_of (clean dir)) (map fst t))))"

definition skill_entry :: "parsers \<Rightarrow> files \<Rightarrow> gostr \<Rightarrow> gostr \<Rightarrow> gostr \<Rightarrow> skill_info" where
  "skill_entry ps t source dir name =
     (let f = clean dir @ ''/'' @ name @ ''/SKILL.md'';
          i = \<lparr>sk_Name = name, sk_Path = f, sk_Source = source, sk_Description = []\<rparr> in
      case skill_metadata ps t f of
        Some m \<Rightarrow> i\<lparr>sk_Description := sm_Description m, sk_Name := sm_Name m\<rparr>
      | None \<Rightarrow> i)"

definition add_skill :: "skill_info \<Rightarrow> skill_info list \<Rightarrow> skill_info list" where
  "add_skill i skills =
     (if validate_skill i \<noteq> [] then skills
      else if sk_Name i \<in> sk_Name ` set skills then skills
      else skills @ [i])"

definition add_skills :: "parsers \<Rightarrow> files \<Rightarrow> gostr \<times> gostr \<Rightarrow> skill_info list \<Rightarrow> skill_info list" where
  "add_skills ps t ds skills =
     (case ds of (dir, source) \<Rightarrow>
        if dir = [] then skills
        else fold add_skill (map (skill_entry ps t source dir) (skill_dirs t dir)) skills)"

definition list_skills :: "parsers \<Rightarrow> files \<Rightarrow> skills_loader \<Rightarrow> skill_info list" where
  "list_skills ps t sl =
     fold (add_skills ps t)
       [(sl_Workspace sl, ''workspace''), (sl_Global sl, ''global''), (sl_Builtin sl, ''builtin'')] []"

fun load_from :: "parsers \<Rightarrow> files \<Rightarrow> gostr \<Rightarrow> gostr list \<Rightarrow> gostr option" where
  "load_from ps t name [] = None"
| "load_from ps t name (dir # dirs) =
     (if dir \<noteq> [] then
        (case read_file t (skill_file dir name) of
           Some content \<Rightarrow> Some (snd (split_frontmatter ps content))
         | None \<Rightarrow> load_from ps t name dirs)
      else load_from ps t name dirs)"

definition load_skill :: "parsers \<Rightarrow> files \<Rightarrow> skills_loader \<Rightarrow> gostr \<Rightarrow> gostr option" where
  "load_skill ps t sl name = load_from ps t name [sl_Workspace sl, sl_Global sl, sl_Builtin sl]"

definition load_skills_for_context :: "parsers \<Rightarrow> files \<Rightarrow> skills_loader \<Rightarrow> gostr list \<Rightarrow> gostr" where
  "load_skills_for_context ps t sl names =
     join_with (nl @ nl @ ''---'' @ nl @ nl)
       (concat (map (\<lambda>name. case load_skill ps t sl name of
                       Some content \<Rightarrow> [''### Skill: '' @ name @ nl @ nl @ content] | None \<Rightarrow> []) names))"

section \<open>The summary\<close>

definition replace_with :: "char \<Rightarrow> gostr \<Rightarrow> gostr \<Rightarrow> gostr" where
  "replace_with c w s = concat (map (\<lambda>d. if d = c then w else [d]) s)"

definition escape_xml :: "gostr \<Rightarrow> gostr" where
  "escape_xml s =
     replace_with (CHR ''>'') ''&gt;'' (replace_with (CHR ''<'') ''&lt;'' (replace_with (CHR ''&'') ''&amp;'' s))"

definition skill_lines :: "skill_info \<Rightarrow> gostr list" where
  "skill_lines s =
     [''  <skill>'',
      ''    <name>'' @ escape_xml (sk_Name s) @ ''</name>'',
      ''    <description>'' @ escape_xml (sk_Description s) @ ''</description>'',
      ''    <location>'' @ escape_xml (sk_Path s) @ ''</location>'',
      ''    <source>'' @ sk_Source s @ ''</source>'',
      ''  </skill>'']"

definition skills_summary :: "parsers \<Rightarrow> files \<Rightarrow> skills_loader \<Rightarrow> gostr" where
  "skills_summary ps t sl =
     (let all = list_skills ps t sl in
      if all = [] then []
      else join_with nl ([''<skills>''] @ concat (map skill_lines all) @ [''</skills>'']))"

section \<open>Which skills there are\<close>

lemma fold_add_skill:
  assumes "distinct (map sk_Name acc)" "list_all (\<lambda>i. validate_skill i = []) acc"
  shows "distinct (map sk_Name (fold add_skill xs acc)) \<and> list_all (\<lambda>i. validate_skill i = []) (fold add_skill xs acc) \<and>
    prefix acc (fold add_skill xs acc) \<and>
    sk_Name ` set (fold add_skill xs acc) = sk_Name ` set acc \<union> sk_Name ` {i \<in> set xs. validate_skill i = []}"
  using assms
proof (induction xs arbitrary: acc)
  case (Cons x xs)
  let ?a = "add_skill x acc"
  have a: "distinct (map sk_Name ?a)" "list_all (\<lambda>i. validate_skill i = []) ?a" "prefix acc ?a"
    "sk_Name ` set ?a = sk_Name ` set acc \<union> sk_Name ` {i \<in> {x}. validate_skill i = []}"
    using Cons.prems by (auto simp: add_skill_def)
  from Cons.IH [OF a(1,2)] a(3,4) show ?case by (auto intro: prefix_order.trans)
qed simp

text \<open>The candidates of a directory, valid or not.\<close>

definition dir_skills :: "parsers \<Rightarrow> files \<Rightarrow> gostr \<times> gostr \<Rightarrow> skill_info list" where
  "dir_skills ps t ds = (if fst ds = [] then [] else map (skill_entry ps t (snd ds) (fst ds)) (skill_dirs t (fst ds)))"

lemma add_skills_dir: "add_skills ps t ds skills = fold add_skill (dir_skills ps t ds) skills"
  by (cases ds) (simp add: add_skills_def dir_skills_def)

definition loader_dirs :: "skills_loader \<Rightarrow> (gostr \<times> gostr) list" where
  "loader_dirs sl = [(sl_Workspace sl, ''workspace''), (sl_Global sl, ''global''), (sl_Builtin sl, ''builtin'')]"

lemma list_skills_fold: "list_skills ps t sl = fold add_skill (concat (map (dir_skills ps t) (loader_dirs sl))) []"
  by (simp add: list_skills_def loader_dirs_def add_skills_dir)

text \<open>C37 Every skill in the list is valid, no name is there twice, and every valid skill of a directory is there by its name.\<close>

theorem skills_unique:
  "distinct (map sk_Name (list_skills ps t sl)) \<and> list_all (\<lambda>i. validate_skill i = []) (list_skills ps t sl) \<and>
   sk_Name ` set (list_skills ps t sl) =
     sk_Name ` {i \<in> set (concat (map (dir_skills ps t) (loader_dirs sl))). validate_skill i = []}"
  using fold_add_skill [of "[]" "concat (map (dir_skills ps t) (loader_dirs sl))"] by (simp add: list_skills_fold)

text \<open>A skill of the workspace hides those of the same name elsewhere: the list begins with the skills of the workspace.\<close>

theorem workspace_skills_first:
  "prefix (fold add_skill (dir_skills ps t (sl_Workspace sl, ''workspace'')) []) (list_skills ps t sl)"
proof -
  let ?w = "dir_skills ps t (sl_Workspace sl, ''workspace'')"
    and ?r = "dir_skills ps t (sl_Global sl, ''global'') @ dir_skills ps t (sl_Builtin sl, ''builtin'')"
  have "distinct (map sk_Name (fold add_skill ?w []))" "list_all (\<lambda>i. validate_skill i = []) (fold add_skill ?w [])"
    using fold_add_skill [of "[]" ?w] by simp_all
  from fold_add_skill [OF this, of ?r] show ?thesis by (simp add: list_skills_fold loader_dirs_def)
qed

section \<open>The summary\<close>

definition escape_char :: "char \<Rightarrow> gostr" where
  "escape_char c =
     (if c = CHR ''&'' then ''&amp;'' else if c = CHR ''<'' then ''&lt;'' else if c = CHR ''>'' then ''&gt;'' else [c])"

lemma replace_with_append [simp]: "replace_with c w (s @ u) = replace_with c w s @ replace_with c w u"
  by (simp add: replace_with_def)

lemma escape_xml_chars: "escape_xml s = concat (map escape_char s)"
  by (induction s) (auto simp: escape_xml_def replace_with_def escape_char_def)

text \<open>No text escaped for the summary holds a bracket, and two texts that differ are still told apart: a description cannot
  close its element and pass for another skill.\<close>

theorem escape_xml_faithful:
  "CHR ''<'' \<notin> set (escape_xml s) \<and> CHR ''>'' \<notin> set (escape_xml s) \<and> (escape_xml s = escape_xml u \<longleftrightarrow> s = u)"
proof -
  have b: "CHR ''<'' \<notin> set (escape_xml s)" "CHR ''>'' \<notin> set (escape_xml s)" by (auto simp: escape_xml_chars escape_char_def split: if_splits)
  have "s = u" if "concat (map escape_char s) = concat (map escape_char u)"
    using that
  proof (induction s arbitrary: u)
    case Nil
    then show ?case by (cases u) (auto simp: escape_char_def split: if_splits)
  next
    case (Cons c s)
    then obtain d v where u: "u = d # v" by (cases u) (auto simp: escape_char_def split: if_splits)
    with Cons.prems have "c = d \<and> concat (map escape_char s) = concat (map escape_char v)"
      by (simp add: escape_char_def [of c] escape_char_def [of d] split: if_splits)
    with Cons.IH u show ?case by simp
  qed
  with b show ?thesis by (auto simp: escape_xml_chars)
qed

section \<open>Listing and loading\<close>

lemma load_from_None: "load_from ps t name dirs = None \<longleftrightarrow> list_all (\<lambda>d. d = [] \<or> read_file t (skill_file d name) = None) dirs"
  by (induction dirs) (auto split: option.splits)

text \<open>A skill is loaded by the name of its directory, whatever name it is listed under.\<close>

theorem load_by_directory:
  "load_skill ps t sl name = None \<longleftrightarrow>
     list_all (\<lambda>d. d = [] \<or> read_file t (skill_file d name) = None) [sl_Workspace sl, sl_Global sl, sl_Builtin sl]"
  unfolding load_skill_def by (rule load_from_None)

end
