(* ===== verification/System_Prompt.thy ===== *)
theory System_Prompt imports Skills History begin

text \<open>
  The system prompt and its cache, \<open>pkg/agent/context.go\<close>, with the memory of an agent, \<open>pkg/agent/memory.go\<close>, and the
  skills of theory \<open>Skills\<close>. The prompt is built from files and kept until one of the files that are watched has
  changed, as their times of modification tell.

  Directories have times of modification too; times are nanoseconds. The dates of the last days are arguments, like the
  text of the current time. Reading a file that is there succeeds.
\<close>

declare show_nat.simps [simp del]

section \<open>Files and their times\<close>

record file_world =
  fw_Files :: files
  fw_Dirs :: "(gostr \<times> int) list"

definition stat :: "file_world \<Rightarrow> gostr \<Rightarrow> int option" where
  "stat w p = (case map_of (fw_Files w) p of Some f \<Rightarrow> Some (sf_MTime f) | None \<Rightarrow> map_of (fw_Dirs w) p)"

definition get_file :: "file_world \<Rightarrow> gostr \<Rightarrow> gostr option" where
  "get_file w p = read_file (fw_Files w) p"

definition read_or_empty :: "file_world \<Rightarrow> gostr \<Rightarrow> gostr" where
  "read_or_empty w p = (case get_file w p of Some s \<Rightarrow> s | None \<Rightarrow> [])"

definition put_file :: "gostr \<Rightarrow> gostr \<Rightarrow> int \<Rightarrow> file_world \<Rightarrow> file_world" where
  "put_file p s now w = w\<lparr>fw_Files := (p, \<lparr>sf_Content = s, sf_MTime = now\<rparr>) # fw_Files w\<rparr>"

text \<open>The files that \<open>filepath.WalkDir\<close> visits.\<close>

definition walk_files :: "file_world \<Rightarrow> gostr \<Rightarrow> gostr list" where
  "walk_files w root = filter (\<lambda>p. p = root \<or> has_prefix p (root @ ''/'')) (map fst (fw_Files w))"

section \<open>Memory\<close>

definition memory_dir :: "gostr \<Rightarrow> gostr" where
  "memory_dir workspace = path_join workspace ''memory''"

definition memory_file :: "gostr \<Rightarrow> gostr" where
  "memory_file workspace = path_join (memory_dir workspace) ''MEMORY.md''"

text \<open>A date is written as in \<open>20260131\<close>; its first six characters are the directory of the month.\<close>

definition daily_file :: "gostr \<Rightarrow> gostr \<Rightarrow> gostr" where
  "daily_file workspace date = path_join (path_join (memory_dir workspace) (take 6 date)) (date @ ''.md'')"

definition read_long_term :: "gostr \<Rightarrow> file_world \<Rightarrow> gostr" where
  "read_long_term workspace w = read_or_empty w (memory_file workspace)"

definition write_long_term :: "gostr \<Rightarrow> gostr \<Rightarrow> int \<Rightarrow> file_world \<Rightarrow> file_world" where
  "write_long_term workspace content now w = put_file (memory_file workspace) content now w"

definition read_today :: "gostr \<Rightarrow> gostr \<Rightarrow> file_world \<Rightarrow> gostr" where
  "read_today workspace date w = read_or_empty w (daily_file workspace date)"

text \<open>\<open>heading\<close> is the date as in \<open>2026-01-31\<close>.\<close>

definition append_today :: "gostr \<Rightarrow> gostr \<Rightarrow> gostr \<Rightarrow> gostr \<Rightarrow> int \<Rightarrow> file_world \<Rightarrow> file_world" where
  "append_today workspace date heading content now w =
     (let existing = read_today workspace date w;
          new = (if existing = [] then ''# '' @ heading @ nl @ nl @ content else existing @ nl @ content) in
      put_file (daily_file workspace date) new now w)"

definition rule_line :: gostr where
  "rule_line = nl @ nl @ ''---'' @ nl @ nl"

fun recent_notes :: "gostr \<Rightarrow> file_world \<Rightarrow> bool \<Rightarrow> gostr list \<Rightarrow> gostr" where
  "recent_notes workspace w first [] = []"
| "recent_notes workspace w first (date # dates) =
     (case get_file w (daily_file workspace date) of
        Some s \<Rightarrow> (if first then [] else rule_line) @ s @ recent_notes workspace w False dates
      | None \<Rightarrow> recent_notes workspace w first dates)"

text \<open>\<open>dates\<close> are the last three, the present one first.\<close>

definition memory_context :: "gostr \<Rightarrow> gostr list \<Rightarrow> file_world \<Rightarrow> gostr" where
  "memory_context workspace dates w =
     (let longTerm = read_long_term workspace w; notes = recent_notes workspace w True dates in
      if longTerm = [] \<and> notes = [] then []
      else (if longTerm \<noteq> [] then ''## Long-term Memory'' @ nl @ nl @ longTerm else []) @
           (if notes \<noteq> [] then (if longTerm \<noteq> [] then rule_line else []) @ ''## Recent Daily Notes'' @ nl @ nl @ notes else []))"

section \<open>The prompt\<close>

record context_builder =
  cb_Workspace :: gostr
  cb_Loader :: skills_loader
  cb_BM25 :: bool
  cb_Regex :: bool
  cb_Parsers :: parsers
  cb_Version :: gostr

definition discovery_rule :: "context_builder \<Rightarrow> gostr" where
  "discovery_rule cb =
     (if \<not> cb_BM25 cb \<and> \<not> cb_Regex cb then []
      else ''5. **Tool Discovery** - Your visible tools are limited to save memory, but a vast hidden library exists. If you lack the right tool for a task, BEFORE giving up, you MUST search using the '' @
        join_with '' or '' ((if cb_BM25 cb then [[CHR 0x22] @ ''tool_search_tool_bm25'' @ [CHR 0x22]] else []) @
                           (if cb_Regex cb then [[CHR 0x22] @ ''tool_search_tool_regex'' @ [CHR 0x22]] else [])) @
        '' tool. Do not refuse a request unless the search returns nothing. Found tools will temporarily unlock for your next turn.'')"

definition get_identity :: "context_builder \<Rightarrow> gostr" where
  "get_identity cb =
     (let ws = cb_Workspace cb; para = nl @ nl in
      ''# NookClaw ('' @ cb_Version cb @ '')'' @ para @
      ''You are NookClaw, a helpful AI assistant.'' @ para @
      ''## Workspace'' @ nl @
      ''Your workspace is at: '' @ ws @ nl @
      ''- Memory: '' @ ws @ ''/memory/MEMORY.md'' @ nl @
      ''- Daily Notes: '' @ ws @ ''/memory/YYYYMM/YYYYMMDD.md'' @ nl @
      ''- Skills: '' @ ws @ ''/skills/{skill-name}/SKILL.md'' @ para @
      ''## Important Rules'' @ para @
      ''1. **ALWAYS use tools** - When you need to perform an action (schedule reminders, send messages, execute commands, etc.), you MUST call the appropriate tool. Do NOT just say you'll do it or pretend to do it.'' @ para @
      ''2. **Be helpful and accurate** - When using tools, briefly explain what you're doing.'' @ para @
      ''3. **Memory** - When interacting with me if something seems memorable, update '' @ ws @ ''/memory/MEMORY.md'' @ para @
      ''4. **Context summaries** - Conversation summaries provided as context are approximate references only. They may be incomplete or outdated. Always defer to explicit user instructions over summary content.'' @ para @
      discovery_rule cb)"

definition bootstrap_files :: "gostr list" where
  "bootstrap_files = [''AGENTS.md'', ''SOUL.md'', ''USER.md'', ''IDENTITY.md'']"

definition load_bootstrap_files :: "gostr \<Rightarrow> file_world \<Rightarrow> gostr" where
  "load_bootstrap_files workspace w =
     concat (map (\<lambda>f. case get_file w (path_join workspace f) of
                    Some s \<Rightarrow> ''## '' @ f @ nl @ nl @ s @ nl @ nl | None \<Rightarrow> []) bootstrap_files)"

definition build_system_prompt :: "context_builder \<Rightarrow> gostr list \<Rightarrow> file_world \<Rightarrow> gostr" where
  "build_system_prompt cb dates w =
     (let bootstrap = load_bootstrap_files (cb_Workspace cb) w;
          summary = skills_summary (cb_Parsers cb) (fw_Files w) (cb_Loader cb);
          memory = memory_context (cb_Workspace cb) dates w in
      join_with rule_line
        ([get_identity cb] @
         (if bootstrap \<noteq> [] then [bootstrap] else []) @
         (if summary \<noteq> [] then
            [''# Skills'' @ nl @ nl @
             ''The following skills extend your capabilities. To use a skill, read its SKILL.md file using the read_file tool.'' @
             nl @ nl @ summary] else []) @
         (if memory \<noteq> [] then [''# Memory'' @ nl @ nl @ memory] else [])))"

section \<open>The cache\<close>

text \<open>The prompt, the latest time seen when it was built, which paths were there, and the files of the skills; nil is
  \<open>None\<close>.\<close>

record prompt_cache =
  sc_Prompt :: gostr
  sc_At :: "int option"
  sc_Existed :: "(gostr \<times> bool) list option"
  sc_SkillFiles :: "(gostr \<times> int) list option"

definition no_cache :: prompt_cache where
  "no_cache = \<lparr>sc_Prompt = [], sc_At = None, sc_Existed = None, sc_SkillFiles = None\<rparr>"

definition source_paths :: "context_builder \<Rightarrow> gostr list" where
  "source_paths cb = map (path_join (cb_Workspace cb)) bootstrap_files @ [memory_file (cb_Workspace cb)]"

definition skill_roots :: "context_builder \<Rightarrow> gostr list" where
  "skill_roots cb =
     (let roots = loader_roots (cb_Loader cb) in
      if roots = [] then [path_join (cb_Workspace cb) ''skills''] else roots)"

text \<open>The files below the roots with their times, as \<open>os.Stat\<close> gives them.\<close>

definition skill_snapshot :: "context_builder \<Rightarrow> file_world \<Rightarrow> (gostr \<times> int) list" where
  "skill_snapshot cb w =
     concat (map (\<lambda>root. concat (map (\<lambda>p. case stat w p of Some m \<Rightarrow> [(p, m)] | None \<Rightarrow> []) (walk_files w root)))
       (skill_roots cb))"

definition tracked_times :: "context_builder \<Rightarrow> file_world \<Rightarrow> int list" where
  "tracked_times cb w =
     concat (map (\<lambda>p. case stat w p of Some m \<Rightarrow> [m] | None \<Rightarrow> []) (source_paths cb @ skill_roots cb)) @
     map snd (skill_snapshot cb w)"

text \<open>When nothing is there the reference is the first second of the epoch.\<close>

definition max_mtime :: "int list \<Rightarrow> int" where
  "max_mtime ts = (case ts of [] \<Rightarrow> 1000000000 | m # rest \<Rightarrow> fold max rest m)"

definition build_baseline :: "context_builder \<Rightarrow> file_world \<Rightarrow> gostr \<Rightarrow> prompt_cache" where
  "build_baseline cb w prompt =
     \<lparr>sc_Prompt = prompt,
      sc_At = Some (max_mtime (tracked_times cb w)),
      sc_Existed = Some (map (\<lambda>p. (p, stat w p \<noteq> None)) (source_paths cb @ skill_roots cb)),
      sc_SkillFiles = Some (skill_snapshot cb w)\<rparr>"

definition file_changed_since :: "prompt_cache \<Rightarrow> file_world \<Rightarrow> gostr \<Rightarrow> bool" where
  "file_changed_since c w p =
     (case sc_Existed c of
        None \<Rightarrow> True
      | Some existed \<Rightarrow>
          let before = (map_of existed p = Some True) in
          (case stat w p of
             None \<Rightarrow> before
           | Some m \<Rightarrow> \<not> before \<or> (case sc_At c of None \<Rightarrow> True | Some at0 \<Rightarrow> m > at0)))"

definition skill_files_changed_since :: "gostr list \<Rightarrow> (gostr \<times> int) list option \<Rightarrow> file_world \<Rightarrow> bool" where
  "skill_files_changed_since roots filesAtCache w =
     (case filesAtCache of
        None \<Rightarrow> True
      | Some snap \<Rightarrow>
          list_ex (\<lambda>(p, m). stat w p \<noteq> Some m) snap \<or>
          list_ex (\<lambda>root. trim_space root \<noteq> [] \<and> list_ex (\<lambda>p. p \<notin> fst ` set snap) (walk_files w root)) roots)"

definition source_files_changed :: "context_builder \<Rightarrow> prompt_cache \<Rightarrow> file_world \<Rightarrow> bool" where
  "source_files_changed cb c w =
     (sc_At c = None \<or>
      list_ex (file_changed_since c w) (source_paths cb) \<or>
      list_ex (file_changed_since c w) (skill_roots cb) \<or>
      skill_files_changed_since (skill_roots cb) (sc_SkillFiles c) w)"

definition prompt_with_cache ::
  "context_builder \<Rightarrow> gostr list \<Rightarrow> file_world \<Rightarrow> prompt_cache \<Rightarrow> gostr \<times> prompt_cache" where
  "prompt_with_cache cb dates w c =
     (if sc_Prompt c \<noteq> [] \<and> \<not> source_files_changed cb c w then (sc_Prompt c, c)
      else let prompt = build_system_prompt cb dates w in (prompt, build_baseline cb w prompt))"

definition invalidate_cache :: "prompt_cache \<Rightarrow> prompt_cache" where
  "invalidate_cache c = no_cache"

section \<open>The messages of a request\<close>

definition dynamic_context :: "gostr \<Rightarrow> gostr \<Rightarrow> gostr \<Rightarrow> gostr \<Rightarrow> gostr" where
  "dynamic_context now rt channel chatID =
     ''## Current Time'' @ nl @ now @ nl @ nl @ ''## Runtime'' @ nl @ rt @
     (if channel \<noteq> [] \<and> chatID \<noteq> []
      then nl @ nl @ ''## Current Session'' @ nl @ ''Channel: '' @ channel @ nl @ ''Chat ID: '' @ chatID else [])"

definition context_messages ::
  "context_builder \<Rightarrow> gostr list \<Rightarrow> file_world \<Rightarrow> prompt_cache \<Rightarrow> gostr \<Rightarrow> gostr \<Rightarrow> 'v message list \<Rightarrow> gostr \<Rightarrow> gostr
   \<Rightarrow> gostr list \<Rightarrow> gostr \<Rightarrow> gostr \<Rightarrow> 'v message list \<times> prompt_cache" where
  "context_messages cb dates w c now rt history summary current media channel chatID =
     (case prompt_with_cache cb dates w c of (static, c') \<Rightarrow>
        (build_messages static (dynamic_context now rt channel chatID) history summary current media, c'))"

section \<open>Memory\<close>

lemma get_put [simp]: "get_file (put_file p s now w) p = Some s"
  by (simp add: get_file_def put_file_def read_file_def)

text \<open>A note appended to the day is at the end of what is read back, and nothing that was there is lost.\<close>

theorem append_today_keeps:
  "read_today ws date (append_today ws date heading content now w) =
     (if read_today ws date w = [] then ''# '' @ heading @ nl @ nl @ content else read_today ws date w @ nl @ content)"
  by (simp add: append_today_def read_today_def read_or_empty_def Let_def)

section \<open>When the cache is used\<close>

lemma join_with_nonempty: "x \<noteq> [] \<Longrightarrow> join_with sep (x # xs) \<noteq> []"
  by (cases xs) auto

lemma build_nonempty [simp]: "build_system_prompt cb dates w \<noteq> []"
proof -
  have "get_identity cb \<noteq> []" by (simp add: get_identity_def Let_def)
  then show ?thesis unfolding build_system_prompt_def Let_def append_Cons append_Nil by (rule join_with_nonempty)
qed

lemma fold_max_ge: "x \<in> set ts \<or> x \<le> m \<Longrightarrow> x \<le> fold max ts (m :: int)"
  by (induction ts arbitrary: m) (auto simp: max_def)

lemma max_mtime_ge: "x \<in> set ts \<Longrightarrow> x \<le> max_mtime ts"
  by (cases ts) (auto simp: max_mtime_def intro: fold_max_ge)

definition tracked_paths :: "context_builder \<Rightarrow> gostr list" where
  "tracked_paths cb = source_paths cb @ skill_roots cb"

lemma map_of_pairs: "p \<in> set ps \<Longrightarrow> map_of (map (\<lambda>p. (p, f p)) ps) p = Some (f p)"
  by (simp add: map_of_map_restrict)

lemma snapshot_set:
  "(p, m) \<in> set (skill_snapshot cb w) \<longleftrightarrow> stat w p = Some m \<and> (\<exists>root\<in>set (skill_roots cb). p \<in> set (walk_files w root))"
  by (auto simp: skill_snapshot_def split: option.splits)

lemma walk_stat: "p \<in> set (walk_files w root) \<Longrightarrow> \<exists>m. stat w p = Some m"
  by (auto simp: walk_files_def stat_def split: option.splits dest: weak_map_of_SomeI)

lemma file_changed_baseline:
  assumes "p \<in> set (tracked_paths cb)"
  shows "file_changed_since (build_baseline cb w0 prompt) w p \<longleftrightarrow>
    (case stat w p of None \<Rightarrow> stat w0 p \<noteq> None | Some m \<Rightarrow> stat w0 p = None \<or> m > max_mtime (tracked_times cb w0))"
  using map_of_pairs [of p "source_paths cb @ skill_roots cb" "\<lambda>p. stat w0 p \<noteq> None"] assms
  by (auto simp: file_changed_since_def build_baseline_def tracked_paths_def Let_def split: option.splits)

text \<open>What the cache looks at, and in what way the files may differ without its noticing.\<close>

definition unnoticed :: "context_builder \<Rightarrow> file_world \<Rightarrow> file_world \<Rightarrow> bool" where
  "unnoticed cb w0 w \<longleftrightarrow>
     list_all (\<lambda>p. case stat w p of None \<Rightarrow> stat w0 p = None
                   | Some m \<Rightarrow> stat w0 p \<noteq> None \<and> m \<le> max_mtime (tracked_times cb w0)) (tracked_paths cb) \<and>
     list_all (\<lambda>(p, m). stat w p = Some m) (skill_snapshot cb w0) \<and>
     list_all (\<lambda>root. trim_space root = [] \<or> list_all (\<lambda>p. p \<in> fst ` set (skill_snapshot cb w0)) (walk_files w root)) (skill_roots cb)"

lemma changed_baseline:
  "source_files_changed cb (build_baseline cb w0 prompt) w \<longleftrightarrow> \<not> unnoticed cb w0 w"
proof -
  have at0: "sc_At (build_baseline cb w0 prompt) \<noteq> None" and sf: "sc_SkillFiles (build_baseline cb w0 prompt) = Some (skill_snapshot cb w0)"
    by (simp_all add: build_baseline_def)
  have f: "(list_ex (file_changed_since (build_baseline cb w0 prompt) w) (source_paths cb) \<or>
      list_ex (file_changed_since (build_baseline cb w0 prompt) w) (skill_roots cb)) \<longleftrightarrow>
    \<not> list_all (\<lambda>p. case stat w p of None \<Rightarrow> stat w0 p = None
                   | Some m \<Rightarrow> stat w0 p \<noteq> None \<and> m \<le> max_mtime (tracked_times cb w0)) (tracked_paths cb)"
  proof -
    have "(list_ex Q xs \<or> list_ex Q ys) \<longleftrightarrow> \<not> list_all R (xs @ ys)" if "\<And>p. p \<in> set (xs @ ys) \<Longrightarrow> Q p \<longleftrightarrow> \<not> R p" for Q R and xs ys :: "gostr list"
      using that by (auto simp: list_ex_iff list_all_iff)
    then show ?thesis
      unfolding tracked_paths_def
      by (rule meta_mp) (auto simp: file_changed_baseline [unfolded tracked_paths_def] split: option.splits)
  qed
  have s: "skill_files_changed_since (skill_roots cb) (Some (skill_snapshot cb w0)) w \<longleftrightarrow>
     \<not> (list_all (\<lambda>(p, m). stat w p = Some m) (skill_snapshot cb w0) \<and>
     list_all (\<lambda>root. trim_space root = [] \<or> list_all (\<lambda>p. p \<in> fst ` set (skill_snapshot cb w0)) (walk_files w root)) (skill_roots cb))"
    by (auto simp: skill_files_changed_since_def list_ex_iff list_all_iff)
  show ?thesis unfolding source_files_changed_def sf s unnoticed_def using at0 f by blast
qed

lemma fresh_prompt: "prompt_with_cache cb dates w no_cache =
    (build_system_prompt cb dates w, build_baseline cb w (build_system_prompt cb dates w))"
  by (simp add: prompt_with_cache_def no_cache_def Let_def)

lemma cached_prompt:
  "fst (prompt_with_cache cb dates w (build_baseline cb w0 (build_system_prompt cb dates0 w0))) =
     (if unnoticed cb w0 w then build_system_prompt cb dates0 w0 else build_system_prompt cb dates w)"
  by (simp add: prompt_with_cache_def changed_baseline Let_def) (simp add: build_baseline_def)

text \<open>Exactly when a second request gets the prompt of the first: when no watched path has come or gone, no time is later than
  the latest seen, and the files of the skills are the same with the same times. The day, the daily notes and what the
  files hold play no part.\<close>

theorem prompt_reused:
  "fst (prompt_with_cache cb dates w (snd (prompt_with_cache cb dates0 w0 no_cache))) =
     (if unnoticed cb w0 w then build_system_prompt cb dates0 w0 else build_system_prompt cb dates w)"
  unfolding fresh_prompt snd_conv by (rule cached_prompt)

section \<open>When the prompt is right\<close>

lemma read_file_dom: "p \<in> fst ` set t \<longleftrightarrow> read_file t p \<noteq> None"
  by (simp add: read_file_def domIff dom_map_of_conv_image_fst [symmetric])

lemma child_of_prefix: "n \<in> set (child_of d p) \<Longrightarrow> has_prefix p (d @ ''/'')"
  by (rule ccontr) (simp add: child_of_def)

lemma skill_dirs_members:
  "set (concat (map (child_of d) (map fst t))) =
     {n. \<exists>p. read_file t p \<noteq> None \<and> has_prefix p (d @ ''/'') \<and> n \<in> set (child_of d p)}"
proof -
  have "set (concat (map (child_of d) (map fst t))) = {n. \<exists>p. p \<in> fst ` set t \<and> n \<in> set (child_of d p)}" by auto
  then show ?thesis unfolding read_file_dom using child_of_prefix by blast
qed

lemma skill_dirs_cong:
  assumes "\<And>p. has_prefix p (clean dir @ ''/'') \<Longrightarrow> read_file t p = read_file t' p"
  shows "skill_dirs t dir = skill_dirs t' dir"
proof -
  have "(read_file t p \<noteq> None \<and> has_prefix p (clean dir @ ''/'') \<and> n \<in> set (child_of (clean dir) p)) =
    (read_file t' p \<noteq> None \<and> has_prefix p (clean dir @ ''/'') \<and> n \<in> set (child_of (clean dir) p))" for p n
    using assms [of p] by (cases "has_prefix p (clean dir @ ''/'')") simp_all
  then show ?thesis
    unfolding skill_dirs_def sorted_list_of_set_sort_remdups [symmetric] skill_dirs_members by (simp only:)
qed

lemma has_prefix_append: "has_prefix (p @ q) p"
  by (simp add: has_prefix_iff)

lemma dir_skills_cong:
  assumes "\<And>p. fst ds \<noteq> [] \<Longrightarrow> has_prefix p (clean (fst ds) @ ''/'') \<Longrightarrow> read_file t p = read_file t' p"
  shows "dir_skills ps t ds = dir_skills ps t' ds"
proof (cases "fst ds = []")
  case False
  have "read_file t (clean (fst ds) @ ''/'' @ name @ ''/SKILL.md'') = read_file t' (clean (fst ds) @ ''/'' @ name @ ''/SKILL.md'')" for name
    using assms [OF False] has_prefix_append [of "clean (fst ds) @ ''/''"] by simp
  then have "skill_entry ps t (snd ds) (fst ds) = skill_entry ps t' (snd ds) (fst ds)"
    by (intro ext) (simp add: skill_entry_def skill_metadata_def Let_def)
  with skill_dirs_cong [OF assms [OF False]] show ?thesis by (simp add: dir_skills_def)
qed (simp add: dir_skills_def)

text \<open>The directories of the loader are among the roots that are watched, if no white space surrounds them.\<close>

definition proper_loader :: "context_builder \<Rightarrow> bool" where
  "proper_loader cb \<longleftrightarrow>
     list_all (\<lambda>ds. fst ds = [] \<or> trimmed (fst ds)) (loader_dirs (cb_Loader cb)) \<and>
     list_all (\<lambda>root. trim_space root \<noteq> []) (skill_roots cb)"

lemma loader_root_in:
  assumes "ds \<in> set (loader_dirs (cb_Loader cb))" "fst ds \<noteq> []" "proper_loader cb"
  shows "clean (fst ds) \<in> set (skill_roots cb)"
proof -
  have k: "set out \<subseteq> set (add_root d out)" for d out by (auto simp: add_root_def Let_def)
  have n: "trimmed d \<Longrightarrow> d \<noteq> [] \<Longrightarrow> clean d \<in> set (add_root d out)" for d out
    by (auto simp: add_root_def Let_def trim_space_trimmed)
  have "trimmed (fst ds)" using assms by (auto simp: proper_loader_def list_all_iff)
  then have "clean (fst ds) \<in> set (loader_roots (cb_Loader cb))"
    using assms(1,2) n k by (auto simp: loader_dirs_def loader_roots_def) blast+
  then show ?thesis by (auto simp: skill_roots_def Let_def)
qed

text \<open>Files change honestly: a watched file whose content has changed is later than all that was seen, and a file of a skill
  whose content has changed has another time.\<close>

definition honest_times :: "context_builder \<Rightarrow> file_world \<Rightarrow> file_world \<Rightarrow> bool" where
  "honest_times cb w0 w \<longleftrightarrow>
     list_all (\<lambda>p. get_file w p = get_file w0 p \<or> stat w p = None \<or> stat w0 p = None \<or>
                 the (stat w p) > max_mtime (tracked_times cb w0)) (source_paths cb) \<and>
     list_all (\<lambda>(p, m). stat w p \<noteq> Some m \<or> get_file w p = get_file w0 p) (skill_snapshot cb w0)"

lemma stat_None: "stat w p = None \<Longrightarrow> get_file w p = None"
  by (auto simp: stat_def get_file_def read_file_def split: option.splits)

lemma unnoticed_tracked:
  assumes "unnoticed cb w0 w" "p \<in> set (tracked_paths cb)"
  shows "case stat w p of None \<Rightarrow> stat w0 p = None
           | Some m \<Rightarrow> stat w0 p \<noteq> None \<and> m \<le> max_mtime (tracked_times cb w0)"
  using assms unfolding unnoticed_def list_all_iff by blast

lemma unnoticed_sources:
  assumes "unnoticed cb w0 w" "honest_times cb w0 w" "p \<in> set (source_paths cb)"
  shows "get_file w p = get_file w0 p"
proof (cases "stat w p")
  case None
  with unnoticed_tracked [OF assms(1), of p] assms(3) have "stat w0 p = None" by (simp add: tracked_paths_def)
  with None show ?thesis by (simp add: stat_None)
next
  case (Some m)
  with unnoticed_tracked [OF assms(1), of p] assms(3) have "stat w0 p \<noteq> None" "m \<le> max_mtime (tracked_times cb w0)"
    by (simp_all add: tracked_paths_def)
  moreover have "get_file w p = get_file w0 p \<or> stat w p = None \<or> stat w0 p = None \<or> the (stat w p) > max_mtime (tracked_times cb w0)"
    using assms(2,3) by (auto simp: honest_times_def list_all_iff)
  ultimately show ?thesis using Some by auto
qed

lemma unnoticed_skills:
  assumes "unnoticed cb w0 w" "honest_times cb w0 w" "root \<in> set (skill_roots cb)" "trim_space root \<noteq> []"
    and "has_prefix p (root @ ''/'')"
  shows "get_file w p = get_file w0 p"
proof -
  have walk: "p \<in> set (walk_files u root) \<longleftrightarrow> get_file u p \<noteq> None" for u
    unfolding get_file_def read_file_dom [symmetric] walk_files_def using assms(5) by auto
  show ?thesis
  proof (cases "p \<in> fst ` set (skill_snapshot cb w0)")
    case True
    then obtain m where m: "(p, m) \<in> set (skill_snapshot cb w0)" by auto
    with assms(1) have "stat w p = Some m" by (auto simp: unnoticed_def list_all_iff)
    with m assms(2) show ?thesis by (auto simp: honest_times_def list_all_iff)
  next
    case False
    then have "p \<notin> set (walk_files w0 root)"
      using assms(3) walk_stat [of p w0 root] by (metis fst_conv image_eqI snapshot_set)
    moreover from False assms(1,3,4) have "p \<notin> set (walk_files w root)" by (auto simp: unnoticed_def list_all_iff)
    ultimately show ?thesis using walk by auto
  qed
qed

text \<open>C22 If times tell of changes, no daily note has changed and the last days are the same, a request gets the prompt that
  building it anew would give.\<close>

theorem prompt_current:
  assumes "proper_loader cb" "honest_times cb w0 w"
    and "recent_notes (cb_Workspace cb) w True dates = recent_notes (cb_Workspace cb) w0 True dates0"
  shows "fst (prompt_with_cache cb dates w (snd (prompt_with_cache cb dates0 w0 no_cache))) = build_system_prompt cb dates w"
proof (cases "unnoticed cb w0 w")
  case True
  have src: "get_file w p = get_file w0 p" if "p \<in> set (source_paths cb)" for p
    using unnoticed_sources [OF True assms(2) that] .
  have b: "load_bootstrap_files (cb_Workspace cb) w = load_bootstrap_files (cb_Workspace cb) w0"
    using src by (simp add: load_bootstrap_files_def source_paths_def bootstrap_files_def)
  have m: "memory_context (cb_Workspace cb) dates w = memory_context (cb_Workspace cb) dates0 w0"
    using src [of "memory_file (cb_Workspace cb)"] assms(3)
    by (simp add: memory_context_def read_long_term_def read_or_empty_def source_paths_def)
  have "dir_skills ps (fw_Files w) ds = dir_skills ps (fw_Files w0) ds" if "ds \<in> set (loader_dirs (cb_Loader cb))" for ps ds
  proof (rule dir_skills_cong)
    fix p assume p: "fst ds \<noteq> []" "has_prefix p (clean (fst ds) @ ''/'')"
    have r: "clean (fst ds) \<in> set (skill_roots cb)" by (rule loader_root_in [OF that p(1) assms(1)])
    then have "trim_space (clean (fst ds)) \<noteq> []" using assms(1) by (auto simp: proper_loader_def list_all_iff)
    from unnoticed_skills [OF True assms(2) r this p(2)] show "read_file (fw_Files w) p = read_file (fw_Files w0) p"
      by (simp add: get_file_def)
  qed
  then have "skills_summary ps (fw_Files w) (cb_Loader cb) = skills_summary ps (fw_Files w0) (cb_Loader cb)" for ps
    by (simp add: skills_summary_def list_skills_fold cong: map_cong)
  with b m have "build_system_prompt cb dates0 w0 = build_system_prompt cb dates w" by (simp add: build_system_prompt_def)
  with True show ?thesis unfolding fresh_prompt snd_conv cached_prompt by simp
next
  case False
  then show ?thesis unfolding fresh_prompt snd_conv cached_prompt by simp
qed

definition example_builder :: context_builder where
  "example_builder =
     \<lparr>cb_Workspace = ''/w'', cb_Loader = new_skills_loader ''/w'' ''/g'' [], cb_BM25 = True, cb_Regex = False,
      cb_Parsers = \<lparr>ps_normalize = (\<lambda>s. s), ps_markdown = Pair [], ps_json = (\<lambda>s. None), ps_yaml = (\<lambda>s. None)\<rparr>,
      cb_Version = ''dev''\<rparr>"

definition example_files :: file_world where
  "example_files =
     \<lparr>fw_Files = [(''/w/memory/MEMORY.md'', \<lparr>sf_Content = ''tea'', sf_MTime = 5\<rparr>),
                  (''/w/skills/go/SKILL.md'', \<lparr>sf_Content = ''Use gofmt.'', sf_MTime = 4\<rparr>)],
      fw_Dirs = [(''/w/skills'', 3)]\<rparr>"

lemma prompt_current_witness:
  "fst (prompt_with_cache example_builder [''20260131''] (write_long_term ''/w'' ''coffee'' 9 example_files)
      (snd (prompt_with_cache example_builder [''20260131''] example_files no_cache))) =
   build_system_prompt example_builder [''20260131''] (write_long_term ''/w'' ''coffee'' 9 example_files)"
  by (rule prompt_current; code_simp)

section \<open>Notes\<close>

lemma unnoticed_refl:
  assumes "\<And>p. p \<in> set (tracked_paths cb) \<Longrightarrow> stat w p = stat w0 p"
    and "\<And>root. root \<in> set (skill_roots cb) \<Longrightarrow> set (walk_files w root) = set (walk_files w0 root)"
    and "\<And>root p. root \<in> set (skill_roots cb) \<Longrightarrow> p \<in> set (walk_files w0 root) \<Longrightarrow> stat w p = stat w0 p"
  shows "unnoticed cb w0 w"
proof -
  have "m \<le> max_mtime (tracked_times cb w0)" if "p \<in> set (tracked_paths cb)" "stat w0 p = Some m" for p m
    using that by (intro max_mtime_ge) (force simp: tracked_times_def tracked_paths_def)
  then have 1: "list_all (\<lambda>p. case stat w p of None \<Rightarrow> stat w0 p = None
                   | Some m \<Rightarrow> stat w0 p \<noteq> None \<and> m \<le> max_mtime (tracked_times cb w0)) (tracked_paths cb)"
    using assms(1) by (auto simp: list_all_iff split: option.splits)
  have 2: "list_all (\<lambda>(p, m). stat w p = Some m) (skill_snapshot cb w0)"
    using assms(3) by (auto simp: list_all_iff snapshot_set)
  have "p \<in> fst ` set (skill_snapshot cb w0)" if "root \<in> set (skill_roots cb)" "p \<in> set (walk_files w root)" for root p
    using that assms(2) walk_stat [of p w0 root] by (metis fst_conv image_eqI snapshot_set)
  with 1 2 show ?thesis by (auto simp: unnoticed_def list_all_iff)
qed

lemma stat_put: "q \<noteq> p \<Longrightarrow> stat (put_file p s now w) q = stat w q"
  by (cases "map_of (fw_Files w) q") (simp_all add: put_file_def stat_def)



end
