(* ===== verification/Spec2Isabelle.thy ===== *)
theory Spec2Isabelle imports Fallback Route Complexity Message_Bus Split_Message Access Session_Manager Media_Store Cron_Service Search_Cache Conversation Dispatch Channel_Manager Exec_Guard Heartbeat Subagents Cron_Tool Provider_Factory Web_Access System_Prompt begin

text \<open>
  Verification development for NookClaw, an assistant that connects chat channels to language models.

  \<^bold>\<open>The program\<close>. A gateway (\<open>src/cmd/nookclaw\<close>) runs the parts below in one process. A chat adapter hands what a user
  writes to the base channel (\<open>src/pkg/channels/base.go\<close>), which admits or drops the sender and publishes the message
  on the bus (\<open>src/pkg/bus\<close>). The agent loop (\<open>src/pkg/agent/loop.go\<close>) takes it, routes it to an agent and a session
  (\<open>src/pkg/routing\<close>), answers a slash command itself (\<open>src/pkg/commands\<close>) or runs a turn: it builds a request from the
  stored history (\<open>src/pkg/session\<close>, \<open>src/pkg/memory\<close>), calls a model through a chain of fallbacks with cooldowns
  (\<open>src/pkg/providers\<close>), runs the tools the model asks for (\<open>src/pkg/tools\<close>) and publishes the answer, which the channel
  manager (\<open>src/pkg/channels/manager.go\<close>) splits and sends. Jobs (\<open>src/pkg/cron\<close>) start turns at their times; media live in
  a store of their own (\<open>src/pkg/media\<close>).

  \<^bold>\<open>The theories\<close>, each beside the code it models.
  \<^item> \<open>Prelude\<close>, \<open>Float64\<close>, \<open>Regex\<close>, \<open>File_Path\<close>: Go strings and times, \<open>float64\<close> arithmetic, regular expressions and
    paths, as the standard library documents them, with the lemmas the components share. \<open>File_Path\<close> also holds the
    test for the workspace of \<open>src/pkg/tools/filesystem.go\<close> and proves it exact.
  \<^item> \<open>Cooldown\<close>, \<open>Error_Classifier\<close>, \<open>Model_Ref\<close>, \<open>Fallback\<close>: \<open>src/pkg/providers/\<close> with \<open>cooldown.go\<close>, \<open>error_classifier.go\<close>,
    \<open>types.go\<close>, \<open>model_ref.go\<close> and \<open>fallback.go\<close>. The chain relies on the cooldown through the locale \<open>provider_health\<close>. Lemmas:
    what a success means, one call for each candidate at most, growing pauses.
  \<^item> \<open>Agent_Id\<close>, \<open>Session_Key\<close>, \<open>Route\<close>, \<open>Complexity\<close>: \<open>src/pkg/routing/\<close>, with the agent registry of \<open>src/pkg/agent/registry.go\<close>. Lemmas: the
    cascade of bindings, round trips of keys, sessions that are not shared. Locales \<open>classifier\<close>, \<open>gated_classifier\<close>.
  \<^item> \<open>Message_Bus\<close>: \<open>src/pkg/bus/bus.go\<close> as threads that take atomic steps; order, loss and closing for all interleavings.
  \<^item> \<open>Access\<close>: \<open>src/pkg/identity/identity.go\<close> and \<open>src/pkg/channels/base.go\<close>.
  \<^item> \<open>Protocol\<close>, \<open>Session_Store\<close>, \<open>Jsonl_Store\<close>, \<open>Session_Manager\<close>: messages (\<open>src/pkg/providers/protocoltypes\<close>), and the two session
    stores with the migration between them (\<open>src/pkg/memory/jsonl.go\<close>, \<open>migration.go\<close>, \<open>src/pkg/session/manager.go\<close>,
    \<open>jsonl_backend.go\<close>). The locale \<open>session_store\<close> is what the agent relies on; the abstract store is a list of messages
    and a summary, and the file store refines it, crashes included.
  \<^item> \<open>History\<close>, \<open>Tool_Registry\<close>, \<open>Agent_Turn\<close>, \<open>Conversation\<close>: a turn of an agent (\<open>src/pkg/agent/context.go\<close>, \<open>loop.go\<close>,
    \<open>loop_media.go\<close>), the registry of tools (\<open>src/pkg/tools/registry.go\<close>, \<open>result.go\<close>, \<open>search_tool.go\<close>), the loop of
    sub-agents (\<open>toolloop.go\<close>) and the summaries. Lemmas: every request is well formed, turns end, what a turn leaves in
    its session. Locale \<open>agent_sessions\<close>.
  \<^item> \<open>Commands\<close>, \<open>Model_Choice\<close>, \<open>Dispatch\<close>: slash commands, the choice of the model and \<open>callLLM\<close>, and a whole round from a
    message to its reply. Locales \<open>command_effect\<close> and \<open>world_condition\<close> carry an effect through a command and a round.
  \<^item> \<open>Split_Message\<close>, \<open>Channel_Manager\<close>: \<open>src/pkg/channels/split.go\<close>, \<open>manager.go\<close>, \<open>errutil.go\<close>: what is sent, how often it is
    tried, the dispatcher and its workers as interleaved steps, stop and reload.
  \<^item> \<open>Sandbox\<close>, \<open>File_Tools\<close>, \<open>Exec_Guard\<close>: \<open>src/pkg/tools/filesystem.go\<close>, \<open>edit.go\<close>, \<open>shell.go\<close> and \<open>src/pkg/fileutil/file.go\<close> over a
    tree of files with symbolic links. Lemmas: the sandbox is confined and refines the host, paging and editing are
    exact, what the guard of commands holds back and what it does not. Locale \<open>file_store\<close>.
  \<^item> \<open>Heartbeat\<close>: \<open>src/pkg/state/state.go\<close>, \<open>src/pkg/heartbeat/service.go\<close>, the notices of \<open>src/pkg/devices/service.go\<close>, and how the gateway
    sets them up beside the agent loop. Lemmas: when the service beats, what counts as a task, and who remembers which
    channel. Locale \<open>last_value\<close>.
  \<^item> \<open>Subagents\<close>: \<open>src/pkg/tools/subagent.go\<close>, \<open>spawn.go\<close> and the callback of the agent loop. Lemmas: the life of a task, what is
    reported, what a sub-agent can do and what makes no difference to it.
  \<^item> \<open>Cron_Tool\<close>: \<open>src/pkg/tools/cron.go\<close> over the scheduler, the agent loop and the shell tool, with the callback of the
    gateway. Lemmas: how commands get into the schedule and out of it, and what becomes of the answers of jobs.
  \<^item> \<open>Config\<close>, \<open>Provider_Factory\<close>: \<open>src/pkg/config/config.go\<close>, \<open>migration.go\<close>, \<open>defaults.go\<close>, \<open>src/pkg/providers/factory_provider.go\<close>,
    \<open>legacy_provider.go\<close>, and what an agent takes from the list of models (\<open>src/pkg/agent/instance.go\<close>). Lemmas: what the
    conversion of old files keeps and loses, round robin, saving and loading, which key goes to which address.
  \<^item> \<open>IP_Address\<close>, \<open>Web_Access\<close>: \<open>src/pkg/tools/web.go\<close> with \<open>src/pkg/utils/http_client.go\<close>: the guard of \<open>web_fetch\<close> against private
    addresses, redirects and proxies, searching with a pool of keys, the text of a page. Lemmas: no connection to a
    restricted address, which addresses these are, what a proxy changes, the order of keys.
  \<^item> \<open>Skills\<close>, \<open>System_Prompt\<close>: \<open>src/pkg/skills/loader.go\<close>, \<open>src/pkg/agent/context.go\<close> and \<open>memory.go\<close>: which skills there are,
    the memory of an agent, the system prompt and the cache that keeps it. Lemmas: when the cache gives the prompt that
    building it anew would give, what it does not notice, the list of skills and its escaping.
  \<^item> \<open>Media_Store\<close>, \<open>Cron_Service\<close>, \<open>Search_Cache\<close>: \<open>src/pkg/media/store.go\<close>, \<open>src/pkg/cron/service.go\<close>, \<open>src/pkg/skills/search_cache.go\<close> with
    the fan-out of \<open>registry.go\<close>. Locales \<open>media_registry\<close> and \<open>query_cache\<close>.

  \<^bold>\<open>How code becomes definitions\<close>. A struct is a record, a method a function from state to state; an error is a value
  of a sum or option type. What runs concurrently is a sequence of atomic steps chosen by an argument or an
  inductive relation. What the repository does not contain or only calls (models, chat services, processes, clocks,
  random bits, the order in which Go visits a map, JSON) is an argument; hypotheses about it say what its
  documentation says. Integers keep their width where they can overflow (\<open>int64\<close> in the jobs and in tool arguments).

  \<^bold>\<open>Bounds and fuel\<close>. The splitter takes fuel: one unit for each rune is enough for a text without a code fence, and
  \<open>split_message_diverges\<close> shows a text for which none is. The turn takes none: it recurses on the iterations left. The
  loops over retries recurse on the retries left. Path resolution recurses on the links left (40 for the kernel, 8 for a root,
  255 for \<open>EvalSymlinks\<close>) and the elements left. A search for all matches of a pattern takes the length of the text, as
  each match consumes a character.

  \<^bold>\<open>Not modelled\<close>. The chat adapters and the model providers speak to services over their SDKs and are glue
  around them; the command line, the set-up wizard, the launcher and its web interface are input and output; the sections of the
  configuration for channels, tools and the gateway are data; devices and buses are system calls. Unicode case folding is limited
  to ASCII. Logging is left out everywhere. The texts of most errors are values instead of strings.
\<close>

end
